(* ===== verification/Prelude.thy ===== *)
theory Prelude
  imports Main "HOL-Library.Word" "HOL-Library.Char_ord" "HOL-Library.List_Lexorder"
begin

text \<open>
  Shared vocabulary of the development: the outcome type of the modelled Rust functions, bytes and
  texts, the checked and saturating arithmetic of the source, fixed-width big-endian reads, UTF-8,
  and the generic lemmas the components use.

  Conventions. The modelled target is 64 bit, so \<open>usize\<close> and \<open>u64\<close> have the same range. A count,
  a size or a cursor is a \<open>nat\<close>; every addition that the source checks or saturates is written with
  \<open>checked_add\<close> or \<open>saturating_add\<close>. A value the source assembles by shifts is a word of
  the source's width. A Rust \<open>String\<close> is a HOL \<open>string\<close> whose characters are its UTF-8 bytes; a
  \<open>Vec<u8>\<close> is a list of 8-bit words.
\<close>

unbundle bit_operations_syntax

section \<open>Outcomes\<close>

text \<open>
  A fallible function returns \<open>Ok\<close> or \<open>Err\<close>; \<open>Panic\<close> is an \<open>expect\<close>, an index out of range or an
  \<open>unreachable!\<close> that the source would abort on.
\<close>

datatype ('a, 'e) result = Ok 'a | Err 'e | Panic

named_theorems result_iffs \<open>inversion of composed outcomes\<close>

text \<open>The question mark operator: continue on \<open>Ok\<close>, stop otherwise.\<close>

fun and_then :: "('a, 'e) result \<Rightarrow> ('a \<Rightarrow> ('b, 'e) result) \<Rightarrow> ('b, 'e) result" where
  "and_then (Ok x) f = f x"
| "and_then (Err e) f = Err e"
| "and_then Panic f = Panic"

fun map_err :: "('e \<Rightarrow> 'f) \<Rightarrow> ('a, 'e) result \<Rightarrow> ('a, 'f) result" where
  "map_err g (Ok x) = Ok x"
| "map_err g (Err e) = Err (g e)"
| "map_err g Panic = Panic"

fun ok_or :: "'e \<Rightarrow> 'a option \<Rightarrow> ('a, 'e) result" where
  "ok_or e None = Err e"
| "ok_or e (Some x) = Ok x"

text \<open>\<open>Option::expect\<close>: the value, or a panic.\<close>

fun expect :: "'a option \<Rightarrow> ('a, 'e) result" where
  "expect None = Panic"
| "expect (Some x) = Ok x"

text \<open>An early return: the error when the condition holds.\<close>

definition fail_if :: "bool \<Rightarrow> 'e \<Rightarrow> (unit, 'e) result" where
  "fail_if b e = (if b then Err e else Ok ())"

text \<open>An outcome that is not a panic and whose error, if any, is of the given kind.\<close>

fun fails_only :: "('e \<Rightarrow> bool) \<Rightarrow> ('a, 'e) result \<Rightarrow> bool" where
  "fails_only P (Ok x) = True"
| "fails_only P (Err e) = P e"
| "fails_only P Panic = False"

lemma fails_onlyI: "r \<noteq> Panic \<Longrightarrow> (\<And>e. r = Err e \<Longrightarrow> P e) \<Longrightarrow> fails_only P r"
  by (cases r) auto

lemma and_then_Ok_iff [result_iffs]:
  "and_then r f = Ok y \<longleftrightarrow> (\<exists>x. r = Ok x \<and> f x = Ok y)"
  by (cases r) auto

lemma and_then_Err_iff [result_iffs]:
  "and_then r f = Err e \<longleftrightarrow> r = Err e \<or> (\<exists>x. r = Ok x \<and> f x = Err e)"
  by (cases r) auto

lemma and_then_Panic_iff [result_iffs]:
  "and_then r f = Panic \<longleftrightarrow> r = Panic \<or> (\<exists>x. r = Ok x \<and> f x = Panic)"
  by (cases r) auto

lemma map_err_Ok_iff [simp]: "map_err g r = Ok x \<longleftrightarrow> r = Ok x"
  by (cases r) auto

lemma map_err_Err_iff [result_iffs]: "map_err g r = Err e \<longleftrightarrow> (\<exists>e'. r = Err e' \<and> e = g e')"
  by (cases r) auto

lemma map_err_Panic_iff [simp]: "map_err g r = Panic \<longleftrightarrow> r = Panic"
  by (cases r) auto

lemma ok_or_Ok_iff [simp]: "ok_or e v = Ok x \<longleftrightarrow> v = Some x"
  by (cases v) auto

lemma ok_or_Err_iff [simp]: "ok_or e v = Err e' \<longleftrightarrow> v = None \<and> e' = e"
  by (cases v) auto

lemma ok_or_not_Panic [simp]: "ok_or e v \<noteq> Panic"
  by (cases v) auto

lemma expect_Ok_iff [simp]: "expect v = Ok x \<longleftrightarrow> v = Some x"
  by (cases v) auto

lemma expect_Panic_iff [simp]: "expect v = Panic \<longleftrightarrow> v = None"
  by (cases v) auto

lemma expect_not_Err [simp]: "expect v \<noteq> Err e"
  by (cases v) auto

lemma fail_if_const [simp]: "fail_if False e = Ok ()" "fail_if True e = Err e"
  by (simp_all add: fail_if_def)

lemma fail_if_Ok_iff [simp]: "fail_if b e = Ok u \<longleftrightarrow> \<not> b"
  by (simp add: fail_if_def)

lemma fail_if_Err_iff [simp]: "fail_if b e = Err e' \<longleftrightarrow> b \<and> e' = e"
  by (auto simp: fail_if_def)

lemma fail_if_not_Panic [simp]: "fail_if b e \<noteq> Panic"
  by (simp add: fail_if_def)

named_theorems outcome_intros \<open>error typing of composed outcomes\<close>

lemma fails_only_and_then [outcome_intros]:
  "fails_only P r \<Longrightarrow> (\<And>x. r = Ok x \<Longrightarrow> fails_only P (f x)) \<Longrightarrow> fails_only P (and_then r f)"
  by (cases r) auto

lemma fails_only_prod [outcome_intros]:
  "(\<And>a b. x = (a, b) \<Longrightarrow> fails_only P (f a b)) \<Longrightarrow> fails_only P (case x of (a, b) \<Rightarrow> f a b)"
  by (cases x) auto

lemma fails_only_if [outcome_intros]:
  "(b \<Longrightarrow> fails_only P r) \<Longrightarrow> (\<not> b \<Longrightarrow> fails_only P s) \<Longrightarrow> fails_only P (if b then r else s)"
  by simp

lemma fails_only_map_err: "fails_only P (map_err g r) \<longleftrightarrow> fails_only (\<lambda>e. P (g e)) r"
  by (cases r) auto

lemma fails_only_fail_if: "fails_only P (fail_if b e) \<longleftrightarrow> (b \<longrightarrow> P e)"
  by (simp add: fail_if_def)

lemma fails_only_ok_or: "fails_only P (ok_or e v) \<longleftrightarrow> (v = None \<longrightarrow> P e)"
  by (cases v) auto

lemma fails_only_mono: "fails_only P r \<Longrightarrow> (\<And>e. P e \<Longrightarrow> Q e) \<Longrightarrow> fails_only Q r"
  by (cases r) auto

lemma fails_only_not_Panic: "fails_only P r \<Longrightarrow> r \<noteq> Panic"
  by auto

lemma fails_only_Err: "fails_only P r \<Longrightarrow> r = Err e \<Longrightarrow> P e"
  by auto

lemma and_then_cong [fundef_cong]:
  "\<lbrakk>r = r'; \<And>x. r' = Ok x \<Longrightarrow> f x = f' x\<rbrakk> \<Longrightarrow> and_then r f = and_then r' f'"
  by (cases r') auto

section \<open>Machine arithmetic\<close>

definition u64_max :: nat where "u64_max = 2 ^ 64 - 1"

definition u32_max :: nat where "u32_max = 2 ^ 32 - 1"

definition checked_add :: "nat \<Rightarrow> nat \<Rightarrow> nat option" where
  "checked_add a b = (if a + b \<le> u64_max then Some (a + b) else None)"

definition checked_mul :: "nat \<Rightarrow> nat \<Rightarrow> nat option" where
  "checked_mul a b = (if a * b \<le> u64_max then Some (a * b) else None)"

definition checked_sub :: "nat \<Rightarrow> nat \<Rightarrow> nat option" where
  "checked_sub a b = (if b \<le> a then Some (a - b) else None)"

definition saturating_add :: "nat \<Rightarrow> nat \<Rightarrow> nat" where
  "saturating_add a b = min (a + b) u64_max"

lemma checked_add_Some_iff [simp]: "checked_add a b = Some c \<longleftrightarrow> c = a + b \<and> a + b \<le> u64_max"
  by (auto simp: checked_add_def)

lemma checked_add_None_iff [simp]: "checked_add a b = None \<longleftrightarrow> u64_max < a + b"
  by (auto simp: checked_add_def)

lemma checked_mul_Some_iff [simp]: "checked_mul a b = Some c \<longleftrightarrow> c = a * b \<and> a * b \<le> u64_max"
  by (auto simp: checked_mul_def)

lemma checked_mul_None_iff [simp]: "checked_mul a b = None \<longleftrightarrow> u64_max < a * b"
  by (auto simp: checked_mul_def)

lemma checked_sub_Some_iff [simp]: "checked_sub a b = Some c \<longleftrightarrow> c = a - b \<and> b \<le> a"
  by (auto simp: checked_sub_def)

lemma checked_sub_None_iff [simp]: "checked_sub a b = None \<longleftrightarrow> a < b"
  by (auto simp: checked_sub_def)

lemma saturating_add_le_max [simp]: "saturating_add a b \<le> u64_max"
  by (simp add: saturating_add_def)

lemma saturating_add_exact: "saturating_add a b \<le> m \<Longrightarrow> m < u64_max \<Longrightarrow> saturating_add a b = a + b"
  by (auto simp: saturating_add_def min_def split: if_splits)

section \<open>Bytes and slices\<close>

type_synonym byte = "8 word"
type_synonym bytes = "byte list"

text \<open>The range read \<open>bytes.get(a..b)\<close>.\<close>

definition get_range :: "nat \<Rightarrow> nat \<Rightarrow> 'a list \<Rightarrow> 'a list option" where
  "get_range a b xs = (if a \<le> b \<and> b \<le> length xs then Some (take (b - a) (drop a xs)) else None)"

text \<open>The single read \<open>bytes.get(i)\<close>.\<close>

definition get_at :: "nat \<Rightarrow> 'a list \<Rightarrow> 'a option" where
  "get_at i xs = (if i < length xs then Some (xs ! i) else None)"

lemma get_range_Some_iff:
  "get_range a b xs = Some ys \<longleftrightarrow> a \<le> b \<and> b \<le> length xs \<and> ys = take (b - a) (drop a xs)"
  by (auto simp: get_range_def)

lemma get_range_length: "get_range a b xs = Some ys \<Longrightarrow> length ys = b - a"
  by (auto simp: get_range_Some_iff)

lemma get_range_append: "get_range (length p) (length p + length m) (p @ m @ s) = Some m"
  by (simp add: get_range_def)

lemma get_at_Some_iff: "get_at i xs = Some x \<longleftrightarrow> i < length xs \<and> x = xs ! i"
  by (auto simp: get_at_def)

lemma get_at_None_iff [simp]: "get_at i xs = None \<longleftrightarrow> length xs \<le> i"
  by (auto simp: get_at_def)

lemma get_at_append [simp]: "get_at (length p) (p @ x # s) = Some x"
  by (simp add: get_at_def)

lemma sorted_wrt_less_snoc:
  "sorted_wrt (<) (xs @ [y]) \<longleftrightarrow> sorted_wrt (<) xs \<and> (xs \<noteq> [] \<longrightarrow> last xs < (y :: 'a :: order))"
proof (induction xs)
  case (Cons x xs)
  then show ?case by (cases "xs = []") (auto simp: sorted_wrt_append intro: less_trans last_in_set)
qed simp

lemma unat_byte_less [simp]: "unat (b :: byte) < 256"
  using unsigned_less [of b] by simp

lemma word_of_nat_byte: "n < 256 \<Longrightarrow> unat (word_of_nat n :: byte) = n"
  by (simp add: unat_of_nat take_bit_eq_mod)

section \<open>Bits\<close>

text \<open>The masks the binary formats use, as arithmetic on the unsigned values.\<close>

lemma or_push_bit_nat: "a < 2 ^ n \<Longrightarrow> a OR push_bit n b = a + b * 2 ^ n" for a b :: nat
proof -
  assume a: "a < 2 ^ n"
  have "\<not> bit a m" if "n \<le> m" for m
    using a that by (metis bit_take_bit_iff leD take_bit_nat_eq_self)
  then have "a AND push_bit n b = 0"
    by (intro bit_eqI) (auto simp: bit_and_iff bit_push_bit_iff not_less)
  then have "a + push_bit n b = a OR push_bit n b" by (rule disjunctive_add_eq_or)
  then show ?thesis by (simp add: push_bit_eq_mult)
qed

lemma and_low7: "b AND 127 = take_bit 7 (b :: byte)"
  by (simp add: take_bit_eq_mask mask_eq_exp_minus_1)

lemma unat_and_low7 [simp]: "unat (b AND 127 :: byte) = unat b mod 128"
proof -
  have "unat (take_bit 7 b) = take_bit 7 (unat b)" by (simp only: unsigned_take_bit_eq)
  then show ?thesis unfolding and_low7 by (simp only: take_bit_eq_mod) simp
qed

lemma and_high_eq_0 [simp]: "(b :: byte) AND 128 = 0 \<longleftrightarrow> unat b < 128"
proof -
  have "b AND 128 = 0 \<longleftrightarrow> \<not> bit b 7"
    using and_exp_eq_0_iff_not_bit [of b 7] by simp
  also have "bit b 7 \<longleftrightarrow> bit (unat b) 7" by (simp add: bit_unsigned_iff)
  also have "bit (unat b) 7 \<longleftrightarrow> odd (unat b div 128)" by (simp add: bit_iff_odd)
  also have "odd (unat b div 128) \<longleftrightarrow> \<not> unat b < 128"
  proof -
    have "unat b < 256" by simp
    then have "unat b div 128 < 2" by (simp add: less_mult_imp_div_less)
    then show ?thesis by (cases "unat b < 128") (auto simp: less_2_cases_iff)
  qed
  finally show ?thesis by simp
qed

lemma unat_ucast_byte [simp]: "unat (ucast (b :: byte) :: 64 word) = unat b"
proof -
  have "unat b < 2 ^ 64" using unat_byte_less [of b] by (rule less_trans) simp
  then show ?thesis by (simp add: unsigned_ucast_eq take_bit_eq_mod)
qed

text \<open>One step of a base-128 accumulator at shift \<open>s\<close>, while the new digits still fit 64 bits.\<close>

lemma unat_or_shift:
  assumes "unat (v :: 64 word) < 2 ^ s" and "unat b * 2 ^ s < 2 ^ 64"
  shows "unat (v OR push_bit s (ucast (b :: byte))) = unat v + unat b * 2 ^ s"
proof -
  have "unat (push_bit s (ucast b) :: 64 word) = take_bit 64 (push_bit s (unat b))"
    by (simp only: unsigned_push_bit_eq unat_ucast_byte) simp
  also have "\<dots> = push_bit s (unat b)"
    using assms(2) by (simp add: take_bit_nat_eq_self_iff push_bit_eq_mult)
  finally show ?thesis
    using assms(1) by (simp only: unsigned_or_eq or_push_bit_nat)
qed

section \<open>Big-endian integers\<close>

text \<open>\<open>u32::from_be_bytes\<close> and \<open>u64::from_be_bytes\<close>: the big-endian value of a byte string.\<close>

definition from_be_bytes :: "bytes \<Rightarrow> nat" where
  "from_be_bytes bs = foldl (\<lambda>acc b. acc * 256 + unat b) 0 bs"

lemma from_be_bytes_snoc [simp]: "from_be_bytes (bs @ [b]) = from_be_bytes bs * 256 + unat b"
  by (simp add: from_be_bytes_def)

lemma from_be_bytes_Nil [simp]: "from_be_bytes [] = 0"
  by (simp add: from_be_bytes_def)

lemma from_be_bytes_less: "from_be_bytes bs < 256 ^ length bs"
proof (induction bs rule: rev_induct)
  case (snoc b bs)
  have "unat b < 256" by simp
  with snoc have "from_be_bytes bs * 256 + unat b < 256 ^ length bs * 256" by linarith
  then show ?case by simp
qed simp

definition read_u32 :: "bytes \<Rightarrow> nat \<Rightarrow> nat option" where
  "read_u32 bs offset = map_option from_be_bytes (get_range offset (offset + 4) bs)"

definition read_u64 :: "bytes \<Rightarrow> nat \<Rightarrow> nat option" where
  "read_u64 bs offset = map_option from_be_bytes (get_range offset (offset + 8) bs)"

lemma read_u32_Some: "offset + 4 \<le> length bs \<Longrightarrow> \<exists>v. read_u32 bs offset = Some v"
  by (simp add: read_u32_def get_range_def)

lemma read_u32_bound: "read_u32 bs offset = Some v \<Longrightarrow> v < 2 ^ 32"
proof -
  assume "read_u32 bs offset = Some v"
  then obtain ys where ys: "get_range offset (offset + 4) bs = Some ys" and v: "v = from_be_bytes ys"
    by (auto simp: read_u32_def)
  from ys have "length ys = 4" by (auto dest: get_range_length)
  with from_be_bytes_less [of ys] v show ?thesis by simp
qed

lemma read_u64_bound: "read_u64 bs offset = Some v \<Longrightarrow> v \<le> u64_max"
proof -
  assume "read_u64 bs offset = Some v"
  then obtain ys where ys: "get_range offset (offset + 8) bs = Some ys" and v: "v = from_be_bytes ys"
    by (auto simp: read_u64_def)
  from ys have "length ys = 8" by (auto dest: get_range_length)
  with from_be_bytes_less [of ys] v show ?thesis by (simp add: u64_max_def)
qed

text \<open>The inverse: \<open>n\<close> big-endian bytes, and reading one cell of a table of cells of equal width.\<close>

fun be_bytes :: "nat \<Rightarrow> nat \<Rightarrow> bytes" where
  "be_bytes 0 v = []"
| "be_bytes (Suc n) v = be_bytes n (v div 256) @ [word_of_nat v]"

lemma length_be_bytes [simp]: "length (be_bytes n v) = n"
  by (induction n arbitrary: v) auto

lemma from_be_bytes_be_bytes: "v < 256 ^ n \<Longrightarrow> from_be_bytes (be_bytes n v) = v"
proof (induction n arbitrary: v)
  case (Suc n)
  then have "v div 256 < 256 ^ n" by (simp add: less_mult_imp_div_less mult.commute)
  with Suc.IH show ?case by (simp add: unat_of_nat take_bit_eq_mod)
qed simp

lemma get_range_table:
  assumes "\<forall>x \<in> set xs. length x = k" and "i < length xs"
  shows "get_range (length p + i * k) (length p + i * k + k) (p @ concat xs @ s) = Some (xs ! i)"
proof -
  have "length (concat (take i xs)) = i * k"
    using assms by (induction xs arbitrary: i) (auto simp: take_Cons split: nat.splits)
  moreover have "p @ concat xs @ s = (p @ concat (take i xs)) @ xs ! i @ (concat (drop (Suc i) xs) @ s)"
    using assms(2) by (metis append.assoc concat.simps(2) concat_append id_take_nth_drop)
  ultimately show ?thesis
    using get_range_append [of "p @ concat (take i xs)" "xs ! i"] assms by simp
qed

lemma read_u32_table:
  "\<forall>v \<in> set vs. v < 2 ^ 32 \<Longrightarrow> i < length vs \<Longrightarrow>
   read_u32 (p @ concat (map (be_bytes 4) vs) @ s) (length p + i * 4) = Some (vs ! i)"
  using get_range_table [of "map (be_bytes 4) vs" 4 i p s]
  by (simp add: read_u32_def from_be_bytes_be_bytes)

lemma read_u64_table:
  "\<forall>v \<in> set vs. v < 2 ^ 64 \<Longrightarrow> i < length vs \<Longrightarrow>
   read_u64 (p @ concat (map (be_bytes 8) vs) @ s) (length p + i * 8) = Some (vs ! i)"
  using get_range_table [of "map (be_bytes 8) vs" 8 i p s]
  by (simp add: read_u64_def from_be_bytes_be_bytes)

lemma length_concat_const: "\<forall>x \<in> set xs. length x = k \<Longrightarrow> length (concat xs) = length xs * k"
  by (induction xs) auto

text \<open>The high bit and the low bits of an unsigned value.\<close>

lemma and_high_bit_eq_0: "v < 2 ^ Suc n \<Longrightarrow> v AND 2 ^ n = 0 \<longleftrightarrow> v < 2 ^ n" for v :: nat
proof -
  assume "v < 2 ^ Suc n"
  then have "v div 2 ^ n < 2" by (simp add: less_mult_imp_div_less mult.commute)
  moreover have "v AND 2 ^ n = 0 \<longleftrightarrow> even (v div 2 ^ n)"
    by (simp add: and_exp_eq_0_iff_not_bit bit_iff_odd)
  moreover have "v div 2 ^ n = 0 \<longleftrightarrow> v < 2 ^ n" by (simp add: div_eq_0_iff)
  ultimately show ?thesis by (auto simp: less_2_cases_iff)
qed

lemma and_low_bits: "v AND (2 ^ n - 1) = v mod 2 ^ n" for v :: nat
  by (metis mask_eq_exp_minus_1 take_bit_eq_mask take_bit_eq_mod)

end
