(* ===== verification/Rust_Text.thy ===== *)
theory Rust_Text
  imports Prelude
begin

text \<open>
  The parts of Rust's \<open>str\<close>, \<open>char\<close> and \<open>u8\<close> libraries the repository adapter uses: UTF-8 validation
  and decoding, ASCII classes, prefix and separator splitting, and lower-case hexadecimal.
\<close>

section \<open>Bytes of a text\<close>

definition as_bytes :: "string \<Rightarrow> bytes" where
  "as_bytes s = map (\<lambda>c. word_of_nat (of_char c)) s"

definition byte_char :: "byte \<Rightarrow> char" where
  "byte_char b = char_of (unat b)"

lemma byte_char_of_char [simp]: "byte_char (word_of_nat (of_char c)) = c"
proof -
  have "of_char c < (256 :: nat)" by simp
  then have "unat (word_of_nat (of_char c) :: byte) = of_char c"
    by (simp add: unat_of_nat take_bit_eq_mod)
  then show ?thesis by (simp add: byte_char_def)
qed

lemma of_char_byte_char [simp]: "word_of_nat (of_char (byte_char b)) = b"
  by (simp add: byte_char_def)

lemma byte_char_inject [simp]: "byte_char a = byte_char b \<longleftrightarrow> a = b"
  by (metis of_char_byte_char)

lemma map_byte_char_as_bytes [simp]: "map byte_char (as_bytes s) = s"
  by (simp add: as_bytes_def comp_def map_idI)

lemma as_bytes_map_byte_char [simp]: "as_bytes (map byte_char bs) = bs"
  by (simp add: as_bytes_def comp_def map_idI)

lemma length_as_bytes [simp]: "length (as_bytes s) = length s"
  by (simp add: as_bytes_def)

lemma as_bytes_append [simp]: "as_bytes (s @ t) = as_bytes s @ as_bytes t"
  by (simp add: as_bytes_def)

lemma as_bytes_inject [simp]: "as_bytes s = as_bytes t \<longleftrightarrow> s = t"
  by (metis map_byte_char_as_bytes)

section \<open>UTF-8\<close>

text \<open>
  \<open>utf8_decode\<close> is the scalar-value sequence of a well-formed UTF-8 string (the Unicode
  well-formedness table: shortest form, no surrogates, at most U+10FFFF); \<open>str::from_utf8\<close>
  accepts exactly the byte strings it decodes.
\<close>

definition continuation :: "nat \<Rightarrow> bool" where
  "continuation b \<longleftrightarrow> 128 \<le> b \<and> b \<le> 191"

definition utf8_second_ok :: "nat \<Rightarrow> nat \<Rightarrow> bool" where
  "utf8_second_ok b0 b1 \<longleftrightarrow>
     (if b0 = 224 then 160 \<le> b1 \<and> b1 \<le> 191
      else if b0 = 237 then 128 \<le> b1 \<and> b1 \<le> 159
      else if b0 = 240 then 144 \<le> b1 \<and> b1 \<le> 191
      else if b0 = 244 then 128 \<le> b1 \<and> b1 \<le> 143
      else continuation b1)"

fun utf8_decode :: "nat list \<Rightarrow> nat list option" where
  "utf8_decode [] = Some []"
| "utf8_decode (b0 # rest) =
     (if b0 < 128 then map_option ((#) b0) (utf8_decode rest)
      else if 194 \<le> b0 \<and> b0 \<le> 223 then
        (case rest of
           b1 # rest1 \<Rightarrow>
             if continuation b1
             then map_option ((#) ((b0 - 192) * 64 + (b1 - 128))) (utf8_decode rest1) else None
         | _ \<Rightarrow> None)
      else if 224 \<le> b0 \<and> b0 \<le> 239 then
        (case rest of
           b1 # b2 # rest2 \<Rightarrow>
             if utf8_second_ok b0 b1 \<and> continuation b2
             then map_option ((#) ((b0 - 224) * 4096 + (b1 - 128) * 64 + (b2 - 128)))
                    (utf8_decode rest2) else None
         | _ \<Rightarrow> None)
      else if 240 \<le> b0 \<and> b0 \<le> 244 then
        (case rest of
           b1 # b2 # b3 # rest3 \<Rightarrow>
             if utf8_second_ok b0 b1 \<and> continuation b2 \<and> continuation b3
             then map_option ((#) ((b0 - 240) * 262144 + (b1 - 128) * 4096 + (b2 - 128) * 64
                    + (b3 - 128))) (utf8_decode rest3) else None
         | _ \<Rightarrow> None)
      else None)"

definition from_utf8 :: "bytes \<Rightarrow> string option" where
  "from_utf8 bs = (if utf8_decode (map unat bs) = None then None else Some (map byte_char bs))"

text \<open>
  \<open>Utf8Error::valid_up_to\<close>: the number of bytes of the well-formed characters before the first
  malformed one. \<open>utf8_width\<close> is the width of a well-formed first character.
\<close>

fun utf8_width :: "nat list \<Rightarrow> nat option" where
  "utf8_width [] = None"
| "utf8_width (b0 # rest) =
     (if b0 < 128 then Some 1
      else if 194 \<le> b0 \<and> b0 \<le> 223 then
        (case rest of b1 # _ \<Rightarrow> if continuation b1 then Some 2 else None | _ \<Rightarrow> None)
      else if 224 \<le> b0 \<and> b0 \<le> 239 then
        (case rest of b1 # b2 # _ \<Rightarrow> if utf8_second_ok b0 b1 \<and> continuation b2 then Some 3 else None
         | _ \<Rightarrow> None)
      else if 240 \<le> b0 \<and> b0 \<le> 244 then
        (case rest of
           b1 # b2 # b3 # _ \<Rightarrow>
             if utf8_second_ok b0 b1 \<and> continuation b2 \<and> continuation b3 then Some 4 else None
         | _ \<Rightarrow> None)
      else None)"

lemma utf8_width_bounds: "utf8_width bs = Some w \<Longrightarrow> 0 < w \<and> w \<le> length bs"
  by (cases bs) (auto split: if_splits list.splits)

function valid_up_to :: "nat list \<Rightarrow> nat" where
  "valid_up_to bs = (case utf8_width bs of None \<Rightarrow> 0 | Some w \<Rightarrow> w + valid_up_to (drop w bs))"
  by pat_completeness auto
termination
  by (relation "measure length") (auto dest: utf8_width_bounds)

declare valid_up_to.simps [simp del]

text \<open>\<open>str::chars\<close> of a text, as scalar values.\<close>

definition text_chars :: "string \<Rightarrow> nat list" where
  "text_chars s = (case utf8_decode (map of_char s) of None \<Rightarrow> [] | Some cs \<Rightarrow> cs)"

lemma from_utf8_Some: "from_utf8 bs = Some s \<Longrightarrow> s = map byte_char bs"
  by (simp add: from_utf8_def split: if_splits)

lemma from_utf8_as_bytes: "from_utf8 bs = Some s \<Longrightarrow> as_bytes s = bs"
  by (auto dest: from_utf8_Some)

lemma utf8_decode_ascii: "\<forall>b \<in> set bs. b < 128 \<Longrightarrow> utf8_decode bs = Some bs"
  by (induction bs) auto

lemma from_utf8_ascii:
  assumes "\<forall>c \<in> set s. of_char c < (128 :: nat)"
  shows "from_utf8 (as_bytes s) = Some s"
proof -
  have "unat (word_of_nat (of_char c) :: byte) = of_char c" for c
    using nat_of_char_less_256 [of c]
    by (simp add: unat_of_nat take_bit_eq_mod)
  then have "map unat (as_bytes s) = map of_char s"
    by (simp add: as_bytes_def)
  moreover have "utf8_decode (map of_char s) = Some (map of_char s)"
    using assms by (intro utf8_decode_ascii) auto
  ultimately show ?thesis by (simp add: from_utf8_def)
qed

lemma utf8_decode_width:
  "utf8_decode bs = None \<longleftrightarrow>
     bs \<noteq> [] \<and> (case utf8_width bs of None \<Rightarrow> True | Some w \<Rightarrow> utf8_decode (drop w bs) = None)"
proof (cases bs)
  case (Cons b rest)
  consider "rest = []" | b1 where "rest = [b1]" | b1 b2 where "rest = [b1, b2]"
    | b1 b2 b3 rest' where "rest = b1 # b2 # b3 # rest'"
    by (metis list.exhaust)
  then have "utf8_decode (b # rest) = None \<longleftrightarrow>
      (case utf8_width (b # rest) of None \<Rightarrow> True | Some w \<Rightarrow> utf8_decode (drop w (b # rest)) = None)"
    unfolding utf8_decode.simps(2) [of b rest]
    by cases (simp_all del: utf8_decode.simps(2) add: drop_Cons')
  then show ?thesis unfolding Cons by blast
qed simp

text \<open>Every byte is in the valid prefix exactly when the text decodes.\<close>

lemma valid_up_to_decode: "valid_up_to bs \<le> length bs \<and> (valid_up_to bs < length bs \<longleftrightarrow> utf8_decode bs = None)"
proof (induction bs rule: valid_up_to.induct)
  case (1 bs)
  show ?case
  proof (cases "utf8_width bs")
    case None
    then show ?thesis by (subst utf8_decode_width) (auto simp: valid_up_to.simps [of bs] simp del: utf8_decode.simps utf8_width.simps)
  next
    case (Some w)
    with 1 [OF Some] utf8_width_bounds [OF Some] show ?thesis
      by (subst utf8_decode_width) (auto simp: valid_up_to.simps [of bs] simp del: utf8_decode.simps utf8_width.simps)
  qed
qed

section \<open>Character classes\<close>

definition is_ascii_digit :: "char \<Rightarrow> bool" where
  "is_ascii_digit c \<longleftrightarrow> CHR ''0'' \<le> c \<and> c \<le> CHR ''9''"

definition is_ascii_lowercase :: "char \<Rightarrow> bool" where
  "is_ascii_lowercase c \<longleftrightarrow> CHR ''a'' \<le> c \<and> c \<le> CHR ''z''"

definition is_ascii_uppercase :: "char \<Rightarrow> bool" where
  "is_ascii_uppercase c \<longleftrightarrow> CHR ''A'' \<le> c \<and> c \<le> CHR ''Z''"

definition is_ascii_alphanumeric :: "char \<Rightarrow> bool" where
  "is_ascii_alphanumeric c \<longleftrightarrow> is_ascii_digit c \<or> is_ascii_lowercase c \<or> is_ascii_uppercase c"

definition is_ascii_hexdigit :: "char \<Rightarrow> bool" where
  "is_ascii_hexdigit c \<longleftrightarrow>
     is_ascii_digit c \<or> (CHR ''a'' \<le> c \<and> c \<le> CHR ''f'') \<or> (CHR ''A'' \<le> c \<and> c \<le> CHR ''F'')"

text \<open>\<open>u8::is_ascii_control\<close> and \<open>char::is_control\<close> (general category Cc).\<close>

definition is_ascii_control :: "byte \<Rightarrow> bool" where
  "is_ascii_control b \<longleftrightarrow> b < 32 \<or> b = 127"

definition is_control :: "nat \<Rightarrow> bool" where
  "is_control c \<longleftrightarrow> c < 32 \<or> (127 \<le> c \<and> c < 160)"

definition is_ascii_whitespace :: "byte \<Rightarrow> bool" where
  "is_ascii_whitespace b \<longleftrightarrow> b = 32 \<or> b = 9 \<or> b = 10 \<or> b = 12 \<or> b = 13"

section \<open>Splitting\<close>

definition strip_prefix :: "'a list \<Rightarrow> 'a list \<Rightarrow> 'a list option" where
  "strip_prefix p s = (if take (length p) s = p then Some (drop (length p) s) else None)"

definition starts_with :: "'a list \<Rightarrow> 'a list \<Rightarrow> bool" where
  "starts_with p s \<longleftrightarrow> take (length p) s = p"

definition ends_with :: "'a list \<Rightarrow> 'a list \<Rightarrow> bool" where
  "ends_with p s \<longleftrightarrow> length p \<le> length s \<and> drop (length s - length p) s = p"

text \<open>\<open>split_once\<close> at the first separator and \<open>rsplit_once\<close> at the last one.\<close>

fun split_once :: "'a \<Rightarrow> 'a list \<Rightarrow> ('a list \<times> 'a list) option" where
  "split_once sep [] = None"
| "split_once sep (x # xs) =
     (if x = sep then Some ([], xs) else map_option (\<lambda>(a, b). (x # a, b)) (split_once sep xs))"

definition rsplit_once :: "'a \<Rightarrow> 'a list \<Rightarrow> ('a list \<times> 'a list) option" where
  "rsplit_once sep s = map_option (\<lambda>(a, b). (rev b, rev a)) (split_once sep (rev s))"

text \<open>\<open>split\<close> yields every piece, the empty ones included; \<open>join\<close> is its inverse.\<close>

fun split_on :: "'a \<Rightarrow> 'a list \<Rightarrow> 'a list list" where
  "split_on sep [] = [[]]"
| "split_on sep (x # xs) =
     (if x = sep then [] # split_on sep xs
      else (case split_on sep xs of [] \<Rightarrow> [[x]] | p # ps \<Rightarrow> (x # p) # ps))"

fun join_with :: "'a \<Rightarrow> 'a list list \<Rightarrow> 'a list" where
  "join_with sep [] = []"
| "join_with sep [p] = p"
| "join_with sep (p # q # ps) = p @ sep # join_with sep (q # ps)"

text \<open>\<open>iter().position(|b| b == x)\<close>.\<close>

fun position :: "'a \<Rightarrow> 'a list \<Rightarrow> nat option" where
  "position x [] = None"
| "position x (y # ys) = (if y = x then Some 0 else map_option Suc (position x ys))"

lemma split_on_nonempty [simp]: "split_on sep s \<noteq> []"
  by (induction s) (auto split: list.splits)

lemma join_split: "join_with sep (split_on sep s) = s"
proof (induction s)
  case (Cons x xs)
  obtain p ps where sp: "split_on sep xs = p # ps"
    by (cases "split_on sep xs") auto
  show ?case using Cons by (cases ps) (auto simp: sp)
qed simp

lemma split_on_no_sep: "p \<in> set (split_on sep s) \<Longrightarrow> sep \<notin> set p"
  by (induction s arbitrary: p) (auto split: list.splits if_splits)

lemma split_on_append_sep:
  "sep \<notin> set p \<Longrightarrow> split_on sep (p @ sep # s) = p # split_on sep s"
  by (induction p) auto

lemma split_on_single: "sep \<notin> set p \<Longrightarrow> split_on sep p = [p]"
  by (induction p) auto

lemma split_join:
  "ps \<noteq> [] \<Longrightarrow> \<forall>p \<in> set ps. sep \<notin> set p \<Longrightarrow> split_on sep (join_with sep ps) = ps"
  by (induction sep ps rule: join_with.induct) (auto simp: split_on_append_sep split_on_single)

lemma join_with_snoc:
  "ps \<noteq> [] \<Longrightarrow> join_with sep (ps @ [q]) = join_with sep ps @ sep # q"
  by (induction sep ps rule: join_with.induct) auto

lemma join_with_append:
  "ps \<noteq> [] \<Longrightarrow> qs \<noteq> [] \<Longrightarrow> join_with sep (ps @ qs) = join_with sep ps @ sep # join_with sep qs"
proof (induction sep ps rule: join_with.induct)
  case (2 sep p)
  then show ?case by (cases qs) auto
qed auto

lemma split_once_Some:
  "split_once sep s = Some (a, b) \<longleftrightarrow> s = a @ sep # b \<and> sep \<notin> set a"
proof (induction s arbitrary: a)
  case (Cons x xs)
  show ?case
  proof (cases "x = sep")
    case True
    then show ?thesis by (cases a) auto
  next
    case False
    then show ?thesis by (cases a) (auto simp: Cons)
  qed
qed simp

lemma split_once_None: "split_once sep s = None \<longleftrightarrow> sep \<notin> set s"
  by (induction s) auto

lemma position_Some:
  "position x s = Some n \<longleftrightarrow> n < length s \<and> s ! n = x \<and> x \<notin> set (take n s)"
proof (induction s arbitrary: n)
  case (Cons y ys)
  then show ?case by (cases n) auto
qed simp

lemma position_None: "position x s = None \<longleftrightarrow> x \<notin> set s"
  by (induction s) auto

lemma position_append: "x \<notin> set a \<Longrightarrow> position x (a @ x # b) = Some (length a)"
  by (induction a) auto

lemma strip_prefix_Some: "strip_prefix p s = Some r \<longleftrightarrow> s = p @ r"
  by (auto simp: strip_prefix_def) (metis append_take_drop_id)

section \<open>Lower-case hexadecimal\<close>

definition hex_digit :: "nat \<Rightarrow> char" where
  "hex_digit n = char_of (if n < 10 then 48 + n else 87 + n)"

definition byte_hex :: "byte \<Rightarrow> string" where
  "byte_hex b = [hex_digit (unat b div 16), hex_digit (unat b mod 16)]"

text \<open>\<open>decode_hex\<close> of the pack reader: the value of one lower-case digit.\<close>

definition decode_hex :: "char \<Rightarrow> nat option" where
  "decode_hex c =
     (if is_ascii_digit c then Some (of_char c - 48)
      else if CHR ''a'' \<le> c \<and> c \<le> CHR ''f'' then Some (of_char c - 97 + 10) else None)"

definition is_lower_hex :: "char \<Rightarrow> bool" where
  "is_lower_hex c \<longleftrightarrow> is_ascii_hexdigit c \<and> \<not> is_ascii_uppercase c"

lemma hex_digit_cases: "n < 16 \<Longrightarrow> n \<in> {0, 1, 2, 3, 4, 5, 6, 7, 8, 9, 10, 11, 12, 13, 14, 15 :: nat}"
  by simp presburger

lemma decode_hex_digit [simp]: "n < 16 \<Longrightarrow> decode_hex (hex_digit n) = Some n"
  by (drule hex_digit_cases)
    (auto simp: decode_hex_def hex_digit_def is_ascii_digit_def less_eq_char_def)

lemma hex_digit_lower [simp]: "n < 16 \<Longrightarrow> is_lower_hex (hex_digit n)"
  by (drule hex_digit_cases)
    (auto simp: is_lower_hex_def hex_digit_def is_ascii_digit_def is_ascii_hexdigit_def
      is_ascii_uppercase_def less_eq_char_def)

lemma hex_digit_mono: "m < n \<Longrightarrow> n < 16 \<Longrightarrow> hex_digit m < hex_digit n"
  by (auto simp: hex_digit_def less_char_def)

end
