(* ===== verification/Domain_Types.thy ===== *)
theory Domain_Types
  imports Rust_Text
begin

text \<open>
  The vocabulary of \<open>crates/codenoesis-domain\<close> that acquisition speaks: repository identities,
  object identifiers and revisions, the resource limits with their fixed maxima, and the typed
  acquisition errors.
\<close>

section \<open>Object identifiers\<close>

text \<open>\<open>ObjectId\<close> wraps the 40-digit lower-case hexadecimal text of a SHA-1 digest.\<close>

datatype object_id = ObjectId (as_str: string)

definition parse_sha1 :: "string \<Rightarrow> object_id option" where
  "parse_sha1 s =
     (if length s = 40 \<and> (\<forall>c \<in> set s. is_ascii_hexdigit c \<and> \<not> is_ascii_uppercase c)
      then Some (ObjectId s) else None)"

definition from_bytes :: "bytes \<Rightarrow> object_id" where
  "from_bytes bs = ObjectId (concat (map byte_hex bs))"

text \<open>Derived ordering: that of the text.\<close>

instantiation object_id :: linorder
begin

definition less_eq_object_id :: "object_id \<Rightarrow> object_id \<Rightarrow> bool" where
  "less_eq_object_id a b \<longleftrightarrow> as_str a \<le> as_str b"

definition less_object_id :: "object_id \<Rightarrow> object_id \<Rightarrow> bool" where
  "less_object_id a b \<longleftrightarrow> as_str a < as_str b"

instance
  by standard (auto simp: less_eq_object_id_def less_object_id_def object_id.expand)

end

section \<open>Revisions and repository identities\<close>

datatype input_error = InvalidRepositoryIdentity | InvalidRevision | InvalidProfile | InvalidStoreRoot

datatype repository_identity = RepositoryIdentity (identity_str: string)

definition repository_id_prefix :: string where
  "repository_id_prefix = ''urn:codenoesis:''"

definition identity_tail_char :: "char \<Rightarrow> bool" where
  "identity_tail_char c \<longleftrightarrow>
     is_ascii_lowercase c \<or> is_ascii_digit c \<or> c \<in> {CHR ''.'', CHR ''_'', CHR '':'', CHR ''-''}"

definition parse_identity :: "string \<Rightarrow> (repository_identity, input_error) result" where
  "parse_identity v =
     (case strip_prefix repository_id_prefix v of
        None \<Rightarrow> Err InvalidRepositoryIdentity
      | Some suffix \<Rightarrow>
          (case suffix of
             [] \<Rightarrow> Err InvalidRepositoryIdentity
           | first # rest \<Rightarrow>
               if length suffix > 255 \<or> \<not> is_ascii_lowercase first \<and> \<not> is_ascii_digit first
                  \<or> \<not> (\<forall>c \<in> set rest. identity_tail_char c)
               then Err InvalidRepositoryIdentity
               else Ok (RepositoryIdentity v)))"

datatype revision = Commit_revision object_id | Main_revision

definition main_ref :: string where "main_ref = ''refs/heads/main''"

definition parse_revision :: "string \<Rightarrow> (revision, input_error) result" where
  "parse_revision v =
     (if v = main_ref then Ok Main_revision
      else ok_or InvalidRevision (map_option Commit_revision (parse_sha1 v)))"

fun revision_str :: "revision \<Rightarrow> string" where
  "revision_str (Commit_revision oid) = as_str oid"
| "revision_str Main_revision = main_ref"

record bound_revision =
  br_identity :: repository_identity
  br_commit_oid :: object_id
  br_tree_oid :: object_id

section \<open>Object kinds and policies\<close>

datatype object_kind = OK_Commit | OK_Tree | OK_Blob

datatype actual_object_kind = AK_Tag | AK_Tree | AK_Blob

datatype path_invalid_reason = EmptyComponent | NonUtf8 | DotComponent | Backslash | ControlCharacter

datatype root_policy = RepositoryRootIsSymlink | GitDirectoryIsSymlink | GitDirectoryNotContained

datatype entry_policy = Symlink_entry | Gitlink_entry | SpecialFileMode

datatype regular_file_mode = Regular | Executable

fun mode_str :: "regular_file_mode \<Rightarrow> string" where
  "mode_str Regular = ''100644''"
| "mode_str Executable = ''100755''"

section \<open>Limits\<close>

datatype limit_kind =
    RegularFiles | TreeEntries | CumulativeFileBytes | SingleFileBytes | PathBytes
  | PathComponentBytes | RecursionDepth | CanonicalOutputBytes | ScanWallMilliseconds
  | PackDirectoryEntries | PackPairs | SinglePackIndexBytes | CumulativePackIndexBytes
  | IndexedObjects | SinglePackBytes | CumulativeVerifiedPackBytes | CompressedEntryBytes
  | InflatedEntryBytes | CumulativeEntryInflateBytes | DeltaProgramBytes | DeltaDepth
  | DeltaInstructions | DeltaIntermediateBytes | CumulativeDeltaWorkBytes | ObjectLocations
  | ReconstructedObjectCacheBytes

text \<open>\<open>STANDARD_LOCAL_S1_LIMITS\<close> and \<open>STANDARD_LOCAL_PACKED_LIMITS\<close>, read through
  \<open>LimitKind::maximum\<close>.\<close>

fun limit_maximum :: "limit_kind \<Rightarrow> nat" where
  "limit_maximum RegularFiles = 20000"
| "limit_maximum TreeEntries = 25000"
| "limit_maximum CumulativeFileBytes = 268435456"
| "limit_maximum SingleFileBytes = 4194304"
| "limit_maximum PathBytes = 1024"
| "limit_maximum PathComponentBytes = 255"
| "limit_maximum RecursionDepth = 32"
| "limit_maximum CanonicalOutputBytes = 33554432"
| "limit_maximum ScanWallMilliseconds = 60000"
| "limit_maximum PackDirectoryEntries = 512"
| "limit_maximum PackPairs = 64"
| "limit_maximum SinglePackIndexBytes = 134217728"
| "limit_maximum CumulativePackIndexBytes = 268435456"
| "limit_maximum IndexedObjects = 8000000"
| "limit_maximum SinglePackBytes = 4294967296"
| "limit_maximum CumulativeVerifiedPackBytes = 8589934592"
| "limit_maximum CompressedEntryBytes = 67108864"
| "limit_maximum InflatedEntryBytes = 268435456"
| "limit_maximum CumulativeEntryInflateBytes = 1073741824"
| "limit_maximum DeltaProgramBytes = 33554432"
| "limit_maximum DeltaDepth = 50"
| "limit_maximum DeltaInstructions = 4194304"
| "limit_maximum DeltaIntermediateBytes = 268435456"
| "limit_maximum CumulativeDeltaWorkBytes = 1073741824"
| "limit_maximum ObjectLocations = 8"
| "limit_maximum ReconstructedObjectCacheBytes = 134217728"

definition rust_8m_single_file_bytes :: nat where
  "rust_8m_single_file_bytes = 8388608"

section \<open>Errors\<close>

datatype packed_component = PC_Catalog | PC_Index | PC_Pack | PC_Entry | PC_Delta | PC_Object

datatype packed_index_reason = IR_Layout | IR_Fanout | IR_Checksum | IR_Sha1Collision

datatype packed_index_object_reason = IO_ObjectOrder | IO_Offset

datatype packed_pack_reason = PR_Header | PR_Checksum | PR_IndexMismatch | PR_ObjectCount | PR_Sha1Collision

datatype packed_entry_reason = ER_Header | ER_Crc | ER_ZlibStream

datatype packed_object_reason = OR_Size | OR_Oid | OR_Sha1Collision | OR_DuplicateConflict

datatype packed_delta_reason = DR_Base | DR_Cycle | DR_Program

datatype packed_database_invalid =
    CatalogEntry
  | Index_invalid packed_index_reason object_id
  | IndexObject_invalid packed_index_object_reason object_id object_id
  | Pack_invalid packed_pack_reason object_id
  | Entry_invalid packed_entry_reason object_id object_id
  | Object_invalid packed_object_reason object_id
  | Delta_invalid packed_delta_reason object_id object_id

datatype packed_acquisition_error =
    PackedInvalid packed_database_invalid
  | PackedChanged packed_component
  | PackedUnavailable packed_component

fun invalid_component :: "packed_database_invalid \<Rightarrow> packed_component" where
  "invalid_component CatalogEntry = PC_Catalog"
| "invalid_component (Index_invalid _ _) = PC_Index"
| "invalid_component (IndexObject_invalid _ _ _) = PC_Index"
| "invalid_component (Pack_invalid _ _) = PC_Pack"
| "invalid_component (Entry_invalid _ _ _) = PC_Entry"
| "invalid_component (Object_invalid _ _) = PC_Object"
| "invalid_component (Delta_invalid _ _ _) = PC_Delta"

fun packed_error_component :: "packed_acquisition_error \<Rightarrow> packed_component" where
  "packed_error_component (PackedInvalid e) = invalid_component e"
| "packed_error_component (PackedChanged c) = c"
| "packed_error_component (PackedUnavailable c) = c"

datatype unsupported_feature =
    BareRepository | ShallowRepository | Sha256ObjectFormat | AlternateObjectDatabase
  | ReplaceOrGraft | NonSingleRegularRootFile | LfsMaterialization | PackedObjectDatabase
  | PackVersionUnsupported | PackIndexVersionUnsupported | PromisorObjectDatabase
  | MultiPackIndexOnly | SubmoduleOrGitlink | Symlink_feature
  | PackedAcquisition packed_acquisition_error

datatype acquisition_error =
    NotGitRepository
  | RevisionNotFound revision
  | RevisionNotCommit object_id actual_object_kind
  | ObjectMissing object_id object_kind object_id
  | RepositoryInconsistent object_id object_kind
  | UnsupportedRepositoryShape unsupported_feature
  | PathInvalid path_invalid_reason
  | RootPolicyViolation root_policy
  | EntryPolicyViolation string entry_policy
  | LimitExceeded limit_kind nat nat

datatype repository_error = Acquisition acquisition_error | Unexpected

text \<open>\<open>limit_exceeded\<close> caps the reported observation at one past the maximum.\<close>

definition limit_exceeded :: "limit_kind \<Rightarrow> nat \<Rightarrow> acquisition_error" where
  "limit_exceeded limit observed =
     LimitExceeded limit (limit_maximum limit)
       (if observed > limit_maximum limit + 1 then limit_maximum limit + 1 else observed)"

definition check_limit :: "limit_kind \<Rightarrow> nat \<Rightarrow> (unit, acquisition_error) result" where
  "check_limit limit observed =
     (if observed > limit_maximum limit then Err (limit_exceeded limit observed) else Ok ())"

text \<open>The error constructors of the packed reader.\<close>

definition packed_error :: "packed_acquisition_error \<Rightarrow> acquisition_error" where
  "packed_error e = UnsupportedRepositoryShape (PackedAcquisition e)"

definition invalid :: "packed_database_invalid \<Rightarrow> acquisition_error" where
  "invalid e = packed_error (PackedInvalid e)"

definition invalid_catalog :: acquisition_error where
  "invalid_catalog = invalid CatalogEntry"

definition changed :: "packed_component \<Rightarrow> acquisition_error" where
  "changed c = packed_error (PackedChanged c)"

definition unavailable :: "packed_component \<Rightarrow> acquisition_error" where
  "unavailable c = packed_error (PackedUnavailable c)"

lemmas packed_error_defs = packed_error_def invalid_def invalid_catalog_def changed_def unavailable_def

lemma limit_maximum_le_u64: "limit_maximum l < u64_max"
  by (cases l) (simp_all add: u64_max_def)

section \<open>Identifier lemmas\<close>

lemma concat_byte_hex_length [simp]: "length (concat (map byte_hex bs)) = 2 * length bs"
  by (induction bs) (auto simp: byte_hex_def)

lemma byte_hex_lower: "c \<in> set (byte_hex b) \<Longrightarrow> is_lower_hex c"
  by (auto simp: byte_hex_def simp del: One_nat_def intro!: hex_digit_lower less_mult_imp_div_less)

lemma byte_hex_eq_iff [simp]: "byte_hex a = byte_hex b \<longleftrightarrow> a = b"
proof
  assume eq: "byte_hex a = byte_hex b"
  have div: "unat (x :: byte) div 16 < 16" for x
    by (rule less_mult_imp_div_less) simp
  from eq have "decode_hex (hex_digit (unat a div 16)) = decode_hex (hex_digit (unat b div 16))"
    and "decode_hex (hex_digit (unat a mod 16)) = decode_hex (hex_digit (unat b mod 16))"
    by (simp_all add: byte_hex_def)
  then have "unat a div 16 = unat b div 16" and "unat a mod 16 = unat b mod 16"
    using div by simp_all
  then have "unat a = unat b" by (metis div_mult_mod_eq)
  then show "a = b" by (simp add: word_unat_eq_iff)
qed simp

lemma concat_byte_hex_inject:
  "length as = length bs \<Longrightarrow> concat (map byte_hex as) = concat (map byte_hex bs) \<longleftrightarrow> as = bs"
  by (induction as bs rule: list_induct2) (auto simp: byte_hex_def simp flip: byte_hex_eq_iff)

lemma from_bytes_inject:
  "length as = length bs \<Longrightarrow> from_bytes as = from_bytes bs \<longleftrightarrow> as = bs"
  by (simp add: from_bytes_def concat_byte_hex_inject)

text \<open>The hexadecimal order of the texts is the lexicographic order of the bytes.\<close>

lemma concat_byte_hex_mono:
  "length as = length bs \<Longrightarrow> as < bs \<Longrightarrow> concat (map byte_hex as) < concat (map byte_hex bs)"
proof (induction as bs rule: list_induct2)
  case (Cons a as b bs)
  have div: "unat (x :: byte) div 16 < 16" for x
    by (rule less_mult_imp_div_less) simp
  show ?case
  proof (cases "a = b")
    case True
    with Cons show ?thesis by (simp add: byte_hex_def)
  next
    case False
    with Cons.prems have ab: "unat a < unat b" by (simp add: word_less_nat_alt)
    show ?thesis
    proof (cases "unat a div 16 = unat b div 16")
      case True
      with ab have "unat a mod 16 < unat b mod 16"
        by (metis div_mult_mod_eq nat_add_left_cancel_less)
      with True show ?thesis by (simp add: byte_hex_def hex_digit_mono)
    next
      case False
      with ab have "unat a div 16 < unat b div 16"
        by (meson div_le_mono le_neq_implies_less less_imp_le)
      then show ?thesis using div by (simp add: byte_hex_def hex_digit_mono)
    qed
  qed
qed simp

lemma from_bytes_mono: "length as = length bs \<Longrightarrow> as < bs \<Longrightarrow> from_bytes as < from_bytes bs"
  by (simp add: from_bytes_def less_object_id_def concat_byte_hex_mono)

lemma parse_sha1_from_bytes:
  assumes "length bs = 20"
  shows "parse_sha1 (as_str (from_bytes bs)) = Some (from_bytes bs)"
proof -
  have "\<forall>c \<in> set (concat (map byte_hex bs)). is_lower_hex c"
    using byte_hex_lower by auto
  then show ?thesis using assms by (auto simp: parse_sha1_def from_bytes_def is_lower_hex_def)
qed

end
