(* ===== verification/Pack_Budgets.thy ===== *)
theory Pack_Budgets
  imports Domain_Types
begin

text \<open>
  The resource accounting of the packed object database (\<open>packed/mod.rs\<close>): the cumulative budgets,
  the bounds of a requested object, and the saturating charge they share. Each charge is one
  \<open>bounded_counter\<close>; the locale proves once what a sequence of charges admits.
\<close>

section \<open>Git object kinds and the limits a caller declares\<close>

datatype git_object_kind = Commit | Tree | Blob | Tag

record declared_body_limit =
  dbl_limit :: limit_kind
  dbl_body_maximum :: nat
  dbl_observed_offset :: nat

record requested_object_bounds =
  rob_declared_body_limit :: "declared_body_limit option"
  rob_body_ceiling :: "nat option"

definition default_bounds :: requested_object_bounds where
  "default_bounds = \<lparr>rob_declared_body_limit = None, rob_body_ceiling = None\<rparr>"

definition object_invalid :: "object_id \<Rightarrow> packed_object_reason \<Rightarrow> acquisition_error" where
  "object_invalid oid reason = invalid (Object_invalid reason oid)"

definition bounds_check ::
  "requested_object_bounds \<Rightarrow> git_object_kind \<Rightarrow> nat \<Rightarrow> object_id \<Rightarrow> (unit, acquisition_error) result"
where
  "bounds_check b kind body_size object_oid =
     (case rob_declared_body_limit b of
        Some limit \<Rightarrow>
          if kind = Blob \<and> body_size > dbl_body_maximum limit
          then let maximum = saturating_add (dbl_observed_offset limit) (dbl_body_maximum limit)
               in Err (LimitExceeded (dbl_limit limit) maximum (saturating_add maximum 1))
          else (case rob_body_ceiling b of
                  Some maximum \<Rightarrow>
                    if body_size > maximum then Err (object_invalid object_oid OR_Size) else Ok ()
                | None \<Rightarrow> Ok ())
      | None \<Rightarrow>
          (case rob_body_ceiling b of
             Some maximum \<Rightarrow>
               if body_size > maximum then Err (object_invalid object_oid OR_Size) else Ok ()
           | None \<Rightarrow> Ok ()))"

section \<open>Budgets\<close>

record pack_budgets =
  cumulative_index_bytes :: nat
  indexed_objects :: nat
  cumulative_pack_bytes :: nat
  cumulative_inflate_bytes :: nat
  cumulative_delta_work_bytes :: nat

definition empty_budgets :: pack_budgets where
  "empty_budgets = \<lparr>cumulative_index_bytes = 0, indexed_objects = 0, cumulative_pack_bytes = 0,
     cumulative_inflate_bytes = 0, cumulative_delta_work_bytes = 0\<rparr>"

definition checked_charge :: "limit_kind \<Rightarrow> nat \<Rightarrow> nat \<Rightarrow> (nat, acquisition_error) result" where
  "checked_charge limit current added =
     (let observed = saturating_add current added
      in if observed > limit_maximum limit then Err (limit_exceeded limit observed) else Ok observed)"

definition charge_index :: "pack_budgets \<Rightarrow> nat \<Rightarrow> (pack_budgets, acquisition_error) result" where
  "charge_index b n =
     (if n > limit_maximum SinglePackIndexBytes then Err (limit_exceeded SinglePackIndexBytes n)
      else and_then (checked_charge CumulativePackIndexBytes (cumulative_index_bytes b) n)
             (\<lambda>v. Ok (b\<lparr>cumulative_index_bytes := v\<rparr>)))"

definition charge_objects :: "pack_budgets \<Rightarrow> nat \<Rightarrow> (pack_budgets, acquisition_error) result" where
  "charge_objects b n =
     and_then (checked_charge IndexedObjects (indexed_objects b) n)
       (\<lambda>v. Ok (b\<lparr>indexed_objects := v\<rparr>))"

definition charge_pack :: "pack_budgets \<Rightarrow> nat \<Rightarrow> (pack_budgets, acquisition_error) result" where
  "charge_pack b n =
     (if n > limit_maximum SinglePackBytes then Err (limit_exceeded SinglePackBytes n)
      else and_then (checked_charge CumulativeVerifiedPackBytes (cumulative_pack_bytes b) n)
             (\<lambda>v. Ok (b\<lparr>cumulative_pack_bytes := v\<rparr>)))"

definition charge_inflate :: "pack_budgets \<Rightarrow> nat \<Rightarrow> (pack_budgets, acquisition_error) result" where
  "charge_inflate b n =
     and_then (checked_charge CumulativeEntryInflateBytes (cumulative_inflate_bytes b) n)
       (\<lambda>v. Ok (b\<lparr>cumulative_inflate_bytes := v\<rparr>))"

definition charge_delta_work :: "pack_budgets \<Rightarrow> nat \<Rightarrow> (pack_budgets, acquisition_error) result" where
  "charge_delta_work b n =
     and_then (checked_charge CumulativeDeltaWorkBytes (cumulative_delta_work_bytes b) n)
       (\<lambda>v. Ok (b\<lparr>cumulative_delta_work_bytes := v\<rparr>))"

lemmas charge_defs =
  charge_index_def charge_objects_def charge_pack_def charge_inflate_def charge_delta_work_def

text \<open>The budgets' invariant: no counter is ever past its maximum.\<close>

definition budgets_ok :: "pack_budgets \<Rightarrow> bool" where
  "budgets_ok b \<longleftrightarrow>
     cumulative_index_bytes b \<le> limit_maximum CumulativePackIndexBytes \<and>
     indexed_objects b \<le> limit_maximum IndexedObjects \<and>
     cumulative_pack_bytes b \<le> limit_maximum CumulativeVerifiedPackBytes \<and>
     cumulative_inflate_bytes b \<le> limit_maximum CumulativeEntryInflateBytes \<and>
     cumulative_delta_work_bytes b \<le> limit_maximum CumulativeDeltaWorkBytes"

lemma checked_charge_Ok:
  "checked_charge limit c n = Ok v \<longleftrightarrow> v = c + n \<and> c + n \<le> limit_maximum limit"
  using limit_maximum_le_u64 [of limit]
  by (auto simp: checked_charge_def Let_def saturating_add_def min_def split: if_splits)

lemma checked_charge_not_Panic [simp]: "checked_charge limit c n \<noteq> Panic"
  by (simp add: checked_charge_def Let_def)

lemma checked_charge_Err:
  "checked_charge limit c n = Err e \<longleftrightarrow>
     limit_maximum limit < c + n \<and> e = limit_exceeded limit (saturating_add c n)"
  using limit_maximum_le_u64 [of limit]
  by (auto simp: checked_charge_def Let_def saturating_add_def min_def split: if_splits)

lemma charge_not_Panic [simp]:
  "charge_index b n \<noteq> Panic" "charge_objects b n \<noteq> Panic" "charge_pack b n \<noteq> Panic"
  "charge_inflate b n \<noteq> Panic" "charge_delta_work b n \<noteq> Panic"
  by (simp_all add: charge_defs result_iffs)

lemma budgets_ok_empty [simp]: "budgets_ok empty_budgets"
  by (simp add: budgets_ok_def empty_budgets_def)

lemma budgets_ok_charge:
  assumes "budgets_ok b"
  shows "charge_index b n = Ok b' \<Longrightarrow> budgets_ok b'"
    and "charge_objects b n = Ok b' \<Longrightarrow> budgets_ok b'"
    and "charge_pack b n = Ok b' \<Longrightarrow> budgets_ok b'"
    and "charge_inflate b n = Ok b' \<Longrightarrow> budgets_ok b'"
    and "charge_delta_work b n = Ok b' \<Longrightarrow> budgets_ok b'"
  using assms
  by (auto simp: charge_defs budgets_ok_def result_iffs checked_charge_Ok split: if_splits)

section \<open>The contract of one counter\<close>

text \<open>Charging a list of amounts in order, stopping at the first refusal.\<close>

fun charge_all :: "('s \<Rightarrow> nat \<Rightarrow> ('s, 'e) result) \<Rightarrow> 's \<Rightarrow> nat list \<Rightarrow> ('s, 'e) result" where
  "charge_all charge s [] = Ok s"
| "charge_all charge s (n # ns) = and_then (charge s n) (\<lambda>s'. charge_all charge s' ns)"

locale bounded_counter =
  fixes used :: "'s \<Rightarrow> nat"
    and charge :: "'s \<Rightarrow> nat \<Rightarrow> ('s, 'e) result"
    and admissible :: "nat \<Rightarrow> bool"
    and maximum :: nat
  assumes charge_used: "charge s n = Ok s' \<Longrightarrow> used s' = used s + n"
    and charge_accepts: "(\<exists>s'. charge s n = Ok s') \<longleftrightarrow> admissible n \<and> used s + n \<le> maximum"
begin

lemma charge_all_used: "charge_all charge s ns = Ok s' \<Longrightarrow> used s' = used s + sum_list ns"
  by (induction ns arbitrary: s) (auto simp: result_iffs dest: charge_used)

lemma charge_all_accepts:
  "used s \<le> maximum \<Longrightarrow>
   (\<exists>s'. charge_all charge s ns = Ok s') \<longleftrightarrow>
     (\<forall>n \<in> set ns. admissible n) \<and> used s + sum_list ns \<le> maximum"
proof (induction ns arbitrary: s)
  case (Cons n ns)
  show ?case
  proof (cases "\<exists>s1. charge s n = Ok s1")
    case True
    then obtain s1 where s1: "charge s n = Ok s1" by blast
    with charge_accepts [of s n] have fits: "admissible n" "used s + n \<le> maximum" by auto
    from s1 have used: "used s1 = used s + n" by (rule charge_used)
    with fits Cons.IH [of s1] s1 show ?thesis by (simp add: add.assoc)
  next
    case False
    then have "\<not> (admissible n \<and> used s + n \<le> maximum)" by (simp add: charge_accepts)
    moreover from False have "\<not> (\<exists>s'. charge_all charge s (n # ns) = Ok s')"
      by (auto simp: result_iffs)
    ultimately show ?thesis by auto
  qed
qed simp

lemma charge_all_bounded:
  "used s \<le> maximum \<Longrightarrow> charge_all charge s ns = Ok s' \<Longrightarrow> used s' \<le> maximum"
  using charge_all_accepts charge_all_used by metis

end

interpretation index_budget:
  bounded_counter cumulative_index_bytes charge_index
    "\<lambda>n. n \<le> limit_maximum SinglePackIndexBytes" "limit_maximum CumulativePackIndexBytes"
  by unfold_locales (auto simp: charge_index_def result_iffs checked_charge_Ok split: if_splits)

interpretation objects_budget:
  bounded_counter indexed_objects charge_objects "\<lambda>_. True" "limit_maximum IndexedObjects"
  by unfold_locales (auto simp: charge_objects_def result_iffs checked_charge_Ok)

interpretation pack_bytes_budget:
  bounded_counter cumulative_pack_bytes charge_pack
    "\<lambda>n. n \<le> limit_maximum SinglePackBytes" "limit_maximum CumulativeVerifiedPackBytes"
  by unfold_locales (auto simp: charge_pack_def result_iffs checked_charge_Ok split: if_splits)

interpretation inflate_budget:
  bounded_counter cumulative_inflate_bytes charge_inflate "\<lambda>_. True"
    "limit_maximum CumulativeEntryInflateBytes"
  by unfold_locales (auto simp: charge_inflate_def result_iffs checked_charge_Ok)

interpretation delta_budget:
  bounded_counter cumulative_delta_work_bytes charge_delta_work "\<lambda>_. True"
    "limit_maximum CumulativeDeltaWorkBytes"
  by unfold_locales (auto simp: charge_delta_work_def result_iffs checked_charge_Ok)

lemma bounds_check_not_Panic [simp]: "bounds_check b k n oid \<noteq> Panic"
  by (auto simp: bounds_check_def Let_def split: option.splits)

lemma bounds_check_default [simp]: "bounds_check default_bounds k n oid = Ok ()"
  by (simp add: bounds_check_def default_bounds_def)

lemma bounds_check_Ok_iff:
  "bounds_check b k n oid = Ok u \<longleftrightarrow>
     (\<forall>l. rob_declared_body_limit b = Some l \<longrightarrow> k = Blob \<longrightarrow> n \<le> dbl_body_maximum l) \<and>
     (\<forall>m. rob_body_ceiling b = Some m \<longrightarrow> n \<le> m)"
  by (auto simp: bounds_check_def Let_def split: option.splits)

text \<open>The limit refusals: what every charge and bound reports when it does not accept.\<close>

definition is_limit :: "acquisition_error \<Rightarrow> bool" where
  "is_limit e = (case e of LimitExceeded _ _ _ \<Rightarrow> True | _ \<Rightarrow> False)"

lemma is_limit_simps [simp]: "is_limit (LimitExceeded l m n)" "is_limit (limit_exceeded l v)"
  by (simp_all add: is_limit_def limit_exceeded_def)

lemma charge_Err_is_limit:
  "charge_index b n = Err e \<Longrightarrow> is_limit e" "charge_objects b n = Err e \<Longrightarrow> is_limit e"
  "charge_pack b n = Err e \<Longrightarrow> is_limit e" "charge_inflate b n = Err e \<Longrightarrow> is_limit e"
  "charge_delta_work b n = Err e \<Longrightarrow> is_limit e" "check_limit l n = Err e \<Longrightarrow> is_limit e"
  by (auto simp: charge_defs check_limit_def result_iffs checked_charge_Err split: if_splits)

lemma bounds_check_Err: "bounds_check b k n oid = Err e \<Longrightarrow> is_limit e \<or> e = object_invalid oid OR_Size"
  by (auto simp: bounds_check_def Let_def split: option.splits if_splits)

end
