(* ===== verification/Delta.thy ===== *)
theory Delta
  imports Pack_Budgets
begin

text \<open>
  Git delta programs (\<open>packed/delta.rs\<close>): the size header, the copy and insert instructions, and
  \<open>apply\<close>, which rebuilds an object from a base and a program under the delta limits. The reference
  semantics is \<open>parse_ops\<close>, a decoder over the remaining input with no cursor and no limits; the
  interpreter is proved equivalent to it, and total on every input.
\<close>

section \<open>The interpreter\<close>

definition delta_invalid ::
  "object_id \<Rightarrow> object_id \<Rightarrow> packed_delta_reason \<Rightarrow> acquisition_error" where
  "delta_invalid pack_id object_oid reason = invalid (Delta_invalid reason pack_id object_oid)"

text \<open>\<open>parse_size\<close>: a little-endian base-128 number, read into 64 bits.\<close>

function parse_size_loop :: "bytes \<Rightarrow> nat \<Rightarrow> 64 word \<Rightarrow> nat \<Rightarrow> (nat \<times> nat) option" where
  "parse_size_loop program cursor value shift =
     (if cursor < length program then
        let byte = program ! cursor in
        if shift \<ge> 64 then None
        else let value' = value OR push_bit shift (ucast (byte AND 127)) in
             if byte AND 128 = 0 then Some (unat value', cursor + 1)
             else parse_size_loop program (cursor + 1) value' (shift + 7)
      else None)"
  by pat_completeness auto
termination by (relation "measure (\<lambda>(program, cursor, value, shift). length program - cursor)") auto

declare parse_size_loop.simps [simp del]

definition parse_size :: "bytes \<Rightarrow> nat \<Rightarrow> (nat \<times> nat) option" where
  "parse_size program cursor = parse_size_loop program cursor 0 0"

definition charge_instruction :: "nat \<Rightarrow> (nat, acquisition_error) result" where
  "charge_instruction instructions =
     and_then (ok_or (limit_exceeded DeltaInstructions u64_max) (checked_add instructions 1))
       (\<lambda>n. if n > limit_maximum DeltaInstructions then Err (limit_exceeded DeltaInstructions n)
            else Ok n)"

text \<open>The argument bytes of a copy: for each index whose opcode bit is set, one byte at that place.\<close>

fun read_flagged :: "bytes \<Rightarrow> byte \<Rightarrow> nat \<Rightarrow> nat list \<Rightarrow> nat \<Rightarrow> nat \<Rightarrow> (nat \<times> nat) option" where
  "read_flagged program opcode first_bit [] cursor acc = Some (acc, cursor)"
| "read_flagged program opcode first_bit (i # is) cursor acc =
     (if bit opcode (first_bit + i)
      then (case get_at cursor program of
              None \<Rightarrow> None
            | Some b \<Rightarrow>
                read_flagged program opcode first_bit is (cursor + 1) (acc OR push_bit (i * 8) (unat b)))
      else read_flagged program opcode first_bit is cursor acc)"

text \<open>
  One instruction: the body of the loop of \<open>apply\<close> after its charge. An opcode below 128 inserts
  that many bytes of the program; one with the high bit set copies a range of the base.
\<close>

definition delta_insert ::
  "acquisition_error \<Rightarrow> bytes \<Rightarrow> nat \<Rightarrow> byte \<Rightarrow> nat \<Rightarrow> bytes \<Rightarrow> (nat \<times> bytes, acquisition_error) result"
where
  "delta_insert err program result_size opcode cursor result =
     (let length' = unat (opcode AND 127) in
      and_then (ok_or err
          (case checked_add cursor length' of
             None \<Rightarrow> None | Some e \<Rightarrow> if e \<le> length program then Some e else None))
        (\<lambda>end'. and_then (ok_or err (checked_add (length result) length'))
           (\<lambda>result_end.
              if result_end > result_size then Err err
              else Ok (end', result @ take (end' - cursor) (drop cursor program)))))"

definition delta_copy ::
  "acquisition_error \<Rightarrow> bytes \<Rightarrow> bytes \<Rightarrow> nat \<Rightarrow> byte \<Rightarrow> nat \<Rightarrow> bytes \<Rightarrow>
   (nat \<times> bytes, acquisition_error) result"
where
  "delta_copy err base program result_size opcode cursor result =
     and_then (ok_or err (read_flagged program opcode 0 [0, 1, 2, 3] cursor 0))
       (\<lambda>(copy_offset, cursor1).
          and_then (ok_or err (read_flagged program opcode 4 [0, 1, 2] cursor1 0))
            (\<lambda>(size0, cursor2).
               let copy_size = (if size0 = 0 then 65536 else size0) in
               and_then (ok_or err (checked_add copy_offset copy_size))
                 (\<lambda>copy_end.
                    and_then (ok_or err (get_range copy_offset copy_end base))
                      (\<lambda>source.
                         and_then (ok_or err (checked_add (length result) copy_size))
                           (\<lambda>result_end.
                              if result_end > result_size then Err err
                              else Ok (cursor2, result @ source))))))"

definition delta_instruction ::
  "acquisition_error \<Rightarrow> bytes \<Rightarrow> bytes \<Rightarrow> nat \<Rightarrow> nat \<Rightarrow> bytes \<Rightarrow> (nat \<times> bytes, acquisition_error) result"
where
  "delta_instruction err base program result_size cursor result =
     (let opcode = program ! cursor in
      if opcode = 0 then Err err
      else if opcode AND 128 = 0
      then delta_insert err program result_size opcode (cursor + 1) result
      else delta_copy err base program result_size opcode (cursor + 1) result)"

lemma read_flagged_cursor: "read_flagged program op f is c acc = Some (v, c') \<Longrightarrow> c \<le> c'"
  by (induction "is" arbitrary: c acc) (fastforce split: if_splits option.splits)+

declare read_flagged.simps [simp del]

lemma delta_instruction_progress:
  "delta_instruction err base program sz c result = Ok (c', result') \<Longrightarrow> c < c'"
  by (fastforce simp: delta_instruction_def delta_insert_def delta_copy_def Let_def result_iffs
      split: if_splits option.splits dest: read_flagged_cursor)

function apply_loop ::
  "acquisition_error \<Rightarrow> bytes \<Rightarrow> bytes \<Rightarrow> nat \<Rightarrow> nat \<Rightarrow> nat \<Rightarrow> bytes \<Rightarrow> (bytes, acquisition_error) result"
where
  "apply_loop err base program result_size cursor instructions result =
     (if cursor < length program then
        and_then (charge_instruction instructions)
          (\<lambda>instructions'.
             and_then (delta_instruction err base program result_size cursor result)
               (\<lambda>next. apply_loop err base program result_size (fst next) instructions' (snd next)))
      else Ok result)"
  by pat_completeness auto
termination
  by (relation "measure (\<lambda>(err, base, program, sz, cursor, n, result). length program - cursor)")
    (auto dest: delta_instruction_progress)

declare apply_loop.simps [simp del]

text \<open>\<open>apply\<close>. \<open>try_reserve\<close> tells whether the allocator can serve the result buffer.\<close>

definition apply_delta ::
  "(nat \<Rightarrow> bool) \<Rightarrow> bytes \<Rightarrow> bytes \<Rightarrow> git_object_kind \<Rightarrow> object_id \<Rightarrow> object_id \<Rightarrow> pack_budgets \<Rightarrow>
   requested_object_bounds \<Rightarrow> (bytes \<times> pack_budgets, acquisition_error) result"
where
  "apply_delta try_reserve base program base_kind pack_id object_oid budgets bounds =
     (let err = delta_invalid pack_id object_oid DR_Program in
      and_then (ok_or err (parse_size program 0)) (\<lambda>(base_size, cursor0).
      and_then (ok_or err (parse_size program cursor0)) (\<lambda>(result_size, cursor).
      and_then (fail_if (base_size \<noteq> length base) err) (\<lambda>_.
      and_then (bounds_check bounds base_kind result_size object_oid) (\<lambda>_.
      and_then (fail_if (result_size > limit_maximum DeltaIntermediateBytes)
                  (limit_exceeded DeltaIntermediateBytes result_size)) (\<lambda>_.
      and_then (charge_delta_work budgets result_size) (\<lambda>budgets'.
      and_then (fail_if (\<not> try_reserve result_size) (unavailable PC_Delta)) (\<lambda>_.
      and_then (apply_loop err base program result_size cursor 0 []) (\<lambda>result.
      and_then (fail_if (length result \<noteq> result_size) (invalid (Object_invalid OR_Size object_oid))) (\<lambda>_.
      Ok (result, budgets')))))))))))"

section \<open>Reference semantics\<close>

datatype delta_op = Insert bytes | Copy nat nat

fun op_output :: "bytes \<Rightarrow> delta_op \<Rightarrow> bytes" where
  "op_output base (Insert bs) = bs"
| "op_output base (Copy offset n) = take n (drop offset base)"

fun op_in_range :: "bytes \<Rightarrow> delta_op \<Rightarrow> bool" where
  "op_in_range base (Insert bs) = True"
| "op_in_range base (Copy offset n) = (offset + n \<le> length base)"

definition run_ops :: "bytes \<Rightarrow> delta_op list \<Rightarrow> bytes" where
  "run_ops base ops = concat (map (op_output base) ops)"

fun take_flagged :: "byte \<Rightarrow> nat \<Rightarrow> nat list \<Rightarrow> bytes \<Rightarrow> (nat \<times> bytes) option" where
  "take_flagged opcode first_bit [] rest = Some (0, rest)"
| "take_flagged opcode first_bit (i # is) rest =
     (if bit opcode (first_bit + i)
      then (case rest of
              [] \<Rightarrow> None
            | b # rest' \<Rightarrow> map_option (\<lambda>(v, r). (unat b * 256 ^ i + v, r))
                            (take_flagged opcode first_bit is rest'))
      else take_flagged opcode first_bit is rest)"

lemma take_flagged_length: "take_flagged op f is rest = Some (v, r) \<Longrightarrow> length r \<le> length rest"
  by (induction "is" arbitrary: rest v) (fastforce split: if_splits list.splits)+

declare take_flagged.simps [simp del]

text \<open>The first instruction of a program and the input after it.\<close>

fun parse_op :: "bytes \<Rightarrow> (delta_op \<times> bytes) option" where
  "parse_op [] = None"
| "parse_op (opcode # rest) =
     (if opcode = 0 then None
      else if unat opcode < 128 then
        (if unat opcode \<le> length rest
         then Some (Insert (take (unat opcode) rest), drop (unat opcode) rest) else None)
      else
        (case take_flagged opcode 0 [0, 1, 2, 3] rest of
           None \<Rightarrow> None
         | Some (offset, rest1) \<Rightarrow>
             (case take_flagged opcode 4 [0, 1, 2] rest1 of
                None \<Rightarrow> None
              | Some (n, rest2) \<Rightarrow> Some (Copy offset (if n = 0 then 65536 else n), rest2))))"

lemma parse_op_length: "parse_op bs = Some (op, rest) \<Longrightarrow> length rest < length bs"
  by (cases bs) (auto split: if_splits option.splits dest!: take_flagged_length)

function parse_ops :: "bytes \<Rightarrow> delta_op list option" where
  "parse_ops bs =
     (if bs = [] then Some []
      else (case parse_op bs of
              None \<Rightarrow> None
            | Some (op, rest) \<Rightarrow> map_option ((#) op) (parse_ops rest)))"
  by pat_completeness auto
termination by (relation "measure length") (auto dest: parse_op_length)

declare parse_ops.simps [simp del] parse_op.simps [simp del]

text \<open>The size header as a number: base-128 digits, least significant first.\<close>

function encode_size :: "nat \<Rightarrow> bytes" where
  "encode_size n =
     (if n < 128 then [word_of_nat n] else word_of_nat (128 + n mod 128) # encode_size (n div 128))"
  by pat_completeness auto
termination by (relation "measure id") auto

declare encode_size.simps [simp del]

text \<open>
  An encoder of instructions: an insert is its length and its bytes; a copy has one opcode bit and
  one byte for every non-zero base-256 digit of its offset and of its size.
\<close>

definition digit :: "nat \<Rightarrow> nat \<Rightarrow> nat" where
  "digit v i = v div 256 ^ i mod 256"

definition flag_digits :: "nat \<Rightarrow> nat \<Rightarrow> nat list \<Rightarrow> byte \<Rightarrow> byte" where
  "flag_digits first_bit v is opcode =
     foldr (\<lambda>i op. if digit v i = 0 then op else set_bit (first_bit + i) op) is opcode"

definition digit_bytes :: "nat \<Rightarrow> nat list \<Rightarrow> bytes" where
  "digit_bytes v is = map (\<lambda>i. word_of_nat (digit v i)) (filter (\<lambda>i. digit v i \<noteq> 0) is)"

fun encode_op :: "delta_op \<Rightarrow> bytes" where
  "encode_op (Insert bs) = word_of_nat (length bs) # bs"
| "encode_op (Copy offset n) =
     flag_digits 0 offset [0, 1, 2, 3] (flag_digits 4 n [0, 1, 2] 128)
       # digit_bytes offset [0, 1, 2, 3] @ digit_bytes n [0, 1, 2]"

fun op_encodable :: "delta_op \<Rightarrow> bool" where
  "op_encodable (Insert bs) = (1 \<le> length bs \<and> length bs \<le> 127)"
| "op_encodable (Copy offset n) = (offset < 2 ^ 32 \<and> 1 \<le> n \<and> n < 2 ^ 24)"

definition encode_program :: "bytes \<Rightarrow> delta_op list \<Rightarrow> bytes" where
  "encode_program base ops =
     encode_size (length base) @ encode_size (length (run_ops base ops)) @ concat (map encode_op ops)"

section \<open>The interpreter implements the reference\<close>

lemma read_flagged_eq:
  assumes "sorted_wrt (<) is" and "\<forall>i \<in> set is. acc < 256 ^ i" and "c \<le> length program"
  shows "read_flagged program op f is c acc =
    map_option (\<lambda>(v, r). (acc + v, length program - length r)) (take_flagged op f is (drop c program))"
  using assms
proof (induction "is" arbitrary: c acc)
  case Nil
  then show ?case by (simp add: read_flagged.simps take_flagged.simps)
next
  case (Cons i "is")
  show ?case
  proof (cases "bit op (f + i) \<and> c < length program")
    case True
    let ?b = "program ! c"
    have acc: "acc OR push_bit (i * 8) (unat ?b) = acc + unat ?b * 256 ^ i"
      using Cons.prems(2) or_push_bit_nat [of acc "i * 8" "unat ?b"]
      by (simp add: power_mult mult.commute [of i])
    have less: "acc + unat ?b * 256 ^ i < 256 ^ j" if "j \<in> set is" for j
    proof -
      have "acc < 256 ^ i" and "i < j" using Cons.prems that by auto
      have "unat ?b + 1 \<le> 256" using unat_byte_less [of ?b] by linarith
      then have "(unat ?b + 1) * 256 ^ i \<le> 256 * 256 ^ i" by (rule mult_le_mono1)
      then have "unat ?b * 256 ^ i + 256 ^ i \<le> 256 ^ Suc i"
        by (simp only: distrib_right power_Suc)
      with \<open>acc < 256 ^ i\<close> have "acc + unat ?b * 256 ^ i < 256 ^ Suc i" by linarith
      also have "\<dots> \<le> 256 ^ j" using \<open>i < j\<close> by (intro power_increasing) auto
      finally show ?thesis .
    qed
    from True have drop: "drop c program = ?b # drop (Suc c) program"
      by (simp add: Cons_nth_drop_Suc)
    have "read_flagged program op f is (c + 1) (acc + unat ?b * 256 ^ i) =
      map_option (\<lambda>(v, r). (acc + unat ?b * 256 ^ i + v, length program - length r))
        (take_flagged op f is (drop (c + 1) program))"
      using Cons.prems less True by (intro Cons.IH) auto
    with True show ?thesis
      by (simp add: read_flagged.simps take_flagged.simps get_at_def acc drop option.map_comp
          comp_def case_prod_unfold add.assoc)
  next
    case False
    with Cons show ?thesis by (auto simp: read_flagged.simps take_flagged.simps get_at_def)
  qed
qed

lemmas read_flagged_offset = read_flagged_eq [of "[0, 1, 2, 3]" 0, simplified]
  and read_flagged_size = read_flagged_eq [of "[0, 1, 2]" 0, simplified]

lemma drop_suffix_length: "length r \<le> length xs \<Longrightarrow> xs = p @ r \<Longrightarrow> drop (length xs - length r) xs = r"
  by simp

lemma take_flagged_suffix: "take_flagged op f is rest = Some (v, r) \<Longrightarrow> \<exists>p. rest = p @ r"
  by (induction "is" arbitrary: rest v)
    (fastforce simp: take_flagged.simps split: if_splits list.splits)+

lemma parse_op_suffix: "parse_op bs = Some (op, rest) \<Longrightarrow> \<exists>p. bs = p @ rest"
proof (induction bs rule: parse_op.induct)
  case (2 opcode bs)
  show ?case
  proof (cases "unat opcode < 128")
    case True
    with 2 have "rest = drop (unat opcode) bs" by (auto simp: parse_op.simps split: if_splits)
    then have "opcode # bs = (opcode # take (unat opcode) bs) @ rest" by simp
    then show ?thesis by blast
  next
    case False
    with 2 obtain v r n where "take_flagged opcode 0 [0, 1, 2, 3] bs = Some (v, r)"
      and "take_flagged opcode 4 [0, 1, 2] r = Some (n, rest)"
      by (auto simp: parse_op.simps split: if_splits option.splits)
    then obtain p q where "bs = p @ r" and "r = q @ rest"
      using take_flagged_suffix by blast
    then have "opcode # bs = (opcode # p @ q) @ rest" by simp
    then show ?thesis by blast
  qed
qed (simp add: parse_op.simps)

text \<open>One step of the interpreter is one decoded instruction, in range and within the declared size.\<close>

lemma delta_insert_eq:
  assumes "length program \<le> u64_max" "sz \<le> u64_max" "unat opcode < 128" "c \<le> length program"
  shows "delta_insert err program sz opcode c result =
    (if unat opcode \<le> length (drop c program) \<and> length result + unat opcode \<le> sz
     then Ok (c + unat opcode, result @ take (unat opcode) (drop c program)) else Err err)"
  using assms by (auto simp: delta_insert_def Let_def checked_add_def split: if_splits)

lemma delta_copy_eq:
  assumes "length base \<le> u64_max" "sz \<le> u64_max" "c \<le> length program"
    and "take_flagged opcode 0 [0, 1, 2, 3] (drop c program) = Some (offset, r)"
    and "take_flagged opcode 4 [0, 1, 2] r = Some (n0, rest)"
    and n: "n = (if n0 = 0 then 65536 else n0)"
  shows "delta_copy err base program sz opcode c result =
    (if offset + n \<le> length base \<and> length result + n \<le> sz
     then Ok (length program - length rest, result @ take n (drop offset base)) else Err err)"
proof -
  from assms(4) obtain p where p: "drop c program = p @ r" by (auto dest: take_flagged_suffix)
  then have len: "length r \<le> length program"
    by (metis append_take_drop_id le_add2 length_append add.assoc)
  have r: "drop (length program - length r) program = r"
  proof -
    have "program = (take c program @ p) @ r" using p by (metis append.assoc append_take_drop_id)
    then show ?thesis by (rule drop_suffix_length [OF len])
  qed
  have "read_flagged program opcode 0 [0, 1, 2, 3] c 0 = Some (offset, length program - length r)"
    using assms(3,4) by (simp add: read_flagged_offset)
  moreover have "read_flagged program opcode 4 [0, 1, 2] (length program - length r) 0 =
      Some (n0, length program - length rest)"
    using assms(5) r by (simp add: read_flagged_size)
  ultimately show ?thesis
    using assms(1,2) n
    by (auto simp: delta_copy_def Let_def checked_add_def get_range_def split: if_splits)
qed

lemma delta_copy_truncated:
  assumes "c \<le> length program"
    and "take_flagged opcode 0 [0, 1, 2, 3] (drop c program) = None \<or>
      (\<exists>offset r. take_flagged opcode 0 [0, 1, 2, 3] (drop c program) = Some (offset, r) \<and>
        take_flagged opcode 4 [0, 1, 2] r = None)"
  shows "delta_copy err base program sz opcode c result = Err err"
  using assms(2)
proof (elim disjE exE conjE)
  assume "take_flagged opcode 0 [0, 1, 2, 3] (drop c program) = None"
  with assms(1) show ?thesis by (simp add: delta_copy_def read_flagged_offset)
next
  fix offset r
  assume t: "take_flagged opcode 0 [0, 1, 2, 3] (drop c program) = Some (offset, r)"
    and n: "take_flagged opcode 4 [0, 1, 2] r = None"
  from t obtain p where p: "drop c program = p @ r" by (auto dest: take_flagged_suffix)
  then have len: "length r \<le> length program"
    by (metis append_take_drop_id le_add2 length_append add.assoc)
  have "program = (take c program @ p) @ r" using p by (metis append.assoc append_take_drop_id)
  then have "drop (length program - length r) program = r" by (rule drop_suffix_length [OF len])
  with assms(1) t n show ?thesis
    by (simp add: delta_copy_def read_flagged_offset read_flagged_size)
qed

lemma delta_instruction_eq:
  assumes c: "c < length program"
    and small: "length program \<le> u64_max" "length base \<le> u64_max" "sz \<le> u64_max"
  shows "delta_instruction err base program sz c result =
    (case parse_op (drop c program) of
       None \<Rightarrow> Err err
     | Some (op, rest) \<Rightarrow>
         if op_in_range base op \<and> length result + length (op_output base op) \<le> sz
         then Ok (length program - length rest, result @ op_output base op) else Err err)"
proof -
  let ?op = "program ! c"
  from c have drop: "drop c program = ?op # drop (Suc c) program" by (simp add: Cons_nth_drop_Suc)
  show ?thesis
  proof (cases "unat ?op < 128")
    case True
    with c small show ?thesis
      by (auto simp: delta_instruction_def Let_def drop parse_op.simps delta_insert_eq)
  next
    case False
    then have "?op \<noteq> 0" by auto
    with False c small show ?thesis
      by (auto simp: delta_instruction_def Let_def drop parse_op.simps delta_copy_truncated
          delta_copy_eq [where c = "Suc c"] min_def split: option.splits if_splits)
  qed
qed

lemma charge_instruction_Ok:
  "charge_instruction n = Ok m \<longleftrightarrow> m = n + 1 \<and> n < limit_maximum DeltaInstructions"
  using limit_maximum_le_u64 [of DeltaInstructions]
  by (auto simp: charge_instruction_def result_iffs split: if_splits)

lemma charge_instruction_not_Panic [simp]: "charge_instruction n \<noteq> Panic"
  by (auto simp: charge_instruction_def result_iffs split: if_splits)

lemma delta_instruction_not_Panic [simp]: "delta_instruction err base program sz c r \<noteq> Panic"
  by (auto simp: delta_instruction_def delta_insert_def delta_copy_def Let_def result_iffs
      split: if_splits prod.splits)

lemma apply_loop_not_Panic [simp]: "apply_loop err base program sz c n r \<noteq> Panic"
proof (induction err base program sz c n r rule: apply_loop.induct)
  case (1 err base program sz c n r)
  then show ?case
    by (subst apply_loop.simps) (auto simp: result_iffs)
qed

lemma run_ops_Nil [simp]: "run_ops base [] = []"
  by (simp add: run_ops_def)

lemma run_ops_Cons [simp]: "run_ops base (op # ops) = op_output base op @ run_ops base ops"
  by (simp add: run_ops_def)

text \<open>The whole loop returns exactly the output of the decoded program.\<close>

lemma apply_loop_eq:
  assumes "length program \<le> u64_max" "length base \<le> u64_max" "sz \<le> u64_max"
    and "c \<le> length program" and "length result \<le> sz"
  shows "apply_loop err base program sz c n result = Ok r \<longleftrightarrow>
    (\<exists>ops. parse_ops (drop c program) = Some ops \<and> (\<forall>op \<in> set ops. op_in_range base op) \<and>
       r = result @ run_ops base ops \<and> length r \<le> sz \<and>
       (ops = [] \<or> n + length ops \<le> limit_maximum DeltaInstructions))"
  using assms
proof (induction err base program sz c n result rule: apply_loop.induct)
  case (1 err base program sz c n result)
  note small = "1.prems"(1-3)
  show ?case
  proof (cases "c < length program")
    case False
    with "1.prems" show ?thesis by (subst apply_loop.simps) (auto simp: parse_ops.simps)
  next
    case True
    note step = delta_instruction_eq [OF True small, of err result]
    have ops: "parse_ops (drop c program) =
        (case parse_op (drop c program) of
           None \<Rightarrow> None | Some (op, rest) \<Rightarrow> map_option ((#) op) (parse_ops rest))"
      using True by (subst parse_ops.simps) simp
    show ?thesis
    proof (cases "parse_op (drop c program)")
      case None
      with True step ops show ?thesis by (subst apply_loop.simps) (auto simp: result_iffs)
    next
      case (Some p)
      then obtain op rest where p: "parse_op (drop c program) = Some (op, rest)" by (cases p) auto
      let ?c = "length program - length rest"
      from p obtain q where q: "drop c program = q @ rest" by (auto dest: parse_op_suffix)
      then have rest: "drop ?c program = rest"
        by (metis append_take_drop_id append_assoc diff_add_inverse2 drop_eq_Nil drop_append
            drop_suffix_length le_add2 length_append)
      show ?thesis
      proof (cases "op_in_range base op \<and> length result + length (op_output base op) \<le> sz
          \<and> n < limit_maximum DeltaInstructions")
        case False
        then show ?thesis
          using True step ops p
          by (subst apply_loop.simps) (auto simp: result_iffs charge_instruction_Ok)
      next
        case fits: True
        then have ch: "charge_instruction n = Ok (n + 1)" by (simp add: charge_instruction_Ok)
        from fits p step have st: "delta_instruction err base program sz c result =
            Ok (?c, result @ op_output base op)" by simp
        have "apply_loop err base program sz c n result =
            apply_loop err base program sz ?c (n + 1) (result @ op_output base op)"
          using True ch st by (subst apply_loop.simps) simp
        also have "\<dots> = Ok r \<longleftrightarrow>
          (\<exists>ops. parse_ops rest = Some ops \<and> (\<forall>op \<in> set ops. op_in_range base op) \<and>
             r = (result @ op_output base op) @ run_ops base ops \<and> length r \<le> sz \<and>
             (ops = [] \<or> n + 1 + length ops \<le> limit_maximum DeltaInstructions))"
          using "1.IH" [OF True ch st] small fits rest by simp
        also have "\<dots> \<longleftrightarrow>
          (\<exists>ops. parse_ops (drop c program) = Some ops \<and> (\<forall>op \<in> set ops. op_in_range base op) \<and>
             r = result @ run_ops base ops \<and> length r \<le> sz \<and>
             (ops = [] \<or> n + length ops \<le> limit_maximum DeltaInstructions))"
          using fits by (auto simp: ops p)
        finally show ?thesis .
      qed
    qed
  qed
qed

lemma parse_size_cursor: "parse_size program c = Some (v, c') \<Longrightarrow> c < c' \<and> c' \<le> length program"
proof -
  have "parse_size_loop program c w s = Some (v, c') \<Longrightarrow> c < c' \<and> c' \<le> length program" for w s
  proof (induction program c w s rule: parse_size_loop.induct)
    case (1 program c w s)
    then show ?case
      by (subst (asm) (2) parse_size_loop.simps) (fastforce simp: Let_def split: if_splits)
  qed
  then show "parse_size program c = Some (v, c') \<Longrightarrow> ?thesis" by (simp add: parse_size_def)
qed

lemma unat_u64_le [simp]: "unat (w :: 64 word) \<le> u64_max"
  using unsigned_less [of w, where ?'a = nat] by (simp add: u64_max_def)

lemma parse_size_loop_bound: "parse_size_loop program c w s = Some (v, c') \<Longrightarrow> v \<le> u64_max"
proof (induction program c w s rule: parse_size_loop.induct)
  case (1 program c w s)
  then show ?case
    by (subst (asm) (2) parse_size_loop.simps) (fastforce simp: Let_def split: if_splits)
qed

lemma parse_size_bound: "parse_size program c = Some (v, c') \<Longrightarrow> v \<le> u64_max"
  unfolding parse_size_def by (rule parse_size_loop_bound)

section \<open>Encoders\<close>

text \<open>The size header is read back at any position of a program.\<close>

lemma parse_size_loop_encode:
  assumes "unat v < 2 ^ s" and "unat v + n * 2 ^ s < 2 ^ 64" and "s < 64"
    and "n \<noteq> 0 \<or> s = 0"
  shows "parse_size_loop (p @ encode_size n @ q) (length p) v s =
    Some (unat v + n * 2 ^ s, length p + length (encode_size n))"
  using assms
proof (induction n arbitrary: p v s rule: encode_size.induct)
  case (1 n)
  show ?case
  proof (cases "n < 128")
    case True
    let ?b = "word_of_nat n :: byte"
    have b: "unat ?b = n" using True by (intro word_of_nat_byte) simp
    have low: "?b AND 127 = ?b" using b True by (simp add: word_unat_eq_iff)
    have "unat (v OR push_bit s (ucast ?b)) = unat v + n * 2 ^ s"
      using unat_or_shift [of v s ?b] "1.prems" b by simp
    with True b low "1.prems"(3) show ?thesis
      by (subst parse_size_loop.simps) (simp add: encode_size.simps [of n] Let_def nth_append)
  next
    case False
    let ?b = "word_of_nat (128 + n mod 128) :: byte"
    have b: "unat ?b = 128 + n mod 128"
      by (rule word_of_nat_byte) (use mod_less_divisor [of 128 n] in linarith)
    have low: "unat (?b AND 127) = n mod 128" using b by simp
    have small: "n mod 128 * 2 ^ s \<le> n * 2 ^ s" by simp
    then have "unat (?b AND 127) * 2 ^ s < 2 ^ 64" unfolding low using "1.prems"(2) by linarith
    with "1.prems"(1) have step:
      "unat (v OR push_bit s (ucast (?b AND 127))) = unat v + n mod 128 * 2 ^ s"
      using unat_or_shift [of v s "?b AND 127"] low by simp
    let ?v = "v OR push_bit s (ucast (?b AND 127))"
    have split: "unat ?v + n div 128 * 2 ^ (s + 7) = unat v + n * 2 ^ s"
    proof -
      have "n mod 128 * 2 ^ s + n div 128 * 2 ^ (s + 7) = (n mod 128 + n div 128 * 128) * 2 ^ s"
        by (simp only: distrib_right power_add mult.assoc mult.commute [of "2 ^ s"]) simp
      also have "n mod 128 + n div 128 * 128 = n" by simp
      finally show ?thesis unfolding step by (simp only: add.assoc)
    qed
    have v: "unat ?v < 2 ^ (s + 7)"
    proof -
      have "n mod 128 + 1 \<le> 128" using mod_less_divisor [of 128 n] by linarith
      then have "(n mod 128 + 1) * 2 ^ s \<le> 128 * 2 ^ s" by (rule mult_le_mono1)
      then have "n mod 128 * 2 ^ s + 2 ^ s \<le> 128 * 2 ^ s" by (simp only: distrib_right mult_1)
      with "1.prems"(1) have "unat v + n mod 128 * 2 ^ s < 128 * 2 ^ s" by linarith
      then show ?thesis unfolding step by (simp add: power_add mult.commute)
    qed
    have "s + 7 < 64"
    proof (rule ccontr)
      assume "\<not> s + 7 < 64"
      then have "(2 :: nat) ^ 64 \<le> 2 ^ (s + 7)" by (intro power_increasing) auto
      then have "(2 :: nat) ^ 64 \<le> 128 * 2 ^ s" by (simp add: power_add)
      also have "128 * (2 :: nat) ^ s \<le> n * 2 ^ s" using False by (intro mult_le_mono1) simp
      finally show False using "1.prems"(2) by linarith
    qed
    moreover have "n div 128 \<noteq> 0" using False by (simp add: div_eq_0_iff)
    ultimately have "parse_size_loop ((p @ [?b]) @ encode_size (n div 128) @ q) (length (p @ [?b])) ?v (s + 7) =
      Some (unat ?v + n div 128 * 2 ^ (s + 7), length (p @ [?b]) + length (encode_size (n div 128)))"
      using False v "1.prems"(2) split by (intro "1.IH") simp_all
    with False b "1.prems"(3) split show ?thesis
      by (subst parse_size_loop.simps) (simp add: encode_size.simps [of n] Let_def nth_append)
  qed
qed

lemma parse_size_encode:
  "n < 2 ^ 64 \<Longrightarrow>
   parse_size (p @ encode_size n @ q) (length p) = Some (n, length p + length (encode_size n))"
  using parse_size_loop_encode [of 0 0 n p q] by (simp add: parse_size_def)

lemma bit_flag_digits:
  "k < 8 \<Longrightarrow>
   bit (flag_digits f v is op) k \<longleftrightarrow> bit op k \<or> (\<exists>i \<in> set is. k = f + i \<and> digit v i \<noteq> 0)"
  by (induction "is") (auto simp: flag_digits_def bit_set_bit_iff)

lemma digit_less [simp]: "digit v i < 256"
  by (simp add: digit_def)

lemma take_flagged_digit_bytes:
  "\<forall>i \<in> set is. bit op (f + i) \<longleftrightarrow> digit v i \<noteq> 0 \<Longrightarrow>
   take_flagged op f is (digit_bytes v is @ rest) = Some (\<Sum>i\<leftarrow>is. digit v i * 256 ^ i, rest)"
  by (induction "is") (auto simp: take_flagged.simps digit_bytes_def word_of_nat_byte)

lemma digits_sum: "v < 256 ^ n \<Longrightarrow> (\<Sum>i\<leftarrow>[0..<n]. digit v i * 256 ^ i) = v"
proof (induction n arbitrary: v)
  case (Suc n)
  let ?w = "v mod 256 ^ n"
  have "digit ?w i = digit v i" if "i < n" for i
  proof -
    have "(256 :: nat) ^ n = 256 ^ i * 256 ^ (n - i)" using that by (simp flip: power_add)
    then have "?w div 256 ^ i = v div 256 ^ i mod 256 ^ (n - i)"
      by (simp add: mod_mult2_eq)
    moreover have "(256 :: nat) dvd 256 ^ (n - i)" using that by (simp add: dvd_power)
    ultimately show ?thesis by (simp add: digit_def mod_mod_cancel)
  qed
  then have "(\<Sum>i\<leftarrow>[0..<n]. digit v i * 256 ^ i) = (\<Sum>i\<leftarrow>[0..<n]. digit ?w i * 256 ^ i)"
    by (intro arg_cong [where f = sum_list] map_cong) auto
  also have "\<dots> = ?w" by (rule Suc.IH) simp
  finally have "(\<Sum>i\<leftarrow>[0..<n]. digit v i * 256 ^ i) = ?w" .
  moreover have "digit v n = v div 256 ^ n"
    using Suc.prems by (simp add: digit_def less_mult_imp_div_less mult.commute)
  ultimately show ?case by (simp add: mod_div_mult_eq)
qed simp

lemma upt_digits: "[0, 1, 2, 3] = [0..<4]" "[0, 1, 2] = [0..<(3 :: nat)]"
  by (simp_all add: upt_rec)

lemma parse_op_encode: "op_encodable op \<Longrightarrow> parse_op (encode_op op @ rest) = Some (op, rest)"
proof (cases op)
  case (Insert bs)
  assume "op_encodable op"
  with Insert have "unat (word_of_nat (length bs) :: byte) = length bs" and "1 \<le> length bs"
    and "length bs \<le> 127"
    by (simp_all add: word_of_nat_byte)
  moreover from this have "(word_of_nat (length bs) :: byte) \<noteq> 0" by (metis unat_0 not_one_le_zero)
  ultimately show ?thesis using Insert by (simp add: parse_op.simps)
next
  case (Copy offset n)
  assume "op_encodable op"
  with Copy have off: "offset < 2 ^ 32" and n: "1 \<le> n" "n < 2 ^ 24" by simp_all
  define op1 where "op1 = flag_digits 0 offset [0, 1, 2, 3] (flag_digits 4 n [0, 1, 2] 128)"
  have b128: "bit (128 :: byte) k \<longleftrightarrow> k = 7" if "k < 8" for k
    using that by (auto simp: bit_simps nat_less_iff less_Suc_eq eval_nat_numeral)
  have high: "\<not> unat op1 < 128"
  proof -
    have "bit op1 7" by (auto simp: op1_def bit_flag_digits b128)
    then have "op1 AND 128 \<noteq> 0"
      using and_exp_eq_0_iff_not_bit [of op1 7] by simp
    then show ?thesis by simp
  qed
  have bits0: "bit op1 (0 + i) \<longleftrightarrow> digit offset i \<noteq> 0" if "i \<in> set [0, 1, 2, 3]" for i
    using that by (auto simp: op1_def bit_flag_digits b128)
  have bits4: "bit op1 (4 + i) \<longleftrightarrow> digit n i \<noteq> 0" if "i \<in> set [0, 1, 2]" for i
    using that by (auto simp: op1_def bit_flag_digits b128)
  have "take_flagged op1 0 [0, 1, 2, 3]
      (digit_bytes offset [0, 1, 2, 3] @ digit_bytes n [0, 1, 2] @ rest) =
      Some (offset, digit_bytes n [0, 1, 2] @ rest)"
    using take_flagged_digit_bytes [of "[0, 1, 2, 3]" op1 0 offset] bits0 digits_sum [of offset 4] off
    unfolding upt_digits by simp
  moreover have "take_flagged op1 4 [0, 1, 2] (digit_bytes n [0, 1, 2] @ rest) = Some (n, rest)"
    using take_flagged_digit_bytes [of "[0, 1, 2]" op1 4 n] bits4 digits_sum [of n 3] n
    unfolding upt_digits by simp
  moreover have "op1 \<noteq> 0" using high by auto
  moreover have "encode_op op = op1 # digit_bytes offset [0, 1, 2, 3] @ digit_bytes n [0, 1, 2]"
    by (simp add: Copy op1_def)
  ultimately show ?thesis
    using Copy high n by (simp add: parse_op.simps del: One_nat_def encode_op.simps)
qed

lemma parse_ops_encode:
  "\<forall>op \<in> set ops. op_encodable op \<Longrightarrow> parse_ops (concat (map encode_op ops)) = Some ops"
proof (induction ops)
  case (Cons op ops)
  have "encode_op op \<noteq> []" by (cases op) simp_all
  with Cons show ?case by (subst parse_ops.simps) (simp add: parse_op_encode)
qed (simp add: parse_ops.simps)


section \<open>Properties\<close>

text \<open>What makes \<open>apply\<close> accept: the two headers, the limits, and a program all of whose copies lie
  in the base and whose output has the declared size.\<close>

lemma apply_delta_Ok_iff:
  assumes "length program \<le> u64_max" "length base \<le> u64_max"
  shows "apply_delta tr base program k p oid b bounds = Ok (r, b') \<longleftrightarrow>
    (\<exists>c0 c ops.
       parse_size program 0 = Some (length base, c0) \<and>
       parse_size program c0 = Some (length r, c) \<and>
       parse_ops (drop c program) = Some ops \<and> length ops \<le> limit_maximum DeltaInstructions \<and>
       (\<forall>op \<in> set ops. op_in_range base op) \<and> r = run_ops base ops \<and>
       bounds_check bounds k (length r) oid = Ok () \<and>
       length r \<le> limit_maximum DeltaIntermediateBytes \<and>
       charge_delta_work b (length r) = Ok b' \<and> tr (length r))"
proof -
  let ?e = "delta_invalid p oid DR_Program"
  have loop: "apply_loop ?e base program sz c 0 [] = Ok x \<longleftrightarrow>
      (\<exists>ops. parse_ops (drop c program) = Some ops \<and> (\<forall>op \<in> set ops. op_in_range base op) \<and>
         x = run_ops base ops \<and> length x \<le> sz \<and> length ops \<le> limit_maximum DeltaInstructions)"
    if "parse_size program c0 = Some (sz, c)" for sz c c0 x
    using apply_loop_eq [OF assms, of sz c "[]" ?e 0 x] parse_size_bound [OF that]
      parse_size_cursor [OF that] by auto
  show ?thesis
    by (auto simp: apply_delta_def Let_def result_iffs loop split: prod.splits)
qed

lemma parse_size_two_headers:
  assumes "m < 2 ^ 64" "n < 2 ^ 64"
  shows "parse_size (encode_size m @ encode_size n @ q) 0 = Some (m, length (encode_size m))"
    and "parse_size (encode_size m @ encode_size n @ q) (length (encode_size m)) =
      Some (n, length (encode_size m) + length (encode_size n))"
  using parse_size_encode [of m "[]" "encode_size n @ q"] parse_size_encode [of n "encode_size m" q]
    assms by simp_all

text \<open>
  C3. Applying a delta program returns \<open>result\<close> exactly when the program's two headers declare the
  length of the base and the length of \<open>result\<close>, the rest decodes (with no cursor and no limits) to
  at most the permitted number of instructions, every copy lies inside the base, their outputs
  concatenate to \<open>result\<close>, and the size passes the caller's bounds, the intermediate limit, the
  cumulative budget and the allocator. The updated budget is the charged one.
\<close>

theorem apply_delta_refines_reference:
  assumes "length program \<le> u64_max" "length base \<le> u64_max"
  shows "apply_delta tr base program k p oid b bounds = Ok (r, b') \<longleftrightarrow>
    (\<exists>c0 c ops.
       parse_size program 0 = Some (length base, c0) \<and>
       parse_size program c0 = Some (length r, c) \<and>
       parse_ops (drop c program) = Some ops \<and> length ops \<le> limit_maximum DeltaInstructions \<and>
       (\<forall>op \<in> set ops. op_in_range base op) \<and> r = run_ops base ops \<and>
       bounds_check bounds k (length r) oid = Ok () \<and>
       length r \<le> limit_maximum DeltaIntermediateBytes \<and>
       charge_delta_work b (length r) = Ok b' \<and> tr (length r))"
  by (rule apply_delta_Ok_iff [OF assms])

theorem apply_delta_refines_reference_witness:
  "apply_delta (\<lambda>_. True) [10, 20, 30] [3, 4, 145, 1, 2, 2, 7, 8] Blob (ObjectId ''p'') (ObjectId ''o'')
     empty_budgets default_bounds =
     Ok ([20, 30, 7, 8], empty_budgets\<lparr>cumulative_delta_work_bytes := 4\<rparr>)"
  by (subst apply_delta_refines_reference)
    (simp_all add: u64_max_def parse_size_def parse_size_loop.simps parse_ops.simps parse_op.simps
      take_flagged.simps Let_def bit_iff_odd charge_delta_work_def checked_charge_def
      saturating_add_def empty_budgets_def)

text \<open>
  Round trip: the standard encoding of any list of encodable instructions over a base is
  accepted and produces exactly the output of the instructions, whenever the limits, the allocator
  and the caller's bounds admit it.
\<close>

lemma apply_delta_encode_program:
  assumes "\<forall>op \<in> set ops. op_encodable op \<and> op_in_range base op"
    and "length ops \<le> limit_maximum DeltaInstructions"
    and "length base < 2 ^ 64" "length (encode_program base ops) < 2 ^ 64"
    and "length (run_ops base ops) \<le> limit_maximum DeltaIntermediateBytes"
    and "bounds_check bounds k (length (run_ops base ops)) oid = Ok ()"
    and "tr (length (run_ops base ops))"
    and "charge_delta_work b (length (run_ops base ops)) = Ok b'"
  shows "apply_delta tr base (encode_program base ops) k p oid b bounds = Ok (run_ops base ops, b')"
proof -
  let ?m = "length base" and ?n = "length (run_ops base ops)"
  let ?c = "length (encode_size ?m) + length (encode_size ?n)"
  have n: "?n < 2 ^ 64" using assms(5) by simp
  have "drop ?c (encode_program base ops) = concat (map encode_op ops)"
    by (simp add: encode_program_def)
  then have ops: "parse_ops (drop ?c (encode_program base ops)) = Some ops"
    using assms(1) by (simp add: parse_ops_encode)
  note heads = parse_size_two_headers [OF assms(3) n, of "concat (map encode_op ops)",
      folded encode_program_def]
  have le: "length (encode_program base ops) \<le> u64_max" "length base \<le> u64_max"
    using assms(3,4) by (simp_all add: u64_max_def)
  show ?thesis
    by (subst apply_delta_Ok_iff [OF le]) (use heads ops assms in blast)
qed

lemma apply_delta_encode_program_witness:
  "apply_delta (\<lambda>_. True) [10, 20, 30] (encode_program [10, 20, 30] [Copy 1 2, Insert [7, 8]]) Blob
     (ObjectId ''p'') (ObjectId ''o'') empty_budgets default_bounds =
     Ok ([20, 30, 7, 8], empty_budgets\<lparr>cumulative_delta_work_bytes := 4\<rparr>)"
  using apply_delta_encode_program [of "[Copy 1 2, Insert [7, 8]]" "[10, 20, 30]" default_bounds Blob
      "ObjectId ''o''" "\<lambda>_. True" empty_budgets "empty_budgets\<lparr>cumulative_delta_work_bytes := 4\<rparr>"]
  by (simp add: encode_program_def encode_size.simps charge_delta_work_def checked_charge_def
      saturating_add_def u64_max_def empty_budgets_def flag_digits_def digit_bytes_def digit_def)

lemma delta_instruction_Err: "delta_instruction err base program sz c r = Err e \<Longrightarrow> e = err"
  by (auto simp: delta_instruction_def delta_insert_def delta_copy_def Let_def result_iffs
      split: if_splits prod.splits)

lemma charge_instruction_Err: "charge_instruction n = Err e \<Longrightarrow> is_limit e"
  by (auto simp: charge_instruction_def result_iffs split: if_splits)

lemma apply_loop_Err:
  "apply_loop err base program sz c n r = Err e \<Longrightarrow> e = err \<or> is_limit e"
proof (induction err base program sz c n r rule: apply_loop.induct)
  case (1 err base program sz c n r)
  then show ?case
    by (subst (asm) (2) apply_loop.simps)
      (auto simp: result_iffs split: if_splits dest: delta_instruction_Err charge_instruction_Err)
qed

text \<open>
  Applying a delta is total and typed on every input: it never panics, and every refusal is a
  delta, object or limit error for the object being built, or an unavailable allocation.
\<close>

lemma apply_delta_errors:
  "fails_only (\<lambda>e. e = delta_invalid p oid DR_Program \<or> e = object_invalid oid OR_Size \<or>
       e = unavailable PC_Delta \<or> is_limit e)
     (apply_delta tr base program k p oid b bounds)"
  by (rule fails_onlyI)
    (auto simp: apply_delta_def Let_def result_iffs object_invalid_def
      split: prod.splits dest: apply_loop_Err bounds_check_Err charge_Err_is_limit)


end
