(* ===== verification/Ordered_Map.thy ===== *)
theory Ordered_Map
  imports Prelude
begin

text \<open>
  Ordered maps: the \<open>BTreeMap\<close> the code uses for offset tables, catalog pairs, object caches and
  inventories. The interface is the locale \<open>ordered_map\<close>; the implementation is a strictly sorted
  association list, so that iteration is in key order as in the source.
\<close>

section \<open>The interface\<close>

locale ordered_map =
  fixes empty :: 'm
    and get :: "'m \<Rightarrow> 'k :: linorder \<Rightarrow> 'v option"
    and put :: "'k \<Rightarrow> 'v \<Rightarrow> 'm \<Rightarrow> 'm"
    and keys :: "'m \<Rightarrow> 'k list"
    and wf :: "'m \<Rightarrow> bool"
  assumes wf_empty: "wf empty"
    and get_empty: "get empty k = None"
    and wf_put: "wf m \<Longrightarrow> wf (put k v m)"
    and get_put: "wf m \<Longrightarrow> get (put k v m) k' = (if k' = k then Some v else get m k')"
    and keys_sorted: "wf m \<Longrightarrow> sorted_wrt (<) (keys m)"
    and keys_get: "wf m \<Longrightarrow> k \<in> set (keys m) \<longleftrightarrow> get m k \<noteq> None"
begin

lemma wf_fold: "wf m \<Longrightarrow> wf (fold (\<lambda>(k, v). put k v) kvs m)"
  by (induction kvs arbitrary: m) (auto simp: wf_put)

text \<open>Collecting an iterator of pairs keeps the last value of every key.\<close>

lemma get_fold:
  "wf m \<Longrightarrow> get (fold (\<lambda>(k, v). put k v) kvs m) k =
     (case map_of (rev kvs) k of None \<Rightarrow> get m k | Some v \<Rightarrow> Some v)"
proof (induction kvs arbitrary: m)
  case (Cons kv kvs)
  then show ?case
    by (cases kv) (auto simp: wf_put get_put map_add_def split: option.splits)
qed simp

lemma get_collect: "get (fold (\<lambda>(k, v). put k v) kvs empty) k = map_of (rev kvs) k"
  by (simp add: get_fold wf_empty get_empty split: option.splits)

lemma get_collect_distinct:
  "distinct (map fst kvs) \<Longrightarrow>
   get (fold (\<lambda>(k, v). put k v) kvs empty) k = Some v \<longleftrightarrow> (k, v) \<in> set kvs"
  using map_of_eq_Some_iff [of "rev kvs" k v] by (simp add: get_collect rev_map [symmetric])

text \<open>The iteration order depends only on the contents.\<close>

lemma keys_unique:
  assumes "wf m" "wf m'" "\<And>k. get m k = get m' k"
  shows "keys m = keys m'"
proof (rule sorted_distinct_set_unique)
  show "sorted (keys m)" "distinct (keys m)"
    using keys_sorted [OF assms(1)] by (auto simp: strict_sorted_iff)
  show "sorted (keys m')" "distinct (keys m')"
    using keys_sorted [OF assms(2)] by (auto simp: strict_sorted_iff)
  show "set (keys m) = set (keys m')"
    by (rule set_eqI) (simp add: keys_get assms)
qed

end

section \<open>Sorted association lists\<close>

type_synonym ('k, 'v) btree = "('k \<times> 'v) list"

fun bt_get :: "('k :: linorder, 'v) btree \<Rightarrow> 'k \<Rightarrow> 'v option" where
  "bt_get [] k = None"
| "bt_get ((k', v) # m) k = (if k = k' then Some v else bt_get m k)"

fun bt_put :: "'k :: linorder \<Rightarrow> 'v \<Rightarrow> ('k, 'v) btree \<Rightarrow> ('k, 'v) btree" where
  "bt_put k v [] = [(k, v)]"
| "bt_put k v ((k', v') # m) =
     (if k < k' then (k, v) # (k', v') # m
      else if k = k' then (k, v) # m
      else (k', v') # bt_put k v m)"

definition bt_keys :: "('k :: linorder, 'v) btree \<Rightarrow> 'k list" where
  "bt_keys m = map fst m"

definition bt_wf :: "('k :: linorder, 'v) btree \<Rightarrow> bool" where
  "bt_wf m \<longleftrightarrow> sorted_wrt (<) (map fst m)"

definition bt_collect :: "('k :: linorder \<times> 'v) list \<Rightarrow> ('k, 'v) btree" where
  "bt_collect kvs = fold (\<lambda>(k, v). bt_put k v) kvs []"

lemma bt_put_keys: "set (map fst (bt_put k v m)) = insert k (set (map fst m))"
  by (induction k v m rule: bt_put.induct) auto

lemma bt_wf_put: "bt_wf m \<Longrightarrow> bt_wf (bt_put k v m)"
proof (induction k v m rule: bt_put.induct)
  case (2 k v k' v' m)
  have "\<forall>x \<in> set (bt_put k v m). fst x = k \<or> (\<exists>y \<in> set m. fst x = fst y)"
    using bt_put_keys [of k v m] by auto
  with 2 show ?case by (force simp: bt_wf_def not_less)
qed (simp add: bt_wf_def)

lemma bt_get_put: "bt_wf m \<Longrightarrow> bt_get (bt_put k v m) k' = (if k' = k then Some v else bt_get m k')"
  by (induction k v m rule: bt_put.induct) (auto simp: bt_wf_def)

lemma bt_get_key: "k \<in> set (map fst m) \<longleftrightarrow> bt_get m k \<noteq> None"
  by (induction m) auto

interpretation bt: ordered_map "[]" bt_get bt_put bt_keys bt_wf
proof unfold_locales
  show "k \<in> set (bt_keys m) \<longleftrightarrow> bt_get m k \<noteq> None" for m :: "('a, 'b) btree" and k
    unfolding bt_keys_def by (rule bt_get_key)
  show "sorted_wrt (<) (bt_keys m)" if "bt_wf m" for m :: "('a, 'b) btree"
    using that by (simp add: bt_keys_def bt_wf_def)
  show "bt_wf []" by (simp add: bt_wf_def)
qed (simp_all add: bt_wf_put bt_get_put)

lemma bt_collect_get:
  "distinct (map fst kvs) \<Longrightarrow> bt_get (bt_collect kvs) k = Some v \<longleftrightarrow> (k, v) \<in> set kvs"
  unfolding bt_collect_def by (rule bt.get_collect_distinct)

lemma bt_collect_wf: "bt_wf (bt_collect kvs)"
  unfolding bt_collect_def by (rule bt.wf_fold) (rule bt.wf_empty)

lemma bt_get_mem: "bt_wf m \<Longrightarrow> bt_get m k = Some v \<longleftrightarrow> (k, v) \<in> set m"
  by (induction m) (force simp: bt_wf_def)+

text \<open>An ordered map with given contents is a particular list, so equality of maps is equality of
  their contents.\<close>

lemma bt_eqI:
  assumes "bt_wf m" "bt_wf m'" "\<And>k. bt_get m k = bt_get m' k"
  shows "m = m'"
proof -
  have keys: "map fst m = map fst m'"
    using bt.keys_unique [OF assms] by (simp add: bt_keys_def)
  have "map snd m = map snd m'"
  proof (rule nth_equalityI)
    show len: "length (map snd m) = length (map snd m')" using keys by (metis length_map)
    fix i assume i: "i < length (map snd m)"
    then have "(fst (m ! i), snd (m ! i)) \<in> set m" by simp
    then have "bt_get m' (fst (m ! i)) = Some (snd (m ! i))"
      using bt_get_mem [OF assms(1)] assms(3) by metis
    moreover have "(fst (m' ! i), snd (m' ! i)) \<in> set m'" using i len by simp
    then have "bt_get m' (fst (m' ! i)) = Some (snd (m' ! i))"
      using bt_get_mem [OF assms(2)] by metis
    moreover have "fst (m ! i) = fst (m' ! i)"
      using keys i len by (metis length_map nth_map)
    ultimately show "map snd m ! i = map snd m' ! i" using i len by simp
  qed
  with keys show ?thesis by (metis zip_map_fst_snd)
qed

section \<open>Ordered sets and removal\<close>

text \<open>\<open>BTreeSet\<close> is a \<open>BTreeMap\<close> to the unit; \<open>remove\<close> takes an entry out of a map.\<close>

type_synonym 'k btset = "('k, unit) btree"

definition bs_contains :: "('k :: linorder) btset \<Rightarrow> 'k \<Rightarrow> bool" where
  "bs_contains s k \<longleftrightarrow> bt_get s k \<noteq> None"

definition bs_insert :: "'k :: linorder \<Rightarrow> 'k btset \<Rightarrow> 'k btset" where
  "bs_insert k s = bt_put k () s"

definition bt_remove :: "'k :: linorder \<Rightarrow> ('k, 'v) btree \<Rightarrow> ('k, 'v) btree" where
  "bt_remove k m = filter (\<lambda>(k', _). k' \<noteq> k) m"

lemma bs_contains_keys: "bs_contains s k \<longleftrightarrow> k \<in> set (bt_keys s)"
  unfolding bs_contains_def bt_keys_def bt_get_key by simp

lemma bs_insert_keys: "set (bt_keys (bs_insert k s)) = insert k (set (bt_keys s))"
  using bt_put_keys [of k "()" s] by (simp add: bs_insert_def bt_keys_def)

lemma bt_remove_wf: "bt_wf m \<Longrightarrow> bt_wf (bt_remove k m)"
  by (induction m) (auto simp: bt_wf_def bt_remove_def)

lemma bt_remove_get: "bt_get (bt_remove k m) k' = (if k' = k then None else bt_get m k')"
  by (induction m) (auto simp: bt_remove_def)

lemma bt_remove_length: "bt_get m k \<noteq> None \<Longrightarrow> length (bt_remove k m) < length m"
  by (induction m) (auto simp: bt_remove_def less_Suc_eq_le intro: length_filter_le split: if_splits)

end
