(* ===== verification/Tracked_Files.thy ===== *)
theory Tracked_Files
  imports Domain_Types Ordered_Map
begin

text \<open>
  The pack catalog (\<open>packed/catalog.rs\<close>): tracked files with their metadata snapshots, positioned
  reads that tell an unavailable file from a changed one, and the scan of \<open>objects/pack\<close> into pairs
  of pack and index.

  The file system is the record \<open>world\<close>, the answers the system gives to the calls of one operation;
  different operations may run in different worlds, which is how a file that changes between them
  appears. The snapshot fields are those of a Unix build.
\<close>

section \<open>The file system\<close>

record metadata =
  md_is_symlink :: bool
  md_is_file :: bool
  md_is_dir :: bool
  md_len :: nat
  md_modified :: "nat option"
  md_created :: "nat option"
  md_readonly :: bool
  md_dev :: nat
  md_ino :: nat

datatype io_error = NotFound | OtherIo

text \<open>A directory item: an iteration error, or an entry whose type and name may each fail.\<close>

record dir_entry =
  de_type :: "(bool \<times> bool) option"
  de_name :: "string option"
  de_path :: string

text \<open>
  \<open>handle_metadata\<close> and \<open>handle_content\<close> describe the open handle of a path, \<open>symlink_metadata\<close> the
  path itself. The first component of \<open>de_type\<close> is \<open>is_symlink\<close>, the second \<open>is_file\<close>.
\<close>

record world =
  symlink_metadata :: "string \<Rightarrow> io_error + metadata"
  open_error :: "string \<Rightarrow> io_error option"
  handle_metadata :: "string \<Rightarrow> metadata option"
  handle_content :: "string \<Rightarrow> bytes option"
  read_dir :: "string \<Rightarrow> dir_entry option list option"

text \<open>\<open>Path::join\<close>.\<close>

definition path_join :: "string \<Rightarrow> string \<Rightarrow> string" where
  "path_join a b =
     (if starts_with ''/'' b then b
      else if a = [] \<or> ends_with ''/'' a then a @ b
      else a @ ''/'' @ b)"

section \<open>Tracked files\<close>

record metadata_snapshot =
  ms_len :: nat
  ms_modified :: "nat option"
  ms_created :: "nat option"
  ms_readonly :: bool
  ms_device :: nat
  ms_inode :: nat

definition from_metadata :: "metadata \<Rightarrow> metadata_snapshot" where
  "from_metadata m =
     \<lparr>ms_len = md_len m, ms_modified = md_modified m, ms_created = md_created m,
      ms_readonly = md_readonly m, ms_device = md_dev m, ms_inode = md_ino m\<rparr>"

definition snapshot_matches :: "metadata_snapshot \<Rightarrow> metadata \<Rightarrow> bool" where
  "snapshot_matches s m \<longleftrightarrow>
     md_is_file m \<and> ms_len s = md_len m \<and> ms_modified s = md_modified m \<and>
     ms_created s = md_created m \<and> ms_readonly s = md_readonly m \<and>
     (ms_device s = md_dev m \<and> ms_inode s = md_ino m)"

record tracked_file =
  tf_path :: string
  tf_before :: metadata_snapshot

definition tracked_len :: "tracked_file \<Rightarrow> nat" where
  "tracked_len f = ms_len (tf_before f)"

definition is_unchanged :: "world \<Rightarrow> tracked_file \<Rightarrow> bool" where
  "is_unchanged w f =
     (case handle_metadata w (tf_path f) of
        None \<Rightarrow> False
      | Some handle \<Rightarrow>
          (case symlink_metadata w (tf_path f) of
             Inl _ \<Rightarrow> False
           | Inr path \<Rightarrow>
               \<not> md_is_symlink path \<and> md_is_file path \<and>
               snapshot_matches (tf_before f) handle \<and> snapshot_matches (tf_before f) path))"

text \<open>\<open>seek\<close> and \<open>read_exact\<close>: the requested bytes of the handle, or an error.\<close>

definition read_exact_at ::
  "world \<Rightarrow> tracked_file \<Rightarrow> nat \<Rightarrow> nat \<Rightarrow> packed_component \<Rightarrow> (bytes, acquisition_error) result"
where
  "read_exact_at w f offset n component =
     (case Option.bind (handle_content w (tf_path f)) (get_range offset (offset + n)) of
        Some bs \<Rightarrow> Ok bs
      | None \<Rightarrow> if is_unchanged w f then Err (unavailable component) else Err (changed component))"

definition read_all :: "world \<Rightarrow> tracked_file \<Rightarrow> packed_component \<Rightarrow> (bytes, acquisition_error) result" where
  "read_all w f component = read_exact_at w f 0 (tracked_len f) component"

definition file_verify_unchanged ::
  "world \<Rightarrow> tracked_file \<Rightarrow> packed_component \<Rightarrow> (unit, acquisition_error) result" where
  "file_verify_unchanged w f component = (if is_unchanged w f then Ok () else Err (changed component))"

definition open_tracked :: "world \<Rightarrow> string \<Rightarrow> (tracked_file, acquisition_error) result" where
  "open_tracked w path =
     (case symlink_metadata w path of
        Inl NotFound \<Rightarrow> Err (changed PC_Catalog)
      | Inl OtherIo \<Rightarrow> Err (unavailable PC_Catalog)
      | Inr before \<Rightarrow>
          if md_is_symlink before \<or> \<not> md_is_file before then Err invalid_catalog
          else
            (let snapshot = from_metadata before in
             case open_error w path of
               Some NotFound \<Rightarrow> Err (changed PC_Catalog)
             | Some OtherIo \<Rightarrow> Err (unavailable PC_Catalog)
             | None \<Rightarrow>
                 (case handle_metadata w path of
                    None \<Rightarrow> Err (unavailable PC_Catalog)
                  | Some handle \<Rightarrow>
                      if \<not> snapshot_matches snapshot handle then Err (changed PC_Catalog)
                      else Ok \<lparr>tf_path = path, tf_before = snapshot\<rparr>)))"

section \<open>The catalog\<close>

definition pack_extensions :: "string list" where
  "pack_extensions = [''pack'', ''idx'', ''promisor'', ''bitmap'', ''keep'', ''mtimes'', ''rev'']"

definition parse_pack_name :: "string \<Rightarrow> (string \<times> string) option" where
  "parse_pack_name name =
     (case strip_prefix ''pack-'' name of
        None \<Rightarrow> None
      | Some suffix \<Rightarrow>
          (case rsplit_once CHR ''.'' suffix of
             None \<Rightarrow> None
           | Some (pack_id, extension) \<Rightarrow>
               if length pack_id = 40 \<and>
                  (\<forall>c \<in> set pack_id. is_ascii_hexdigit c \<and> \<not> is_ascii_uppercase c) \<and>
                  extension \<in> set pack_extensions
               then Some (pack_id, extension) else None))"

record pair_paths =
  pp_pack :: "string option"
  pp_index :: "string option"

definition default_pair :: pair_paths where
  "default_pair = \<lparr>pp_pack = None, pp_index = None\<rparr>"

definition pair_entry :: "string \<Rightarrow> (string, pair_paths) btree \<Rightarrow> pair_paths" where
  "pair_entry pack_id pairs = (case bt_get pairs pack_id of None \<Rightarrow> default_pair | Some p \<Rightarrow> p)"

text \<open>What one accepted directory entry does to the pairs and the multi-pack-index flag.\<close>

definition catalog_entry ::
  "dir_entry \<Rightarrow> (string, pair_paths) btree \<Rightarrow> bool \<Rightarrow>
   ((string, pair_paths) btree \<times> bool, acquisition_error) result"
where
  "catalog_entry entry pairs multi =
     (case de_type entry of
        None \<Rightarrow> Err (changed PC_Catalog)
      | Some (symlink, file) \<Rightarrow>
          if symlink \<or> \<not> file then Err invalid_catalog
          else
            (case de_name entry of
               None \<Rightarrow> Err invalid_catalog
             | Some name \<Rightarrow>
                 if name = ''multi-pack-index'' then Ok (pairs, True)
                 else
                   (case parse_pack_name name of
                      None \<Rightarrow> Err invalid_catalog
                    | Some (pack_id, extension) \<Rightarrow>
                        if extension = ''pack'' then
                          (let pair = pair_entry pack_id pairs in
                           if pp_pack pair \<noteq> None then Err (changed PC_Catalog)
                           else Ok (bt_put pack_id (pair\<lparr>pp_pack := Some (de_path entry)\<rparr>) pairs, multi))
                        else if extension = ''idx'' then
                          (let pair = pair_entry pack_id pairs in
                           if pp_index pair \<noteq> None then Err (changed PC_Catalog)
                           else Ok (bt_put pack_id (pair\<lparr>pp_index := Some (de_path entry)\<rparr>) pairs, multi))
                        else if extension = ''promisor''
                        then Err (UnsupportedRepositoryShape PromisorObjectDatabase)
                        else if extension \<in> {''bitmap'', ''keep'', ''mtimes'', ''rev''}
                        then Ok (pairs, multi)
                        else Err invalid_catalog)))"

fun catalog_loop ::
  "dir_entry option list \<Rightarrow> nat \<Rightarrow> (string, pair_paths) btree \<Rightarrow> bool \<Rightarrow>
   ((string, pair_paths) btree \<times> bool, acquisition_error) result"
where
  "catalog_loop [] observed pairs multi = Ok (pairs, multi)"
| "catalog_loop (item # items) observed pairs multi =
     and_then (ok_or (limit_exceeded PackDirectoryEntries u64_max) (checked_add observed 1))
       (\<lambda>observed'.
          if observed' > limit_maximum PackDirectoryEntries
          then Err (limit_exceeded PackDirectoryEntries observed')
          else
            (case item of
               None \<Rightarrow> Err (changed PC_Catalog)
             | Some entry \<Rightarrow>
                 and_then (catalog_entry entry pairs multi)
                   (\<lambda>(pairs', multi'). catalog_loop items observed' pairs' multi')))"

record pack_pair =
  pair_id :: object_id
  pair_pack :: tracked_file
  pair_index :: tracked_file

fun open_pairs :: "world \<Rightarrow> (string, pair_paths) btree \<Rightarrow> (pack_pair list, acquisition_error) result" where
  "open_pairs w [] = Ok []"
| "open_pairs w ((pack_id, paths) # rest) =
     (case (pp_pack paths, pp_index paths) of
        (Some pack, Some index) \<Rightarrow>
          and_then (ok_or invalid_catalog (parse_sha1 pack_id)) (\<lambda>oid.
          and_then (open_tracked w pack) (\<lambda>pf.
          and_then (open_tracked w index) (\<lambda>idxf.
          and_then (open_pairs w rest) (\<lambda>opened.
          Ok (\<lparr>pair_id = oid, pair_pack = pf, pair_index = idxf\<rparr> # opened)))))
      | _ \<Rightarrow> Err (changed PC_Catalog))"

definition open_catalog :: "world \<Rightarrow> string \<Rightarrow> (pack_pair list, acquisition_error) result" where
  "open_catalog w git_dir =
     (let pack_directory = path_join (path_join git_dir ''objects'') ''pack'' in
      case symlink_metadata w pack_directory of
        Inl NotFound \<Rightarrow> Ok []
      | Inl OtherIo \<Rightarrow> Err (unavailable PC_Catalog)
      | Inr metadata \<Rightarrow>
          if md_is_symlink metadata \<or> \<not> md_is_dir metadata then Err invalid_catalog
          else
            and_then (ok_or (unavailable PC_Catalog) (read_dir w pack_directory)) (\<lambda>entries.
            and_then (catalog_loop entries 0 [] False) (\<lambda>(pairs, multi).
            and_then (fail_if (multi \<and> pairs = []) (UnsupportedRepositoryShape MultiPackIndexOnly)) (\<lambda>_.
            and_then (fail_if (length pairs > limit_maximum PackPairs)
                        (limit_exceeded PackPairs (length pairs))) (\<lambda>_.
            open_pairs w pairs)))))"

section \<open>Tracked files: lemmas\<close>

lemma read_exact_at_Ok:
  "read_exact_at w f off n cmp = Ok bs \<longleftrightarrow>
     (\<exists>c. handle_content w (tf_path f) = Some c \<and> off + n \<le> length c \<and> bs = take n (drop off c))"
  by (cases "handle_content w (tf_path f)") (auto simp: read_exact_at_def get_range_def)

lemma read_exact_at_length: "read_exact_at w f off n cmp = Ok bs \<Longrightarrow> length bs = n"
  by (auto simp: read_exact_at_Ok)

lemma read_exact_at_not_Panic [simp]: "read_exact_at w f off n cmp \<noteq> Panic"
  by (auto simp: read_exact_at_def split: option.splits)

lemma read_exact_at_Err:
  "read_exact_at w f off n cmp = Err e \<Longrightarrow> e = unavailable cmp \<or> e = changed cmp"
  by (auto simp: read_exact_at_def split: option.splits if_splits)

lemma open_tracked_not_Panic [simp]: "open_tracked w p \<noteq> Panic"
  by (auto simp: open_tracked_def Let_def split: sum.splits io_error.splits option.splits)

lemma open_tracked_Ok:
  "open_tracked w p = Ok f \<Longrightarrow>
   tf_path f = p \<and> (\<exists>m. symlink_metadata w p = Inr m \<and> \<not> md_is_symlink m \<and> md_is_file m \<and>
     tf_before f = from_metadata m) \<and> is_unchanged w f"
  by (auto simp: open_tracked_def is_unchanged_def Let_def snapshot_matches_def from_metadata_def
      split: sum.splits io_error.splits option.splits if_splits)

section \<open>The catalog: lemmas\<close>

definition pack_id_text :: "string \<Rightarrow> bool" where
  "pack_id_text s \<longleftrightarrow> length s = 40 \<and> (\<forall>c \<in> set s. is_ascii_hexdigit c \<and> \<not> is_ascii_uppercase c)"

lemma rsplit_once_Some:
  "rsplit_once sep s = Some (a, b) \<longleftrightarrow> s = a @ sep # b \<and> sep \<notin> set b"
proof -
  have "rsplit_once sep s = Some (a, b) \<longleftrightarrow> split_once sep (rev s) = Some (rev b, rev a)"
    by (auto simp: rsplit_once_def)
  also have "\<dots> \<longleftrightarrow> rev s = rev b @ sep # rev a \<and> sep \<notin> set (rev b)" by (rule split_once_Some)
  also have "rev s = rev b @ sep # rev a \<longleftrightarrow> s = a @ sep # b"
    by (metis append.assoc append_Cons append_Nil rev.simps(2) rev_append rev_rev_ident)
  finally show ?thesis by simp
qed

lemma parse_pack_name_Some:
  "parse_pack_name name = Some (pid, ext) \<longleftrightarrow>
     name = ''pack-'' @ pid @ CHR ''.'' # ext \<and> pack_id_text pid \<and> ext \<in> set pack_extensions"
proof -
  have dot: "CHR ''.'' \<notin> set ext" if "ext \<in> set pack_extensions"
    using that by (auto simp: pack_extensions_def)
  have inner: "(case rsplit_once CHR ''.'' s of None \<Rightarrow> None
      | Some (a, b) \<Rightarrow> if length a = 40 \<and> (\<forall>c \<in> set a. is_ascii_hexdigit c \<and> \<not> is_ascii_uppercase c) \<and>
          b \<in> set pack_extensions then Some (a, b) else None) = Some (pid, ext) \<longleftrightarrow>
      s = pid @ CHR ''.'' # ext \<and> pack_id_text pid \<and> ext \<in> set pack_extensions"
    (is "?l \<longleftrightarrow> ?r") for s
  proof
    assume ?l then show ?r
      by (auto simp: rsplit_once_Some pack_id_text_def split: option.splits if_splits)
  next
    assume r: ?r
    then have "rsplit_once CHR ''.'' s = Some (pid, ext)" using dot by (simp add: rsplit_once_Some)
    with r show ?l by (simp add: pack_id_text_def)
  qed
  show ?thesis
  proof (cases "strip_prefix ''pack-'' name")
    case None
    then have "name \<noteq> ''pack-'' @ s" for s by (metis option.distinct(1) strip_prefix_Some)
    with None show ?thesis by (auto simp: parse_pack_name_def)
  next
    case (Some s)
    then have "name = ''pack-'' @ s" by (simp only: strip_prefix_Some)
    with Some inner [of s] show ?thesis by (simp add: parse_pack_name_def)
  qed
qed

text \<open>The listing names a pack (or an index) at a path.\<close>

definition listed :: "dir_entry option list \<Rightarrow> string \<Rightarrow> string \<Rightarrow> string \<Rightarrow> bool" where
  "listed items pid ext path \<longleftrightarrow>
     pack_id_text pid \<and>
     (\<exists>e. Some e \<in> set items \<and> de_name e = Some (''pack-'' @ pid @ CHR ''.'' # ext) \<and> de_path e = path)"

lemma listed_Nil [simp]: "\<not> listed [] pid ext path"
  by (simp add: listed_def)

lemma listed_Cons:
  "listed (Some e # items) pid ext path \<longleftrightarrow>
     listed items pid ext path \<or>
     pack_id_text pid \<and> de_name e = Some (''pack-'' @ pid @ CHR ''.'' # ext) \<and> de_path e = path"
  by (auto simp: listed_def)

lemma pair_entry_put:
  "bt_wf m \<Longrightarrow> pair_entry k (bt_put k' v m) = (if k = k' then v else pair_entry k m)"
  by (simp add: pair_entry_def bt_get_put)

lemma catalog_entry_cases:
  assumes "catalog_entry e pairs multi = Ok (pairs', multi')"
  obtains (multi) "de_name e = Some ''multi-pack-index''" "pairs' = pairs"
  | (pack) pid where "de_name e = Some (''pack-'' @ pid @ CHR ''.'' # ''pack'')" "pack_id_text pid"
      "pp_pack (pair_entry pid pairs) = None"
      "pairs' = bt_put pid ((pair_entry pid pairs)\<lparr>pp_pack := Some (de_path e)\<rparr>) pairs"
  | (index) pid where "de_name e = Some (''pack-'' @ pid @ CHR ''.'' # ''idx'')" "pack_id_text pid"
      "pp_index (pair_entry pid pairs) = None"
      "pairs' = bt_put pid ((pair_entry pid pairs)\<lparr>pp_index := Some (de_path e)\<rparr>) pairs"
  | (other) pid ext where "de_name e = Some (''pack-'' @ pid @ CHR ''.'' # ext)"
      "pack_id_text pid" "ext \<in> {''bitmap'', ''keep'', ''mtimes'', ''rev''}" "pairs' = pairs"
proof -
  from assms obtain name where name: "de_name e = Some name"
    by (auto simp: catalog_entry_def split: option.splits if_splits)
  show ?thesis
  proof (cases "name = ''multi-pack-index''")
    case True
    with assms name show ?thesis
      by (intro that(1)) (auto simp: catalog_entry_def split: option.splits if_splits)
  next
    case False
    with assms name obtain pid ext where pn: "parse_pack_name name = Some (pid, ext)"
      by (auto simp: catalog_entry_def split: option.splits if_splits)
    then have n: "name = ''pack-'' @ pid @ CHR ''.'' # ext" "pack_id_text pid"
      by (simp_all only: parse_pack_name_Some)
    from assms name False pn consider "ext = ''pack''" | "ext = ''idx''"
      | "ext \<in> {''bitmap'', ''keep'', ''mtimes'', ''rev''}"
      by (auto simp: catalog_entry_def split: option.splits if_splits)
    then show ?thesis
    proof cases
      case 1
      with assms name False pn n show ?thesis
        by (intro that(2) [of pid])
          (auto simp: catalog_entry_def Let_def simp del: append.simps split: option.splits if_splits)
    next
      case 2
      with assms name False pn n show ?thesis
        by (intro that(3) [of pid])
          (auto simp: catalog_entry_def Let_def simp del: append.simps split: option.splits if_splits)
    next
      case 3
      with assms name False pn n show ?thesis
        by (intro that(4) [of pid ext])
          (auto simp: catalog_entry_def Let_def simp del: append.simps split: option.splits if_splits)
    qed
  qed
qed

lemma pack_name_inject:
  "pack_id_text p \<Longrightarrow> pack_id_text q \<Longrightarrow>
   (''pack-'' @ p @ CHR ''.'' # x = ''pack-'' @ q @ CHR ''.'' # y) \<longleftrightarrow> p = q \<and> x = y"
  by (auto simp: pack_id_text_def)

lemma catalog_entry_Ok:
  assumes "catalog_entry e pairs multi = Ok (pairs', multi')" and "bt_wf pairs"
  shows "bt_wf pairs'"
    and "pack_id_text pid \<Longrightarrow> pp_pack (pair_entry pid pairs') = Some path \<longleftrightarrow>
      pp_pack (pair_entry pid pairs) = Some path \<or>
      de_name e = Some (''pack-'' @ pid @ CHR ''.'' # ''pack'') \<and> de_path e = path"
    and "pack_id_text pid \<Longrightarrow> pp_index (pair_entry pid pairs') = Some path \<longleftrightarrow>
      pp_index (pair_entry pid pairs) = Some path \<or>
      de_name e = Some (''pack-'' @ pid @ CHR ''.'' # ''idx'') \<and> de_path e = path"
    and "pack_id_text pid \<Longrightarrow> de_name e \<noteq> Some (''pack-'' @ pid @ CHR ''.'' # ''promisor'')"
proof -
  note cs = catalog_entry_cases [OF assms(1)]
  show "bt_wf pairs'" by (cases rule: cs) (simp_all add: assms(2) bt_wf_put)
  show "pp_pack (pair_entry pid pairs') = Some path \<longleftrightarrow>
      pp_pack (pair_entry pid pairs) = Some path \<or>
      de_name e = Some (''pack-'' @ pid @ CHR ''.'' # ''pack'') \<and> de_path e = path"
    if "pack_id_text pid"
    by (cases rule: cs) (auto simp: assms(2) pair_entry_put pack_name_inject that simp del: append.simps)
  show "pp_index (pair_entry pid pairs') = Some path \<longleftrightarrow>
      pp_index (pair_entry pid pairs) = Some path \<or>
      de_name e = Some (''pack-'' @ pid @ CHR ''.'' # ''idx'') \<and> de_path e = path"
    if "pack_id_text pid"
    by (cases rule: cs) (auto simp: assms(2) pair_entry_put pack_name_inject that simp del: append.simps)
  show "de_name e \<noteq> Some (''pack-'' @ pid @ CHR ''.'' # ''promisor'')" if "pack_id_text pid"
    by (cases rule: cs) (auto simp: pack_name_inject that simp del: append.simps)
qed

lemma catalog_loop_Ok:
  "catalog_loop items n pairs multi = Ok (pairs', multi') \<Longrightarrow> bt_wf pairs \<Longrightarrow>
   bt_wf pairs' \<and>
   (\<forall>pid path. pack_id_text pid \<longrightarrow>
      (pp_pack (pair_entry pid pairs') = Some path \<longleftrightarrow>
        pp_pack (pair_entry pid pairs) = Some path \<or> listed items pid ''pack'' path) \<and>
      (pp_index (pair_entry pid pairs') = Some path \<longleftrightarrow>
        pp_index (pair_entry pid pairs) = Some path \<or> listed items pid ''idx'' path) \<and>
      \<not> listed items pid ''promisor'' path) \<and>
   (items \<noteq> [] \<longrightarrow> n + length items \<le> limit_maximum PackDirectoryEntries)"
proof (induction items arbitrary: n pairs multi)
  case (Cons item items)
  from Cons.prems(1) obtain e p1 m1 where e: "item = Some e"
    and n: "n + 1 \<le> limit_maximum PackDirectoryEntries"
    and c: "catalog_entry e pairs multi = Ok (p1, m1)"
    and l: "catalog_loop items (n + 1) p1 m1 = Ok (pairs', multi')"
    by (auto simp: result_iffs split: if_splits option.splits prod.splits)
  note entry = catalog_entry_Ok [OF c Cons.prems(2)]
  note ih = Cons.IH [OF l entry(1)]
  have size: "n + length (item # items) \<le> limit_maximum PackDirectoryEntries"
    using ih n by (cases items) auto
  show ?case unfolding e
  proof (intro conjI allI impI)
    show "n + length (Some e # items) \<le> limit_maximum PackDirectoryEntries" using size by simp
    show "bt_wf pairs'" using ih by blast
    fix pid path assume pid: "pack_id_text pid"
    show "pp_pack (pair_entry pid pairs') = Some path \<longleftrightarrow>
        pp_pack (pair_entry pid pairs) = Some path \<or> listed (Some e # items) pid ''pack'' path"
      using ih entry(2) [OF pid] pid unfolding listed_Cons by blast
    show "pp_index (pair_entry pid pairs') = Some path \<longleftrightarrow>
        pp_index (pair_entry pid pairs) = Some path \<or> listed (Some e # items) pid ''idx'' path"
      using ih entry(3) [OF pid] pid unfolding listed_Cons by blast
    show "\<not> listed (Some e # items) pid ''promisor'' path"
      using ih entry(4) [OF pid] pid unfolding listed_Cons by blast
  qed
qed auto

lemma open_pairs_Ok:
  "open_pairs w ps = Ok opened \<Longrightarrow>
   list_all2 (\<lambda>(pid, paths) p.
     as_str (pair_id p) = pid \<and> pack_id_text pid \<and>
     pp_pack paths = Some (tf_path (pair_pack p)) \<and> pp_index paths = Some (tf_path (pair_index p)) \<and>
     is_unchanged w (pair_pack p) \<and> is_unchanged w (pair_index p)) ps opened"
proof (induction ps arbitrary: opened)
  case (Cons pp ps)
  obtain pid paths where pp: "pp = (pid, paths)" by (cases pp)
  from Cons.prems obtain pack idx oid f g rest where
    p: "pp_pack paths = Some pack" "pp_index paths = Some idx" "parse_sha1 pid = Some oid"
      "open_tracked w pack = Ok f" "open_tracked w idx = Ok g" "open_pairs w ps = Ok rest"
      "opened = \<lparr>pair_id = oid, pair_pack = f, pair_index = g\<rparr> # rest"
    by (auto simp: pp result_iffs split: option.splits)
  with Cons.IH [OF p(6)] show ?case
    using open_tracked_Ok [OF p(4)] open_tracked_Ok [OF p(5)]
    by (auto simp: pp parse_sha1_def pack_id_text_def split: if_splits)
qed simp

lemma catalog_not_Panic [simp]:
  "catalog_entry e ps m \<noteq> Panic" "catalog_loop items n ps m \<noteq> Panic" "open_pairs w ps \<noteq> Panic"
  "open_catalog w g \<noteq> Panic"
proof -
  show e: "catalog_entry e ps m \<noteq> Panic" for e ps m
    by (simp add: catalog_entry_def Let_def split: option.splits prod.splits)
  show l: "catalog_loop items n ps m \<noteq> Panic"
    by (induction items arbitrary: n ps m) (auto simp: result_iffs e split: option.splits if_splits)
  show o: "open_pairs w ps \<noteq> Panic" for ps
  proof (induction ps)
    case (Cons pp ps)
    then show ?case by (cases pp) (simp add: result_iffs split: option.splits)
  qed simp
  have l: "catalog_loop items n ps m \<noteq> Panic" for items n ps m
    by (induction items arbitrary: n ps m) (auto simp: result_iffs e split: option.splits if_splits)
  show "open_catalog w g \<noteq> Panic"
    by (auto simp: open_catalog_def Let_def result_iffs l o
        split: sum.splits io_error.splits prod.splits)
qed

lemma open_pairs_lookup:
  assumes "open_pairs w ps = Ok pairs" "bt_wf ps" "bt_get ps pid = Some paths"
  shows "\<exists>p \<in> set pairs. as_str (pair_id p) = pid \<and>
    pp_pack paths = Some (tf_path (pair_pack p)) \<and> pp_index paths = Some (tf_path (pair_index p))"
proof -
  have "(pid, paths) \<in> set ps" using bt_get_mem [OF assms(2)] assms(3) by simp
  then obtain i where "i < length ps" "ps ! i = (pid, paths)" by (auto simp: in_set_conv_nth)
  with open_pairs_Ok [OF assms(1), unfolded list_all2_conv_all_nth] show ?thesis
    by (auto simp: case_prod_unfold intro!: bexI [of _ "pairs ! i"])
qed

lemma open_pairs_member:
  assumes "open_pairs w ps = Ok pairs" "bt_wf ps" "p \<in> set pairs"
  shows "\<exists>paths. bt_get ps (as_str (pair_id p)) = Some paths \<and> pack_id_text (as_str (pair_id p)) \<and>
    pp_pack paths = Some (tf_path (pair_pack p)) \<and> pp_index paths = Some (tf_path (pair_index p)) \<and>
    is_unchanged w (pair_pack p) \<and> is_unchanged w (pair_index p)"
proof -
  note all2 = open_pairs_Ok [OF assms(1), unfolded list_all2_conv_all_nth]
  from assms obtain i where i: "i < length pairs" "p = pairs ! i" by (auto simp: in_set_conv_nth)
  then have "ps ! i \<in> set ps" using all2 by simp
  then have "bt_get ps (fst (ps ! i)) = Some (snd (ps ! i))" using bt_get_mem [OF assms(2)] by simp
  with i all2 show ?thesis by (auto simp: case_prod_unfold)
qed

lemma open_pairs_ids: "open_pairs w ps = Ok pairs \<Longrightarrow> map (as_str \<circ> pair_id) pairs = map fst ps"
  by (drule open_pairs_Ok) (auto simp: list_all2_conv_all_nth case_prod_unfold intro!: nth_equalityI)

text \<open>Half of the correspondence: the listing against the opened pairs, for either extension.\<close>

lemma listed_iff_opened:
  assumes op: "open_pairs w ps = Ok pairs" and wf: "bt_wf ps"
    and loop: "\<And>pid path. pack_id_text pid \<Longrightarrow>
      field (pair_entry pid ps) = Some path \<longleftrightarrow> listed items pid ext path"
    and none: "field default_pair = None"
    and opened: "\<And>pid paths p. bt_get ps pid = Some paths \<Longrightarrow> p \<in> set pairs \<Longrightarrow>
      as_str (pair_id p) = pid \<Longrightarrow> field paths = Some (tf_path (file p))"
  shows "listed items q ext path \<longleftrightarrow> (\<exists>p \<in> set pairs. as_str (pair_id p) = q \<and> tf_path (file p) = path)"
    (is "?l \<longleftrightarrow> ?r")
proof
  assume l: ?l
  then have "pack_id_text q" by (simp add: listed_def)
  with l loop have "field (pair_entry q ps) = Some path" by blast
  then obtain paths where "bt_get ps q = Some paths" "field paths = Some path"
    by (auto simp: pair_entry_def none split: option.splits)
  with open_pairs_lookup [OF op wf] opened show ?r by force
next
  assume ?r
  then obtain p where p: "p \<in> set pairs" "as_str (pair_id p) = q" "tf_path (file p) = path" by blast
  with open_pairs_member [OF op wf p(1)] obtain paths where
    "bt_get ps q = Some paths" "pack_id_text q" by auto
  with opened p loop show ?l by (force simp: pair_entry_def)
qed

text \<open>
  C30. An accepted catalog is exactly the pairs of the directory: in increasing order of pack
  identifier, at most the permitted number, one for every identifier that the listing names with the
  \<open>pack\<close> extension and one for every identifier it names with \<open>idx\<close>, each with both files, opened
  at the listed paths and unchanged at that moment; and the listing names no promisor pack.
\<close>

theorem open_catalog_exact:
  assumes "open_catalog w git_dir = Ok pairs"
    and "read_dir w (path_join (path_join git_dir ''objects'') ''pack'') = Some items"
    and "symlink_metadata w (path_join (path_join git_dir ''objects'') ''pack'') = Inr md"
  shows "sorted_wrt (<) (map (as_str \<circ> pair_id) pairs) \<and>
    length pairs \<le> limit_maximum PackPairs \<and>
    length items \<le> limit_maximum PackDirectoryEntries \<and>
    (\<forall>pid pack. listed items pid ''pack'' pack \<longleftrightarrow>
       (\<exists>p \<in> set pairs. as_str (pair_id p) = pid \<and> tf_path (pair_pack p) = pack)) \<and>
    (\<forall>pid index. listed items pid ''idx'' index \<longleftrightarrow>
       (\<exists>p \<in> set pairs. as_str (pair_id p) = pid \<and> tf_path (pair_index p) = index)) \<and>
    (\<forall>p \<in> set pairs. is_unchanged w (pair_pack p) \<and> is_unchanged w (pair_index p)) \<and>
    (\<forall>pid path. \<not> listed items pid ''promisor'' path)"
proof -
  from assms obtain ps m where loop: "catalog_loop items 0 [] False = Ok (ps, m)"
    and few: "length ps \<le> limit_maximum PackPairs" and op: "open_pairs w ps = Ok pairs"
    by (auto simp: open_catalog_def Let_def result_iffs not_less split: if_splits prod.splits)
  have "bt_wf ([] :: (string, pair_paths) btree)" by (simp add: bt_wf_def)
  note facts = catalog_loop_Ok [OF loop this]
  then have wf: "bt_wf ps" by blast
  have none: "pp_pack (pair_entry pid []) = None" "pp_index (pair_entry pid []) = None" for pid
    by (simp_all add: pair_entry_def default_pair_def)
  have one: "p = p'" if "p \<in> set pairs" "p' \<in> set pairs" "as_str (pair_id p) = as_str (pair_id p')" for p p'
    using wf open_pairs_ids [OF op] that unfolding bt_wf_def strict_sorted_iff
    by (metis comp_apply distinct_map inj_onD)
  have fields: "pp_pack paths = Some (tf_path (pair_pack p))" "pp_index paths = Some (tf_path (pair_index p))"
    if "bt_get ps pid = Some paths" "p \<in> set pairs" "as_str (pair_id p) = pid" for pid paths p
    using open_pairs_member [OF op wf that(2)] that by auto
  show ?thesis
  proof (intro conjI allI)
    show "sorted_wrt (<) (map (as_str \<circ> pair_id) pairs)"
      using wf by (simp add: open_pairs_ids [OF op] bt_wf_def)
    show "length pairs \<le> limit_maximum PackPairs"
      using few open_pairs_ids [OF op] by (metis length_map)
    show "length items \<le> limit_maximum PackDirectoryEntries" using facts by (cases items) auto
    show "\<forall>p \<in> set pairs. is_unchanged w (pair_pack p) \<and> is_unchanged w (pair_index p)"
      using open_pairs_member [OF op wf] by blast
    show "\<not> listed items q ''promisor'' path" for q path using facts by (auto simp: listed_def)
    show "listed items q ''pack'' path \<longleftrightarrow>
       (\<exists>p \<in> set pairs. as_str (pair_id p) = q \<and> tf_path (pair_pack p) = path)" for q path
      by (rule listed_iff_opened [OF op wf, of pp_pack])
        (use facts none fields in \<open>auto simp: default_pair_def\<close>)
    show "listed items q ''idx'' path \<longleftrightarrow>
       (\<exists>p \<in> set pairs. as_str (pair_id p) = q \<and> tf_path (pair_index p) = path)" for q path
      by (rule listed_iff_opened [OF op wf, of pp_index])
        (use facts none fields in \<open>auto simp: default_pair_def\<close>)
  qed
qed

text \<open>A directory with one pack and its index.\<close>

definition sample_metadata :: "bool \<Rightarrow> metadata" where
  "sample_metadata dir = \<lparr>md_is_symlink = False, md_is_file = \<not> dir, md_is_dir = dir, md_len = 40,
     md_modified = None, md_created = None, md_readonly = False, md_dev = 1, md_ino = 2\<rparr>"

definition sample_listing :: "dir_entry option list" where
  "sample_listing =
     [Some \<lparr>de_type = Some (False, True), de_name = Some (''pack-'' @ replicate 40 CHR ''a'' @ ''.idx''),
        de_path = ''i''\<rparr>,
      Some \<lparr>de_type = Some (False, True), de_name = Some (''pack-'' @ replicate 40 CHR ''a'' @ ''.pack''),
        de_path = ''p''\<rparr>]"

definition sample_world :: world where
  "sample_world =
     \<lparr>symlink_metadata = (\<lambda>p. Inr (sample_metadata (p \<noteq> ''i'' \<and> p \<noteq> ''p''))), open_error = (\<lambda>_. None),
      handle_metadata = (\<lambda>_. Some (sample_metadata False)), handle_content = (\<lambda>_. None),
      read_dir = (\<lambda>_. Some sample_listing)\<rparr>"

definition sample_pair :: pack_pair where
  "sample_pair = \<lparr>pair_id = ObjectId (replicate 40 CHR ''a''),
     pair_pack = \<lparr>tf_path = ''p'', tf_before = from_metadata (sample_metadata False)\<rparr>,
     pair_index = \<lparr>tf_path = ''i'', tf_before = from_metadata (sample_metadata False)\<rparr>\<rparr>"

lemma sample_catalog: "open_catalog sample_world ''g'' = Ok [sample_pair]"
proof -
  let ?id = "replicate 40 CHR ''a''"
  have id: "pack_id_text ?id"
    by (simp add: pack_id_text_def is_ascii_hexdigit_def is_ascii_uppercase_def less_eq_char_def)
  then have "parse_pack_name (''pack-'' @ ?id @ ''.idx'') = Some (?id, ''idx'')"
    and "parse_pack_name (''pack-'' @ ?id @ ''.pack'') = Some (?id, ''pack'')"
    by (simp_all only: parse_pack_name_Some) (simp_all add: pack_extensions_def)
  moreover have "parse_sha1 ?id = Some (ObjectId ?id)"
    using id by (simp only: parse_sha1_def pack_id_text_def) simp
  moreover have "path_join (path_join ''g'' ''objects'') ''pack'' = ''g/objects/pack''"
    by (simp add: path_join_def starts_with_def ends_with_def)
  ultimately show ?thesis
    by (simp add: open_catalog_def sample_world_def sample_metadata_def sample_listing_def catalog_entry_def
        pair_entry_def default_pair_def open_tracked_def snapshot_matches_def from_metadata_def
        checked_add_def u64_max_def sample_pair_def fail_if_def Let_def del: append.simps)
qed

theorem open_catalog_exact_witness:
  "length [sample_pair] \<le> limit_maximum PackPairs \<and>
   is_unchanged sample_world (pair_pack sample_pair) \<and> is_unchanged sample_world (pair_index sample_pair)"
  using open_catalog_exact [OF sample_catalog, of sample_listing "sample_metadata True"]
  by (simp add: sample_world_def path_join_def starts_with_def ends_with_def)

end
