(* ===== verification/Pack_Index.thy ===== *)
theory Pack_Index
  imports Pack_Budgets Tracked_Files
begin

text \<open>
  The version-2 pack index (\<open>packed/index.rs\<close>): the parser with its fanout, order, offset and
  checksum validation, and the two lookups on a parsed index. The collision-detecting SHA-1 is the
  parameter \<open>sha\<close>; \<open>None\<close> is a detected collision.
\<close>

section \<open>Data\<close>

definition index_header_bytes :: nat where "index_header_bytes = 8"

definition fanout_bytes :: nat where "fanout_bytes = 256 * 4"

definition trailer_bytes :: nat where "trailer_bytes = 40"

lemmas index_constants = index_header_bytes_def fanout_bytes_def trailer_bytes_def

record index_row =
  row_oid :: object_id
  row_crc32 :: nat
  row_offset :: nat

record parsed_index =
  rows :: "index_row list"
  pack_checksum :: bytes
  offsets :: "(nat, nat) btree"

definition index_invalid :: "object_id \<Rightarrow> packed_index_reason \<Rightarrow> acquisition_error" where
  "index_invalid pack_id reason = invalid (Index_invalid reason pack_id)"

definition index_object_invalid ::
  "object_id \<Rightarrow> object_id \<Rightarrow> packed_index_object_reason \<Rightarrow> acquisition_error" where
  "index_object_invalid pack_id object_oid reason = invalid (IndexObject_invalid reason pack_id object_oid)"

section \<open>Lookups\<close>

text \<open>
  \<open>slice::binary_search_by\<close>: halve a window of at least two elements, moving its base unless the
  middle element is greater than the target; then compare the remaining element.
\<close>

function bsearch_base :: "('a \<Rightarrow> bool) \<Rightarrow> 'a list \<Rightarrow> nat \<Rightarrow> nat \<Rightarrow> nat" where
  "bsearch_base gt xs base sz =
     (if sz > 1 then
        let half = sz div 2; mid = base + half
        in bsearch_base gt xs (if gt (xs ! mid) then base else mid) (sz - half)
      else base)"
  by pat_completeness auto
termination by (relation "measure (\<lambda>(gt, xs, base, sz). sz)") auto

declare bsearch_base.simps [simp del]

definition find :: "parsed_index \<Rightarrow> object_id \<Rightarrow> index_row option" where
  "find idx oid =
     (if rows idx = [] then None
      else let i = bsearch_base (\<lambda>row. row_oid row > oid) (rows idx) 0 (length (rows idx))
           in if row_oid (rows idx ! i) = oid then Some (rows idx ! i) else None)"

definition row_at_offset :: "parsed_index \<Rightarrow> nat \<Rightarrow> index_row option" where
  "row_at_offset idx offset = map_option (\<lambda>row. rows idx ! row) (bt_get (offsets idx) offset)"

section \<open>The parser\<close>

text \<open>The fanout table: 256 cumulative counts, not decreasing.\<close>

fun read_fanout :: "bytes \<Rightarrow> object_id \<Rightarrow> nat list \<Rightarrow> nat \<Rightarrow> (nat list, acquisition_error) result" where
  "read_fanout bs pack_id [] previous = Ok []"
| "read_fanout bs pack_id (bucket # buckets) previous =
     and_then (ok_or (index_invalid pack_id IR_Layout) (read_u32 bs (index_header_bytes + bucket * 4)))
       (\<lambda>value.
          if bucket > 0 \<and> value < previous then Err (index_invalid pack_id IR_Fanout)
          else and_then (read_fanout bs pack_id buckets value) (\<lambda>values. Ok (value # values)))"

text \<open>The object names, strictly increasing, with a count per first byte.\<close>

definition bump :: "nat list \<Rightarrow> bytes \<Rightarrow> nat list" where
  "bump counts oid = counts[unat (oid ! 0) := counts ! unat (oid ! 0) + 1]"

fun read_oids ::
  "bytes \<Rightarrow> object_id \<Rightarrow> nat \<Rightarrow> nat list \<Rightarrow> bytes list \<Rightarrow> nat list \<Rightarrow>
   (bytes list \<times> nat list, acquisition_error) result"
where
  "read_oids bs pack_id oid_start [] oids counts = Ok (oids, counts)"
| "read_oids bs pack_id oid_start (row # rs) oids counts =
     (let start = oid_start + row * 20 in
      and_then (expect (get_range start (start + 20) bs))
        (\<lambda>oid.
           if oids \<noteq> [] \<and> last oids \<ge> oid
           then Err (index_object_invalid pack_id (from_bytes oid) IO_ObjectOrder)
           else read_oids bs pack_id oid_start rs (oids @ [oid]) (bump counts oid)))"

fun check_fanout ::
  "object_id \<Rightarrow> nat list \<Rightarrow> nat list \<Rightarrow> nat list \<Rightarrow> nat \<Rightarrow> (unit, acquisition_error) result"
where
  "check_fanout pack_id fanout counts [] cumulative = Ok ()"
| "check_fanout pack_id fanout counts (bucket # buckets) cumulative =
     (let cumulative' = cumulative + counts ! bucket in
      if cumulative' > u32_max then Err (index_invalid pack_id IR_Fanout)
      else if fanout ! bucket \<noteq> cumulative' then Err (index_invalid pack_id IR_Fanout)
      else check_fanout pack_id fanout counts buckets cumulative')"

text \<open>The 31-bit offsets; a set high bit refers to a slot of the large-offset table.\<close>

fun read_offset_words ::
  "bytes \<Rightarrow> object_id \<Rightarrow> nat \<Rightarrow> (nat \<times> bytes) list \<Rightarrow> nat list \<Rightarrow> nat list \<Rightarrow>
   (nat list \<times> nat list, acquisition_error) result"
where
  "read_offset_words bs pack_id offset_start [] words slots = Ok (words, slots)"
| "read_offset_words bs pack_id offset_start ((row, oid) # rest) words slots =
     and_then (ok_or (index_invalid pack_id IR_Layout) (read_u32 bs (offset_start + row * 4)))
       (\<lambda>value.
          if value AND 0x80000000 \<noteq> 0 then
            (let slot = value AND 0x7FFFFFFF in
             if slot \<in> set slots
             then Err (index_object_invalid pack_id (from_bytes oid) IO_Offset)
             else read_offset_words bs pack_id offset_start rest (words @ [value]) (slots @ [slot]))
          else read_offset_words bs pack_id offset_start rest (words @ [value]) slots)"

fun read_rows ::
  "bytes \<Rightarrow> object_id \<Rightarrow> nat \<Rightarrow> nat \<Rightarrow> nat \<Rightarrow> (nat \<times> bytes \<times> nat) list \<Rightarrow> nat list \<Rightarrow> index_row list \<Rightarrow>
   (index_row list, acquisition_error) result"
where
  "read_rows bs pack_id crc_start large_start entry_end [] seen acc = Ok acc"
| "read_rows bs pack_id crc_start large_start entry_end ((row, oid, word) # rest) seen acc =
     and_then
       (if word AND 0x80000000 = 0 then Ok word
        else ok_or (index_invalid pack_id IR_Layout) (read_u64 bs (large_start + (word AND 0x7FFFFFFF) * 8)))
       (\<lambda>offset.
          let object_oid = from_bytes oid in
          if offset < 12 \<or> offset \<ge> entry_end \<or> offset \<in> set seen
          then Err (index_object_invalid pack_id object_oid IO_Offset)
          else and_then (ok_or (index_invalid pack_id IR_Layout) (read_u32 bs (crc_start + row * 4)))
                 (\<lambda>crc. read_rows bs pack_id crc_start large_start entry_end rest (seen @ [offset])
                    (acc @ [\<lparr>row_oid = object_oid, row_crc32 = crc, row_offset = offset\<rparr>])))"

definition validate_index_checksum ::
  "(bytes \<Rightarrow> bytes option) \<Rightarrow> bytes \<Rightarrow> bytes \<Rightarrow> object_id \<Rightarrow> (unit, acquisition_error) result"
where
  "validate_index_checksum sha payload expected pack_id =
     (case sha payload of
        None \<Rightarrow> Err (index_invalid pack_id IR_Sha1Collision)
      | Some actual \<Rightarrow> if actual \<noteq> expected then Err (index_invalid pack_id IR_Checksum) else Ok ())"

text \<open>The starts of the crc, offset and large-offset tables, and the minimal length.\<close>

definition index_layout :: "object_id \<Rightarrow> nat \<Rightarrow> nat \<Rightarrow> (nat \<times> nat \<times> nat, acquisition_error) result" where
  "index_layout pack_id len object_count =
     (let e = index_invalid pack_id IR_Layout; oid_start = index_header_bytes + fanout_bytes in
      and_then (ok_or e (checked_mul object_count 20)) (\<lambda>oid_bytes.
      and_then (ok_or e (checked_add oid_start oid_bytes)) (\<lambda>crc_start.
      and_then (ok_or e (checked_mul object_count 4)) (\<lambda>table_bytes.
      and_then (ok_or e (checked_add crc_start table_bytes)) (\<lambda>offset_start.
      and_then (ok_or e (checked_add offset_start table_bytes)) (\<lambda>large_start.
      and_then (fail_if (case checked_add large_start trailer_bytes of
                           None \<Rightarrow> True | Some minimum \<Rightarrow> minimum > len) e) (\<lambda>_.
      Ok (crc_start, offset_start, large_start))))))))"

text \<open>The large slots must be exactly \<open>0 ..< n\<close>, and the file must end with the trailer.\<close>

definition check_large ::
  "object_id \<Rightarrow> nat \<Rightarrow> nat \<Rightarrow> bytes list \<Rightarrow> nat list \<Rightarrow> (unit, acquisition_error) result" where
  "check_large pack_id len large_start oids slots =
     (let e = index_invalid pack_id IR_Layout in
      and_then (fail_if (list_ex (\<lambda>(expected, observed). observed \<noteq> expected) (enumerate 0 (sort slots)))
                  (index_object_invalid pack_id
                     (case oids of [] \<Rightarrow> pack_id | oid # _ \<Rightarrow> from_bytes oid) IO_Offset)) (\<lambda>_.
      and_then (ok_or e (checked_mul (length slots) 8)) (\<lambda>large_bytes.
      and_then (ok_or e (case checked_add large_start large_bytes of
                           None \<Rightarrow> None | Some v \<Rightarrow> checked_add v trailer_bytes)) (\<lambda>expected_length.
      fail_if (expected_length \<noteq> len) e))))"

definition parse_index_bytes ::
  "(bytes \<Rightarrow> bytes option) \<Rightarrow> bytes \<Rightarrow> object_id \<Rightarrow> nat \<Rightarrow> (parsed_index, acquisition_error) result"
where
  "parse_index_bytes sha bs pack_id pack_length =
     and_then (fail_if (length bs < index_header_bytes + fanout_bytes + trailer_bytes)
                 (index_invalid pack_id IR_Layout)) (\<lambda>_.
     and_then (fail_if (take 4 bs \<noteq> [0xFF, 0x74, 0x4F, 0x63])
                 (UnsupportedRepositoryShape PackIndexVersionUnsupported)) (\<lambda>_.
     and_then (fail_if (read_u32 bs 4 \<noteq> Some 2)
                 (UnsupportedRepositoryShape PackIndexVersionUnsupported)) (\<lambda>_.
     and_then (read_fanout bs pack_id [0..<256] 0) (\<lambda>fanout.
     let object_count = fanout ! 255 in
     and_then (fail_if (object_count > limit_maximum IndexedObjects)
                 (limit_exceeded IndexedObjects object_count)) (\<lambda>_.
     and_then (index_layout pack_id (length bs) object_count) (\<lambda>(crc_start, offset_start, large_start).
     and_then (read_oids bs pack_id (index_header_bytes + fanout_bytes) [0..<object_count] []
                 (replicate 256 0)) (\<lambda>(oids, counts).
     and_then (check_fanout pack_id fanout counts [0..<256] 0) (\<lambda>_.
     and_then (read_offset_words bs pack_id offset_start (enumerate 0 oids) [] []) (\<lambda>(words, slots).
     and_then (check_large pack_id (length bs) large_start oids slots) (\<lambda>_.
     and_then (ok_or (index_invalid pack_id IR_Layout) (checked_sub pack_length 20)) (\<lambda>entry_end.
     and_then (read_rows bs pack_id crc_start large_start entry_end (enumerate 0 (zip oids words)) [] [])
       (\<lambda>parsed.
     let pack_checksum_start = length bs - trailer_bytes; index_checksum_start = length bs - 20 in
     and_then (validate_index_checksum sha (take index_checksum_start bs) (drop index_checksum_start bs)
                 pack_id) (\<lambda>_.
     Ok \<lparr>rows = parsed,
         pack_checksum = take (index_checksum_start - pack_checksum_start) (drop pack_checksum_start bs),
         offsets = bt_collect (map (\<lambda>(row, entry). (row_offset entry, row)) (enumerate 0 parsed))\<rparr>)))))))))))))"

definition parse_index ::
  "(bytes \<Rightarrow> bytes option) \<Rightarrow> world \<Rightarrow> tracked_file \<Rightarrow> object_id \<Rightarrow> nat \<Rightarrow>
   (parsed_index, acquisition_error) result"
where
  "parse_index sha w file pack_id pack_length =
     and_then (read_all w file PC_Index) (\<lambda>bs. parse_index_bytes sha bs pack_id pack_length)"

section \<open>Lookup lemmas\<close>

lemma bsearch_base_hit:
  assumes sorted: "sorted_wrt (<) (map key xs)" and j: "j < length xs" "key (xs ! j) = t"
    and "base \<le> j" "j < base + sz" "base + sz \<le> length xs"
  shows "bsearch_base (\<lambda>x. key x > (t :: 'k :: linorder)) xs base sz = j"
  using assms(4-6)
proof (induction sz arbitrary: base rule: less_induct)
  case (less sz)
  show ?case
  proof (cases "sz > 1")
    case False
    with less.prems show ?thesis by (subst bsearch_base.simps) auto
  next
    case True
    let ?half = "sz div 2" and ?mid = "base + sz div 2"
    have mid: "?mid < length xs" and half: "0 < ?half" "?half < sz" "?half \<le> sz - ?half"
      using True less.prems by auto
    have order: "key (xs ! a) < key (xs ! b)" if "a < b" "b < length xs" for a b
      using sorted_wrt_nth_less [OF sorted, of a b] that by simp
    have "j < ?mid \<longleftrightarrow> key (xs ! ?mid) > t"
      using order [of j ?mid] order [of ?mid j] j mid by (metis less_asym linorder_cases)
    then show ?thesis
      using True less.prems half less.IH [of "sz - ?half" base] less.IH [of "sz - ?half" ?mid]
      by (subst bsearch_base.simps) (auto simp: Let_def)
  qed
qed

lemma bsearch_base_range: "0 < sz \<Longrightarrow> base + sz \<le> n \<Longrightarrow> bsearch_base gt xs base sz < n"
proof (induction gt xs base sz rule: bsearch_base.induct)
  case (1 gt xs base sz)
  then show ?case by (subst bsearch_base.simps) (auto simp: Let_def)
qed

lemma find_iff:
  assumes "sorted_wrt (<) (map row_oid (rows idx))"
  shows "find idx oid = Some row \<longleftrightarrow> row \<in> set (rows idx) \<and> row_oid row = oid"
proof
  assume "find idx oid = Some row"
  moreover from this have "rows idx \<noteq> []" by (auto simp: find_def)
  moreover from this have "bsearch_base (\<lambda>row. row_oid row > oid) (rows idx) 0 (length (rows idx)) < length (rows idx)"
    by (intro bsearch_base_range) auto
  ultimately show "row \<in> set (rows idx) \<and> row_oid row = oid"
    by (auto simp: find_def Let_def split: if_splits dest: nth_mem)
next
  assume "row \<in> set (rows idx) \<and> row_oid row = oid"
  then obtain j where j: "j < length (rows idx)" "rows idx ! j = row" "row_oid row = oid"
    by (auto simp: in_set_conv_nth)
  with bsearch_base_hit [OF assms, of j oid 0 "length (rows idx)"] show "find idx oid = Some row"
    by (auto simp: find_def Let_def)
qed

section \<open>The parsed index is well formed\<close>

definition offset_table :: "index_row list \<Rightarrow> (nat, nat) btree" where
  "offset_table parsed = bt_collect (map (\<lambda>(row, entry). (row_offset entry, row)) (enumerate 0 parsed))"

definition row_ok :: "nat \<Rightarrow> index_row \<Rightarrow> bool" where
  "row_ok entry_end r \<longleftrightarrow> 12 \<le> row_offset r \<and> row_offset r < entry_end \<and> row_crc32 r < 2 ^ 32"

definition index_wf :: "nat \<Rightarrow> parsed_index \<Rightarrow> bool" where
  "index_wf pack_length idx \<longleftrightarrow>
     sorted_wrt (<) (map row_oid (rows idx)) \<and>
     distinct (map row_offset (rows idx)) \<and>
     (\<forall>r \<in> set (rows idx). row_ok (pack_length - 20) r \<and> length (as_str (row_oid r)) = 40) \<and>
     length (rows idx) \<le> limit_maximum IndexedObjects \<and>
     length (pack_checksum idx) = 20 \<and>
     offsets idx = offset_table (rows idx)"

lemma index_wf_sorted: "index_wf n idx \<Longrightarrow> sorted_wrt (<) (map row_oid (rows idx))"
  by (simp add: index_wf_def)

lemma offset_table_get:
  assumes "distinct (map row_offset rs)"
  shows "bt_get (offset_table rs) off = Some i \<longleftrightarrow> i < length rs \<and> row_offset (rs ! i) = off"
proof -
  have "map fst (map (\<lambda>(row, entry). (row_offset entry, row)) (enumerate 0 rs)) = map row_offset rs"
    by (rule nth_equalityI) (simp_all add: nth_enumerate_eq)
  with assms have "bt_get (offset_table rs) off = Some i \<longleftrightarrow>
      (off, i) \<in> set (map (\<lambda>(row, entry). (row_offset entry, row)) (enumerate 0 rs))"
    unfolding offset_table_def by (intro bt_collect_get) simp
  also have "\<dots> \<longleftrightarrow> i < length rs \<and> row_offset (rs ! i) = off"
    by (force simp: in_set_enumerate_eq)
  finally show ?thesis .
qed

lemma row_at_offset_iff:
  assumes "index_wf n idx"
  shows "row_at_offset idx off = Some row \<longleftrightarrow> row \<in> set (rows idx) \<and> row_offset row = off"
  using assms offset_table_get [of "rows idx" off]
  by (auto simp: index_wf_def row_at_offset_def in_set_conv_nth)

lemma read_fanout_Ok:
  "read_fanout bs pid buckets previous = Ok vs \<Longrightarrow>
   length vs = length buckets \<and> (\<forall>v \<in> set vs. v < 2 ^ 32)"
  by (induction buckets arbitrary: previous vs)
    (auto simp: result_iffs split: if_splits intro: read_u32_bound [simplified])

lemma read_oids_Ok:
  "read_oids bs pid st rs oids counts = Ok (oids', counts') \<Longrightarrow> sorted_wrt (<) oids \<Longrightarrow>
   \<forall>oid \<in> set oids. length oid = 20 \<Longrightarrow>
   sorted_wrt (<) oids' \<and> (\<forall>oid \<in> set oids'. length oid = 20) \<and> length oids' = length oids + length rs"
proof (induction rs arbitrary: oids counts)
  case (Cons row rs)
  from Cons.prems(1) obtain oid where "get_range (st + row * 20) (st + row * 20 + 20) bs = Some oid"
    and order: "oids \<noteq> [] \<longrightarrow> last oids < oid"
    and rest: "read_oids bs pid st rs (oids @ [oid]) (bump counts oid) = Ok (oids', counts')"
    by (auto simp: result_iffs Let_def not_le split: if_splits)
  then have "length oid = 20" by (auto dest: get_range_length)
  with Cons.IH [OF rest] Cons.prems(2,3) order show ?case by (simp add: sorted_wrt_less_snoc)
qed simp

lemma read_offset_words_Ok:
  "read_offset_words bs pid st items words slots = Ok (words', slots') \<Longrightarrow>
   length words' = length words + length items"
  by (induction bs pid st items words slots rule: read_offset_words.induct)
    (auto simp: result_iffs Let_def split: if_splits)

lemma read_rows_Ok:
  assumes "read_rows bs pid cs ls ee ents (map row_offset acc) acc = Ok parsed"
    and "distinct (map row_offset acc)" "\<forall>r \<in> set acc. row_ok ee r"
  shows "distinct (map row_offset parsed) \<and> (\<forall>r \<in> set parsed. row_ok ee r) \<and>
    map row_oid parsed = map row_oid acc @ map (\<lambda>(row, oid, word). from_bytes oid) ents"
  using assms
proof (induction ents arbitrary: acc)
  case (Cons ent ents)
  obtain row oid word where ent: "ent = (row, oid, word)" by (cases ent)
  from Cons.prems(1) obtain off crc where
    fresh: "12 \<le> off" "off < ee" "off \<notin> set (map row_offset acc)"
    and crc: "read_u32 bs (cs + row * 4) = Some crc"
    and rest: "read_rows bs pid cs ls ee ents (map row_offset acc @ [off])
       (acc @ [\<lparr>row_oid = from_bytes oid, row_crc32 = crc, row_offset = off\<rparr>]) = Ok parsed"
    by (auto simp: ent result_iffs Let_def not_less split: if_splits)
  let ?acc = "acc @ [\<lparr>row_oid = from_bytes oid, row_crc32 = crc, row_offset = off\<rparr>]"
  have "map row_offset acc @ [off] = map row_offset ?acc" by simp
  with rest have "read_rows bs pid cs ls ee ents (map row_offset ?acc) ?acc = Ok parsed" by metis
  then have "distinct (map row_offset parsed) \<and> (\<forall>r \<in> set parsed. row_ok ee r) \<and>
    map row_oid parsed = map row_oid ?acc @ map (\<lambda>(row, oid, word). from_bytes oid) ents"
    using Cons.prems(2,3) fresh read_u32_bound [OF crc] by (intro Cons.IH) (auto simp: row_ok_def)
  then show ?case by (simp add: ent)
qed simp

lemma sorted_from_bytes:
  "sorted_wrt (<) oids \<Longrightarrow> \<forall>oid \<in> set oids. length oid = n \<Longrightarrow> sorted_wrt (<) (map from_bytes oids)"
  by (induction oids) (auto intro!: from_bytes_mono)

lemma parse_index_bytes_wf:
  assumes "parse_index_bytes sha bs pid len = Ok idx"
  shows "index_wf len idx"
proof -
  from assms obtain fanout cs ofs ls oids counts words slots parsed where
    big: "length bs \<ge> index_header_bytes + fanout_bytes + trailer_bytes"
    and few: "fanout ! 255 \<le> limit_maximum IndexedObjects"
    and o: "read_oids bs pid (index_header_bytes + fanout_bytes) [0..<fanout ! 255] [] (replicate 256 0) =
       Ok (oids, counts)"
    and w: "read_offset_words bs pid ofs (enumerate 0 oids) [] [] = Ok (words, slots)"
    and r: "read_rows bs pid cs ls (len - 20) (enumerate 0 (zip oids words)) [] [] = Ok parsed"
    and idx: "rows idx = parsed" "offsets idx = offset_table parsed"
      "pack_checksum idx = take (length bs - 20 - (length bs - trailer_bytes)) (drop (length bs - trailer_bytes) bs)"
    by (auto simp: parse_index_bytes_def result_iffs Let_def offset_table_def not_less split: prod.splits if_splits)
  from read_oids_Ok [OF o] have oids: "sorted_wrt (<) oids" "\<forall>oid \<in> set oids. length oid = 20"
    "length oids = fanout ! 255" by auto
  from read_offset_words_Ok [OF w] have "length words = length oids" by simp
  then have "map (\<lambda>(row, oid, word). from_bytes oid) (enumerate 0 (zip oids words)) = map from_bytes oids"
    by (intro nth_equalityI) (simp_all add: nth_enumerate_eq)
  with read_rows_Ok [of bs pid cs ls "len - 20" "enumerate 0 (zip oids words)" "[]"] r
  have rows: "distinct (map row_offset parsed)" "\<forall>r \<in> set parsed. row_ok (len - 20) r"
    "map row_oid parsed = map from_bytes oids" by auto
  have "length (as_str (row_oid x)) = 40" if "x \<in> set parsed" for x
  proof -
    from that rows(3) have "row_oid x \<in> from_bytes ` set oids" by (metis image_eqI image_set)
    with oids(2) show ?thesis by (auto simp: from_bytes_def)
  qed
  moreover have "length parsed = fanout ! 255" using rows(3) oids(3) by (metis length_map)
  moreover have "length (pack_checksum idx) = 20"
    using big by (simp add: idx index_constants)
  ultimately show ?thesis
    using rows oids few sorted_from_bytes [OF oids(1,2)] by (simp add: index_wf_def idx)
qed

section \<open>The table interface\<close>

text \<open>
  A table of objects with two lookups, by identifier and by pack offset. A parsed index provides it,
  and so does a validated pack; resolution relies on the derived laws only.
\<close>

locale object_table =
  fixes wf :: "'t \<Rightarrow> bool"
    and rows_of :: "'t \<Rightarrow> 'r list"
    and oid_of :: "'r \<Rightarrow> object_id"
    and offset_of :: "'r \<Rightarrow> nat"
    and by_oid :: "'t \<Rightarrow> object_id \<Rightarrow> 'r option"
    and by_offset :: "'t \<Rightarrow> nat \<Rightarrow> 'r option"
  assumes by_oid_iff: "wf t \<Longrightarrow> by_oid t oid = Some r \<longleftrightarrow> r \<in> set (rows_of t) \<and> oid_of r = oid"
    and by_offset_iff: "wf t \<Longrightarrow> by_offset t off = Some r \<longleftrightarrow> r \<in> set (rows_of t) \<and> offset_of r = off"
begin

lemma oid_unique:
  "wf t \<Longrightarrow> r \<in> set (rows_of t) \<Longrightarrow> r' \<in> set (rows_of t) \<Longrightarrow> oid_of r = oid_of r' \<Longrightarrow> r = r'"
  by (metis by_oid_iff option.inject)

lemma offset_unique:
  "wf t \<Longrightarrow> r \<in> set (rows_of t) \<Longrightarrow> r' \<in> set (rows_of t) \<Longrightarrow> offset_of r = offset_of r' \<Longrightarrow> r = r'"
  by (metis by_offset_iff option.inject)

lemma by_oid_then_by_offset: "wf t \<Longrightarrow> by_oid t oid = Some r \<Longrightarrow> by_offset t (offset_of r) = Some r"
  by (simp add: by_oid_iff by_offset_iff)

lemma by_oid_None: "wf t \<Longrightarrow> by_oid t oid = None \<longleftrightarrow> oid \<notin> oid_of ` set (rows_of t)"
proof -
  assume wf: "wf t"
  have "by_oid t oid \<noteq> None \<longleftrightarrow> (\<exists>r. by_oid t oid = Some r)" by simp
  also have "\<dots> \<longleftrightarrow> oid \<in> oid_of ` set (rows_of t)" using by_oid_iff [OF wf] by auto
  finally show ?thesis by blast
qed

end

interpretation parsed: object_table "\<lambda>idx. \<exists>n. index_wf n idx" rows row_oid row_offset find row_at_offset
  by unfold_locales (auto simp: row_at_offset_iff find_iff [OF index_wf_sorted])

section \<open>Totality\<close>

definition index_error :: "object_id \<Rightarrow> acquisition_error \<Rightarrow> bool" where
  "index_error pack_id e \<longleftrightarrow>
     is_limit e \<or> e = UnsupportedRepositoryShape PackIndexVersionUnsupported \<or>
     (\<exists>r. e = index_invalid pack_id r) \<or> (\<exists>r oid. e = index_object_invalid pack_id oid r)"

lemma index_errorI [simp, intro]:
  "index_error p (index_invalid p r)" "index_error p (index_object_invalid p oid r')"
  "index_error p (UnsupportedRepositoryShape PackIndexVersionUnsupported)"
  "is_limit e \<Longrightarrow> index_error p e"
  by (auto simp: index_error_def)

lemma read_fanout_outcome: "fails_only (index_error pid) (read_fanout bs pid buckets previous)"
proof (rule fails_onlyI)
  show "read_fanout bs pid buckets previous \<noteq> Panic"
    by (induction buckets arbitrary: previous) (auto simp: result_iffs split: if_splits)
  show "index_error pid e" if "read_fanout bs pid buckets previous = Err e" for e
    using that by (induction buckets arbitrary: previous) (auto simp: result_iffs split: if_splits)
qed

lemma read_oids_outcome:
  "\<forall>row \<in> set rs. st + row * 20 + 20 \<le> length bs \<Longrightarrow>
   fails_only (index_error pid) (read_oids bs pid st rs oids counts)"
  by (induction rs arbitrary: oids counts) (auto simp: Let_def get_range_def)

lemma check_fanout_outcome: "fails_only (index_error pid) (check_fanout pid fanout counts buckets c)"
  by (induction buckets arbitrary: c) (auto simp: Let_def)

lemma read_offset_words_outcome:
  "fails_only (index_error pid) (read_offset_words bs pid st items words slots)"
proof (induction items arbitrary: words slots)
  case (Cons item items)
  then show ?case
    by (cases item; cases "read_u32 bs (st + fst item * 4)") (auto simp: Let_def)
qed simp

lemma read_rows_outcome: "fails_only (index_error pid) (read_rows bs pid cs ls ee ents seen acc)"
proof (induction ents arbitrary: seen acc)
  case (Cons ent ents)
  obtain row oid word where ent: "ent = (row, oid, word)" by (cases ent)
  show ?case
    by (cases "read_u32 bs (cs + row * 4)"; cases "read_u64 bs (ls + (word AND 0x7FFFFFFF) * 8)")
      (auto simp: ent Let_def Cons.IH)
qed simp

lemma index_layout_Ok:
  "index_layout pid len n = Ok (cs, os, ls) \<Longrightarrow>
   cs = 1032 + n * 20 \<and> os = cs + n * 4 \<and> ls = os + n * 4 \<and> ls + 40 \<le> len"
  by (auto simp: index_layout_def index_constants Let_def result_iffs split: option.splits)

lemma index_layout_outcome: "fails_only (index_error pid) (index_layout pid len n)"
  unfolding index_layout_def Let_def
  by (intro outcome_intros) (auto simp: fails_only_ok_or fails_only_fail_if)

lemma check_large_outcome: "fails_only (index_error pid) (check_large pid len ls oids slots)"
  unfolding check_large_def Let_def
  by (intro outcome_intros) (auto simp: fails_only_ok_or fails_only_fail_if)

lemma validate_index_checksum_outcome:
  "fails_only (index_error pid) (validate_index_checksum sha payload expected pid)"
  by (auto simp: validate_index_checksum_def split: option.splits)

lemmas index_outcomes =
  read_fanout_outcome check_fanout_outcome read_offset_words_outcome read_rows_outcome
  index_layout_outcome check_large_outcome validate_index_checksum_outcome

lemma parse_index_bytes_outcome: "fails_only (index_error pid) (parse_index_bytes sha bs pid len)"
  unfolding parse_index_bytes_def Let_def
  by (intro outcome_intros index_outcomes read_oids_outcome)
    (auto simp: fails_only_ok_or fails_only_fail_if index_constants dest!: index_layout_Ok)

section \<open>An encoder\<close>

text \<open>
  A writer of index files: entries are name, crc and offset; an offset that does not fit 31 bits goes
  to the large table, its slot numbered in order.
\<close>

type_synonym entry = "bytes \<times> nat \<times> nat"

definition fanout_of :: "bytes list \<Rightarrow> nat \<Rightarrow> nat" where
  "fanout_of oids b = length (filter (\<lambda>oid. unat (oid ! 0) \<le> b) oids)"

fun encode_words :: "nat \<Rightarrow> nat list \<Rightarrow> nat list" where
  "encode_words k [] = []"
| "encode_words k (off # offs) =
     (if off < 2 ^ 31 then off # encode_words k offs else (2 ^ 31 + k) # encode_words (k + 1) offs)"

definition larges :: "nat list \<Rightarrow> nat list" where
  "larges offs = filter (\<lambda>off. 2 ^ 31 \<le> off) offs"

definition index_head :: "entry list \<Rightarrow> bytes" where
  "index_head es = [0xFF, 0x74, 0x4F, 0x63] @ be_bytes 4 2 @
     concat (map (be_bytes 4) (map (fanout_of (map fst es)) [0..<256]))"

definition index_payload :: "bytes \<Rightarrow> entry list \<Rightarrow> bytes" where
  "index_payload checksum es =
     index_head es @ concat (map fst es) @ concat (map (be_bytes 4) (map (fst \<circ> snd) es)) @
     concat (map (be_bytes 4) (encode_words 0 (map (snd \<circ> snd) es))) @
     concat (map (be_bytes 8) (larges (map (snd \<circ> snd) es))) @ checksum"

definition entry_row :: "entry \<Rightarrow> index_row" where
  "entry_row e = \<lparr>row_oid = from_bytes (fst e), row_crc32 = fst (snd e), row_offset = snd (snd e)\<rparr>"

definition entries_ok :: "nat \<Rightarrow> entry list \<Rightarrow> bool" where
  "entries_ok pack_length es \<longleftrightarrow>
     sorted_wrt (<) (map fst es) \<and> distinct (map (snd \<circ> snd) es) \<and>
     (\<forall>(oid, crc, off) \<in> set es. length oid = 20 \<and> crc < 2 ^ 32 \<and> 12 \<le> off \<and> off < pack_length - 20) \<and>
     length es \<le> limit_maximum IndexedObjects \<and> 20 \<le> pack_length \<and> pack_length < 2 ^ 64"

subsection \<open>Each stage of the parser on encoded tables\<close>

lemma read_fanout_forward:
  assumes "sorted_wrt (\<le>) (previous # map f buckets)"
    and "\<forall>b \<in> set buckets. read_u32 bs (index_header_bytes + b * 4) = Some (f b)"
  shows "read_fanout bs pid buckets previous = Ok (map f buckets)"
  using assms by (induction buckets arbitrary: previous) (auto simp: not_less)

lemma read_oids_forward:
  assumes "sorted_wrt (<) (oids @ new)"
    and "map (\<lambda>row. get_range (st + row * 20) (st + row * 20 + 20) bs) rs = map Some new"
  shows "read_oids bs pid st rs oids counts = Ok (oids @ new, foldl bump counts new)"
  using assms
proof (induction rs arbitrary: oids new counts)
  case (Cons row rs)
  then obtain oid new' where new: "new = oid # new'"
    and oid: "get_range (st + row * 20) (st + row * 20 + 20) bs = Some oid" by (cases new) auto
  have "oids = [] \<or> last oids < oid"
    using Cons.prems(1) by (auto simp: new sorted_wrt_append dest: last_in_set)
  moreover have "read_oids bs pid st rs (oids @ [oid]) (bump counts oid) =
      Ok ((oids @ [oid]) @ new', foldl bump (bump counts oid) new')"
    using Cons.prems by (intro Cons.IH) (auto simp: new)
  ultimately show ?case using oid by (auto simp: new Let_def not_le)
qed simp

lemma bump_counts:
  "length counts = 256 \<Longrightarrow> b < 256 \<Longrightarrow>
   foldl bump counts oids ! b = counts ! b + length (filter (\<lambda>oid. unat (oid ! 0) = b) oids)"
  by (induction oids arbitrary: counts) (auto simp: bump_def nth_list_update)

lemma fanout_of_step:
  "fanout_of oids b = (if b = 0 then 0 else fanout_of oids (b - 1)) + length (filter (\<lambda>oid. unat (oid ! 0) = b) oids)"
  by (cases b) (induction oids; auto simp: fanout_of_def le_Suc_eq)+

lemma check_fanout_forward:
  assumes "\<And>b. b < 256 \<Longrightarrow> fanout ! b = F b \<and> F b = (if b = 0 then 0 else F (b - 1)) + counts ! b \<and> F b \<le> u32_max"
    and "a \<le> 256"
  shows "check_fanout pid fanout counts [a..<256] (if a = 0 then 0 else F (a - 1)) = Ok ()"
  using assms(2)
proof (induction "256 - a" arbitrary: a)
  case (Suc n)
  then have a: "a < 256" by simp
  have "check_fanout pid fanout counts [Suc a..<256] (if Suc a = 0 then 0 else F (Suc a - 1)) = Ok ()"
    using Suc by (intro Suc.hyps) auto
  moreover have "fanout ! a = F a" "F a = (if a = 0 then 0 else F (a - 1)) + counts ! a" "F a \<le> u32_max"
    using assms(1) [OF a] by blast+
  ultimately show ?case using a by (simp add: upt_rec [of a] Let_def not_less)
qed simp

lemma high_bit_31: "off < 2147483648 \<Longrightarrow> off AND 0x80000000 = (0 :: nat)"
    "k < 2147483648 \<Longrightarrow> (2147483648 + k) AND 0x80000000 \<noteq> (0 :: nat)"
    "k < 2147483648 \<Longrightarrow> (2147483648 + k) AND 0x7FFFFFFF = (k :: nat)"
  using and_high_bit_eq_0 [of off 31] and_high_bit_eq_0 [of "2147483648 + k" 31]
    and_low_bits [of "2147483648 + k" 31] by simp_all

lemma length_encode_words [simp]: "length (encode_words k offs) = length offs"
  by (induction k offs rule: encode_words.induct) auto

lemma read_offset_words_forward:
  assumes "list_all2 (\<lambda>(row, oid) v. read_u32 bs (st + row * 4) = Some v) items (encode_words k offs)"
    and "k + length (larges offs) \<le> 2147483648"
  shows "read_offset_words bs pid st items words [0..<k] =
    Ok (words @ encode_words k offs, [0..<k + length (larges offs)])"
  using assms
proof (induction offs arbitrary: items k words rule: list.induct)
  case (Cons off offs)
  from Cons.prems(1) obtain row oid items' where items: "items = (row, oid) # items'"
    by (cases items) (auto split: if_splits)
  show ?case
  proof (cases "off < 2147483648")
    case True
    with Cons show ?thesis by (simp add: items larges_def high_bit_31)
  next
    case False
    with Cons.prems(2) have k: "k < 2147483648" by (simp add: larges_def)
    have "read_offset_words bs pid st items' (words @ [2147483648 + k]) [0..<Suc k] =
        Ok ((words @ [2147483648 + k]) @ encode_words (Suc k) offs, [0..<Suc k + length (larges offs)])"
      using Cons.prems False by (intro Cons.IH) (auto simp: items larges_def)
    with Cons.prems False k show ?thesis by (simp add: items larges_def high_bit_31)
  qed
qed (simp add: larges_def)

definition word_denotes :: "bytes \<Rightarrow> nat \<Rightarrow> nat \<Rightarrow> nat \<Rightarrow> bool" where
  "word_denotes bs ls word off \<longleftrightarrow>
     (if word AND 0x80000000 = 0 then word = off
      else read_u64 bs (ls + (word AND 0x7FFFFFFF) * 8) = Some off)"

lemma encode_words_denote:
  assumes "\<And>j. j < length (larges offs) \<Longrightarrow> read_u64 bs (ls + (k + j) * 8) = Some (larges offs ! j)"
    and "k + length (larges offs) \<le> 2147483648"
  shows "list_all2 (word_denotes bs ls) (encode_words k offs) offs"
  using assms
proof (induction offs arbitrary: k)
  case (Cons off offs)
  show ?case
  proof (cases "off < 2147483648")
    case True
    then have "word_denotes bs ls off off" by (simp add: word_denotes_def high_bit_31)
    with True Cons show ?thesis by (simp add: larges_def)
  next
    case False
    then have l: "larges (off # offs) = off # larges offs" by (simp add: larges_def)
    with Cons.prems(2) have k: "k < 2147483648" by simp
    have "list_all2 (word_denotes bs ls) (encode_words (k + 1) offs) offs"
    proof (rule Cons.IH)
      fix j assume "j < length (larges offs)"
      with Cons.prems(1) [of "Suc j"] show "read_u64 bs (ls + (k + 1 + j) * 8) = Some (larges offs ! j)"
        by (simp add: l)
    qed (use Cons.prems(2) in \<open>simp add: l\<close>)
    moreover have "read_u64 bs (ls + k * 8) = Some off" using Cons.prems(1) [of 0] by (simp add: l)
    then have "word_denotes bs ls (2147483648 + k) off" using k by (simp add: word_denotes_def high_bit_31)
    ultimately show ?thesis using False by simp
  qed
qed simp

lemma read_rows_forward:
  assumes "list_all2 (\<lambda>(row, oid, word) (oid', crc, off). oid = oid' \<and> word_denotes bs ls word off \<and>
      read_u32 bs (cs + row * 4) = Some crc \<and> 12 \<le> off \<and> off < ee) ents es"
    and "distinct (map row_offset acc @ map (snd \<circ> snd) es)"
  shows "read_rows bs pid cs ls ee ents (map row_offset acc) acc = Ok (acc @ map entry_row es)"
  using assms
proof (induction es arbitrary: ents acc rule: list.induct)
  case (Cons e es)
  obtain oid :: bytes and crc off :: nat where e: "e = (oid, crc, off)" by (cases e)
  from Cons.prems(1) [unfolded e] obtain row word :: nat and ents' where ents: "ents = (row, oid, word) # ents'"
    and den: "word_denotes bs ls word off" and crc: "read_u32 bs (cs + row * 4) = Some crc"
    and off: "12 \<le> off" "off < ee"
    and rest: "list_all2 (\<lambda>(row, oid, word) (oid', crc, off). oid = oid' \<and> word_denotes bs ls word off \<and>
      read_u32 bs (cs + row * 4) = Some crc \<and> 12 \<le> off \<and> off < ee) ents' es"
    by (auto simp: list_all2_Cons2)
  have "read_rows bs pid cs ls ee ents' (map row_offset (acc @ [entry_row e])) (acc @ [entry_row e]) =
      Ok ((acc @ [entry_row e]) @ map entry_row es)"
    using rest Cons.prems(2) by (intro Cons.IH) (auto simp: entry_row_def)
  moreover have "off \<notin> row_offset ` set acc" using Cons.prems(2) by (auto simp: e)
  ultimately show ?case
    using den crc off by (auto simp: ents e entry_row_def word_denotes_def Let_def split: if_splits)
qed simp

subsection \<open>Where the tables lie\<close>

lemma length_index_head [simp]: "length (index_head es) = 1032"
  by (simp add: index_head_def length_concat_const [where k = 4] del: upt_rec_numeral)

lemma fanout_of_le: "fanout_of oids b \<le> length oids"
  by (simp add: fanout_of_def)

lemma fanout_of_255: "fanout_of oids 255 = length oids"
proof -
  have "unat (x :: byte) \<le> 255" for x using unat_byte_less [of x] by linarith
  then show ?thesis by (simp add: fanout_of_def)
qed

lemma fanout_of_mono: "a \<le> b \<Longrightarrow> fanout_of oids a \<le> fanout_of oids b"
  by (induction oids) (auto simp: fanout_of_def)

lemma head_reads:
  assumes "length es < 2 ^ 32"
  shows "take 4 (index_head es @ s) = [0xFF, 0x74, 0x4F, 0x63]"
    and "read_u32 (index_head es @ s) 4 = Some 2"
    and "b < 256 \<Longrightarrow> read_u32 (index_head es @ s) (8 + b * 4) = Some (fanout_of (map fst es) b)"
proof -
  let ?magic = "[0xFF, 0x74, 0x4F, 0x63] :: bytes"
  let ?F = "map (fanout_of (map fst es)) [0..<256]"
  have head: "index_head es @ s = ?magic @ concat (map (be_bytes 4) [2]) @ concat (map (be_bytes 4) ?F) @ s"
    unfolding index_head_def by (simp del: upt_rec_numeral)
  then show "take 4 (index_head es @ s) = [0xFF, 0x74, 0x4F, 0x63]" by simp
  show "read_u32 (index_head es @ s) 4 = Some 2"
  proof -
    have four: "length ?magic + 0 * 4 = 4" by simp
    have "read_u32 (?magic @ concat (map (be_bytes 4) [2]) @ concat (map (be_bytes 4) ?F) @ s)
        (length ?magic + 0 * 4) = Some ([2] ! 0)"
      by (rule read_u32_table) simp_all
    then show ?thesis unfolding head four by simp
  qed
  have "\<forall>v \<in> set ?F. v < 2 ^ 32"
  proof
    fix v assume "v \<in> set ?F"
    then obtain b where "v = fanout_of (map fst es) b" by auto
    then have "v \<le> length es" using fanout_of_le [of "map fst es" b] by simp
    with assms show "v < 2 ^ 32" by linarith
  qed
  then show "read_u32 (index_head es @ s) (8 + b * 4) = Some (fanout_of (map fst es) b)" if "b < 256"
    using read_u32_table [of ?F b "?magic @ be_bytes 4 2" s] that
    unfolding index_head_def by (simp del: upt_rec_numeral)
qed

lemma encode_words_less:
  "k + length (larges offs) \<le> 2147483648 \<Longrightarrow> v \<in> set (encode_words k offs) \<Longrightarrow> v < 2 ^ 32"
  by (induction k offs rule: encode_words.induct) (auto simp: larges_def split: if_splits)

lemma table_reads:
  fixes es :: "entry list" and checksum d :: bytes
  assumes ok: "entries_ok len es"
  defines "n \<equiv> length es" and "offs \<equiv> map (snd \<circ> snd) es"
  defines "bs \<equiv> index_payload checksum es @ d"
  shows "i < n \<Longrightarrow> get_range (1032 + i * 20) (1032 + i * 20 + 20) bs = Some (fst (es ! i))"
    and "i < n \<Longrightarrow> read_u32 bs (1032 + n * 20 + i * 4) = Some (fst (snd (es ! i)))"
    and "i < n \<Longrightarrow> read_u32 bs (1032 + n * 20 + n * 4 + i * 4) = Some (encode_words 0 offs ! i)"
    and "j < length (larges offs) \<Longrightarrow>
      read_u64 bs (1032 + n * 20 + n * 4 + n * 4 + j * 8) = Some (larges offs ! j)"
proof -
  let ?O = "concat (map fst es)" and ?C = "concat (map (be_bytes 4) (map (fst \<circ> snd) es))"
  let ?W = "concat (map (be_bytes 4) (encode_words 0 offs))" and ?L = "concat (map (be_bytes 8) (larges offs))"
  have lens: "\<forall>x \<in> set (map fst es). length x = 20" and crcs: "\<forall>v \<in> set (map (fst \<circ> snd) es). v < 2 ^ 32"
    and small: "\<forall>v \<in> set offs. v < 2 ^ 64" and few: "length (larges offs) \<le> 2147483648"
    using ok by (auto simp: entries_ok_def offs_def larges_def
        intro: le_trans [OF length_filter_le])
  have words: "\<forall>v \<in> set (encode_words 0 offs). v < 2 ^ 32"
    using encode_words_less [of 0 offs] few by auto
  have lo: "length ?O = n * 20" and lc: "length ?C = n * 4" and lw: "length ?W = n * 4"
    using lens by (simp_all add: length_concat_const [where k = 20] length_concat_const [where k = 4] n_def offs_def)
  have bs: "bs = index_head es @ ?O @ ?C @ ?W @ ?L @ checksum @ d"
    by (simp add: bs_def index_payload_def offs_def)
  show "get_range (1032 + i * 20) (1032 + i * 20 + 20) bs = Some (fst (es ! i))" if "i < n"
    using get_range_table [OF lens, of i "index_head es"] that by (simp add: bs n_def)
  show "read_u32 bs (1032 + n * 20 + i * 4) = Some (fst (snd (es ! i)))" if "i < n"
    using read_u32_table [OF crcs, of i "index_head es @ ?O"] that lo by (simp add: bs n_def)
  show "read_u32 bs (1032 + n * 20 + n * 4 + i * 4) = Some (encode_words 0 offs ! i)" if "i < n"
    using read_u32_table [OF words, of i "index_head es @ ?O @ ?C"] that lo lc
    by (simp add: bs n_def offs_def add_ac)
  show "read_u64 bs (1032 + n * 20 + n * 4 + n * 4 + j * 8) = Some (larges offs ! j)"
    if "j < length (larges offs)"
    using read_u64_table [of "larges offs" j "index_head es @ ?O @ ?C @ ?W"] small that lo lc lw
    by (simp add: bs larges_def add_ac)
qed

lemma index_payload_length:
  fixes es :: "entry list"
  assumes "entries_ok len es"
  shows "length (index_payload checksum es) =
    1032 + length es * 20 + length es * 4 + length es * 4 + length (larges (map (snd \<circ> snd) es)) * 8
      + length checksum"
proof -
  have "\<forall>x \<in> set (map fst es). length x = 20" using assms by (auto simp: entries_ok_def)
  then show ?thesis
    by (simp add: index_payload_def length_concat_const [where k = 20] length_concat_const [where k = 4]
        length_concat_const [where k = 8])
qed

lemma check_large_forward:
  assumes "len = ls + length slots * 8 + 40" and "len \<le> u64_max" and "sort slots = [0..<length slots]"
  shows "check_large pid len ls oids slots = Ok ()"
proof -
  have "\<not> list_ex (\<lambda>(expected, observed). observed \<noteq> expected) (enumerate 0 (sort slots))"
    by (auto simp: assms(3) list_ex_iff in_set_enumerate_eq)
  then show ?thesis using assms by (simp add: check_large_def checked_mul_def checked_add_def trailer_bytes_def)
qed

text \<open>The stages on a whole encoded file.\<close>

lemma encoded_fanout:
  fixes es :: "entry list"
  assumes "length es < 2 ^ 32"
  shows "read_fanout (index_payload checksum es @ d) pid [0..<256] 0 =
      Ok (map (fanout_of (map fst es)) [0..<256])"
    and "check_fanout pid (map (fanout_of (map fst es)) [0..<256])
      (foldl bump (replicate 256 0) (map fst es)) [0..<256] 0 = Ok ()"
proof -
  obtain s where s: "index_payload checksum es @ d = index_head es @ s" by (auto simp: index_payload_def)
  have "sorted_wrt (\<lambda>x y. fanout_of (map fst es) x \<le> fanout_of (map fst es) y) [0..<256]"
    by (rule sorted_wrt_mono_rel [OF _ sorted_wrt_upt]) (auto intro: fanout_of_mono)
  then show "read_fanout (index_payload checksum es @ d) pid [0..<256] 0 =
      Ok (map (fanout_of (map fst es)) [0..<256])"
    unfolding s using head_reads(3) [OF assms]
    by (intro read_fanout_forward) (auto simp: index_header_bytes_def sorted_wrt_map)
  have "fanout_of (map fst es) b \<le> u32_max" for b
    using assms fanout_of_le [of "map fst es" b] by (simp add: u32_max_def)
  then show "check_fanout pid (map (fanout_of (map fst es)) [0..<256])
      (foldl bump (replicate 256 0) (map fst es)) [0..<256] 0 = Ok ()"
    using check_fanout_forward [where F = "fanout_of (map fst es)" and a = 0
        and fanout = "map (fanout_of (map fst es)) [0..<256]"
        and counts = "foldl bump (replicate 256 0) (map fst es)"] fanout_of_step [of "map fst es"]
    by (simp add: bump_counts del: upt_rec_numeral)
qed

lemma list_all2_enumerate:
  "length xs = length ys \<Longrightarrow> (\<And>i. i < length xs \<Longrightarrow> P (i, xs ! i) (ys ! i)) \<Longrightarrow>
   list_all2 P (enumerate 0 xs) ys"
  by (auto simp: list_all2_conv_all_nth nth_enumerate_eq)

lemma larges_few:
  fixes es :: "entry list"
  assumes "entries_ok len es"
  shows "length (larges (map (snd \<circ> snd) es)) \<le> length es" "length es \<le> 8000000"
  using assms length_filter_le [of _ "map (snd \<circ> snd) es"] by (auto simp: larges_def entries_ok_def)

lemma encoded_tables:
  fixes es :: "entry list" and checksum d :: bytes
  assumes ok: "entries_ok len es"
  defines "n \<equiv> length es" and "offs \<equiv> map (snd \<circ> snd) es" and "oids \<equiv> map fst es"
  defines "bs \<equiv> index_payload checksum es @ d"
  shows "read_oids bs pid 1032 [0..<n] [] counts = Ok (oids, foldl bump counts oids)"
    and "read_offset_words bs pid (1032 + n * 20 + n * 4) (enumerate 0 oids) [] [] =
      Ok (encode_words 0 offs, [0..<length (larges offs)])"
    and "read_rows bs pid (1032 + n * 20) (1032 + n * 20 + n * 4 + n * 4) (len - 20)
      (enumerate 0 (zip oids (encode_words 0 offs))) [] [] = Ok (map entry_row es)"
proof -
  let ?cs = "1032 + n * 20" and ?ls = "1032 + n * 20 + n * 4 + n * 4"
  note reads = table_reads [OF ok, of _ checksum d, folded bs_def n_def offs_def]
  note few = larges_few [OF ok, folded offs_def n_def]
  have "map (\<lambda>row. get_range (1032 + row * 20) (1032 + row * 20 + 20) bs) [0..<n] = map Some oids"
    using reads(1) by (intro nth_equalityI) (simp_all add: oids_def n_def)
  then show "read_oids bs pid 1032 [0..<n] [] counts = Ok (oids, foldl bump counts oids)"
    using read_oids_forward [of "[]" oids 1032 bs "[0..<n]" pid counts] ok
    by (simp add: oids_def entries_ok_def)
  have "list_all2 (\<lambda>(row, oid) v. read_u32 bs (1032 + n * 20 + n * 4 + row * 4) = Some v)
      (enumerate 0 oids) (encode_words 0 offs)"
    by (rule list_all2_enumerate) (use reads(3) in \<open>simp_all add: oids_def offs_def n_def\<close>)
  from read_offset_words_forward [OF this] few
  show "read_offset_words bs pid (1032 + n * 20 + n * 4) (enumerate 0 oids) [] [] =
      Ok (encode_words 0 offs, [0..<length (larges offs)])" by simp
  have "list_all2 (word_denotes bs ?ls) (encode_words 0 offs) offs"
    using reads(4) few by (intro encode_words_denote) simp_all
  from list_all2_nthD [OF this]
  have den: "word_denotes bs ?ls (encode_words 0 offs ! i) (snd (snd (es ! i)))" if "i < n" for i
    using that by (simp add: offs_def n_def)
  have "\<forall>e \<in> set es. 12 \<le> snd (snd e) \<and> snd (snd e) < len - 20"
    using ok by (auto simp: entries_ok_def)
  then have range: "12 \<le> snd (snd (es ! i))" "snd (snd (es ! i)) < len - 20" if "i < n" for i
    using that by (simp_all add: n_def)
  have "list_all2 (\<lambda>(row, oid, word) (oid', crc, off). oid = oid' \<and> word_denotes bs ?ls word off \<and>
      read_u32 bs (?cs + row * 4) = Some crc \<and> 12 \<le> off \<and> off < len - 20)
      (enumerate 0 (zip oids (encode_words 0 offs))) es"
    by (rule list_all2_enumerate)
      (use den range reads(2) in \<open>simp_all add: case_prod_unfold oids_def offs_def n_def\<close>)
  from read_rows_forward [OF this, where acc = "[]" and pid = pid] ok
  show "read_rows bs pid ?cs ?ls (len - 20) (enumerate 0 (zip oids (encode_words 0 offs))) [] [] =
      Ok (map entry_row es)" by (simp add: entries_ok_def)
qed

text \<open>Reading back an encoded index.\<close>

lemma parse_encoded_index:
  fixes es :: "entry list"
  assumes ok: "entries_ok len es" and cs: "length checksum = 20" and d: "length d = 20"
    and sha: "sha (index_payload checksum es) = Some d"
  shows "parse_index_bytes sha (index_payload checksum es @ d) pid len =
    Ok \<lparr>rows = map entry_row es, pack_checksum = checksum, offsets = offset_table (map entry_row es)\<rparr>"
proof -
  define bs where "bs = index_payload checksum es @ d"
  define n k where "n = length es" and "k = length (larges (map (snd \<circ> snd) es))"
  let ?cs = "1032 + n * 20" and ?os = "1032 + n * 20 + n * 4" and ?ls = "1032 + n * 20 + n * 4 + n * 4"
  note few = larges_few [OF ok, folded n_def k_def]
  note tables = encoded_tables [OF ok, of checksum d, folded bs_def n_def]
  have len: "length bs = ?ls + k * 8 + 40"
    using index_payload_length [OF ok, of checksum] cs d by (simp add: bs_def n_def k_def)
  obtain p s where p: "bs = p @ checksum @ d" and s: "bs = index_head es @ s"
    by (auto simp: bs_def index_payload_def)
  have small: "length es < 2 ^ 32" using few by (simp add: n_def)
  have L: "index_layout pid (length bs) n = Ok (?cs, ?os, ?ls)"
    using len few by (simp add: index_layout_def index_constants checked_mul_def checked_add_def u64_max_def)
  have G: "check_large pid (length bs) ?ls (map fst es) [0..<k] = Ok ()"
    using len few by (intro check_large_forward) (simp_all add: u64_max_def sort_upt)
  have "take (length bs - 20) bs = index_payload checksum es" "drop (length bs - 20) bs = d"
    using d by (simp_all add: bs_def)
  moreover have "take (length bs - 20 - (length bs - 40)) (drop (length bs - 40) bs) = checksum"
    using cs d by (simp add: p)
  moreover have "map (fanout_of (map fst es)) [0..<256] ! 255 = n"
    by (simp add: fanout_of_255 n_def del: upt_rec_numeral)
  moreover have "20 \<le> len" using ok by (simp add: entries_ok_def)
  ultimately show ?thesis
    unfolding bs_def [symmetric] parse_index_bytes_def
    using encoded_fanout(1) [OF small, of checksum d pid, folded bs_def]
      encoded_fanout(2) [OF small, of pid] L tables [of pid] G few len sha
      head_reads(1,2) [OF small, of s, folded s]
    by (simp add: index_constants validate_index_checksum_def offset_table_def checked_sub_def Let_def
        k_def del: upt_rec_numeral)
qed

section \<open>Properties\<close>

text \<open>
  C21. Whatever bytes the index file holds, parsing never panics; it fails only with a limit, an
  unsupported version or an index error of this pack; and an accepted index has strictly increasing
  object identifiers of forty digits, pairwise different offsets between the pack header and its
  trailer, and no more rows than permitted.
\<close>

theorem parse_index_sound:
  "case parse_index_bytes sha bs pack_id pack_length of
     Ok idx \<Rightarrow> index_wf pack_length idx | Err e \<Rightarrow> index_error pack_id e | Panic \<Rightarrow> False"
  using parse_index_bytes_outcome [of pack_id sha bs pack_length] parse_index_bytes_wf
  by (auto split: result.splits)

text \<open>
  C22. The two lookups of an accepted index are exact: binary search by identifier and the offset
  table each return a row if and only if it is the row of the index with that key.
\<close>

theorem parse_index_lookups:
  assumes "parse_index_bytes sha bs pack_id pack_length = Ok idx"
  shows "(find idx oid = Some row \<longleftrightarrow> row \<in> set (rows idx) \<and> row_oid row = oid) \<and>
    (row_at_offset idx off = Some row \<longleftrightarrow> row \<in> set (rows idx) \<and> row_offset row = off)"
proof -
  have wf: "\<exists>n. index_wf n idx" using parse_index_bytes_wf [OF assms] by blast
  show ?thesis using parsed.by_oid_iff [OF wf] parsed.by_offset_iff [OF wf] by blast
qed

text \<open>
  C20. Round trip: the standard encoding of a sorted table of objects, large offsets included, is
  accepted and yields exactly its rows and the pack checksum.
\<close>

theorem parse_index_roundtrip:
  assumes "entries_ok pack_length es" "length checksum = 20" "length digest = 20"
    and "sha (index_payload checksum es) = Some digest"
  shows "parse_index_bytes sha (index_payload checksum es @ digest) pack_id pack_length =
    Ok \<lparr>rows = map entry_row es, pack_checksum = checksum, offsets = offset_table (map entry_row es)\<rparr>"
  using assms by (rule parse_encoded_index)

definition sample_entries :: "entry list" where
  "sample_entries = [(replicate 20 1, 7, 4294967296), (replicate 20 2, 8, 12)]"

definition sample_sha :: "bytes \<Rightarrow> bytes option" where
  "sample_sha bs = Some (replicate 20 0)"

lemma sample_entries_ok: "entries_ok 4294967400 sample_entries"
proof -
  have "replicate 20 1 < (replicate 20 2 :: bytes)" by (simp add: numeral_eq_Suc)
  then show ?thesis by (auto simp: entries_ok_def sample_entries_def)
qed

theorem parse_index_roundtrip_witness:
  "parse_index_bytes sample_sha (index_payload (replicate 20 9) sample_entries @ replicate 20 0)
     (ObjectId ''p'') 4294967400 =
   Ok \<lparr>rows = map entry_row sample_entries, pack_checksum = replicate 20 9,
       offsets = [(12, 1), (4294967296, 0)]\<rparr>"
  using parse_index_roundtrip [OF sample_entries_ok, of "replicate 20 9" "replicate 20 0" sample_sha "ObjectId ''p''"]
  by (simp add: sample_sha_def offset_table_def bt_collect_def sample_entries_def entry_row_def)

theorem parse_index_lookups_witness:
  "\<exists>idx. parse_index_bytes sample_sha (index_payload (replicate 20 9) sample_entries @ replicate 20 0)
       (ObjectId ''p'') 4294967400 = Ok idx \<and>
     find idx (from_bytes (replicate 20 2)) = Some (entry_row (replicate 20 2, 8, 12)) \<and>
     row_at_offset idx 4294967296 = Some (entry_row (replicate 20 1, 7, 4294967296))"
proof -
  have parse: "parse_index_bytes sample_sha (index_payload (replicate 20 9) sample_entries @ replicate 20 0)
      (ObjectId ''p'') 4294967400 = Ok \<lparr>rows = map entry_row sample_entries, pack_checksum = replicate 20 9,
        offsets = offset_table (map entry_row sample_entries)\<rparr>"
    by (rule parse_encoded_index [OF sample_entries_ok]) (simp_all add: sample_sha_def)
  show ?thesis
    using parse parse_index_lookups [OF parse] by (auto simp: sample_entries_def entry_row_def)
qed

end
