(* ===== verification/Pack_File.thy ===== *)
theory Pack_File
  imports Pack_Index
begin

text \<open>
  Pack files (\<open>packed/pack.rs\<close>): opening and validating a pack against its index, the entry headers
  with their size and delta-base encodings, streaming inflation under the entry limits, and the entry
  map. The zlib decompressor, the CRC and the SHA-1 of third-party crates are fields of the record
  \<open>extern\<close>, as is the allocator's answer to \<open>try_reserve_exact\<close>.
\<close>

section \<open>External code\<close>

text \<open>
  \<open>ext_zstep z input room\<close> is one call of \<open>Decompress::decompress\<close>: the new state, the number of
  input bytes it consumed, the bytes it produced, and whether the stream ended; \<open>None\<close> is an error.
  \<open>ext_zlib\<close> is what a \<open>ZlibDecoder\<close> reads from a whole file: the bytes it yields, and whether the
  stream then ends cleanly.
\<close>

record 'z extern =
  ext_sha :: "bytes \<Rightarrow> bytes option"
  ext_crc32 :: "bytes \<Rightarrow> nat"
  ext_zinit :: 'z
  ext_zstep :: "'z \<Rightarrow> bytes \<Rightarrow> nat \<Rightarrow> ('z \<times> nat \<times> bytes \<times> bool) option"
  ext_zlib :: "bytes \<Rightarrow> bytes \<times> bool"
  ext_try_reserve :: "nat \<Rightarrow> bool"

section \<open>Data\<close>

definition pack_header_bytes :: nat where "pack_header_bytes = 12"

definition pack_trailer_bytes :: nat where "pack_trailer_bytes = 20"

definition io_buffer_bytes :: nat where "io_buffer_bytes = 32 * 1024"

lemmas pack_constants = pack_header_bytes_def pack_trailer_bytes_def io_buffer_bytes_def

datatype pack_entry_kind = Base git_object_kind | OfsDelta nat | RefDelta object_id

record pack_entry =
  pe_oid :: object_id
  pe_offset :: nat
  pe_data_offset :: nat
  pe_declared_size :: nat
  pe_kind :: pack_entry_kind

record validated_pack =
  vp_pair :: pack_pair
  vp_index :: parsed_index
  vp_entries :: "pack_entry list"
  vp_entries_by_offset :: "(nat, nat) btree"

definition pack_invalid :: "object_id \<Rightarrow> packed_pack_reason \<Rightarrow> acquisition_error" where
  "pack_invalid pack_id reason = invalid (Pack_invalid reason pack_id)"

definition index_offset_invalid :: "object_id \<Rightarrow> object_id \<Rightarrow> acquisition_error" where
  "index_offset_invalid pack_id object_oid = invalid (IndexObject_invalid IO_Offset pack_id object_oid)"

definition entry_error :: "object_id \<Rightarrow> object_id \<Rightarrow> packed_entry_reason \<Rightarrow> acquisition_error" where
  "entry_error pack_id object_oid reason = invalid (Entry_invalid reason pack_id object_oid)"

definition entry_invalid :: "pack_pair \<Rightarrow> index_row \<Rightarrow> packed_entry_reason \<Rightarrow> acquisition_error" where
  "entry_invalid pair row reason = entry_error (pair_id pair) (row_oid row) reason"

definition delta_base_invalid :: "pack_pair \<Rightarrow> index_row \<Rightarrow> acquisition_error" where
  "delta_base_invalid pair row = invalid (Delta_invalid DR_Base (pair_id pair) (row_oid row))"

section \<open>Lookups\<close>

definition entry_at_offset :: "validated_pack \<Rightarrow> nat \<Rightarrow> pack_entry option" where
  "entry_at_offset p offset =
     map_option (\<lambda>entry. vp_entries p ! entry) (bt_get (vp_entries_by_offset p) offset)"

definition entry_for_oid :: "validated_pack \<Rightarrow> object_id \<Rightarrow> pack_entry option" where
  "entry_for_oid p oid =
     (case find (vp_index p) oid of None \<Rightarrow> None | Some row \<Rightarrow> entry_at_offset p (row_offset row))"

text \<open>The row whose offset is closest, the first of several.\<close>

definition abs_diff :: "nat \<Rightarrow> nat \<Rightarrow> nat" where
  "abs_diff a b = (if a < b then b - a else a - b)"

definition first_offset_mismatch :: "parsed_index \<Rightarrow> nat \<Rightarrow> index_row option" where
  "first_offset_mismatch idx offset =
     (if rows idx = [] then None else Some (arg_min_list (\<lambda>row. abs_diff (row_offset row) offset) (rows idx)))"

fun oid_bytes_loop :: "string \<Rightarrow> bytes option" where
  "oid_bytes_loop (h # l # rest) =
     (case (decode_hex h, decode_hex l) of
        (Some high, Some low) \<Rightarrow> map_option ((#) (word_of_nat (high * 16 + low))) (oid_bytes_loop rest)
      | _ \<Rightarrow> None)"
| "oid_bytes_loop _ = Some []"

definition oid_bytes :: "object_id \<Rightarrow> bytes option" where
  "oid_bytes oid = oid_bytes_loop (as_str oid)"

section \<open>Reading\<close>

definition read_byte ::
  "world \<Rightarrow> pack_pair \<Rightarrow> nat \<Rightarrow> nat \<Rightarrow> index_row \<Rightarrow> (byte \<times> nat, acquisition_error) result"
where
  "read_byte w pair cursor trailer_offset row =
     (if cursor \<ge> trailer_offset then Err (entry_invalid pair row ER_Header)
      else and_then (read_exact_at w (pair_pack pair) cursor 1 PC_Entry) (\<lambda>bs. Ok (bs ! 0, cursor + 1)))"

lemma read_byte_Ok:
  "read_byte w pair c t row = Ok (b, c') \<Longrightarrow> c' = c + 1 \<and> c < t"
  by (auto simp: read_byte_def result_iffs split: if_splits)

text \<open>The size digits after the first byte: seven bits each, from bit four.\<close>

function entry_size_loop ::
  "world \<Rightarrow> pack_pair \<Rightarrow> index_row \<Rightarrow> nat \<Rightarrow> bool \<Rightarrow> nat \<Rightarrow> 64 word \<Rightarrow> nat \<Rightarrow>
   (64 word \<times> nat, acquisition_error) result"
where
  "entry_size_loop w pair row trailer_offset again cursor declared shift =
     (if again then
        and_then (read_byte w pair cursor trailer_offset row)
          (\<lambda>r. let byte = fst r; cursor' = snd r in
               if shift \<ge> 64 then Err (entry_invalid pair row ER_Header)
               else entry_size_loop w pair row trailer_offset (byte AND 128 \<noteq> 0) cursor'
                      (declared OR push_bit shift (ucast (byte AND 127))) (shift + 7))
      else Ok (declared, cursor))"
  by pat_completeness auto
termination
  by (relation "measure (\<lambda>(w, pair, row, t, again, cursor, declared, shift). t - cursor)")
    (auto dest: read_byte_Ok)

declare entry_size_loop.simps [simp del]

text \<open>
  The base distance of an offset delta. \<open>u64::checked_add\<close> refuses on overflow; \<open>u64::checked_shl\<close>
  refuses only a shift of 64 or more, so a shift by seven drops the high bits.
\<close>

definition checked_add64 :: "64 word \<Rightarrow> 64 word \<Rightarrow> 64 word option" where
  "checked_add64 a b = (if unat a + unat b < 2 ^ 64 then Some (a + b) else None)"

definition checked_shl64 :: "64 word \<Rightarrow> nat \<Rightarrow> 64 word option" where
  "checked_shl64 a n = (if n < 64 then Some (push_bit n a) else None)"

function ofs_distance_loop ::
  "world \<Rightarrow> pack_pair \<Rightarrow> index_row \<Rightarrow> nat \<Rightarrow> byte \<Rightarrow> nat \<Rightarrow> 64 word \<Rightarrow>
   (64 word \<times> nat, acquisition_error) result"
where
  "ofs_distance_loop w pair row trailer_offset byte cursor distance =
     (if byte AND 128 \<noteq> 0 then
        and_then (read_byte w pair cursor trailer_offset row)
          (\<lambda>r. and_then
             (ok_or (delta_base_invalid pair row)
                (Option.bind (checked_add64 distance 1)
                   (\<lambda>v. Option.bind (checked_shl64 v 7)
                      (\<lambda>v. checked_add64 v (ucast (fst r AND 127))))))
             (\<lambda>distance'. ofs_distance_loop w pair row trailer_offset (fst r) (snd r) distance'))
      else Ok (distance, cursor))"
  by pat_completeness auto
termination
  by (relation "measure (\<lambda>(w, pair, row, t, byte, cursor, distance). t - cursor)")
    (auto dest: read_byte_Ok)

declare ofs_distance_loop.simps [simp del]

definition parse_ofs_base ::
  "world \<Rightarrow> pack_pair \<Rightarrow> index_row \<Rightarrow> nat \<Rightarrow> nat \<Rightarrow> nat \<Rightarrow> (nat \<times> nat, acquisition_error) result"
where
  "parse_ofs_base w pair row entry_offset cursor trailer_offset =
     and_then (read_byte w pair cursor trailer_offset row) (\<lambda>(first, cursor1).
     and_then (ofs_distance_loop w pair row trailer_offset first cursor1 (ucast (first AND 127)))
       (\<lambda>(distance, cursor2).
     and_then (fail_if (distance = 0) (delta_base_invalid pair row)) (\<lambda>_.
     and_then (ok_or (delta_base_invalid pair row) (checked_sub entry_offset (unat distance)))
       (\<lambda>base_offset.
     if base_offset < pack_header_bytes \<or> base_offset \<ge> entry_offset
     then Err (delta_base_invalid pair row) else Ok (base_offset, cursor2)))))"

record parsed_entry_header =
  eh_data_offset :: nat
  eh_declared_size :: nat
  eh_kind :: pack_entry_kind

definition is_delta_kind :: "pack_entry_kind \<Rightarrow> bool" where
  "is_delta_kind k = (case k of Base _ \<Rightarrow> False | _ \<Rightarrow> True)"

definition entry_size_limit :: "pack_entry_kind \<Rightarrow> limit_kind" where
  "entry_size_limit kind = (if is_delta_kind kind then DeltaProgramBytes else InflatedEntryBytes)"

definition parse_entry_kind ::
  "world \<Rightarrow> pack_pair \<Rightarrow> index_row \<Rightarrow> nat \<Rightarrow> nat \<Rightarrow> byte \<Rightarrow> nat \<Rightarrow>
   (pack_entry_kind \<times> nat, acquisition_error) result"
where
  "parse_entry_kind w pair row entry_offset trailer_offset kind_code cursor =
     (if kind_code = 1 then Ok (Base Commit, cursor)
      else if kind_code = 2 then Ok (Base Tree, cursor)
      else if kind_code = 3 then Ok (Base Blob, cursor)
      else if kind_code = 4 then Ok (Base Tag, cursor)
      else if kind_code = 6 then
        and_then (parse_ofs_base w pair row entry_offset cursor trailer_offset)
          (\<lambda>(base_offset, cursor'). Ok (OfsDelta base_offset, cursor'))
      else if kind_code = 7 then
        (if (case checked_add cursor 20 of None \<Rightarrow> True | Some e \<Rightarrow> e > trailer_offset)
         then Err (entry_invalid pair row ER_Header)
         else and_then (read_exact_at w (pair_pack pair) cursor 20 PC_Entry)
                (\<lambda>bs. Ok (RefDelta (from_bytes bs), cursor + 20)))
      else Err (entry_invalid pair row ER_Header))"

definition parse_entry_header ::
  "world \<Rightarrow> pack_pair \<Rightarrow> index_row \<Rightarrow> nat \<Rightarrow> nat \<Rightarrow> (parsed_entry_header, acquisition_error) result"
where
  "parse_entry_header w pair row entry_offset trailer_offset =
     and_then (read_byte w pair entry_offset trailer_offset row) (\<lambda>(first, cursor).
     let kind_code = drop_bit 4 first AND 7 in
     and_then (entry_size_loop w pair row trailer_offset (first AND 128 \<noteq> 0) cursor
                 (ucast (first AND 15)) 4) (\<lambda>(declared, cursor).
     let declared_size = unat declared in
     and_then (parse_entry_kind w pair row entry_offset trailer_offset kind_code cursor) (\<lambda>(kind, cursor).
     if declared_size > limit_maximum (entry_size_limit kind)
     then Err (limit_exceeded (entry_size_limit kind) declared_size)
     else Ok \<lparr>eh_data_offset = cursor, eh_declared_size = declared_size, eh_kind = kind\<rparr>)))"

section \<open>Hashing\<close>

text \<open>
  The buffered reads of \<open>hash_prefix\<close> and \<open>crc32_range\<close>: the bytes fed to the hasher, in blocks of
  the I/O buffer.
\<close>

function read_blocks ::
  "world \<Rightarrow> pack_pair \<Rightarrow> packed_component \<Rightarrow> nat \<Rightarrow> nat \<Rightarrow> bytes \<Rightarrow> (bytes, acquisition_error) result"
where
  "read_blocks w pair component offset end' fed =
     (if offset < end' then
        let count = min (end' - offset) io_buffer_bytes in
        and_then (read_exact_at w (pair_pack pair) offset count component)
          (\<lambda>buffer. read_blocks w pair component (offset + count) end' (fed @ buffer))
      else Ok fed)"
  by pat_completeness auto
termination
  by (relation "measure (\<lambda>(w, pair, component, offset, end', fed). end' - offset)")
    (auto simp: io_buffer_bytes_def)

declare read_blocks.simps [simp del]

definition finish_pack_hash :: "'z extern \<Rightarrow> bytes \<Rightarrow> object_id \<Rightarrow> (bytes, acquisition_error) result" where
  "finish_pack_hash x fed pack_id = ok_or (pack_invalid pack_id PR_Sha1Collision) (ext_sha x fed)"

definition hash_prefix :: "'z extern \<Rightarrow> world \<Rightarrow> pack_pair \<Rightarrow> nat \<Rightarrow> (bytes, acquisition_error) result" where
  "hash_prefix x w pair n =
     and_then (read_blocks w pair PC_Pack 0 n []) (\<lambda>fed. finish_pack_hash x fed (pair_id pair))"

definition crc32_range :: "'z extern \<Rightarrow> world \<Rightarrow> pack_pair \<Rightarrow> nat \<Rightarrow> nat \<Rightarrow> (nat, acquisition_error) result" where
  "crc32_range x w pair start end' =
     and_then (read_blocks w pair PC_Entry start end' []) (\<lambda>fed. Ok (ext_crc32 x fed))"

section \<open>Inflation\<close>

text \<open>
  One round of \<open>inflate_stream\<close>: the new decompressor state, offset, totals and retained bytes, and
  whether the stream ended.
\<close>

definition inflate_round ::
  "'z extern \<Rightarrow> world \<Rightarrow> pack_pair \<Rightarrow> object_id \<Rightarrow> object_id \<Rightarrow> nat \<Rightarrow> 'z \<Rightarrow> nat \<Rightarrow> nat \<Rightarrow> nat \<Rightarrow> bytes option \<Rightarrow>
   ('z \<times> nat \<times> nat \<times> nat \<times> bytes option \<times> bool, acquisition_error) result"
where
  "inflate_round x w pair pack_id object_oid trailer_offset z input_offset compressed inflated retained =
     (let e = entry_error pack_id object_oid ER_ZlibStream in
      and_then (fail_if (input_offset \<ge> trailer_offset) e) (\<lambda>_.
      let input_length = min (trailer_offset - input_offset) io_buffer_bytes in
      and_then (read_exact_at w (pair_pack pair) input_offset input_length PC_Entry) (\<lambda>input.
      and_then (ok_or e (ext_zstep x z input io_buffer_bytes)) (\<lambda>(z', consumed, output, stream_end).
      let produced = length output in
      and_then (fail_if (consumed = 0 \<and> produced = 0) e) (\<lambda>_.
      and_then (ok_or (limit_exceeded CompressedEntryBytes u64_max) (checked_add compressed consumed))
        (\<lambda>compressed'.
      and_then (fail_if (compressed' > limit_maximum CompressedEntryBytes)
                  (limit_exceeded CompressedEntryBytes compressed')) (\<lambda>_.
      and_then (ok_or (limit_exceeded InflatedEntryBytes u64_max) (checked_add inflated produced))
        (\<lambda>inflated'.
      and_then (fail_if (inflated' > limit_maximum InflatedEntryBytes)
                  (limit_exceeded InflatedEntryBytes inflated')) (\<lambda>_.
      and_then (ok_or e (checked_add input_offset consumed)) (\<lambda>input_offset'.
      Ok (z', input_offset', compressed', inflated', map_option (\<lambda>bs. bs @ output) retained, stream_end)))))))))))"

lemma inflate_round_Ok:
  assumes "inflate_round x w pair pid oid t z off c i kept = Ok (z', off', c', i', kept', fin)"
  shows "off < t" "off \<le> off'" "c + (off' - off) = c'" "c + i < c' + i'"
    "c' \<le> limit_maximum CompressedEntryBytes" "i' \<le> limit_maximum InflatedEntryBytes"
    "\<exists>output. i' = i + length output \<and> kept' = map_option (\<lambda>bs. bs @ output) kept"
  using assms by (auto simp: inflate_round_def result_iffs Let_def not_less split: prod.splits)

lemma inflate_round_progress:
  "inflate_round x w pair pid oid t z off c i kept = Ok (z', off', c', i', kept', fin) \<Longrightarrow>
   limit_maximum CompressedEntryBytes + limit_maximum InflatedEntryBytes - (c' + i') <
   limit_maximum CompressedEntryBytes + limit_maximum InflatedEntryBytes - (c + i)"
  using inflate_round_Ok(4-6) [of x w pair pid oid t z off c i kept z' off' c' i' kept' fin] by linarith

text \<open>
  The loop ends: every round consumes or produces, and both totals are capped.
\<close>

function inflate_loop ::
  "'z extern \<Rightarrow> world \<Rightarrow> pack_pair \<Rightarrow> object_id \<Rightarrow> object_id \<Rightarrow> nat \<Rightarrow> 'z \<Rightarrow> nat \<Rightarrow> nat \<Rightarrow> nat \<Rightarrow> bytes option \<Rightarrow>
   (nat \<times> nat \<times> bytes option, acquisition_error) result"
where
  "inflate_loop x w pair pack_id object_oid trailer_offset z input_offset compressed inflated retained =
     and_then (inflate_round x w pair pack_id object_oid trailer_offset z input_offset compressed inflated
                 retained)
       (\<lambda>(z', input_offset', compressed', inflated', retained', stream_end).
          if stream_end then Ok (input_offset', inflated', retained')
          else inflate_loop x w pair pack_id object_oid trailer_offset z' input_offset' compressed' inflated'
                 retained')"
  by pat_completeness auto
termination
  by (relation "measure (\<lambda>(x, w, pair, pid, oid, t, z, off, c, i, kept).
      limit_maximum CompressedEntryBytes + limit_maximum InflatedEntryBytes - (c + i))")
    (simp, auto simp del: limit_maximum.simps dest: inflate_round_progress)

declare inflate_loop.simps [simp del]

definition inflate_stream ::
  "'z extern \<Rightarrow> world \<Rightarrow> pack_pair \<Rightarrow> nat \<Rightarrow> nat \<Rightarrow> nat \<Rightarrow> bytes option \<Rightarrow> pack_budgets \<Rightarrow> object_id \<Rightarrow> object_id \<Rightarrow>
   (nat \<times> bytes option \<times> pack_budgets, acquisition_error) result"
where
  "inflate_stream x w pair data_offset trailer_offset declared retained budgets pack_id object_oid =
     and_then (charge_inflate budgets declared) (\<lambda>budgets'.
     and_then (inflate_loop x w pair pack_id object_oid trailer_offset (ext_zinit x) data_offset 0 0 retained)
       (\<lambda>(input_offset, inflated, retained').
     and_then (fail_if (inflated \<noteq> declared) (entry_error pack_id object_oid ER_ZlibStream)) (\<lambda>_.
     Ok (input_offset, retained', budgets'))))"

definition inflate_entry ::
  "'z extern \<Rightarrow> world \<Rightarrow> validated_pack \<Rightarrow> pack_entry \<Rightarrow> pack_budgets \<Rightarrow>
   (bytes \<times> pack_budgets, acquisition_error) result"
where
  "inflate_entry x w p entry budgets =
     (let declared = pe_declared_size entry; limit = entry_size_limit (pe_kind entry) in
      and_then (fail_if (declared > limit_maximum limit) (limit_exceeded limit declared)) (\<lambda>_.
      and_then (fail_if (\<not> ext_try_reserve x declared) (unavailable PC_Entry)) (\<lambda>_.
      let trailer_offset = tracked_len (pair_pack (vp_pair p)) - pack_trailer_bytes in
      and_then (inflate_stream x w (vp_pair p) (pe_data_offset entry) trailer_offset declared (Some [])
                  budgets (pair_id (vp_pair p)) (pe_oid entry)) (\<lambda>(_, retained, budgets').
      Ok (case retained of None \<Rightarrow> [] | Some bs \<Rightarrow> bs, budgets')))))"

section \<open>The entry map\<close>

text \<open>One object of the pack: header, stream and checksum of the row at the current offset.\<close>

definition build_entry ::
  "'z extern \<Rightarrow> world \<Rightarrow> pack_pair \<Rightarrow> parsed_index \<Rightarrow> nat \<Rightarrow> nat \<Rightarrow> pack_budgets \<Rightarrow>
   (pack_entry \<times> nat \<times> pack_budgets, acquisition_error) result"
where
  "build_entry x w pair idx trailer_offset offset budgets =
     and_then
       (case row_at_offset idx offset of
          Some row \<Rightarrow> Ok row
        | None \<Rightarrow> and_then (expect (first_offset_mismatch idx offset))
                    (\<lambda>row. Err (index_offset_invalid (pair_id pair) (row_oid row)))) (\<lambda>row.
     and_then (parse_entry_header w pair row offset trailer_offset) (\<lambda>parsed.
     and_then (inflate_stream x w pair (eh_data_offset parsed) trailer_offset (eh_declared_size parsed) None
                 budgets (pair_id pair) (row_oid row)) (\<lambda>(end', _, budgets').
     and_then (ok_or (entry_invalid pair row ER_ZlibStream) (checked_sub end' (eh_data_offset parsed)))
       (\<lambda>compressed.
     and_then (fail_if (compressed > limit_maximum CompressedEntryBytes)
                 (limit_exceeded CompressedEntryBytes compressed)) (\<lambda>_.
     and_then (crc32_range x w pair offset end') (\<lambda>crc.
     and_then (fail_if (crc \<noteq> row_crc32 row) (entry_invalid pair row ER_Crc)) (\<lambda>_.
     Ok (\<lparr>pe_oid = row_oid row, pe_offset = offset, pe_data_offset = eh_data_offset parsed,
          pe_declared_size = eh_declared_size parsed, pe_kind = eh_kind parsed\<rparr>, end', budgets'))))))))"

fun build_entries ::
  "'z extern \<Rightarrow> world \<Rightarrow> pack_pair \<Rightarrow> parsed_index \<Rightarrow> nat \<Rightarrow> nat \<Rightarrow> nat \<Rightarrow> pack_entry list \<Rightarrow> pack_budgets \<Rightarrow>
   (pack_entry list \<times> nat \<times> pack_budgets, acquisition_error) result"
where
  "build_entries x w pair idx trailer_offset 0 offset entries budgets = Ok (entries, offset, budgets)"
| "build_entries x w pair idx trailer_offset (Suc n) offset entries budgets =
     and_then (build_entry x w pair idx trailer_offset offset budgets)
       (\<lambda>(entry, end', budgets').
          build_entries x w pair idx trailer_offset n end' (entries @ [entry]) budgets')"

definition build_entry_map ::
  "'z extern \<Rightarrow> world \<Rightarrow> pack_pair \<Rightarrow> parsed_index \<Rightarrow> nat \<Rightarrow> nat \<Rightarrow> pack_budgets \<Rightarrow>
   (pack_entry list \<times> pack_budgets, acquisition_error) result"
where
  "build_entry_map x w pair idx object_count trailer_offset budgets =
     and_then (build_entries x w pair idx trailer_offset object_count pack_header_bytes [] budgets)
       (\<lambda>(entries, offset, budgets').
          and_then (fail_if (offset \<noteq> trailer_offset \<or> length entries \<noteq> length (rows idx))
                      (pack_invalid (pair_id pair) PR_ObjectCount)) (\<lambda>_.
          if list_ex (\<lambda>row. list_all (\<lambda>entry. pe_offset entry \<noteq> row_offset row) entries) (rows idx)
          then and_then (expect (first_offset_mismatch idx offset))
                 (\<lambda>row. Err (index_offset_invalid (pair_id pair) (row_oid row)))
          else Ok (entries, budgets')))"

definition entry_table :: "pack_entry list \<Rightarrow> (nat, nat) btree" where
  "entry_table entries = bt_collect (map (\<lambda>(entry, value). (pe_offset value, entry)) (enumerate 0 entries))"

definition pack_open ::
  "'z extern \<Rightarrow> world \<Rightarrow> pack_pair \<Rightarrow> parsed_index \<Rightarrow> pack_budgets \<Rightarrow>
   (validated_pack \<times> pack_budgets, acquisition_error) result"
where
  "pack_open x w pair idx budgets =
     (let pack_id = pair_id pair; pack_length = tracked_len (pair_pack pair) in
      and_then (fail_if (pack_length < pack_header_bytes + pack_trailer_bytes)
                  (pack_invalid pack_id PR_Header)) (\<lambda>_.
      and_then (read_exact_at w (pair_pack pair) 0 12 PC_Pack) (\<lambda>header.
      and_then (fail_if (take 4 header \<noteq> [0x50, 0x41, 0x43, 0x4B]) (pack_invalid pack_id PR_Header)) (\<lambda>_.
      and_then (fail_if (from_be_bytes (take 4 (drop 4 header)) \<noteq> 2)
                  (UnsupportedRepositoryShape PackVersionUnsupported)) (\<lambda>_.
      let declared_count = from_be_bytes (take 4 (drop 8 header)) in
      and_then (fail_if (declared_count \<noteq> length (rows idx)) (pack_invalid pack_id PR_ObjectCount)) (\<lambda>_.
      let trailer_offset = pack_length - pack_trailer_bytes in
      and_then (read_exact_at w (pair_pack pair) trailer_offset 20 PC_Pack) (\<lambda>trailer.
      and_then (hash_prefix x w pair trailer_offset) (\<lambda>calculated.
      and_then (fail_if (calculated \<noteq> trailer) (pack_invalid pack_id PR_Checksum)) (\<lambda>_.
      and_then (fail_if (oid_bytes pack_id \<noteq> Some trailer) (pack_invalid pack_id PR_Checksum)) (\<lambda>_.
      and_then (fail_if (pack_checksum idx \<noteq> trailer) (pack_invalid pack_id PR_IndexMismatch)) (\<lambda>_.
      and_then (build_entry_map x w pair idx declared_count trailer_offset budgets) (\<lambda>(entries, budgets').
      Ok (\<lparr>vp_pair = pair, vp_index = idx, vp_entries = entries,
           vp_entries_by_offset = entry_table entries\<rparr>, budgets')))))))))))))"

section \<open>Headers: lemmas\<close>

definition pack_error :: "object_id \<Rightarrow> acquisition_error \<Rightarrow> bool" where
  "pack_error pack_id e \<longleftrightarrow>
     is_limit e \<or> e = UnsupportedRepositoryShape PackVersionUnsupported \<or>
     (\<exists>r. e = pack_invalid pack_id r) \<or> (\<exists>oid r. e = entry_error pack_id oid r) \<or>
     (\<exists>oid. e = index_offset_invalid pack_id oid) \<or>
     (\<exists>oid. e = invalid (Delta_invalid DR_Base pack_id oid)) \<or>
     (\<exists>c \<in> {PC_Pack, PC_Entry}. e = unavailable c \<or> e = changed c)"

lemma pack_errorI [simp, intro]:
  "is_limit e \<Longrightarrow> pack_error p e" "pack_error p (UnsupportedRepositoryShape PackVersionUnsupported)"
  "pack_error p (pack_invalid p r)" "pack_error p (entry_error p oid r')"
  "pack_error p (index_offset_invalid p oid)" "pack_error p (invalid (Delta_invalid DR_Base p oid))"
  "pack_error p (unavailable PC_Entry)" "pack_error p (unavailable PC_Pack)"
  "pack_error p (changed PC_Entry)" "pack_error p (changed PC_Pack)"
  by (auto simp: pack_error_def)

lemma read_exact_at_outcome:
  "c \<in> {PC_Pack, PC_Entry} \<Longrightarrow> fails_only (pack_error p) (read_exact_at w f off n c)"
  by (rule fails_onlyI) (auto dest: read_exact_at_Err)

lemma read_byte_outcome: "fails_only (pack_error (pair_id pair)) (read_byte w pair c t row)"
  unfolding read_byte_def
  by (intro outcome_intros read_exact_at_outcome) (auto simp: entry_invalid_def)

lemma entry_size_loop_outcome:
  "fails_only (pack_error (pair_id pair)) (entry_size_loop w pair row t again c d s)"
proof (induction w pair row t again c d s rule: entry_size_loop.induct)
  case (1 w pair row t again c d s)
  show ?case
    by (subst entry_size_loop.simps, intro outcome_intros read_byte_outcome)
      (auto simp: entry_invalid_def Let_def simp del: and_high_eq_0 intro: "1.IH" [OF _ _ refl refl, simplified])
qed

lemma ofs_distance_loop_outcome:
  "fails_only (pack_error (pair_id pair)) (ofs_distance_loop w pair row t b c d)"
proof (induction w pair row t b c d rule: ofs_distance_loop.induct)
  case (1 w pair row t b c d)
  show ?case
    by (subst ofs_distance_loop.simps, intro outcome_intros read_byte_outcome)
      (auto simp: delta_base_invalid_def fails_only_ok_or intro: "1.IH")
qed

lemma parse_ofs_base_outcome: "fails_only (pack_error (pair_id pair)) (parse_ofs_base w pair row off c t)"
  unfolding parse_ofs_base_def
  by (intro outcome_intros read_byte_outcome ofs_distance_loop_outcome)
    (auto simp: delta_base_invalid_def fails_only_ok_or fails_only_fail_if)

lemma parse_entry_kind_outcome:
  "fails_only (pack_error (pair_id pair)) (parse_entry_kind w pair row off t k c)"
  unfolding parse_entry_kind_def
  by (intro outcome_intros parse_ofs_base_outcome read_exact_at_outcome)
    (auto simp: entry_invalid_def)

lemma parse_entry_header_outcome:
  "fails_only (pack_error (pair_id pair)) (parse_entry_header w pair row off t)"
  unfolding parse_entry_header_def Let_def
  by (intro outcome_intros read_byte_outcome entry_size_loop_outcome parse_entry_kind_outcome) auto

lemma entry_size_loop_cursor: "entry_size_loop w pair row t again c d s = Ok (v, c') \<Longrightarrow> c \<le> c'"
proof (induction w pair row t again c d s rule: entry_size_loop.induct)
  case (1 w pair row t again c d s)
  show ?case
  proof (cases again)
    case True
    with "1.prems" [unfolded entry_size_loop.simps [of w pair row t again c d s]]
    obtain b c1 where b: "read_byte w pair c t row = Ok (b, c1)" and s: "s < 64"
      and l: "entry_size_loop w pair row t (b AND 128 \<noteq> 0) c1 (d OR push_bit s (ucast (b AND 127))) (s + 7) = Ok (v, c')"
      by (auto simp: result_iffs Let_def simp del: and_high_eq_0 split: if_splits)
    show ?thesis
      using "1.IH" [OF True b refl refl, simplified fst_conv snd_conv, OF _ l] s read_byte_Ok [OF b] by simp
  next
    case False
    with "1.prems" show ?thesis by (subst (asm) entry_size_loop.simps) simp
  qed
qed

lemma ofs_distance_loop_cursor: "ofs_distance_loop w pair row t b c d = Ok (v, c') \<Longrightarrow> c \<le> c'"
proof (induction w pair row t b c d rule: ofs_distance_loop.induct)
  case (1 w pair row t b c d)
  show ?case
  proof (cases "b AND 128 \<noteq> 0")
    case True
    with "1.prems" [unfolded ofs_distance_loop.simps [of w pair row t b c d]]
    obtain b' c1 d' where b: "read_byte w pair c t row = Ok (b', c1)"
      and d: "ok_or (delta_base_invalid pair row) (Option.bind (checked_add64 d 1)
          (\<lambda>v. Option.bind (checked_shl64 v 7) (\<lambda>v. checked_add64 v (ucast (b' AND 127))))) = Ok d'"
      and l: "ofs_distance_loop w pair row t b' c1 d' = Ok (v, c')"
      by (auto simp: result_iffs simp del: and_high_eq_0 split: if_splits)
    show ?thesis
      using "1.IH" [OF True b, simplified fst_conv snd_conv, OF d l] read_byte_Ok [OF b] by simp
  next
    case False
    with "1.prems" show ?thesis by (subst (asm) ofs_distance_loop.simps) simp
  qed
qed

lemma parse_ofs_base_Ok:
  "parse_ofs_base w pair row off c t = Ok (b, c') \<Longrightarrow> 12 \<le> b \<and> b < off \<and> c < c'"
  by (fastforce simp: parse_ofs_base_def result_iffs pack_constants split: if_splits prod.splits
      dest: read_byte_Ok ofs_distance_loop_cursor)

definition kind_ok :: "nat \<Rightarrow> pack_entry_kind \<Rightarrow> bool" where
  "kind_ok offset kind \<longleftrightarrow> (\<forall>b. kind = OfsDelta b \<longrightarrow> 12 \<le> b \<and> b < offset)"

lemma parse_entry_kind_Ok:
  "parse_entry_kind w pair row off t k c = Ok (kind, c') \<Longrightarrow> kind_ok off kind \<and> c \<le> c'"
  by (auto simp: parse_entry_kind_def kind_ok_def result_iffs split: if_splits prod.splits option.splits
      dest: parse_ofs_base_Ok)

lemma parse_entry_header_Ok:
  assumes "parse_entry_header w pair row off t = Ok h"
  shows "off < eh_data_offset h \<and> kind_ok off (eh_kind h) \<and>
    eh_declared_size h \<le> limit_maximum (entry_size_limit (eh_kind h))"
proof -
  from assms obtain b c d c1 k c2 where "read_byte w pair off t row = Ok (b, c)"
    and "entry_size_loop w pair row t (b AND 128 \<noteq> 0) c (ucast (b AND 15)) 4 = Ok (d, c1)"
    and "parse_entry_kind w pair row off t (drop_bit 4 b AND 7) c1 = Ok (k, c2)"
    and "h = \<lparr>eh_data_offset = c2, eh_declared_size = unat d, eh_kind = k\<rparr>"
    and "unat d \<le> limit_maximum (entry_size_limit k)"
    by (auto simp: parse_entry_header_def result_iffs Let_def not_less split: if_splits prod.splits)
  then show ?thesis
    by (auto dest!: read_byte_Ok entry_size_loop_cursor parse_entry_kind_Ok)
qed

section \<open>Hashing: lemmas\<close>

text \<open>Reading in blocks is reading the range.\<close>

lemma read_blocks_eq:
  "offset \<le> end' \<Longrightarrow> read_blocks w pair cmp offset end' fed = Ok r \<longleftrightarrow>
   offset = end' \<and> r = fed \<or>
   (\<exists>c. handle_content w (tf_path (pair_pack pair)) = Some c \<and> offset < end' \<and> end' \<le> length c \<and>
      r = fed @ take (end' - offset) (drop offset c))"
proof (induction w pair cmp offset end' fed rule: read_blocks.induct)
  case (1 w pair cmp offset end' fed)
  show ?case
  proof (cases "offset < end'")
    case False
    with "1.prems" show ?thesis by (subst read_blocks.simps) auto
  next
    case True
    define n where "n = min (end' - offset) io_buffer_bytes"
    have n: "0 < n" "offset + n \<le> end'" using True by (auto simp: io_buffer_bytes_def n_def)
    have step: "read_blocks w pair cmp offset end' fed = Ok r \<longleftrightarrow>
        (\<exists>buf. read_exact_at w (pair_pack pair) offset n cmp = Ok buf \<and>
           read_blocks w pair cmp (offset + n) end' (fed @ buf) = Ok r)"
      using True by (subst read_blocks.simps) (auto simp: result_iffs Let_def n_def)
    also have "\<dots> \<longleftrightarrow> (\<exists>c. handle_content w (tf_path (pair_pack pair)) = Some c \<and> end' \<le> length c \<and>
        r = fed @ take (end' - offset) (drop offset c))"
    proof -
      obtain k where k: "end' - offset = n + k" using n(2) True by (metis le_add_diff_inverse add_diff_cancel_left' diff_add_assoc diff_diff_left less_imp_le nat_add_left_cancel_le)
      then have k': "end' - (offset + n) = k" by linarith
      have split: "take (end' - offset) (drop offset c) = take n (drop offset c) @ take k (drop (offset + n) c)"
        for c :: bytes
        unfolding k take_add by (simp add: add.commute [of offset])
      have ih: "read_blocks w pair cmp (offset + n) end' (fed @ buf) = Ok r \<longleftrightarrow>
          offset + n = end' \<and> r = fed @ buf \<or>
          (\<exists>c. handle_content w (tf_path (pair_pack pair)) = Some c \<and> offset + n < end' \<and> end' \<le> length c \<and>
             r = (fed @ buf) @ take k (drop (offset + n) c))"
        if "read_exact_at w (pair_pack pair) offset n cmp = Ok buf" for buf
        using "1.IH" [OF True refl, folded n_def, OF that n(2)] unfolding k' .
      show ?thesis
      proof (cases "handle_content w (tf_path (pair_pack pair))")
        case None
        then show ?thesis by (simp add: read_exact_at_Ok)
      next
        case (Some c)
        show ?thesis
        proof (cases "offset + n \<le> length c")
          case True
          then have rd: "read_exact_at w (pair_pack pair) offset n cmp = Ok (take n (drop offset c))"
            using Some by (simp add: read_exact_at_Ok)
          show ?thesis using ih [OF rd] rd Some k k' True n(2) by (auto simp: split)
        next
          case False
          with Some n(2) show ?thesis by (auto simp: read_exact_at_Ok)
        qed
      qed
    qed
    finally show ?thesis using True by auto
  qed
qed

lemma read_blocks_outcome:
  "cmp \<in> {PC_Pack, PC_Entry} \<Longrightarrow> fails_only (pack_error p) (read_blocks w pair cmp offset end' fed)"
proof (induction w pair cmp offset end' fed rule: read_blocks.induct)
  case (1 w pair cmp offset end' fed)
  show ?case
    by (subst read_blocks.simps, unfold Let_def, intro outcome_intros read_exact_at_outcome)
      (use 1 in auto)
qed

lemma oid_bytes_loop_hex: "oid_bytes_loop (concat (map byte_hex bs)) = Some bs"
proof (induction bs)
  case (Cons b bs)
  have "unat b div 16 < 16" by (rule less_mult_imp_div_less) simp
  moreover have "word_of_nat (unat b div 16 * 16 + unat b mod 16) = b" by simp
  ultimately show ?case using Cons by (simp add: byte_hex_def)
qed simp

lemma oid_bytes_from_bytes: "oid_bytes (from_bytes bs) = Some bs"
  by (simp add: oid_bytes_def from_bytes_def oid_bytes_loop_hex)

section \<open>Inflation: lemmas\<close>

lemma inflate_round_outcome: "fails_only (pack_error pid) (inflate_round x w pair pid oid t z off c i kept)"
  unfolding inflate_round_def Let_def
  by (intro outcome_intros read_exact_at_outcome) (auto simp: fails_only_ok_or fails_only_fail_if)

lemma inflate_loop_outcome: "fails_only (pack_error pid) (inflate_loop x w pair pid oid t z off c i kept)"
proof (induction x w pair pid oid t z off c i kept rule: inflate_loop.induct)
  case (1 x w pair pid oid t z off c i kept)
  show ?case
    by (subst inflate_loop.simps, intro outcome_intros inflate_round_outcome) (auto intro: "1.IH")
qed

lemma inflate_loop_Ok:
  "inflate_loop x w pair pid oid t z off c i kept = Ok (off', i', kept') \<Longrightarrow>
   off \<le> off' \<and> (\<exists>output. i' = i + length output \<and> kept' = map_option (\<lambda>bs. bs @ output) kept)"
proof (induction x w pair pid oid t z off c i kept rule: inflate_loop.induct)
  case (1 x w pair pid oid t z off c i kept)
  from "1.prems" [unfolded inflate_loop.simps [of x w pair pid oid t z off c i kept]]
  obtain z1 off1 c1 i1 kept1 fin where
    r: "inflate_round x w pair pid oid t z off c i kept = Ok (z1, off1, c1, i1, kept1, fin)"
    and l: "if fin then (off1, i1, kept1) = (off', i', kept')
      else inflate_loop x w pair pid oid t z1 off1 c1 i1 kept1 = Ok (off', i', kept')"
    by (auto simp: result_iffs split: if_splits)
  from inflate_round_Ok [OF r] obtain o1 where
    o1: "off \<le> off1" "i1 = i + length o1" "kept1 = map_option (\<lambda>bs. bs @ o1) kept" by auto
  show ?case
  proof (cases fin)
    case True
    with l o1 show ?thesis by auto
  next
    case False
    with "1.IH" [OF r refl refl refl refl refl] l obtain o2 where
      "off1 \<le> off'" "i' = i1 + length o2" "kept' = map_option (\<lambda>bs. bs @ o2) kept1" by auto
    with o1 have "off \<le> off'" "i' = i + length (o1 @ o2)" "kept' = map_option (\<lambda>bs. bs @ o1 @ o2) kept"
      by (auto simp: option.map_comp comp_def)
    then show ?thesis by blast
  qed
qed

lemma inflate_stream_outcome:
  "fails_only (pack_error pid) (inflate_stream x w pair off t n kept b pid oid)"
  unfolding inflate_stream_def
  by (intro outcome_intros inflate_loop_outcome)
    (auto simp: fails_only_fail_if intro!: fails_onlyI dest: charge_Err_is_limit)

lemma inflate_stream_Ok:
  assumes "inflate_stream x w pair off t n kept b pid oid = Ok (off', kept', b')"
  shows "off \<le> off' \<and> (\<exists>output. length output = n \<and> kept' = map_option (\<lambda>bs. bs @ output) kept) \<and>
    charge_inflate b n = Ok b'"
proof -
  from assms obtain i where "charge_inflate b n = Ok b'" "i = n"
    and "inflate_loop x w pair pid oid t (ext_zinit x) off 0 0 kept = Ok (off', i, kept')"
    by (auto simp: inflate_stream_def result_iffs split: prod.splits)
  with inflate_loop_Ok [OF this(3)] show ?thesis by auto
qed

lemma inflate_entry_Ok:
  assumes "inflate_entry x w p e b = Ok (body, b')"
  shows "length body = pe_declared_size e \<and> charge_inflate b (pe_declared_size e) = Ok b'"
proof -
  from assms obtain off kept where
    "inflate_stream x w (vp_pair p) (pe_data_offset e)
       (tracked_len (pair_pack (vp_pair p)) - pack_trailer_bytes) (pe_declared_size e) (Some []) b
       (pair_id (vp_pair p)) (pe_oid e) = Ok (off, kept, b')"
    and "body = (case kept of None \<Rightarrow> [] | Some bs \<Rightarrow> bs)"
    by (auto simp: inflate_entry_def Let_def result_iffs split: prod.splits)
  with inflate_stream_Ok [OF this(1)] show ?thesis by auto
qed

lemma inflate_entry_outcome: "fails_only (pack_error (pair_id (vp_pair p))) (inflate_entry x w p e b)"
  unfolding inflate_entry_def Let_def
  by (intro outcome_intros inflate_stream_outcome) (auto simp: fails_only_fail_if)

section \<open>The entry map: lemmas\<close>

definition entry_ok :: "parsed_index \<Rightarrow> pack_entry \<Rightarrow> bool" where
  "entry_ok idx e \<longleftrightarrow>
     (\<exists>row. row_at_offset idx (pe_offset e) = Some row \<and> row_oid row = pe_oid e) \<and>
     pe_offset e < pe_data_offset e \<and> kind_ok (pe_offset e) (pe_kind e) \<and>
     pe_declared_size e \<le> limit_maximum (entry_size_limit (pe_kind e))"

lemma first_offset_mismatch_Some: "rows idx \<noteq> [] \<Longrightarrow> \<exists>row. first_offset_mismatch idx off = Some row"
  by (simp add: first_offset_mismatch_def)

lemma crc32_range_outcome: "fails_only (pack_error p) (crc32_range x w pair a b)"
  unfolding crc32_range_def by (intro outcome_intros read_blocks_outcome) auto

lemma build_entry_outcome:
  assumes "rows idx \<noteq> []"
  shows "fails_only (pack_error (pair_id pair)) (build_entry x w pair idx t off b)"
  unfolding build_entry_def
  using first_offset_mismatch_Some [OF assms, of off]
  by (intro outcome_intros parse_entry_header_outcome inflate_stream_outcome crc32_range_outcome)
    (auto simp: fails_only_fail_if fails_only_ok_or entry_invalid_def split: option.splits)

text \<open>The stored bytes between two offsets have the checksum the index gives for the first.\<close>

definition entry_crc_ok :: "'z extern \<Rightarrow> world \<Rightarrow> pack_pair \<Rightarrow> parsed_index \<Rightarrow> nat \<Rightarrow> nat \<Rightarrow> bool" where
  "entry_crc_ok x w pair idx off end' \<longleftrightarrow>
     (\<exists>row c. row_at_offset idx off = Some row \<and> handle_content w (tf_path (pair_pack pair)) = Some c \<and>
        off < end' \<and> end' \<le> length c \<and> ext_crc32 x (take (end' - off) (drop off c)) = row_crc32 row)"

lemma crc32_range_Ok:
  "off < end' \<Longrightarrow> crc32_range x w pair off end' = Ok v \<Longrightarrow>
   \<exists>c. handle_content w (tf_path (pair_pack pair)) = Some c \<and> end' \<le> length c \<and>
     v = ext_crc32 x (take (end' - off) (drop off c))"
  by (auto simp: crc32_range_def result_iffs read_blocks_eq)

lemma build_entry_Ok:
  assumes "build_entry x w pair idx t off b = Ok (e, end', b')"
  shows "entry_ok idx e \<and> pe_offset e = off \<and> off < end' \<and> entry_crc_ok x w pair idx off end' \<and>
    charge_inflate b (pe_declared_size e) = Ok b'"
proof -
  have "\<exists>row h kept.
      row_at_offset idx off = Some row \<and> parse_entry_header w pair row off t = Ok h \<and>
      crc32_range x w pair off end' = Ok (row_crc32 row) \<and>
      inflate_stream x w pair (eh_data_offset h) t (eh_declared_size h) None b (pair_id pair) (row_oid row) =
        Ok (end', kept, b') \<and>
      e = \<lparr>pe_oid = row_oid row, pe_offset = off, pe_data_offset = eh_data_offset h,
        pe_declared_size = eh_declared_size h, pe_kind = eh_kind h\<rparr>"
    using assms by (auto simp: build_entry_def result_iffs split: option.splits prod.splits)
  then obtain row h kept where r: "row_at_offset idx off = Some row"
    and h: "parse_entry_header w pair row off t = Ok h"
    and c: "crc32_range x w pair off end' = Ok (row_crc32 row)"
    and i: "inflate_stream x w pair (eh_data_offset h) t (eh_declared_size h) None b (pair_id pair)
       (row_oid row) = Ok (end', kept, b')"
    and e: "e = \<lparr>pe_oid = row_oid row, pe_offset = off, pe_data_offset = eh_data_offset h,
       pe_declared_size = eh_declared_size h, pe_kind = eh_kind h\<rparr>"
    by blast
  have "off < end'" using parse_entry_header_Ok [OF h] inflate_stream_Ok [OF i] by auto
  with crc32_range_Ok [OF this c] show ?thesis
    using parse_entry_header_Ok [OF h] inflate_stream_Ok [OF i] r
    by (auto simp: e entry_ok_def entry_crc_ok_def)
qed

lemma build_entries_outcome:
  "rows idx \<noteq> [] \<or> n = 0 \<Longrightarrow> fails_only (pack_error (pair_id pair)) (build_entries x w pair idx t n off es b)"
proof (induction n arbitrary: off es b)
  case (Suc n)
  then show ?case by (simp only: build_entries.simps, intro outcome_intros build_entry_outcome) auto
qed simp

lemma build_entries_Ok:
  assumes "build_entries x w pair idx t n off es b = Ok (es', off', b')"
    and "sorted_wrt (<) (map pe_offset es @ [off])" "\<forall>e \<in> set es. entry_ok idx e"
    and "successively (entry_crc_ok x w pair idx) (map pe_offset es @ [off])"
    and "hd (map pe_offset es @ [off]) = start"
  shows "sorted_wrt (<) (map pe_offset es' @ [off']) \<and> (\<forall>e \<in> set es'. entry_ok idx e) \<and>
    length es' = length es + n \<and>
    successively (entry_crc_ok x w pair idx) (map pe_offset es' @ [off']) \<and>
    hd (map pe_offset es' @ [off']) = start \<and> (\<exists>new. es' = es @ new \<and>
      charge_all charge_inflate b (map pe_declared_size new) = Ok b')"
  using assms
proof (induction n arbitrary: off es b)
  case (Suc n)
  then obtain e end1 b1 where e: "build_entry x w pair idx t off b = Ok (e, end1, b1)"
    and rest: "build_entries x w pair idx t n end1 (es @ [e]) b1 = Ok (es', off', b')"
    by (auto simp: result_iffs)
  note ok = build_entry_Ok [OF e]
  have "sorted_wrt (<) (map pe_offset (es @ [e]) @ [end1])"
    using Suc.prems(2) ok by (auto simp: sorted_wrt_append)
  moreover have "successively (entry_crc_ok x w pair idx) (map pe_offset (es @ [e]) @ [end1])"
    using Suc.prems(4) ok by (auto simp: successively_append_iff)
  moreover have "hd (map pe_offset (es @ [e]) @ [end1]) = start"
    using Suc.prems(5) ok by (cases es) auto
  ultimately show ?case using Suc.IH [OF rest] Suc.prems(3) ok by auto
qed auto

definition pack_wf :: "validated_pack \<Rightarrow> bool" where
  "pack_wf p \<longleftrightarrow>
     (\<exists>n. index_wf n (vp_index p)) \<and>
     sorted_wrt (<) (map pe_offset (vp_entries p)) \<and>
     (\<forall>e \<in> set (vp_entries p). entry_ok (vp_index p) e) \<and>
     (\<forall>row \<in> set (rows (vp_index p)). \<exists>e \<in> set (vp_entries p). pe_offset e = row_offset row) \<and>
     length (vp_entries p) = length (rows (vp_index p)) \<and>
     vp_entries_by_offset p = entry_table (vp_entries p)"

lemma entry_table_get:
  assumes "sorted_wrt (<) (map pe_offset es)"
  shows "bt_get (entry_table es) off = Some i \<longleftrightarrow> i < length es \<and> pe_offset (es ! i) = off"
proof -
  have "map fst (map (\<lambda>(entry, value). (pe_offset value, entry)) (enumerate 0 es)) = map pe_offset es"
    by (rule nth_equalityI) (simp_all add: nth_enumerate_eq)
  then have "bt_get (entry_table es) off = Some i \<longleftrightarrow>
      (off, i) \<in> set (map (\<lambda>(entry, value). (pe_offset value, entry)) (enumerate 0 es))"
    using assms unfolding entry_table_def by (intro bt_collect_get) (simp add: strict_sorted_iff)
  also have "\<dots> \<longleftrightarrow> i < length es \<and> pe_offset (es ! i) = off"
    by (force simp: in_set_enumerate_eq)
  finally show ?thesis .
qed

lemma entry_at_offset_iff:
  assumes "pack_wf p"
  shows "entry_at_offset p off = Some e \<longleftrightarrow> e \<in> set (vp_entries p) \<and> pe_offset e = off"
  using assms entry_table_get [of "vp_entries p" off]
  by (auto simp: pack_wf_def entry_at_offset_def in_set_conv_nth)

lemma entry_for_oid_iff:
  assumes wf: "pack_wf p"
  shows "entry_for_oid p oid = Some e \<longleftrightarrow> e \<in> set (vp_entries p) \<and> pe_oid e = oid"
proof -
  from wf have idx: "\<exists>n. index_wf n (vp_index p)" by (simp add: pack_wf_def)
  have row: "\<exists>row. find (vp_index p) (pe_oid e) = Some row \<and> row_offset row = pe_offset e"
    if "e \<in> set (vp_entries p)" for e
  proof -
    from wf that obtain row where "row_at_offset (vp_index p) (pe_offset e) = Some row" "row_oid row = pe_oid e"
      by (auto simp: pack_wf_def entry_ok_def)
    with parsed.by_offset_iff [OF idx] parsed.by_oid_iff [OF idx] show ?thesis by auto
  qed
  show ?thesis
  proof
    assume "entry_for_oid p oid = Some e"
    then obtain r where r: "find (vp_index p) oid = Some r" "entry_at_offset p (row_offset r) = Some e"
      by (auto simp: entry_for_oid_def split: option.splits)
    then have e: "e \<in> set (vp_entries p)" "pe_offset e = row_offset r"
      using entry_at_offset_iff [OF wf] by auto
    from row [OF e(1)] obtain r' where "find (vp_index p) (pe_oid e) = Some r'" "row_offset r' = row_offset r"
      using e(2) by auto
    with r(1) parsed.offset_unique [OF idx] parsed.by_oid_iff [OF idx] have "pe_oid e = oid" by metis
    with e show "e \<in> set (vp_entries p) \<and> pe_oid e = oid" by simp
  next
    assume "e \<in> set (vp_entries p) \<and> pe_oid e = oid"
    with row [of e] entry_at_offset_iff [OF wf] show "entry_for_oid p oid = Some e"
      by (auto simp: entry_for_oid_def)
  qed
qed

interpretation packed: object_table pack_wf vp_entries pe_oid pe_offset entry_for_oid entry_at_offset
  by unfold_locales (auto simp: entry_for_oid_iff entry_at_offset_iff)

section \<open>Opening a pack\<close>

lemma hash_prefix_outcome: "fails_only (pack_error (pair_id pair)) (hash_prefix x w pair n)"
  unfolding hash_prefix_def finish_pack_hash_def
  by (intro outcome_intros read_blocks_outcome) (auto simp: fails_only_ok_or)

lemma hash_prefix_Ok:
  "0 < n \<Longrightarrow> hash_prefix x w pair n = Ok d \<Longrightarrow>
   \<exists>c. handle_content w (tf_path (pair_pack pair)) = Some c \<and> ext_sha x (take n c) = Some d"
  by (auto simp: hash_prefix_def finish_pack_hash_def result_iffs read_blocks_eq)

lemma build_entry_map_outcome:
  "n = length (rows idx) \<Longrightarrow> fails_only (pack_error (pair_id pair)) (build_entry_map x w pair idx n t b)"
  unfolding build_entry_map_def
  by (intro outcome_intros build_entries_outcome)
    (auto simp: fails_only_fail_if list_ex_iff first_offset_mismatch_def)

lemma pack_open_outcome: "fails_only (pack_error (pair_id pair)) (pack_open x w pair idx b)"
  unfolding pack_open_def Let_def
  by (intro outcome_intros read_exact_at_outcome hash_prefix_outcome build_entry_map_outcome)
    (auto simp: fails_only_fail_if)

text \<open>What a validated pack guarantees about the stored bytes.\<close>

definition pack_verified :: "'z extern \<Rightarrow> world \<Rightarrow> validated_pack \<Rightarrow> bool" where
  "pack_verified x w p \<longleftrightarrow>
     (\<exists>c. handle_content w (tf_path (pair_pack (vp_pair p))) = Some c \<and>
        (let t = tracked_len (pair_pack (vp_pair p)) - 20; trailer = take 20 (drop t c) in
           ext_sha x (take t c) = Some trailer \<and> oid_bytes (pair_id (vp_pair p)) = Some trailer \<and>
           pack_checksum (vp_index p) = trailer \<and>
           successively (entry_crc_ok x w (vp_pair p) (vp_index p)) (map pe_offset (vp_entries p) @ [t]) \<and>
           hd (map pe_offset (vp_entries p) @ [t]) = 12))"

lemma pack_open_Ok:
  assumes "pack_open x w pair idx b = Ok (p, b')" and "index_wf n idx"
  shows "pack_wf p" "pack_verified x w p" "vp_pair p = pair" "vp_index p = idx"
    "charge_all charge_inflate b (map pe_declared_size (vp_entries p)) = Ok b'"
proof -
  let ?t = "tracked_len (pair_pack pair) - 20"
  from assms(1) obtain trailer count entries off where
    len: "32 \<le> tracked_len (pair_pack pair)"
    and tr: "read_exact_at w (pair_pack pair) ?t 20 PC_Pack = Ok trailer"
    and h: "hash_prefix x w pair ?t = Ok trailer"
    and ids: "oid_bytes (pair_id pair) = Some trailer" "pack_checksum idx = trailer"
    and e: "build_entries x w pair idx ?t count 12 [] b = Ok (entries, ?t, b')"
    and all: "length entries = length (rows idx)"
      "\<forall>row \<in> set (rows idx). \<exists>e \<in> set entries. pe_offset e = row_offset row"
    and p: "p = \<lparr>vp_pair = pair, vp_index = idx, vp_entries = entries, vp_entries_by_offset = entry_table entries\<rparr>"
    by (auto simp: pack_open_def build_entry_map_def Let_def result_iffs pack_constants list_ex_iff
        list_all_iff split: if_splits prod.splits)
  from len have "0 < ?t" by simp
  from hash_prefix_Ok [OF this h] obtain c where
    c: "handle_content w (tf_path (pair_pack pair)) = Some c" "ext_sha x (take ?t c) = Some trailer"
    by blast
  from tr c(1) have trailer: "trailer = take 20 (drop ?t c)" by (simp add: read_exact_at_Ok)
  note entries = build_entries_Ok [OF e, where start = 12, simplified]
  show "pack_wf p"
    using entries assms(2) all by (auto simp: pack_wf_def p sorted_wrt_append)
  show "pack_verified x w p"
    using c ids trailer entries by (auto simp: pack_verified_def p Let_def)
  show "vp_pair p = pair" "vp_index p = idx" by (simp_all add: p)
  show "charge_all charge_inflate b (map pe_declared_size (vp_entries p)) = Ok b'"
    using entries by (simp add: p)
qed

section \<open>The offset encoding\<close>

text \<open>Git's encoding of a base distance, and the value of an encoded distance.\<close>

function encode_ofs_high :: "nat \<Rightarrow> bytes" where
  "encode_ofs_high m =
     (if m = 0 then [] else encode_ofs_high ((m - 1) div 128) @ [word_of_nat (128 + (m - 1) mod 128)])"
  by pat_completeness auto
termination by (relation "measure id") (auto simp: less_Suc_eq_le intro: le_less_trans [OF div_le_dividend])

declare encode_ofs_high.simps [simp del]

definition encode_ofs :: "nat \<Rightarrow> bytes" where
  "encode_ofs n = encode_ofs_high (n div 128) @ [word_of_nat (n mod 128)]"

definition ofs_step :: "nat \<Rightarrow> byte \<Rightarrow> nat" where
  "ofs_step d b = (d + 1) * 128 + unat b mod 128"

definition ofs_value :: "bytes \<Rightarrow> nat" where
  "ofs_value bs = foldl ofs_step (unat (hd bs) mod 128) (tl bs)"

lemma ofs_value_snoc: "bs \<noteq> [] \<Longrightarrow> ofs_value (bs @ [b]) = ofs_step (ofs_value bs) b"
  by (cases bs) (simp_all add: ofs_value_def)

lemma unat_high_digit: "n < 128 \<Longrightarrow> unat (word_of_nat (128 + n) :: byte) = 128 + n"
  "n < 128 \<Longrightarrow> unat (word_of_nat n :: byte) = n"
  by (rule word_of_nat_byte, simp)+

lemma encode_ofs_high_0 [simp]: "encode_ofs_high 0 = []"
  by (simp add: encode_ofs_high.simps)

lemma encode_ofs_high_facts:
  "(m \<noteq> 0 \<longrightarrow> encode_ofs_high m \<noteq> [] \<and> ofs_value (encode_ofs_high m) = m - 1) \<and>
   (\<forall>b \<in> set (encode_ofs_high m). 128 \<le> unat b)"
proof (induction m rule: encode_ofs_high.induct)
  case (1 m)
  show ?case
  proof (cases "m = 0")
    case False
    let ?p = "encode_ofs_high ((m - 1) div 128)" and ?b = "word_of_nat (128 + (m - 1) mod 128) :: byte"
    have b: "unat ?b = 128 + (m - 1) mod 128" by (rule unat_high_digit) simp
    have e: "encode_ofs_high m = ?p @ [?b]" using False by (subst encode_ofs_high.simps) simp
    have "ofs_value (?p @ [?b]) = m - 1"
    proof (cases "(m - 1) div 128 = 0")
      case True
      then have "?p = []" by simp
      moreover from True have "(m - 1) mod 128 = m - 1" by (simp add: div_eq_0_iff)
      ultimately show ?thesis using b by (simp add: ofs_value_def)
    next
      case nz: False
      with 1 [OF False] have "?p \<noteq> []" "ofs_value ?p + 1 = (m - 1) div 128" by auto
      with b show ?thesis by (simp add: ofs_value_snoc ofs_step_def)
    qed
    with 1 [OF False] b e show ?thesis by auto
  qed (simp add: encode_ofs_high.simps)
qed

lemma ofs_value_encode: "ofs_value (encode_ofs n) = n"
proof -
  have b: "unat (word_of_nat (n mod 128) :: byte) = n mod 128" by (rule unat_high_digit) simp
  show ?thesis
  proof (cases "n div 128 = 0")
    case True
    then have "encode_ofs_high (n div 128) = []" "n mod 128 = n"
      by (simp_all add: encode_ofs_high.simps div_eq_0_iff)
    then show ?thesis using b by (simp add: encode_ofs_def ofs_value_def)
  next
    case False
    then have "encode_ofs_high (n div 128) \<noteq> []" "ofs_value (encode_ofs_high (n div 128)) + 1 = n div 128"
      using encode_ofs_high_facts [of "n div 128"] by auto
    then show ?thesis using b by (simp add: encode_ofs_def ofs_value_snoc ofs_step_def)
  qed
qed

lemma foldl_ofs_step_ge: "d \<le> foldl ofs_step d bs"
proof (induction bs arbitrary: d)
  case (Cons b bs)
  have "d \<le> ofs_step d b" by (simp add: ofs_step_def)
  also have "\<dots> \<le> foldl ofs_step (ofs_step d b) bs" by (rule Cons.IH)
  finally show ?case by simp
qed simp

lemma ofs_word_step:
  assumes "ofs_step (unat d) b < 2 ^ 64"
  shows "\<exists>d'. Option.bind (checked_add64 d 1) (\<lambda>v. Option.bind (checked_shl64 v 7)
      (\<lambda>v. checked_add64 v (ucast (b AND 127)))) = Some d' \<and> unat d' = ofs_step (unat d) b"
proof -
  from assms have small: "(unat d + 1) * 128 + unat b mod 128 < 2 ^ 64" by (simp add: ofs_step_def)
  then have d1: "unat (d + 1) = unat d + 1" by (simp add: unat_word_ariths)
  have sh: "unat (push_bit 7 (d + 1)) = (unat d + 1) * 128"
    using small by (simp only: unsigned_push_bit_eq d1) (simp add: take_bit_nat_eq_self push_bit_eq_mult)
  have "unat (push_bit 7 (d + 1) + ucast (b AND 127)) = ofs_step (unat d) b"
    using small sh by (simp add: unat_word_ariths ofs_step_def)
  then show ?thesis
    using small sh by (simp add: checked_add64_def checked_shl64_def)
qed

lemma read_byte_forward:
  assumes "handle_content w (tf_path (pair_pack pair)) = Some c" "drop cur c = b # rest" "cur < t"
  shows "read_byte w pair cur t row = Ok (b, cur + 1)"
proof -
  have "cur < length c" using assms(2) by (metis drop_eq_Nil leI list.distinct(1))
  then have "read_exact_at w (pair_pack pair) cur 1 PC_Entry = Ok [b]"
    using assms(1,2) by (simp add: read_exact_at_Ok)
  then show ?thesis using assms(3) by (simp add: read_byte_def)
qed

lemma ofs_distance_loop_forward:
  assumes content: "handle_content w (tf_path (pair_pack pair)) = Some c"
    and "drop cur c = bs @ l # rest" "cur + length bs < t" "128 \<le> unat byte"
    and "\<forall>b \<in> set bs. 128 \<le> unat b" "unat l < 128"
    and "foldl ofs_step (unat d) (bs @ [l]) < 2 ^ 64"
  shows "\<exists>d'. ofs_distance_loop w pair row t byte cur d = Ok (d', cur + length bs + 1) \<and>
    unat d' = foldl ofs_step (unat d) (bs @ [l])"
  using assms(2-)
proof (induction bs arbitrary: cur byte d)
  case Nil
  then obtain d' where d': "Option.bind (checked_add64 d 1) (\<lambda>v. Option.bind (checked_shl64 v 7)
      (\<lambda>v. checked_add64 v (ucast (l AND 127)))) = Some d'" "unat d' = ofs_step (unat d) l"
    using ofs_word_step [of d l] by auto
  moreover have "read_byte w pair cur t row = Ok (l, cur + 1)"
    using Nil by (intro read_byte_forward [OF content]) auto
  ultimately show ?case
    using Nil by (simp add: ofs_distance_loop.simps)
next
  case (Cons b bs)
  have "ofs_step (unat d) b \<le> foldl ofs_step (ofs_step (unat d) b) (bs @ [l])"
    by (rule foldl_ofs_step_ge)
  with Cons.prems(6) have "ofs_step (unat d) b < 2 ^ 64" by simp
  from ofs_word_step [OF this] obtain d' where
    d': "Option.bind (checked_add64 d 1) (\<lambda>v. Option.bind (checked_shl64 v 7)
      (\<lambda>v. checked_add64 v (ucast (b AND 127)))) = Some d'" "unat d' = ofs_step (unat d) b" by auto
  have rb: "read_byte w pair cur t row = Ok (b, cur + 1)"
    using Cons.prems by (intro read_byte_forward [OF content]) auto
  have "drop (cur + 1) c = bs @ l # rest"
    using Cons.prems(1) by (metis Suc_eq_plus1 append_Cons drop_Suc drop_tl list.sel(3))
  then have "\<exists>d2. ofs_distance_loop w pair row t b (cur + 1) d' = Ok (d2, cur + 1 + length bs + 1) \<and>
      unat d2 = foldl ofs_step (unat d') (bs @ [l])"
    using Cons.prems d' by (intro Cons.IH) auto
  with Cons.prems(3) rb d' show ?case
    by (subst ofs_distance_loop.simps) (simp add: not_less)
qed

section \<open>Properties\<close>

text \<open>
  C29. Inflating an entry is total: it ends for every decompressor, never panics, and either returns
  exactly the declared number of bytes, charged once to the cumulative budget and within the limit
  of the entry's kind, or reports a typed error of this pack.
\<close>

theorem inflate_entry_bounded:
  "case inflate_entry x w p e b of
     Ok (body, b') \<Rightarrow> length body = pe_declared_size e \<and>
       length body \<le> limit_maximum (entry_size_limit (pe_kind e)) \<and>
       cumulative_inflate_bytes b' = cumulative_inflate_bytes b + length body \<and>
       cumulative_inflate_bytes b' \<le> limit_maximum CumulativeEntryInflateBytes
   | Err err \<Rightarrow> pack_error (pair_id (vp_pair p)) err
   | Panic \<Rightarrow> False"
proof (cases "inflate_entry x w p e b")
  case (Ok r)
  obtain body b' where r: "r = (body, b')" by (cases r)
  have "pe_declared_size e \<le> limit_maximum (entry_size_limit (pe_kind e))"
    using Ok by (auto simp: inflate_entry_def Let_def result_iffs)
  with inflate_entry_Ok [of x w p e b body b'] inflate_budget.charge_used [of b "pe_declared_size e" b']
    inflate_budget.charge_accepts [of b "pe_declared_size e"] show ?thesis
    using Ok by (auto simp: r)
qed (use inflate_entry_outcome [of p x w e b] in auto)

lemma ofs_distance_read:
  assumes content: "handle_content w (tf_path (pair_pack pair)) = Some c"
    and at: "drop cursor c = encode_ofs distance @ rest"
    and room: "cursor + length (encode_ofs distance) \<le> t" and small: "distance < 2 ^ 64"
  shows "\<exists>first cur d. read_byte w pair cursor t row = Ok (first, cur) \<and>
    ofs_distance_loop w pair row t first cur (ucast (first AND 127)) =
      Ok (d, cursor + length (encode_ofs distance)) \<and> unat d = distance"
proof -
  let ?l = "word_of_nat (distance mod 128) :: byte" and ?h = "encode_ofs_high (distance div 128)"
  have l: "unat ?l = distance mod 128" by (rule unat_high_digit) simp
  have v: "ofs_value (?h @ [?l]) = distance" using ofs_value_encode [of distance] by (simp add: encode_ofs_def)
  show ?thesis
  proof (cases ?h)
    case Nil
    have "unat (?l AND 127) = unat ?l" using l by simp
    then have "?l AND 127 = ?l" by (simp only: word_unat_eq_iff)
    moreover have "distance mod 128 = distance" using v l by (simp add: Nil ofs_value_def)
    moreover have "read_byte w pair cursor t row = Ok (?l, cursor + 1)"
      using at room by (intro read_byte_forward [OF content]) (auto simp: encode_ofs_def Nil)
    ultimately show ?thesis
      using l by (auto simp: encode_ofs_def Nil ofs_distance_loop.simps)
  next
    case (Cons f bs)
    have high: "128 \<le> unat f" "\<forall>b \<in> set bs. 128 \<le> unat b"
      using encode_ofs_high_facts [of "distance div 128"] by (auto simp: Cons)
    have bytes: "drop cursor c = f # bs @ ?l # rest" using at by (simp add: encode_ofs_def Cons)
    then have rb: "read_byte w pair cursor t row = Ok (f, cursor + 1)"
      using room by (intro read_byte_forward [OF content]) (auto simp: encode_ofs_def)
    have "drop (cursor + 1) c = bs @ ?l # rest"
      using bytes by (metis Suc_eq_plus1 drop_Suc drop_tl list.sel(3))
    moreover have "foldl ofs_step (unat (ucast (f AND 127) :: 64 word)) (bs @ [?l]) = distance"
      using v by (simp add: Cons ofs_value_def)
    ultimately have "\<exists>d. ofs_distance_loop w pair row t f (cursor + 1) (ucast (f AND 127)) =
        Ok (d, cursor + 1 + length bs + 1) \<and> unat d = distance"
      using ofs_distance_loop_forward [OF content, of "cursor + 1" bs ?l rest t f "ucast (f AND 127)" row]
        room high l small by (simp add: encode_ofs_def Cons)
    with rb show ?thesis by (auto simp: encode_ofs_def Cons)
  qed
qed

text \<open>
  Round trip: the standard encoding of a base distance, at any place before the trailer, is read
  back as the offset of the base, whenever the distance is positive and the base lies after the pack
  header.
\<close>

lemma parse_ofs_base_roundtrip:
  assumes "handle_content w (tf_path (pair_pack pair)) = Some c"
    and "drop cursor c = encode_ofs distance @ rest"
    and "cursor + length (encode_ofs distance) \<le> trailer_offset"
    and "0 < distance" "distance + 12 \<le> entry_offset" "entry_offset < 2 ^ 64"
  shows "parse_ofs_base w pair row entry_offset cursor trailer_offset =
    Ok (entry_offset - distance, cursor + length (encode_ofs distance))"
proof -
  have "distance < 2 ^ 64" using assms(5,6) by linarith
  from ofs_distance_read [OF assms(1-3) this] obtain first cur d where
    "read_byte w pair cursor trailer_offset row = Ok (first, cur)"
    "ofs_distance_loop w pair row trailer_offset first cur (ucast (first AND 127)) =
      Ok (d, cursor + length (encode_ofs distance))" and d: "unat d = distance" by blast
  moreover have "d \<noteq> 0" using d assms(4) by auto
  moreover have "\<not> entry_offset - distance < 12" "\<not> entry_offset \<le> entry_offset - distance"
    using assms(4,5) by linarith+
  ultimately show ?thesis
    using assms(5) by (simp add: parse_ofs_base_def pack_constants checked_sub_def)
qed

definition one_file_world :: "bytes \<Rightarrow> world" where
  "one_file_world c = sample_world\<lparr>handle_content := (\<lambda>_. Some c)\<rparr>"

definition sample_row :: index_row where
  "sample_row = \<lparr>row_oid = ObjectId ''o'', row_crc32 = 0, row_offset = 50\<rparr>"

lemma parse_ofs_base_roundtrip_witness:
  "parse_ofs_base (one_file_world (encode_ofs 300 @ replicate 20 0)) sample_pair sample_row 500 0 10 =
     Ok (200, 2)"
proof -
  have "encode_ofs 300 = [129, 44]"
    by (simp add: encode_ofs_def encode_ofs_high.simps [of 2])
  with parse_ofs_base_roundtrip [where w = "one_file_world (encode_ofs 300 @ replicate 20 0)"
      and pair = sample_pair and cursor = 0 and distance = 300 and rest = "replicate 20 0"
      and trailer_offset = 10 and entry_offset = 500 and row = sample_row and
      c = "encode_ofs 300 @ replicate 20 0"]
  show ?thesis by (simp add: one_file_world_def)
qed


end
