(* ===== verification/Git_Objects.thy ===== *)
theory Git_Objects
  imports Pack_Budgets
begin

text \<open>
  The pure parsers of the acquisition adapter (\<open>codenoesis-repository/src/lib.rs\<close>): object headers,
  tree objects, the tree line of a commit, path components with their limits, and the single-file
  root of the first profile.
\<close>

section \<open>Numbers in headers\<close>

text \<open>\<open>str::parse::<usize>\<close> on ASCII digits, and the decimal form \<open>format!\<close> prints.\<close>

definition digit_value :: "char \<Rightarrow> nat" where
  "digit_value c = of_char c - 48"

definition parse_decimal :: "string \<Rightarrow> nat option" where
  "parse_decimal s =
     (let v = foldl (\<lambda>acc c. acc * 10 + digit_value c) 0 s in if v \<le> u64_max then Some v else None)"

fun show_nat :: "nat \<Rightarrow> string" where
  "show_nat n = (if n < 10 then [char_of (48 + n)] else show_nat (n div 10) @ [char_of (48 + n mod 10)])"

declare show_nat.simps [simp del]

section \<open>Object headers\<close>

fun kind_name :: "git_object_kind \<Rightarrow> string" where
  "kind_name Commit = ''commit''"
| "kind_name Tree = ''tree''"
| "kind_name Blob = ''blob''"
| "kind_name Tag = ''tag''"

definition parse_object_header :: "bytes \<Rightarrow> (git_object_kind \<times> nat) option" where
  "parse_object_header header =
     (case from_utf8 header of
        None \<Rightarrow> None
      | Some text \<Rightarrow>
          (case split_once CHR '' '' text of
             None \<Rightarrow> None
           | Some (kind, n) \<Rightarrow>
               if n = [] \<or> \<not> (\<forall>c \<in> set n. is_ascii_digit c) then None
               else
                 (case parse_decimal n of
                    None \<Rightarrow> None
                  | Some sz \<Rightarrow>
                      if kind = ''commit'' then Some (Commit, sz)
                      else if kind = ''tree'' then Some (Tree, sz)
                      else if kind = ''blob'' then Some (Blob, sz)
                      else if kind = ''tag'' then Some (Tag, sz)
                      else None)))"

text \<open>The header \<open>verify_oid\<close> hashes: kind, length and a zero byte.\<close>

definition object_header :: "git_object_kind \<Rightarrow> nat \<Rightarrow> bytes" where
  "object_header kind n = as_bytes (kind_name kind @ '' '' @ show_nat n) @ [0]"

record git_object =
  go_kind :: git_object_kind
  go_body_prefix :: bytes
  go_body_size :: nat

text \<open>\<open>encode_lower_hex\<close>.\<close>

definition encode_lower_hex :: "bytes \<Rightarrow> string" where
  "encode_lower_hex bs = concat (map (\<lambda>b. [hex_digit (unat (drop_bit 4 b)), hex_digit (unat (b AND 15))]) bs)"

section \<open>Trees and commits\<close>

record raw_tree_entry =
  te_mode :: bytes
  te_name :: bytes
  te_object_id :: object_id

definition space_byte :: byte where "space_byte = 32"

text \<open>One entry at an offset: its value and the offset after it.\<close>

definition parse_tree_entry :: "bytes \<Rightarrow> nat \<Rightarrow> (raw_tree_entry \<times> nat) option" where
  "parse_tree_entry body offset =
     Option.bind (position space_byte (drop offset body)) (\<lambda>s.
     let space = s + offset in
     Option.bind (checked_add space 1) (\<lambda>name_start.
     Option.bind (position 0 (drop name_start body)) (\<lambda>z.
     let name_end = z + name_start in
     Option.bind (checked_add name_end 1) (\<lambda>object_start.
     Option.bind (checked_add object_start 20) (\<lambda>object_end.
     Option.bind (get_range object_start object_end body) (\<lambda>object_bytes.
     Some (\<lparr>te_mode = take (space - offset) (drop offset body),
            te_name = take (name_end - name_start) (drop name_start body),
            te_object_id = from_bytes object_bytes\<rparr>, object_end)))))))"

lemma parse_tree_entry_progress:
  "parse_tree_entry body offset = Some (e, next') \<Longrightarrow> offset < next' \<and> next' \<le> length body"
  by (auto simp: parse_tree_entry_def Let_def get_range_Some_iff split: Option.bind_splits)

function parse_tree_loop :: "bytes \<Rightarrow> nat \<Rightarrow> raw_tree_entry list \<Rightarrow> raw_tree_entry list option" where
  "parse_tree_loop body offset entries =
     (if offset < length body then
        (case parse_tree_entry body offset of
           None \<Rightarrow> None
         | Some (entry, next') \<Rightarrow> parse_tree_loop body next' (entries @ [entry]))
      else Some entries)"
  by pat_completeness auto
termination
  by (relation "measure (\<lambda>(body, offset, entries). length body - offset)")
    (auto dest: parse_tree_entry_progress)

declare parse_tree_loop.simps [simp del]

definition parse_tree_entries :: "bytes \<Rightarrow> raw_tree_entry list option" where
  "parse_tree_entries body = parse_tree_loop body 0 []"

definition parse_commit_tree :: "bytes \<Rightarrow> object_id option" where
  "parse_commit_tree body =
     Option.bind (position 10 body) (\<lambda>line_end.
     Option.bind (from_utf8 (take line_end body)) (\<lambda>line.
     Option.bind (strip_prefix ''tree '' line) parse_sha1))"

section \<open>Path components\<close>

definition path_invalid :: "path_invalid_reason \<Rightarrow> repository_error" where
  "path_invalid reason = Acquisition (PathInvalid reason)"

definition validate_s1_path_component :: "bytes \<Rightarrow> (string, repository_error) result" where
  "validate_s1_path_component name =
     (if name = [] then Err (path_invalid EmptyComponent)
      else if 0x2F \<in> set name then Err Unexpected
      else
        (case from_utf8 name of
           None \<Rightarrow> Err (path_invalid NonUtf8)
         | Some component \<Rightarrow>
             if component = ''.'' \<or> component = ''..'' then Err (path_invalid DotComponent)
             else if 0x5C \<in> set name then Err (path_invalid Backslash)
             else if \<exists>b \<in> set name. is_ascii_control b \<or> b = 0x7F then Err (path_invalid ControlCharacter)
             else Ok component))"

definition check_path_limits :: "string \<Rightarrow> bytes \<Rightarrow> nat \<Rightarrow> (unit, repository_error) result" where
  "check_path_limits path component depth =
     (if length component > limit_maximum PathComponentBytes
      then Err (Acquisition (limit_exceeded PathComponentBytes (length component)))
      else if length path > limit_maximum PathBytes
      then Err (Acquisition (limit_exceeded PathBytes (length path)))
      else if depth > limit_maximum RecursionDepth
      then Err (Acquisition (limit_exceeded RecursionDepth depth))
      else Ok ())"

definition s1_tree_capture_limit :: nat where
  "s1_tree_capture_limit = limit_maximum CanonicalOutputBytes"

definition s1_blob_capture_limit :: "nat \<Rightarrow> nat" where
  "s1_blob_capture_limit single_file_bytes = single_file_bytes"

definition s1_blob_body_limit :: "nat \<Rightarrow> nat \<Rightarrow> declared_body_limit" where
  "s1_blob_body_limit cumulative_file_bytes single_file_bytes =
     (let cumulative_remaining = limit_maximum CumulativeFileBytes - cumulative_file_bytes in
      if cumulative_remaining < single_file_bytes
      then \<lparr>dbl_limit = CumulativeFileBytes, dbl_body_maximum = cumulative_remaining,
            dbl_observed_offset = cumulative_file_bytes\<rparr>
      else \<lparr>dbl_limit = SingleFileBytes, dbl_body_maximum = s1_blob_capture_limit single_file_bytes,
            dbl_observed_offset = 0\<rparr>)"

section \<open>The single-file root\<close>

definition unsupported_single_file :: repository_error where
  "unsupported_single_file = Acquisition (UnsupportedRepositoryShape NonSingleRegularRootFile)"

definition byte_alphanumeric :: "byte \<Rightarrow> bool" where
  "byte_alphanumeric b = is_ascii_alphanumeric (byte_char b)"

definition valid_root_file_name :: "bytes \<Rightarrow> bool" where
  "valid_root_file_name name =
     (case name of
        [] \<Rightarrow> False
      | first # rest \<Rightarrow>
          length name \<le> 128 \<and> byte_alphanumeric first \<and>
          (\<forall>b \<in> set rest. byte_alphanumeric b \<or> b = 0x2E \<or> b = 0x5F \<or> b = 0x2D))"

definition parse_single_regular_file :: "git_object \<Rightarrow> (object_id, repository_error) result" where
  "parse_single_regular_file obj =
     (if go_body_size obj \<noteq> length (go_body_prefix obj) then Err unsupported_single_file
      else
        let body = go_body_prefix obj in
        (case position space_byte body of
           None \<Rightarrow> Err unsupported_single_file
         | Some space \<Rightarrow>
             (case position 0 (drop (space + 1) body) of
                None \<Rightarrow> Err unsupported_single_file
              | Some name_end_relative \<Rightarrow>
                  let name_end = space + 1 + name_end_relative;
                      mode = take space body;
                      name = take (name_end - (space + 1)) (drop (space + 1) body);
                      object_bytes = drop (name_end + 1) body in
                  if name_end + 1 > length body \<or> length object_bytes \<noteq> 20 then Err unsupported_single_file
                  else if mode = as_bytes ''120000''
                  then Err (Acquisition (UnsupportedRepositoryShape Symlink_feature))
                  else if mode = as_bytes ''160000''
                  then Err (Acquisition (UnsupportedRepositoryShape SubmoduleOrGitlink))
                  else if mode \<noteq> as_bytes ''100644'' then Err unsupported_single_file
                  else if \<not> valid_root_file_name name then Err unsupported_single_file
                  else Ok (from_bytes object_bytes))))"

section \<open>Header lemmas\<close>

lemma digit_char: "n < 10 \<Longrightarrow> is_ascii_digit (char_of (48 + n)) \<and> digit_value (char_of (48 + n)) = n"
  by (auto simp: is_ascii_digit_def digit_value_def less_eq_char_def)

lemma show_nat_digits: "\<forall>c \<in> set (show_nat n). is_ascii_digit c"
proof (induction n rule: show_nat.induct)
  case (1 n)
  then show ?case
    using digit_char [of n] digit_char [of "n mod 10"] by (subst show_nat.simps) auto
qed

lemma show_nat_nonempty [simp]: "show_nat n \<noteq> []"
  by (simp add: show_nat.simps)

lemma show_nat_value: "foldl (\<lambda>acc c. acc * 10 + digit_value c) 0 (show_nat n) = n"
proof (induction n rule: show_nat.induct)
  case (1 n)
  show ?case
  proof (cases "n < 10")
    case True
    then show ?thesis using digit_char [of n] by (simp add: show_nat.simps [of n])
  next
    case False
    then show ?thesis using 1 digit_char [of "n mod 10"] by (simp add: show_nat.simps [of n])
  qed
qed

lemma parse_decimal_show: "n \<le> u64_max \<Longrightarrow> parse_decimal (show_nat n) = Some n"
  by (simp add: parse_decimal_def show_nat_value)

lemma digit_ascii: "is_ascii_digit c \<Longrightarrow> of_char c < (128 :: nat)"
  by (simp add: is_ascii_digit_def less_eq_char_def)

lemma kind_name_inject: "kind_name k = kind_name k' \<longleftrightarrow> k = k'"
  by (cases k; cases k') simp_all

lemma kind_name_no_space: "CHR '' '' \<notin> set (kind_name k)" "\<forall>c \<in> set (kind_name k). of_char c < (128 :: nat)"
  by (cases k; simp)+

lemma parse_object_header_show:
  assumes "n \<le> u64_max"
  shows "parse_object_header (as_bytes (kind_name k @ '' '' @ show_nat n)) = Some (k, n)"
proof -
  have "from_utf8 (as_bytes (kind_name k @ '' '' @ show_nat n)) = Some (kind_name k @ '' '' @ show_nat n)"
    using kind_name_no_space(2) show_nat_digits digit_ascii by (intro from_utf8_ascii) auto
  moreover have "split_once CHR '' '' (kind_name k @ '' '' @ show_nat n) = Some (kind_name k, show_nat n)"
    using kind_name_no_space by (simp add: split_once_Some)
  ultimately show ?thesis
    using show_nat_digits parse_decimal_show [OF assms]
    by (cases k) (simp_all add: parse_object_header_def)
qed

section \<open>Tree lemmas\<close>

text \<open>The tree format, as a writer: mode, space, name, zero byte, twenty bytes of identifier.\<close>

type_synonym raw_entry = "bytes \<times> bytes \<times> bytes"

fun encode_raw :: "raw_entry \<Rightarrow> bytes" where
  "encode_raw (mode, name, oid) = mode @ space_byte # name @ 0 # oid"

fun raw_ok :: "raw_entry \<Rightarrow> bool" where
  "raw_ok (mode, name, oid) \<longleftrightarrow> space_byte \<notin> set mode \<and> 0 \<notin> set name \<and> length oid = 20"

fun raw_value :: "raw_entry \<Rightarrow> raw_tree_entry" where
  "raw_value (mode, name, oid) = \<lparr>te_mode = mode, te_name = name, te_object_id = from_bytes oid\<rparr>"

lemma parse_tree_entry_forward:
  assumes "raw_ok r" and "length (p @ encode_raw r @ rest) \<le> u64_max"
  shows "parse_tree_entry (p @ encode_raw r @ rest) (length p) = Some (raw_value r, length p + length (encode_raw r))"
proof -
  obtain m n oid where r: "r = (m, n, oid)" by (cases r)
  show ?thesis
    using assms by (simp add: r parse_tree_entry_def Let_def position_append checked_add_def get_range_def)
qed

lemma parse_tree_loop_forward:
  "\<forall>r \<in> set rs. raw_ok r \<Longrightarrow> length (p @ concat (map encode_raw rs)) \<le> u64_max \<Longrightarrow>
   parse_tree_loop (p @ concat (map encode_raw rs)) (length p) es = Some (es @ map raw_value rs)"
proof (induction rs arbitrary: p es)
  case (Cons r rs)
  have "encode_raw r \<noteq> []" by (cases r) simp
  moreover have "parse_tree_loop ((p @ encode_raw r) @ concat (map encode_raw rs)) (length (p @ encode_raw r))
      (es @ [raw_value r]) = Some ((es @ [raw_value r]) @ map raw_value rs)"
    using Cons.prems by (intro Cons.IH) auto
  ultimately show ?case
    using Cons.prems parse_tree_entry_forward [of r p "concat (map encode_raw rs)"]
    by (subst parse_tree_loop.simps) simp
qed (simp add: parse_tree_loop.simps)

lemma parse_tree_entry_backward:
  assumes "parse_tree_entry body offset = Some (e, next')"
  shows "\<exists>r. raw_ok r \<and> e = raw_value r \<and> drop offset body = encode_raw r @ drop next' body"
proof -
  from assms obtain s z where s: "position space_byte (drop offset body) = Some s"
    and z: "position 0 (drop (s + offset + 1) body) = Some z"
    and o: "s + offset + 1 + z + 1 + 20 \<le> length body"
    and e: "e = \<lparr>te_mode = take s (drop offset body), te_name = take z (drop (s + offset + 1) body),
       te_object_id = from_bytes (take 20 (drop (s + offset + 1 + z + 1) body))\<rparr>"
    and n: "next' = s + offset + 1 + z + 1 + 20"
    by (auto simp: parse_tree_entry_def Let_def get_range_Some_iff bind_eq_Some_conv add_ac)
  let ?m = "take s (drop offset body)" and ?n = "take z (drop (s + offset + 1) body)"
  let ?o = "take 20 (drop (s + offset + 1 + z + 1) body)"
  have cut: "drop k body = take j (drop k body) @ x # drop (j + k + 1) body"
    if "position x (drop k body) = Some j" for k j and x :: byte
    using that id_take_nth_drop [of j "drop k body"] by (auto simp: position_Some add.commute)
  have "drop offset body = ?m @ space_byte # drop (s + offset + 1) body" by (rule cut [OF s])
  also have "drop (s + offset + 1) body = ?n @ 0 # drop (z + (s + offset + 1) + 1) body" by (rule cut [OF z])
  also have "drop (z + (s + offset + 1) + 1) body = ?o @ drop next' body"
  proof -
    have "z + (s + offset + 1) + 1 = s + offset + 1 + z + 1" by simp
    then show ?thesis unfolding n by (metis add.commute append_take_drop_id drop_drop)
  qed
  finally have "drop offset body = encode_raw (?m, ?n, ?o) @ drop next' body" by simp
  moreover have "raw_ok (?m, ?n, ?o)" using s z o by (simp add: position_Some)
  ultimately show ?thesis using e by (intro exI [of _ "(?m, ?n, ?o)"]) simp
qed

lemma parse_tree_loop_backward:
  "parse_tree_loop body offset es = Some es' \<Longrightarrow> offset \<le> length body \<Longrightarrow>
   \<exists>rs. (\<forall>r \<in> set rs. raw_ok r) \<and> es' = es @ map raw_value rs \<and> drop offset body = concat (map encode_raw rs)"
proof (induction body offset es rule: parse_tree_loop.induct)
  case (1 body offset es)
  show ?case
  proof (cases "offset < length body")
    case False
    with 1 show ?thesis by (intro exI [of _ "[]"]) (simp add: parse_tree_loop.simps)
  next
    case True
    with "1.prems"(1) obtain e n where e: "parse_tree_entry body offset = Some (e, n)"
      and l: "parse_tree_loop body n (es @ [e]) = Some es'"
      by (auto simp: parse_tree_loop.simps [of body offset] split: option.splits)
    from parse_tree_entry_backward [OF e] obtain r where
      "raw_ok r" "e = raw_value r" "drop offset body = encode_raw r @ drop n body" by blast
    moreover from "1.IH" [OF True e refl l] parse_tree_entry_progress [OF e] obtain rs where
      "\<forall>r \<in> set rs. raw_ok r" "es' = (es @ [e]) @ map raw_value rs" "drop n body = concat (map encode_raw rs)"
      by auto
    ultimately show ?thesis by (intro exI [of _ "r # rs"]) simp
  qed
qed

section \<open>Properties\<close>

text \<open>
  Round trip of object headers: the header printed for a kind and a size below \<open>2 ^ 64\<close> parses
  back to that kind and size.
\<close>

lemma parse_object_header_roundtrip:
  assumes "n \<le> u64_max"
  shows "parse_object_header (butlast (object_header k n)) = Some (k, n)"
  using parse_object_header_show [OF assms, of k] by (simp add: object_header_def butlast_append)

lemma parse_object_header_roundtrip_witness:
  "parse_object_header (butlast (object_header Blob 42)) = Some (Blob, 42)"
  by (rule parse_object_header_roundtrip) (simp add: u64_max_def)

text \<open>
  C31. The tree parser accepts exactly the concatenations of well-formed entries (a mode without a
  space, a name without a zero byte, twenty identifier bytes), and returns those entries in order.
\<close>

theorem parse_tree_entries_exact:
  assumes "length body \<le> u64_max"
  shows "parse_tree_entries body = Some es \<longleftrightarrow>
    (\<exists>rs. (\<forall>r \<in> set rs. raw_ok r) \<and> body = concat (map encode_raw rs) \<and> es = map raw_value rs)"
proof
  assume "parse_tree_entries body = Some es"
  from parse_tree_loop_backward [OF this [unfolded parse_tree_entries_def]]
  show "\<exists>rs. (\<forall>r \<in> set rs. raw_ok r) \<and> body = concat (map encode_raw rs) \<and> es = map raw_value rs" by auto
next
  assume "\<exists>rs. (\<forall>r \<in> set rs. raw_ok r) \<and> body = concat (map encode_raw rs) \<and> es = map raw_value rs"
  with assms show "parse_tree_entries body = Some es"
    using parse_tree_loop_forward [where p = "[]" and es = "[]"] by (auto simp: parse_tree_entries_def)
qed

theorem parse_tree_entries_exact_witness:
  "parse_tree_entries ([49, 48, 32, 97, 0] @ replicate 20 1) =
     Some [\<lparr>te_mode = [49, 48], te_name = [97], te_object_id = from_bytes (replicate 20 1)\<rparr>]"
  by (subst parse_tree_entries_exact)
    (auto simp: u64_max_def space_byte_def intro!: exI [of _ "[([49, 48], [97], replicate 20 1)]"])

text \<open>
  Path components: a component is accepted if and only if it is non-empty valid UTF-8, is not a
  dot or dot-dot, and holds no slash, backslash or control byte; then the returned text has exactly
  its bytes.
\<close>

lemma validate_s1_path_component_exact:
  "validate_s1_path_component name = Ok component \<longleftrightarrow>
     from_utf8 name = Some component \<and> name \<noteq> [] \<and> as_bytes component = name \<and>
     component \<noteq> ''.'' \<and> component \<noteq> ''..'' \<and>
     (\<forall>b \<in> set name. b \<noteq> 0x2F \<and> b \<noteq> 0x5C \<and> b \<noteq> 0x7F \<and> \<not> is_ascii_control b)"
  by (auto simp: validate_s1_path_component_def from_utf8_as_bytes split: option.splits if_splits)

lemma validate_s1_path_component_exact_witness:
  "validate_s1_path_component (as_bytes ''src'') = Ok ''src''"
proof -
  have "from_utf8 (as_bytes ''src'') = Some ''src''" by (rule from_utf8_ascii) simp
  then show ?thesis
    by (subst validate_s1_path_component_exact) (simp add: as_bytes_def is_ascii_control_def)
qed

end
