(* ===== verification/Packed_Database.thy ===== *)
theory Packed_Database
  imports Delta Pack_File Git_Objects
begin

text \<open>
  The packed object database (\<open>packed/mod.rs\<close>): opening the catalog, locating an object among the
  loose file and the packs, and \<open>resolve\<close>, which rebuilds an object through its delta chain with an
  explicit stack of tasks instead of recursion. The machine is proved to terminate, to be free of
  panics on a validated database, and to return only an object that hashes to the requested
  identifier and respects the caller's bounds.
\<close>

section \<open>Data\<close>

definition selected_loose_compressed_bytes :: nat where
  "selected_loose_compressed_bytes = 271122432"

record resolved_object =
  ro_kind :: git_object_kind
  ro_body :: bytes

datatype object_location = Loose | Pack nat nat

record delta_cause =
  dc_pack_id :: object_id
  dc_object_oid :: object_id

datatype resolve_task =
    ResolveOid object_id nat "delta_cause option"
  | FinishOid object_id nat
  | ResolveLocation object_id object_location nat
  | ApplyDelta object_id nat pack_entry bytes requested_object_bounds

record packed_db =
  db_git_dir :: string
  db_packs :: "validated_pack list"
  db_budgets :: pack_budgets
  db_cache :: "(object_id, resolved_object) btree"
  db_cache_bytes :: nat

section \<open>Opening\<close>

fun open_packs ::
  "'z extern \<Rightarrow> world \<Rightarrow> pack_pair list \<Rightarrow> pack_budgets \<Rightarrow>
   (validated_pack list \<times> pack_budgets, acquisition_error) result"
where
  "open_packs x w [] budgets = Ok ([], budgets)"
| "open_packs x w (pair # pairs) budgets =
     and_then (charge_index budgets (tracked_len (pair_index pair))) (\<lambda>budgets.
     and_then (charge_pack budgets (tracked_len (pair_pack pair))) (\<lambda>budgets.
     and_then (parse_index (ext_sha x) w (pair_index pair) (pair_id pair) (tracked_len (pair_pack pair))) (\<lambda>index.
     and_then (charge_objects budgets (length (rows index))) (\<lambda>budgets.
     and_then (pack_open x w pair index budgets) (\<lambda>(pack, budgets).
     and_then (open_packs x w pairs budgets) (\<lambda>(packs, budgets).
     Ok (pack # packs, budgets)))))))"

definition db_open :: "'z extern \<Rightarrow> world \<Rightarrow> string \<Rightarrow> (packed_db, acquisition_error) result" where
  "db_open x w git_dir =
     and_then (open_catalog w git_dir) (\<lambda>pairs.
     and_then (open_packs x w pairs empty_budgets) (\<lambda>(packs, budgets).
     Ok \<lparr>db_git_dir = git_dir, db_packs = packs, db_budgets = budgets, db_cache = [], db_cache_bytes = 0\<rparr>))"

fun verify_packs :: "world \<Rightarrow> validated_pack list \<Rightarrow> (unit, acquisition_error) result" where
  "verify_packs w [] = Ok ()"
| "verify_packs w (p # ps) =
     and_then (file_verify_unchanged w (pair_index (vp_pair p)) PC_Index) (\<lambda>_.
     and_then (file_verify_unchanged w (pair_pack (vp_pair p)) PC_Pack) (\<lambda>_.
     verify_packs w ps))"

definition db_verify_unchanged :: "world \<Rightarrow> packed_db \<Rightarrow> (unit, acquisition_error) result" where
  "db_verify_unchanged w db = verify_packs w (db_packs db)"

section \<open>Loose objects\<close>

text \<open>\<open>&oid.as_str()[..2]\<close> and \<open>[2..]\<close> joined to the objects directory.\<close>

definition loose_directory :: "string \<Rightarrow> object_id \<Rightarrow> string" where
  "loose_directory git_dir oid = path_join (path_join git_dir ''objects'') (take 2 (as_str oid))"

definition loose_object_path :: "string \<Rightarrow> object_id \<Rightarrow> string" where
  "loose_object_path git_dir oid = path_join (loose_directory git_dir oid) (drop 2 (as_str oid))"

definition loose_exists :: "world \<Rightarrow> packed_db \<Rightarrow> object_id \<Rightarrow> (bool, acquisition_error) result" where
  "loose_exists w db oid =
     (let bad = object_invalid oid OR_Oid; io = unavailable PC_Object in
      case symlink_metadata w (path_join (db_git_dir db) ''objects'') of
        Inl NotFound \<Rightarrow> Ok False
      | Inl OtherIo \<Rightarrow> Err io
      | Inr objects \<Rightarrow>
          if md_is_symlink objects \<or> \<not> md_is_dir objects then Err bad
          else
            (case symlink_metadata w (loose_directory (db_git_dir db) oid) of
               Inl NotFound \<Rightarrow> Ok False
             | Inl OtherIo \<Rightarrow> Err io
             | Inr directory \<Rightarrow>
                 if md_is_symlink directory \<or> \<not> md_is_dir directory then Err bad
                 else
                   (case symlink_metadata w (loose_object_path (db_git_dir db) oid) of
                      Inl NotFound \<Rightarrow> Ok False
                    | Inl OtherIo \<Rightarrow> Err io
                    | Inr m \<Rightarrow>
                        if md_is_symlink m \<or> \<not> md_is_file m \<or> md_len m > selected_loose_compressed_bytes
                        then Err bad else Ok True)))"

text \<open>
  Reading a decoder byte by byte up to the zero byte of the header. The stream is the decoded bytes
  and whether it then ends cleanly; a read past the end of an unclean stream is an I/O error.
\<close>

fun read_header :: "'e \<Rightarrow> 'e \<Rightarrow> bytes \<Rightarrow> bool \<Rightarrow> bytes \<Rightarrow> (bytes \<times> bytes, 'e) result" where
  "read_header io_error size_error [] clean header = Err (if clean then size_error else io_error)"
| "read_header io_error size_error (b # rest) clean header =
     (if b = 0 then Ok (header, rest)
      else if length header = 64 then Err size_error
      else read_header io_error size_error rest clean (header @ [b]))"

definition decoded_stream :: "'z extern \<Rightarrow> world \<Rightarrow> string \<Rightarrow> bytes \<times> bool" where
  "decoded_stream x w path =
     (case handle_content w path of None \<Rightarrow> ([], False) | Some c \<Rightarrow> ext_zlib x c)"

definition read_loose ::
  "'z extern \<Rightarrow> world \<Rightarrow> packed_db \<Rightarrow> object_id \<Rightarrow> requested_object_bounds \<Rightarrow>
   (resolved_object, acquisition_error) result"
where
  "read_loose x w db oid bounds =
     (let path = loose_object_path (db_git_dir db) oid; size_error = object_invalid oid OR_Size in
      and_then (fail_if (open_error w path \<noteq> None) (unavailable PC_Object)) (\<lambda>_.
      let (stream, clean) = decoded_stream x w path in
      and_then (read_header (object_invalid oid OR_Oid) size_error stream clean []) (\<lambda>(header, rest).
      and_then (ok_or size_error (parse_object_header header)) (\<lambda>(kind, body_size).
      and_then (bounds_check bounds kind body_size oid) (\<lambda>_.
      and_then (fail_if (body_size > limit_maximum DeltaIntermediateBytes)
                  (limit_exceeded DeltaIntermediateBytes body_size)) (\<lambda>_.
      and_then (fail_if (\<not> ext_try_reserve x body_size) (unavailable PC_Object)) (\<lambda>_.
      let body = take (saturating_add body_size 1) rest in
      and_then (fail_if (length rest < saturating_add body_size 1 \<and> \<not> clean) size_error) (\<lambda>_.
      and_then (fail_if (length body \<noteq> body_size) size_error) (\<lambda>_.
      and_then (ok_or (object_invalid oid OR_Sha1Collision) (ext_sha x (header @ [0] @ body))) (\<lambda>digest.
      if from_bytes digest \<noteq> oid then Err (object_invalid oid OR_Oid)
      else Ok \<lparr>ro_kind = kind, ro_body = body\<rparr>))))))))))"

section \<open>Locations\<close>

fun pack_locations :: "nat \<Rightarrow> validated_pack list \<Rightarrow> object_id \<Rightarrow> object_location list" where
  "pack_locations i [] oid = []"
| "pack_locations i (p # ps) oid =
     (case entry_for_oid p oid of
        None \<Rightarrow> pack_locations (i + 1) ps oid
      | Some entry \<Rightarrow> Pack i (pe_offset entry) # pack_locations (i + 1) ps oid)"

definition db_locations ::
  "world \<Rightarrow> packed_db \<Rightarrow> object_id \<Rightarrow> (object_location list, acquisition_error) result"
where
  "db_locations w db oid =
     and_then (loose_exists w db oid) (\<lambda>loose.
     let found = (if loose then [Loose] else []) @ pack_locations 0 (db_packs db) oid in
     if length found > limit_maximum ObjectLocations
     then Err (limit_exceeded ObjectLocations (length found)) else Ok found)"

section \<open>Verification and caching\<close>

definition check_delta_depth :: "nat \<Rightarrow> (unit, acquisition_error) result" where
  "check_delta_depth depth =
     (if depth > limit_maximum DeltaDepth then Err (limit_exceeded DeltaDepth depth) else Ok ())"

definition verify_object_hash ::
  "'z extern \<Rightarrow> bytes \<Rightarrow> bytes \<Rightarrow> object_id \<Rightarrow> (unit, acquisition_error) result" where
  "verify_object_hash x header body oid =
     and_then (ok_or (object_invalid oid OR_Sha1Collision) (ext_sha x (header @ body))) (\<lambda>digest.
     if from_bytes digest \<noteq> oid then Err (object_invalid oid OR_Oid) else Ok ())"

definition verify_oid ::
  "'z extern \<Rightarrow> resolved_object \<Rightarrow> object_id \<Rightarrow> (unit, acquisition_error) result" where
  "verify_oid x obj oid =
     verify_object_hash x (object_header (ro_kind obj) (length (ro_body obj))) (ro_body obj) oid"

definition cache_object ::
  "packed_db \<Rightarrow> object_id \<Rightarrow> resolved_object \<Rightarrow> (packed_db, acquisition_error) result" where
  "cache_object db oid obj =
     (if bt_get (db_cache db) oid \<noteq> None then Ok db
      else and_then (checked_charge ReconstructedObjectCacheBytes (db_cache_bytes db) (length (ro_body obj)))
             (\<lambda>used. Ok (db\<lparr>db_cache := bt_put oid obj (db_cache db), db_cache_bytes := used\<rparr>)))"

section \<open>Resolution\<close>

record resolve_state =
  rs_db :: packed_db
  rs_tasks :: "resolve_task list"
  rs_values :: "resolved_object list"
  rs_active :: "object_id set"

text \<open>
  The requested identifier, its bounds and the initial locations are fixed for a resolution. The task
  stack is a list with its top first; the values are in the order of the vector.
\<close>

record resolve_request =
  rq_oid :: object_id
  rq_bounds :: requested_object_bounds
  rq_locations :: "object_location list"

definition bounds_for :: "resolve_request \<Rightarrow> object_id \<Rightarrow> requested_object_bounds" where
  "bounds_for rq oid = (if oid = rq_oid rq then rq_bounds rq else default_bounds)"

definition delta_error :: "packed_delta_reason \<Rightarrow> delta_cause \<Rightarrow> acquisition_error" where
  "delta_error reason cause = invalid (Delta_invalid reason (dc_pack_id cause) (dc_object_oid cause))"

definition resolve_oid_task ::
  "world \<Rightarrow> resolve_request \<Rightarrow> object_id \<Rightarrow> nat \<Rightarrow> delta_cause option \<Rightarrow> resolve_state \<Rightarrow>
   (resolve_state, acquisition_error) result"
where
  "resolve_oid_task w rq oid depth cause s =
     (if oid \<in> rs_active s
      then and_then (expect cause) (\<lambda>c. Err (delta_error DR_Cycle c))
      else
        (case bt_get (db_cache (rs_db s)) oid of
           Some cached \<Rightarrow>
             and_then (if oid = rq_oid rq
                       then bounds_check (rq_bounds rq) (ro_kind cached) (length (ro_body cached)) oid
                       else Ok ())
               (\<lambda>_. Ok (s\<lparr>rs_values := rs_values s @ [cached]\<rparr>))
         | None \<Rightarrow>
             and_then (check_delta_depth depth) (\<lambda>_.
             and_then (if depth = 0 then Ok (rq_locations rq) else db_locations w (rs_db s) oid) (\<lambda>locations.
             if locations = [] then and_then (expect cause) (\<lambda>c. Err (delta_error DR_Base c))
             else Ok (s\<lparr>rs_active := insert oid (rs_active s),
                        rs_tasks := map (\<lambda>location. ResolveLocation oid location depth) locations
                          @ FinishOid oid (length locations) # rs_tasks s\<rparr>)))))"

definition finish_oid_task ::
  "object_id \<Rightarrow> nat \<Rightarrow> resolve_state \<Rightarrow> (resolve_state, acquisition_error) result" where
  "finish_oid_task oid n s =
     and_then (expect (checked_sub (length (rs_values s)) n)) (\<lambda>start.
     let candidates = drop start (rs_values s) in
     (case candidates of
        [] \<Rightarrow> Panic
      | first # others \<Rightarrow>
          if list_ex (\<lambda>candidate. ro_kind candidate \<noteq> ro_kind first \<or> ro_body candidate \<noteq> ro_body first) others
          then Err (object_invalid oid OR_DuplicateConflict)
          else and_then (cache_object (rs_db s) oid first)
                 (\<lambda>db. Ok (s\<lparr>rs_db := db, rs_values := take start (rs_values s) @ [first],
                            rs_active := rs_active s - {oid}\<rparr>))))"

definition push_delta ::
  "'z extern \<Rightarrow> world \<Rightarrow> resolve_request \<Rightarrow> object_id \<Rightarrow> nat \<Rightarrow> validated_pack \<Rightarrow> pack_entry \<Rightarrow> object_id \<Rightarrow> nat \<Rightarrow>
   resolve_state \<Rightarrow> (resolve_state, acquisition_error) result"
where
  "push_delta x w rq oid pack p entry base_oid depth s =
     and_then (inflate_entry x w p entry (db_budgets (rs_db s))) (\<lambda>(program, budgets).
     Ok (s\<lparr>rs_db := (rs_db s)\<lparr>db_budgets := budgets\<rparr>,
           rs_tasks := ResolveOid base_oid (saturating_add depth 1)
               (Some \<lparr>dc_pack_id = pair_id (vp_pair p), dc_object_oid = oid\<rparr>)
             # ApplyDelta oid pack entry program (bounds_for rq oid) # rs_tasks s\<rparr>))"

definition resolve_location_task ::
  "'z extern \<Rightarrow> world \<Rightarrow> resolve_request \<Rightarrow> object_id \<Rightarrow> object_location \<Rightarrow> nat \<Rightarrow> resolve_state \<Rightarrow>
   (resolve_state, acquisition_error) result"
where
  "resolve_location_task x w rq oid location depth s =
     (case location of
        Loose \<Rightarrow>
          and_then (read_loose x w (rs_db s) oid (bounds_for rq oid))
            (\<lambda>obj. Ok (s\<lparr>rs_values := rs_values s @ [obj]\<rparr>))
      | Pack pack offset \<Rightarrow>
          and_then (expect (get_at pack (db_packs (rs_db s)))) (\<lambda>p.
          and_then (expect (entry_at_offset p offset)) (\<lambda>entry.
          (case pe_kind entry of
             Base kind \<Rightarrow>
               and_then (if oid = rq_oid rq
                         then bounds_check (rq_bounds rq) kind (pe_declared_size entry) oid else Ok ()) (\<lambda>_.
               and_then (inflate_entry x w p entry (db_budgets (rs_db s))) (\<lambda>(body, budgets).
               let obj = \<lparr>ro_kind = kind, ro_body = body\<rparr> in
               and_then (verify_oid x obj oid) (\<lambda>_.
               Ok (s\<lparr>rs_db := (rs_db s)\<lparr>db_budgets := budgets\<rparr>, rs_values := rs_values s @ [obj]\<rparr>))))
           | OfsDelta base_offset \<Rightarrow>
               (case entry_at_offset p base_offset of
                  None \<Rightarrow> Err (invalid (Delta_invalid DR_Base (pair_id (vp_pair p)) oid))
                | Some base \<Rightarrow> push_delta x w rq oid pack p entry (pe_oid base) depth s)
           | RefDelta base_oid \<Rightarrow> push_delta x w rq oid pack p entry base_oid depth s))))"

definition apply_delta_task ::
  "'z extern \<Rightarrow> object_id \<Rightarrow> nat \<Rightarrow> pack_entry \<Rightarrow> bytes \<Rightarrow> requested_object_bounds \<Rightarrow> resolve_state \<Rightarrow>
   (resolve_state, acquisition_error) result"
where
  "apply_delta_task x oid pack entry program bounds s =
     and_then (expect (if rs_values s = [] then None else Some (last (rs_values s)))) (\<lambda>base.
     and_then (expect (get_at pack (db_packs (rs_db s)))) (\<lambda>p.
     and_then (apply_delta (ext_try_reserve x) (ro_body base) program (ro_kind base) (pair_id (vp_pair p))
                 (pe_oid entry) (db_budgets (rs_db s)) bounds) (\<lambda>(body, budgets).
     let obj = \<lparr>ro_kind = ro_kind base, ro_body = body\<rparr> in
     and_then (verify_oid x obj oid) (\<lambda>_.
     Ok (s\<lparr>rs_db := (rs_db s)\<lparr>db_budgets := budgets\<rparr>, rs_values := butlast (rs_values s) @ [obj]\<rparr>)))))"

text \<open>One iteration of the loop: the popped task runs on the state without it.\<close>

definition run_task ::
  "'z extern \<Rightarrow> world \<Rightarrow> resolve_request \<Rightarrow> resolve_task \<Rightarrow> resolve_state \<Rightarrow> (resolve_state, acquisition_error) result"
where
  "run_task x w rq task s =
     (case task of
        ResolveOid oid depth cause \<Rightarrow> resolve_oid_task w rq oid depth cause s
      | FinishOid oid n \<Rightarrow> finish_oid_task oid n s
      | ResolveLocation oid location depth \<Rightarrow> resolve_location_task x w rq oid location depth s
      | ApplyDelta oid pack entry program bounds \<Rightarrow> apply_delta_task x oid pack entry program bounds s)"

text \<open>
  Every task has a weight that bounds the work it can still cause: an identifier expands to at most
  \<open>k\<close> locations, a location to one deeper identifier, and identifiers past the depth limit to nothing.
\<close>

fun oid_weight :: "nat \<Rightarrow> nat \<Rightarrow> nat" where
  "oid_weight k 0 = 1"
| "oid_weight k (Suc n) = 3 + k * (3 + oid_weight k n)"

fun task_weight :: "nat \<Rightarrow> resolve_task \<Rightarrow> nat" where
  "task_weight k (ResolveOid oid depth cause) = oid_weight k (51 - depth)"
| "task_weight k (FinishOid oid n) = 1"
| "task_weight k (ResolveLocation oid location depth) = 2 + oid_weight k (50 - depth)"
| "task_weight k (ApplyDelta oid pack entry program bounds) = 1"

definition fanout_bound :: "resolve_request \<Rightarrow> nat" where
  "fanout_bound rq = max (limit_maximum ObjectLocations) (length (rq_locations rq))"

definition tasks_weight :: "resolve_request \<Rightarrow> resolve_task list \<Rightarrow> nat" where
  "tasks_weight rq ts = (\<Sum>t\<leftarrow>ts. task_weight (fanout_bound rq) t)"

lemma tasks_weight_simps [simp]:
  "tasks_weight rq [] = 0"
  "tasks_weight rq (t # ts) = task_weight (fanout_bound rq) t + tasks_weight rq ts"
  "tasks_weight rq (ts @ us) = tasks_weight rq ts + tasks_weight rq us"
  by (simp_all add: tasks_weight_def)

lemma oid_weight_pos: "0 < oid_weight k n"
  by (cases n) auto

lemma db_locations_few: "db_locations w db oid = Ok ls \<Longrightarrow> length ls \<le> limit_maximum ObjectLocations"
  by (auto simp: db_locations_def result_iffs Let_def not_less split: if_splits)

lemma saturating_depth: "51 - saturating_add d 1 = 50 - d"
  by (auto simp: saturating_add_def min_def u64_max_def)

text \<open>What each task does when it succeeds.\<close>

lemma resolve_oid_cases:
  assumes "resolve_oid_task w rq oid depth cause s = Ok s'"
  obtains (cached) obj where "bt_get (db_cache (rs_db s)) oid = Some obj"
      "oid = rq_oid rq \<Longrightarrow> bounds_check (rq_bounds rq) (ro_kind obj) (length (ro_body obj)) oid = Ok ()"
      "s' = s\<lparr>rs_values := rs_values s @ [obj]\<rparr>"
  | (expand) ls where "oid \<notin> rs_active s" "depth \<le> 50" "ls \<noteq> []"
      "if depth = 0 then ls = rq_locations rq else db_locations w (rs_db s) oid = Ok ls"
      "s' = s\<lparr>rs_active := insert oid (rs_active s),
         rs_tasks := map (\<lambda>location. ResolveLocation oid location depth) ls
           @ FinishOid oid (length ls) # rs_tasks s\<rparr>"
proof (cases "bt_get (db_cache (rs_db s)) oid")
  case (Some obj)
  with assms show ?thesis
    by (intro cached [of obj]) (auto simp: resolve_oid_task_def result_iffs split: if_splits)
next
  case None
  with assms obtain ls where
    "oid \<notin> rs_active s" "check_delta_depth depth = Ok ()" "ls \<noteq> []"
    "(if depth = 0 then Ok (rq_locations rq) else db_locations w (rs_db s) oid) = Ok ls"
    "s' = s\<lparr>rs_active := insert oid (rs_active s),
         rs_tasks := map (\<lambda>location. ResolveLocation oid location depth) ls
           @ FinishOid oid (length ls) # rs_tasks s\<rparr>"
    by (auto simp: resolve_oid_task_def result_iffs split: if_splits)
  then show ?thesis
    by (intro expand [of ls]) (auto simp: check_delta_depth_def split: if_splits)
qed

lemma finish_oid_cases:
  assumes "finish_oid_task oid n s = Ok s'"
  obtains first others db where "n \<le> length (rs_values s)"
    "drop (length (rs_values s) - n) (rs_values s) = first # others"
    "\<forall>c \<in> set others. ro_kind c = ro_kind first \<and> ro_body c = ro_body first"
    "cache_object (rs_db s) oid first = Ok db"
    "s' = s\<lparr>rs_db := db, rs_values := take (length (rs_values s) - n) (rs_values s) @ [first],
       rs_active := rs_active s - {oid}\<rparr>"
  using assms
  by (auto simp: finish_oid_task_def Let_def result_iffs list_ex_iff split: list.splits if_splits)

lemma push_delta_cases:
  assumes "push_delta x w rq oid pack p entry base_oid depth s = Ok s'"
  obtains program budgets where "inflate_entry x w p entry (db_budgets (rs_db s)) = Ok (program, budgets)"
    "s' = s\<lparr>rs_db := (rs_db s)\<lparr>db_budgets := budgets\<rparr>,
       rs_tasks := ResolveOid base_oid (saturating_add depth 1)
           (Some \<lparr>dc_pack_id = pair_id (vp_pair p), dc_object_oid = oid\<rparr>)
         # ApplyDelta oid pack entry program (bounds_for rq oid) # rs_tasks s\<rparr>"
  using assms by (auto simp: push_delta_def result_iffs)

lemma resolve_location_cases:
  assumes "resolve_location_task x w rq oid location depth s = Ok s'"
  obtains (loose) obj where "location = Loose" "read_loose x w (rs_db s) oid (bounds_for rq oid) = Ok obj"
      "s' = s\<lparr>rs_values := rs_values s @ [obj]\<rparr>"
  | (base) pack offset p entry kind body budgets where "location = Pack pack offset"
      "get_at pack (db_packs (rs_db s)) = Some p" "entry_at_offset p offset = Some entry"
      "pe_kind entry = Base kind"
      "oid = rq_oid rq \<Longrightarrow> bounds_check (rq_bounds rq) kind (pe_declared_size entry) oid = Ok ()"
      "inflate_entry x w p entry (db_budgets (rs_db s)) = Ok (body, budgets)"
      "verify_oid x \<lparr>ro_kind = kind, ro_body = body\<rparr> oid = Ok ()"
      "s' = s\<lparr>rs_db := (rs_db s)\<lparr>db_budgets := budgets\<rparr>,
         rs_values := rs_values s @ [\<lparr>ro_kind = kind, ro_body = body\<rparr>]\<rparr>"
  | (delta) pack offset p entry base_oid where "location = Pack pack offset"
      "get_at pack (db_packs (rs_db s)) = Some p" "entry_at_offset p offset = Some entry"
      "is_delta_kind (pe_kind entry)" "push_delta x w rq oid pack p entry base_oid depth s = Ok s'"
proof (cases location)
  case Loose
  with assms show ?thesis
    by (auto simp: resolve_location_task_def result_iffs intro: loose)
next
  case (Pack pack offset)
  with assms obtain p entry where p: "get_at pack (db_packs (rs_db s)) = Some p"
    and e: "entry_at_offset p offset = Some entry"
    by (auto simp: resolve_location_task_def result_iffs)
  show ?thesis
  proof (cases "pe_kind entry")
    case (Base kind)
    show ?thesis
      using assms Pack p e Base
      by (auto simp: resolve_location_task_def result_iffs Let_def split: if_splits intro: base)
  next
    case (OfsDelta b)
    with assms Pack p e obtain f :: pack_entry where "push_delta x w rq oid pack p entry (pe_oid f) depth s = Ok s'"
      by (auto simp: resolve_location_task_def result_iffs split: option.splits)
    with Pack p e OfsDelta show ?thesis by (intro delta) (auto simp: is_delta_kind_def)
  next
    case (RefDelta b)
    with assms Pack p e have "push_delta x w rq oid pack p entry b depth s = Ok s'"
      by (auto simp: resolve_location_task_def result_iffs)
    with Pack p e RefDelta show ?thesis by (intro delta) (auto simp: is_delta_kind_def)
  qed
qed

lemma apply_delta_cases:
  assumes "apply_delta_task x oid pack entry program bounds s = Ok s'"
  obtains base p body budgets where "rs_values s \<noteq> []" "base = last (rs_values s)"
    "get_at pack (db_packs (rs_db s)) = Some p"
    "apply_delta (ext_try_reserve x) (ro_body base) program (ro_kind base) (pair_id (vp_pair p))
       (pe_oid entry) (db_budgets (rs_db s)) bounds = Ok (body, budgets)"
    "verify_oid x \<lparr>ro_kind = ro_kind base, ro_body = body\<rparr> oid = Ok ()"
    "s' = s\<lparr>rs_db := (rs_db s)\<lparr>db_budgets := budgets\<rparr>,
       rs_values := butlast (rs_values s) @ [\<lparr>ro_kind = ro_kind base, ro_body = body\<rparr>]\<rparr>"
  using assms by (auto simp: apply_delta_task_def result_iffs Let_def split: if_splits)

lemma resolve_oid_weight:
  assumes "resolve_oid_task w rq oid depth cause s = Ok s'"
  shows "tasks_weight rq (rs_tasks s') < oid_weight (fanout_bound rq) (51 - depth) + tasks_weight rq (rs_tasks s)"
  using assms
proof (cases rule: resolve_oid_cases)
  case (cached obj)
  then show ?thesis by (simp add: oid_weight_pos)
next
  case (expand ls)
  let ?k = "fanout_bound rq" and ?o = "oid_weight (fanout_bound rq) (50 - depth)"
  have "length ls \<le> ?k"
    using expand(4) db_locations_few [of w "rs_db s" oid ls] by (auto simp: fanout_bound_def split: if_splits)
  then have "length ls * (2 + ?o) \<le> ?k * (3 + ?o)" by (intro mult_le_mono) auto
  moreover have "tasks_weight rq (map (\<lambda>l. ResolveLocation oid l depth) ls) = length ls * (2 + ?o)"
    by (induction ls) (simp_all add: tasks_weight_def)
  moreover have "oid_weight ?k (51 - depth) = 3 + ?k * (3 + ?o)"
    using expand(2) by (simp add: Suc_diff_le [of depth 50, simplified])
  ultimately show ?thesis by (simp add: expand(5))
qed

lemma run_task_weight:
  "run_task x w rq t s = Ok s' \<Longrightarrow>
   tasks_weight rq (rs_tasks s') < task_weight (fanout_bound rq) t + tasks_weight rq (rs_tasks s)"
  by (cases t)
    (auto simp: run_task_def resolve_oid_weight saturating_depth [unfolded One_nat_def]
      elim!: finish_oid_cases resolve_location_cases apply_delta_cases push_delta_cases)

function resolve_loop ::
  "'z extern \<Rightarrow> world \<Rightarrow> resolve_request \<Rightarrow> resolve_state \<Rightarrow> (resolve_state, acquisition_error) result"
where
  "resolve_loop x w rq s =
     (case rs_tasks s of
        [] \<Rightarrow> Ok s
      | task # tasks \<Rightarrow>
          and_then (run_task x w rq task (s\<lparr>rs_tasks := tasks\<rparr>)) (\<lambda>s'. resolve_loop x w rq s'))"
  by pat_completeness auto
termination
  by (relation "measure (\<lambda>(x, w, rq, s). tasks_weight rq (rs_tasks s))")
    (auto dest: run_task_weight)

declare resolve_loop.simps [simp del]

definition resolve ::
  "'z extern \<Rightarrow> world \<Rightarrow> packed_db \<Rightarrow> object_id \<Rightarrow> object_location list \<Rightarrow> requested_object_bounds \<Rightarrow>
   (resolved_object \<times> packed_db, acquisition_error) result"
where
  "resolve x w db oid locations bounds =
     and_then (resolve_loop x w \<lparr>rq_oid = oid, rq_bounds = bounds, rq_locations = locations\<rparr>
                 \<lparr>rs_db = db, rs_tasks = [ResolveOid oid 0 None], rs_values = [], rs_active = {}\<rparr>) (\<lambda>s.
     if rs_values s = [] then Err (unavailable PC_Object) else Ok (last (rs_values s), rs_db s))"

section \<open>Reading an object\<close>

definition default_capture :: "git_object_kind \<Rightarrow> nat" where
  "default_capture kind = (case kind of Commit \<Rightarrow> 64 | Blob \<Rightarrow> 64 | Tree \<Rightarrow> 512 | Tag \<Rightarrow> 0)"

definition db_read_object ::
  "'z extern \<Rightarrow> world \<Rightarrow> packed_db \<Rightarrow> object_id \<Rightarrow> nat option \<Rightarrow> declared_body_limit option \<Rightarrow> nat option \<Rightarrow>
   (git_object option \<times> packed_db, acquisition_error) result"
where
  "db_read_object x w db oid capture_limit declared_body_limit body_ceiling =
     (let bounds = \<lparr>rob_declared_body_limit = declared_body_limit, rob_body_ceiling = body_ceiling\<rparr> in
      and_then (db_locations w db oid) (\<lambda>locations.
      if locations = [] then Ok (None, db)
      else
        and_then (resolve x w db oid locations bounds) (\<lambda>(obj, db').
        let capture = min (case capture_limit of None \<Rightarrow> default_capture (ro_kind obj) | Some n \<Rightarrow> n)
                        (length (ro_body obj)) in
        Ok (Some \<lparr>go_kind = ro_kind obj, go_body_prefix = take capture (ro_body obj),
                  go_body_size = length (ro_body obj)\<rparr>, db'))))"

section \<open>Integrity\<close>

text \<open>An object hashes to an identifier under some header that declares its kind and size.\<close>

definition object_hashes :: "'z extern \<Rightarrow> object_id \<Rightarrow> resolved_object \<Rightarrow> bool" where
  "object_hashes x oid obj \<longleftrightarrow>
     (\<exists>header digest. parse_object_header header = Some (ro_kind obj, length (ro_body obj)) \<and>
        ext_sha x (header @ [0] @ ro_body obj) = Some digest \<and> from_bytes digest = oid)"

lemma verify_oid_hashes:
  assumes "verify_oid x obj oid = Ok u" and "length (ro_body obj) \<le> u64_max"
  shows "object_hashes x oid obj"
proof -
  let ?h = "as_bytes (kind_name (ro_kind obj) @ '' '' @ show_nat (length (ro_body obj)))"
  from assms(1) obtain d where "ext_sha x (object_header (ro_kind obj) (length (ro_body obj)) @ ro_body obj) = Some d"
    and "from_bytes d = oid"
    by (auto simp: verify_oid_def verify_object_hash_def result_iffs split: if_splits)
  then have "ext_sha x (?h @ [0] @ ro_body obj) = Some d" "from_bytes d = oid"
    by (simp_all add: object_header_def)
  with parse_object_header_show [OF assms(2)] show ?thesis unfolding object_hashes_def by blast
qed

text \<open>Outcomes of the parts.\<close>

definition resolve_error :: "acquisition_error \<Rightarrow> bool" where
  "resolve_error e \<longleftrightarrow> is_limit e \<or> (\<exists>f. e = UnsupportedRepositoryShape f)"

lemma resolve_errorI [simp, intro]:
  "is_limit e \<Longrightarrow> resolve_error e" "resolve_error (invalid i)" "resolve_error (unavailable c)"
  "resolve_error (changed c)" "resolve_error (object_invalid oid r)" "resolve_error (delta_error r' d)"
  "resolve_error (delta_invalid p oid r')" "resolve_error (UnsupportedRepositoryShape f)"
  by (auto simp: resolve_error_def packed_error_defs object_invalid_def delta_error_def delta_invalid_def)

lemma pack_error_resolve: "pack_error p e \<Longrightarrow> resolve_error e"
  by (auto simp: pack_error_def pack_invalid_def entry_error_def index_offset_invalid_def)

lemma bounds_check_outcome: "fails_only resolve_error (bounds_check b k n oid)"
  by (rule fails_onlyI) (auto dest: bounds_check_Err)

lemma apply_delta_outcome: "fails_only resolve_error (apply_delta tr base program k p oid b bounds)"
  by (rule fails_onlyI)
    (auto simp: apply_delta_def Let_def result_iffs object_invalid_def
      split: prod.splits dest: apply_loop_Err bounds_check_Err charge_Err_is_limit)

lemma inflate_entry_resolve: "fails_only resolve_error (inflate_entry x w p e b)"
  by (rule fails_only_mono [OF inflate_entry_outcome]) (rule pack_error_resolve)

lemma verify_oid_outcome: "fails_only resolve_error (verify_oid x obj oid)"
  unfolding verify_oid_def verify_object_hash_def
  by (intro outcome_intros) (auto simp: fails_only_ok_or)

lemma read_header_outcome: "P io \<Longrightarrow> P sz \<Longrightarrow> fails_only P (read_header io sz stream clean header)"
  by (induction io sz stream clean header rule: read_header.induct) auto

lemma read_header_Ok: "read_header io sz stream clean header = Ok (h, rest) \<Longrightarrow> \<exists>p. h = header @ p \<and> stream = p @ 0 # rest"
proof (induction io sz stream clean header rule: read_header.induct)
  case (2 io sz b stream clean header)
  then show ?case by (cases "b = 0"; cases "length header = 64") auto
qed simp

lemma read_loose_outcome: "fails_only resolve_error (read_loose x w db oid bounds)"
  unfolding read_loose_def Let_def
  by (intro outcome_intros bounds_check_outcome read_header_outcome)
    (auto simp: fails_only_fail_if fails_only_ok_or)

lemma read_loose_Ok:
  assumes "read_loose x w db oid bounds = Ok obj"
  shows "object_hashes x oid obj" "bounds_check bounds (ro_kind obj) (length (ro_body obj)) oid = Ok ()"
proof -
  from assms obtain stream clean header rest kind n digest where
    "parse_object_header header = Some (kind, n)" "bounds_check bounds kind n oid = Ok ()"
    "length (take (saturating_add n 1) rest) = n"
    "ext_sha x (header @ [0] @ take (saturating_add n 1) rest) = Some digest" "from_bytes digest = oid"
    "obj = \<lparr>ro_kind = kind, ro_body = take (saturating_add n 1) rest\<rparr>"
    by (auto simp: read_loose_def Let_def result_iffs split: prod.splits if_splits)
  then show "object_hashes x oid obj" "bounds_check bounds (ro_kind obj) (length (ro_body obj)) oid = Ok ()"
    by (auto simp: object_hashes_def)
qed

lemma loose_exists_outcome: "fails_only resolve_error (loose_exists w db oid)"
  by (simp add: loose_exists_def Let_def split: sum.splits io_error.splits)

lemma db_locations_outcome: "fails_only resolve_error (db_locations w db oid)"
  unfolding db_locations_def Let_def
  by (intro outcome_intros loose_exists_outcome) auto

lemma apply_delta_facts:
  "apply_delta tr base program k p oid b bounds = Ok (r, b') \<Longrightarrow>
   bounds_check bounds k (length r) oid = Ok () \<and> length r \<le> limit_maximum DeltaIntermediateBytes \<and>
   charge_delta_work b (length r) = Ok b'"
  by (auto simp: apply_delta_def Let_def result_iffs not_less split: prod.splits)

section \<open>The database invariant\<close>

definition cache_ok :: "'z extern \<Rightarrow> packed_db \<Rightarrow> bool" where
  "cache_ok x db \<longleftrightarrow>
     bt_wf (db_cache db) \<and>
     (\<forall>oid obj. bt_get (db_cache db) oid = Some obj \<longrightarrow> object_hashes x oid obj) \<and>
     db_cache_bytes db = (\<Sum>(oid, obj)\<leftarrow>db_cache db. length (ro_body obj)) \<and>
     db_cache_bytes db \<le> limit_maximum ReconstructedObjectCacheBytes"

definition db_ok :: "'z extern \<Rightarrow> packed_db \<Rightarrow> bool" where
  "db_ok x db \<longleftrightarrow> (\<forall>p \<in> set (db_packs db). pack_wf p) \<and> budgets_ok (db_budgets db) \<and> cache_ok x db"

lemma bt_put_sum:
  "bt_get m k = None \<Longrightarrow> (\<Sum>(k, v)\<leftarrow>bt_put k v m. f v) = (f v :: nat) + (\<Sum>(k, v)\<leftarrow>m. f v)"
  by (induction k v m rule: bt_put.induct) auto

lemma cache_object_ok:
  assumes "cache_object db oid obj = Ok db'" "db_ok x db" "object_hashes x oid obj"
  shows "db_ok x db'" "db_packs db' = db_packs db" "db_git_dir db' = db_git_dir db"
  using assms
  by (auto simp: cache_object_def db_ok_def cache_ok_def result_iffs checked_charge_Ok bt_wf_put bt_get_put
      bt_put_sum split: if_splits)

lemma db_ok_budgets:
  "db_ok x db \<Longrightarrow> budgets_ok b \<Longrightarrow> db_ok x (db\<lparr>db_budgets := b\<rparr>)"
  by (simp add: db_ok_def cache_ok_def)

definition location_ok :: "validated_pack list \<Rightarrow> object_location \<Rightarrow> bool" where
  "location_ok ps l = (case l of Loose \<Rightarrow> True
     | Pack i off \<Rightarrow> i < length ps \<and> entry_at_offset (ps ! i) off \<noteq> None)"

lemma pack_locations_ok:
  "\<forall>p \<in> set ps. pack_wf p \<Longrightarrow> l \<in> set (pack_locations i ps oid) \<Longrightarrow>
   \<exists>j off. l = Pack (i + j) off \<and> j < length ps \<and> entry_at_offset (ps ! j) off \<noteq> None"
proof (induction ps arbitrary: i)
  case (Cons p ps)
  show ?case
  proof (cases "\<exists>e. entry_for_oid p oid = Some e \<and> l = Pack i (pe_offset e)")
    case True
    then obtain e where "entry_for_oid p oid = Some e" "l = Pack i (pe_offset e)" by blast
    moreover have "pack_wf p" using Cons.prems(1) by simp
    ultimately have "l = Pack (i + 0) (pe_offset e) \<and> 0 < length (p # ps) \<and>
        entry_at_offset ((p # ps) ! 0) (pe_offset e) \<noteq> None"
      using packed.by_oid_then_by_offset [of p oid e] by simp
    then show ?thesis by blast
  next
    case False
    with Cons.prems(2) have "l \<in> set (pack_locations (i + 1) ps oid)" by (auto split: option.splits)
    from Cons.IH [OF _ this] Cons.prems(1) obtain j off where
      "l = Pack (i + 1 + j) off" "j < length ps" "entry_at_offset (ps ! j) off \<noteq> None" by auto
    then have "l = Pack (i + Suc j) off \<and> Suc j < length (p # ps) \<and>
        entry_at_offset ((p # ps) ! Suc j) off \<noteq> None" by simp
    then show ?thesis by blast
  qed
qed simp

lemma db_locations_ok:
  assumes "db_ok x db" "db_locations w db oid = Ok ls" "l \<in> set ls"
  shows "location_ok (db_packs db) l"
  using assms pack_locations_ok [of "db_packs db" l 0 oid]
  by (auto simp: db_ok_def db_locations_def Let_def result_iffs location_ok_def split: if_splits)

section \<open>Typing the task stack\<close>

text \<open>
  A stack is typed by the identifiers of the values it finds: resolving an identifier or a location
  leaves one value of that identifier, finishing replaces the values of its locations by one, and
  applying a delta replaces the base.
\<close>

fun stack_ok :: "validated_pack list \<Rightarrow> resolve_request \<Rightarrow> object_id list \<Rightarrow> resolve_task list \<Rightarrow> bool" where
  "stack_ok ps rq vs [] \<longleftrightarrow> vs = [rq_oid rq]"
| "stack_ok ps rq vs (ResolveOid oid depth cause # ts) \<longleftrightarrow> stack_ok ps rq (oid # vs) ts"
| "stack_ok ps rq vs (FinishOid oid n # ts) \<longleftrightarrow>
     0 < n \<and> n \<le> length vs \<and> take n vs = replicate n oid \<and> stack_ok ps rq (oid # drop n vs) ts"
| "stack_ok ps rq vs (ResolveLocation oid location depth # ts) \<longleftrightarrow>
     location_ok ps location \<and> stack_ok ps rq (oid # vs) ts"
| "stack_ok ps rq vs (ApplyDelta oid pack entry program bounds # ts) \<longleftrightarrow>
     bounds = bounds_for rq oid \<and> pack < length ps \<and> vs \<noteq> [] \<and> stack_ok ps rq (oid # tl vs) ts"

definition value_ok :: "'z extern \<Rightarrow> resolve_request \<Rightarrow> resolved_object \<Rightarrow> object_id \<Rightarrow> bool" where
  "value_ok x rq obj oid \<longleftrightarrow>
     object_hashes x oid obj \<and>
     bounds_check (bounds_for rq oid) (ro_kind obj) (length (ro_body obj)) oid = Ok ()"

fun has_cause :: "resolve_task \<Rightarrow> bool" where
  "has_cause (ResolveOid oid depth cause) \<longleftrightarrow> cause \<noteq> None"
| "has_cause _ \<longleftrightarrow> True"

definition request_ok :: "validated_pack list \<Rightarrow> resolve_request \<Rightarrow> bool" where
  "request_ok ps rq \<longleftrightarrow> rq_locations rq \<noteq> [] \<and> (\<forall>l \<in> set (rq_locations rq). location_ok ps l)"

definition resolve_inv :: "'z extern \<Rightarrow> resolve_request \<Rightarrow> resolve_state \<Rightarrow> bool" where
  "resolve_inv x rq s \<longleftrightarrow>
     db_ok x (rs_db s) \<and> request_ok (db_packs (rs_db s)) rq \<and>
     (\<exists>vs. list_all2 (value_ok x rq) (rev (rs_values s)) vs \<and>
        stack_ok (db_packs (rs_db s)) rq vs (rs_tasks s)) \<and>
     (rs_tasks s = [ResolveOid (rq_oid rq) 0 None] \<and> rs_active s = {} \<or>
      (\<forall>t \<in> set (rs_tasks s). has_cause t))"

lemma resolve_invI:
  assumes "db_ok x (rs_db s)" "request_ok (db_packs (rs_db s)) rq"
    and "list_all2 (value_ok x rq) (rev (rs_values s)) vs"
    and "stack_ok (db_packs (rs_db s)) rq vs (rs_tasks s)" "\<forall>t \<in> set (rs_tasks s). has_cause t"
  shows "resolve_inv x rq s"
  using assms unfolding resolve_inv_def by blast

lemma stack_ok_locations:
  "\<forall>l \<in> set ls. location_ok ps l \<Longrightarrow>
   stack_ok ps rq vs (map (\<lambda>l. ResolveLocation oid l depth) ls @ ts) \<longleftrightarrow>
     stack_ok ps rq (replicate (length ls) oid @ vs) ts"
proof (induction ls arbitrary: vs)
  case (Cons l ls)
  then show ?case by (simp add: replicate_append_same [symmetric])
qed simp

lemma value_ok_loose: "read_loose x w db oid (bounds_for rq oid) = Ok obj \<Longrightarrow> value_ok x rq obj oid"
  using read_loose_Ok by (auto simp: value_ok_def)

lemma limit_le_u64: "n \<le> limit_maximum l \<Longrightarrow> n \<le> u64_max"
  using limit_maximum_le_u64 [of l] by linarith

lemma value_ok_base:
  assumes "inflate_entry x w p entry b = Ok (body, b')" "pe_kind entry = Base kind"
    and "verify_oid x \<lparr>ro_kind = kind, ro_body = body\<rparr> oid = Ok ()"
    and "oid = rq_oid rq \<Longrightarrow> bounds_check (rq_bounds rq) kind (pe_declared_size entry) oid = Ok ()"
  shows "value_ok x rq \<lparr>ro_kind = kind, ro_body = body\<rparr> oid"
proof -
  have len: "length body = pe_declared_size entry" using inflate_entry_Ok [OF assms(1)] by simp
  have "pe_declared_size entry \<le> limit_maximum (entry_size_limit (pe_kind entry))"
    using assms(1) by (auto simp: inflate_entry_def Let_def result_iffs)
  with verify_oid_hashes [OF assms(3)] len have "object_hashes x oid \<lparr>ro_kind = kind, ro_body = body\<rparr>"
    using limit_le_u64 by simp
  with assms(4) len show ?thesis by (simp add: value_ok_def bounds_for_def)
qed

lemma value_ok_delta:
  assumes "apply_delta tr base program kind p eoid b (bounds_for rq oid) = Ok (body, b')"
    and "verify_oid x \<lparr>ro_kind = kind, ro_body = body\<rparr> oid = Ok ()"
  shows "value_ok x rq \<lparr>ro_kind = kind, ro_body = body\<rparr> oid"
proof -
  note facts = apply_delta_facts [OF assms(1)]
  then have "length body \<le> u64_max" using limit_le_u64 [of "length body" DeltaIntermediateBytes] by blast
  then have "object_hashes x oid \<lparr>ro_kind = kind, ro_body = body\<rparr>"
    using verify_oid_hashes [OF assms(2)] by simp
  with facts show ?thesis by (auto simp: value_ok_def bounds_check_Ok_iff)
qed

lemma value_ok_default: "object_hashes x oid obj \<Longrightarrow>
   (oid = rq_oid rq \<Longrightarrow> bounds_check (rq_bounds rq) (ro_kind obj) (length (ro_body obj)) oid = Ok ()) \<Longrightarrow>
   value_ok x rq obj oid"
  by (simp add: value_ok_def bounds_for_def)

lemma stack_ok_values:
  assumes "list_all2 (value_ok x rq) (rev vals) vs" "vs \<noteq> []"
  shows "vals \<noteq> []" "value_ok x rq (last vals) (hd vs)" "list_all2 (value_ok x rq) (rev (butlast vals)) (tl vs)"
proof -
  from assms obtain v vs' where vs: "vs = v # vs'" by (cases vs) auto
  with assms(1) show ne: "vals \<noteq> []" by auto
  then have "rev vals = last vals # rev (butlast vals)" by (metis append_butlast_last_id rev_eq_Cons_iff rev_rev_ident)
  with assms(1) show "value_ok x rq (last vals) (hd vs)" "list_all2 (value_ok x rq) (rev (butlast vals)) (tl vs)"
    by (simp_all add: vs)
qed

text \<open>The initial task is consumed by its first step; every later task has a cause.\<close>

lemma inv_has_cause:
  assumes "resolve_inv x rq s" "rs_tasks s = t # ts"
  shows "\<forall>t \<in> set ts. has_cause t"
  using assms by (auto simp: resolve_inv_def)

lemma resolve_oid_task_inv:
  assumes inv: "resolve_inv x rq s" and t: "rs_tasks s = ResolveOid oid depth cause # ts"
    and r: "resolve_oid_task w rq oid depth cause (s\<lparr>rs_tasks := ts\<rparr>) = Ok s'"
  shows "resolve_inv x rq s'"
proof -
  from inv t obtain vs where ok: "db_ok x (rs_db s)" "request_ok (db_packs (rs_db s)) rq"
    and vs: "list_all2 (value_ok x rq) (rev (rs_values s)) vs"
    and st: "stack_ok (db_packs (rs_db s)) rq (oid # vs) ts" by (auto simp: resolve_inv_def)
  note cause = inv_has_cause [OF inv t]
  from r show ?thesis
  proof (cases rule: resolve_oid_cases)
    case (cached obj)
    have "value_ok x rq obj oid"
      using cached ok(1) by (intro value_ok_default) (auto simp: db_ok_def cache_ok_def)
    with vs st ok cause show ?thesis unfolding cached(3) by (intro resolve_invI [where vs = "oid # vs"]) simp_all
  next
    case (expand ls)
    have "\<forall>l \<in> set ls. location_ok (db_packs (rs_db s)) l"
      using expand(4) ok db_locations_ok [OF ok(1), of w oid ls]
      by (auto simp: request_ok_def split: if_splits)
    then have "stack_ok (db_packs (rs_db s)) rq vs
        (map (\<lambda>l. ResolveLocation oid l depth) ls @ FinishOid oid (length ls) # ts)"
      using st expand(3) by (simp add: stack_ok_locations)
    with vs ok cause show ?thesis unfolding expand(5) by (intro resolve_invI [where vs = vs]) auto
  qed
qed

lemma finish_oid_task_inv:
  assumes inv: "resolve_inv x rq s" and t: "rs_tasks s = FinishOid oid n # ts"
    and r: "finish_oid_task oid n (s\<lparr>rs_tasks := ts\<rparr>) = Ok s'"
  shows "resolve_inv x rq s'"
proof -
  from inv t obtain vs where ok: "db_ok x (rs_db s)" "request_ok (db_packs (rs_db s)) rq"
    and vs: "list_all2 (value_ok x rq) (rev (rs_values s)) vs"
    and n: "0 < n" "n \<le> length vs" "take n vs = replicate n oid"
    and st: "stack_ok (db_packs (rs_db s)) rq (oid # drop n vs) ts" by (auto simp: resolve_inv_def)
  from r obtain first others db where le: "n \<le> length (rs_values s)"
    and c: "drop (length (rs_values s) - n) (rs_values s) = first # others"
    and db: "cache_object (rs_db s) oid first = Ok db"
    and s': "s' = s\<lparr>rs_tasks := ts, rs_db := db,
       rs_values := take (length (rs_values s) - n) (rs_values s) @ [first], rs_active := rs_active s - {oid}\<rparr>"
    by (auto elim!: finish_oid_cases)
  have split: "list_all2 (value_ok x rq) (take n (rev (rs_values s))) (take n vs)"
    "list_all2 (value_ok x rq) (drop n (rev (rs_values s))) (drop n vs)"
    using vs by (auto simp: list_all2_takeI list_all2_dropI)
  have "first \<in> set (take n (rev (rs_values s)))"
    using c by (simp add: take_rev)
  then have first: "value_ok x rq first oid"
    using split(1) n(3) by (auto simp: in_set_conv_nth list_all2_conv_all_nth)
  have rest: "list_all2 (value_ok x rq) (rev (take (length (rs_values s) - n) (rs_values s))) (drop n vs)"
    using split(2) by (simp add: drop_rev)
  note cached = cache_object_ok [OF db ok(1)]
  with first have "db_ok x db" "db_packs db = db_packs (rs_db s)" by (auto simp: value_ok_def)
  then show ?thesis
    using ok st first rest inv_has_cause [OF inv t]
    unfolding s' by (intro resolve_invI [where vs = "oid # drop n vs"]) simp_all
qed

lemma inflate_budgets_ok: "inflate_entry x w p e b = Ok (body, b') \<Longrightarrow> budgets_ok b \<Longrightarrow> budgets_ok b'"
  using inflate_entry_Ok budgets_ok_charge(4) by blast

lemma resolve_location_task_inv:
  assumes inv: "resolve_inv x rq s" and t: "rs_tasks s = ResolveLocation oid location depth # ts"
    and r: "resolve_location_task x w rq oid location depth (s\<lparr>rs_tasks := ts\<rparr>) = Ok s'"
  shows "resolve_inv x rq s'"
proof -
  from inv t obtain vs where ok: "db_ok x (rs_db s)" "request_ok (db_packs (rs_db s)) rq"
    and vs: "list_all2 (value_ok x rq) (rev (rs_values s)) vs"
    and loc: "location_ok (db_packs (rs_db s)) location"
    and st: "stack_ok (db_packs (rs_db s)) rq (oid # vs) ts" by (auto simp: resolve_inv_def)
  note cause = inv_has_cause [OF inv t]
  from ok(1) have budgets: "budgets_ok (db_budgets (rs_db s))" by (simp add: db_ok_def)
  from r show ?thesis
  proof (cases rule: resolve_location_cases)
    case (loose obj)
    then have "value_ok x rq obj oid" using value_ok_loose by simp
    with vs st ok cause show ?thesis unfolding loose(3) by (intro resolve_invI [where vs = "oid # vs"]) simp_all
  next
    case (base pack offset p entry kind body b)
    note v = value_ok_base [OF base(6) base(4) base(7) base(5)]
    have "db_ok x ((rs_db s)\<lparr>db_budgets := b\<rparr>)"
      by (rule db_ok_budgets [OF ok(1)], rule inflate_budgets_ok [OF base(6)]) (simp add: budgets)
    then show ?thesis using v vs st ok cause
      unfolding base(8) by (intro resolve_invI [where vs = "oid # vs"]) simp_all
  next
    case (delta pack offset p entry base_oid)
    then obtain program b where
      i: "inflate_entry x w p entry (db_budgets (rs_db s)) = Ok (program, b)"
      and s': "s' = s\<lparr>rs_tasks := ResolveOid base_oid (saturating_add depth 1)
           (Some \<lparr>dc_pack_id = pair_id (vp_pair p), dc_object_oid = oid\<rparr>)
         # ApplyDelta oid pack entry program (bounds_for rq oid) # ts, rs_db := (rs_db s)\<lparr>db_budgets := b\<rparr>\<rparr>"
      by (auto elim!: push_delta_cases)
    have "db_ok x ((rs_db s)\<lparr>db_budgets := b\<rparr>)"
      using inflate_budgets_ok [OF i budgets] ok(1) by (rule db_ok_budgets [rotated])
    moreover have "pack < length (db_packs (rs_db s))" using loc delta(1) by (simp add: location_ok_def)
    ultimately show ?thesis using vs st ok cause unfolding s' by (intro resolve_invI [where vs = vs]) simp_all
  qed
qed

lemma apply_delta_task_inv:
  assumes inv: "resolve_inv x rq s" and t: "rs_tasks s = ApplyDelta oid pack entry program bounds # ts"
    and r: "apply_delta_task x oid pack entry program bounds (s\<lparr>rs_tasks := ts\<rparr>) = Ok s'"
  shows "resolve_inv x rq s'"
proof -
  from inv t obtain vs where ok: "db_ok x (rs_db s)" "request_ok (db_packs (rs_db s)) rq"
    and vs: "list_all2 (value_ok x rq) (rev (rs_values s)) vs" "vs \<noteq> []"
    and b: "bounds = bounds_for rq oid"
    and st: "stack_ok (db_packs (rs_db s)) rq (oid # tl vs) ts" by (auto simp: resolve_inv_def)
  define base where "base = last (rs_values s)"
  from r obtain p body budgets where
    a: "apply_delta (ext_try_reserve x) (ro_body base) program (ro_kind base) (pair_id (vp_pair (p :: validated_pack)))
       (pe_oid entry) (db_budgets (rs_db s)) bounds = Ok (body, budgets)"
    and v: "verify_oid x \<lparr>ro_kind = ro_kind base, ro_body = body\<rparr> oid = Ok ()"
    and s': "s' = s\<lparr>rs_tasks := ts, rs_db := (rs_db s)\<lparr>db_budgets := budgets\<rparr>,
       rs_values := butlast (rs_values s) @ [\<lparr>ro_kind = ro_kind base, ro_body = body\<rparr>]\<rparr>"
    by (auto simp: base_def elim!: apply_delta_cases)
  have "value_ok x rq \<lparr>ro_kind = ro_kind base, ro_body = body\<rparr> oid"
    using a v unfolding b by (rule value_ok_delta)
  moreover have "db_ok x ((rs_db s)\<lparr>db_budgets := budgets\<rparr>)"
    using apply_delta_facts [OF a] budgets_ok_charge(5) ok(1)
    by (intro db_ok_budgets) (auto simp: db_ok_def)
  ultimately show ?thesis
    using ok st stack_ok_values(3) [OF vs] inv_has_cause [OF inv t]
    unfolding s' by (intro resolve_invI [where vs = "oid # tl vs"]) simp_all
qed

lemma run_task_inv:
  assumes "resolve_inv x rq s" "rs_tasks s = t # ts" "run_task x w rq t (s\<lparr>rs_tasks := ts\<rparr>) = Ok s'"
  shows "resolve_inv x rq s'"
proof (cases t)
  case (ResolveOid oid depth cause)
  with assms resolve_oid_task_inv [OF assms(1)] show ?thesis by (simp add: run_task_def)
next
  case (FinishOid oid n)
  with assms finish_oid_task_inv [OF assms(1)] show ?thesis by (simp add: run_task_def)
next
  case (ResolveLocation oid location depth)
  with assms resolve_location_task_inv [OF assms(1)] show ?thesis by (simp add: run_task_def)
next
  case (ApplyDelta oid pack entry program bounds)
  with assms apply_delta_task_inv [OF assms(1)] show ?thesis by (simp add: run_task_def)
qed

text \<open>No task panics, and every refusal is typed.\<close>

lemma run_task_outcome:
  assumes inv: "resolve_inv x rq s" and t: "rs_tasks s = t # ts"
  shows "fails_only resolve_error (run_task x w rq t (s\<lparr>rs_tasks := ts\<rparr>))"
proof (cases t)
  case (ResolveOid oid depth cause)
  have "cause = None \<Longrightarrow> oid \<notin> rs_active s \<and> depth = 0 \<and> rq_locations rq \<noteq> []"
    using inv t ResolveOid by (auto simp: resolve_inv_def request_ok_def)
  then show ?thesis
    unfolding ResolveOid run_task_def
    by (cases cause; simp add: resolve_oid_task_def split: option.splits;
        intro conjI impI allI outcome_intros bounds_check_outcome db_locations_outcome)
      (auto simp: check_delta_depth_def)
next
  case (FinishOid oid n)
  with inv t obtain vs where "list_all2 (value_ok x rq) (rev (rs_values s)) vs" "0 < n" "n \<le> length vs"
    by (auto simp: resolve_inv_def)
  then have n: "0 < n" "n \<le> length (rs_values s)" by (auto dest: list_all2_lengthD)
  then obtain a as where "drop (length (rs_values s) - n) (rs_values s) = a # as"
    by (cases "drop (length (rs_values s) - n) (rs_values s)") auto
  with n show ?thesis
    by (auto simp: FinishOid run_task_def finish_oid_task_def Let_def checked_sub_def cache_object_def
        checked_charge_def limit_exceeded_def is_limit_def intro!: outcome_intros)
next
  case (ResolveLocation oid location depth)
  with inv t have loc: "location_ok (db_packs (rs_db s)) location" by (auto simp: resolve_inv_def)
  have push: "fails_only resolve_error (push_delta x w rq oid pack p entry b d s'')" for pack p entry b d s''
    unfolding push_delta_def by (intro outcome_intros inflate_entry_resolve) auto
  from loc show ?thesis
    by (auto simp: ResolveLocation run_task_def resolve_location_task_def location_ok_def get_at_def Let_def push
        intro!: outcome_intros read_loose_outcome bounds_check_outcome inflate_entry_resolve verify_oid_outcome
        split: object_location.splits pack_entry_kind.splits option.splits)
next
  case (ApplyDelta oid pack entry program bounds)
  with inv t obtain vs where vs: "list_all2 (value_ok x rq) (rev (rs_values s)) vs" "vs \<noteq> []"
    and "pack < length (db_packs (rs_db s))" by (auto simp: resolve_inv_def)
  with stack_ok_values(1) [OF vs] show ?thesis
    by (auto simp: ApplyDelta run_task_def apply_delta_task_def Let_def get_at_def
        intro!: outcome_intros apply_delta_outcome verify_oid_outcome)
qed

lemma resolve_loop_sound:
  "resolve_inv x rq s \<Longrightarrow>
   fails_only resolve_error (resolve_loop x w rq s) \<and>
   (\<forall>s'. resolve_loop x w rq s = Ok s' \<longrightarrow> resolve_inv x rq s' \<and> rs_tasks s' = [])"
proof (induction x w rq s rule: resolve_loop.induct)
  case (1 x w rq s)
  show ?case
  proof (cases "rs_tasks s")
    case Nil
    with "1.prems" show ?thesis by (simp add: resolve_loop.simps)
  next
    case (Cons t ts)
    have loop: "resolve_loop x w rq s =
        and_then (run_task x w rq t (s\<lparr>rs_tasks := ts\<rparr>)) (\<lambda>s'. resolve_loop x w rq s')"
      using Cons by (subst resolve_loop.simps) simp
    show ?thesis
      using run_task_outcome [OF "1.prems" Cons, of w] "1.IH" [OF Cons] run_task_inv [OF "1.prems" Cons, of w]
      unfolding loop by (cases "run_task x w rq t (s\<lparr>rs_tasks := ts\<rparr>)") auto
  qed
qed

lemma cache_object_same:
  "cache_object db oid obj = Ok db' \<Longrightarrow> db_packs db' = db_packs db \<and> db_git_dir db' = db_git_dir db"
  by (auto simp: cache_object_def result_iffs split: if_splits)

lemma run_task_same:
  "run_task x w rq t s = Ok s' \<Longrightarrow>
   db_packs (rs_db s') = db_packs (rs_db s) \<and> db_git_dir (rs_db s') = db_git_dir (rs_db s)"
  by (cases t)
    (auto simp: run_task_def dest: cache_object_same
      elim!: resolve_oid_cases finish_oid_cases resolve_location_cases apply_delta_cases push_delta_cases)

lemma resolve_loop_same:
  "resolve_loop x w rq s = Ok s' \<Longrightarrow>
   db_packs (rs_db s') = db_packs (rs_db s) \<and> db_git_dir (rs_db s') = db_git_dir (rs_db s)"
proof (induction x w rq s rule: resolve_loop.induct)
  case (1 x w rq s)
  from "1.prems" [unfolded resolve_loop.simps [of x w rq s]] show ?case
    using "1.IH" run_task_same by (fastforce simp: result_iffs split: list.splits)
qed

lemma resolve_sound:
  assumes ok: "db_ok x db" and ls: "ls \<noteq> []" "\<forall>l \<in> set ls. location_ok (db_packs db) l"
  shows "fails_only resolve_error (resolve x w db oid ls bounds)"
    and "resolve x w db oid ls bounds = Ok (obj, db') \<Longrightarrow>
      object_hashes x oid obj \<and> bounds_check bounds (ro_kind obj) (length (ro_body obj)) oid = Ok () \<and>
      db_ok x db' \<and> db_packs db' = db_packs db \<and> db_git_dir db' = db_git_dir db"
proof -
  define rq where "rq = \<lparr>rq_oid = oid, rq_bounds = bounds, rq_locations = ls\<rparr>"
  define s where "s = \<lparr>rs_db = db, rs_tasks = [ResolveOid oid 0 None], rs_values = [], rs_active = {}\<rparr>"
  have rq: "rq_oid rq = oid" "bounds_for rq oid = bounds" by (simp_all add: rq_def bounds_for_def)
  have inv: "resolve_inv x rq s"
    using ok ls by (simp add: resolve_inv_def request_ok_def s_def rq_def)
  note sound = resolve_loop_sound [OF inv, of w]
  have resolve: "resolve x w db oid ls bounds = and_then (resolve_loop x w rq s) (\<lambda>s.
      if rs_values s = [] then Err (unavailable PC_Object) else Ok (last (rs_values s), rs_db s))"
    by (simp add: resolve_def rq_def s_def)
  show "fails_only resolve_error (resolve x w db oid ls bounds)"
    unfolding resolve using sound by (intro outcome_intros) auto
  assume "resolve x w db oid ls bounds = Ok (obj, db')"
  then obtain s' where s': "resolve_loop x w rq s = Ok s'" "obj = last (rs_values s')" "db' = rs_db s'"
    by (auto simp: resolve result_iffs split: if_splits)
  with sound have inv': "resolve_inv x rq s'" "rs_tasks s' = []" by auto
  then have "list_all2 (value_ok x rq) (rev (rs_values s')) [oid]"
    by (auto simp: resolve_inv_def rq)
  from stack_ok_values(2) [OF this] inv' s' resolve_loop_same [OF s'(1)]
  show "object_hashes x oid obj \<and> bounds_check bounds (ro_kind obj) (length (ro_body obj)) oid = Ok () \<and>
      db_ok x db' \<and> db_packs db' = db_packs db \<and> db_git_dir db' = db_git_dir db"
    by (auto simp: value_ok_def rq resolve_inv_def s_def)
qed

section \<open>Opening a database\<close>

lemma charge_inflate_budgets_ok: "charge_all charge_inflate b ns = Ok b' \<Longrightarrow> budgets_ok b \<Longrightarrow> budgets_ok b'"
proof (induction ns arbitrary: b)
  case (Cons n ns)
  then show ?case by (auto simp: result_iffs dest: budgets_ok_charge(4))
qed simp

lemma open_packs_Ok:
  "open_packs x w pairs b = Ok (packs, b') \<Longrightarrow> budgets_ok b \<Longrightarrow>
   map vp_pair packs = pairs \<and> (\<forall>p \<in> set packs. pack_wf p \<and> pack_verified x w p) \<and> budgets_ok b'"
proof (induction pairs arbitrary: b packs)
  case (Cons pair pairs)
  from Cons.prems(1) obtain b1 b2 idx b3 p b4 ps where
    c: "charge_index b (tracked_len (pair_index pair)) = Ok b1"
      "charge_pack b1 (tracked_len (pair_pack pair)) = Ok b2" "charge_objects b2 (length (rows idx)) = Ok b3"
    and i: "parse_index (ext_sha x) w (pair_index pair) (pair_id pair) (tracked_len (pair_pack pair)) = Ok idx"
    and p: "pack_open x w pair idx b3 = Ok (p, b4)" and ps: "open_packs x w pairs b4 = Ok (ps, b')"
    and packs: "packs = p # ps"
    by (auto simp: result_iffs split: prod.splits)
  have "index_wf (tracked_len (pair_pack pair)) idx"
    using i by (auto simp: parse_index_def result_iffs dest: parse_index_bytes_wf)
  note facts = pack_open_Ok [OF p this]
  have "budgets_ok b3"
    by (rule budgets_ok_charge(2) [OF budgets_ok_charge(3) [OF budgets_ok_charge(1) [OF Cons.prems(2) c(1)] c(2)] c(3)])
  with facts(5) have "budgets_ok b4" by (rule charge_inflate_budgets_ok)
  from Cons.IH [OF ps this] facts packs show ?case by simp
qed simp

lemma index_error_resolve: "index_error p e \<Longrightarrow> resolve_error e"
  by (auto simp: index_error_def index_invalid_def index_object_invalid_def)

lemma read_exact_at_resolve: "fails_only resolve_error (read_exact_at w f n k c)"
  by (simp add: read_exact_at_def split: option.splits)

lemma open_packs_outcome: "fails_only resolve_error (open_packs x w pairs b)"
proof (induction pairs arbitrary: b)
  case (Cons pair pairs)
  have charge: "fails_only resolve_error (charge_index b n)" "fails_only resolve_error (charge_pack b n)"
    "fails_only resolve_error (charge_objects b n)" for b n
    by (auto intro!: fails_onlyI dest: charge_Err_is_limit)
  have index: "fails_only resolve_error (parse_index sha w f p n)" for sha f p n
    unfolding parse_index_def read_all_def
    by (intro outcome_intros read_exact_at_resolve fails_only_mono [OF parse_index_bytes_outcome])
      (rule index_error_resolve)
  have pack: "fails_only resolve_error (pack_open x w pair i b)" for i b
    by (rule fails_only_mono [OF pack_open_outcome]) (rule pack_error_resolve)
  show ?case
    unfolding open_packs.simps by (intro outcome_intros charge index pack Cons.IH) simp
qed simp

lemma open_tracked_outcome: "fails_only resolve_error (open_tracked w path)"
  by (simp add: open_tracked_def Let_def invalid_catalog_def split: sum.splits io_error.splits option.splits)

lemma open_pairs_outcome: "fails_only resolve_error (open_pairs w pairs)"
proof (induction pairs)
  case (Cons a pairs)
  show ?case
    by (cases a; simp split: option.splits, intro conjI impI allI outcome_intros open_tracked_outcome Cons.IH)
      (auto simp: fails_only_ok_or invalid_catalog_def)
qed simp

lemma catalog_loop_outcome: "fails_only resolve_error (catalog_loop items n pairs multi)"
proof (induction items arbitrary: n pairs multi)
  case (Cons item items)
  have entry: "fails_only resolve_error (catalog_entry e pairs multi)" for e
    by (simp add: catalog_entry_def Let_def invalid_catalog_def split: option.splits prod.splits)
  show ?case
    by (cases item; simp del: One_nat_def, intro conjI impI allI outcome_intros Cons.IH entry)
      (auto simp: fails_only_ok_or intro!: outcome_intros Cons.IH entry)
qed simp

lemma open_catalog_outcome: "fails_only resolve_error (open_catalog w git_dir)"
  unfolding open_catalog_def Let_def
  by (simp split: sum.splits io_error.splits add: invalid_catalog_def)
    (intro conjI impI allI outcome_intros open_pairs_outcome catalog_loop_outcome,
     auto simp: fails_only_fail_if fails_only_ok_or)

lemma db_open_Ok:
  assumes "db_open x w git_dir = Ok db"
  obtains pairs where "open_catalog w git_dir = Ok pairs" "map vp_pair (db_packs db) = pairs"
    "\<forall>p \<in> set (db_packs db). pack_wf p \<and> pack_verified x w p" "db_git_dir db = git_dir" "db_ok x db"
proof -
  from assms obtain pairs packs b where "open_catalog w git_dir = Ok pairs"
    and o: "open_packs x w pairs empty_budgets = Ok (packs, b)"
    and "db = \<lparr>db_git_dir = git_dir, db_packs = packs, db_budgets = b, db_cache = [], db_cache_bytes = 0\<rparr>"
    by (auto simp: db_open_def result_iffs split: prod.splits)
  with open_packs_Ok [OF o] show ?thesis
    by (intro that) (auto simp: db_ok_def cache_ok_def bt_wf_def budgets_ok_def empty_budgets_def)
qed

lemma db_open_outcome: "fails_only resolve_error (db_open x w git_dir)"
  unfolding db_open_def by (intro outcome_intros open_catalog_outcome open_packs_outcome) simp

section \<open>Sessions\<close>

text \<open>
  A database as the acquirer uses it: opened once, then read any number of times. The file system may
  change between any two of these calls.
\<close>

inductive session :: "'z extern \<Rightarrow> string \<Rightarrow> packed_db \<Rightarrow> bool" for x git_dir where
  opened: "db_open x w git_dir = Ok db \<Longrightarrow> session x git_dir db"
| read: "session x git_dir db \<Longrightarrow> db_read_object x w db oid capture declared ceiling = Ok (found, db') \<Longrightarrow>
    session x git_dir db'"

lemma db_read_object_sound:
  assumes ok: "db_ok x db"
  shows "fails_only resolve_error (db_read_object x w db oid capture declared ceiling)"
    and "db_read_object x w db oid capture declared ceiling = Ok (found, db') \<Longrightarrow>
      db_ok x db' \<and> db_packs db' = db_packs db \<and> db_git_dir db' = db_git_dir db \<and>
      (case found of
         None \<Rightarrow> db' = db \<and> db_locations w db oid = Ok []
       | Some obj \<Rightarrow>
           (\<exists>body. object_hashes x oid \<lparr>ro_kind = go_kind obj, ro_body = body\<rparr> \<and>
              go_body_size obj = length body \<and>
              go_body_prefix obj = take (case capture of None \<Rightarrow> default_capture (go_kind obj) | Some n \<Rightarrow> n) body \<and>
              bounds_check \<lparr>rob_declared_body_limit = declared, rob_body_ceiling = ceiling\<rparr>
                (go_kind obj) (length body) oid = Ok ()))"
proof -
  have loc: "\<forall>l \<in> set ls. location_ok (db_packs db) l" if "db_locations w db oid = Ok ls" for ls
    using db_locations_ok [OF ok that] by blast
  show "fails_only resolve_error (db_read_object x w db oid capture declared ceiling)"
    using loc db_locations_outcome [of w db oid] resolve_sound(1) [OF ok]
    unfolding db_read_object_def Let_def by (intro outcome_intros) auto
  assume r: "db_read_object x w db oid capture declared ceiling = Ok (found, db')"
  then obtain ls where ls: "db_locations w db oid = Ok ls"
    by (auto simp: db_read_object_def Let_def result_iffs)
  show "db_ok x db' \<and> db_packs db' = db_packs db \<and> db_git_dir db' = db_git_dir db \<and>
      (case found of
         None \<Rightarrow> db' = db \<and> db_locations w db oid = Ok []
       | Some obj \<Rightarrow>
           (\<exists>body. object_hashes x oid \<lparr>ro_kind = go_kind obj, ro_body = body\<rparr> \<and>
              go_body_size obj = length body \<and>
              go_body_prefix obj = take (case capture of None \<Rightarrow> default_capture (go_kind obj) | Some n \<Rightarrow> n) body \<and>
              bounds_check \<lparr>rob_declared_body_limit = declared, rob_body_ceiling = ceiling\<rparr>
                (go_kind obj) (length body) oid = Ok ()))"
  proof (cases "ls = []")
    case True
    with r ls ok show ?thesis by (auto simp: db_read_object_def)
  next
    case False
    with r ls obtain obj where
      "resolve x w db oid ls \<lparr>rob_declared_body_limit = declared, rob_body_ceiling = ceiling\<rparr> = Ok (obj, db')"
      and "found = Some \<lparr>go_kind = ro_kind obj, go_body_prefix = take (min (case capture of
          None \<Rightarrow> default_capture (ro_kind obj) | Some n \<Rightarrow> n) (length (ro_body obj))) (ro_body obj),
          go_body_size = length (ro_body obj)\<rparr>"
      by (auto simp: db_read_object_def Let_def result_iffs)
    with resolve_sound(2) [OF ok False loc [OF ls] this(1)] show ?thesis
      by (cases obj; cases capture) (auto simp: min_def intro!: exI [of _ "ro_body obj"])
  qed
qed

lemma session_db_ok: "session x git_dir db \<Longrightarrow> db_ok x db"
proof (induction rule: session.induct)
  case (opened w db)
  then show ?case by (elim db_open_Ok)
next
  case (read db w oid capture declared ceiling found db')
  from db_read_object_sound(2) [OF read.IH read.hyps(2)] show ?case by blast
qed

text \<open>The task stack is a call stack: the tasks above a point run to completion before those below it.\<close>

definition run_stack ::
  "'z extern \<Rightarrow> world \<Rightarrow> resolve_request \<Rightarrow> resolve_task list \<Rightarrow> resolve_state \<Rightarrow> (resolve_state, acquisition_error) result"
where
  "run_stack x w rq ts s = resolve_loop x w rq (s\<lparr>rs_tasks := ts\<rparr>)"

definition push_tasks :: "resolve_task list \<Rightarrow> resolve_state \<Rightarrow> resolve_state" where
  "push_tasks ts s = s\<lparr>rs_tasks := rs_tasks s @ ts\<rparr>"

lemma push_tasks_simps [simp]:
  "rs_db (push_tasks ts s) = rs_db s" "rs_values (push_tasks ts s) = rs_values s"
  "rs_active (push_tasks ts s) = rs_active s" "rs_tasks (push_tasks ts s) = rs_tasks s @ ts"
  "(push_tasks ts s)\<lparr>rs_db := d\<rparr> = push_tasks ts (s\<lparr>rs_db := d\<rparr>)"
  "(push_tasks ts s)\<lparr>rs_values := v\<rparr> = push_tasks ts (s\<lparr>rs_values := v\<rparr>)"
  "(push_tasks ts s)\<lparr>rs_active := a\<rparr> = push_tasks ts (s\<lparr>rs_active := a\<rparr>)"
  "(push_tasks ts s)\<lparr>rs_tasks := us\<rparr> = s\<lparr>rs_tasks := us\<rparr>"
  "push_tasks ts (s\<lparr>rs_tasks := us\<rparr>) = s\<lparr>rs_tasks := us @ ts\<rparr>"
  by (simp_all add: push_tasks_def)

lemma and_then_push_cong:
  assumes "\<And>a. f a = and_then (g a) h"
  shows "and_then r f = and_then (and_then r g) h"
  using assms by (cases r) simp_all

lemma run_task_push:
  "run_task x w rq t (push_tasks ts s) = and_then (run_task x w rq t s) (\<lambda>s'. Ok (push_tasks ts s'))"
proof (cases t)
  case (ResolveOid oid depth cause)
  then show ?thesis
    by (auto simp: run_task_def resolve_oid_task_def split: option.splits intro!: and_then_push_cong)
next
  case (FinishOid oid n)
  then show ?thesis
    by (auto simp: run_task_def finish_oid_task_def Let_def split: list.splits intro!: and_then_push_cong)
next
  case (ResolveLocation oid location depth)
  then show ?thesis
    by (auto simp: run_task_def resolve_location_task_def push_delta_def Let_def
        split: object_location.splits pack_entry_kind.splits option.splits intro!: and_then_push_cong)
next
  case (ApplyDelta oid pack entry program bounds)
  then show ?thesis
    by (auto simp: run_task_def apply_delta_task_def Let_def intro!: and_then_push_cong)
qed

lemma resolve_loop_done: "resolve_loop x w rq s = Ok s' \<Longrightarrow> rs_tasks s' = []"
proof (induction x w rq s rule: resolve_loop.induct)
  case (1 x w rq s)
  from "1.prems" [unfolded resolve_loop.simps [of x w rq s]] show ?case
    using "1.IH" by (auto simp: result_iffs split: list.splits)
qed

lemma resolve_loop_push:
  "resolve_loop x w rq (push_tasks us s) = and_then (resolve_loop x w rq s) (\<lambda>s'. resolve_loop x w rq (push_tasks us s'))"
proof (induction x w rq s rule: resolve_loop.induct)
  case (1 x w rq s)
  show ?case
  proof (cases "rs_tasks s")
    case Nil
    then show ?thesis by (subst (2) resolve_loop.simps) simp
  next
    case (Cons t ts)
    have "resolve_loop x w rq (push_tasks us s) =
        and_then (run_task x w rq t (push_tasks us (s\<lparr>rs_tasks := ts\<rparr>))) (resolve_loop x w rq)"
      by (subst resolve_loop.simps) (simp add: Cons del: push_tasks_simps(9), simp)
    also have "\<dots> = and_then (run_task x w rq t (s\<lparr>rs_tasks := ts\<rparr>)) (\<lambda>s'. resolve_loop x w rq (push_tasks us s'))"
      by (subst run_task_push) (cases "run_task x w rq t (s\<lparr>rs_tasks := ts\<rparr>)"; simp)
    also have "\<dots> = and_then (resolve_loop x w rq s) (\<lambda>s'. resolve_loop x w rq (push_tasks us s'))"
      using "1.IH" [OF Cons]
      by (subst (2) resolve_loop.simps) (cases "run_task x w rq t (s\<lparr>rs_tasks := ts\<rparr>)"; simp add: Cons)
    finally show ?thesis .
  qed
qed

lemma run_stack_append:
  "run_stack x w rq (ts @ us) s = and_then (run_stack x w rq ts s) (run_stack x w rq us)"
proof -
  have "push_tasks us s' = s'\<lparr>rs_tasks := us\<rparr>" if "resolve_loop x w rq (s\<lparr>rs_tasks := ts\<rparr>) = Ok s'" for s'
    using resolve_loop_done [OF that] by (simp add: push_tasks_def)
  with resolve_loop_push [of x w rq us "s\<lparr>rs_tasks := ts\<rparr>"] show ?thesis
    by (cases "resolve_loop x w rq (s\<lparr>rs_tasks := ts\<rparr>)") (simp_all add: run_stack_def)
qed

section \<open>Properties\<close>


text \<open>
  C2. Opening an object database fails only with a typed error and never panics. On success its packs
  are the pairs of the catalog in order, each structurally valid and with its trailer, index checksum
  and entry checksums verified against the stored bytes, and all budgets and the cache are within
  their limits.
\<close>

theorem db_open_validates:
  "case db_open x w git_dir of
     Ok db \<Rightarrow>
       open_catalog w git_dir = Ok (map vp_pair (db_packs db)) \<and>
       list_all (\<lambda>p. pack_wf p \<and> pack_verified x w p) (db_packs db) \<and>
       db_git_dir db = git_dir \<and> db_ok x db
   | Err e \<Rightarrow> resolve_error e
   | Panic \<Rightarrow> False"
proof (cases "db_open x w git_dir")
  case (Ok db)
  then show ?thesis by (elim db_open_Ok) (simp add: Ok list_all_iff)
qed (use db_open_outcome [of x w git_dir] in auto)

text \<open>
  C1. In any session - a database opened once and read any number of times, with the file system
  free to change between the calls - a read never panics, and an object it returns is the prefix,
  of the length asked for, of a body that hashes to the requested identifier under its Git header and
  that respects the caller's bounds. \<open>None\<close> is returned exactly when no location holds the object.
\<close>

theorem session_read_sound:
  assumes "session x git_dir db"
  shows "case db_read_object x w db oid capture declared ceiling of
     Ok (None, db') \<Rightarrow> db' = db \<and> db_locations w db oid = Ok []
   | Ok (Some obj, db') \<Rightarrow>
       db_ok x db' \<and> db_packs db' = db_packs db \<and>
       (\<exists>body. object_hashes x oid \<lparr>ro_kind = go_kind obj, ro_body = body\<rparr> \<and>
          go_body_size obj = length body \<and>
          go_body_prefix obj = take (case capture of None \<Rightarrow> default_capture (go_kind obj) | Some n \<Rightarrow> n) body \<and>
          bounds_check \<lparr>rob_declared_body_limit = declared, rob_body_ceiling = ceiling\<rparr>
            (go_kind obj) (length body) oid = Ok ())
   | Err e \<Rightarrow> resolve_error e
   | Panic \<Rightarrow> False"
proof (cases "db_read_object x w db oid capture declared ceiling")
  case (Ok r)
  then show ?thesis
    using db_read_object_sound(2) [OF session_db_ok [OF assms], of w oid capture declared ceiling "fst r" "snd r"]
    by (cases r) (auto split: option.splits)
qed (use db_read_object_sound(1) [OF session_db_ok [OF assms], of w oid capture declared ceiling] in auto)

text \<open>A repository with one loose blob and no packs, under functions that hash and decode trivially.\<close>

definition loose_oid :: object_id where "loose_oid = from_bytes (replicate 20 0)"

definition loose_extern :: "unit extern" where
  "loose_extern = \<lparr>ext_sha = (\<lambda>_. Some (replicate 20 0)), ext_crc32 = (\<lambda>_. 0), ext_zinit = (),
     ext_zstep = (\<lambda>_ _ _. None), ext_zlib = (\<lambda>c. (c, True)), ext_try_reserve = (\<lambda>_. True)\<rparr>"

definition loose_world :: world where
  "loose_world = sample_world\<lparr>
     symlink_metadata := (\<lambda>p. if p = ''g/objects/pack'' then Inl NotFound
       else Inr (sample_metadata (p \<in> {''g/objects'', ''g/objects/00''}))),
     handle_content := (\<lambda>_. Some (as_bytes ''blob 2'' @ [0, 7, 8]))\<rparr>"

definition loose_db :: packed_db where
  "loose_db = \<lparr>db_git_dir = ''g'', db_packs = [], db_budgets = empty_budgets, db_cache = [], db_cache_bytes = 0\<rparr>"

lemma loose_db_opened: "db_open loose_extern loose_world ''g'' = Ok loose_db"
  by (simp add: db_open_def open_catalog_def loose_world_def loose_db_def path_join_def starts_with_def
      ends_with_def Let_def)

lemma loose_oid_text: "loose_oid = ObjectId (replicate 40 CHR ''0'')"
  by code_simp

lemma loose_paths:
  "loose_directory ''g'' loose_oid = ''g/objects/00''"
  "loose_object_path ''g'' loose_oid = ''g/objects/00/'' @ replicate 38 CHR ''0''"
  by (simp_all add: loose_oid_text loose_directory_def loose_object_path_def path_join_def starts_with_def
      ends_with_def numeral_eq_Suc)

lemma loose_metadata [simp]:
  "symlink_metadata loose_world (path_join ''g'' ''objects'') = Inr (sample_metadata True)"
  "symlink_metadata loose_world (loose_directory ''g'' loose_oid) = Inr (sample_metadata True)"
  "symlink_metadata loose_world (loose_object_path ''g'' loose_oid) = Inr (sample_metadata False)"
  by (simp_all add: loose_paths loose_world_def path_join_def starts_with_def ends_with_def numeral_eq_Suc)

lemma loose_located: "db_locations loose_world loose_db loose_oid = Ok [Loose]"
  by (simp add: db_locations_def loose_exists_def loose_db_def Let_def sample_metadata_def
      selected_loose_compressed_bytes_def)

lemma loose_header: "parse_object_header (as_bytes ''blob 2'') = Some (Blob, 2)"
proof -
  have "show_nat 2 = ''2''" by code_simp
  with parse_object_header_show [of 2 Blob] show ?thesis by (simp add: u64_max_def)
qed

lemma loose_object: "read_loose loose_extern loose_world loose_db loose_oid b =
   and_then (bounds_check b Blob 2 loose_oid) (\<lambda>_. Ok \<lparr>ro_kind = Blob, ro_body = [7, 8]\<rparr>)"
proof -
  have "read_header io sz (as_bytes ''blob 2'' @ [0, 7, 8]) True [] = Ok (as_bytes ''blob 2'', [7, 8])" for io sz :: acquisition_error
    by code_simp
  with loose_header show ?thesis
    by (simp add: read_loose_def Let_def decoded_stream_def loose_world_def loose_extern_def sample_world_def
        saturating_add_def u64_max_def loose_oid_def fail_if_def)
qed

lemma loose_read:
  "db_read_object loose_extern loose_world loose_db loose_oid None None None =
     Ok (Some \<lparr>go_kind = Blob, go_body_prefix = [7, 8], go_body_size = 2\<rparr>,
       loose_db\<lparr>db_cache := [(loose_oid, \<lparr>ro_kind = Blob, ro_body = [7, 8]\<rparr>)], db_cache_bytes := 2\<rparr>)"
proof -
  have bounds: "bounds_check \<lparr>rob_declared_body_limit = None, rob_body_ceiling = None\<rparr> Blob 2 oid = Ok ()" for oid
    by (simp add: bounds_check_def)
  show ?thesis
    unfolding loose_db_def
    by (simp add: db_read_object_def loose_located [unfolded loose_db_def] resolve_def resolve_loop.simps run_task_def
        resolve_oid_task_def resolve_location_task_def finish_oid_task_def loose_object [unfolded loose_db_def] bounds
        bounds_for_def checked_sub_def check_delta_depth_def cache_object_def checked_charge_def saturating_add_def
        u64_max_def default_capture_def Let_def)
qed

theorem session_read_sound_witness:
  "db_read_object loose_extern loose_world loose_db loose_oid None None None =
     Ok (Some \<lparr>go_kind = Blob, go_body_prefix = [7, 8], go_body_size = 2\<rparr>,
       loose_db\<lparr>db_cache := [(loose_oid, \<lparr>ro_kind = Blob, ro_body = [7, 8]\<rparr>)], db_cache_bytes := 2\<rparr>) \<and>
   (\<exists>body. object_hashes loose_extern loose_oid \<lparr>ro_kind = Blob, ro_body = body\<rparr> \<and> length body = 2)"
  using session_read_sound [OF session.opened [OF loose_db_opened], of loose_world loose_oid None None None]
  by (auto simp: loose_read)

end
