(* ===== verification/Boundary_Types.thy ===== *)
theory Boundary_Types
  imports Domain_Types
begin

text \<open>
  The vocabulary of repository boundaries (\<open>codenoesis-domain/src/s1_boundaries.rs\<close>): the boundary
  limits, the typed boundary errors, and the records an acquisition hands to the boundary report.
\<close>

section \<open>Limits\<close>

datatype boundary_limit =
    BoundaryManifestBytes | GitlinkEntries | GitmodulesBytes | GitmodulesSections
  | GitmodulesKeysPerSection | ExplicitNestedRepositories | ExplicitNestingDepth | BoundaryReportBytes

fun boundary_limit_str :: "boundary_limit \<Rightarrow> string" where
  "boundary_limit_str BoundaryManifestBytes = ''boundary_manifest_bytes''"
| "boundary_limit_str GitlinkEntries = ''gitlink_entries''"
| "boundary_limit_str GitmodulesBytes = ''gitmodules_bytes''"
| "boundary_limit_str GitmodulesSections = ''gitmodules_sections''"
| "boundary_limit_str GitmodulesKeysPerSection = ''gitmodules_keys_per_section''"
| "boundary_limit_str ExplicitNestedRepositories = ''explicit_nested_repositories''"
| "boundary_limit_str ExplicitNestingDepth = ''explicit_nesting_depth''"
| "boundary_limit_str BoundaryReportBytes = ''boundary_report_bytes''"

fun boundary_limit_component :: "boundary_limit \<Rightarrow> string" where
  "boundary_limit_component BoundaryManifestBytes = ''boundary_manifest''"
| "boundary_limit_component ExplicitNestedRepositories = ''boundary_manifest''"
| "boundary_limit_component ExplicitNestingDepth = ''boundary_manifest''"
| "boundary_limit_component GitlinkEntries = ''gitmodules''"
| "boundary_limit_component GitmodulesBytes = ''gitmodules''"
| "boundary_limit_component GitmodulesSections = ''gitmodules''"
| "boundary_limit_component GitmodulesKeysPerSection = ''gitmodules''"
| "boundary_limit_component BoundaryReportBytes = ''boundary_report''"

definition max_gitmodules_bytes :: nat where
  "max_gitmodules_bytes = 1048576"

fun boundary_maximum :: "boundary_limit \<Rightarrow> nat" where
  "boundary_maximum BoundaryManifestBytes = 262144"
| "boundary_maximum GitlinkEntries = 128"
| "boundary_maximum GitmodulesBytes = max_gitmodules_bytes"
| "boundary_maximum GitmodulesSections = 256"
| "boundary_maximum GitmodulesKeysPerSection = 32"
| "boundary_maximum ExplicitNestedRepositories = 32"
| "boundary_maximum ExplicitNestingDepth = 1"
| "boundary_maximum BoundaryReportBytes = 1048576"

section \<open>Errors\<close>

datatype boundary_metadata_reason =
    InvalidEncoding | NulOrControl | BareCarriageReturn | MalformedSection | InvalidName
  | KeyOutsideSection | DuplicateSection | DuplicateKey | RequiredKeyMissing | PathInvalidReason
  | AmbiguousMapping | UnsafeEntryKind

fun metadata_reason_str :: "boundary_metadata_reason \<Rightarrow> string" where
  "metadata_reason_str InvalidEncoding = ''invalid_encoding''"
| "metadata_reason_str NulOrControl = ''nul_or_control''"
| "metadata_reason_str BareCarriageReturn = ''bare_carriage_return''"
| "metadata_reason_str MalformedSection = ''malformed_section''"
| "metadata_reason_str InvalidName = ''invalid_name''"
| "metadata_reason_str KeyOutsideSection = ''key_outside_section''"
| "metadata_reason_str DuplicateSection = ''duplicate_section''"
| "metadata_reason_str DuplicateKey = ''duplicate_key''"
| "metadata_reason_str RequiredKeyMissing = ''required_key_missing''"
| "metadata_reason_str PathInvalidReason = ''path_invalid''"
| "metadata_reason_str AmbiguousMapping = ''ambiguous_mapping''"
| "metadata_reason_str UnsafeEntryKind = ''unsafe_entry_kind''"

datatype repository_boundary_error =
    MetadataInvalid boundary_metadata_reason "string option"
  | BoundaryLimitExceeded boundary_limit nat nat
  | InvalidReport

definition boundary_limit_exceeded :: "boundary_limit \<Rightarrow> nat \<Rightarrow> repository_boundary_error" where
  "boundary_limit_exceeded limit observed =
     BoundaryLimitExceeded limit (boundary_maximum limit)
       (if observed > boundary_maximum limit + 1 then boundary_maximum limit + 1 else observed)"

definition check_boundary_limit :: "boundary_limit \<Rightarrow> nat \<Rightarrow> (unit, repository_boundary_error) result" where
  "check_boundary_limit limit observed =
     (if observed > boundary_maximum limit then Err (boundary_limit_exceeded limit observed) else Ok ())"

datatype boundary_acquisition_error =
    BA_Repository repository_error | BA_Boundary repository_boundary_error

section \<open>Acquired data\<close>

record acquired_gitlink =
  gl_path :: string
  gl_containing_tree_oid :: object_id
  gl_gitlink_oid :: object_id

record acquired_gitmodules =
  gm_mode :: string
  gm_blob_oid :: object_id
  gm_bytes :: bytes

datatype nested_acquisition_profile = VerifiedLooseSha1V1 | LocalGitSha1PackedV1

fun profile_str :: "nested_acquisition_profile \<Rightarrow> string" where
  "profile_str VerifiedLooseSha1V1 = ''verified-loose-sha1-v1''"
| "profile_str LocalGitSha1PackedV1 = ''local-git-sha1-packed-v1''"

definition parse_profile :: "string \<Rightarrow> nested_acquisition_profile option" where
  "parse_profile v =
     (if v = ''verified-loose-sha1-v1'' then Some VerifiedLooseSha1V1
      else if v = ''local-git-sha1-packed-v1'' then Some LocalGitSha1PackedV1 else None)"

datatype nested_acquisition_error = NE_Repository repository_error | NE_Changed

section \<open>Laws\<close>

lemma parse_profile_iff: "parse_profile v = Some p \<longleftrightarrow> v = profile_str p"
  by (cases p) (auto simp: parse_profile_def)

lemma metadata_reason_str_inject: "metadata_reason_str r = metadata_reason_str r' \<longleftrightarrow> r = r'"
  by (cases r; cases r') simp_all

lemma boundary_limit_str_inject: "boundary_limit_str l = boundary_limit_str l' \<longleftrightarrow> l = l'"
  by (cases l; cases l') simp_all

lemma check_boundary_limit_Ok [simp]: "check_boundary_limit l n = Ok u \<longleftrightarrow> n \<le> boundary_maximum l"
  by (auto simp: check_boundary_limit_def)

lemma check_boundary_limit_Err:
  "check_boundary_limit l n = Err e \<longleftrightarrow> boundary_maximum l < n \<and> e = boundary_limit_exceeded l n"
  by (auto simp: check_boundary_limit_def)

lemma check_boundary_limit_not_Panic [simp]: "check_boundary_limit l n \<noteq> Panic"
  by (simp add: check_boundary_limit_def)

text \<open>A reported observation is past the maximum by exactly one, whatever was observed.\<close>

lemma boundary_limit_exceeded_observed:
  "boundary_maximum l < n \<Longrightarrow>
   boundary_limit_exceeded l n = BoundaryLimitExceeded l (boundary_maximum l) (boundary_maximum l + 1)"
  by (auto simp: boundary_limit_exceeded_def)

end
