(* ===== verification/Object_Reader.thy ===== *)
theory Object_Reader
  imports Packed_Database Boundary_Types
begin

text \<open>
  The object reader of the repository adapter (\<open>codenoesis-repository/src/lib.rs\<close>): the loose reader
  \<open>read_object_capped\<close>, the choice between loose and packed databases, and the helpers that turn a
  missing or broken object into a typed repository error. The contract of a reader is the locale
  \<open>object_reader\<close>; the loose reader, the packed database and their sum are its three instances.
\<close>

section \<open>The host\<close>

text \<open>
  What the adapter uses of its surroundings: the libraries of the packed reader, the plain SHA-1, the
  file system, the canonical form of paths, the checks and reads that follow symbolic links, the milliseconds elapsed at the \<open>n\<close>-th look at the clock,
  and the size a \<open>read\<close> call chooses to return (clipped to what \<open>Read\<close> allows).
\<close>

record 'z host =
  h_extern :: "'z extern"
  h_sha1 :: "bytes \<Rightarrow> bytes"
  h_world :: world
  h_canonicalize :: "string \<Rightarrow> string option"
  h_is_dir :: "string \<Rightarrow> bool"
  h_is_file :: "string \<Rightarrow> bool"
  h_exists :: "string \<Rightarrow> bool"
  h_read :: "string \<Rightarrow> bytes option"
  h_elapsed :: "nat \<Rightarrow> nat"
  h_chunk :: "nat \<Rightarrow> nat"

section \<open>Loose objects\<close>

datatype read_object_error =
    RE_Invalid | RE_Io | RE_LimitExceeded limit_kind nat | RE_Acquisition acquisition_error

definition validate_s1_loose_object_path ::
  "world \<Rightarrow> string \<Rightarrow> object_id \<Rightarrow> nat \<Rightarrow> (bool, read_object_error) result"
where
  "validate_s1_loose_object_path w git_dir oid compressed_ceiling =
     (case symlink_metadata w (path_join git_dir ''objects'') of
        Inl _ \<Rightarrow> Err RE_Io
      | Inr objects_root \<Rightarrow>
          if md_is_symlink objects_root \<or> \<not> md_is_dir objects_root then Err RE_Invalid
          else
            (case symlink_metadata w (loose_directory git_dir oid) of
               Inl NotFound \<Rightarrow> Ok False
             | Inl OtherIo \<Rightarrow> Err RE_Io
             | Inr fanout_directory \<Rightarrow>
                 if md_is_symlink fanout_directory \<or> \<not> md_is_dir fanout_directory then Err RE_Invalid
                 else
                   (case symlink_metadata w (loose_object_path git_dir oid) of
                      Inl NotFound \<Rightarrow> Ok False
                    | Inl OtherIo \<Rightarrow> Err RE_Io
                    | Inr loose_file \<Rightarrow>
                        if md_is_symlink loose_file \<or> \<not> md_is_file loose_file
                           \<or> md_len loose_file > compressed_ceiling
                        then Err RE_Invalid else Ok True)))"

text \<open>
  The body loop: every \<open>read\<close> returns between one byte and the capacity while the stream has bytes;
  the prefix grows to the capture limit and the hasher sees every accepted byte.
\<close>

definition read_amount :: "(nat \<Rightarrow> nat) \<Rightarrow> nat \<Rightarrow> nat \<Rightarrow> bytes \<Rightarrow> nat" where
  "read_amount chunk body_size observed rest =
     (let capacity = min (saturating_add (body_size - observed) 1) 8192 in
      min (length rest) (max 1 (min capacity (chunk observed))))"

lemma read_amount_pos: "rest \<noteq> [] \<Longrightarrow> 0 < read_amount chunk body_size observed rest"
  by (simp add: read_amount_def Let_def)

lemma read_amount_le: "read_amount chunk body_size observed rest \<le> length rest"
  by (simp add: read_amount_def Let_def)

function read_body ::
  "(nat \<Rightarrow> nat) \<Rightarrow> nat \<Rightarrow> nat \<Rightarrow> bytes \<Rightarrow> bool \<Rightarrow> nat \<Rightarrow> bytes \<Rightarrow> bytes \<Rightarrow>
   (nat \<times> bytes \<times> bytes, read_object_error) result"
where
  "read_body chunk body_size capture_limit rest clean observed prefix hashed =
     (if rest = [] then (if clean then Ok (observed, prefix, hashed) else Err RE_Invalid)
      else
        (let n = read_amount chunk body_size observed rest in
         and_then (ok_or RE_Invalid (checked_add observed n)) (\<lambda>observed'.
         if observed' > body_size then Err RE_Invalid
         else read_body chunk body_size capture_limit (drop n rest) clean observed'
                (prefix @ take (min n (capture_limit - length prefix)) rest) (hashed @ take n rest))))"
  by pat_completeness auto
termination
  by (relation "measure (\<lambda>(chunk, body_size, capture_limit, rest, clean, observed, prefix, hashed). length rest)")
    (simp_all add: read_amount_pos)

declare read_body.simps [simp del]

definition compressed_ceiling :: "nat \<Rightarrow> nat" where
  "compressed_ceiling body_ceiling = saturating_add (saturating_add body_ceiling (body_ceiling div 100)) 1024"

text \<open>The prefix that is kept when the caller does not say.\<close>

definition capture_of :: "nat option \<Rightarrow> git_object_kind \<Rightarrow> nat" where
  "capture_of requested kind = (case requested of None \<Rightarrow> default_capture kind | Some n \<Rightarrow> n)"

definition read_object_capped ::
  "'z host \<Rightarrow> string \<Rightarrow> object_id \<Rightarrow> nat option \<Rightarrow> declared_body_limit option \<Rightarrow> nat option \<Rightarrow>
   (git_object option, read_object_error) result"
where
  "read_object_capped h git_dir oid requested_capture_limit declared_body_limit body_ceiling =
     (let w = h_world h; path = loose_object_path git_dir oid in
      and_then (case body_ceiling of
                  None \<Rightarrow> Ok True
                | Some c \<Rightarrow> validate_s1_loose_object_path w git_dir oid (compressed_ceiling c)) (\<lambda>present.
      if \<not> present then Ok None
      else case open_error w path of
        Some NotFound \<Rightarrow> Ok None
      | Some OtherIo \<Rightarrow> Err RE_Io
      | None \<Rightarrow>
          (let (stream, clean) = decoded_stream (h_extern h) w path in
           and_then (read_header RE_Invalid RE_Invalid stream clean []) (\<lambda>(header, rest).
           and_then (ok_or RE_Invalid (parse_object_header header)) (\<lambda>(kind, body_size).
           and_then (case declared_body_limit of
                       None \<Rightarrow> Ok ()
                     | Some l \<Rightarrow>
                         fail_if (kind = Blob \<and> body_size > dbl_body_maximum l)
                           (RE_LimitExceeded (dbl_limit l) (saturating_add (dbl_observed_offset l) body_size))) (\<lambda>_.
           and_then (fail_if (case body_ceiling of None \<Rightarrow> False | Some m \<Rightarrow> body_size > m) RE_Invalid) (\<lambda>_.
           let capture_limit = capture_of requested_capture_limit kind in
           and_then (read_body (h_chunk h) body_size capture_limit rest clean 0 [] []) (\<lambda>(observed, prefix, hashed).
           and_then (fail_if (observed \<noteq> body_size) RE_Invalid) (\<lambda>_.
           if encode_lower_hex (h_sha1 h (header @ [0] @ hashed)) \<noteq> as_str oid then Err RE_Invalid
           else Ok (Some \<lparr>go_kind = kind, go_body_prefix = prefix, go_body_size = body_size\<rparr>)))))))))) "

section \<open>The database of an acquisition\<close>

datatype s1_object_database = LooseOnly string | Packed packed_db

definition s1_read_object ::
  "'z host \<Rightarrow> s1_object_database \<Rightarrow> object_id \<Rightarrow> nat option \<Rightarrow> declared_body_limit option \<Rightarrow> nat option \<Rightarrow>
   (git_object option \<times> s1_object_database, read_object_error) result"
where
  "s1_read_object h db oid capture_limit declared_body_limit body_ceiling =
     (case db of
        LooseOnly git_dir \<Rightarrow>
          and_then (read_object_capped h git_dir oid capture_limit declared_body_limit body_ceiling)
            (\<lambda>obj. Ok (obj, db))
      | Packed database \<Rightarrow>
          and_then (map_err RE_Acquisition
              (db_read_object (h_extern h) (h_world h) database oid capture_limit declared_body_limit body_ceiling))
            (\<lambda>(obj, database'). Ok (obj, Packed database')))"

definition s1_verify_unchanged :: "'z host \<Rightarrow> s1_object_database \<Rightarrow> (unit, repository_error) result" where
  "s1_verify_unchanged h db =
     (case db of
        LooseOnly _ \<Rightarrow> Ok ()
      | Packed database \<Rightarrow> map_err Acquisition (db_verify_unchanged (h_world h) database))"

section \<open>Required objects\<close>

definition s1_internal_object_bytes :: nat where
  "s1_internal_object_bytes = 33554432"

definition read_object ::
  "'z host \<Rightarrow> string \<Rightarrow> object_id \<Rightarrow> (git_object option, read_object_error) result" where
  "read_object h git_dir oid = read_object_capped h git_dir oid None None None"

fun revision_read_error :: "object_id \<Rightarrow> object_kind \<Rightarrow> read_object_error \<Rightarrow> repository_error" where
  "revision_read_error oid kind RE_Invalid = Acquisition (RepositoryInconsistent oid kind)"
| "revision_read_error oid kind RE_Io = Unexpected"
| "revision_read_error oid kind (RE_LimitExceeded _ _) = Unexpected"
| "revision_read_error oid kind (RE_Acquisition e) = Acquisition e"

definition required_revision_object ::
  "'z host \<Rightarrow> string \<Rightarrow> object_id \<Rightarrow> revision \<Rightarrow> (git_object, repository_error) result" where
  "required_revision_object h git_dir oid revision =
     and_then (map_err (revision_read_error oid OK_Commit) (read_object h git_dir oid)) (\<lambda>found.
     ok_or (Acquisition (RevisionNotFound revision)) found)"

definition required_s1_revision_object ::
  "'z host \<Rightarrow> s1_object_database \<Rightarrow> object_id \<Rightarrow> revision \<Rightarrow>
   (git_object \<times> s1_object_database, repository_error) result"
where
  "required_s1_revision_object h db oid revision =
     and_then (map_err (revision_read_error oid OK_Commit)
         (s1_read_object h db oid (Some 64) None (Some s1_internal_object_bytes))) (\<lambda>(found, db').
     and_then (ok_or (Acquisition (RevisionNotFound revision)) found) (\<lambda>obj. Ok (obj, db')))"

definition required_referenced_object ::
  "'z host \<Rightarrow> string \<Rightarrow> object_id \<Rightarrow> object_kind \<Rightarrow> object_id \<Rightarrow> (git_object, repository_error) result" where
  "required_referenced_object h git_dir oid kind referenced_by =
     and_then (map_err (revision_read_error oid kind) (read_object h git_dir oid)) (\<lambda>found.
     ok_or (Acquisition (ObjectMissing oid kind referenced_by)) found)"

fun referenced_read_error :: "object_id \<Rightarrow> object_kind \<Rightarrow> read_object_error \<Rightarrow> repository_error" where
  "referenced_read_error oid kind RE_Invalid = Acquisition (RepositoryInconsistent oid kind)"
| "referenced_read_error oid kind (RE_LimitExceeded limit observed) = Acquisition (limit_exceeded limit observed)"
| "referenced_read_error oid kind RE_Io = Unexpected"
| "referenced_read_error oid kind (RE_Acquisition e) = Acquisition e"

definition required_referenced_object_with_capture ::
  "'z host \<Rightarrow> s1_object_database \<Rightarrow> object_id \<Rightarrow> object_kind \<Rightarrow> object_id \<Rightarrow> nat \<Rightarrow> declared_body_limit option \<Rightarrow> nat \<Rightarrow>
   (git_object \<times> s1_object_database, repository_error) result"
where
  "required_referenced_object_with_capture h db oid kind referenced_by capture_limit declared_body_limit body_ceiling =
     and_then (map_err (referenced_read_error oid kind)
         (s1_read_object h db oid (Some capture_limit) declared_body_limit (Some body_ceiling))) (\<lambda>(found, db').
     and_then (ok_or (Acquisition (ObjectMissing oid kind referenced_by)) found) (\<lambda>obj. Ok (obj, db')))"

fun blob_read_error :: "bool \<Rightarrow> nat \<Rightarrow> object_id \<Rightarrow> read_object_error \<Rightarrow> boundary_acquisition_error" where
  "blob_read_error boundary_selected single_file_bytes oid RE_Invalid =
     BA_Repository (Acquisition (RepositoryInconsistent oid OK_Blob))"
| "blob_read_error boundary_selected single_file_bytes oid (RE_LimitExceeded limit observed) =
     (if boundary_selected then BA_Boundary (boundary_limit_exceeded GitmodulesBytes observed)
      else BA_Repository (Acquisition (LimitExceeded limit
             (if limit = SingleFileBytes then single_file_bytes else limit_maximum limit) observed)))"
| "blob_read_error boundary_selected single_file_bytes oid RE_Io = BA_Repository Unexpected"
| "blob_read_error boundary_selected single_file_bytes oid (RE_Acquisition e) = BA_Repository (Acquisition e)"

definition required_regular_blob ::
  "'z host \<Rightarrow> s1_object_database \<Rightarrow> object_id \<Rightarrow> object_id \<Rightarrow> nat \<Rightarrow> nat \<Rightarrow> bool \<Rightarrow>
   (git_object \<times> s1_object_database, boundary_acquisition_error) result"
where
  "required_regular_blob h db oid referenced_by cumulative_file_bytes single_file_bytes boundary_gitmodules =
     (let inherited = s1_blob_body_limit cumulative_file_bytes single_file_bytes;
          boundary_selected = boundary_gitmodules \<and> max_gitmodules_bytes < dbl_body_maximum inherited;
          limit = (if boundary_selected
                   then \<lparr>dbl_limit = SingleFileBytes, dbl_body_maximum = max_gitmodules_bytes, dbl_observed_offset = 0\<rparr>
                   else inherited);
          capture_limit = dbl_body_maximum limit in
      and_then (map_err (blob_read_error boundary_selected single_file_bytes oid)
          (s1_read_object h db oid (Some capture_limit) (Some limit) (Some capture_limit))) (\<lambda>(found, db').
      and_then (ok_or (BA_Repository (Acquisition (ObjectMissing oid OK_Blob referenced_by))) found) (\<lambda>obj.
      Ok (obj, db'))))"

section \<open>The body loop does not depend on how the stream is cut\<close>

lemma take_append_take: "k \<le> n \<Longrightarrow> take k xs @ take (n - k) (drop k xs) = take n xs"
  by (metis le_add_diff_inverse take_add)

lemma capture_step:
  fixes prefix rest :: bytes
  assumes "n \<le> length rest"
  shows "(prefix @ take (min n (c - length prefix)) rest) @
      take (c - length (prefix @ take (min n (c - length prefix)) rest)) (drop n rest) =
    prefix @ take (c - length prefix) rest"
proof (cases "n \<le> c - length prefix")
  case True
  with assms have "c - length (prefix @ take n rest) = (c - length prefix) - n" by simp
  with True take_append_take [OF True, of rest] show ?thesis by (simp add: min_absorb1)
next
  case False
  with assms show ?thesis by (auto simp: min_def)
qed

lemma read_body_eq:
  assumes "observed \<le> body_size" "body_size \<le> u64_max"
  shows "read_body chunk body_size c rest clean observed prefix hashed =
    (if clean \<and> observed + length rest \<le> body_size
     then Ok (observed + length rest, prefix @ take (c - length prefix) rest, hashed @ rest) else Err RE_Invalid)"
  using assms
proof (induction chunk body_size c rest clean observed prefix hashed rule: read_body.induct)
  case (1 chunk body_size c rest clean observed prefix hashed)
  show ?case
  proof (cases "rest = []")
    case True
    with "1.prems" show ?thesis by (simp add: read_body.simps)
  next
    case False
    define n where "n = read_amount chunk body_size observed rest"
    have le: "n \<le> length rest" unfolding n_def by (rule read_amount_le)
    show ?thesis
    proof (cases "observed + n \<le> body_size")
      case True
      then have add: "checked_add observed n = Some (observed + n)"
        using "1.prems"(2) by (simp add: checked_add_def)
      have "read_body chunk body_size c rest clean observed prefix hashed =
          read_body chunk body_size c (drop n rest) clean (observed + n)
            (prefix @ take (min n (c - length prefix)) rest) (hashed @ take n rest)"
        using False True by (subst read_body.simps) (simp add: Let_def add n_def [symmetric])
      also have "\<dots> = (if clean \<and> observed + length rest \<le> body_size
          then Ok (observed + length rest, prefix @ take (c - length prefix) rest, hashed @ rest) else Err RE_Invalid)"
        using "1.IH" [OF False n_def, of "observed + n"] add True "1.prems"(2) le
        by (simp only: capture_step [OF le]) (simp add: append_assoc)
      finally show ?thesis .
    next
      case out: False
      have "and_then (ok_or RE_Invalid (checked_add observed n)) (\<lambda>observed'.
         if observed' > body_size then Err RE_Invalid else f observed') = Err RE_Invalid" for f
        using out by (cases "checked_add observed n") (auto simp: checked_add_def split: if_splits)
      with False out le show ?thesis by (subst read_body.simps) (auto simp: Let_def n_def)
    qed
  qed
qed

section \<open>The contract of a reader\<close>

text \<open>
  A reader is asked for an object with a capture length, a limit on blob bodies and a ceiling on any
  body. On valid databases it does not panic, stays valid, and what it returns describes a body stored
  under the identifier that respects both bounds, with the captured prefix of it.
\<close>

locale object_reader =
  fixes read :: "'db \<Rightarrow> object_id \<Rightarrow> nat option \<Rightarrow> declared_body_limit option \<Rightarrow> nat option \<Rightarrow>
      (git_object option \<times> 'db, 'e) result"
    and valid :: "'db \<Rightarrow> bool"
    and stored :: "object_id \<Rightarrow> git_object_kind \<Rightarrow> bytes \<Rightarrow> bool"
  assumes read_total: "valid db \<Longrightarrow> read db oid c d m \<noteq> Panic"
    and read_valid: "valid db \<Longrightarrow> read db oid c d m = Ok (found, db') \<Longrightarrow> valid db'"
    and read_found: "valid db \<Longrightarrow> read db oid c d m = Ok (Some obj, db') \<Longrightarrow>
      \<exists>body. stored oid (go_kind obj) body \<and> go_body_size obj = length body \<and>
        go_body_prefix obj = take (capture_of c (go_kind obj)) body \<and>
        (\<forall>l. d = Some l \<longrightarrow> go_kind obj = Blob \<longrightarrow> length body \<le> dbl_body_maximum l) \<and>
        (\<forall>k. m = Some k \<longrightarrow> length body \<le> k)"
begin

text \<open>With a capture as long as the ceiling the prefix is the whole body.\<close>

lemma read_whole:
  assumes "valid db" "read db oid (Some n) d (Some n) = Ok (Some obj, db')"
  shows "stored oid (go_kind obj) (go_body_prefix obj)" "length (go_body_prefix obj) = go_body_size obj"
    "go_body_size obj \<le> n"
  using read_found [OF assms] by (auto simp: capture_of_def)

lemma read_blob_limit:
  assumes "valid db" "read db oid (Some n) (Some l) (Some n) = Ok (Some obj, db')" "go_kind obj = Blob"
  shows "go_body_size obj \<le> dbl_body_maximum l"
  using read_found [OF assms(1,2)] assms(3) by auto

end

definition object_stored :: "'z host \<Rightarrow> object_id \<Rightarrow> git_object_kind \<Rightarrow> bytes \<Rightarrow> bool" where
  "object_stored h oid kind body \<longleftrightarrow>
     (\<exists>header digest. parse_object_header header = Some (kind, length body) \<and>
        (h_sha1 h (header @ [0] @ body) = digest \<or> ext_sha (h_extern h) (header @ [0] @ body) = Some digest) \<and>
        from_bytes digest = oid)"

lemma encode_lower_hex_eq: "encode_lower_hex bs = as_str (from_bytes bs)"
proof -
  have "unat (drop_bit 4 b) = unat b div 16" "unat (b AND 15) = unat b mod 16" for b :: byte
    using and_low_bits [of "unat b" 4]
    by (simp_all only: unsigned_drop_bit_eq unsigned_and_eq) (simp_all add: drop_bit_eq_div take_bit_eq_mod)
  then have "(\<lambda>b. [hex_digit (unat (drop_bit 4 b)), hex_digit (unat (b AND 15))]) = byte_hex"
    by (simp add: fun_eq_iff byte_hex_def)
  then show ?thesis by (simp add: encode_lower_hex_def from_bytes_def)
qed

lemma validate_path_not_Panic [simp]: "validate_s1_loose_object_path w git_dir oid n \<noteq> Panic"
  by (simp add: validate_s1_loose_object_path_def split: sum.splits io_error.splits)

lemma parse_object_header_u64: "parse_object_header header = Some (kind, n) \<Longrightarrow> n \<le> u64_max"
  by (auto simp: parse_object_header_def parse_decimal_def Let_def split: option.splits if_splits list.splits)

lemma read_header_not_Panic [simp]: "read_header io sz stream clean header \<noteq> Panic"
  using fails_only_not_Panic [OF read_header_outcome [of "\<lambda>_. True"]] by simp

lemma read_body_not_Panic: "body_size \<le> u64_max \<Longrightarrow> read_body chunk body_size c rest clean 0 [] [] \<noteq> Panic"
  by (simp add: read_body_eq)

lemma read_object_capped_not_Panic: "read_object_capped h git_dir oid c d m \<noteq> Panic"
  by (auto simp: read_object_capped_def Let_def result_iffs read_body_not_Panic
      split: option.splits io_error.splits prod.splits if_splits dest!: parse_object_header_u64)

lemma read_object_capped_Some:
  assumes "read_object_capped h git_dir oid c d m = Ok (Some obj)"
  shows "\<exists>body. object_stored h oid (go_kind obj) body \<and> go_body_size obj = length body \<and>
        go_body_prefix obj = take (capture_of c (go_kind obj)) body \<and>
        (\<forall>l. d = Some l \<longrightarrow> go_kind obj = Blob \<longrightarrow> length body \<le> dbl_body_maximum l) \<and>
        (\<forall>k. m = Some k \<longrightarrow> length body \<le> k)"
proof -
  from assms obtain header rest kind n clean prefix hashed where
    p: "parse_object_header header = Some (kind, n)"
    and l: "\<forall>l. d = Some l \<longrightarrow> kind = Blob \<longrightarrow> n \<le> dbl_body_maximum l" "\<forall>k. m = Some k \<longrightarrow> n \<le> k"
    and b: "read_body (h_chunk h) n (capture_of c kind) rest clean 0 [] [] =
       Ok (n, prefix, hashed)"
    and o: "encode_lower_hex (h_sha1 h (header @ [0] @ hashed)) = as_str oid"
    and obj: "obj = \<lparr>go_kind = kind, go_body_prefix = prefix, go_body_size = n\<rparr>"
    by (auto simp: read_object_capped_def Let_def result_iffs not_less
        split: option.splits io_error.splits prod.splits if_splits)
  from b parse_object_header_u64 [OF p] have "hashed = rest" "length rest = n"
    "prefix = take (capture_of c kind) rest"
    by (auto simp: read_body_eq split: if_splits)
  moreover have "from_bytes (h_sha1 h (header @ [0] @ hashed)) = oid"
    using o by (simp add: encode_lower_hex_eq object_id.expand)
  ultimately show ?thesis
    using p l obj by (intro exI [of _ rest]) (auto simp: object_stored_def)
qed

section \<open>The readers of the adapter\<close>

interpretation loose_reader: object_reader
  "\<lambda>git_dir oid c d m. and_then (read_object_capped h git_dir oid c d m) (\<lambda>obj. Ok (obj, git_dir))"
  "\<lambda>_. True" "object_stored h" for h
  by unfold_locales (auto simp: result_iffs read_object_capped_not_Panic dest: read_object_capped_Some)

lemma object_hashes_stored: "object_hashes (h_extern h) oid \<lparr>ro_kind = k, ro_body = body\<rparr> \<Longrightarrow> object_stored h oid k body"
  by (auto simp: object_hashes_def object_stored_def)

interpretation packed_reader: object_reader "db_read_object (h_extern h) (h_world h)" "db_ok (h_extern h)"
  "object_stored h" for h
proof (unfold_locales, goal_cases)
  case (1 db oid c d m)
  then show ?case using db_read_object_sound(1) fails_only_not_Panic by blast
next
  case (2 db oid c d m found db')
  then show ?case using db_read_object_sound(2) by blast
next
  case (3 db oid c d m obj db')
  from db_read_object_sound(2) [OF this] show ?case
    by (auto simp: bounds_check_Ok_iff capture_of_def intro: object_hashes_stored)
qed

fun s1_valid :: "'z host \<Rightarrow> s1_object_database \<Rightarrow> bool" where
  "s1_valid h (LooseOnly git_dir) \<longleftrightarrow> True"
| "s1_valid h (Packed db) \<longleftrightarrow> db_ok (h_extern h) db"

interpretation s1_reader: object_reader "s1_read_object h" "s1_valid h" "object_stored h" for h
proof (unfold_locales, goal_cases)
  case (1 db oid c d m)
  then show ?case
    using packed_reader.read_total [of h]
    by (cases db) (auto simp: s1_read_object_def result_iffs read_object_capped_not_Panic)
next
  case (2 db oid c d m found db')
  then show ?case
    using packed_reader.read_valid [of h] by (cases db) (auto simp: s1_read_object_def result_iffs)
next
  case (3 db oid c d m obj db')
  then show ?case
    using packed_reader.read_found [of h]
    by (cases db) (auto simp: s1_read_object_def result_iffs dest: read_object_capped_Some)
qed

end
