(* ===== verification/Internal_Symlinks.thy ===== *)
theory Internal_Symlinks
  imports Git_Objects Ordered_Map
begin

text \<open>
  Bounded resolution of committed symbolic links inside an immutable Git tree
  (\<open>codenoesis-repository/src/internal_symlinks.rs\<close>). No host path is followed: the entries of the
  tree are a map from paths, and a link is expanded by replacing its component by the components of
  its target, at most 32 times.
\<close>

section \<open>Entries and targets\<close>

definition max_target_bytes :: nat where "max_target_bytes = 1024"

definition max_expansions :: nat where "max_expansions = 32"

datatype link_entry = LE_File object_id | LE_Directory object_id | LE_Link object_id bytes | LE_Gitlink

datatype symlink_target_kind = TargetFile | TargetDirectory

fun is_ok :: "('a, 'e) result \<Rightarrow> bool" where
  "is_ok (Ok _) \<longleftrightarrow> True"
| "is_ok _ \<longleftrightarrow> False"

text \<open>The component loop of \<open>target_components\<close>.\<close>

fun check_components :: "string list \<Rightarrow> string list option" where
  "check_components [] = Some []"
| "check_components (component # components) =
     (if component = [] then None
      else if component \<noteq> ''.'' \<and> component \<noteq> ''..'' \<and>
              (\<not> is_ok (validate_s1_path_component (as_bytes component)) \<or> length component > 255)
      then None
      else map_option ((#) component) (check_components components))"

definition strip_suffix_slash :: "string \<Rightarrow> string" where
  "strip_suffix_slash s = (if ends_with ''/'' s then butlast s else s)"

definition target_components :: "bytes \<Rightarrow> (string list \<times> bool) option" where
  "target_components bs =
     (if bs = [] \<or> length bs > max_target_bytes then None
      else
        (case from_utf8 bs of
           None \<Rightarrow> None
         | Some target \<Rightarrow>
             if starts_with ''/'' target \<or> CHR 0x5C \<in> set target \<or> list_ex is_control (text_chars target)
                \<or> ends_with '':'' (hd (split_on CHR ''/'' target))
             then None
             else
               map_option (\<lambda>components. (components, ends_with ''/'' target))
                 (check_components (split_on CHR ''/'' (strip_suffix_slash target)))))"

section \<open>Resolution\<close>

text \<open>
  The loop of \<open>resolve\<close>: the pending components, the resolved path, the number of expansions and
  whether a trailing slash asked for a directory.
\<close>

definition current_path :: "string list \<Rightarrow> string" where
  "current_path resolved = join_with CHR ''/'' resolved"

function link_loop ::
  "(string, link_entry) btree \<Rightarrow> string list \<Rightarrow> string list \<Rightarrow> nat \<Rightarrow> bool \<Rightarrow> (string list \<times> bool) option"
where
  "link_loop entries [] resolved expansions directory_required = Some (resolved, directory_required)"
| "link_loop entries (component # pending) resolved expansions directory_required =
     (if component = ''.'' then link_loop entries pending resolved expansions directory_required
      else if component = ''..'' then
        (if resolved = [] then None
         else link_loop entries pending (butlast resolved) expansions directory_required)
      else if \<not> is_ok (check_path_limits (current_path (resolved @ [component])) (as_bytes component) (length resolved + 1))
      then None
      else
        (case bt_get entries (current_path (resolved @ [component])) of
           None \<Rightarrow> None
         | Some (LE_Link blob_oid bs) \<Rightarrow>
             if expansions + 1 > max_expansions then None
             else
               (case target_components bs of
                  None \<Rightarrow> None
                | Some (target, needs_directory) \<Rightarrow>
                    link_loop entries (target @ pending) resolved (expansions + 1)
                      (directory_required \<or> (pending = [] \<and> needs_directory)))
         | Some (LE_File oid) \<Rightarrow>
             if pending \<noteq> [] then None
             else link_loop entries pending (resolved @ [component]) expansions directory_required
         | Some (LE_Directory oid) \<Rightarrow>
             link_loop entries pending (resolved @ [component]) expansions directory_required
         | Some LE_Gitlink \<Rightarrow> None))"
  by pat_completeness auto
termination
  by (relation "measures [\<lambda>(entries, pending, resolved, expansions, d). max_expansions - expansions,
      \<lambda>(entries, pending, resolved, expansions, d). length pending]") auto

declare link_loop.simps [simp del]

definition resolve_link ::
  "(string, link_entry) btree \<Rightarrow> string \<Rightarrow> (string \<times> object_id \<times> symlink_target_kind) option"
where
  "resolve_link entries path =
     (case link_loop entries (split_on CHR ''/'' path) [] 0 False of
        None \<Rightarrow> None
      | Some (resolved, directory_required) \<Rightarrow>
          (case bt_get entries (current_path resolved) of
             Some (LE_File oid) \<Rightarrow>
               if directory_required then None else Some (current_path resolved, oid, TargetFile)
           | Some (LE_Directory oid) \<Rightarrow> Some (current_path resolved, oid, TargetDirectory)
           | _ \<Rightarrow> None))"

section \<open>Containment\<close>

text \<open>
  A resolved path is a chain of directories of the tree: every proper prefix is a directory entry and
  no component is a dot name, so the path names an entry below the root of the tree.
\<close>

definition is_directory :: "(string, link_entry) btree \<Rightarrow> string list \<Rightarrow> bool" where
  "is_directory entries r \<longleftrightarrow> (\<exists>oid. bt_get entries (current_path r) = Some (LE_Directory oid))"

definition within_limits :: "string list \<Rightarrow> bool" where
  "within_limits r \<longleftrightarrow> is_ok (check_path_limits (current_path r) (as_bytes (last r)) (length r))"

definition chain :: "(string, link_entry) btree \<Rightarrow> string list \<Rightarrow> bool" where
  "chain entries r \<longleftrightarrow>
     (\<forall>k. 0 < k \<longrightarrow> k < length r \<longrightarrow> is_directory entries (take k r)) \<and>
     (\<forall>k. 0 < k \<longrightarrow> k \<le> length r \<longrightarrow> within_limits (take k r)) \<and>
     (\<forall>c \<in> set r. c \<noteq> ''.'' \<and> c \<noteq> ''..'' \<and> CHR ''/'' \<notin> set c)"

lemma chain_Nil [simp]: "chain entries []"
  by (simp add: chain_def)

lemma chain_snoc:
  assumes "chain entries r" "r = [] \<or> is_directory entries r" "c \<noteq> ''.''" "c \<noteq> ''..''" "CHR ''/'' \<notin> set c"
    and "within_limits (r @ [c])"
  shows "chain entries (r @ [c])"
proof -
  have "is_directory entries (take k (r @ [c]))" if "0 < k" "k < length (r @ [c])" for k
  proof (cases "k < length r")
    case True
    with assms(1) that show ?thesis by (simp add: chain_def)
  next
    case False
    with that assms(2) have "k = length r" "is_directory entries r" by auto
    then show ?thesis by simp
  qed
  moreover have "within_limits (take k (r @ [c]))" if "0 < k" "k \<le> length (r @ [c])" for k
  proof (cases "k \<le> length r")
    case True
    with assms(1) that show ?thesis by (simp add: chain_def)
  next
    case False
    with that assms(6) show ?thesis by simp
  qed
  ultimately show ?thesis using assms(1,3-5) by (auto simp: chain_def)
qed

lemma chain_butlast:
  assumes "chain entries r" "r \<noteq> []"
  shows "chain entries (butlast r)" "butlast r = [] \<or> is_directory entries (butlast r)"
proof -
  have b: "butlast r = take (length r - 1) r" by (simp add: butlast_conv_take)
  show "chain entries (butlast r)"
    using assms(1) unfolding chain_def b by (auto dest: in_set_takeD)
  show "butlast r = [] \<or> is_directory entries (butlast r)"
  proof (cases "butlast r = []")
    case False
    then have "0 < length r - 1" "length r - 1 < length r" unfolding b by auto
    with assms(1) show ?thesis unfolding b chain_def by blast
  qed simp
qed

lemma chain_depth: "chain entries r \<Longrightarrow> length r \<le> limit_maximum RecursionDepth"
proof (cases "r = []")
  case False
  assume "chain entries r"
  with False have "within_limits (take (length r) r)" unfolding chain_def by (metis length_greater_0_conv order_refl)
  then show ?thesis by (auto simp: within_limits_def check_path_limits_def split: if_splits)
qed simp

lemma split_on_sep_free: "c \<in> set (split_on sep s) \<Longrightarrow> sep \<notin> set c"
  by (induction s arbitrary: c) (auto split: if_splits list.splits)

lemma check_components_set: "check_components cs = Some ds \<Longrightarrow> ds = cs"
  by (induction cs arbitrary: ds) (auto split: if_splits)

lemma target_components_sep_free:
  "target_components bs = Some (target, needs) \<Longrightarrow> \<forall>c \<in> set target. CHR ''/'' \<notin> set c"
  by (auto simp: target_components_def dest!: check_components_set split_on_sep_free split: if_splits option.splits)

lemma link_loop_chain:
  assumes "link_loop entries pending resolved n d = Some (r, d')"
    and "chain entries resolved" "pending \<noteq> [] \<Longrightarrow> resolved = [] \<or> is_directory entries resolved"
    and "\<forall>c \<in> set pending. CHR ''/'' \<notin> set c"
  shows "chain entries r"
  using assms
proof (induction entries pending resolved n d rule: link_loop.induct)
  case (1 entries resolved n d)
  then show ?case by (simp add: link_loop.simps)
next
  case (2 entries c pending resolved n d)
  note eq = "2.prems"(1) [unfolded link_loop.simps(2)]
  from "2.prems"(3) have dir: "resolved = [] \<or> is_directory entries resolved" by simp
  consider (dot) "c = ''.''" | (up) "c = ''..''" "c \<noteq> ''.''" | (name) "c \<noteq> ''.''" "c \<noteq> ''..''" by blast
  then show ?case
  proof cases
    case dot
    with eq "2.prems" dir show ?thesis by (intro "2.IH"(1)) auto
  next
    case up
    with eq have ne: "resolved \<noteq> []" by (auto split: if_splits)
    from up ne eq show ?thesis
      by (intro "2.IH"(2)) (use chain_butlast [OF "2.prems"(2) ne] "2.prems"(4) in auto)
  next
    case name
    with eq have lim: "is_ok (check_path_limits (current_path (resolved @ [c])) (as_bytes c) (length resolved + 1))"
      by (auto split: if_splits)
    then have "within_limits (resolved @ [c])" by (simp add: within_limits_def)
    with "2.prems"(4) have ch: "chain entries (resolved @ [c])" by (intro chain_snoc [OF "2.prems"(2) dir name]) auto
    from name lim eq obtain e where e: "bt_get entries (current_path (resolved @ [c])) = Some e"
      by (auto split: if_splits option.splits)
    show ?thesis
    proof (cases e)
      case (LE_File oid)
      with name lim eq e have "pending = []" "link_loop entries pending (resolved @ [c]) n d = Some (r, d')"
        by (auto split: if_splits)
      with ch show ?thesis by (simp add: link_loop.simps)
    next
      case (LE_Directory oid)
      with name lim eq e have "link_loop entries pending (resolved @ [c]) n d = Some (r, d')" by auto
      moreover have "is_directory entries (resolved @ [c])" using e LE_Directory by (simp add: is_directory_def)
      ultimately show ?thesis
        by (intro "2.IH"(4) [OF name, of e oid]) (use lim e LE_Directory ch "2.prems"(4) in auto)
    next
      case (LE_Link oid bs)
      with name lim eq e obtain target needs where t: "\<not> n + 1 > max_expansions"
        "target_components bs = Some (target, needs)"
        "link_loop entries (target @ pending) resolved (n + 1) (d \<or> (pending = [] \<and> needs)) = Some (r, d')"
        by (auto split: if_splits option.splits)
      then show ?thesis
        using "2.IH"(5) [OF name, of e oid bs "(target, needs)" target needs] lim e LE_Link "2.prems"(2,4) dir
          target_components_sep_free [OF t(2)] by auto
    next
      case LE_Gitlink
      with name lim eq e show ?thesis by auto
    qed
  qed
qed

text \<open>A path that is a chain of directories ending in a file or directory resolves to itself.\<close>

definition is_target :: "(string, link_entry) btree \<Rightarrow> string list \<Rightarrow> bool" where
  "is_target entries r \<longleftrightarrow> (\<exists>oid. bt_get entries (current_path r) \<in> {Some (LE_File oid), Some (LE_Directory oid)})"

lemma link_loop_plain:
  assumes "chain entries (pre @ post)" "is_target entries (pre @ post)"
  shows "link_loop entries post pre n d = Some (pre @ post, d)"
  using assms
proof (induction post arbitrary: pre)
  case Nil
  then show ?case by (simp add: link_loop.simps)
next
  case (Cons c post)
  have names: "c \<noteq> ''.''" "c \<noteq> ''..''" using Cons.prems(1) by (auto simp: chain_def)
  have take: "take (Suc (length pre)) (pre @ c # post) = pre @ [c]" by simp
  have "0 < Suc (length pre)" "Suc (length pre) \<le> length (pre @ c # post)" by simp_all
  then have "within_limits (take (Suc (length pre)) (pre @ c # post))"
    using Cons.prems(1) unfolding chain_def by blast
  then have lim: "is_ok (check_path_limits (current_path (pre @ [c])) (as_bytes c) (length pre + 1))"
    unfolding take by (simp add: within_limits_def)
  have IH: "link_loop entries post (pre @ [c]) n d = Some (pre @ c # post, d)"
    using Cons.IH [of "pre @ [c]"] Cons.prems by simp
  show ?case
  proof (cases "post = []")
    case True
    with names lim IH Cons.prems(2) show ?thesis by (auto simp: link_loop.simps is_target_def)
  next
    case False
    then have "0 < Suc (length pre)" "Suc (length pre) < length (pre @ c # post)" by auto
    then have "is_directory entries (take (Suc (length pre)) (pre @ c # post))"
      using Cons.prems(1) unfolding chain_def by blast
    then show ?thesis using names lim IH unfolding take by (auto simp: link_loop.simps is_directory_def)
  qed
qed

lemma resolve_link_Some:
  assumes "resolve_link entries path = Some (target, oid, kind)"
  obtains r where "target = current_path r" "chain entries r"
    "bt_get entries target = Some (case kind of TargetFile \<Rightarrow> LE_File oid | TargetDirectory \<Rightarrow> LE_Directory oid)"
proof -
  from assms obtain r d where l: "link_loop entries (split_on CHR ''/'' path) [] 0 False = Some (r, d)"
    and t: "target = current_path r"
      "bt_get entries target = Some (case kind of TargetFile \<Rightarrow> LE_File oid | TargetDirectory \<Rightarrow> LE_Directory oid)"
    by (auto simp: resolve_link_def split: option.splits link_entry.splits if_splits)
  have "chain entries r"
    using l by (rule link_loop_chain) (auto dest: split_on_sep_free)
  with t that show ?thesis by blast
qed

section \<open>Properties\<close>

text \<open>
  C6. Containment: resolving a committed link ends for every tree, and a result is an entry of the
  same tree, of the reported kind and identifier, that lies below the root: it is reached through
  directory entries only, within the depth limit, and none of its components is a dot name.
\<close>

theorem resolve_link_contained:
  "case resolve_link entries path of
     None \<Rightarrow> True
   | Some (target, oid, kind) \<Rightarrow>
       bt_get entries target = Some (case kind of TargetFile \<Rightarrow> LE_File oid | TargetDirectory \<Rightarrow> LE_Directory oid) \<and>
       (\<exists>r. target = current_path r \<and> chain entries r \<and> length r \<le> limit_maximum RecursionDepth)"
proof (cases "resolve_link entries path")
  case (Some res)
  obtain target oid kind where res: "res = (target, oid, kind)" by (cases res)
  from Some res have "resolve_link entries path = Some (target, oid, kind)" by simp
  then show ?thesis
    by (rule resolve_link_Some) (use Some res chain_depth in auto)
qed simp

text \<open>
  Resolution is idempotent: the target of a link resolves to itself, so no link is left in it.
\<close>

lemma resolve_link_idempotent:
  assumes "resolve_link entries path = Some (target, oid, kind)"
  shows "resolve_link entries target = Some (target, oid, kind)"
proof -
  from assms obtain r where r: "target = current_path r" "chain entries r"
    and e: "bt_get entries target = Some (case kind of TargetFile \<Rightarrow> LE_File oid | TargetDirectory \<Rightarrow> LE_Directory oid)"
    by (rule resolve_link_Some)
  have t: "is_target entries r" using e r(1) by (cases kind) (auto simp: is_target_def)
  have "\<exists>r'. link_loop entries (split_on CHR ''/'' target) [] 0 False = Some (r', False) \<and> current_path r' = target"
  proof (cases "r = []")
    case True
    then have "target = []" by (simp add: r current_path_def)
    with e show ?thesis
      by (intro exI [of _ "[[]]"]) (cases kind; simp add: link_loop.simps current_path_def check_path_limits_def as_bytes_def)
  next
    case False
    then have "split_on CHR ''/'' target = r"
      using r(2) unfolding r(1) current_path_def chain_def by (intro split_join) auto
    with link_loop_plain [of entries "[]" r 0 False] r t show ?thesis by simp
  qed
  with e show ?thesis by (cases kind) (auto simp: resolve_link_def)
qed

definition link_tree :: "(string, link_entry) btree" where
  "link_tree = [(''d'', LE_Directory (ObjectId ''1'')), (''d/f'', LE_File (ObjectId ''2'')),
     (''l'', LE_Link (ObjectId ''3'') (as_bytes ''d/../d/f''))]"

lemma resolve_link_idempotent_witness:
  "resolve_link link_tree ''l'' = Some (''d/f'', ObjectId ''2'', TargetFile) \<and>
   resolve_link link_tree ''d/f'' = Some (''d/f'', ObjectId ''2'', TargetFile)"
proof -
  have "resolve_link link_tree ''l'' = Some (''d/f'', ObjectId ''2'', TargetFile)" by code_simp
  with resolve_link_idempotent [OF this] show ?thesis by blast
qed

end
