(* ===== verification/Tree_Traversal.thy ===== *)
theory Tree_Traversal
  imports Object_Reader Internal_Symlinks
begin

text \<open>
  The traversal of a commit's tree (\<open>codenoesis-repository/src/lib.rs\<close>): the counters and collections
  of \<open>S1TraversalState\<close>, the acquisition of regular files and committed links, and the recursion over
  directories, bounded by the depth limit.
\<close>

section \<open>State\<close>

record acquired_file =
  af_path :: string
  af_mode :: regular_file_mode
  af_blob_oid :: object_id
  af_bytes :: bytes

record acquired_symlink =
  as_path :: string
  as_blob_oid :: object_id
  as_bytes_of :: bytes
  as_resolved_target :: string
  as_target_oid :: object_id
  as_target_kind :: symlink_target_kind

text \<open>\<open>started_at\<close> becomes the number of times the clock has been looked at.\<close>

record traversal_state =
  ts_looks :: nat
  ts_tree_entries :: nat
  ts_regular_files :: nat
  ts_cumulative_file_bytes :: nat
  ts_single_file_bytes :: nat
  ts_directory_count :: nat
  ts_canonical_paths :: "string set"
  ts_files :: "acquired_file list"
  ts_gitlinks :: "acquired_gitlink list option"
  ts_gitmodules :: "acquired_gitmodules option"
  ts_internal_symlinks :: bool
  ts_link_entries :: "(string, link_entry) btree"

definition new_state :: "nat \<Rightarrow> traversal_state" where
  "new_state single_file_bytes =
     \<lparr>ts_looks = 0, ts_tree_entries = 0, ts_regular_files = 0, ts_cumulative_file_bytes = 0,
      ts_single_file_bytes = single_file_bytes, ts_directory_count = 0, ts_canonical_paths = {},
      ts_files = [], ts_gitlinks = None, ts_gitmodules = None, ts_internal_symlinks = False, ts_link_entries = []\<rparr>"

definition new_boundaries :: "nat \<Rightarrow> traversal_state" where
  "new_boundaries single_file_bytes = (new_state single_file_bytes)\<lparr>ts_gitlinks := Some []\<rparr>"

definition collects_boundaries :: "traversal_state \<Rightarrow> bool" where
  "collects_boundaries st \<longleftrightarrow> ts_gitlinks st \<noteq> None"

definition observe_gitlink ::
  "string \<Rightarrow> object_id \<Rightarrow> object_id \<Rightarrow> traversal_state \<Rightarrow> (traversal_state, boundary_acquisition_error) result"
where
  "observe_gitlink path containing_tree_oid gitlink_oid st =
     and_then (ok_or (BA_Repository Unexpected) (ts_gitlinks st)) (\<lambda>gitlinks.
     and_then (map_err BA_Boundary (check_boundary_limit GitlinkEntries (length gitlinks + 1))) (\<lambda>_.
     Ok (st\<lparr>ts_gitlinks := Some (gitlinks @ [\<lparr>gl_path = path, gl_containing_tree_oid = containing_tree_oid,
              gl_gitlink_oid = gitlink_oid\<rparr>])\<rparr>)))"

definition check_time :: "'z host \<Rightarrow> traversal_state \<Rightarrow> (traversal_state, repository_error) result" where
  "check_time h st =
     (let observed = min (h_elapsed h (ts_looks st)) u64_max in
      if observed > limit_maximum ScanWallMilliseconds
      then Err (Acquisition (limit_exceeded ScanWallMilliseconds observed))
      else Ok (st\<lparr>ts_looks := ts_looks st + 1\<rparr>))"

definition observe_entry ::
  "string \<Rightarrow> object_id \<Rightarrow> traversal_state \<Rightarrow> (traversal_state, repository_error) result" where
  "observe_entry path parent_tree_oid st =
     and_then (ok_or Unexpected (checked_add (ts_tree_entries st) 1)) (\<lambda>n.
     if n > limit_maximum TreeEntries then Err (Acquisition (limit_exceeded TreeEntries n))
     else if path \<in> ts_canonical_paths st then Err (Acquisition (RepositoryInconsistent parent_tree_oid OK_Tree))
     else Ok (st\<lparr>ts_tree_entries := n, ts_canonical_paths := insert path (ts_canonical_paths st)\<rparr>))"

definition observe_regular_path :: "traversal_state \<Rightarrow> (traversal_state, repository_error) result" where
  "observe_regular_path st =
     and_then (ok_or Unexpected (checked_add (ts_regular_files st) 1)) (\<lambda>n.
     if n > limit_maximum RegularFiles then Err (Acquisition (limit_exceeded RegularFiles n))
     else Ok (st\<lparr>ts_regular_files := n\<rparr>))"

definition observe_file_bytes :: "nat \<Rightarrow> traversal_state \<Rightarrow> (traversal_state, repository_error) result" where
  "observe_file_bytes byte_length st =
     and_then (ok_or Unexpected (checked_add (ts_cumulative_file_bytes st) byte_length)) (\<lambda>n.
     if n > limit_maximum CumulativeFileBytes then Err (Acquisition (limit_exceeded CumulativeFileBytes n))
     else Ok (st\<lparr>ts_cumulative_file_bytes := n\<rparr>))"

definition entry_policy_error :: "string \<Rightarrow> entry_policy \<Rightarrow> repository_error" where
  "entry_policy_error path entry = Acquisition (EntryPolicyViolation path entry)"

definition insert_link :: "string \<Rightarrow> link_entry \<Rightarrow> traversal_state \<Rightarrow> traversal_state" where
  "insert_link path entry st = st\<lparr>ts_link_entries := bt_put path entry (ts_link_entries st)\<rparr>"

section \<open>Leaves\<close>

definition lfs_header :: bytes where
  "lfs_header = as_bytes ''version https://git-lfs.github.com/spec/v1'' @ [10]"

definition acquire_internal_symlink ::
  "'z host \<Rightarrow> s1_object_database \<Rightarrow> object_id \<Rightarrow> raw_tree_entry \<Rightarrow> string \<Rightarrow> traversal_state \<Rightarrow>
   (s1_object_database \<times> traversal_state, boundary_acquisition_error) result"
where
  "acquire_internal_symlink h db parent_tree_oid entry path st =
     and_then (required_regular_blob h db (te_object_id entry) parent_tree_oid (ts_cumulative_file_bytes st)
         max_target_bytes False) (\<lambda>(blob, db).
     and_then (fail_if (go_kind blob \<noteq> Blob \<or> go_body_size blob \<noteq> length (go_body_prefix blob))
         (BA_Repository (Acquisition (RepositoryInconsistent (te_object_id entry) OK_Blob)))) (\<lambda>_.
     and_then (map_err BA_Repository (observe_file_bytes (go_body_size blob) st)) (\<lambda>st.
     Ok (db, insert_link path (LE_Link (te_object_id entry) (go_body_prefix blob)) st))))"

definition acquire_regular_file ::
  "'z host \<Rightarrow> s1_object_database \<Rightarrow> object_id \<Rightarrow> raw_tree_entry \<Rightarrow> string \<Rightarrow> traversal_state \<Rightarrow>
   (s1_object_database \<times> traversal_state, boundary_acquisition_error) result"
where
  "acquire_regular_file h db parent_tree_oid entry path st =
     (let boundary_gitmodules = collects_boundaries st \<and> path = ''.gitmodules'' in
      and_then (required_regular_blob h db (te_object_id entry) parent_tree_oid (ts_cumulative_file_bytes st)
          (ts_single_file_bytes st) boundary_gitmodules) (\<lambda>(blob, db).
      and_then (fail_if (go_kind blob \<noteq> Blob)
          (BA_Repository (Acquisition (RepositoryInconsistent (te_object_id entry) OK_Blob)))) (\<lambda>_.
      and_then (fail_if (go_body_size blob > ts_single_file_bytes st)
          (BA_Repository (Acquisition (LimitExceeded SingleFileBytes (ts_single_file_bytes st) (go_body_size blob))))) (\<lambda>_.
      and_then (fail_if (starts_with lfs_header (go_body_prefix blob))
          (BA_Repository (Acquisition (UnsupportedRepositoryShape LfsMaterialization)))) (\<lambda>_.
      and_then (map_err BA_Repository (observe_file_bytes (go_body_size blob) st)) (\<lambda>st.
      let mode = (if te_mode entry = as_bytes ''100755'' then Executable else Regular);
          st = (if boundary_gitmodules
                then st\<lparr>ts_gitmodules := Some \<lparr>gm_mode = mode_str mode, gm_blob_oid = te_object_id entry,
                       gm_bytes = go_body_prefix blob\<rparr>\<rparr>
                else st) in
      Ok (db, st\<lparr>ts_files := ts_files st @ [\<lparr>af_path = path, af_mode = mode, af_blob_oid = te_object_id entry,
             af_bytes = go_body_prefix blob\<rparr>]\<rparr>)))))))"

text \<open>An unusual \<open>.gitmodules\<close> entry is recorded, not followed.\<close>

definition unusual_gitmodules :: "traversal_state \<Rightarrow> raw_tree_entry \<Rightarrow> string \<Rightarrow> bool" where
  "unusual_gitmodules st entry path \<longleftrightarrow>
     collects_boundaries st \<and> path = ''.gitmodules'' \<and> te_mode entry \<noteq> as_bytes ''100644''"

definition record_gitmodules ::
  "object_id \<Rightarrow> raw_tree_entry \<Rightarrow> string \<Rightarrow> traversal_state \<Rightarrow> (traversal_state, boundary_acquisition_error) result"
where
  "record_gitmodules tree_oid entry path st =
     and_then (map_err BA_Repository (observe_entry path tree_oid st)) (\<lambda>st.
     and_then (if te_mode entry = as_bytes ''160000''
               then observe_gitlink path tree_oid (te_object_id entry) st else Ok st) (\<lambda>st.
     Ok (st\<lparr>ts_gitmodules := Some
           \<lparr>gm_mode = (case from_utf8 (te_mode entry) of None \<Rightarrow> ''invalid'' | Some m \<Rightarrow> m),
            gm_blob_oid = te_object_id entry, gm_bytes = []\<rparr>\<rparr>)))"

definition directory_mode :: "bytes \<Rightarrow> bool" where
  "directory_mode mode \<longleftrightarrow> mode = as_bytes ''040000'' \<or> mode = as_bytes ''40000''"

definition regular_mode :: "bytes \<Rightarrow> bool" where
  "regular_mode mode \<longleftrightarrow> mode = as_bytes ''100644'' \<or> mode = as_bytes ''100755''"

text \<open>The arms of the mode match that do not descend.\<close>

definition visit_leaf ::
  "'z host \<Rightarrow> s1_object_database \<Rightarrow> object_id \<Rightarrow> raw_tree_entry \<Rightarrow> string \<Rightarrow> traversal_state \<Rightarrow>
   (s1_object_database \<times> traversal_state, boundary_acquisition_error) result"
where
  "visit_leaf h db tree_oid entry path st =
     (if unusual_gitmodules st entry path
      then and_then (record_gitmodules tree_oid entry path st) (\<lambda>st. Ok (db, st))
      else if regular_mode (te_mode entry) then
        and_then (map_err BA_Repository (observe_entry path tree_oid st)) (\<lambda>st.
        let st = (if ts_internal_symlinks st then insert_link path (LE_File (te_object_id entry)) st else st) in
        and_then (map_err BA_Repository (observe_regular_path st)) (\<lambda>st.
        acquire_regular_file h db tree_oid entry path st))
      else if te_mode entry = as_bytes ''120000'' then
        (if ts_internal_symlinks st then
           and_then (map_err BA_Repository (observe_entry path tree_oid st)) (\<lambda>st.
           acquire_internal_symlink h db tree_oid entry path st)
         else Err (BA_Repository (entry_policy_error path Symlink_entry)))
      else if te_mode entry = as_bytes ''160000'' then
        (if collects_boundaries st then
           and_then (map_err BA_Repository (observe_entry path tree_oid st)) (\<lambda>st.
           let st = (if ts_internal_symlinks st then insert_link path LE_Gitlink st else st) in
           and_then (observe_gitlink path tree_oid (te_object_id entry) st) (\<lambda>st. Ok (db, st)))
         else Err (BA_Repository (entry_policy_error path Gitlink_entry)))
      else Err (BA_Repository (entry_policy_error path SpecialFileMode)))"

section \<open>Directories\<close>

text \<open>\<open>traverse_directory\<close> up to its recursive call.\<close>

definition open_directory ::
  "'z host \<Rightarrow> s1_object_database \<Rightarrow> object_id \<Rightarrow> raw_tree_entry \<Rightarrow> traversal_state \<Rightarrow>
   (git_object \<times> s1_object_database \<times> traversal_state, boundary_acquisition_error) result"
where
  "open_directory h db parent_tree_oid entry st =
     and_then (map_err BA_Repository (required_referenced_object_with_capture h db (te_object_id entry) OK_Tree
         parent_tree_oid s1_tree_capture_limit None s1_tree_capture_limit)) (\<lambda>(child, db).
     and_then (fail_if (go_kind child \<noteq> Tree \<or> go_body_size child \<noteq> length (go_body_prefix child))
         (BA_Repository (Acquisition (RepositoryInconsistent (te_object_id entry) OK_Tree)))) (\<lambda>_.
     and_then (ok_or (BA_Repository Unexpected) (checked_add (ts_directory_count st) 1)) (\<lambda>n.
     Ok (child, db, st\<lparr>ts_directory_count := n\<rparr>))))"

text \<open>The directory arm of the match before \<open>traverse_directory\<close>.\<close>

definition enter_directory ::
  "'z host \<Rightarrow> s1_object_database \<Rightarrow> object_id \<Rightarrow> raw_tree_entry \<Rightarrow> string \<Rightarrow> traversal_state \<Rightarrow>
   (git_object \<times> s1_object_database \<times> traversal_state, boundary_acquisition_error) result"
where
  "enter_directory h db tree_oid entry path st =
     and_then (map_err BA_Repository (observe_entry path tree_oid st)) (\<lambda>st.
     let st = (if ts_internal_symlinks st then insert_link path (LE_Directory (te_object_id entry)) st else st) in
     open_directory h db tree_oid entry st)"

definition child_path :: "string \<Rightarrow> string \<Rightarrow> string" where
  "child_path prefix component = (if prefix = [] then component else prefix @ ''/'' @ component)"

text \<open>The checks every entry passes before its mode is looked at.\<close>

definition admit_entry ::
  "'z host \<Rightarrow> string \<Rightarrow> nat \<Rightarrow> raw_tree_entry \<Rightarrow> traversal_state \<Rightarrow>
   (string \<times> nat \<times> traversal_state, boundary_acquisition_error) result"
where
  "admit_entry h prefix parent_depth entry st =
     map_err BA_Repository
       (and_then (check_time h st) (\<lambda>st.
        and_then (validate_s1_path_component (te_name entry)) (\<lambda>component.
        let path = child_path prefix component in
        and_then (ok_or Unexpected (checked_add parent_depth 1)) (\<lambda>depth.
        and_then (check_path_limits path (te_name entry) depth) (\<lambda>_.
        Ok (path, depth, st))))))"

lemma admit_entry_depth:
  "admit_entry h prefix parent_depth entry st = Ok (path, depth, st') \<Longrightarrow> depth = Suc parent_depth \<and> depth \<le> 32"
  by (auto simp: admit_entry_def result_iffs check_path_limits_def checked_add_def Let_def split: if_splits)

function traverse_tree_object ::
    "'z host \<Rightarrow> s1_object_database \<Rightarrow> object_id \<Rightarrow> git_object \<Rightarrow> string \<Rightarrow> nat \<Rightarrow> traversal_state \<Rightarrow>
     (s1_object_database \<times> traversal_state, boundary_acquisition_error) result"
  and traverse_entries ::
    "'z host \<Rightarrow> s1_object_database \<Rightarrow> object_id \<Rightarrow> string \<Rightarrow> nat \<Rightarrow> raw_tree_entry list \<Rightarrow> traversal_state \<Rightarrow>
     (s1_object_database \<times> traversal_state, boundary_acquisition_error) result"
where
  "traverse_tree_object h db tree_oid tree prefix parent_depth st =
     and_then (map_err BA_Repository (check_time h st)) (\<lambda>st.
     and_then (ok_or (BA_Repository (Acquisition (RepositoryInconsistent tree_oid OK_Tree)))
         (parse_tree_entries (go_body_prefix tree))) (\<lambda>entries.
     traverse_entries h db tree_oid prefix parent_depth (sort_key te_name entries) st))"
| "traverse_entries h db tree_oid prefix parent_depth [] st = Ok (db, st)"
| "traverse_entries h db tree_oid prefix parent_depth (entry # entries) st =
     and_then (admit_entry h prefix parent_depth entry st) (\<lambda>(path, depth, st).
     and_then
       (if directory_mode (te_mode entry) \<and> \<not> unusual_gitmodules st entry path
        then and_then (enter_directory h db tree_oid entry path st) (\<lambda>(child, db, st).
             traverse_tree_object h db (te_object_id entry) child path depth st)
        else visit_leaf h db tree_oid entry path st) (\<lambda>(db, st).
     traverse_entries h db tree_oid prefix parent_depth entries st))"
  by pat_completeness auto
termination
  by (relation "measures
      [\<lambda>x. case x of Inl (h, db, tree_oid, tree, prefix, d, st) \<Rightarrow> 33 - d
         | Inr (h, db, tree_oid, prefix, d, entries, st) \<Rightarrow> 33 - d,
       \<lambda>x. case x of Inl _ \<Rightarrow> 1 | Inr _ \<Rightarrow> 0,
       \<lambda>x. case x of Inl _ \<Rightarrow> 0 | Inr (h, db, tree_oid, prefix, d, entries, st) \<Rightarrow> length entries]")
    (auto dest!: admit_entry_depth)

declare traverse_tree_object.simps [simp del] traverse_entries.simps [simp del]

section \<open>Committed links\<close>

fun resolve_links ::
  "'z host \<Rightarrow> (string, link_entry) btree \<Rightarrow> (string \<times> link_entry) list \<Rightarrow> traversal_state \<Rightarrow>
   (acquired_symlink list \<times> traversal_state, repository_error) result"
where
  "resolve_links h entries [] st = Ok ([], st)"
| "resolve_links h entries ((path, entry) # rest) st =
     and_then (check_time h st) (\<lambda>st.
     and_then (case entry of
         LE_Link blob_oid bs \<Rightarrow>
           and_then (ok_or (entry_policy_error path Symlink_entry) (resolve_link entries path))
             (\<lambda>(resolved_target, target_oid, target_kind).
              Ok [\<lparr>as_path = path, as_blob_oid = blob_oid, as_bytes_of = bs, as_resolved_target = resolved_target,
                   as_target_oid = target_oid, as_target_kind = target_kind\<rparr>])
       | _ \<Rightarrow> Ok []) (\<lambda>found.
     and_then (resolve_links h entries rest st) (\<lambda>(links, st). Ok (found @ links, st))))"

definition resolve_all ::
  "'z host \<Rightarrow> traversal_state \<Rightarrow> (acquired_symlink list \<times> traversal_state, repository_error) result" where
  "resolve_all h st = resolve_links h (ts_link_entries st) (ts_link_entries st) st"

section \<open>Invariant\<close>

text \<open>
  A path of the tree: the joined components, each accepted by the component check, no more of them
  than the depth limit and no more bytes than the path limit.
\<close>

definition component_ok :: "string \<Rightarrow> bool" where
  "component_ok c \<longleftrightarrow> validate_s1_path_component (as_bytes c) = Ok c"

definition path_ok :: "string \<Rightarrow> bool" where
  "path_ok p \<longleftrightarrow> (\<exists>r. p = current_path r \<and> r \<noteq> [] \<and> list_all component_ok r \<and>
     length r \<le> limit_maximum RecursionDepth) \<and> length p \<le> limit_maximum PathBytes"

fun link_size :: "link_entry \<Rightarrow> nat" where
  "link_size (LE_Link oid bs) = length bs"
| "link_size _ = 0"

fun link_stored :: "'z host \<Rightarrow> link_entry \<Rightarrow> bool" where
  "link_stored h (LE_Link oid bs) \<longleftrightarrow> object_stored h oid Blob bs \<and> length bs \<le> max_target_bytes"
| "link_stored h _ \<longleftrightarrow> True"

definition file_stored :: "'z host \<Rightarrow> nat \<Rightarrow> acquired_file \<Rightarrow> bool" where
  "file_stored h single f \<longleftrightarrow> object_stored h (af_blob_oid f) Blob (af_bytes f) \<and> length (af_bytes f) \<le> single"

text \<open>The counters agree with the collections, and everything collected is stored and in bounds.\<close>

definition paths_inv :: "traversal_state \<Rightarrow> bool" where
  "paths_inv st \<longleftrightarrow>
     finite (ts_canonical_paths st) \<and> card (ts_canonical_paths st) = ts_tree_entries st \<and>
     ts_tree_entries st \<le> limit_maximum TreeEntries \<and> (\<forall>p \<in> ts_canonical_paths st. path_ok p) \<and>
     distinct (map af_path (ts_files st)) \<and> (\<forall>f \<in> set (ts_files st). af_path f \<in> ts_canonical_paths st) \<and>
     bt_wf (ts_link_entries st) \<and> (\<forall>(p, e) \<in> set (ts_link_entries st). p \<in> ts_canonical_paths st)"

definition contents_inv :: "'z host \<Rightarrow> traversal_state \<Rightarrow> bool" where
  "contents_inv h st \<longleftrightarrow>
     ts_regular_files st \<le> limit_maximum RegularFiles \<and>
     (\<forall>f \<in> set (ts_files st). file_stored h (ts_single_file_bytes st) f) \<and>
     (\<forall>(p, e) \<in> set (ts_link_entries st). link_stored h e) \<and>
     ts_cumulative_file_bytes st =
       (\<Sum>f\<leftarrow>ts_files st. length (af_bytes f)) + (\<Sum>(p, e)\<leftarrow>ts_link_entries st. link_size e) \<and>
     ts_cumulative_file_bytes st \<le> limit_maximum CumulativeFileBytes \<and>
     (case ts_gitlinks st of None \<Rightarrow> True | Some gs \<Rightarrow> length gs \<le> boundary_maximum GitlinkEntries)"

definition state_inv :: "'z host \<Rightarrow> traversal_state \<Rightarrow> bool" where
  "state_inv h st \<longleftrightarrow> paths_inv st \<and> contents_inv h st \<and> ts_regular_files st = length (ts_files st)"

lemmas inv_defs = state_inv_def paths_inv_def contents_inv_def

lemma state_inv_irrelevant [simp]:
  "state_inv h (st\<lparr>ts_gitmodules := gm\<rparr>) \<longleftrightarrow> state_inv h st"
  "state_inv h (st\<lparr>ts_looks := n\<rparr>) \<longleftrightarrow> state_inv h st"
  "state_inv h (st\<lparr>ts_directory_count := n\<rparr>) \<longleftrightarrow> state_inv h st"
  by (simp_all add: inv_defs)

lemma current_path_snoc: "current_path (r @ [c]) = (if r = [] then c else current_path r @ ''/'' @ c)"
  unfolding current_path_def by (induction "CHR ''/''" r rule: join_with.induct) auto

lemma component_ok_nonempty: "component_ok c \<Longrightarrow> c \<noteq> []"
  by (auto simp: component_ok_def validate_s1_path_component_def as_bytes_def path_invalid_def)

lemma current_path_eq_Nil: "list_all component_ok r \<Longrightarrow> current_path r = [] \<longleftrightarrow> r = []"
  unfolding current_path_def
  by (induction "CHR ''/''" r rule: join_with.induct) (auto dest: component_ok_nonempty)

lemma child_path_current:
  "list_all component_ok r \<Longrightarrow> child_path (current_path r) c = current_path (r @ [c])"
  by (simp add: child_path_def current_path_snoc current_path_eq_Nil)

lemma validate_component_ok:
  assumes "validate_s1_path_component name = Ok c"
  shows "component_ok c" "as_bytes c = name"
proof -
  from assms show n: "as_bytes c = name"
    by (auto simp: validate_s1_path_component_def from_utf8_as_bytes split: option.splits if_splits)
  with assms show "component_ok c" by (simp add: component_ok_def)
qed

lemma admit_entry_Ok:
  assumes "admit_entry h (current_path r) (length r) entry st = Ok (path, depth, st')" "list_all component_ok r"
  obtains c where "component_ok c" "as_bytes c = te_name entry" "path = current_path (r @ [c])"
    "depth = length (r @ [c])" "path_ok path" "st' = st\<lparr>ts_looks := ts_looks st + 1\<rparr>"
proof -
  from assms obtain c where c: "validate_s1_path_component (te_name entry) = Ok c"
    and p: "path = current_path (r @ [c])" "depth = length r + 1" "check_path_limits path (te_name entry) depth = Ok ()"
    and "st' = st\<lparr>ts_looks := ts_looks st + 1\<rparr>"
    by (auto simp: admit_entry_def Let_def result_iffs child_path_current checked_add_def check_time_def
        split: if_splits)
  moreover have "path_ok path"
    using p assms(2) validate_component_ok(1) [OF c]
    by (auto simp: path_ok_def check_path_limits_def split: if_splits intro!: exI [of _ "r @ [c]"])
  ultimately show ?thesis using that validate_component_ok [OF c] by auto
qed

lemma observe_entry_inv:
  assumes "observe_entry path oid st = Ok st'" "paths_inv st" "path_ok path"
  shows "paths_inv st'" "path \<notin> ts_canonical_paths st" "path \<in> ts_canonical_paths st'"
    "st' = st\<lparr>ts_tree_entries := ts_tree_entries st + 1, ts_canonical_paths := insert path (ts_canonical_paths st)\<rparr>"
  using assms
  by (auto simp: observe_entry_def paths_inv_def result_iffs checked_add_def split: if_splits)

lemma contents_inv_observed:
  "contents_inv h (st\<lparr>ts_tree_entries := n, ts_canonical_paths := ps\<rparr>) \<longleftrightarrow> contents_inv h st"
  by (simp add: contents_inv_def)

lemma bt_get_None_keys: "k \<notin> fst ` set m \<Longrightarrow> bt_get m k = None"
  by (induction m) auto

lemma set_bt_put: "set (bt_put k v m) \<subseteq> insert (k, v) (set m)"
  by (induction k v m rule: bt_put.induct) auto

lemma insert_link_inv:
  assumes "paths_inv st" "path \<in> ts_canonical_paths st" "path \<notin> fst ` set (ts_link_entries st)" "link_stored h e"
  shows "paths_inv (insert_link path e st)"
    "contents_inv h st \<Longrightarrow> link_size e = 0 \<Longrightarrow> contents_inv h (insert_link path e st)"
    "contents_inv h (st\<lparr>ts_cumulative_file_bytes := ts_cumulative_file_bytes st - link_size e\<rparr>) \<Longrightarrow>
     link_size e \<le> ts_cumulative_file_bytes st \<Longrightarrow>
     ts_cumulative_file_bytes st \<le> limit_maximum CumulativeFileBytes \<Longrightarrow> contents_inv h (insert_link path e st)"
proof -
  have sum: "(\<Sum>(p, e)\<leftarrow>bt_put path e (ts_link_entries st). link_size e) =
      link_size e + (\<Sum>(p, e)\<leftarrow>ts_link_entries st. link_size e)"
    using bt_get_None_keys [OF assms(3)] by (rule bt_put_sum)
  note sub = set_bt_put [of path e "ts_link_entries st"]
  show "paths_inv (insert_link path e st)"
    using assms sub by (auto simp: paths_inv_def insert_link_def bt_wf_put)
  show "contents_inv h (insert_link path e st)" if "contents_inv h st" "link_size e = 0"
    using that sub assms(4) by (auto simp: contents_inv_def insert_link_def sum)
  show "contents_inv h (insert_link path e st)"
    if "contents_inv h (st\<lparr>ts_cumulative_file_bytes := ts_cumulative_file_bytes st - link_size e\<rparr>)"
      "link_size e \<le> ts_cumulative_file_bytes st" "ts_cumulative_file_bytes st \<le> limit_maximum CumulativeFileBytes"
    using that sub assms(4) by (auto simp: contents_inv_def insert_link_def sum)
qed

lemma required_regular_blob_Ok:
  assumes "required_regular_blob h db oid by' cumulative single boundary = Ok (blob, db')" "s1_valid h db"
  shows "s1_valid h db'" "object_stored h oid (go_kind blob) (go_body_prefix blob)"
    "length (go_body_prefix blob) = go_body_size blob" "go_body_size blob \<le> single"
proof -
  from assms(1) obtain n l where r: "s1_read_object h db oid (Some n) (Some l) (Some n) = Ok (Some blob, db')"
    and n: "n \<le> single"
    by (auto simp: required_regular_blob_def Let_def result_iffs s1_blob_body_limit_def s1_blob_capture_limit_def
        split: if_splits)
  from s1_reader.read_valid [OF assms(2) r] show "s1_valid h db'" .
  from s1_reader.read_whole [OF assms(2) r] n show "object_stored h oid (go_kind blob) (go_body_prefix blob)"
    "length (go_body_prefix blob) = go_body_size blob" "go_body_size blob \<le> single" by auto
qed

lemma observe_file_bytes_Ok:
  "observe_file_bytes n st = Ok st' \<longleftrightarrow>
   ts_cumulative_file_bytes st + n \<le> limit_maximum CumulativeFileBytes \<and>
   st' = st\<lparr>ts_cumulative_file_bytes := ts_cumulative_file_bytes st + n\<rparr>"
  by (auto simp: observe_file_bytes_def result_iffs checked_add_def u64_max_def split: if_splits)

lemma observe_regular_path_Ok:
  "observe_regular_path st = Ok st' \<longleftrightarrow>
   ts_regular_files st + 1 \<le> limit_maximum RegularFiles \<and> st' = st\<lparr>ts_regular_files := ts_regular_files st + 1\<rparr>"
  by (auto simp: observe_regular_path_def result_iffs checked_add_def u64_max_def split: if_splits)

lemma observe_gitlink_Ok:
  "observe_gitlink path t o' st = Ok st' \<longleftrightarrow>
   (\<exists>gs. ts_gitlinks st = Some gs \<and> length gs + 1 \<le> boundary_maximum GitlinkEntries \<and>
      st' = st\<lparr>ts_gitlinks := Some (gs @ [\<lparr>gl_path = path, gl_containing_tree_oid = t, gl_gitlink_oid = o'\<rparr>])\<rparr>)"
  by (auto simp: observe_gitlink_def result_iffs)

lemma observe_gitlink_inv:
  assumes "observe_gitlink path t o' st = Ok st'"
  shows "paths_inv st' \<longleftrightarrow> paths_inv st" "contents_inv h st \<Longrightarrow> contents_inv h st'"
    "ts_regular_files st' = ts_regular_files st" "ts_files st' = ts_files st"
  using assms by (auto simp: observe_gitlink_Ok paths_inv_def contents_inv_def)

text \<open>What a regular file adds to the state.\<close>

lemma acquire_regular_file_Ok:
  assumes "acquire_regular_file h db t entry path st = Ok (db', st')" "s1_valid h db"
  obtains f gm where "s1_valid h db'" "af_path f = path" "af_blob_oid f = te_object_id entry"
    "af_mode f = (if te_mode entry = as_bytes ''100755'' then Executable else Regular)"
    "file_stored h (ts_single_file_bytes st) f"
    "ts_cumulative_file_bytes st + length (af_bytes f) \<le> limit_maximum CumulativeFileBytes"
    "st' = st\<lparr>ts_cumulative_file_bytes := ts_cumulative_file_bytes st + length (af_bytes f),
       ts_gitmodules := gm, ts_files := ts_files st @ [f]\<rparr>"
proof -
  let ?boundary = "collects_boundaries st \<and> path = ''.gitmodules''"
  let ?mode = "if te_mode entry = as_bytes ''100755'' then Executable else Regular"
  from assms(1) obtain blob st1 where
    b: "required_regular_blob h db (te_object_id entry) t (ts_cumulative_file_bytes st) (ts_single_file_bytes st)
          ?boundary = Ok (blob, db')"
    and k: "go_kind blob = Blob" and o': "observe_file_bytes (go_body_size blob) st = Ok st1"
    and s1: "st' = (if ?boundary then st1\<lparr>ts_gitmodules := Some \<lparr>gm_mode = mode_str ?mode,
         gm_blob_oid = te_object_id entry, gm_bytes = go_body_prefix blob\<rparr>\<rparr> else st1)
       \<lparr>ts_files := ts_files st @ [\<lparr>af_path = path, af_mode = ?mode, af_blob_oid = te_object_id entry,
          af_bytes = go_body_prefix blob\<rparr>]\<rparr>"
    unfolding acquire_regular_file_def Let_def
    by (simp add: result_iffs observe_file_bytes_Ok split: prod.splits) (auto simp del: mode_str.simps)
  from o' have o: "ts_cumulative_file_bytes st + go_body_size blob \<le> limit_maximum CumulativeFileBytes"
    and st1: "st1 = st\<lparr>ts_cumulative_file_bytes := ts_cumulative_file_bytes st + go_body_size blob\<rparr>"
    by (simp_all add: observe_file_bytes_Ok)
  define gm where "gm = (if ?boundary then Some \<lparr>gm_mode = mode_str ?mode, gm_blob_oid = te_object_id entry,
     gm_bytes = go_body_prefix blob\<rparr> else ts_gitmodules st)"
  have s: "st' = st\<lparr>ts_cumulative_file_bytes := ts_cumulative_file_bytes st + go_body_size blob, ts_gitmodules := gm,
       ts_files := ts_files st @ [\<lparr>af_path = path, af_mode = ?mode, af_blob_oid = te_object_id entry,
         af_bytes = go_body_prefix blob\<rparr>]\<rparr>"
    unfolding s1 st1 gm_def by (cases st) simp
  note facts = required_regular_blob_Ok [OF b assms(2)]
  show ?thesis
    by (rule that [of "\<lparr>af_path = path,
         af_mode = (if te_mode entry = as_bytes ''100755'' then Executable else Regular),
         af_blob_oid = te_object_id entry, af_bytes = go_body_prefix blob\<rparr>" gm])
      (use facts k o s in \<open>auto simp: file_stored_def\<close>)
qed

text \<open>What every step keeps, and the files it adds.\<close>

definition mode_of :: "bytes \<Rightarrow> regular_file_mode" where
  "mode_of mode = (if mode = as_bytes ''100755'' then Executable else Regular)"

definition file_key :: "acquired_file \<Rightarrow> string \<times> regular_file_mode \<times> object_id" where
  "file_key f = (af_path f, af_mode f, af_blob_oid f)"

definition config_of :: "traversal_state \<Rightarrow> nat \<times> bool \<times> bool" where
  "config_of st = (ts_single_file_bytes st, ts_internal_symlinks st, collects_boundaries st)"

definition extends :: "'z host \<Rightarrow> traversal_state \<Rightarrow> traversal_state \<Rightarrow> (string \<times> regular_file_mode \<times> object_id) list \<Rightarrow> bool" where
  "extends h st st' ks \<longleftrightarrow>
     state_inv h st' \<and> config_of st' = config_of st \<and>
     (\<exists>new. ts_files st' = ts_files st @ new \<and> map file_key new = ks)"

lemma extends_refl: "state_inv h st \<Longrightarrow> extends h st st []"
  by (simp add: extends_def)

lemma extends_trans: "extends h st st1 ks \<Longrightarrow> extends h st1 st2 ls \<Longrightarrow> extends h st st2 (ks @ ls)"
  by (fastforce simp: extends_def)

lemma observed:
  assumes "observe_entry path oid st = Ok st'" "state_inv h st" "path_ok path"
  shows "state_inv h st'" "config_of st' = config_of st" "ts_files st' = ts_files st"
    "path \<in> ts_canonical_paths st'" "path \<notin> fst ` set (ts_link_entries st')" "path \<notin> af_path ` set (ts_files st')"
  using observe_entry_inv [OF assms(1) _ assms(3)] assms(2)
  by (auto simp: state_inv_def contents_inv_observed config_of_def collects_boundaries_def paths_inv_def)

lemma linked:
  assumes "state_inv h st" "path \<in> ts_canonical_paths st" "path \<notin> fst ` set (ts_link_entries st)" "link_size e = 0"
    "link_stored h e"
  shows "state_inv h (insert_link path e st)" "config_of (insert_link path e st) = config_of st"
    "ts_files (insert_link path e st) = ts_files st" "ts_canonical_paths (insert_link path e st) = ts_canonical_paths st"
  using insert_link_inv(1,2) [of st path h e] assms
  by (auto simp: state_inv_def insert_link_def config_of_def collects_boundaries_def)

lemma gitlinked:
  assumes "observe_gitlink path t o' st = Ok st'" "state_inv h st"
  shows "state_inv h st'" "config_of st' = config_of st" "ts_files st' = ts_files st"
proof -
  show "state_inv h st'"
    using observe_gitlink_inv(1,3,4) [OF assms(1)] observe_gitlink_inv(2) [OF assms(1), of h] assms(2)
    by (simp add: state_inv_def)
  show "config_of st' = config_of st" "ts_files st' = ts_files st"
    using assms(1) by (auto simp: observe_gitlink_Ok config_of_def collects_boundaries_def)
qed

lemma record_gitmodules_extends:
  assumes "record_gitmodules t entry path st = Ok st'" "state_inv h st" "path_ok path"
  shows "extends h st st' []"
proof -
  from assms(1) obtain st1 st2 gm where o': "observe_entry path t st = Ok st1"
    and g: "(if te_mode entry = as_bytes ''160000'' then observe_gitlink path t (te_object_id entry) st1 else Ok st1) = Ok st2"
    and s: "st' = st2\<lparr>ts_gitmodules := gm\<rparr>"
    by (auto simp: record_gitmodules_def result_iffs)
  note o = observed [OF o' assms(2,3)]
  have i: "state_inv h st2 \<and> config_of st2 = config_of st1 \<and> ts_files st2 = ts_files st1"
  proof (cases "te_mode entry = as_bytes ''160000''")
    case True
    with g have "observe_gitlink path t (te_object_id entry) st1 = Ok st2" by simp
    from gitlinked [OF this o(1)] show ?thesis by blast
  next
    case False
    with g o show ?thesis by simp
  qed
  with o show ?thesis by (simp add: s extends_def config_of_def collects_boundaries_def)
qed

lemma contents_inv_push:
  assumes "contents_inv h st" "file_stored h (ts_single_file_bytes st) f" "ts_regular_files st \<le> limit_maximum RegularFiles"
    "ts_cumulative_file_bytes st + length (af_bytes f) \<le> limit_maximum CumulativeFileBytes"
  shows "contents_inv h (st\<lparr>ts_cumulative_file_bytes := ts_cumulative_file_bytes st + length (af_bytes f),
     ts_gitmodules := gm, ts_files := ts_files st @ [f]\<rparr>)"
  using assms by (simp add: contents_inv_def)

lemma visit_regular_extends:
  assumes "and_then (map_err BA_Repository (observe_entry path t st)) (\<lambda>st.
        let st = (if ts_internal_symlinks st then insert_link path (LE_File (te_object_id entry)) st else st) in
        and_then (map_err BA_Repository (observe_regular_path st)) (\<lambda>st.
        acquire_regular_file h db t entry path st)) = Ok (db', st')"
    and "state_inv h st" "path_ok path" "s1_valid h db"
  shows "s1_valid h db' \<and> extends h st st' [(path, mode_of (te_mode entry), te_object_id entry)]"
proof -
  from assms(1) obtain st1 st2 where o': "observe_entry path t st = Ok st1"
    and st2: "st2 = (if ts_internal_symlinks st1 then insert_link path (LE_File (te_object_id entry)) st1 else st1)"
    and r: "ts_regular_files st2 + 1 \<le> limit_maximum RegularFiles"
    and a: "acquire_regular_file h db t entry path (st2\<lparr>ts_regular_files := ts_regular_files st2 + 1\<rparr>) = Ok (db', st')"
    by (auto simp: result_iffs Let_def observe_regular_path_Ok)
  note o = observed [OF o' assms(2,3)]
  have i: "state_inv h st2" "config_of st2 = config_of st" "ts_files st2 = ts_files st" "path \<in> ts_canonical_paths st2"
    "path \<notin> af_path ` set (ts_files st2)"
    using o linked [of h st1 path "LE_File (te_object_id entry)"] by (auto simp: st2)
  from a assms(4) obtain f gm where f: "s1_valid h db'" "af_path f = path" "af_blob_oid f = te_object_id entry"
    "af_mode f = mode_of (te_mode entry)" "file_stored h (ts_single_file_bytes st2) f"
    "ts_cumulative_file_bytes st2 + length (af_bytes f) \<le> limit_maximum CumulativeFileBytes"
    and s: "st' = st2\<lparr>ts_regular_files := ts_regular_files st2 + 1,
       ts_cumulative_file_bytes := ts_cumulative_file_bytes st2 + length (af_bytes f),
       ts_gitmodules := gm, ts_files := ts_files st2 @ [f]\<rparr>"
    by (auto simp: mode_of_def elim!: acquire_regular_file_Ok)
  have "contents_inv h (st2\<lparr>ts_regular_files := ts_regular_files st2 + 1\<rparr>)"
    using i(1) r by (simp add: state_inv_def contents_inv_def)
  from contents_inv_push [OF this, of f gm] f r have "contents_inv h st'" unfolding s by simp
  moreover have "paths_inv st'" "ts_regular_files st' = length (ts_files st')"
    using i f(2) unfolding s by (auto simp: state_inv_def paths_inv_def)
  ultimately show ?thesis
    using i f unfolding extends_def s
    by (auto simp: state_inv_def config_of_def collects_boundaries_def file_key_def)
qed

lemma acquire_internal_symlink_extends:
  assumes "acquire_internal_symlink h db t entry path st1 = Ok (db', st')" "s1_valid h db" "state_inv h st1"
    "path \<in> ts_canonical_paths st1" "path \<notin> fst ` set (ts_link_entries st1)"
  shows "s1_valid h db' \<and> extends h st1 st' []"
proof -
  from assms(1) obtain blob where
    b: "required_regular_blob h db (te_object_id entry) t (ts_cumulative_file_bytes st1) max_target_bytes False = Ok (blob, db')"
    and k: "go_kind blob = Blob" "go_body_size blob = length (go_body_prefix blob)"
    and o': "map_err BA_Repository (observe_file_bytes (go_body_size blob) st1) =
       Ok (st1\<lparr>ts_cumulative_file_bytes := ts_cumulative_file_bytes st1 + go_body_size blob\<rparr>)"
    and s: "st' = insert_link path (LE_Link (te_object_id entry) (go_body_prefix blob))
       (st1\<lparr>ts_cumulative_file_bytes := ts_cumulative_file_bytes st1 + go_body_size blob\<rparr>)"
    unfolding acquire_internal_symlink_def by (auto simp: result_iffs observe_file_bytes_Ok)
  have o: "ts_cumulative_file_bytes st1 + go_body_size blob \<le> limit_maximum CumulativeFileBytes"
    using o' by (simp add: observe_file_bytes_Ok)
  note facts = required_regular_blob_Ok [OF b assms(2)]
  let ?st = "st1\<lparr>ts_cumulative_file_bytes := ts_cumulative_file_bytes st1 + go_body_size blob\<rparr>"
  have "paths_inv ?st = paths_inv st1" by (simp add: paths_inv_def)
  moreover have "?st\<lparr>ts_cumulative_file_bytes := ts_cumulative_file_bytes st1\<rparr> = st1" by (cases st1) simp
  ultimately have "paths_inv ?st" "contents_inv h (?st\<lparr>ts_cumulative_file_bytes := ts_cumulative_file_bytes st1\<rparr>)"
    using assms(3) by (simp_all only: state_inv_def)
  with insert_link_inv(1,3) [of ?st path h "LE_Link (te_object_id entry) (go_body_prefix blob)"] facts(1,2,4) k o assms(4,5)
  have "paths_inv st'" "contents_inv h st'" unfolding s by simp_all
  then have "state_inv h st'" using assms(3) by (simp add: state_inv_def s insert_link_def)
  with facts(1) show ?thesis
    by (simp add: extends_def s insert_link_def config_of_def collects_boundaries_def)
qed

definition leaf_keys :: "traversal_state \<Rightarrow> raw_tree_entry \<Rightarrow> string \<Rightarrow> (string \<times> regular_file_mode \<times> object_id) list" where
  "leaf_keys st entry path =
     (if regular_mode (te_mode entry) \<and> \<not> unusual_gitmodules st entry path
      then [(path, mode_of (te_mode entry), te_object_id entry)] else [])"

lemma visit_gitlink_extends:
  assumes "observe_entry path t st = Ok st1" "state_inv h st" "path_ok path"
    and "observe_gitlink path t o' (if ts_internal_symlinks st1 then insert_link path LE_Gitlink st1 else st1) = Ok st'"
  shows "extends h st st' []"
proof -
  let ?st = "if ts_internal_symlinks st1 then insert_link path LE_Gitlink st1 else st1"
  note o = observed [OF assms(1-3)]
  have "state_inv h ?st \<and> config_of ?st = config_of st1 \<and> ts_files ?st = ts_files st1"
    using linked [of h st1 path LE_Gitlink] o by simp
  with gitlinked [OF assms(4), of h] o show ?thesis by (simp add: extends_def)
qed

lemma visit_leaf_extends:
  assumes v: "visit_leaf h db t entry path st = Ok (db', st')" and "s1_valid h db" "state_inv h st" "path_ok path"
  shows "s1_valid h db' \<and> extends h st st' (leaf_keys st entry path)"
proof -
  consider (gitmodules) "unusual_gitmodules st entry path"
    | (regular) "\<not> unusual_gitmodules st entry path" "regular_mode (te_mode entry)"
    | (link) "\<not> unusual_gitmodules st entry path" "\<not> regular_mode (te_mode entry)" "te_mode entry = as_bytes ''120000''"
    | (gitlink) "\<not> unusual_gitmodules st entry path" "\<not> regular_mode (te_mode entry)"
        "te_mode entry \<noteq> as_bytes ''120000''" by blast
  then show ?thesis
  proof cases
    case gitmodules
    with v have "record_gitmodules t entry path st = Ok st'" "db' = db"
      by (auto simp: visit_leaf_def result_iffs)
    with record_gitmodules_extends assms gitmodules show ?thesis by (simp add: leaf_keys_def)
  next
    case regular
    with v visit_regular_extends [of path t st entry h db db' st'] assms show ?thesis
      by (simp add: visit_leaf_def leaf_keys_def)
  next
    case link
    with v obtain st1 where o': "observe_entry path t st = Ok st1"
      and a: "acquire_internal_symlink h db t entry path st1 = Ok (db', st')"
      by (auto simp: visit_leaf_def result_iffs split: if_splits)
    note o = observed [OF o' assms(3,4)]
    from acquire_internal_symlink_extends [OF a assms(2) o(1,4,5)] o link show ?thesis
      by (simp add: extends_def leaf_keys_def)
  next
    case gitlink
    with v obtain st1 where "observe_entry path t st = Ok st1" "db' = db"
      "observe_gitlink path t (te_object_id entry)
         (if ts_internal_symlinks st1 then insert_link path LE_Gitlink st1 else st1) = Ok st'"
      by (auto simp: visit_leaf_def result_iffs Let_def split: if_splits)
    with visit_gitlink_extends assms gitlink show ?thesis by (simp add: leaf_keys_def)
  qed
qed

lemma enter_directory_extends:
  assumes "enter_directory h db t entry path st = Ok (child, db', st')"
    and "s1_valid h db" "state_inv h st" "path_ok path"
  shows "s1_valid h db' \<and> extends h st st' [] \<and> object_stored h (te_object_id entry) Tree (go_body_prefix child)"
proof -
  from assms(1) obtain st1 where o': "observe_entry path t st = Ok st1"
    and d: "open_directory h db t entry
       (if ts_internal_symlinks st1 then insert_link path (LE_Directory (te_object_id entry)) st1 else st1) =
       Ok (child, db', st')"
    by (auto simp: enter_directory_def Let_def result_iffs)
  note o = observed [OF o' assms(3,4)]
  let ?st = "if ts_internal_symlinks st1 then insert_link path (LE_Directory (te_object_id entry)) st1 else st1"
  have i: "state_inv h ?st \<and> config_of ?st = config_of st1 \<and> ts_files ?st = ts_files st1"
    using linked [of h st1 path "LE_Directory (te_object_id entry)"] o by simp
  from d obtain n where r: "s1_read_object h db (te_object_id entry) (Some s1_tree_capture_limit) None
        (Some s1_tree_capture_limit) = Ok (Some child, db')"
    and k: "go_kind child = Tree" and s: "st' = ?st\<lparr>ts_directory_count := n\<rparr>"
    by (auto simp: open_directory_def required_referenced_object_with_capture_def result_iffs)
  from s1_reader.read_valid [OF assms(2) r] s1_reader.read_whole(1) [OF assms(2) r] k
  have "s1_valid h db'" "object_stored h (te_object_id entry) Tree (go_body_prefix child)" by auto
  moreover have "state_inv h st'" "config_of st' = config_of st1" "ts_files st' = ts_files st1"
    using i unfolding s by (simp_all add: config_of_def collects_boundaries_def)
  ultimately show ?thesis using o by (simp add: extends_def)
qed

section \<open>The listing of a tree\<close>

text \<open>
  What a tree lists, entry by entry: a path as its components, the mode and the identifier. The bodies
  of the tree objects are a map \<open>tr\<close>; subdirectories are followed through it.
\<close>

inductive tree_lists ::
  "(object_id \<rightharpoonup> bytes) \<Rightarrow> object_id \<Rightarrow> string list \<Rightarrow> bytes \<Rightarrow> object_id \<Rightarrow> bool" for tr where
  entry: "tr t = Some body \<Longrightarrow> parse_tree_entries body = Some es \<Longrightarrow> e \<in> set es \<Longrightarrow>
    as_bytes c = te_name e \<Longrightarrow> tree_lists tr t [c] (te_mode e) (te_object_id e)"
| below: "tr t = Some body \<Longrightarrow> parse_tree_entries body = Some es \<Longrightarrow> e \<in> set es \<Longrightarrow>
    as_bytes c = te_name e \<Longrightarrow> directory_mode (te_mode e) \<Longrightarrow> tree_lists tr (te_object_id e) r m i \<Longrightarrow>
    tree_lists tr t (c # r) m i"

inductive_cases tree_lists_cases: "tree_lists tr t r m i"

definition entry_lists :: "(object_id \<rightharpoonup> bytes) \<Rightarrow> raw_tree_entry \<Rightarrow> string list \<Rightarrow> bytes \<Rightarrow> object_id \<Rightarrow> bool" where
  "entry_lists tr e q m i \<longleftrightarrow>
     (\<exists>c. as_bytes c = te_name e \<and>
        (q = [c] \<and> m = te_mode e \<and> i = te_object_id e \<or>
         (\<exists>r. q = c # r \<and> directory_mode (te_mode e) \<and> tree_lists tr (te_object_id e) r m i)))"

text \<open>
  The map \<open>tr\<close> describes the trees of the databases \<open>P\<close>: the set is closed under reading, and a tree
  read in full is the one of the map.
\<close>

definition read_tree ::
  "'z host \<Rightarrow> s1_object_database \<Rightarrow> object_id \<Rightarrow> (git_object option \<times> s1_object_database, read_object_error) result" where
  "read_tree h db oid = s1_read_object h db oid (Some s1_tree_capture_limit) None (Some s1_tree_capture_limit)"

definition describes_trees :: "'z host \<Rightarrow> (s1_object_database \<Rightarrow> bool) \<Rightarrow> (object_id \<rightharpoonup> bytes) \<Rightarrow> bool" where
  "describes_trees h P tr \<longleftrightarrow>
     (\<forall>db oid c d m found db'. P db \<longrightarrow> s1_read_object h db oid c d m = Ok (found, db') \<longrightarrow> P db') \<and>
     (\<forall>db oid obj db'. P db \<longrightarrow> read_tree h db oid = Ok (Some obj, db') \<longrightarrow> go_kind obj = Tree \<longrightarrow>
        tr oid = Some (go_body_prefix obj))"

lemma tree_lists_iff:
  assumes "tr t = Some body" "parse_tree_entries body = Some es"
  shows "tree_lists tr t q m i \<longleftrightarrow> (\<exists>e \<in> set es. entry_lists tr e q m i)"
proof
  assume "tree_lists tr t q m i"
  then show "\<exists>e \<in> set es. entry_lists tr e q m i"
    by (cases rule: tree_lists_cases) (use assms in \<open>force simp: entry_lists_def\<close>)+
next
  assume "\<exists>e \<in> set es. entry_lists tr e q m i"
  with assms show "tree_lists tr t q m i"
    unfolding entry_lists_def by (blast intro: tree_lists.intros)
qed

definition regular_keys ::
  "string list \<Rightarrow> (string list \<Rightarrow> bytes \<Rightarrow> object_id \<Rightarrow> bool) \<Rightarrow> (string \<times> regular_file_mode \<times> object_id) set" where
  "regular_keys r L = {(current_path (r @ q), mode_of m, i) | q m i. L q m i \<and> regular_mode m}"

lemma regular_keys_Un:
  "regular_keys r (\<lambda>q m i. \<exists>e \<in> set (x # xs). entry_lists tr e q m i) =
     regular_keys r (entry_lists tr x) \<union> regular_keys r (\<lambda>q m i. \<exists>e \<in> set xs. entry_lists tr e q m i)"
  unfolding regular_keys_def by (simp only: list.set bex_simps set_eq_iff Un_iff mem_Collect_eq) blast

lemma not_regular_directory: "directory_mode m \<Longrightarrow> \<not> regular_mode m"
  by (auto simp: directory_mode_def regular_mode_def as_bytes_def)

lemma regular_keys_leaf:
  assumes "as_bytes c = te_name e" "\<not> directory_mode (te_mode e)"
  shows "regular_keys r (entry_lists tr e) =
    (if regular_mode (te_mode e) then {(current_path (r @ [c]), mode_of (te_mode e), te_object_id e)} else {})"
proof -
  have one: "as_bytes d = te_name e \<longleftrightarrow> d = c" for d using assms(1) as_bytes_inject by metis
  show ?thesis using assms(2) by (auto simp: regular_keys_def entry_lists_def one)
qed

lemma regular_keys_directory:
  assumes "as_bytes c = te_name e" "directory_mode (te_mode e)"
  shows "regular_keys r (entry_lists tr e) = regular_keys (r @ [c]) (tree_lists tr (te_object_id e))"
proof -
  have one: "as_bytes d = te_name e \<longleftrightarrow> d = c" for d using assms(1) as_bytes_inject by metis
  show ?thesis
    using assms(2) not_regular_directory [OF assms(2)]
    by (fastforce simp: regular_keys_def entry_lists_def one)
qed

section \<open>The traversal\<close>

definition traversed ::
  "bool \<Rightarrow> (s1_object_database \<Rightarrow> bool) \<Rightarrow> 'z host \<Rightarrow> string list \<Rightarrow>
   (string list \<Rightarrow> bytes \<Rightarrow> object_id \<Rightarrow> bool) \<Rightarrow> traversal_state \<Rightarrow> s1_object_database \<times> traversal_state \<Rightarrow> bool"
where
  "traversed E P h r L st res \<longleftrightarrow>
     (case res of (db', st') \<Rightarrow> s1_valid h db' \<and>
        (\<exists>ks. extends h st st' ks \<and>
           (E \<longrightarrow> P db' \<and> (\<not> collects_boundaries st \<longrightarrow> set ks = regular_keys r L))))"

lemma extends_config: "extends h st st' ks \<Longrightarrow> collects_boundaries st' \<longleftrightarrow> collects_boundaries st"
  by (simp add: extends_def config_of_def)

lemma extends_inv: "extends h st st' ks \<Longrightarrow> state_inv h st'"
  by (simp add: extends_def)

lemma extends_looks: "extends h (st\<lparr>ts_looks := n\<rparr>) st' ks \<longleftrightarrow> extends h st st' ks"
  by (simp add: extends_def config_of_def collects_boundaries_def)

lemma collects_looks [simp]: "collects_boundaries (st\<lparr>ts_looks := n\<rparr>) \<longleftrightarrow> collects_boundaries st"
  by (simp add: collects_boundaries_def)

lemma traversed_looks: "traversed E P h r L (st\<lparr>ts_looks := n\<rparr>) res \<longleftrightarrow> traversed E P h r L st res"
  by (simp add: traversed_def extends_looks)

lemma check_time_Ok: "check_time h st = Ok st' \<Longrightarrow> st' = st\<lparr>ts_looks := ts_looks st + 1\<rparr>"
  by (auto simp: check_time_def Let_def split: if_splits)

lemma traversed_Nil:
  "s1_valid h db \<Longrightarrow> state_inv h st \<Longrightarrow> (E \<Longrightarrow> P db) \<Longrightarrow> traversed E P h r (\<lambda>q m i. False) st (db, st)"
  using extends_refl [of h st] by (auto simp: traversed_def regular_keys_def)

text \<open>The steps keep the set of databases.\<close>

lemma describes_read:
  "describes_trees h P tr \<Longrightarrow> P db \<Longrightarrow> s1_read_object h db oid c d m = Ok (found, db') \<Longrightarrow> P db'"
  by (auto simp: describes_trees_def)

lemma required_blob_describes:
  assumes "required_regular_blob h db oid by' n k b = Ok (blob, db')" "describes_trees h P tr" "P db"
  shows "P db'"
proof -
  from assms(1) obtain c d m where "s1_read_object h db oid c d m = Ok (Some blob, db')"
    by (auto simp: required_regular_blob_def Let_def result_iffs)
  then show ?thesis by (rule describes_read [OF assms(2,3)])
qed

lemma visit_leaf_database:
  assumes "visit_leaf h db t entry path st = Ok (db', st')"
  obtains "db' = db" | oid by' n k b blob where "required_regular_blob h db oid by' n k b = Ok (blob, db')"
proof -
  have reg: "\<exists>oid by' n k b blob. required_regular_blob h db oid by' n k b = Ok (blob, db')"
    if "acquire_regular_file h db t entry path st = Ok (db', st')" for st
    using that unfolding acquire_regular_file_def Let_def by (simp add: result_iffs split: prod.splits) blast
  have link: "\<exists>oid by' n k b blob. required_regular_blob h db oid by' n k b = Ok (blob, db')"
    if "acquire_internal_symlink h db t entry path st = Ok (db', st')" for st
    using that unfolding acquire_internal_symlink_def by (simp add: result_iffs split: prod.splits) blast
  consider "db' = db" | st where "acquire_regular_file h db t entry path st = Ok (db', st')"
    | st where "acquire_internal_symlink h db t entry path st = Ok (db', st')"
    using assms unfolding visit_leaf_def Let_def by (auto simp: result_iffs split: if_splits)
  then show ?thesis using reg link that by metis
qed

lemma visit_leaf_describes:
  assumes "visit_leaf h db t entry path st = Ok (db', st')" "describes_trees h P tr" "P db"
  shows "P db'"
  using assms(1) by (cases rule: visit_leaf_database) (use assms(2,3) required_blob_describes in auto)

lemma enter_directory_describes:
  assumes "enter_directory h db t entry path st = Ok (child, db', st')" "describes_trees h P tr" "P db"
  shows "P db'" "tr (te_object_id entry) = Some (go_body_prefix child)"
proof -
  from assms(1) have r: "read_tree h db (te_object_id entry) = Ok (Some child, db')" "go_kind child = Tree"
    by (auto simp: enter_directory_def open_directory_def required_referenced_object_with_capture_def read_tree_def
        Let_def result_iffs)
  with assms(2,3) show "P db'" "tr (te_object_id entry) = Some (go_body_prefix child)"
    by (auto simp: describes_trees_def read_tree_def)
qed

lemma traversed_leaf:
  assumes "visit_leaf h db t entry (current_path (r @ [c])) st = Ok res"
    and "s1_valid h db" "state_inv h st" "path_ok (current_path (r @ [c]))" "as_bytes c = te_name entry"
    and "directory_mode (te_mode entry) \<Longrightarrow> unusual_gitmodules st entry (current_path (r @ [c]))"
    and "E \<Longrightarrow> describes_trees h P tr \<and> P db"
  shows "traversed E P h r (entry_lists tr entry) st res"
proof -
  obtain db' st' where res: "res = (db', st')" by (cases res)
  from visit_leaf_extends [OF assms(1) [unfolded res] assms(2-4)]
  have e: "s1_valid h db'" "extends h st st' (leaf_keys st entry (current_path (r @ [c])))" by auto
  have "set (leaf_keys st entry (current_path (r @ [c]))) = regular_keys r (entry_lists tr entry)"
    if "\<not> collects_boundaries st"
  proof -
    have "\<not> unusual_gitmodules st entry (current_path (r @ [c]))" using that by (simp add: unusual_gitmodules_def)
    moreover from this assms(6) have "\<not> directory_mode (te_mode entry)" by blast
    ultimately show ?thesis using regular_keys_leaf [OF assms(5), of r tr] by (simp add: leaf_keys_def)
  qed
  with e visit_leaf_describes [OF assms(1) [unfolded res]] assms(7) show ?thesis unfolding traversed_def res by blast
qed

lemma traversed_directory:
  assumes "extends h st st' []" "traversed E P h (r @ [c]) (tree_lists tr (te_object_id entry)) st' res"
    and "as_bytes c = te_name entry" "directory_mode (te_mode entry)"
  shows "traversed E P h r (entry_lists tr entry) st res"
  using assms(2) extends_trans [OF assms(1)] extends_config [OF assms(1)] regular_keys_directory [OF assms(3,4), of r tr]
  unfolding traversed_def by fastforce

lemma traversed_seq:
  assumes "traversed E P h r L st (db1, st1)" "traversed E P h r M st1 res"
    and "regular_keys r N = regular_keys r L \<union> regular_keys r M"
  shows "traversed E P h r N st res"
proof -
  obtain db' st' where res: "res = (db', st')" by (cases res)
  from assms(1) obtain ks where ks: "extends h st st1 ks"
    "E \<Longrightarrow> \<not> collects_boundaries st \<Longrightarrow> set ks = regular_keys r L"
    by (auto simp: traversed_def)
  from assms(2) obtain ls where ls: "s1_valid h db'" "extends h st1 st' ls"
    "E \<Longrightarrow> P db'" "E \<Longrightarrow> \<not> collects_boundaries st1 \<Longrightarrow> set ls = regular_keys r M"
    by (auto simp: traversed_def res)
  from extends_trans [OF ks(1) ls(2)] ks(2) ls(1,3,4) extends_config [OF ks(1)] assms(3) show ?thesis
    unfolding traversed_def res by (auto intro!: exI [of _ "ks @ ls"])
qed

lemma traverse_traversed:
  "traverse_tree_object h db tree_oid tree prefix parent_depth st = Ok res \<Longrightarrow>
   prefix = current_path r \<Longrightarrow> parent_depth = length r \<Longrightarrow> list_all component_ok r \<Longrightarrow>
   s1_valid h db \<Longrightarrow> state_inv h st \<Longrightarrow>
   (E \<Longrightarrow> describes_trees h P tr \<and> P db \<and> tr tree_oid = Some (go_body_prefix tree)) \<Longrightarrow>
   traversed E P h r (tree_lists tr tree_oid) st res"
  "traverse_entries h db tree_oid prefix parent_depth entries st = Ok res \<Longrightarrow>
   prefix = current_path r \<Longrightarrow> parent_depth = length r \<Longrightarrow> list_all component_ok r \<Longrightarrow>
   s1_valid h db \<Longrightarrow> state_inv h st \<Longrightarrow> (E \<Longrightarrow> describes_trees h P tr \<and> P db) \<Longrightarrow>
   traversed E P h r (\<lambda>q m i. \<exists>e \<in> set entries. entry_lists tr e q m i) st res"
proof (induction h db tree_oid tree prefix parent_depth st and h db tree_oid prefix parent_depth entries st
    arbitrary: r res and r res rule: traverse_tree_object_traverse_entries.induct)
  case (1 h db tree_oid tree prefix parent_depth st)
  from "1.prems"(1) [unfolded traverse_tree_object.simps] obtain st1 es where
    t: "check_time h st = Ok st1" and es: "parse_tree_entries (go_body_prefix tree) = Some es"
    and e: "traverse_entries h db tree_oid prefix parent_depth (sort_key te_name es) st1 = Ok res"
    by (auto simp: result_iffs)
  note st1 = check_time_Ok [OF t]
  have "traversed E P h r (\<lambda>q m i. \<exists>e \<in> set (sort_key te_name es). entry_lists tr e q m i) st1 res"
    by (rule "1.IH" [OF _ _ e "1.prems"(2-5)]) (use t es "1.prems"(6,7) st1 in auto)
  then have "traversed E P h r (\<lambda>q m i. \<exists>e \<in> set es. entry_lists tr e q m i) st res"
    by (simp add: st1 traversed_looks)
  moreover have "E \<Longrightarrow> (\<lambda>q m i. \<exists>e \<in> set es. entry_lists tr e q m i) = tree_lists tr tree_oid"
    using tree_lists_iff [OF _ es, of tr tree_oid] "1.prems"(7) by (simp add: fun_eq_iff)
  ultimately show ?case by (auto simp: traversed_def)
next
  case (2 h db tree_oid prefix parent_depth st)
  then show ?case using traversed_Nil [of h db st E P r] by (auto simp: traverse_entries.simps)
next
  case (3 h db tree_oid prefix parent_depth entry entries st)
  from "3.prems"(1) [unfolded traverse_entries.simps] obtain path depth st1 db2 st2 where
    a: "admit_entry h prefix parent_depth entry st = Ok (path, depth, st1)"
    and v: "(if directory_mode (te_mode entry) \<and> \<not> unusual_gitmodules st1 entry path
        then and_then (enter_directory h db tree_oid entry path st1) (\<lambda>(child, db, st).
             traverse_tree_object h db (te_object_id entry) child path depth st)
        else visit_leaf h db tree_oid entry path st1) = Ok (db2, st2)"
    and rest: "traverse_entries h db2 tree_oid prefix parent_depth entries st2 = Ok res"
    by (auto simp: result_iffs)
  from a "3.prems"(2-4) obtain c where c: "component_ok c" "as_bytes c = te_name entry" "path = current_path (r @ [c])"
    "depth = length (r @ [c])" "path_ok path" and st1: "st1 = st\<lparr>ts_looks := ts_looks st + 1\<rparr>"
    by (auto elim!: admit_entry_Ok)
  have inv1: "state_inv h st1" using "3.prems"(6) by (simp add: st1)
  have one: "traversed E P h r (entry_lists tr entry) st1 (db2, st2)"
  proof (cases "directory_mode (te_mode entry) \<and> \<not> unusual_gitmodules st1 entry path")
    case True
    with v obtain child db1 st' where d: "enter_directory h db tree_oid entry path st1 = Ok (child, db1, st')"
      and t: "traverse_tree_object h db1 (te_object_id entry) child path depth st' = Ok (db2, st2)"
      by (auto simp: result_iffs)
    note e = enter_directory_extends [OF d "3.prems"(5) inv1 c(5)]
    have "traversed E P h (r @ [c]) (tree_lists tr (te_object_id entry)) st' (db2, st2)"
      by (rule "3.IH"(1) [OF a refl refl True d refl refl t c(3,4)])
        (use c "3.prems"(4,7) e extends_inv enter_directory_describes [OF d, of P tr] in auto)
    then show ?thesis using e c(2) True by (intro traversed_directory) auto
  next
    case False
    with v c "3.prems"(5,7) inv1 show ?thesis by (intro traversed_leaf) auto
  qed
  then have s2: "s1_valid h db2" "state_inv h st2" "E \<Longrightarrow> P db2" by (auto simp: traversed_def extends_def)
  have "traversed E P h r (\<lambda>q m i. \<exists>e \<in> set entries. entry_lists tr e q m i) st2 res"
    by (rule "3.IH"(2) [OF a _ _ _ _ rest "3.prems"(2-4) s2(1,2)]) (use v "3.prems"(7) s2(3) in auto)
  from traversed_seq [OF one this regular_keys_Un] show ?case by (simp add: st1 traversed_looks)
qed

text \<open>No step panics on a valid database.\<close>

lemma check_time_not_Panic [simp]: "check_time h st \<noteq> Panic"
  by (simp add: check_time_def Let_def)

lemma observe_not_Panic [simp]:
  "observe_entry path t st \<noteq> Panic" "observe_regular_path st \<noteq> Panic" "observe_file_bytes n st \<noteq> Panic"
  "observe_gitlink path t i st \<noteq> Panic"
  by (auto simp: observe_entry_def observe_regular_path_def observe_file_bytes_def observe_gitlink_def result_iffs
      split: if_splits)

lemma validate_component_not_Panic [simp]: "validate_s1_path_component name \<noteq> Panic"
  by (auto simp: validate_s1_path_component_def split: option.splits)

lemma check_path_limits_not_Panic [simp]: "check_path_limits path c depth \<noteq> Panic"
  by (simp add: check_path_limits_def)

lemma admit_entry_not_Panic [simp]: "admit_entry h prefix depth entry st \<noteq> Panic"
  by (auto simp: admit_entry_def result_iffs Let_def)

lemma required_not_Panic:
  assumes "s1_valid h db"
  shows "required_regular_blob h db oid by' n k b \<noteq> Panic"
    "required_referenced_object_with_capture h db oid kind by' n d k \<noteq> Panic"
    "required_s1_revision_object h db oid revision \<noteq> Panic"
  using s1_reader.read_total [OF assms]
  by (auto simp: required_regular_blob_def required_referenced_object_with_capture_def
      required_s1_revision_object_def result_iffs Let_def)

lemma visit_leaf_not_Panic:
  assumes "s1_valid h db"
  shows "visit_leaf h db t entry path st \<noteq> Panic"
  using required_not_Panic(1) [OF assms]
  by (auto simp: visit_leaf_def record_gitmodules_def acquire_regular_file_def acquire_internal_symlink_def
      result_iffs Let_def split: if_splits)

lemma enter_directory_not_Panic:
  assumes "s1_valid h db"
  shows "enter_directory h db t entry path st \<noteq> Panic"
  using required_not_Panic(2) [OF assms]
  by (auto simp: enter_directory_def open_directory_def result_iffs Let_def)

lemma traverse_not_Panic:
  "prefix = current_path r \<Longrightarrow> parent_depth = length r \<Longrightarrow> list_all component_ok r \<Longrightarrow>
   s1_valid h db \<Longrightarrow> state_inv h st \<Longrightarrow>
   traverse_tree_object h db tree_oid tree prefix parent_depth st \<noteq> Panic"
  "prefix = current_path r \<Longrightarrow> parent_depth = length r \<Longrightarrow> list_all component_ok r \<Longrightarrow>
   s1_valid h db \<Longrightarrow> state_inv h st \<Longrightarrow>
   traverse_entries h db tree_oid prefix parent_depth entries st \<noteq> Panic"
proof (induction h db tree_oid tree prefix parent_depth st and h db tree_oid prefix parent_depth entries st
    arbitrary: r and r rule: traverse_tree_object_traverse_entries.induct)
  case (1 h db tree_oid tree prefix parent_depth st)
  have "traverse_entries h db tree_oid prefix parent_depth (sort_key te_name es) st1 \<noteq> Panic"
    if "check_time h st = Ok st1" "parse_tree_entries (go_body_prefix tree) = Some es" for st1 es
    by (rule "1.IH" [OF _ _ "1.prems"(1-4)]) (use that "1.prems"(5) check_time_Ok [OF that(1)] in auto)
  then show ?case by (auto simp: traverse_tree_object.simps result_iffs)
next
  case (2 h db tree_oid prefix parent_depth st)
  then show ?case by (simp add: traverse_entries.simps)
next
  case (3 h db tree_oid prefix parent_depth entry entries st)
  show ?case
  proof (cases "admit_entry h prefix parent_depth entry st")
    case (Ok a)
    obtain path depth st1 where a: "a = (path, depth, st1)" by (cases a)
    note admitted = Ok [unfolded a]
    from admitted "3.prems"(1-3) obtain c where c: "component_ok c" "as_bytes c = te_name entry"
      "path = current_path (r @ [c])" "depth = length (r @ [c])" "path_ok path"
      and st1: "st1 = st\<lparr>ts_looks := ts_looks st + 1\<rparr>" by (auto elim!: admit_entry_Ok)
    have inv1: "state_inv h st1" using "3.prems"(5) by (simp add: st1)
    define step where "step = (if directory_mode (te_mode entry) \<and> \<not> unusual_gitmodules st1 entry path
        then and_then (enter_directory h db tree_oid entry path st1) (\<lambda>(child, db, st).
             traverse_tree_object h db (te_object_id entry) child path depth st)
        else visit_leaf h db tree_oid entry path st1)"
    have "step \<noteq> Panic"
    proof (cases "directory_mode (te_mode entry) \<and> \<not> unusual_gitmodules st1 entry path")
      case True
      have "traverse_tree_object h db1 (te_object_id entry) child path depth st' \<noteq> Panic"
        if d: "enter_directory h db tree_oid entry path st1 = Ok (child, db1, st')" for child db1 st'
        by (rule "3.IH"(1) [OF admitted refl refl True d refl refl c(3,4)])
          (use c "3.prems"(3) enter_directory_extends [OF d "3.prems"(4) inv1 c(5)] extends_inv in auto)
      with True enter_directory_not_Panic [OF "3.prems"(4)] show ?thesis
        by (auto simp: step_def result_iffs)
    next
      case False
      with visit_leaf_not_Panic [OF "3.prems"(4)] show ?thesis by (auto simp: step_def)
    qed
    moreover have "traverse_entries h db2 tree_oid prefix parent_depth entries st2 \<noteq> Panic"
      if s: "step = Ok (db2, st2)" for db2 st2
    proof -
      have none: "traverse_entries h db tree_oid prefix parent_depth [entry] st = Ok (db2, st2)"
        using s admitted by (simp add: traverse_entries.simps step_def)
      from traverse_traversed(2) [OF none "3.prems"(1-5), of False "\<lambda>_. True" Map.empty] have "s1_valid h db2" "state_inv h st2"
        by (auto simp: traversed_def extends_def)
      then show ?thesis
        by (intro "3.IH"(2) [OF admitted refl refl _ refl "3.prems"(1-3)]) (use s in \<open>auto simp: step_def\<close>)
    qed
    ultimately show ?thesis using admitted by (auto simp: traverse_entries.simps step_def result_iffs)
  qed (auto simp: traverse_entries.simps)
qed

section \<open>Resolved links\<close>

lemma resolve_links_not_Panic: "resolve_links h entries es st \<noteq> Panic"
  by (induction h entries es st rule: resolve_links.induct) (auto simp: result_iffs split: link_entry.splits)

lemma resolve_links_Ok:
  "resolve_links h entries es st = Ok (links, st') \<Longrightarrow>
   map (\<lambda>l. (as_path l, LE_Link (as_blob_oid l) (as_bytes_of l))) links =
     filter (\<lambda>(p, e). \<exists>oid bs. e = LE_Link oid bs) es \<and>
   (\<forall>l \<in> set links. resolve_link entries (as_path l) = Some (as_resolved_target l, as_target_oid l, as_target_kind l))"
  by (induction h entries es st arbitrary: links rule: resolve_links.induct)
    (fastforce simp: result_iffs split: link_entry.splits)+

end
