(* ===== verification/Repository_Acquirer.thy ===== *)
theory Repository_Acquirer
  imports Tree_Traversal
begin

text \<open>
  The local Git adapter (\<open>codenoesis-repository/src/lib.rs\<close>): validation of the repository root and
  shape, resolution of the revision, and the acquisition operations \<open>bind\<close>, \<open>acquire_inventory\<close>,
  \<open>acquire_inventory_with_boundaries\<close> and \<open>bind_nested_repository\<close>.
\<close>

section \<open>The adapter and its results\<close>

datatype object_database_mode = LooseOnly_mode | LocalGitSha1Packed_mode

record local_git_repository =
  lg_object_database :: object_database_mode
  lg_single_file_bytes :: nat
  lg_internal_symlinks :: bool

definition new_repository :: local_git_repository where
  "new_repository = \<lparr>lg_object_database = LooseOnly_mode, lg_single_file_bytes = limit_maximum SingleFileBytes,
     lg_internal_symlinks = False\<rparr>"

definition new_packed_sha1 :: local_git_repository where
  "new_packed_sha1 = \<lparr>lg_object_database = LocalGitSha1Packed_mode,
     lg_single_file_bytes = limit_maximum SingleFileBytes, lg_internal_symlinks = False\<rparr>"

definition new_packed_sha1_rust_8m :: local_git_repository where
  "new_packed_sha1_rust_8m = \<lparr>lg_object_database = LocalGitSha1Packed_mode,
     lg_single_file_bytes = rust_8m_single_file_bytes, lg_internal_symlinks = False\<rparr>"

definition new_packed_sha1_internal_symlinks :: local_git_repository where
  "new_packed_sha1_internal_symlinks = new_packed_sha1_rust_8m\<lparr>lg_internal_symlinks := True\<rparr>"

record acquired_repository =
  ar_bound_revision :: bound_revision
  ar_directory_count :: nat
  ar_files :: "acquired_file list"
  ar_symlinks :: "acquired_symlink list"

record acquired_repository_boundaries =
  arb_repository :: acquired_repository
  arb_gitlinks :: "acquired_gitlink list"
  arb_gitmodules :: "acquired_gitmodules option"

section \<open>Control files\<close>

definition s1_internal_control_file_bytes :: nat where
  "s1_internal_control_file_bytes = 33554432"

text \<open>\<open>s1_relative_metadata\<close> walks the components of a fixed relative path, refusing symbolic links.\<close>

fun relative_metadata :: "world \<Rightarrow> string \<Rightarrow> string list \<Rightarrow> (metadata option, repository_error) result" where
  "relative_metadata w current [] = Err Unexpected"
| "relative_metadata w current (component # components) =
     (let current = path_join current component in
      case symlink_metadata w current of
        Inl NotFound \<Rightarrow> Ok None
      | Inl OtherIo \<Rightarrow> Err Unexpected
      | Inr metadata \<Rightarrow>
          if md_is_symlink metadata \<or> components \<noteq> [] \<and> \<not> md_is_dir metadata then Err Unexpected
          else if components = [] then Ok (Some metadata)
          else relative_metadata w current components)"

definition s1_relative_metadata :: "world \<Rightarrow> string \<Rightarrow> string \<Rightarrow> (metadata option, repository_error) result" where
  "s1_relative_metadata w git_dir relative = relative_metadata w git_dir (split_on CHR ''/'' relative)"

definition read_s1_control_file :: "world \<Rightarrow> string \<Rightarrow> string \<Rightarrow> (bytes option, repository_error) result" where
  "read_s1_control_file w git_dir relative =
     and_then (s1_relative_metadata w git_dir relative) (\<lambda>found.
     case found of
       None \<Rightarrow> Ok None
     | Some metadata \<Rightarrow>
         and_then (fail_if (\<not> md_is_file metadata \<or> md_len metadata > s1_internal_control_file_bytes) Unexpected) (\<lambda>_.
         and_then (fail_if (open_error w (path_join git_dir relative) \<noteq> None) Unexpected) (\<lambda>_.
         and_then (ok_or Unexpected (handle_content w (path_join git_dir relative))) (\<lambda>content.
         let bs = take (saturating_add s1_internal_control_file_bytes 1) content in
         if length bs > s1_internal_control_file_bytes then Err Unexpected else Ok (Some bs)))))"

section \<open>Text\<close>

definition to_ascii_lower :: "char \<Rightarrow> char" where
  "to_ascii_lower c = (if is_ascii_uppercase c then char_of (of_char c + (32 :: nat)) else c)"

definition to_ascii_lowercase :: "string \<Rightarrow> string" where
  "to_ascii_lowercase s = map to_ascii_lower s"

text \<open>\<open>str::lines\<close>: the pieces between line feeds without a trailing carriage return, and no last empty piece.\<close>

definition text_lines :: "string \<Rightarrow> string list" where
  "text_lines s =
     (let pieces = split_on (CHR 0x0A) s;
          kept = (if last pieces = [] then butlast pieces else pieces) in
      map (\<lambda>(i, line). if (i < length pieces - 1) \<and> ends_with [CHR 0x0D] line then butlast line else line)
        (enumerate 0 kept))"

text \<open>\<open>char::is_whitespace\<close> on scalar values.\<close>

definition is_whitespace :: "nat \<Rightarrow> bool" where
  "is_whitespace c \<longleftrightarrow>
     (9 \<le> c \<and> c \<le> 13) \<or> c = 0x20 \<or> c = 0x85 \<or> c = 0xA0 \<or> c = 0x1680 \<or> (0x2000 \<le> c \<and> c \<le> 0x200A) \<or>
     c = 0x2028 \<or> c = 0x2029 \<or> c = 0x202F \<or> c = 0x205F \<or> c = 0x3000"

definition compact :: "string \<Rightarrow> nat list" where
  "compact line = filter (\<lambda>c. \<not> is_whitespace c) (text_chars line)"

definition any_line :: "string \<Rightarrow> string \<Rightarrow> bool" where
  "any_line wanted text = list_ex (\<lambda>line. compact line = map of_char wanted) (text_lines text)"

definition trim_line_end :: "string \<Rightarrow> string" where
  "trim_line_end s = rev (dropWhile (\<lambda>c. c = CHR 0x0D \<or> c = CHR 0x0A) (rev s))"

section \<open>Shape\<close>

abbreviation unsupported :: "unsupported_feature \<Rightarrow> repository_error" where
  "unsupported feature \<equiv> Acquisition (UnsupportedRepositoryShape feature)"

definition validate_repository_shape :: "'z host \<Rightarrow> string \<Rightarrow> (unit, repository_error) result" where
  "validate_repository_shape h git_dir =
     and_then (ok_or Unexpected (Option.bind (h_read h (path_join git_dir ''config'')) from_utf8)) (\<lambda>config.
     let normalized = to_ascii_lowercase config in
     and_then (fail_if (any_line ''bare=true'' normalized) (unsupported BareRepository)) (\<lambda>_.
     and_then (fail_if (any_line ''objectformat=sha256'' normalized) (unsupported Sha256ObjectFormat)) (\<lambda>_.
     and_then (fail_if (h_exists h (path_join git_dir ''shallow'')) (unsupported ShallowRepository)) (\<lambda>_.
     and_then (if h_exists h (path_join git_dir ''objects/info/alternates'')
               then and_then (ok_or Unexpected (h_read h (path_join git_dir ''objects/info/alternates''))) (\<lambda>bs.
                    fail_if (list_ex (\<lambda>b. \<not> is_ascii_whitespace b) bs) (unsupported AlternateObjectDatabase))
               else Ok ()) (\<lambda>_.
     fail_if (h_exists h (path_join git_dir ''info/grafts'') \<or> h_exists h (path_join git_dir ''refs/replace''))
       (unsupported ReplaceOrGraft))))))"

definition validate_s1_repository_shape :: "world \<Rightarrow> string \<Rightarrow> (unit, repository_error) result" where
  "validate_s1_repository_shape w git_dir =
     and_then (read_s1_control_file w git_dir ''config'') (\<lambda>found.
     and_then (ok_or Unexpected found) (\<lambda>config.
     and_then (ok_or Unexpected (from_utf8 config)) (\<lambda>config.
     let normalized = to_ascii_lowercase config in
     and_then (fail_if (any_line ''bare=true'' normalized) (unsupported BareRepository)) (\<lambda>_.
     and_then (fail_if (any_line ''objectformat=sha256'' normalized) (unsupported Sha256ObjectFormat)) (\<lambda>_.
     and_then (s1_relative_metadata w git_dir ''shallow'') (\<lambda>shallow.
     and_then (fail_if (shallow \<noteq> None) (unsupported ShallowRepository)) (\<lambda>_.
     and_then (read_s1_control_file w git_dir ''objects/info/alternates'') (\<lambda>alternates.
     and_then (fail_if (case alternates of None \<Rightarrow> False | Some bs \<Rightarrow> list_ex (\<lambda>b. \<not> is_ascii_whitespace b) bs)
         (unsupported AlternateObjectDatabase)) (\<lambda>_.
     and_then (s1_relative_metadata w git_dir ''info/grafts'') (\<lambda>grafts.
     and_then (if grafts \<noteq> None then Ok grafts else s1_relative_metadata w git_dir ''refs/replace'') (\<lambda>replaced.
     and_then (fail_if (replaced \<noteq> None) (unsupported ReplaceOrGraft)) (\<lambda>_.
     and_then (s1_relative_metadata w git_dir ''objects'') (\<lambda>found.
     and_then (ok_or Unexpected found) (\<lambda>objects.
     fail_if (\<not> md_is_dir objects) Unexpected))))))))))))))"

section \<open>The root\<close>

text \<open>\<open>Path::parent\<close> of a canonical path.\<close>

definition parent_path :: "string \<Rightarrow> string option" where
  "parent_path p =
     (if p = [] \<or> p = ''/'' then None
      else case rsplit_once CHR ''/'' p of
             None \<Rightarrow> Some []
           | Some (a, _) \<Rightarrow> Some (if a = [] then ''/'' else a))"

definition validate_s1_repository_root :: "'z host \<Rightarrow> string \<Rightarrow> (string, repository_error) result" where
  "validate_s1_repository_root h root =
     (let w = h_world h; git_dir = path_join root ''.git'' in
      and_then (case symlink_metadata w root of
                  Inl NotFound \<Rightarrow> Err (Acquisition NotGitRepository)
                | Inl OtherIo \<Rightarrow> Err Unexpected
                | Inr metadata \<Rightarrow> Ok metadata) (\<lambda>root_metadata.
      and_then (fail_if (md_is_symlink root_metadata)
          (Acquisition (RootPolicyViolation RepositoryRootIsSymlink))) (\<lambda>_.
      and_then (fail_if (\<not> md_is_dir root_metadata) (Acquisition NotGitRepository)) (\<lambda>_.
      and_then (case symlink_metadata w git_dir of
                  Inl NotFound \<Rightarrow>
                    if h_is_dir h (path_join root ''objects'') \<and> h_is_file h (path_join root ''HEAD'')
                    then Err (unsupported BareRepository) else Err (Acquisition NotGitRepository)
                | Inl OtherIo \<Rightarrow> Err Unexpected
                | Inr metadata \<Rightarrow> Ok metadata) (\<lambda>git_metadata.
      and_then (fail_if (md_is_symlink git_metadata)
          (Acquisition (RootPolicyViolation GitDirectoryIsSymlink))) (\<lambda>_.
      and_then (fail_if (\<not> md_is_dir git_metadata)
          (Acquisition (RootPolicyViolation GitDirectoryNotContained))) (\<lambda>_.
      and_then (ok_or Unexpected (h_canonicalize h root)) (\<lambda>canonical_root.
      and_then (ok_or Unexpected (h_canonicalize h git_dir)) (\<lambda>canonical_git.
      and_then (fail_if (parent_path canonical_git \<noteq> Some canonical_root)
          (Acquisition (RootPolicyViolation GitDirectoryNotContained))) (\<lambda>_.
      Ok canonical_git))))))))))"

text \<open>\<open>Path::extension\<close> of the file name.\<close>

definition path_extension :: "string \<Rightarrow> string option" where
  "path_extension p =
     (case rsplit_once CHR ''.'' (last (split_on CHR ''/'' p)) of
        None \<Rightarrow> None
      | Some (stem, extension) \<Rightarrow> if stem = [] then None else Some extension)"

fun reject_pack_entries :: "dir_entry option list \<Rightarrow> (unit, repository_error) result" where
  "reject_pack_entries [] = Ok ()"
| "reject_pack_entries (item # items) =
     (case item of
        None \<Rightarrow> Err Unexpected
      | Some entry \<Rightarrow>
          if path_extension (de_path entry) = Some ''pack'' \<or> path_extension (de_path entry) = Some ''idx''
          then Err (unsupported PackedObjectDatabase) else reject_pack_entries items)"

definition reject_packed_object_database :: "world \<Rightarrow> string \<Rightarrow> (unit, repository_error) result" where
  "reject_packed_object_database w git_dir =
     and_then (s1_relative_metadata w git_dir ''objects/pack'') (\<lambda>found.
     case found of
       None \<Rightarrow> Ok ()
     | Some metadata \<Rightarrow>
         and_then (fail_if (\<not> md_is_dir metadata) Unexpected) (\<lambda>_.
         and_then (ok_or Unexpected (read_dir w (path_join git_dir ''objects/pack''))) reject_pack_entries))"

definition open_object_database ::
  "'z host \<Rightarrow> string \<Rightarrow> object_database_mode \<Rightarrow> (s1_object_database, repository_error) result" where
  "open_object_database h git_dir mode =
     (case mode of
        LooseOnly_mode \<Rightarrow>
          and_then (reject_packed_object_database (h_world h) git_dir) (\<lambda>_. Ok (LooseOnly git_dir))
      | LocalGitSha1Packed_mode \<Rightarrow>
          and_then (map_err Acquisition (db_open (h_extern h) (h_world h) git_dir)) (\<lambda>db. Ok (Packed db)))"

section \<open>Revisions\<close>

text \<open>The first packed line for the main branch whose identifier parses.\<close>

fun packed_main :: "string list \<Rightarrow> object_id option" where
  "packed_main [] = None"
| "packed_main (line # rest) =
     (case split_once CHR '' '' line of
        None \<Rightarrow> packed_main rest
      | Some (object_id, name) \<Rightarrow>
          if name = ''refs/heads/main'' \<and> parse_sha1 object_id \<noteq> None then parse_sha1 object_id
          else packed_main rest)"

definition resolve_main_ref :: "'z host \<Rightarrow> string \<Rightarrow> object_id option" where
  "resolve_main_ref h git_dir =
     (case Option.bind (h_read h (path_join git_dir ''refs/heads/main'')) from_utf8 of
        Some value' \<Rightarrow> parse_sha1 (trim_line_end value')
      | None \<Rightarrow>
          (case Option.bind (h_read h (path_join git_dir ''packed-refs'')) from_utf8 of
             None \<Rightarrow> None
           | Some packed \<Rightarrow> packed_main (text_lines packed)))"

definition resolve_revision :: "'z host \<Rightarrow> string \<Rightarrow> revision \<Rightarrow> (object_id, repository_error) result" where
  "resolve_revision h git_dir revision =
     (case revision of
        Commit_revision oid \<Rightarrow> Ok oid
      | Main_revision \<Rightarrow> ok_or (Acquisition (RevisionNotFound revision)) (resolve_main_ref h git_dir))"

definition resolve_s1_main_ref :: "world \<Rightarrow> string \<Rightarrow> (object_id option, repository_error) result" where
  "resolve_s1_main_ref w git_dir =
     and_then (read_s1_control_file w git_dir ''refs/heads/main'') (\<lambda>found.
     case found of
       Some bs \<Rightarrow>
         and_then (ok_or Unexpected (from_utf8 bs)) (\<lambda>value'. Ok (parse_sha1 (trim_line_end value')))
     | None \<Rightarrow>
         and_then (read_s1_control_file w git_dir ''packed-refs'') (\<lambda>packed.
         case packed of
           None \<Rightarrow> Ok None
         | Some bs \<Rightarrow>
             and_then (ok_or Unexpected (from_utf8 bs)) (\<lambda>text. Ok (packed_main (text_lines text)))))"

definition resolve_s1_revision :: "world \<Rightarrow> string \<Rightarrow> revision \<Rightarrow> (object_id, repository_error) result" where
  "resolve_s1_revision w git_dir revision =
     (case revision of
        Commit_revision oid \<Rightarrow> Ok oid
      | Main_revision \<Rightarrow>
          and_then (resolve_s1_main_ref w git_dir) (\<lambda>found. ok_or (Acquisition (RevisionNotFound revision)) found))"

section \<open>Operations\<close>

text \<open>The kind reported for a revision that is not a commit; \<open>None\<close> is the \<open>unreachable!\<close> arm.\<close>

fun actual_kind :: "git_object_kind \<Rightarrow> actual_object_kind option" where
  "actual_kind Tag = Some AK_Tag"
| "actual_kind Tree = Some AK_Tree"
| "actual_kind Blob = Some AK_Blob"
| "actual_kind Commit = None"

definition require_commit :: "object_id \<Rightarrow> git_object \<Rightarrow> (object_id, repository_error) result" where
  "require_commit commit_oid commit =
     and_then (if go_kind commit \<noteq> Commit
               then and_then (expect (actual_kind (go_kind commit))) (\<lambda>k. Err (Acquisition (RevisionNotCommit commit_oid k)))
               else Ok ()) (\<lambda>_.
     ok_or (Acquisition (RepositoryInconsistent commit_oid OK_Commit)) (parse_commit_tree (go_body_prefix commit)))"

definition bind_repository ::
  "'z host \<Rightarrow> string \<Rightarrow> repository_identity \<Rightarrow> revision \<Rightarrow> (bound_revision, repository_error) result"
where
  "bind_repository h root identity revision =
     (let git_dir = path_join root ''.git'' in
      and_then (if \<not> h_is_dir h root \<or> \<not> h_is_dir h git_dir
                then (if h_is_dir h (path_join root ''objects'') \<and> h_is_file h (path_join root ''HEAD'')
                      then Err (unsupported BareRepository) else Err (Acquisition NotGitRepository))
                else Ok ()) (\<lambda>_.
      and_then (validate_repository_shape h git_dir) (\<lambda>_.
      and_then (resolve_revision h git_dir revision) (\<lambda>commit_oid.
      and_then (required_revision_object h git_dir commit_oid revision) (\<lambda>commit.
      and_then (require_commit commit_oid commit) (\<lambda>tree_oid.
      and_then (required_referenced_object h git_dir tree_oid OK_Tree commit_oid) (\<lambda>tree.
      and_then (fail_if (go_kind tree \<noteq> Tree) (Acquisition (RepositoryInconsistent tree_oid OK_Tree))) (\<lambda>_.
      and_then (parse_single_regular_file tree) (\<lambda>blob_oid.
      and_then (required_referenced_object h git_dir blob_oid OK_Blob tree_oid) (\<lambda>blob.
      and_then (fail_if (go_kind blob \<noteq> Blob) (Acquisition (RepositoryInconsistent blob_oid OK_Blob))) (\<lambda>_.
      and_then (fail_if (starts_with lfs_header (go_body_prefix blob)) (unsupported LfsMaterialization)) (\<lambda>_.
      Ok \<lparr>br_identity = identity, br_commit_oid = commit_oid, br_tree_oid = tree_oid\<rparr>))))))))))))"

text \<open>The part \<open>acquire_inventory_internal\<close> and \<open>bind_nested_repository\<close> share: the commit and its tree.\<close>

definition read_root_tree ::
  "'z host \<Rightarrow> string \<Rightarrow> s1_object_database \<Rightarrow> revision \<Rightarrow>
   (object_id \<times> object_id \<times> git_object \<times> s1_object_database, repository_error) result"
where
  "read_root_tree h git_dir db revision =
     and_then (resolve_s1_revision (h_world h) git_dir revision) (\<lambda>commit_oid.
     and_then (required_s1_revision_object h db commit_oid revision) (\<lambda>(commit, db).
     and_then (require_commit commit_oid commit) (\<lambda>tree_oid.
     and_then (required_referenced_object_with_capture h db tree_oid OK_Tree commit_oid
         s1_tree_capture_limit None s1_tree_capture_limit) (\<lambda>(tree, db).
     and_then (fail_if (go_kind tree \<noteq> Tree \<or> go_body_size tree \<noteq> length (go_body_prefix tree))
         (Acquisition (RepositoryInconsistent tree_oid OK_Tree))) (\<lambda>_.
     Ok (commit_oid, tree_oid, tree, db))))))"

definition acquire_inventory_internal ::
  "'z host \<Rightarrow> local_git_repository \<Rightarrow> string \<Rightarrow> repository_identity \<Rightarrow> revision \<Rightarrow> bool \<Rightarrow>
   (acquired_repository_boundaries, boundary_acquisition_error) result"
where
  "acquire_inventory_internal h self root identity revision collect_boundaries =
     and_then (map_err BA_Repository (validate_s1_repository_root h root)) (\<lambda>git_dir.
     and_then (map_err BA_Repository (validate_s1_repository_shape (h_world h) git_dir)) (\<lambda>_.
     and_then (map_err BA_Repository (open_object_database h git_dir (lg_object_database self))) (\<lambda>db.
     and_then (map_err BA_Repository (read_root_tree h git_dir db revision)) (\<lambda>(commit_oid, tree_oid, tree, db).
     let state = (if collect_boundaries then new_boundaries (lg_single_file_bytes self)
                  else new_state (lg_single_file_bytes self))\<lparr>ts_internal_symlinks := lg_internal_symlinks self\<rparr> in
     and_then (traverse_tree_object h db tree_oid tree [] 0 state) (\<lambda>(db, state).
     and_then (map_err BA_Repository (resolve_all h state)) (\<lambda>(symlinks, state).
     and_then (map_err BA_Repository (s1_verify_unchanged h db)) (\<lambda>_.
     Ok \<lparr>arb_repository = \<lparr>ar_bound_revision = \<lparr>br_identity = identity, br_commit_oid = commit_oid, br_tree_oid = tree_oid\<rparr>,
           ar_directory_count = ts_directory_count state, ar_files = ts_files state, ar_symlinks = symlinks\<rparr>,
         arb_gitlinks = (case ts_gitlinks state of None \<Rightarrow> [] | Some gs \<Rightarrow> gs),
         arb_gitmodules = ts_gitmodules state\<rparr>)))))))"

definition acquire_inventory ::
  "'z host \<Rightarrow> local_git_repository \<Rightarrow> string \<Rightarrow> repository_identity \<Rightarrow> revision \<Rightarrow>
   (acquired_repository, repository_error) result"
where
  "acquire_inventory h self root identity revision =
     and_then (map_err (\<lambda>e. case e of BA_Repository e \<Rightarrow> e | BA_Boundary _ \<Rightarrow> Unexpected)
         (acquire_inventory_internal h self root identity revision False)) (\<lambda>r. Ok (arb_repository r))"

definition acquire_inventory_with_boundaries ::
  "'z host \<Rightarrow> local_git_repository \<Rightarrow> string \<Rightarrow> repository_identity \<Rightarrow> revision \<Rightarrow>
   (acquired_repository_boundaries, boundary_acquisition_error) result"
where
  "acquire_inventory_with_boundaries h self root identity revision =
     acquire_inventory_internal h self root identity revision True"

section \<open>Nested repositories\<close>

record repository_root_stamp =
  rs_canonical_root :: string
  rs_canonical_git :: string
  rs_root_identity :: "nat \<times> nat"
  rs_git_identity :: "nat \<times> nat"

definition file_identity :: "world \<Rightarrow> string \<Rightarrow> (nat \<times> nat, repository_error) result" where
  "file_identity w path =
     (case symlink_metadata w path of Inl _ \<Rightarrow> Err Unexpected | Inr m \<Rightarrow> Ok (md_dev m, md_ino m))"

definition capture_stamp :: "'z host \<Rightarrow> string \<Rightarrow> (repository_root_stamp, repository_error) result" where
  "capture_stamp h root =
     (let git = path_join root ''.git'' in
      and_then (ok_or Unexpected (h_canonicalize h root)) (\<lambda>canonical_root.
      and_then (ok_or Unexpected (h_canonicalize h git)) (\<lambda>canonical_git.
      and_then (file_identity (h_world h) root) (\<lambda>root_identity.
      and_then (file_identity (h_world h) git) (\<lambda>git_identity.
      Ok \<lparr>rs_canonical_root = canonical_root, rs_canonical_git = canonical_git,
          rs_root_identity = root_identity, rs_git_identity = git_identity\<rparr>)))))"

definition map_nested_repository_error :: "repository_error \<Rightarrow> nested_acquisition_error" where
  "map_nested_repository_error e =
     (case e of
        Acquisition (UnsupportedRepositoryShape (PackedAcquisition (PackedChanged _))) \<Rightarrow> NE_Changed
      | _ \<Rightarrow> NE_Repository e)"

fun profile_mode :: "nested_acquisition_profile \<Rightarrow> object_database_mode" where
  "profile_mode VerifiedLooseSha1V1 = LooseOnly_mode"
| "profile_mode LocalGitSha1PackedV1 = LocalGitSha1Packed_mode"

text \<open>The errors of the revision check are reported as they are, all others may mean a change.\<close>

definition nested_root_tree ::
  "'z host \<Rightarrow> string \<Rightarrow> s1_object_database \<Rightarrow> revision \<Rightarrow>
   (object_id \<times> object_id \<times> s1_object_database, nested_acquisition_error) result"
where
  "nested_root_tree h git_dir db revision =
     and_then (map_err map_nested_repository_error (resolve_s1_revision (h_world h) git_dir revision)) (\<lambda>commit_oid.
     and_then (map_err map_nested_repository_error (required_s1_revision_object h db commit_oid revision)) (\<lambda>(commit, db).
     and_then (map_err NE_Repository (require_commit commit_oid commit)) (\<lambda>tree_oid.
     and_then (map_err map_nested_repository_error (required_referenced_object_with_capture h db tree_oid OK_Tree
         commit_oid s1_tree_capture_limit None s1_tree_capture_limit)) (\<lambda>(tree, db).
     and_then (fail_if (go_kind tree \<noteq> Tree \<or> go_body_size tree \<noteq> length (go_body_prefix tree))
         (NE_Repository (Acquisition (RepositoryInconsistent tree_oid OK_Tree)))) (\<lambda>_.
     Ok (commit_oid, tree_oid, db))))))"

text \<open>The repository is looked at again, in the host \<open>h'\<close> of that moment, after everything has been read.\<close>

definition bind_nested_repository ::
  "'z host \<Rightarrow> 'z host \<Rightarrow> string \<Rightarrow> repository_identity \<Rightarrow> revision \<Rightarrow> nested_acquisition_profile \<Rightarrow>
   (bound_revision, nested_acquisition_error) result"
where
  "bind_nested_repository h h' root identity revision profile =
     and_then (map_err NE_Repository (validate_s1_repository_root h root)) (\<lambda>git_dir.
     and_then (map_err NE_Repository (validate_s1_repository_shape (h_world h) git_dir)) (\<lambda>_.
     and_then (map_err NE_Repository (capture_stamp h root)) (\<lambda>before.
     and_then (map_err map_nested_repository_error (open_object_database h git_dir (profile_mode profile))) (\<lambda>db.
     and_then (nested_root_tree h git_dir db revision) (\<lambda>(commit_oid, tree_oid, db).
     and_then (map_err map_nested_repository_error (s1_verify_unchanged h db)) (\<lambda>_.
     and_then (map_err (\<lambda>_. NE_Changed) (capture_stamp h' root)) (\<lambda>after.
     if before \<noteq> after then Err NE_Changed
     else Ok \<lparr>br_identity = identity, br_commit_oid = commit_oid, br_tree_oid = tree_oid\<rparr>)))))))"

section \<open>Totality\<close>

lemma relative_metadata_not_Panic [simp]: "relative_metadata w current cs \<noteq> Panic"
  by (induction w current cs rule: relative_metadata.induct)
    (auto simp: Let_def split: sum.splits io_error.splits)

lemma s1_relative_metadata_not_Panic [simp]: "s1_relative_metadata w git_dir r \<noteq> Panic"
  by (simp add: s1_relative_metadata_def)

lemma read_s1_control_file_not_Panic [simp]: "read_s1_control_file w git_dir r \<noteq> Panic"
  by (auto simp: read_s1_control_file_def Let_def result_iffs split: option.splits if_splits)

lemma validate_s1_repository_shape_not_Panic [simp]: "validate_s1_repository_shape w git_dir \<noteq> Panic"
  unfolding validate_s1_repository_shape_def Let_def
  by (simp add: and_then_Panic_iff)

lemma validate_s1_repository_root_not_Panic [simp]: "validate_s1_repository_root h root \<noteq> Panic"
  unfolding validate_s1_repository_root_def Let_def
  by (simp add: and_then_Panic_iff split: sum.splits io_error.splits)

lemma reject_pack_entries_not_Panic [simp]: "reject_pack_entries items \<noteq> Panic"
  by (induction items rule: reject_pack_entries.induct) (auto split: option.splits)

lemma open_object_database_not_Panic [simp]: "open_object_database h git_dir mode \<noteq> Panic"
  using fails_only_not_Panic [OF db_open_outcome, of "h_extern h" "h_world h" git_dir]
  by (cases mode) (auto simp: open_object_database_def reject_packed_object_database_def result_iffs split: option.splits)

lemma resolve_s1_revision_not_Panic [simp]: "resolve_s1_revision w git_dir revision \<noteq> Panic"
  by (cases revision) (auto simp: resolve_s1_revision_def resolve_s1_main_ref_def result_iffs split: option.splits)

lemma require_commit_not_Panic [simp]: "require_commit oid commit \<noteq> Panic"
  by (cases "go_kind commit") (auto simp: require_commit_def)

lemma db_verify_not_Panic [simp]: "s1_verify_unchanged h db \<noteq> Panic"
proof -
  have "verify_packs w ps \<noteq> Panic" for w ps
    by (induction ps) (auto simp: result_iffs file_verify_unchanged_def)
  then show ?thesis by (cases db) (simp_all add: s1_verify_unchanged_def db_verify_unchanged_def)
qed

lemma open_object_database_valid: "open_object_database h git_dir mode = Ok db \<Longrightarrow> s1_valid h db"
  by (cases mode) (auto simp: open_object_database_def result_iffs elim!: db_open_Ok)

lemma read_s1_object_valid:
  "s1_valid h db \<Longrightarrow> required_s1_revision_object h db oid revision = Ok (obj, db') \<Longrightarrow> s1_valid h db'"
  by (auto simp: required_s1_revision_object_def result_iffs dest: s1_reader.read_valid)

text \<open>The commit is stored under its identifier and names the tree; the tree is read in full.\<close>

definition commit_names_tree :: "'z host \<Rightarrow> object_id \<Rightarrow> object_id \<Rightarrow> bool" where
  "commit_names_tree h commit_oid tree_oid \<longleftrightarrow>
     (\<exists>body. object_stored h commit_oid Commit body \<and> parse_commit_tree (take 64 body) = Some tree_oid)"

lemma read_root_tree_Ok:
  assumes "read_root_tree h git_dir db revision = Ok (commit_oid, tree_oid, tree, db')" "s1_valid h db"
  shows "s1_valid h db'" "commit_names_tree h commit_oid tree_oid" "object_stored h tree_oid Tree (go_body_prefix tree)"
    "resolve_s1_revision (h_world h) git_dir revision = Ok commit_oid"
    "\<exists>db1. read_tree h db1 tree_oid = Ok (Some tree, db') \<and>
       (\<exists>c d m commit. s1_read_object h db commit_oid c d m = Ok (Some commit, db1))" "go_kind tree = Tree"
proof -
  from assms(1) obtain commit db1 where
    r: "resolve_s1_revision (h_world h) git_dir revision = Ok commit_oid"
    and c: "s1_read_object h db commit_oid (Some 64) None (Some s1_internal_object_bytes) = Ok (Some commit, db1)"
    and k: "require_commit commit_oid commit = Ok tree_oid"
    and t: "read_tree h db1 tree_oid = Ok (Some tree, db')" and tk: "go_kind tree = Tree"
    by (auto simp: read_root_tree_def required_s1_revision_object_def required_referenced_object_with_capture_def
        read_tree_def result_iffs)
  note v1 = s1_reader.read_valid [OF assms(2) c]
  show "s1_valid h db'" using s1_reader.read_valid [OF v1 t [unfolded read_tree_def]] .
  show "object_stored h tree_oid Tree (go_body_prefix tree)"
    using s1_reader.read_whole(1) [OF v1 t [unfolded read_tree_def]] tk by simp
  from k have "go_kind commit = Commit" "parse_commit_tree (go_body_prefix commit) = Some tree_oid"
    by (auto simp: require_commit_def result_iffs split: if_splits)
  with s1_reader.read_found [OF assms(2) c] show "commit_names_tree h commit_oid tree_oid"
    by (auto simp: commit_names_tree_def capture_of_def)
  show "resolve_s1_revision (h_world h) git_dir revision = Ok commit_oid" by (rule r)
  show "go_kind tree = Tree" by (rule tk)
  show "\<exists>db1. read_tree h db1 tree_oid = Ok (Some tree, db') \<and>
       (\<exists>c d m commit. s1_read_object h db commit_oid c d m = Ok (Some commit, db1))" using c t by blast
qed

lemma read_root_tree_not_Panic:
  assumes "s1_valid h db"
  shows "read_root_tree h git_dir db revision \<noteq> Panic"
  using required_not_Panic(3) [OF assms] required_not_Panic(2) read_s1_object_valid [OF assms]
  unfolding read_root_tree_def by (fastforce simp: and_then_Panic_iff split: prod.splits)

section \<open>The acquisition\<close>

definition initial_state :: "local_git_repository \<Rightarrow> bool \<Rightarrow> traversal_state" where
  "initial_state self collect_boundaries =
     (if collect_boundaries then new_boundaries (lg_single_file_bytes self)
      else new_state (lg_single_file_bytes self))\<lparr>ts_internal_symlinks := lg_internal_symlinks self\<rparr>"

lemma initial_state_inv: "state_inv h (initial_state self b)"
  by (simp add: initial_state_def new_boundaries_def new_state_def inv_defs bt_wf_def)

lemma initial_state_facts [simp]:
  "ts_files (initial_state self b) = []" "collects_boundaries (initial_state self b) \<longleftrightarrow> b"
  "ts_single_file_bytes (initial_state self b) = lg_single_file_bytes self"
  by (auto simp: initial_state_def new_boundaries_def new_state_def collects_boundaries_def)

lemma acquire_internal_Ok:
  assumes "acquire_inventory_internal h self root identity revision b = Ok r"
  obtains git_dir db0 commit_oid tree_oid tree db1 db2 st links st' where
    "validate_s1_repository_root h root = Ok git_dir"
    "open_object_database h git_dir (lg_object_database self) = Ok db0"
    "read_root_tree h git_dir db0 revision = Ok (commit_oid, tree_oid, tree, db1)"
    "traverse_tree_object h db1 tree_oid tree [] 0 (initial_state self b) = Ok (db2, st)"
    "resolve_links h (ts_link_entries st) (ts_link_entries st) st = Ok (links, st')"
    "s1_verify_unchanged h db2 = Ok ()"
    "ar_files (arb_repository r) = ts_files st'" "ar_symlinks (arb_repository r) = links"
    "ar_bound_revision (arb_repository r) = \<lparr>br_identity = identity, br_commit_oid = commit_oid, br_tree_oid = tree_oid\<rparr>"
    "arb_gitlinks r = (case ts_gitlinks st' of None \<Rightarrow> [] | Some gs \<Rightarrow> gs)"
  using assms
  unfolding acquire_inventory_internal_def resolve_all_def initial_state_def [symmetric] Let_def
  by (auto simp: and_then_Ok_iff)

lemma resolve_links_same:
  "resolve_links h entries es st = Ok (links, st') \<Longrightarrow> \<exists>n. st' = st\<lparr>ts_looks := n\<rparr>"
proof (induction h entries es st arbitrary: links rule: resolve_links.induct)
  case (1 h entries st)
  then show ?case by (intro exI [of _ "ts_looks st"]) simp
next
  case (2 h entries path entry rest st)
  then show ?case by (fastforce simp: result_iffs dest: check_time_Ok split: link_entry.splits)
qed

text \<open>What an inventory guarantees.\<close>

definition link_ok :: "'z host \<Rightarrow> acquired_symlink \<Rightarrow> bool" where
  "link_ok h l \<longleftrightarrow>
     path_ok (as_path l) \<and> object_stored h (as_blob_oid l) Blob (as_bytes_of l) \<and> path_ok (as_resolved_target l)"

definition inventory_ok :: "'z host \<Rightarrow> local_git_repository \<Rightarrow> acquired_repository_boundaries \<Rightarrow> bool" where
  "inventory_ok h self r \<longleftrightarrow>
     (let repo = arb_repository r; files = ar_files repo; bound = ar_bound_revision repo in
      commit_names_tree h (br_commit_oid bound) (br_tree_oid bound) \<and>
      distinct (map af_path files) \<and>
      list_all (\<lambda>f. path_ok (af_path f) \<and> file_stored h (lg_single_file_bytes self) f) files \<and>
      length files \<le> limit_maximum RegularFiles \<and>
      (\<Sum>f\<leftarrow>files. length (af_bytes f)) \<le> limit_maximum CumulativeFileBytes \<and>
      list_all (link_ok h) (ar_symlinks repo) \<and>
      length (arb_gitlinks r) \<le> boundary_maximum GitlinkEntries)"

lemma state_inv_link:
  assumes "state_inv h st" "(p, e) \<in> set (ts_link_entries st)"
  shows "path_ok p" "link_stored h e"
proof -
  from assms(1) have "\<forall>(p, e) \<in> set (ts_link_entries st). p \<in> ts_canonical_paths st"
    "\<forall>p \<in> ts_canonical_paths st. path_ok p" "\<forall>(p, e) \<in> set (ts_link_entries st). link_stored h e"
    unfolding inv_defs by blast+
  with assms(2) show "path_ok p" "link_stored h e" by auto
qed

lemma links_ok:
  assumes "resolve_links h (ts_link_entries st) (ts_link_entries st) st = Ok (links, st')" "state_inv h st"
    and "l \<in> set links"
  shows "link_ok h l"
proof -
  note facts = resolve_links_Ok [OF assms(1)]
  have "(as_path l, LE_Link (as_blob_oid l) (as_bytes_of l)) \<in>
      set (map (\<lambda>l. (as_path l, LE_Link (as_blob_oid l) (as_bytes_of l))) links)"
    using assms(3) by simp
  then have "(as_path l, LE_Link (as_blob_oid l) (as_bytes_of l)) \<in> set (ts_link_entries st)"
    unfolding conjunct1 [OF facts] by simp
  moreover from facts assms(3) have
    "resolve_link (ts_link_entries st) (as_path l) = Some (as_resolved_target l, as_target_oid l, as_target_kind l)" by blast
  then obtain e where "bt_get (ts_link_entries st) (as_resolved_target l) = Some e" by (rule resolve_link_Some)
  then have "(as_resolved_target l, e) \<in> set (ts_link_entries st)"
    using bt_get_mem [of "ts_link_entries st"] assms(2) by (simp add: inv_defs)
  ultimately show ?thesis using state_inv_link [OF assms(2)] unfolding link_ok_def by force
qed

lemma acquire_internal_facts:
  assumes "acquire_inventory_internal h self root identity revision b = Ok r"
  shows "inventory_ok h self r"
proof -
  from assms obtain git_dir db0 commit_oid tree_oid tree db1 db2 st links st' where
    o: "open_object_database h git_dir (lg_object_database self) = Ok db0"
    and rt: "read_root_tree h git_dir db0 revision = Ok (commit_oid, tree_oid, tree, db1)"
    and t: "traverse_tree_object h db1 tree_oid tree [] 0 (initial_state self b) = Ok (db2, st)"
    and l: "resolve_links h (ts_link_entries st) (ts_link_entries st) st = Ok (links, st')"
    and r: "ar_files (arb_repository r) = ts_files st'" "ar_symlinks (arb_repository r) = links"
    "ar_bound_revision (arb_repository r) = \<lparr>br_identity = identity, br_commit_oid = commit_oid, br_tree_oid = tree_oid\<rparr>"
    "arb_gitlinks r = (case ts_gitlinks st' of None \<Rightarrow> [] | Some gs \<Rightarrow> gs)"
    by (rule acquire_internal_Ok)
  note root = read_root_tree_Ok [OF rt open_object_database_valid [OF o]]
  have "traversed False (\<lambda>_. True) h [] (tree_lists Map.empty tree_oid) (initial_state self b) (db2, st)"
    by (rule traverse_traversed(1) [OF t]) (use root initial_state_inv in \<open>auto simp: current_path_def\<close>)
  then obtain ks where "extends h (initial_state self b) st ks" by (auto simp: traversed_def)
  then have inv: "state_inv h st" and single: "ts_single_file_bytes st = lg_single_file_bytes self"
    by (auto simp: extends_def config_of_def)
  have links: "list_all (link_ok h) links" using links_ok [OF l inv] by (simp add: list_all_iff)
  obtain n where st': "st' = st\<lparr>ts_looks := n\<rparr>" using resolve_links_same [OF l] by blast
  have "length (arb_gitlinks r) \<le> boundary_maximum GitlinkEntries"
    using inv unfolding r st' by (auto simp: inv_defs split: option.splits)
  moreover have "list_all (\<lambda>f. path_ok (af_path f) \<and> file_stored h (lg_single_file_bytes self) f) (ts_files st)"
    using inv single by (auto simp: inv_defs list_all_iff)
  moreover have "distinct (map af_path (ts_files st))" "length (ts_files st) \<le> limit_maximum RegularFiles"
    "(\<Sum>f\<leftarrow>ts_files st. length (af_bytes f)) \<le> limit_maximum CumulativeFileBytes"
    using inv by (auto simp: inv_defs)
  ultimately show ?thesis
    using root(2) links unfolding inventory_ok_def Let_def r st' by simp
qed

lemma acquire_internal_not_Panic: "acquire_inventory_internal h self root identity revision b \<noteq> Panic"
proof -
  have "traverse_tree_object h db1 tree_oid tree [] 0 (initial_state self b) \<noteq> Panic"
    if "open_object_database h git_dir (lg_object_database self) = Ok db0"
      "read_root_tree h git_dir db0 revision = Ok (commit_oid, tree_oid, tree, db1)"
    for git_dir db0 commit_oid tree_oid tree db1
    using read_root_tree_Ok(1) [OF that(2) open_object_database_valid [OF that(1)]] initial_state_inv
    by (intro traverse_not_Panic(1) [of _ "[]"]) (auto simp: current_path_def)
  then show ?thesis
    using read_root_tree_not_Panic open_object_database_valid resolve_links_not_Panic
    unfolding acquire_inventory_internal_def resolve_all_def initial_state_def [symmetric] Let_def
    by (fastforce simp: and_then_Panic_iff split: prod.splits)
qed

section \<open>Loose repositories\<close>

text \<open>The tree objects of a loose database.\<close>

definition loose_trees :: "'z host \<Rightarrow> string \<Rightarrow> object_id \<rightharpoonup> bytes" where
  "loose_trees h git_dir oid =
     (case read_tree h (LooseOnly git_dir) oid of
        Ok (Some obj, _) \<Rightarrow> if go_kind obj = Tree then Some (go_body_prefix obj) else None
      | _ \<Rightarrow> None)"

lemma loose_describes: "describes_trees h (\<lambda>db. db = LooseOnly git_dir) (loose_trees h git_dir)"
  by (auto simp: describes_trees_def loose_trees_def s1_read_object_def result_iffs)

lemma acquire_loose_exact:
  assumes "acquire_inventory_internal h self root identity revision False = Ok r"
    and "lg_object_database self = LooseOnly_mode"
  shows "\<exists>git_dir. validate_s1_repository_root h root = Ok git_dir \<and>
    file_key ` set (ar_files (arb_repository r)) =
      regular_keys [] (tree_lists (loose_trees h git_dir) (br_tree_oid (ar_bound_revision (arb_repository r))))"
proof -
  from assms(1) obtain git_dir db0 commit_oid tree_oid tree db1 db2 st links st' where
    g: "validate_s1_repository_root h root = Ok git_dir"
    and o: "open_object_database h git_dir (lg_object_database self) = Ok db0"
    and rt: "read_root_tree h git_dir db0 revision = Ok (commit_oid, tree_oid, tree, db1)"
    and t: "traverse_tree_object h db1 tree_oid tree [] 0 (initial_state self False) = Ok (db2, st)"
    and l: "resolve_links h (ts_link_entries st) (ts_link_entries st) st = Ok (links, st')"
    and r: "ar_files (arb_repository r) = ts_files st'"
    "ar_bound_revision (arb_repository r) = \<lparr>br_identity = identity, br_commit_oid = commit_oid, br_tree_oid = tree_oid\<rparr>"
    by (rule acquire_internal_Ok)
  note root = read_root_tree_Ok [OF rt open_object_database_valid [OF o]]
  let ?P = "\<lambda>db. db = LooseOnly git_dir" and ?tr = "loose_trees h git_dir"
  note ld = loose_describes [of h git_dir]
  from root(5) obtain db' c d m commit where
    reads: "read_tree h db' tree_oid = Ok (Some tree, db1)" "s1_read_object h db0 commit_oid c d m = Ok (Some commit, db')"
    by blast
  have "?P db0" using o assms(2) by (auto simp: open_object_database_def result_iffs)
  then have P': "?P db'" by (rule describes_read [OF ld _ reads(2)])
  have tree: "?P db1" by (rule describes_read [OF ld P' reads(1) [unfolded read_tree_def]])
  have trd: "?tr tree_oid = Some (go_body_prefix tree)"
    using ld [unfolded describes_trees_def, THEN conjunct2, rule_format, OF P' reads(1) root(6)] .
  have "traversed True ?P h [] (tree_lists ?tr tree_oid) (initial_state self False) (db2, st)"
    by (rule traverse_traversed(1) [OF t])
      (use root(1) initial_state_inv tree trd loose_describes in \<open>auto simp: current_path_def\<close>)
  then obtain ks where e: "extends h (initial_state self False) st ks" and ks: "set ks = regular_keys [] (tree_lists ?tr tree_oid)"
    by (auto simp: traversed_def)
  obtain n where st': "st' = st\<lparr>ts_looks := n\<rparr>" using resolve_links_same [OF l] by blast
  from e have "map file_key (ts_files st') = ks" by (auto simp: extends_def st')
  with ks have "file_key ` set (ts_files st') = regular_keys [] (tree_lists ?tr tree_oid)"
    by (metis list.set_map)
  with g show ?thesis by (auto simp: r)
qed

section \<open>Properties\<close>


text \<open>
  C4. Exactness: on a loose repository the inventory holds exactly the regular files that the
  committed tree lists, at every depth, with their modes and identifiers: none is missed and none is
  invented.
\<close>

theorem acquire_inventory_exact:
  "case acquire_inventory h (self\<lparr>lg_object_database := LooseOnly_mode\<rparr>) root identity revision of
     Ok repo \<Rightarrow>
       (\<exists>git_dir. validate_s1_repository_root h root = Ok git_dir \<and>
          file_key ` set (ar_files repo) =
            regular_keys [] (tree_lists (loose_trees h git_dir) (br_tree_oid (ar_bound_revision repo))))
   | Err e \<Rightarrow> True
   | Panic \<Rightarrow> False"
proof (cases "acquire_inventory_internal h (self\<lparr>lg_object_database := LooseOnly_mode\<rparr>) root identity revision False")
  case (Ok r)
  from acquire_loose_exact [OF Ok] show ?thesis by (simp add: acquire_inventory_def Ok)
next
  case (Err e)
  then show ?thesis by (simp add: acquire_inventory_def)
next
  case Panic
  with acquire_internal_not_Panic show ?thesis by blast
qed

text \<open>
  C24. A nested repository is bound only if nothing changed underneath: when the root or its control
  directory has another canonical path or another identity after reading than before, the answer is
  the error \<open>Changed\<close> or an earlier one, never a binding.
\<close>

theorem bind_nested_repository_unchanged:
  "case bind_nested_repository h h' root identity revision profile of
     Ok bound \<Rightarrow>
       capture_stamp h root = capture_stamp h' root \<and>
       commit_names_tree h (br_commit_oid bound) (br_tree_oid bound)
   | Err e \<Rightarrow> True
   | Panic \<Rightarrow> False"
proof -
  have stamp: "capture_stamp g root \<noteq> Panic" for g :: "'a host"
    by (auto simp: capture_stamp_def file_identity_def Let_def result_iffs split: sum.splits)
  have tree: "nested_root_tree h git_dir db revision \<noteq> Panic" if "s1_valid h db" for git_dir db
    using required_not_Panic(3) [OF that] required_not_Panic(2) read_s1_object_valid [OF that]
    unfolding nested_root_tree_def by (fastforce simp: and_then_Panic_iff split: prod.splits)
  have names: "commit_names_tree h commit_oid tree_oid"
    if "nested_root_tree h git_dir db revision = Ok (commit_oid, tree_oid, db')" "s1_valid h db"
    for git_dir db commit_oid tree_oid db'
  proof -
    from that(1) obtain commit db1 where
      c: "s1_read_object h db commit_oid (Some 64) None (Some s1_internal_object_bytes) = Ok (Some commit, db1)"
      and k: "require_commit commit_oid commit = Ok tree_oid"
      by (auto simp: nested_root_tree_def required_s1_revision_object_def result_iffs)
    then have "go_kind commit = Commit" "parse_commit_tree (go_body_prefix commit) = Some tree_oid"
      by (auto simp: require_commit_def result_iffs split: if_splits)
    with s1_reader.read_found [OF that(2) c] show ?thesis by (auto simp: commit_names_tree_def capture_of_def)
  qed
  show ?thesis
  proof (cases "bind_nested_repository h h' root identity revision profile")
    case (Ok bound)
    then show ?thesis
      using names open_object_database_valid unfolding bind_nested_repository_def
      by (fastforce simp: and_then_Ok_iff split: if_splits)
  next
    case (Err e)
    then show ?thesis by simp
  next
    case Panic
    then show ?thesis
      using stamp tree open_object_database_valid unfolding bind_nested_repository_def
      by (fastforce simp: and_then_Panic_iff split: if_splits prod.splits)
  qed
qed

end
