(* ===== verification/Gitmodules.thy ===== *)
theory Gitmodules
  imports Boundary_Types Git_Objects Ordered_Map "HOL-Library.Product_Lexorder"
begin

text \<open>
  The parser of the committed \<open>.gitmodules\<close> file and the identifiers of boundary records
  (\<open>codenoesis-domain/src/s1_boundaries.rs\<close>). The SHA-256 function is a parameter, as it is in the
  source (the trait \<open>BoundarySha256\<close>).
\<close>

section \<open>Data\<close>

datatype boundary_url_kind =
    Url_Relative | Url_AbsolutePath | Url_File | Url_Ssh | Url_Https | Url_Http | Url_Git | Url_ScpLike | Url_Other

fun url_kind_str :: "boundary_url_kind \<Rightarrow> string" where
  "url_kind_str Url_Relative = ''relative''"
| "url_kind_str Url_AbsolutePath = ''absolute_path''"
| "url_kind_str Url_File = ''file''"
| "url_kind_str Url_Ssh = ''ssh''"
| "url_kind_str Url_Https = ''https''"
| "url_kind_str Url_Http = ''http''"
| "url_kind_str Url_Git = ''git''"
| "url_kind_str Url_ScpLike = ''scp_like''"
| "url_kind_str Url_Other = ''other''"

text \<open>\<open>UnsupportedGitmodulesKey\<close>: the key and the digest of its value, ordered by field.\<close>

type_synonym unsupported_key = "string \<times> string"

record gitmodules_declaration =
  gd_declaration_id :: string
  gd_name_sha256 :: string
  gd_path :: string
  gd_url_kind :: boundary_url_kind
  gd_url_sha256 :: string
  gd_unsupported_keys :: "unsupported_key list"
  gd_evidence_id :: string
  gd_blob_oid :: object_id
  gd_start_byte :: nat
  gd_end_byte :: nat

record pending_section =
  ps_name_sha256 :: string
  ps_start_byte :: nat
  ps_end_byte :: nat
  ps_values :: "(string, string) btree"

section \<open>Identifiers\<close>

type_synonym sha256 = "bytes \<Rightarrow> bytes"

definition hex_digest :: "bytes \<Rightarrow> string" where
  "hex_digest bs = concat (map byte_hex bs)"

definition sha256_hex :: "sha256 \<Rightarrow> string \<Rightarrow> string" where
  "sha256_hex hasher s = hex_digest (hasher (as_bytes s))"

text \<open>The hashed text of an identifier: the domain, then the fields, each after a zero byte.\<close>

definition domain_input :: "string \<Rightarrow> string list \<Rightarrow> bytes" where
  "domain_input domain parts = as_bytes domain @ 0 # join_with 0 (map as_bytes parts)"

definition domain_sha256 :: "sha256 \<Rightarrow> string \<Rightarrow> string list \<Rightarrow> string" where
  "domain_sha256 hasher domain parts = hex_digest (hasher (domain_input domain parts))"

definition prefixed_domain_id :: "sha256 \<Rightarrow> string \<Rightarrow> string \<Rightarrow> string list \<Rightarrow> string" where
  "prefixed_domain_id hasher prefix domain parts = prefix @ domain_sha256 hasher domain parts"

definition declaration_id :: "sha256 \<Rightarrow> bound_revision \<Rightarrow> string \<Rightarrow> string \<Rightarrow> string" where
  "declaration_id hasher root path name_sha256 =
     prefixed_domain_id hasher ''urn:codenoesis:gitmodules-declaration:sha256:''
       ''codenoesis.gitmodules-declaration/v1''
       [identity_str (br_identity root), as_str (br_commit_oid root), path, name_sha256]"

definition gitmodules_evidence_id :: "sha256 \<Rightarrow> bound_revision \<Rightarrow> object_id \<Rightarrow> nat \<Rightarrow> nat \<Rightarrow> string" where
  "gitmodules_evidence_id hasher root blob_oid start_byte end_byte =
     prefixed_domain_id hasher ''urn:codenoesis:boundary-evidence:sha256:''
       ''codenoesis.boundary-evidence.gitmodules/v1''
       [identity_str (br_identity root), as_str (br_commit_oid root), as_str blob_oid,
        show_nat start_byte, show_nat end_byte]"

section \<open>Validation of the bytes\<close>

definition metadata_error :: "boundary_metadata_reason \<Rightarrow> repository_boundary_error" where
  "metadata_error reason = MetadataInvalid reason None"

fun metadata_reason_order :: "boundary_metadata_reason \<Rightarrow> nat" where
  "metadata_reason_order InvalidEncoding = 0"
| "metadata_reason_order NulOrControl = 1"
| "metadata_reason_order BareCarriageReturn = 2"
| "metadata_reason_order MalformedSection = 3"
| "metadata_reason_order InvalidName = 4"
| "metadata_reason_order KeyOutsideSection = 5"
| "metadata_reason_order DuplicateSection = 6"
| "metadata_reason_order DuplicateKey = 7"
| "metadata_reason_order RequiredKeyMissing = 8"
| "metadata_reason_order PathInvalidReason = 9"
| "metadata_reason_order AmbiguousMapping = 10"
| "metadata_reason_order UnsafeEntryKind = 11"

type_synonym metadata_failure = "nat \<times> boundary_metadata_reason"

definition select_earlier_metadata_failure ::
  "metadata_failure option \<Rightarrow> nat \<Rightarrow> boundary_metadata_reason \<Rightarrow> metadata_failure option" where
  "select_earlier_metadata_failure selected offset reason =
     (case selected of
        None \<Rightarrow> Some (offset, reason)
      | Some (selected_offset, selected_reason) \<Rightarrow>
          if offset < selected_offset \<or>
             offset = selected_offset \<and> metadata_reason_order reason < metadata_reason_order selected_reason
          then Some (offset, reason) else selected)"

definition bare_carriage_return :: "bytes \<Rightarrow> nat \<Rightarrow> bool" where
  "bare_carriage_return bs i \<longleftrightarrow> bs ! i = 13 \<and> get_at (i + 1) bs \<noteq> Some 10"

definition nul_or_control :: "byte \<Rightarrow> bool" where
  "nul_or_control b \<longleftrightarrow> b = 127 \<or> b < 32 \<and> b \<notin> {9, 10, 13}"

text \<open>The body of the loop over the bytes.\<close>

definition metadata_byte :: "bytes \<Rightarrow> nat \<Rightarrow> metadata_failure option \<Rightarrow> metadata_failure option" where
  "metadata_byte bs i failure =
     (let failure1 = (if bare_carriage_return bs i
                      then select_earlier_metadata_failure failure i BareCarriageReturn else failure)
      in if nul_or_control (bs ! i)
         then select_earlier_metadata_failure failure1 i NulOrControl else failure1)"

definition encoding_failure :: "bytes \<Rightarrow> metadata_failure option" where
  "encoding_failure bs =
     (if from_utf8 bs = None then Some (valid_up_to (map unat bs), InvalidEncoding) else None)"

definition validate_gitmodules_bytes :: "bytes \<Rightarrow> (unit, repository_boundary_error) result" where
  "validate_gitmodules_bytes bs =
     (case fold (metadata_byte bs) [0..<length bs] (encoding_failure bs) of
        None \<Rightarrow> Ok ()
      | Some (_, reason) \<Rightarrow> Err (metadata_error reason))"

section \<open>Paths\<close>

definition validate_canonical_relative_path :: "string \<Rightarrow> (unit, boundary_metadata_reason) result" where
  "validate_canonical_relative_path path =
     (if path = [] \<or> starts_with ''/'' path \<or> CHR 0x5C \<in> set path \<or>
         (\<exists>b \<in> set (as_bytes path). is_ascii_control b \<or> b = 127) \<or> length path > 1024
      then Err PathInvalidReason
      else if \<exists>c \<in> set (split_on CHR ''/'' path). c = [] \<or> c = ''.'' \<or> c = ''..'' \<or> length c > 255
      then Err PathInvalidReason
      else Ok ())"

definition safe_error_path :: "string \<Rightarrow> string option" where
  "safe_error_path path = (if validate_canonical_relative_path path = Ok () then Some path else None)"

section \<open>Lines\<close>

record gitmodules_line =
  line_start :: nat
  line_content_end :: nat

text \<open>The loop of \<open>gitmodules_lines\<close> from the byte \<open>start\<close> on; \<open>bytes\<close> is the whole text.\<close>

function gitmodules_lines_from :: "bytes \<Rightarrow> nat \<Rightarrow> gitmodules_line list" where
  "gitmodules_lines_from bs start =
     (if start < length bs then
        let newline = (case position 10 (drop start bs) of None \<Rightarrow> length bs | Some offset \<Rightarrow> start + offset);
            content_end = (if start < newline \<and> bs ! (newline - 1) = 13 then newline - 1 else newline)
        in \<lparr>line_start = start, line_content_end = content_end\<rparr> # gitmodules_lines_from bs (newline + 1)
      else [])"
  by pat_completeness auto
termination
  by (relation "measure (\<lambda>(bs, start). length bs - start)") (auto split: option.splits)

declare gitmodules_lines_from.simps [simp del]

definition gitmodules_lines :: "bytes \<Rightarrow> gitmodules_line list" where
  "gitmodules_lines bs = gitmodules_lines_from bs 0"

definition horizontal :: "byte \<Rightarrow> bool" where
  "horizontal b \<longleftrightarrow> b = 32 \<or> b = 9"

definition trim_horizontal :: "bytes \<Rightarrow> bytes" where
  "trim_horizontal bs = rev (dropWhile horizontal (rev (dropWhile horizontal bs)))"

section \<open>Sections and keys\<close>

definition section_prefix :: bytes where
  "section_prefix = as_bytes (''[submodule '' @ [CHR 0x22])"

definition section_suffix :: bytes where
  "section_suffix = [0x22, 0x5D]"

definition name_byte :: "byte \<Rightarrow> bool" where
  "name_byte b \<longleftrightarrow> is_ascii_alphanumeric (byte_char b) \<or> byte_char b \<in> {CHR ''.'', CHR ''_'', CHR ''/'', CHR ''-''}"

text \<open>
  The slice between the prefix and the suffix is taken with an index expression, which aborts when
  its bounds cross: that happens when the prefix and the suffix share their quotation mark.
\<close>

definition parse_section_name :: "bytes \<Rightarrow> (string, repository_boundary_error) result" where
  "parse_section_name v =
     (if \<not> starts_with section_prefix v \<or> \<not> ends_with section_suffix v
      then Err (metadata_error MalformedSection)
      else and_then (expect (get_range (length section_prefix) (length v - 2) v)) (\<lambda>name.
        if name = [] \<or> length name > 255 \<or> \<not> (\<forall>b \<in> set name. name_byte b)
        then Err (metadata_error InvalidName)
        else ok_or (metadata_error InvalidName) (from_utf8 name)))"

definition valid_key :: "bytes \<Rightarrow> bool" where
  "valid_key key =
     (case key of
        [] \<Rightarrow> False
      | first # rest \<Rightarrow>
          length key \<le> 64 \<and> is_ascii_lowercase (byte_char first) \<and>
          (\<forall>b \<in> set rest. is_ascii_lowercase (byte_char b) \<or> is_ascii_digit (byte_char b) \<or> b = 45))"

text \<open>\<open>value.windows(2).any(p)\<close>.\<close>

fun any_pair :: "('a \<Rightarrow> 'a \<Rightarrow> bool) \<Rightarrow> 'a list \<Rightarrow> bool" where
  "any_pair p (a # b # rest) \<longleftrightarrow> p a b \<or> any_pair p (b # rest)"
| "any_pair p _ \<longleftrightarrow> False"

definition unsupported_value_syntax :: "bytes \<Rightarrow> bool" where
  "unsupported_value_syntax v \<longleftrightarrow>
     0x22 \<in> set v \<or> 0x5C \<in> set v \<or> any_pair (\<lambda>a b. a = 36 \<and> b = 40) v \<or> any_pair (\<lambda>a b. a = 36 \<and> b = 123) v \<or>
     any_pair (\<lambda>a b. horizontal a \<and> (b = 35 \<or> b = 59)) v"

definition validate_required_gitmodules_keys :: "pending_section \<Rightarrow> (unit, repository_boundary_error) result" where
  "validate_required_gitmodules_keys section =
     (if bt_get (ps_values section) ''path'' \<noteq> None \<and> bt_get (ps_values section) ''url'' \<noteq> None
      then Ok () else Err (metadata_error RequiredKeyMissing))"

section \<open>URLs\<close>

definition safe_scp_byte :: "bytes \<Rightarrow> byte \<Rightarrow> bool" where
  "safe_scp_byte forbidden b \<longleftrightarrow> b \<notin> set forbidden \<and> b > 32 \<and> b \<noteq> 127"

definition is_scp_like :: "bytes \<Rightarrow> bool" where
  "is_scp_like v =
     (case split_once 64 v of
        None \<Rightarrow> False
      | Some (user, rest) \<Rightarrow>
          (case split_once 58 rest of
             None \<Rightarrow> False
           | Some (host, path) \<Rightarrow>
               user \<noteq> [] \<and> host \<noteq> [] \<and> path \<noteq> [] \<and>
               (\<forall>b \<in> set user. safe_scp_byte (as_bytes ''/@:'') b) \<and>
               (\<forall>b \<in> set host. safe_scp_byte (as_bytes ''/:'') b)))"

definition classify_url :: "string \<Rightarrow> boundary_url_kind" where
  "classify_url v =
     (if starts_with ''./'' v \<or> starts_with ''../'' v then Url_Relative
      else if starts_with ''/'' v then Url_AbsolutePath
      else if starts_with ''file:'' v then Url_File
      else if starts_with ''ssh:'' v then Url_Ssh
      else if starts_with ''https:'' v then Url_Https
      else if starts_with ''http:'' v then Url_Http
      else if starts_with ''git:'' v then Url_Git
      else if is_scp_like (as_bytes v) then Url_ScpLike
      else Url_Other)"

section \<open>The parser\<close>

record gitmodules_state =
  gs_sections :: "pending_section list"
  gs_names :: "string btset"
  gs_current :: "pending_section option"

text \<open>A section header: close the open section, check the name, open the new section.\<close>

definition close_section ::
  "nat \<Rightarrow> gitmodules_state \<Rightarrow> (gitmodules_state, repository_boundary_error) result" where
  "close_section start st =
     (case gs_current st of
        None \<Rightarrow> Ok st
      | Some previous \<Rightarrow>
          and_then (validate_required_gitmodules_keys previous) (\<lambda>_.
          Ok (st\<lparr>gs_sections := gs_sections st @ [previous\<lparr>ps_end_byte := start\<rparr>], gs_current := None\<rparr>)))"

definition section_line ::
  "sha256 \<Rightarrow> nat \<Rightarrow> bytes \<Rightarrow> nat \<Rightarrow> gitmodules_state \<Rightarrow> (gitmodules_state, repository_boundary_error) result" where
  "section_line hasher len trimmed start st =
     and_then (close_section start st) (\<lambda>st1.
     and_then (parse_section_name trimmed) (\<lambda>name.
     if bs_contains (gs_names st1) name then Err (metadata_error DuplicateSection)
     else and_then (check_boundary_limit GitmodulesSections (length (gs_names st1) + 1)) (\<lambda>_.
       Ok (st1\<lparr>gs_names := bs_insert name (gs_names st1),
                gs_current := Some \<lparr>ps_name_sha256 = sha256_hex hasher name, ps_start_byte = start,
                                     ps_end_byte = len, ps_values = []\<rparr>\<rparr>))))"

text \<open>A line \<open>key = value\<close> inside the open section.\<close>

definition key_line :: "bytes \<Rightarrow> gitmodules_state \<Rightarrow> (gitmodules_state, repository_boundary_error) result" where
  "key_line trimmed st =
     (case gs_current st of
        None \<Rightarrow> Err (metadata_error KeyOutsideSection)
      | Some section \<Rightarrow>
          (case split_once 61 trimmed of
             None \<Rightarrow> Err (metadata_error MalformedSection)
           | Some (before, after) \<Rightarrow>
               (let key = trim_horizontal before; v = trim_horizontal after in
                if \<not> valid_key key then Err (metadata_error InvalidName)
                else if v = [] \<or> unsupported_value_syntax v then Err (metadata_error MalformedSection)
                else and_then (ok_or (metadata_error InvalidName) (from_utf8 key)) (\<lambda>key.
                  and_then (ok_or (metadata_error InvalidEncoding) (from_utf8 v)) (\<lambda>v.
                  if key = ''include'' then Err (metadata_error MalformedSection)
                  else if bt_get (ps_values section) key \<noteq> None then Err (metadata_error DuplicateKey)
                  else and_then (check_boundary_limit GitmodulesKeysPerSection (length (ps_values section) + 1)) (\<lambda>_.
                    Ok (st\<lparr>gs_current := Some (section\<lparr>ps_values := bt_put key v (ps_values section)\<rparr>)\<rparr>)))))))"

definition gitmodules_step ::
  "sha256 \<Rightarrow> bytes \<Rightarrow> gitmodules_line \<Rightarrow> gitmodules_state \<Rightarrow> (gitmodules_state, repository_boundary_error) result" where
  "gitmodules_step hasher bs line st =
     and_then (expect (get_range (line_start line) (line_content_end line) bs)) (\<lambda>content.
     let trimmed = trim_horizontal content in
     if trimmed = [] \<or> hd trimmed = 35 \<or> hd trimmed = 59 then Ok st
     else if starts_with [91] trimmed then section_line hasher (length bs) trimmed (line_start line) st
     else key_line trimmed st)"

fun gitmodules_loop ::
  "sha256 \<Rightarrow> bytes \<Rightarrow> gitmodules_line list \<Rightarrow> gitmodules_state \<Rightarrow> (gitmodules_state, repository_boundary_error) result" where
  "gitmodules_loop hasher bs [] st = Ok st"
| "gitmodules_loop hasher bs (line # lines) st =
     and_then (gitmodules_step hasher bs line st) (gitmodules_loop hasher bs lines)"

text \<open>The sections of the text, the open one closed at the end of the text.\<close>

definition parse_sections :: "sha256 \<Rightarrow> bytes \<Rightarrow> (pending_section list, repository_boundary_error) result" where
  "parse_sections hasher bs =
     and_then (gitmodules_loop hasher bs (gitmodules_lines bs)
       \<lparr>gs_sections = [], gs_names = [], gs_current = None\<rparr>) (\<lambda>st.
     case gs_current st of
       None \<Rightarrow> Ok (gs_sections st)
     | Some section \<Rightarrow>
         and_then (validate_required_gitmodules_keys section) (\<lambda>_. Ok (gs_sections st @ [section])))"

text \<open>One declaration from one section.\<close>

definition section_declaration ::
  "sha256 \<Rightarrow> bound_revision \<Rightarrow> object_id \<Rightarrow> pending_section \<Rightarrow> string \<Rightarrow> string \<Rightarrow> (string, string) btree \<Rightarrow>
   gitmodules_declaration" where
  "section_declaration hasher root blob_oid section path url rest =
     \<lparr>gd_declaration_id = declaration_id hasher root path (ps_name_sha256 section),
      gd_name_sha256 = ps_name_sha256 section,
      gd_path = path,
      gd_url_kind = classify_url url,
      gd_url_sha256 = sha256_hex hasher url,
      gd_unsupported_keys = map (\<lambda>(key, v). (key, sha256_hex hasher v)) rest,
      gd_evidence_id = gitmodules_evidence_id hasher root blob_oid (ps_start_byte section) (ps_end_byte section),
      gd_blob_oid = blob_oid,
      gd_start_byte = ps_start_byte section,
      gd_end_byte = ps_end_byte section\<rparr>"

fun declare_sections ::
  "sha256 \<Rightarrow> bound_revision \<Rightarrow> object_id \<Rightarrow> pending_section list \<Rightarrow> string btset \<Rightarrow>
   (gitmodules_declaration list, repository_boundary_error) result" where
  "declare_sections hasher root blob_oid [] paths = Ok []"
| "declare_sections hasher root blob_oid (section # sections) paths =
     and_then (ok_or (metadata_error RequiredKeyMissing) (bt_get (ps_values section) ''path'')) (\<lambda>path.
     let values = bt_remove ''path'' (ps_values section) in
     and_then (ok_or (metadata_error RequiredKeyMissing) (bt_get values ''url'')) (\<lambda>url.
     let rest = bt_remove ''url'' values in
     and_then (map_err (\<lambda>_. MetadataInvalid PathInvalidReason (safe_error_path path))
       (validate_canonical_relative_path path)) (\<lambda>_.
     if bs_contains paths path then Err (MetadataInvalid AmbiguousMapping (Some path))
     else and_then (declare_sections hasher root blob_oid sections (bs_insert path paths)) (\<lambda>ds.
       Ok (section_declaration hasher root blob_oid section path url rest # ds)))))"

definition declaration_key :: "gitmodules_declaration \<Rightarrow> string \<times> string" where
  "declaration_key d = (gd_path d, gd_declaration_id d)"

definition parse_gitmodules ::
  "sha256 \<Rightarrow> bound_revision \<Rightarrow> acquired_gitmodules option \<Rightarrow>
   (gitmodules_declaration list, repository_boundary_error) result" where
  "parse_gitmodules hasher root source =
     (case source of
        None \<Rightarrow> Ok []
      | Some src \<Rightarrow>
          if gm_mode src \<noteq> ''100644'' then Err (metadata_error UnsafeEntryKind)
          else and_then (check_boundary_limit GitmodulesBytes (length (gm_bytes src))) (\<lambda>_.
            and_then (validate_gitmodules_bytes (gm_bytes src)) (\<lambda>_.
            and_then (ok_or (metadata_error InvalidEncoding) (from_utf8 (gm_bytes src))) (\<lambda>text.
            and_then (parse_sections hasher (as_bytes text)) (\<lambda>sections.
            and_then (declare_sections hasher root (gm_blob_oid src) sections []) (\<lambda>declarations.
            Ok (sort_key declaration_key declarations)))))))"

section \<open>The earliest failure\<close>

text \<open>Every byte-level failure of a text, and what it means to select the least of a set.\<close>

definition metadata_failures :: "bytes \<Rightarrow> metadata_failure set" where
  "metadata_failures bs =
     {(i, InvalidEncoding) | i. from_utf8 bs = None \<and> i = valid_up_to (map unat bs)} \<union>
     {(i, BareCarriageReturn) | i. i < length bs \<and> bare_carriage_return bs i} \<union>
     {(i, NulOrControl) | i. i < length bs \<and> nul_or_control (bs ! i)}"

definition failure_key :: "metadata_failure \<Rightarrow> nat \<times> nat" where
  "failure_key f = (fst f, metadata_reason_order (snd f))"

definition least_failure :: "metadata_failure set \<Rightarrow> metadata_failure option \<Rightarrow> bool" where
  "least_failure S f =
     (case f of None \<Rightarrow> S = {} | Some x \<Rightarrow> x \<in> S \<and> (\<forall>y \<in> S. failure_key x \<le> failure_key y))"

lemma least_failure_select:
  "least_failure S f \<Longrightarrow> least_failure (insert (i, r) S) (select_earlier_metadata_failure f i r)"
  by (fastforce simp: least_failure_def select_earlier_metadata_failure_def failure_key_def less_eq_prod_def
      split: option.splits prod.splits)

lemma least_failure_byte:
  assumes "least_failure S f"
  shows "least_failure (S \<union> (if bare_carriage_return bs i then {(i, BareCarriageReturn)} else {}) \<union>
      (if nul_or_control (bs ! i) then {(i, NulOrControl)} else {})) (metadata_byte bs i f)"
  using assms least_failure_select [OF assms] least_failure_select [OF least_failure_select [OF assms]]
  by (simp add: metadata_byte_def insert_commute [of "(i, BareCarriageReturn)" "(i, NulOrControl)"])

lemma least_failure_loop:
  "n \<le> length bs \<Longrightarrow>
   least_failure
     ({(i, InvalidEncoding) | i. from_utf8 bs = None \<and> i = valid_up_to (map unat bs)} \<union>
      {(i, BareCarriageReturn) | i. i < n \<and> bare_carriage_return bs i} \<union>
      {(i, NulOrControl) | i. i < n \<and> nul_or_control (bs ! i)})
     (fold (metadata_byte bs) [0..<n] (encoding_failure bs))"
proof (induction n)
  case 0
  then show ?case by (auto simp: least_failure_def encoding_failure_def)
next
  case (Suc n)
  let ?S = "\<lambda>n. {(i, InvalidEncoding) | i. from_utf8 bs = None \<and> i = valid_up_to (map unat bs)} \<union>
      {(i, BareCarriageReturn) | i. i < n \<and> bare_carriage_return bs i} \<union>
      {(i, NulOrControl) | i. i < n \<and> nul_or_control (bs ! i)}"
  have "?S (Suc n) = ?S n \<union> (if bare_carriage_return bs n then {(n, BareCarriageReturn)} else {}) \<union>
      (if nul_or_control (bs ! n) then {(n, NulOrControl)} else {})"
    by (auto simp: less_Suc_eq)
  with least_failure_byte [OF Suc.IH, of bs n] Suc.prems show ?case by simp
qed

lemma validate_gitmodules_bytes_least:
  "least_failure (metadata_failures bs) (fold (metadata_byte bs) [0..<length bs] (encoding_failure bs))"
  using least_failure_loop [of "length bs" bs] by (simp add: metadata_failures_def)

section \<open>Lines and names\<close>

lemma gitmodules_lines_from_range:
  "line \<in> set (gitmodules_lines_from bs start) \<Longrightarrow>
   start \<le> line_start line \<and> line_start line < length bs \<and>
   line_start line \<le> line_content_end line \<and> line_content_end line \<le> length bs"
proof (induction bs start rule: gitmodules_lines_from.induct)
  case (1 bs start)
  have nl: "(case position 10 (drop start bs) of None \<Rightarrow> length bs | Some offset \<Rightarrow> start + offset) \<le> length bs"
    "start \<le> (case position 10 (drop start bs) of None \<Rightarrow> length bs | Some offset \<Rightarrow> start + offset)" if "start < length bs"
    using that by (auto simp: position_Some split: option.split)
  from 1 nl show ?case
    by (subst (asm) gitmodules_lines_from.simps) (fastforce simp: Let_def split: if_splits)
qed

lemma gitmodules_lines_from_sorted: "sorted_wrt (<) (map line_start (gitmodules_lines_from bs start))"
proof (induction bs start rule: gitmodules_lines_from.induct)
  case (1 bs start)
  let ?newline = "case position 10 (drop start bs) of None \<Rightarrow> length bs | Some offset \<Rightarrow> start + offset"
  have "start < line_start line" if "line \<in> set (gitmodules_lines_from bs (?newline + 1))" "start < length bs" for line
    using gitmodules_lines_from_range [OF that(1)] that(2) by (auto split: option.splits)
  with 1 show ?case by (subst gitmodules_lines_from.simps) (auto simp: Let_def)
qed

lemma parse_section_name_Panic: "parse_section_name v = Panic \<longleftrightarrow> v = section_prefix @ [0x5D]"
proof
  assume "parse_section_name v = Panic"
  then have p: "starts_with section_prefix v" "ends_with section_suffix v" "length v < 14" "2 \<le> length v"
    by (auto simp: parse_section_name_def result_iffs get_range_def section_prefix_def section_suffix_def
        ends_with_def split: if_splits)
  then obtain w where v: "v = section_prefix @ w"
    unfolding starts_with_def by (metis append_take_drop_id)
  have len: "length section_prefix = 12" by (simp add: section_prefix_def)
  with p(3) v have "length w < 2" by simp
  moreover have "w \<noteq> []"
  proof
    assume "w = []"
    with v p(2) show False by (simp add: ends_with_def section_suffix_def section_prefix_def as_bytes_def)
  qed
  ultimately obtain x where "w = [x]" by (cases w; cases "tl w") auto
  with v p(2) show "v = section_prefix @ [0x5D]"
    by (simp add: ends_with_def section_suffix_def section_prefix_def as_bytes_def)
next
  assume "v = section_prefix @ [0x5D]"
  then show "parse_section_name v = Panic"
    by (simp add: parse_section_name_def starts_with_def ends_with_def section_prefix_def section_suffix_def
        as_bytes_def get_range_def)
qed

lemma validate_required_not_Panic [simp]: "validate_required_gitmodules_keys s \<noteq> Panic"
  by (simp add: validate_required_gitmodules_keys_def)

lemma close_section_not_Panic [simp]: "close_section start st \<noteq> Panic"
  by (auto simp: close_section_def result_iffs split: option.split)

lemma key_line_not_Panic [simp]: "key_line trimmed st \<noteq> Panic"
  by (auto simp: key_line_def Let_def result_iffs split: option.splits)

definition line_content :: "bytes \<Rightarrow> gitmodules_line \<Rightarrow> bytes" where
  "line_content bs line = take (line_content_end line - line_start line) (drop (line_start line) bs)"

lemma gitmodules_step_eq:
  assumes "line \<in> set (gitmodules_lines bs)"
  shows "gitmodules_step hasher bs line st =
    (let trimmed = trim_horizontal (line_content bs line) in
     if trimmed = [] \<or> hd trimmed = 35 \<or> hd trimmed = 59 then Ok st
     else if starts_with [91] trimmed then section_line hasher (length bs) trimmed (line_start line) st
     else key_line trimmed st)"
  using gitmodules_lines_from_range [OF assms [unfolded gitmodules_lines_def]]
  by (simp add: gitmodules_step_def get_range_def line_content_def)

lemma gitmodules_loop_Panic:
  "gitmodules_loop hasher bs lines st = Panic \<Longrightarrow> set lines \<subseteq> set (gitmodules_lines bs) \<Longrightarrow>
   \<exists>line \<in> set (gitmodules_lines bs). trim_horizontal (line_content bs line) = section_prefix @ [0x5D]"
proof (induction hasher bs lines st rule: gitmodules_loop.induct)
  case (2 hasher bs line lines st)
  show ?case
  proof (cases "gitmodules_step hasher bs line st")
    case Panic
    with 2(3) show ?thesis
      by (auto simp: gitmodules_step_eq section_line_def parse_section_name_Panic Let_def result_iffs split: if_splits)
  qed (use 2 in auto)
qed simp

section \<open>Printable texts\<close>

definition printable :: "byte \<Rightarrow> bool" where
  "printable b \<longleftrightarrow> 32 \<le> b \<and> b < 127"

lemma from_utf8_small:
  assumes "\<forall>b \<in> set bs. unat b < 128"
  shows "from_utf8 bs = Some (map byte_char bs)"
  using assms by (simp add: from_utf8_def utf8_decode_ascii)

lemma validate_printable:
  assumes "\<forall>b \<in> set bs. printable b \<or> b = 9 \<or> b = 10"
  shows "validate_gitmodules_bytes bs = Ok ()" "from_utf8 bs = Some (map byte_char bs)"
proof -
  have "unat b < 128" if "b \<in> set bs" for b
    using assms that unfolding printable_def by (auto simp: word_less_nat_alt)
  then show utf8: "from_utf8 bs = Some (map byte_char bs)" by (simp add: from_utf8_small)
  have "\<not> nul_or_control (bs ! i)" "bs ! i \<noteq> 13" if "i < length bs" for i
    using assms nth_mem [OF that] by (auto simp: nul_or_control_def printable_def)
  with utf8 have "metadata_failures bs = {}" by (auto simp: metadata_failures_def bare_carriage_return_def)
  with validate_gitmodules_bytes_least [of bs] show "validate_gitmodules_bytes bs = Ok ()"
    by (auto simp: validate_gitmodules_bytes_def least_failure_def split: option.splits)
qed

lemma gitmodules_lines_from_line:
  assumes "10 \<notin> set l" "l = [] \<or> last l \<noteq> 13"
  shows "gitmodules_lines_from (pre @ l @ 10 # post) (length pre) =
    \<lparr>line_start = length pre, line_content_end = length pre + length l\<rparr> #
    gitmodules_lines_from (pre @ l @ 10 # post) (length pre + length l + 1)"
proof (cases "l = []")
  case True
  then show ?thesis by (subst gitmodules_lines_from.simps) (simp add: Let_def)
next
  case False
  then have "(pre @ l @ 10 # post) ! (length pre + length l - 1) = last l"
    by (cases l rule: rev_cases) (simp_all add: nth_append)
  with assms False have "(pre @ l @ 10 # post) ! (length pre + length l - 1) \<noteq> 13" by simp
  with assms(1) False show ?thesis
    by (subst gitmodules_lines_from.simps) (simp add: position_append Let_def)
qed

lemma gitmodules_lines_from_end: "gitmodules_lines_from bs (length bs) = []"
  by (subst gitmodules_lines_from.simps) simp

lemma gitmodules_lines_single:
  assumes "10 \<notin> set l" "l \<noteq> []" "last l \<noteq> 13"
  shows "gitmodules_lines l = [\<lparr>line_start = 0, line_content_end = length l\<rparr>]"
proof -
  have "position 10 l = None" using assms(1) by (simp add: position_None)
  moreover have "l ! (length l - 1) \<noteq> 13" using assms by (simp add: last_conv_nth)
  moreover have "gitmodules_lines_from l (length l + 1) = []"
    by (subst gitmodules_lines_from.simps) simp
  ultimately show ?thesis
    unfolding gitmodules_lines_def using assms(2) by (subst gitmodules_lines_from.simps) (simp add: Let_def)
qed

lemma parse_gitmodules_printable:
  assumes "gm_mode src = ''100644''" "length (gm_bytes src) \<le> boundary_maximum GitmodulesBytes"
    and "\<forall>b \<in> set (gm_bytes src). printable b \<or> b = 9 \<or> b = 10"
  shows "parse_gitmodules hasher root (Some src) =
    and_then (parse_sections hasher (gm_bytes src)) (\<lambda>sections.
    and_then (declare_sections hasher root (gm_blob_oid src) sections []) (\<lambda>declarations.
    Ok (sort_key declaration_key declarations)))"
  using assms(1,2) validate_printable [OF assms(3)]
  by (simp add: parse_gitmodules_def check_boundary_limit_def del: boundary_maximum.simps)

section \<open>Accepted texts\<close>

definition section_ok :: "pending_section \<Rightarrow> bool" where
  "section_ok s \<longleftrightarrow> bt_wf (ps_values s) \<and> length (ps_values s) \<le> boundary_maximum GitmodulesKeysPerSection"

definition section_closed :: "bytes \<Rightarrow> pending_section \<Rightarrow> bool" where
  "section_closed bs s \<longleftrightarrow>
     section_ok s \<and> bt_get (ps_values s) ''path'' \<noteq> None \<and> bt_get (ps_values s) ''url'' \<noteq> None \<and>
     ps_start_byte s < ps_end_byte s \<and> ps_end_byte s \<le> length bs"

text \<open>The state of the loop when every line before the byte \<open>pos\<close> has been read.\<close>

definition gitmodules_inv :: "bytes \<Rightarrow> nat \<Rightarrow> gitmodules_state \<Rightarrow> bool" where
  "gitmodules_inv bs pos st \<longleftrightarrow>
     (\<forall>s \<in> set (gs_sections st). section_closed bs s \<and> ps_end_byte s \<le> pos) \<and>
     sorted_wrt (\<lambda>s t. ps_end_byte s \<le> ps_start_byte t) (gs_sections st) \<and>
     (case gs_current st of
        None \<Rightarrow> length (gs_sections st) = length (gs_names st)
      | Some c \<Rightarrow>
          length (gs_sections st) + 1 = length (gs_names st) \<and> section_ok c \<and> ps_start_byte c < pos \<and>
          ps_start_byte c < length bs \<and> ps_end_byte c = length bs \<and>
          (\<forall>s \<in> set (gs_sections st). ps_end_byte s \<le> ps_start_byte c)) \<and>
     length (gs_names st) \<le> boundary_maximum GitmodulesSections"

lemma bt_put_fresh_length: "bt_get m k = None \<Longrightarrow> length (bt_put k v m) = length m + 1"
  by (induction k v m rule: bt_put.induct) (auto split: if_splits)

lemma close_section_inv:
  assumes "close_section start st = Ok st'" "gitmodules_inv bs pos st" "pos \<le> start" "start < length bs"
  shows "gitmodules_inv bs start st'" "gs_current st' = None" "gs_names st' = gs_names st"
proof -
  show "gs_current st' = None" "gs_names st' = gs_names st"
    using assms(1) by (auto simp: close_section_def result_iffs split: option.splits)
  show "gitmodules_inv bs start st'"
  proof (cases "gs_current st")
    case None
    with assms show ?thesis by (auto simp: close_section_def gitmodules_inv_def dest: order_trans)
  next
    case (Some c)
    with assms(1) have st': "st' = st\<lparr>gs_sections := gs_sections st @ [c\<lparr>ps_end_byte := start\<rparr>], gs_current := None\<rparr>"
      and req: "bt_get (ps_values c) ''path'' \<noteq> None" "bt_get (ps_values c) ''url'' \<noteq> None"
      by (auto simp: close_section_def validate_required_gitmodules_keys_def result_iffs split: if_splits)
    from assms(2) Some have c: "length (gs_sections st) + 1 = length (gs_names st)" "section_ok c"
      "ps_start_byte c < pos" "\<forall>s \<in> set (gs_sections st). ps_end_byte s \<le> ps_start_byte c"
      "\<forall>s \<in> set (gs_sections st). section_closed bs s \<and> ps_end_byte s \<le> pos"
      "sorted_wrt (\<lambda>s t. ps_end_byte s \<le> ps_start_byte t) (gs_sections st)"
      "length (gs_names st) \<le> boundary_maximum GitmodulesSections"
      by (auto simp: gitmodules_inv_def)
    have "section_closed bs (c\<lparr>ps_end_byte := start\<rparr>)"
      using c(2,3) req assms(3,4) by (simp add: section_closed_def section_ok_def)
    with c assms(3) show ?thesis
      by (fastforce simp: gitmodules_inv_def st' sorted_wrt_append)
  qed
qed

lemma section_line_inv:
  assumes "section_line hasher (length bs) trimmed start st = Ok st'" "gitmodules_inv bs pos st" "pos \<le> start"
    "start < length bs"
  shows "gitmodules_inv bs (start + 1) st'"
proof -
  from assms(1) obtain st1 name where c: "close_section start st = Ok st1"
    and n: "\<not> bs_contains (gs_names st1) name" "length (gs_names st1) + 1 \<le> boundary_maximum GitmodulesSections"
    and st': "st' = st1\<lparr>gs_names := bs_insert name (gs_names st1),
      gs_current := Some \<lparr>ps_name_sha256 = sha256_hex hasher name, ps_start_byte = start, ps_end_byte = length bs, ps_values = []\<rparr>\<rparr>"
    by (auto simp: section_line_def result_iffs simp del: boundary_maximum.simps split: if_splits)
  note inv = close_section_inv [OF c assms(2-4)]
  from n(1) have "length (bs_insert name (gs_names st1)) = length (gs_names st1) + 1"
    by (cases "bt_get (gs_names st1) name") (simp_all add: bs_contains_def bs_insert_def bt_put_fresh_length)
  with inv n(2) assms(4) show ?thesis
    by (fastforce simp: gitmodules_inv_def st' section_ok_def bt.wf_empty simp del: boundary_maximum.simps)
qed

lemma key_line_inv:
  assumes "key_line trimmed st = Ok st'" "gitmodules_inv bs pos st" "pos \<le> pos'"
  shows "gitmodules_inv bs pos' st'"
proof -
  from assms(1) obtain c k v where cur: "gs_current st = Some c"
    and k: "bt_get (ps_values c) k = None" "length (ps_values c) + 1 \<le> boundary_maximum GitmodulesKeysPerSection"
    and st': "st' = st\<lparr>gs_current := Some (c\<lparr>ps_values := bt_put k v (ps_values c)\<rparr>)\<rparr>"
    by (auto simp: key_line_def Let_def result_iffs simp del: boundary_maximum.simps split: option.splits if_splits)
  have "section_ok (c\<lparr>ps_values := bt_put k v (ps_values c)\<rparr>)" if "section_ok c"
    using that k by (simp add: section_ok_def bt_wf_put bt_put_fresh_length del: boundary_maximum.simps)
  with assms(2,3) cur show ?thesis
    by (fastforce simp: gitmodules_inv_def st' simp del: boundary_maximum.simps)
qed

lemma gitmodules_loop_inv:
  "gitmodules_loop hasher bs lines st = Ok st' \<Longrightarrow> set lines \<subseteq> set (gitmodules_lines bs) \<Longrightarrow>
   sorted_wrt (<) (map line_start lines) \<Longrightarrow> \<forall>line \<in> set lines. pos \<le> line_start line \<Longrightarrow>
   gitmodules_inv bs pos st \<Longrightarrow> pos \<le> length bs \<Longrightarrow> gitmodules_inv bs (length bs) st'"
proof (induction hasher bs lines st arbitrary: pos rule: gitmodules_loop.induct)
  case (1 hasher bs st)
  then show ?case by (auto simp: gitmodules_inv_def split: option.splits dest: order_trans)
next
  case (2 hasher bs line lines st)
  from "2.prems"(1) obtain st1 where st1: "gitmodules_step hasher bs line st = Ok st1"
    and rest: "gitmodules_loop hasher bs lines st1 = Ok st'" by (auto simp: result_iffs)
  have line: "line \<in> set (gitmodules_lines bs)" "pos \<le> line_start line" using "2.prems" by auto
  have len: "line_start line < length bs"
    using gitmodules_lines_from_range [OF line(1) [unfolded gitmodules_lines_def]] by simp
  have "gitmodules_inv bs (line_start line + 1) st1"
    using st1 section_line_inv [OF _ "2.prems"(5) line(2) len] key_line_inv [OF _ "2.prems"(5), of _ _ "line_start line + 1"]
      "2.prems"(5) line(2)
    by (auto simp: gitmodules_step_eq [OF line(1)] Let_def gitmodules_inv_def split: if_splits option.splits dest: order_trans)
  with "2.IH" [OF st1 rest, of "line_start line + 1"] "2.prems"(2,3) len show ?case by (auto simp: Suc_le_eq)
qed

lemma parse_sections_closed:
  assumes "parse_sections hasher bs = Ok sections"
  shows "\<forall>s \<in> set sections. section_closed bs s"
    "sorted_wrt (\<lambda>s t. ps_end_byte s \<le> ps_start_byte t) sections"
    "length sections \<le> boundary_maximum GitmodulesSections"
proof -
  from assms obtain st where l: "gitmodules_loop hasher bs (gitmodules_lines bs)
      \<lparr>gs_sections = [], gs_names = [], gs_current = None\<rparr> = Ok st"
    and r: "(case gs_current st of None \<Rightarrow> Ok (gs_sections st) | Some section \<Rightarrow>
       and_then (validate_required_gitmodules_keys section) (\<lambda>_. Ok (gs_sections st @ [section]))) = Ok sections"
    by (auto simp: parse_sections_def result_iffs)
  have "gitmodules_inv bs 0 \<lparr>gs_sections = [], gs_names = [], gs_current = None\<rparr>"
    by (simp add: gitmodules_inv_def)
  then have inv: "gitmodules_inv bs (length bs) st"
    using gitmodules_loop_inv [OF l, of 0] gitmodules_lines_from_sorted by (auto simp: gitmodules_lines_def)
  have "(\<forall>s \<in> set sections. section_closed bs s) \<and> sorted_wrt (\<lambda>s t. ps_end_byte s \<le> ps_start_byte t) sections \<and>
    length sections \<le> boundary_maximum GitmodulesSections"
    using r inv
    by (auto simp: gitmodules_inv_def sorted_wrt_append section_closed_def validate_required_gitmodules_keys_def
        result_iffs simp del: boundary_maximum.simps split: option.splits if_splits)
  then show "\<forall>s \<in> set sections. section_closed bs s"
    "sorted_wrt (\<lambda>s t. ps_end_byte s \<le> ps_start_byte t) sections"
    "length sections \<le> boundary_maximum GitmodulesSections" by auto
qed

section \<open>Declarations\<close>

definition canonical_path :: "string \<Rightarrow> bool" where
  "canonical_path path \<longleftrightarrow> validate_canonical_relative_path path = Ok ()"

text \<open>What a declaration says of the section it was read from.\<close>

definition declares ::
  "sha256 \<Rightarrow> bound_revision \<Rightarrow> object_id \<Rightarrow> pending_section \<Rightarrow> gitmodules_declaration \<Rightarrow> bool" where
  "declares hasher root blob_oid s d \<longleftrightarrow>
     (\<exists>path url. bt_get (ps_values s) ''path'' = Some path \<and> bt_get (ps_values s) ''url'' = Some url \<and>
        canonical_path path \<and>
        d = section_declaration hasher root blob_oid s path url
          (bt_remove ''url'' (bt_remove ''path'' (ps_values s))))"

lemma declare_sections_Ok:
  "declare_sections hasher root blob_oid sections paths = Ok ds \<Longrightarrow>
   list_all2 (declares hasher root blob_oid) sections ds \<and>
   distinct (map gd_path ds) \<and> set (map gd_path ds) \<inter> set (bt_keys paths) = {}"
proof (induction hasher root blob_oid sections paths arbitrary: ds rule: declare_sections.induct)
  case (2 hasher root blob_oid s sections paths)
  from "2.prems" obtain path url ds' where
    v: "bt_get (ps_values s) ''path'' = Some path" "bt_get (bt_remove ''path'' (ps_values s)) ''url'' = Some url"
    "validate_canonical_relative_path path = Ok ()" "\<not> bs_contains paths path"
    and r: "declare_sections hasher root blob_oid sections (bs_insert path paths) = Ok ds'"
    and ds: "ds = section_declaration hasher root blob_oid s path url
      (bt_remove ''url'' (bt_remove ''path'' (ps_values s))) # ds'"
    by (auto simp: Let_def result_iffs split: if_splits)
  have "list_all2 (declares hasher root blob_oid) sections ds' \<and> distinct (map gd_path ds') \<and>
    set (map gd_path ds') \<inter> set (bt_keys (bs_insert path paths)) = {}"
    by (rule "2.IH" [of path "bt_remove ''path'' (ps_values s)" url "bt_remove ''url'' (bt_remove ''path'' (ps_values s))" "()"])
      (use v r in simp_all)
  moreover have "declares hasher root blob_oid s (hd ds)" "gd_path (hd ds) = path"
    using v ds by (auto simp: declares_def canonical_path_def bt_remove_get section_declaration_def)
  ultimately show ?case
    using v(4) ds by (auto simp: bs_insert_keys bs_contains_keys)
qed simp

lemma declare_sections_not_Panic [simp]: "declare_sections hasher root blob_oid sections paths \<noteq> Panic"
  by (induction hasher root blob_oid sections paths rule: declare_sections.induct)
    (auto simp: Let_def result_iffs validate_canonical_relative_path_def split: if_splits)

lemma validate_gitmodules_bytes_not_Panic [simp]: "validate_gitmodules_bytes bs \<noteq> Panic"
  by (auto simp: validate_gitmodules_bytes_def split: option.split)

text \<open>A well-formed declaration of a text of \<open>n\<close> bytes.\<close>

definition declaration_ok :: "sha256 \<Rightarrow> bound_revision \<Rightarrow> nat \<Rightarrow> gitmodules_declaration \<Rightarrow> bool" where
  "declaration_ok hasher root n d \<longleftrightarrow>
     canonical_path (gd_path d) \<and>
     gd_declaration_id d = declaration_id hasher root (gd_path d) (gd_name_sha256 d) \<and>
     gd_evidence_id d = gitmodules_evidence_id hasher root (gd_blob_oid d) (gd_start_byte d) (gd_end_byte d) \<and>
     gd_start_byte d < gd_end_byte d \<and> gd_end_byte d \<le> n \<and>
     sorted_wrt (<) (map fst (gd_unsupported_keys d)) \<and>
     length (gd_unsupported_keys d) \<le> boundary_maximum GitmodulesKeysPerSection - 2"

lemma declares_ok:
  assumes "declares hasher root blob_oid s d" "section_closed bs s"
  shows "declaration_ok hasher root (length bs) d" "gd_start_byte d = ps_start_byte s" "gd_end_byte d = ps_end_byte s"
    "gd_blob_oid d = blob_oid"
proof -
  let ?m = "bt_remove ''path'' (ps_values s)"
  from assms obtain path url where m: "bt_get (ps_values s) ''path'' = Some path" "bt_get (ps_values s) ''url'' = Some url"
    "canonical_path path"
    and d: "d = section_declaration hasher root blob_oid s path url (bt_remove ''url'' ?m)"
    by (auto simp: declares_def)
  from m have "length ?m < length (ps_values s)" "length (bt_remove ''url'' ?m) < length ?m"
    by (auto intro!: bt_remove_length simp: bt_remove_get)
  moreover have "bt_wf (bt_remove ''url'' ?m)"
    using assms(2) by (simp add: section_closed_def section_ok_def bt_remove_wf)
  ultimately show "declaration_ok hasher root (length bs) d"
    using assms(2) m(3) by (auto simp: declaration_ok_def d section_declaration_def section_closed_def section_ok_def
        bt_wf_def comp_def case_prod_unfold)
  show "gd_start_byte d = ps_start_byte s" "gd_end_byte d = ps_end_byte s" "gd_blob_oid d = blob_oid"
    by (simp_all add: d section_declaration_def)
qed

lemma sorted_key_paths:
  assumes "distinct (map gd_path ds)"
  shows "sorted_wrt (<) (map gd_path (sort_key declaration_key ds))"
proof -
  let ?ds = "sort_key declaration_key ds"
  have "sorted (map declaration_key ?ds)" by simp
  then have "sorted_wrt (\<lambda>a b. gd_path a \<le> gd_path b) ?ds"
    unfolding sorted_map by (rule sorted_wrt_mono_rel [rotated]) (auto simp: declaration_key_def less_eq_prod_def)
  moreover have "distinct (map gd_path ?ds)"
    using assms by (metis distinct_map distinct_sort set_sort)
  ultimately show ?thesis by (simp add: strict_sorted_iff sorted_map)
qed

lemma parse_gitmodules_Ok:
  assumes "parse_gitmodules hasher root (Some src) = Ok ds"
  obtains sections ds' where "parse_sections hasher (gm_bytes src) = Ok sections"
    "declare_sections hasher root (gm_blob_oid src) sections [] = Ok ds'" "ds = sort_key declaration_key ds'"
  using assms by (auto simp: parse_gitmodules_def result_iffs from_utf8_as_bytes split: if_splits)

lemma parse_gitmodules_facts:
  assumes "parse_gitmodules hasher root (Some src) = Ok ds"
  shows "sorted_wrt (<) (map gd_path ds)" "length ds \<le> boundary_maximum GitmodulesSections"
    "\<forall>d \<in> set ds. declaration_ok hasher root (length (gm_bytes src)) d \<and> gd_blob_oid d = gm_blob_oid src"
    "distinct (map gd_start_byte ds)"
proof -
  from assms obtain sections ds' where p: "parse_sections hasher (gm_bytes src) = Ok sections"
    and d: "declare_sections hasher root (gm_blob_oid src) sections [] = Ok ds'" and ds: "ds = sort_key declaration_key ds'"
    by (rule parse_gitmodules_Ok)
  note closed = parse_sections_closed [OF p] and decl = declare_sections_Ok [OF d]
  from decl have all2: "list_all2 (declares hasher root (gm_blob_oid src)) sections ds'" and dist: "distinct (map gd_path ds')"
    by auto
  show "sorted_wrt (<) (map gd_path ds)" unfolding ds by (rule sorted_key_paths [OF dist])
  show "length ds \<le> boundary_maximum GitmodulesSections"
    using closed(3) list_all2_lengthD [OF all2] by (simp add: ds)
  show "\<forall>d \<in> set ds. declaration_ok hasher root (length (gm_bytes src)) d \<and> gd_blob_oid d = gm_blob_oid src"
    using all2 closed(1) declares_ok by (fastforce simp: ds list_all2_conv_all_nth in_set_conv_nth)
  have "map gd_start_byte ds' = map ps_start_byte sections"
    using all2 declares_ok(2) [OF _ bspec [OF closed(1) nth_mem]]
    by (auto simp: list_all2_conv_all_nth intro!: nth_equalityI)
  moreover have "sorted_wrt (<) (map ps_start_byte sections)"
    unfolding sorted_wrt_map using closed(1,2)
    by (intro sorted_wrt_mono_rel [OF _ closed(2)]) (auto simp: section_closed_def)
  ultimately have "distinct (map gd_start_byte ds')" by (metis strict_sorted_iff)
  then show "distinct (map gd_start_byte ds)" unfolding ds by (metis distinct_map distinct_sort set_sort)
qed

section \<open>Properties\<close>


text \<open>
  C28. Byte validation reports the earliest failure of the text: it accepts exactly the well-formed
  UTF-8 texts with no control byte and no bare carriage return, and otherwise its reason belongs to
  a failure with the least offset, and among those to the least one in the order of the reasons.
\<close>

theorem validate_gitmodules_bytes_exact:
  "case validate_gitmodules_bytes bs of
     Ok _ \<Rightarrow> metadata_failures bs = {}
   | Err e \<Rightarrow> (\<exists>i r. e = metadata_error r \<and>
       is_arg_min failure_key (\<lambda>f. f \<in> metadata_failures bs) (i, r))
   | Panic \<Rightarrow> False"
  using validate_gitmodules_bytes_least [of bs]
  by (fastforce simp: validate_gitmodules_bytes_def least_failure_def is_arg_min_linorder
      split: option.splits)


text \<open>
  C33. The parser aborts only on one kind of line: a header that reads, without the blanks around it,
  \<open>[submodule "]\<close>, where the opening quotation mark is also the closing one. The witness shows
  that it does abort there.
\<close>

theorem parse_gitmodules_panics:
  assumes "parse_gitmodules hasher root (Some src) = Panic"
  shows "\<exists>line \<in> set (gitmodules_lines (gm_bytes src)).
    trim_horizontal (line_content (gm_bytes src) line) = section_prefix @ [0x5D]"
proof -
  from assms have "parse_sections hasher (gm_bytes src) = Panic"
    by (auto simp: parse_gitmodules_def result_iffs from_utf8_as_bytes split: if_splits)
  then have "gitmodules_loop hasher (gm_bytes src) (gitmodules_lines (gm_bytes src))
      \<lparr>gs_sections = [], gs_names = [], gs_current = None\<rparr> = Panic"
    by (auto simp: parse_sections_def result_iffs split: option.splits)
  then show ?thesis by (rule gitmodules_loop_Panic) simp
qed

definition sample_root :: bound_revision where
  "sample_root = \<lparr>br_identity = RepositoryIdentity ''urn:codenoesis:r'', br_commit_oid = ObjectId ''1'',
     br_tree_oid = ObjectId ''2''\<rparr>"

definition shared_quote :: acquired_gitmodules where
  "shared_quote = \<lparr>gm_mode = ''100644'', gm_blob_oid = ObjectId ''3'', gm_bytes = section_prefix @ [0x5D]\<rparr>"


lemma shared_quote_header:
  "trim_horizontal (section_prefix @ [0x5D]) = section_prefix @ [0x5D]"
  "hd (section_prefix @ [0x5D]) = 91" "starts_with [91] (section_prefix @ [0x5D])"
  by (simp_all add: trim_horizontal_def section_prefix_def as_bytes_def horizontal_def starts_with_def)

theorem parse_gitmodules_panics_witness:
  "parse_gitmodules (\<lambda>_. []) sample_root (Some shared_quote) = Panic \<and>
   (\<exists>line \<in> set (gitmodules_lines (gm_bytes shared_quote)).
      trim_horizontal (line_content (gm_bytes shared_quote) line) = section_prefix @ [0x5D])"
proof -
  let ?bs = "section_prefix @ [0x5D]"
  have p: "\<forall>b \<in> set ?bs. printable b \<or> b = 9 \<or> b = 10"
    by (simp add: section_prefix_def as_bytes_def printable_def)
  have "gitmodules_lines ?bs = [\<lparr>line_start = 0, line_content_end = length ?bs\<rparr>]"
    by (rule gitmodules_lines_single) (simp_all add: section_prefix_def as_bytes_def)
  then have "gitmodules_loop (\<lambda>_. []) ?bs (gitmodules_lines ?bs)
      \<lparr>gs_sections = [], gs_names = [], gs_current = None\<rparr> = Panic"
    using shared_quote_header parse_section_name_Panic [of ?bs]
    by (simp add: gitmodules_step_def get_range_def section_line_def close_section_def)
  then have "parse_gitmodules (\<lambda>_. []) sample_root (Some shared_quote) = Panic"
    using parse_gitmodules_printable [of shared_quote "\<lambda>_. []" sample_root] p
    by (simp add: shared_quote_def max_gitmodules_bytes_def parse_sections_def
        section_prefix_def [THEN arg_cong [where f = length]])
  with parse_gitmodules_panics [OF this] show ?thesis by blast
qed

end
