(* ===== verification/Gitmodules_Render.thy ===== *)
theory Gitmodules_Render
  imports Gitmodules
begin

text \<open>
  Completeness of the \<open>.gitmodules\<close> parser: the text that writes a list of modules in the usual
  layout (a header line per module, then one indented line per key) is read back to exactly those
  modules, with the byte range of every section.
\<close>

section \<open>Rendering\<close>

type_synonym module_spec = "string \<times> (string \<times> string) list"

definition header_line :: "string \<Rightarrow> bytes" where
  "header_line name = section_prefix @ as_bytes name @ section_suffix"

definition entry_line :: "string \<times> string \<Rightarrow> bytes" where
  "entry_line kv = 9 # as_bytes (fst kv) @ as_bytes '' = '' @ as_bytes (snd kv)"

definition module_lines :: "module_spec \<Rightarrow> bytes list" where
  "module_lines m = header_line (fst m) # map entry_line (snd m)"

definition render_lines :: "bytes list \<Rightarrow> bytes" where
  "render_lines ls = concat (map (\<lambda>l. l @ [10]) ls)"

definition render_module :: "module_spec \<Rightarrow> bytes" where
  "render_module m = render_lines (module_lines m)"

definition render_modules :: "module_spec list \<Rightarrow> bytes" where
  "render_modules ms = concat (map render_module ms)"

text \<open>Names, keys and values the layout can carry.\<close>

definition name_ok :: "string \<Rightarrow> bool" where
  "name_ok name \<longleftrightarrow> name \<noteq> [] \<and> length name \<le> 255 \<and> (\<forall>b \<in> set (as_bytes name). name_byte b)"

definition value_text_ok :: "string \<Rightarrow> bool" where
  "value_text_ok v \<longleftrightarrow>
     v \<noteq> [] \<and> (\<forall>b \<in> set (as_bytes v). printable b) \<and> \<not> unsupported_value_syntax (as_bytes v) \<and>
     \<not> horizontal (hd (as_bytes v)) \<and> \<not> horizontal (last (as_bytes v))"

definition key_text_ok :: "string \<Rightarrow> bool" where
  "key_text_ok k \<longleftrightarrow> valid_key (as_bytes k) \<and> k \<noteq> ''include''"

definition module_ok :: "module_spec \<Rightarrow> bool" where
  "module_ok m \<longleftrightarrow>
     name_ok (fst m) \<and> distinct (map fst (snd m)) \<and> length (snd m) \<le> boundary_maximum GitmodulesKeysPerSection \<and>
     (\<forall>kv \<in> set (snd m). key_text_ok (fst kv) \<and> value_text_ok (snd kv)) \<and>
     {''path'', ''url''} \<subseteq> set (map fst (snd m))"

section \<open>Bytes of the lines\<close>

lemma char_range_byte:
  assumes "CHR 0x21 \<le> byte_char b" "byte_char b \<le> CHR 0x7E"
  shows "33 \<le> b" "b < 127"
proof -
  have "of_char (byte_char b) = unat b" by (simp add: byte_char_def)
  with assms have "33 \<le> unat b" "unat b \<le> 126" by (simp_all add: less_eq_char_def)
  then show "33 \<le> b" "b < 127" by (simp_all add: word_le_nat_alt word_less_nat_alt)
qed

lemma name_byte_graphic: "name_byte b \<Longrightarrow> 33 \<le> b \<and> b < 127"
  by (intro conjI char_range_byte)
    (auto simp: name_byte_def is_ascii_alphanumeric_def is_ascii_digit_def is_ascii_lowercase_def
      is_ascii_uppercase_def less_eq_char_def)

lemma key_byte_graphic:
  assumes "valid_key bs" "b \<in> set bs"
  shows "33 \<le> b \<and> b < 127 \<and> b \<noteq> 61"
proof -
  from assms have k: "is_ascii_lowercase (byte_char b) \<or> is_ascii_digit (byte_char b) \<or> b = 45"
    by (auto simp: valid_key_def split: list.splits)
  moreover have "33 \<le> b \<and> b < 127" if "is_ascii_lowercase (byte_char b) \<or> is_ascii_digit (byte_char b)"
    using that by (intro conjI char_range_byte) (auto simp: is_ascii_lowercase_def is_ascii_digit_def less_eq_char_def)
  moreover have "b \<noteq> 61" if "is_ascii_lowercase (byte_char b) \<or> is_ascii_digit (byte_char b)"
    using that by (auto simp: is_ascii_lowercase_def is_ascii_digit_def less_eq_char_def byte_char_def)
  ultimately show ?thesis by auto
qed

lemma graphic_not_horizontal: "33 \<le> b \<Longrightarrow> \<not> horizontal b"
  by (auto simp: horizontal_def)

lemma trim_horizontal_id: "bs = [] \<or> \<not> horizontal (hd bs) \<and> \<not> horizontal (last bs) \<Longrightarrow> trim_horizontal bs = bs"
  by (auto simp: trim_horizontal_def dropWhile_eq_self_iff [THEN iffD2] hd_rev)

lemma trim_horizontal_left: "horizontal b \<Longrightarrow> trim_horizontal (b # bs) = trim_horizontal bs"
  by (simp add: trim_horizontal_def)

lemma trim_horizontal_right:
  "bs \<noteq> [] \<Longrightarrow> \<not> horizontal (hd bs) \<Longrightarrow> horizontal b \<Longrightarrow> trim_horizontal (bs @ [b]) = trim_horizontal bs"
  by (cases bs) (simp_all add: trim_horizontal_def)

lemma header_line_facts:
  assumes "name_ok name"
  shows "trim_horizontal (header_line name) = header_line name" "parse_section_name (header_line name) = Ok name"
    "\<forall>b \<in> set (header_line name). printable b" "hd (header_line name) = 91" "header_line name \<noteq> []"
proof -
  have fix12: "length section_prefix = 12" "hd section_prefix = 91" "section_prefix \<noteq> []" "section_suffix \<noteq> []"
    "length section_suffix = 2" "last section_suffix = 93"
    by (simp_all add: section_prefix_def section_suffix_def as_bytes_def)
  show "hd (header_line name) = 91" "header_line name \<noteq> []" using fix12 by (simp_all add: header_line_def)
  then show "trim_horizontal (header_line name) = header_line name"
    using fix12 by (intro trim_horizontal_id) (simp add: header_line_def horizontal_def)
  have g: "\<forall>b \<in> set (as_bytes name). 33 \<le> b \<and> b < 127"
    using assms name_byte_graphic by (auto simp: name_ok_def)
  have "printable b" if "b \<in> set (as_bytes name)" for b
    using g that unfolding printable_def by (auto simp: word_le_nat_alt dest!: bspec)
  then show "\<forall>b \<in> set (header_line name). printable b"
    by (auto simp: header_line_def section_prefix_def section_suffix_def as_bytes_def printable_def)
  have "get_range (length section_prefix) (length (header_line name) - 2) (header_line name) = Some (as_bytes name)"
    using get_range_append [of section_prefix "as_bytes name" section_suffix] fix12 by (simp add: header_line_def)
  moreover have "from_utf8 (as_bytes name) = Some name"
  proof -
    have "\<forall>b \<in> set (as_bytes name). unat b < 128" using g by (auto simp: word_less_nat_alt)
    then show ?thesis using from_utf8_small [of "as_bytes name"] by simp
  qed
  ultimately show "parse_section_name (header_line name) = Ok name"
    using assms fix12
    by (auto simp: parse_section_name_def starts_with_def ends_with_def header_line_def name_ok_def as_bytes_def)
qed

lemma entry_line_facts:
  assumes "key_text_ok k" "value_text_ok v"
  defines "t \<equiv> as_bytes k @ as_bytes '' = '' @ as_bytes v"
  shows "trim_horizontal (entry_line (k, v)) = t" "t \<noteq> []" "hd t \<noteq> 35" "hd t \<noteq> 59" "hd t \<noteq> 91"
    "split_once 61 t = Some (as_bytes k @ [32], 32 # as_bytes v)"
    "trim_horizontal (as_bytes k @ [32]) = as_bytes k" "trim_horizontal (32 # as_bytes v) = as_bytes v"
    "\<forall>b \<in> set (entry_line (k, v)). printable b \<or> b = 9"
    "from_utf8 (as_bytes k) = Some k" "from_utf8 (as_bytes v) = Some v"
proof -
  have kv: "valid_key (as_bytes k)" using assms(1) by (simp add: key_text_ok_def)
  then have k: "as_bytes k \<noteq> []" "\<forall>b \<in> set (as_bytes k). 33 \<le> b \<and> b < 127 \<and> b \<noteq> 61"
    using key_byte_graphic [OF kv] by (auto simp: valid_key_def)
  have v: "as_bytes v \<noteq> []" "\<forall>b \<in> set (as_bytes v). printable b" "\<not> horizontal (hd (as_bytes v))"
    "\<not> horizontal (last (as_bytes v))"
    using assms(2) by (auto simp: value_text_ok_def as_bytes_def)
  have sep: "as_bytes '' = '' = [32, 61, 32]" by (simp add: as_bytes_def)
  have hk: "\<not> horizontal (hd (as_bytes k))" "\<not> horizontal (last (as_bytes k))"
    using k graphic_not_horizontal by (auto simp: list.set_sel(1))
  have hd: "hd t = hd (as_bytes k)" and last: "last t = last (as_bytes v)"
    using k(1) v(1) by (auto simp: t_def)
  show "t \<noteq> []" using k(1) by (simp add: t_def)
  have tt: "trim_horizontal t = t" using hk v(4) by (intro trim_horizontal_id) (simp add: hd last)
  show "trim_horizontal (entry_line (k, v)) = t"
    unfolding entry_line_def using trim_horizontal_left [of 9 t] tt by (simp add: horizontal_def t_def)
  have "is_ascii_lowercase (byte_char (hd (as_bytes k)))" using kv by (auto simp: valid_key_def split: list.splits)
  then show "hd t \<noteq> 35" "hd t \<noteq> 59" "hd t \<noteq> 91"
    unfolding hd by (auto simp: is_ascii_lowercase_def less_eq_char_def byte_char_def)
  show "split_once 61 t = Some (as_bytes k @ [32], 32 # as_bytes v)"
    unfolding split_once_Some using k(2) by (auto simp: t_def sep)
  show "trim_horizontal (as_bytes k @ [32]) = as_bytes k"
    using k(1) hk by (simp add: trim_horizontal_right trim_horizontal_id horizontal_def)
  show "trim_horizontal (32 # as_bytes v) = as_bytes v"
    using v by (simp add: trim_horizontal_left trim_horizontal_id horizontal_def)
  have pk: "printable b" if "b \<in> set (as_bytes k)" for b
    using k(2) that unfolding printable_def by (auto simp: word_le_nat_alt dest!: bspec)
  with v(2) show "\<forall>b \<in> set (entry_line (k, v)). printable b \<or> b = 9"
    by (auto simp: entry_line_def sep printable_def)
  have "unat b < 128" if "printable b" for b using that by (auto simp: printable_def word_less_nat_alt)
  with pk v(2) show "from_utf8 (as_bytes k) = Some k" "from_utf8 (as_bytes v) = Some v"
    using from_utf8_small [of "as_bytes k"] from_utf8_small [of "as_bytes v"] by auto
qed

section \<open>Reading a rendered text\<close>

lemma printable_line:
  assumes "\<forall>b \<in> set l. printable b \<or> b = 9"
  shows "10 \<notin> set l" "l = [] \<or> last l \<noteq> 13"
proof -
  have "b \<noteq> 10" "b \<noteq> 13" if "b \<in> set l" for b
    using assms that by (auto simp: printable_def)
  then show "10 \<notin> set l" "l = [] \<or> last l \<noteq> 13" using last_in_set by blast+
qed

text \<open>The loop consumes a printable line as one step on its content.\<close>

lemma gitmodules_loop_line:
  assumes "\<forall>b \<in> set l. printable b \<or> b = 9"
  shows "gitmodules_loop hasher (pre @ l @ 10 # post) (gitmodules_lines_from (pre @ l @ 10 # post) (length pre)) st =
    and_then (gitmodules_step hasher (pre @ l @ 10 # post)
        \<lparr>line_start = length pre, line_content_end = length pre + length l\<rparr> st)
      (gitmodules_loop hasher (pre @ l @ 10 # post) (gitmodules_lines_from (pre @ l @ 10 # post) (length (pre @ l @ [10]))))"
  by (subst gitmodules_lines_from_line [OF printable_line [OF assms]]) simp

lemma entry_step:
  assumes "key_text_ok k" "value_text_ok v" "gs_current st = Some c" "bt_get (ps_values c) k = None"
    "length (ps_values c) + 1 \<le> boundary_maximum GitmodulesKeysPerSection"
  shows "gitmodules_step hasher (pre @ entry_line (k, v) @ 10 # post)
      \<lparr>line_start = length pre, line_content_end = length pre + length (entry_line (k, v))\<rparr> st =
    Ok (st\<lparr>gs_current := Some (c\<lparr>ps_values := bt_put k v (ps_values c)\<rparr>)\<rparr>)"
proof -
  note e = entry_line_facts [OF assms(1,2)]
  from assms(1,2) have "valid_key (as_bytes k)" "k \<noteq> ''include''" "as_bytes v \<noteq> []"
    "\<not> unsupported_value_syntax (as_bytes v)"
    by (auto simp: key_text_ok_def value_text_ok_def as_bytes_def)
  moreover have "\<not> starts_with [91] (as_bytes k @ as_bytes '' = '' @ as_bytes v)"
    using e(2,5) by (cases "as_bytes k @ as_bytes '' = '' @ as_bytes v") (auto simp: starts_with_def)
  ultimately show ?thesis
    using e assms(3-5) get_range_append [of pre "entry_line (k, v)" "10 # post"]
    by (simp add: gitmodules_step_def key_line_def Let_def check_boundary_limit_def
        del: boundary_maximum.simps)
qed

lemma entry_loop:
  assumes "\<forall>kv \<in> set kvs. key_text_ok (fst kv) \<and> value_text_ok (snd kv)" "distinct (map fst kvs)"
    "gs_current st = Some c" "\<forall>k \<in> set (map fst kvs). bt_get (ps_values c) k = None" "bt_wf (ps_values c)"
    "length (ps_values c) + length kvs \<le> boundary_maximum GitmodulesKeysPerSection"
    "bs = pre @ render_lines (map entry_line kvs) @ post"
  shows "gitmodules_loop hasher bs (gitmodules_lines_from bs (length pre)) st =
    gitmodules_loop hasher bs (gitmodules_lines_from bs (length (pre @ render_lines (map entry_line kvs))))
      (st\<lparr>gs_current := Some (c\<lparr>ps_values := fold (\<lambda>(k, v). bt_put k v) kvs (ps_values c)\<rparr>)\<rparr>)"
  using assms
proof (induction kvs arbitrary: pre st c)
  case Nil
  then have "st\<lparr>gs_current := Some c\<rparr> = st" by (cases st) simp
  then show ?case by (simp add: render_lines_def)
next
  case (Cons kv kvs)
  obtain k v where kv: "kv = (k, v)" by (cases kv)
  let ?c = "c\<lparr>ps_values := bt_put k v (ps_values c)\<rparr>"
  let ?rest = "render_lines (map entry_line kvs) @ post"
  have bs: "bs = pre @ entry_line (k, v) @ 10 # ?rest" using Cons.prems(7) by (simp add: render_lines_def kv)
  have ok: "key_text_ok k" "value_text_ok v" "bt_get (ps_values c) k = None" using Cons.prems kv by auto
  note line = entry_line_facts(9) [OF ok(1,2)]
  have len: "length (bt_put k v (ps_values c)) = length (ps_values c) + 1" by (rule bt_put_fresh_length [OF ok(3)])
  have "gitmodules_loop hasher bs (gitmodules_lines_from bs (length pre)) st =
      gitmodules_loop hasher bs (gitmodules_lines_from bs (length (pre @ entry_line (k, v) @ [10]))) (st\<lparr>gs_current := Some ?c\<rparr>)"
    using Cons.prems(3,6) unfolding bs
    by (subst gitmodules_loop_line [OF line], subst entry_step [OF ok(1,2) Cons.prems(3) ok(3)]) simp_all
  also have "\<dots> = gitmodules_loop hasher bs
      (gitmodules_lines_from bs (length ((pre @ entry_line (k, v) @ [10]) @ render_lines (map entry_line kvs))))
      (st\<lparr>gs_current := Some ?c, gs_current := Some (?c\<lparr>ps_values := fold (\<lambda>(k, v). bt_put k v) kvs (ps_values ?c)\<rparr>)\<rparr>)"
    using Cons.prems kv len
    by (intro Cons.IH) (auto simp: bs bt_wf_put bt_get_put simp del: boundary_maximum.simps)
  finally show ?case by (simp add: kv render_lines_def)
qed

text \<open>The effect of reading a list of modules from the byte \<open>start\<close> of a text of \<open>len\<close> bytes.\<close>

definition open_section :: "sha256 \<Rightarrow> nat \<Rightarrow> nat \<Rightarrow> module_spec \<Rightarrow> pending_section" where
  "open_section hasher len start m =
     \<lparr>ps_name_sha256 = sha256_hex hasher (fst m), ps_start_byte = start, ps_end_byte = len,
      ps_values = bt_collect (snd m)\<rparr>"

definition closed_at :: "nat \<Rightarrow> gitmodules_state \<Rightarrow> pending_section list" where
  "closed_at start st = gs_sections st @
     (case gs_current st of None \<Rightarrow> [] | Some c \<Rightarrow> [c\<lparr>ps_end_byte := start\<rparr>])"

fun read_modules :: "sha256 \<Rightarrow> nat \<Rightarrow> nat \<Rightarrow> module_spec list \<Rightarrow> gitmodules_state \<Rightarrow> gitmodules_state" where
  "read_modules hasher len start [] st = st"
| "read_modules hasher len start (m # ms) st =
     read_modules hasher len (start + length (render_module m)) ms
       \<lparr>gs_sections = closed_at start st, gs_names = bs_insert (fst m) (gs_names st),
        gs_current = Some (open_section hasher len start m)\<rparr>"

lemma header_step:
  assumes "name_ok name" "\<not> bs_contains (gs_names st) name"
    "length (gs_names st) + 1 \<le> boundary_maximum GitmodulesSections"
    "\<forall>c. gs_current st = Some c \<longrightarrow> bt_get (ps_values c) ''path'' \<noteq> None \<and> bt_get (ps_values c) ''url'' \<noteq> None"
  shows "gitmodules_step hasher (pre @ header_line name @ 10 # post)
      \<lparr>line_start = length pre, line_content_end = length pre + length (header_line name)\<rparr> st =
    Ok \<lparr>gs_sections = closed_at (length pre) st, gs_names = bs_insert name (gs_names st),
      gs_current = Some (open_section hasher (length (pre @ header_line name @ 10 # post)) (length pre) (name, []))\<rparr>"
proof -
  note h = header_line_facts [OF assms(1)]
  have "close_section (length pre) st = Ok \<lparr>gs_sections = closed_at (length pre) st, gs_names = gs_names st, gs_current = None\<rparr>"
    using assms(4)
    by (cases st; cases "gs_current st")
      (auto simp: close_section_def closed_at_def validate_required_gitmodules_keys_def)
  moreover have "starts_with [91] (header_line name)"
    using h(4,5) by (cases "header_line name") (simp_all add: starts_with_def)
  ultimately show ?thesis
    using h assms(2,3) get_range_append [of pre "header_line name" "10 # post"]
    by (simp add: gitmodules_step_def section_line_def check_boundary_limit_def open_section_def bt_collect_def
        del: boundary_maximum.simps)
qed

lemma module_loop:
  assumes "module_ok m" "\<not> bs_contains (gs_names st) (fst m)"
    "length (gs_names st) + 1 \<le> boundary_maximum GitmodulesSections"
    "\<forall>c. gs_current st = Some c \<longrightarrow> bt_get (ps_values c) ''path'' \<noteq> None \<and> bt_get (ps_values c) ''url'' \<noteq> None"
    "bs = pre @ render_module m @ post"
  shows "gitmodules_loop hasher bs (gitmodules_lines_from bs (length pre)) st =
    gitmodules_loop hasher bs (gitmodules_lines_from bs (length (pre @ render_module m)))
      \<lparr>gs_sections = closed_at (length pre) st, gs_names = bs_insert (fst m) (gs_names st),
       gs_current = Some (open_section hasher (length bs) (length pre) m)\<rparr>"
proof -
  obtain name kvs where m: "m = (name, kvs)" by (cases m)
  let ?rest = "render_lines (map entry_line kvs) @ post"
  let ?st = "\<lparr>gs_sections = closed_at (length pre) st, gs_names = bs_insert name (gs_names st),
      gs_current = Some (open_section hasher (length bs) (length pre) (name, []))\<rparr>"
  have bs: "bs = pre @ header_line name @ 10 # ?rest"
    using assms(5) by (simp add: m render_module_def module_lines_def render_lines_def)
  have name: "name_ok name" using assms(1) by (simp add: module_ok_def m)
  have line: "\<forall>b \<in> set (header_line name). printable b \<or> b = 9" using header_line_facts(3) [OF name] by blast
  have "gitmodules_loop hasher bs (gitmodules_lines_from bs (length pre)) st =
      gitmodules_loop hasher bs (gitmodules_lines_from bs (length (pre @ header_line name @ [10]))) ?st"
    using assms(2-4) m unfolding bs
    by (subst gitmodules_loop_line [OF line], subst header_step [OF name]) simp_all
  also have "\<dots> = gitmodules_loop hasher bs
      (gitmodules_lines_from bs (length ((pre @ header_line name @ [10]) @ render_lines (map entry_line kvs))))
      (?st\<lparr>gs_current := Some ((open_section hasher (length bs) (length pre) (name, []))
        \<lparr>ps_values := fold (\<lambda>(k, v). bt_put k v) kvs (ps_values (open_section hasher (length bs) (length pre) (name, [])))\<rparr>)\<rparr>)"
    using assms(1) m
    by (intro entry_loop) (auto simp: module_ok_def open_section_def bt_collect_def bs bt.wf_empty simp del: boundary_maximum.simps)
  finally show ?thesis
    by (simp add: m render_module_def module_lines_def render_lines_def open_section_def bt_collect_def)
qed

lemma module_required:
  assumes "module_ok m"
  shows "bt_get (bt_collect (snd m)) ''path'' \<noteq> None" "bt_get (bt_collect (snd m)) ''url'' \<noteq> None"
  using assms bt_collect_get [of "snd m"] unfolding module_ok_def by (fastforce simp: image_iff)+

lemma modules_loop:
  assumes "\<forall>m \<in> set ms. module_ok m" "distinct (map fst ms)" "\<forall>m \<in> set ms. \<not> bs_contains (gs_names st) (fst m)"
    "length (gs_names st) + length ms \<le> boundary_maximum GitmodulesSections"
    "\<forall>c. gs_current st = Some c \<longrightarrow> bt_get (ps_values c) ''path'' \<noteq> None \<and> bt_get (ps_values c) ''url'' \<noteq> None"
    "bs = pre @ render_modules ms"
  shows "gitmodules_loop hasher bs (gitmodules_lines_from bs (length pre)) st =
    Ok (read_modules hasher (length bs) (length pre) ms st)"
  using assms
proof (induction ms arbitrary: pre st)
  case Nil
  then show ?case by (simp add: render_modules_def gitmodules_lines_from_end)
next
  case (Cons m ms)
  let ?st = "\<lparr>gs_sections = closed_at (length pre) st, gs_names = bs_insert (fst m) (gs_names st),
       gs_current = Some (open_section hasher (length bs) (length pre) m)\<rparr>"
  have bs: "bs = pre @ render_module m @ render_modules ms" using Cons.prems(6) by (simp add: render_modules_def)
  have fresh: "\<not> bs_contains (gs_names st) (fst m)" using Cons.prems(3) by simp
  then have len: "length (bs_insert (fst m) (gs_names st)) = length (gs_names st) + 1"
    by (cases "bt_get (gs_names st) (fst m)") (simp_all add: bs_contains_def bs_insert_def bt_put_fresh_length)
  have "gitmodules_loop hasher bs (gitmodules_lines_from bs (length pre)) st =
      gitmodules_loop hasher bs (gitmodules_lines_from bs (length (pre @ render_module m))) ?st"
    by (rule module_loop [OF _ fresh _ Cons.prems(5) bs]) (use Cons.prems(1,4) in auto)
  also have "\<dots> = Ok (read_modules hasher (length bs) (length (pre @ render_module m)) ms ?st)"
  proof (rule Cons.IH)
    show "\<forall>m' \<in> set ms. \<not> bs_contains (gs_names ?st) (fst m')"
      using Cons.prems(2,3) by (auto simp: bs_contains_keys bs_insert_keys image_iff)
    show "\<forall>c. gs_current ?st = Some c \<longrightarrow> bt_get (ps_values c) ''path'' \<noteq> None \<and> bt_get (ps_values c) ''url'' \<noteq> None"
      using module_required [of m] Cons.prems(1) by (simp add: open_section_def)
  qed (use Cons.prems len bs in \<open>auto simp del: boundary_maximum.simps\<close>)
  finally show ?case by simp
qed

text \<open>The sections a rendered text has.\<close>

fun module_sections :: "sha256 \<Rightarrow> nat \<Rightarrow> module_spec list \<Rightarrow> pending_section list" where
  "module_sections hasher start [] = []"
| "module_sections hasher start (m # ms) =
     open_section hasher (start + length (render_module m)) start m #
     module_sections hasher (start + length (render_module m)) ms"

lemma read_modules_sections:
  "len = start + length (render_modules ms) \<Longrightarrow> ms \<noteq> [] \<Longrightarrow>
   \<exists>c. gs_current (read_modules hasher len start ms st) = Some c \<and>
     gs_sections (read_modules hasher len start ms st) @ [c] = closed_at start st @ module_sections hasher start ms \<and>
     ps_values c = bt_collect (snd (last ms))"
proof (induction ms arbitrary: start st)
  case (Cons m ms)
  show ?case
  proof (cases "ms = []")
    case True
    with Cons.prems show ?thesis by (simp add: render_modules_def open_section_def)
  next
    case False
    let ?start = "start + length (render_module m)"
    have "len = ?start + length (render_modules ms)" using Cons.prems by (simp add: render_modules_def)
    from Cons.IH [OF this False, of "\<lparr>gs_sections = closed_at start st, gs_names = bs_insert (fst m) (gs_names st),
        gs_current = Some (open_section hasher len start m)\<rparr>"] False
    show ?thesis by (auto simp: closed_at_def open_section_def)
  qed
qed simp

lemma parse_sections_rendered:
  assumes "\<forall>m \<in> set ms. module_ok m" "distinct (map fst ms)" "length ms \<le> boundary_maximum GitmodulesSections"
  shows "parse_sections hasher (render_modules ms) = Ok (module_sections hasher 0 ms)"
proof -
  let ?bs = "render_modules ms" and ?st = "\<lparr>gs_sections = [], gs_names = [], gs_current = None\<rparr>"
  have loop: "gitmodules_loop hasher ?bs (gitmodules_lines ?bs) ?st = Ok (read_modules hasher (length ?bs) 0 ms ?st)"
    using modules_loop [OF assms(1,2), of ?st ?bs "[]"] assms(3)
    by (simp add: gitmodules_lines_def bs_contains_def del: boundary_maximum.simps)
  show ?thesis
  proof (cases "ms = []")
    case True
    with loop show ?thesis by (simp add: parse_sections_def)
  next
    case False
    then obtain c where c: "gs_current (read_modules hasher (length ?bs) 0 ms ?st) = Some c"
      "gs_sections (read_modules hasher (length ?bs) 0 ms ?st) @ [c] = module_sections hasher 0 ms"
      "ps_values c = bt_collect (snd (last ms))"
      using read_modules_sections [of "length ?bs" 0 ms hasher ?st] by (auto simp: closed_at_def)
    have "module_ok (last ms)" using assms(1) False by simp
    from loop c module_required [OF this] show ?thesis
      by (simp add: parse_sections_def validate_required_gitmodules_keys_def)
  qed
qed

section \<open>Declarations of a rendered text\<close>

definition module_declaration ::
  "sha256 \<Rightarrow> bound_revision \<Rightarrow> object_id \<Rightarrow> pending_section \<Rightarrow> gitmodules_declaration" where
  "module_declaration hasher root blob_oid s =
     section_declaration hasher root blob_oid s
       (the (bt_get (ps_values s) ''path'')) (the (bt_get (ps_values s) ''url''))
       (bt_remove ''url'' (bt_remove ''path'' (ps_values s)))"

lemma declare_sections_forward:
  assumes "\<forall>s \<in> set sections. bt_get (ps_values s) ''path'' \<noteq> None \<and> bt_get (ps_values s) ''url'' \<noteq> None \<and>
      canonical_path (the (bt_get (ps_values s) ''path''))"
    "distinct (map (\<lambda>s. the (bt_get (ps_values s) ''path'')) sections)"
    "\<forall>s \<in> set sections. the (bt_get (ps_values s) ''path'') \<notin> set (bt_keys paths)"
  shows "declare_sections hasher root blob_oid sections paths =
    Ok (map (module_declaration hasher root blob_oid) sections)"
  using assms
proof (induction sections arbitrary: paths)
  case (Cons s sections)
  then obtain path url where s: "bt_get (ps_values s) ''path'' = Some path" "bt_get (ps_values s) ''url'' = Some url"
    "canonical_path path" by auto
  have "declare_sections hasher root blob_oid sections (bs_insert path paths) =
      Ok (map (module_declaration hasher root blob_oid) sections)"
    using Cons.prems s by (intro Cons.IH) (auto simp: bs_insert_keys)
  with s Cons.prems(3) show ?case
    by (simp add: bt_remove_get canonical_path_def bs_contains_keys module_declaration_def)
qed simp

lemma module_sections_values: "map ps_values (module_sections hasher start ms) = map (\<lambda>m. bt_collect (snd m)) ms"
  by (induction ms arbitrary: start) (simp_all add: open_section_def)

lemma module_sections_mem:
  "s \<in> set (module_sections hasher start ms) \<Longrightarrow> \<exists>m \<in> set ms. ps_values s = bt_collect (snd m)"
  by (induction ms arbitrary: start) (auto simp: open_section_def)

lemma render_lines_printable:
  "\<forall>l \<in> set ls. \<forall>b \<in> set l. printable b \<or> b = 9 \<Longrightarrow> b \<in> set (render_lines ls) \<Longrightarrow> printable b \<or> b = 9 \<or> b = 10"
  by (induction ls) (auto simp: render_lines_def)

lemma render_modules_printable:
  assumes "\<forall>m \<in> set ms. module_ok m" "b \<in> set (render_modules ms)"
  shows "printable b \<or> b = 9 \<or> b = 10"
proof -
  from assms(2) obtain m where m: "m \<in> set ms" "b \<in> set (render_lines (module_lines m))"
    by (auto simp: render_modules_def render_module_def)
  then have ok: "module_ok m" using assms(1) by blast
  have "\<forall>b \<in> set l. printable b \<or> b = 9" if "l \<in> set (module_lines m)" for l
  proof (cases "l = header_line (fst m)")
    case True
    with header_line_facts(3) [of "fst m"] ok show ?thesis by (auto simp: module_ok_def)
  next
    case False
    with that obtain k v where kv: "(k, v) \<in> set (snd m)" "l = entry_line (k, v)" by (auto simp: module_lines_def)
    from ok have "\<forall>kv \<in> set (snd m). key_text_ok (fst kv) \<and> value_text_ok (snd kv)" by (simp add: module_ok_def)
    from bspec [OF this kv(1)] show ?thesis unfolding kv(2) by (intro entry_line_facts(9)) simp_all
  qed
  then show ?thesis using m(2) by (intro render_lines_printable [of "module_lines m"]) auto
qed

text \<open>The path a module declares.\<close>

definition module_path :: "module_spec \<Rightarrow> string" where
  "module_path m = the (map_of (snd m) ''path'')"

lemma module_path_collect:
  assumes "module_ok m"
  shows "bt_get (bt_collect (snd m)) ''path'' = Some (module_path m)"
proof -
  from assms have d: "distinct (map fst (snd m))" and "''path'' \<in> fst ` set (snd m)" by (auto simp: module_ok_def)
  then obtain v where "(''path'', v) \<in> set (snd m)" by auto
  with d show ?thesis by (simp add: module_path_def bt_collect_get)
qed

section \<open>Property\<close>

text \<open>
  C26. Round trip: the rendered text of any list of well-formed modules with distinct names and
  distinct canonical paths, within the limits, parses to exactly the declarations of those modules,
  in the order of their paths.
\<close>

theorem parse_gitmodules_roundtrip:
  assumes "\<forall>m \<in> set ms. module_ok m \<and> canonical_path (module_path m)" "distinct (map fst ms)"
    and "distinct (map module_path ms)" "length ms \<le> boundary_maximum GitmodulesSections"
    and "gm_mode src = ''100644''" "gm_bytes src = render_modules ms"
    and "length (render_modules ms) \<le> boundary_maximum GitmodulesBytes"
  shows "parse_gitmodules hasher root (Some src) =
    Ok (sort_key declaration_key
      (map (module_declaration hasher root (gm_blob_oid src)) (module_sections hasher 0 ms)))"
proof -
  let ?ss = "module_sections hasher 0 ms"
  have ok: "\<forall>m \<in> set ms. module_ok m" using assms(1) by blast
  have "bt_get (ps_values s) ''path'' \<noteq> None \<and> bt_get (ps_values s) ''url'' \<noteq> None \<and>
      canonical_path (the (bt_get (ps_values s) ''path''))" if "s \<in> set ?ss" for s
  proof -
    from module_sections_mem [OF that] obtain m where m: "m \<in> set ms" "ps_values s = bt_collect (snd m)" by blast
    with module_required [of m] module_path_collect [of m] assms(1) show ?thesis by auto
  qed
  moreover have "map (\<lambda>s. the (bt_get (ps_values s) ''path'')) ?ss =
      map (\<lambda>v. the (bt_get v ''path'')) (map ps_values ?ss)" by simp
  then have "map (\<lambda>s. the (bt_get (ps_values s) ''path'')) ?ss = map module_path ms"
    using ok by (simp add: module_sections_values module_path_collect)
  ultimately have "declare_sections hasher root (gm_blob_oid src) ?ss [] =
      Ok (map (module_declaration hasher root (gm_blob_oid src)) ?ss)"
    using assms(3) by (intro declare_sections_forward) (auto simp: bt_keys_def)
  moreover have "parse_gitmodules hasher root (Some src) =
    and_then (parse_sections hasher (gm_bytes src)) (\<lambda>sections.
    and_then (declare_sections hasher root (gm_blob_oid src) sections []) (\<lambda>declarations.
    Ok (sort_key declaration_key declarations)))"
    using assms(5-7) render_modules_printable [OF ok] by (intro parse_gitmodules_printable) auto
  ultimately show ?thesis using parse_sections_rendered [OF ok assms(2,4)] assms(6) by simp
qed

definition sample_modules :: "module_spec list" where
  "sample_modules =
     [(''b'', [(''path'', ''lib/b''), (''url'', ''../b.git''), (''branch'', ''main'')]),
      (''a'', [(''url'', ''https://x/a''), (''path'', ''a'')])]"

definition sample_source :: acquired_gitmodules where
  "sample_source = \<lparr>gm_mode = ''100644'', gm_blob_oid = ObjectId ''9'', gm_bytes = render_modules sample_modules\<rparr>"

lemma sample_modules_ok: "\<forall>m \<in> set sample_modules. module_ok m \<and> canonical_path (module_path m)"
  by (simp add: sample_modules_def module_ok_def name_ok_def key_text_ok_def value_text_ok_def canonical_path_def
      module_path_def validate_canonical_relative_path_def starts_with_def as_bytes_def is_ascii_control_def
      printable_def valid_key_def name_byte_def byte_char_def unsupported_value_syntax_def horizontal_def
      is_ascii_alphanumeric_def is_ascii_lowercase_def is_ascii_digit_def less_eq_char_def)

theorem parse_gitmodules_roundtrip_witness:
  "\<exists>ds. parse_gitmodules (\<lambda>bs. bs) sample_root (Some sample_source) = Ok ds \<and> map gd_path ds = [''a'', ''lib/b'']"
proof -
  have "parse_gitmodules (\<lambda>bs. bs) sample_root (Some sample_source) =
    Ok (sort_key declaration_key
      (map (module_declaration (\<lambda>bs. bs) sample_root (gm_blob_oid sample_source)) (module_sections (\<lambda>bs. bs) 0 sample_modules)))"
    by (rule parse_gitmodules_roundtrip [OF sample_modules_ok])
      (simp_all add: sample_source_def sample_modules_def module_path_def render_modules_def render_module_def
        module_lines_def render_lines_def header_line_def entry_line_def section_prefix_def section_suffix_def
        max_gitmodules_bytes_def)
  then show ?thesis
    by (simp add: sample_modules_def open_section_def module_declaration_def section_declaration_def
        bt_collect_def declaration_key_def less_eq_prod_def less_prod_def less_char_def)
qed

end
