(* ===== verification/Boundary_Report.thy ===== *)
theory Boundary_Report
  imports Gitmodules
begin

text \<open>
  The boundary report (\<open>codenoesis-domain/src/s1_boundaries.rs\<close>): what an acquisition says about the
  repositories nested in the bound tree. \<open>build_boundary_report\<close> joins the gitlinks of the tree, the
  declarations of \<open>.gitmodules\<close> and the nested repositories that were verified explicitly, and
  validates the references of the result.
\<close>

section \<open>Data\<close>

datatype boundary_state = DeclaredUnbound | UndeclaredUnbound | ExplicitlyBound

fun boundary_state_str :: "boundary_state \<Rightarrow> string" where
  "boundary_state_str DeclaredUnbound = ''declared_unbound''"
| "boundary_state_str UndeclaredUnbound = ''undeclared_unbound''"
| "boundary_state_str ExplicitlyBound = ''explicitly_bound''"

record repository_boundary =
  rb_boundary_id :: string
  rb_path :: string
  rb_gitlink_oid :: object_id
  rb_state :: boundary_state
  rb_declaration_id :: "string option"
  rb_nested_repository :: "bound_revision option"
  rb_evidence_ids :: "string list"
  rb_coverage_gap_ids :: "string list"

record boundary_declaration =
  bd_declaration_id :: string
  bd_name_sha256 :: string
  bd_path :: string
  bd_url_kind :: boundary_url_kind
  bd_url_sha256 :: string
  bd_unsupported_keys :: "unsupported_key list"
  bd_boundary_id :: "string option"
  bd_evidence_id :: string

record boundary_gap =
  gap_id :: string
  gap_code :: string
  gap_path :: string
  gap_subject_id :: string
  gap_evidence_ids :: "string list"

datatype boundary_evidence =
    GitTreeEntry string object_id string object_id
  | GitmodulesEvidence string object_id nat nat

record boundary_report =
  br_root_repository :: bound_revision
  br_boundaries :: "repository_boundary list"
  br_declarations :: "boundary_declaration list"
  br_coverage_gaps :: "boundary_gap list"
  br_evidence :: "boundary_evidence list"

record verified_nested =
  vn_boundary_path :: string
  vn_bound_revision :: bound_revision

section \<open>Records\<close>

definition boundary_id :: "sha256 \<Rightarrow> bound_revision \<Rightarrow> acquired_gitlink \<Rightarrow> string" where
  "boundary_id hasher root gitlink =
     prefixed_domain_id hasher ''urn:codenoesis:repository-boundary:sha256:'' ''codenoesis.repository-boundary/v1''
       [identity_str (br_identity root), as_str (br_commit_oid root), gl_path gitlink,
        as_str (gl_gitlink_oid gitlink)]"

definition tree_evidence_id :: "sha256 \<Rightarrow> bound_revision \<Rightarrow> acquired_gitlink \<Rightarrow> string" where
  "tree_evidence_id hasher root gitlink =
     prefixed_domain_id hasher ''urn:codenoesis:boundary-evidence:sha256:''
       ''codenoesis.boundary-evidence.git-tree-entry/v1''
       [identity_str (br_identity root), as_str (br_commit_oid root), as_str (gl_containing_tree_oid gitlink),
        gl_path gitlink, ''160000'', as_str (gl_gitlink_oid gitlink)]"

definition gap_record_id :: "sha256 \<Rightarrow> string \<Rightarrow> string \<Rightarrow> string" where
  "gap_record_id hasher code subject_id =
     prefixed_domain_id hasher ''urn:codenoesis:boundary-gap:sha256:'' ''codenoesis.boundary-gap/v1''
       [code, subject_id]"

definition gap_record ::
  "sha256 \<Rightarrow> string \<Rightarrow> string \<times> string \<times> string list \<Rightarrow> boundary_gap" where
  "gap_record hasher path spec =
     (case spec of (code, subject_id, evidence_ids) \<Rightarrow>
       \<lparr>gap_id = gap_record_id hasher code subject_id, gap_code = code, gap_path = path,
        gap_subject_id = subject_id, gap_evidence_ids = evidence_ids\<rparr>)"

fun boundary_evidence_id :: "boundary_evidence \<Rightarrow> string" where
  "boundary_evidence_id (GitTreeEntry i _ _ _) = i"
| "boundary_evidence_id (GitmodulesEvidence i _ _ _) = i"

definition tree_evidence :: "sha256 \<Rightarrow> bound_revision \<Rightarrow> acquired_gitlink \<Rightarrow> boundary_evidence" where
  "tree_evidence hasher root gitlink =
     GitTreeEntry (tree_evidence_id hasher root gitlink) (gl_containing_tree_oid gitlink) (gl_path gitlink)
       (gl_gitlink_oid gitlink)"

definition declaration_evidence :: "gitmodules_declaration \<Rightarrow> boundary_evidence" where
  "declaration_evidence d = GitmodulesEvidence (gd_evidence_id d) (gd_blob_oid d) (gd_start_byte d) (gd_end_byte d)"

definition boundary_evidence_key :: "gitmodules_declaration \<Rightarrow> nat \<times> nat \<times> string" where
  "boundary_evidence_key d = (gd_start_byte d, gd_end_byte d, gd_evidence_id d)"

definition report_evidence ::
  "sha256 \<Rightarrow> bound_revision \<Rightarrow> acquired_gitlink list \<Rightarrow> gitmodules_declaration list \<Rightarrow> boundary_evidence list" where
  "report_evidence hasher root gitlinks declarations =
     map (tree_evidence hasher root) gitlinks @ map declaration_evidence (sort_key boundary_evidence_key declarations)"

section \<open>Gaps\<close>

definition not_analyzed :: string where "not_analyzed = ''boundary.nested_repository_not_analyzed''"
definition nested_unbound :: string where "nested_unbound = ''boundary.nested_repository_unbound''"
definition declaration_missing :: string where "declaration_missing = ''boundary.gitmodules_declaration_missing''"
definition key_unsupported :: string where "key_unsupported = ''boundary.gitmodules_key_unsupported''"
definition declaration_orphan :: string where "declaration_orphan = ''boundary.gitmodules_declaration_orphan''"

text \<open>The gap of a declaration with keys the reader does not interpret.\<close>

definition unsupported_gap :: "sha256 \<Rightarrow> string \<Rightarrow> gitmodules_declaration \<Rightarrow> boundary_gap list" where
  "unsupported_gap hasher path d =
     (if gd_unsupported_keys d \<noteq> []
      then [gap_record hasher path (key_unsupported, gd_declaration_id d, [gd_evidence_id d])] else [])"

text \<open>The state of a boundary and the gaps it opens, in the order the source pushes them.\<close>

definition boundary_gap_specs ::
  "string \<Rightarrow> string \<Rightarrow> string list \<Rightarrow> gitmodules_declaration option \<Rightarrow> bound_revision option \<Rightarrow>
   boundary_state \<times> (string \<times> string \<times> string list) list" where
  "boundary_gap_specs bid tree_ev evidence_ids declaration nested =
     (let (state, specs) =
        (if nested \<noteq> None then (ExplicitlyBound, [(not_analyzed, bid, [tree_ev])])
         else if declaration \<noteq> None then (DeclaredUnbound, [(nested_unbound, bid, evidence_ids)])
         else (UndeclaredUnbound, [(declaration_missing, bid, [tree_ev]), (nested_unbound, bid, [tree_ev])]))
      in (state, specs @ (if declaration = None \<and> nested \<noteq> None
                          then [(declaration_missing, bid, evidence_ids)] else [])))"

definition gitlink_boundary ::
  "sha256 \<Rightarrow> (string, gitmodules_declaration) btree \<Rightarrow> (string, bound_revision) btree \<Rightarrow>
   (string, string) btree \<Rightarrow> (string, string) btree \<Rightarrow> acquired_gitlink \<Rightarrow>
   (repository_boundary \<times> boundary_gap list, repository_boundary_error) result" where
  "gitlink_boundary hasher declaration_by_path nested_by_path boundary_id_by_path tree_evidence_by_path gitlink =
     and_then (ok_or InvalidReport (bt_get boundary_id_by_path (gl_path gitlink))) (\<lambda>bid.
     and_then (ok_or InvalidReport (bt_get tree_evidence_by_path (gl_path gitlink))) (\<lambda>tree_ev.
     let declaration = bt_get declaration_by_path (gl_path gitlink);
         nested = bt_get nested_by_path (gl_path gitlink);
         evidence_ids = tree_ev # (case declaration of None \<Rightarrow> [] | Some d \<Rightarrow> [gd_evidence_id d]);
         (state, specs) = boundary_gap_specs bid tree_ev evidence_ids declaration nested
     in if (case nested of None \<Rightarrow> False | Some n \<Rightarrow> br_commit_oid n \<noteq> gl_gitlink_oid gitlink)
        then Err InvalidReport
        else Ok (\<lparr>rb_boundary_id = bid, rb_path = gl_path gitlink, rb_gitlink_oid = gl_gitlink_oid gitlink,
                   rb_state = state, rb_declaration_id = map_option gd_declaration_id declaration,
                   rb_nested_repository = nested, rb_evidence_ids = evidence_ids, rb_coverage_gap_ids = []\<rparr>,
                 map (gap_record hasher (gl_path gitlink)) specs @
                 (case declaration of None \<Rightarrow> [] | Some d \<Rightarrow> unsupported_gap hasher (gl_path gitlink) d))))"

fun gitlink_boundaries ::
  "(acquired_gitlink \<Rightarrow> (repository_boundary \<times> boundary_gap list, repository_boundary_error) result) \<Rightarrow>
   acquired_gitlink list \<Rightarrow> (repository_boundary list \<times> boundary_gap list, repository_boundary_error) result" where
  "gitlink_boundaries f [] = Ok ([], [])"
| "gitlink_boundaries f (g # gs) =
     and_then (f g) (\<lambda>(b, gaps). and_then (gitlink_boundaries f gs) (\<lambda>(bs, more_gaps). Ok (b # bs, gaps @ more_gaps)))"

definition declaration_gaps :: "sha256 \<Rightarrow> string option \<Rightarrow> gitmodules_declaration \<Rightarrow> boundary_gap list" where
  "declaration_gaps hasher bid d =
     (if bid = None
      then gap_record hasher (gd_path d) (declaration_orphan, gd_declaration_id d, [gd_evidence_id d]) #
           unsupported_gap hasher (gd_path d) d
      else [])"

definition report_declaration :: "string option \<Rightarrow> gitmodules_declaration \<Rightarrow> boundary_declaration" where
  "report_declaration bid d =
     \<lparr>bd_declaration_id = gd_declaration_id d, bd_name_sha256 = gd_name_sha256 d, bd_path = gd_path d,
      bd_url_kind = gd_url_kind d, bd_url_sha256 = gd_url_sha256 d, bd_unsupported_keys = gd_unsupported_keys d,
      bd_boundary_id = bid, bd_evidence_id = gd_evidence_id d\<rparr>"

definition boundary_gap_key :: "boundary_gap \<Rightarrow> string \<times> string \<times> string" where
  "boundary_gap_key g = (gap_code g, gap_path g, gap_subject_id g)"

definition covers :: "repository_boundary \<Rightarrow> boundary_gap \<Rightarrow> bool" where
  "covers b g \<longleftrightarrow> gap_path g = rb_path b \<and>
     (gap_subject_id g = rb_boundary_id b \<or> rb_declaration_id b = Some (gap_subject_id g))"

definition attach_gaps :: "boundary_gap list \<Rightarrow> repository_boundary \<Rightarrow> repository_boundary" where
  "attach_gaps gaps b = b\<lparr>rb_coverage_gap_ids := map gap_id (filter (covers b) gaps)\<rparr>"

section \<open>Validation of the report\<close>

text \<open>A collection into a \<open>BTreeSet\<close> keeps the length exactly when nothing repeats.\<close>

definition all_unique :: "string list \<Rightarrow> bool" where
  "all_unique ids \<longleftrightarrow> distinct ids"

definition boundary_valid :: "string set \<Rightarrow> string set \<Rightarrow> string set \<Rightarrow> repository_boundary \<Rightarrow> bool" where
  "boundary_valid evidence_ids gap_ids declaration_ids b \<longleftrightarrow>
     rb_evidence_ids b \<noteq> [] \<and> rb_coverage_gap_ids b \<noteq> [] \<and>
     all_unique (rb_evidence_ids b) \<and> all_unique (rb_coverage_gap_ids b) \<and>
     set (rb_evidence_ids b) \<subseteq> evidence_ids \<and> set (rb_coverage_gap_ids b) \<subseteq> gap_ids \<and>
     (case rb_declaration_id b of None \<Rightarrow> True | Some i \<Rightarrow> i \<in> declaration_ids)"

definition declaration_valid ::
  "string set \<Rightarrow> (string, repository_boundary) btree \<Rightarrow> boundary_declaration \<Rightarrow> bool" where
  "declaration_valid evidence_ids boundary_by_id d \<longleftrightarrow>
     bd_evidence_id d \<in> evidence_ids \<and> \<not> any_pair (\<lambda>a b. a \<ge> b) (bd_unsupported_keys d) \<and>
     (case bd_boundary_id d of
        None \<Rightarrow> True
      | Some i \<Rightarrow>
          (case bt_get boundary_by_id i of
             None \<Rightarrow> False
           | Some b \<Rightarrow> rb_declaration_id b = Some (bd_declaration_id d)))"

definition boundary_gap_valid :: "string set \<Rightarrow> boundary_gap \<Rightarrow> bool" where
  "boundary_gap_valid evidence_ids g \<longleftrightarrow>
     gap_evidence_ids g \<noteq> [] \<and> all_unique (gap_evidence_ids g) \<and> set (gap_evidence_ids g) \<subseteq> evidence_ids"

definition validate_boundary_report :: "boundary_report \<Rightarrow> (unit, repository_boundary_error) result" where
  "validate_boundary_report report =
     (let boundary_ids = map rb_boundary_id (br_boundaries report);
          declaration_ids = map bd_declaration_id (br_declarations report);
          gap_ids = map gap_id (br_coverage_gaps report);
          evidence_ids = map boundary_evidence_id (br_evidence report);
          boundary_by_id = bt_collect (map (\<lambda>b. (rb_boundary_id b, b)) (br_boundaries report))
      in if \<not> distinct boundary_ids \<or> \<not> distinct declaration_ids \<or> \<not> distinct gap_ids \<or> \<not> distinct evidence_ids
         then Err InvalidReport
         else if \<exists>b \<in> set (br_boundaries report). \<not> boundary_valid (set evidence_ids) (set gap_ids) (set declaration_ids) b
         then Err InvalidReport
         else if \<exists>d \<in> set (br_declarations report). \<not> declaration_valid (set evidence_ids) boundary_by_id d
         then Err InvalidReport
         else if \<exists>g \<in> set (br_coverage_gaps report). \<not> boundary_gap_valid (set evidence_ids) g
         then Err InvalidReport
         else Ok ())"

section \<open>The report\<close>

definition sort_unsupported :: "gitmodules_declaration \<Rightarrow> gitmodules_declaration" where
  "sort_unsupported d = d\<lparr>gd_unsupported_keys := sort (gd_unsupported_keys d)\<rparr>"

text \<open>The records of the report, before validation: \<open>gitlinks\<close> and \<open>declarations\<close> are sorted.\<close>

definition assemble_report ::
  "sha256 \<Rightarrow> bound_revision \<Rightarrow> acquired_gitlink list \<Rightarrow> gitmodules_declaration list \<Rightarrow>
   (string, bound_revision) btree \<Rightarrow> (boundary_report, repository_boundary_error) result" where
  "assemble_report hasher root gitlinks declarations nested_by_path =
     (let declaration_by_path = bt_collect (map (\<lambda>d. (gd_path d, d)) declarations);
          boundary_id_by_path = bt_collect (map (\<lambda>g. (gl_path g, boundary_id hasher root g)) gitlinks);
          tree_evidence_by_path = bt_collect (map (\<lambda>g. (gl_path g, tree_evidence_id hasher root g)) gitlinks)
      in and_then (gitlink_boundaries
           (gitlink_boundary hasher declaration_by_path nested_by_path boundary_id_by_path tree_evidence_by_path)
           gitlinks) (\<lambda>(boundaries, gitlink_gaps).
         let gaps = sort_key boundary_gap_key (gitlink_gaps @
               concat (map (\<lambda>d. declaration_gaps hasher (bt_get boundary_id_by_path (gd_path d)) d) declarations))
         in Ok \<lparr>br_root_repository = root,
                 br_boundaries = map (attach_gaps gaps) boundaries,
                 br_declarations = map (\<lambda>d. report_declaration (bt_get boundary_id_by_path (gd_path d)) d) declarations,
                 br_coverage_gaps = gaps,
                 br_evidence = report_evidence hasher root gitlinks declarations\<rparr>))"

definition build_boundary_report ::
  "sha256 \<Rightarrow> bound_revision \<Rightarrow> acquired_gitlink list \<Rightarrow> gitmodules_declaration list \<Rightarrow> verified_nested list \<Rightarrow>
   (boundary_report, repository_boundary_error) result" where
  "build_boundary_report hasher root gitlinks0 parsed verified =
     and_then (check_boundary_limit GitlinkEntries (length gitlinks0)) (\<lambda>_.
     and_then (check_boundary_limit ExplicitNestedRepositories (length verified)) (\<lambda>_.
     if \<exists>g \<in> set gitlinks0. validate_canonical_relative_path (gl_path g) \<noteq> Ok () then Err InvalidReport
     else let gitlinks = sort_key gl_path gitlinks0 in
     if any_pair (\<lambda>a b. gl_path a = gl_path b) gitlinks then Err InvalidReport
     else let declarations = sort_key declaration_key (map sort_unsupported parsed);
              declaration_by_path = bt_collect (map (\<lambda>d. (gd_path d, d)) declarations);
              nested_by_path = bt_collect (map (\<lambda>n. (vn_boundary_path n, vn_bound_revision n)) verified) in
     if length declaration_by_path \<noteq> length parsed \<or> length nested_by_path \<noteq> length verified \<or>
        (\<exists>path \<in> set (bt_keys nested_by_path). path \<notin> gl_path ` set gitlinks)
     then Err InvalidReport
     else and_then (assemble_report hasher root gitlinks declarations nested_by_path) (\<lambda>report.
       if \<exists>b \<in> set (br_boundaries report). rb_coverage_gap_ids b = [] then Err InvalidReport
       else and_then (validate_boundary_report report) (\<lambda>_. Ok report))))"

section \<open>Collected maps\<close>

lemma fold_bt_put_keys: "set (map fst (fold (\<lambda>(k, v). bt_put k v) kvs m)) = fst ` set kvs \<union> set (map fst m)"
  by (induction kvs arbitrary: m) (auto simp: bt_put_keys simp del: set_map)

lemma bt_collect_keys: "set (bt_keys (bt_collect kvs)) = fst ` set kvs"
  using fold_bt_put_keys [of kvs "[]"] by (simp add: bt_keys_def bt_collect_def)

lemma bt_collect_length: "length (bt_collect kvs) = card (fst ` set kvs)"
proof -
  have "distinct (map fst (bt_collect kvs))"
    using bt_collect_wf [of kvs] by (simp add: bt_wf_def strict_sorted_iff)
  then have "length (bt_collect kvs) = card (set (map fst (bt_collect kvs)))"
    by (metis distinct_card length_map)
  then show ?thesis using bt_collect_keys [of kvs] by (simp add: bt_keys_def)
qed

lemma bt_collect_length_distinct: "length (bt_collect kvs) = length kvs \<longleftrightarrow> distinct (map fst kvs)"
  by (metis bt_collect_length card_distinct distinct_card length_map list.set_map)

lemma bt_collect_map_of: "distinct (map fst kvs) \<Longrightarrow> bt_get (bt_collect kvs) k = map_of kvs k"
  using bt_collect_get [of kvs k] map_of_eq_Some_iff [of kvs k]
  by (cases "map_of kvs k"; cases "bt_get (bt_collect kvs) k") auto

lemma map_of_Some_mem:
  "distinct (map f xs) \<Longrightarrow> map_of (map (\<lambda>x. (f x, g x)) xs) k = Some y \<longleftrightarrow> (\<exists>x \<in> set xs. f x = k \<and> g x = y)"
  by (induction xs) (auto simp: image_iff)

lemma map_of_None_mem: "map_of (map (\<lambda>x. (f x, g x)) xs) k = None \<longleftrightarrow> k \<notin> f ` set xs"
  by (induction xs) auto

lemma any_pair_sorted:
  "sorted (map f xs) \<Longrightarrow> any_pair (\<lambda>a b. f a = f b) xs \<longleftrightarrow> \<not> distinct (map f xs)" for f :: "'a \<Rightarrow> 'b :: linorder"
proof (induction "\<lambda>a b. f a = f b" xs rule: any_pair.induct)
  case (1 a b rest)
  have "f a \<in> f ` set (b # rest) \<longleftrightarrow> f a = f b" using "1.prems" by (auto intro: antisym)
  with 1 show ?case by auto
qed auto

section \<open>The assembled records\<close>

text \<open>The boundary and the gaps of one gitlink, from the data joined by path.\<close>

definition boundary_of ::
  "sha256 \<Rightarrow> bound_revision \<Rightarrow> (string \<rightharpoonup> gitmodules_declaration) \<Rightarrow> (string \<rightharpoonup> bound_revision) \<Rightarrow>
   acquired_gitlink \<Rightarrow> repository_boundary" where
  "boundary_of hasher root decl nested g =
     \<lparr>rb_boundary_id = boundary_id hasher root g, rb_path = gl_path g, rb_gitlink_oid = gl_gitlink_oid g,
      rb_state = (if nested (gl_path g) \<noteq> None then ExplicitlyBound
                  else if decl (gl_path g) \<noteq> None then DeclaredUnbound else UndeclaredUnbound),
      rb_declaration_id = map_option gd_declaration_id (decl (gl_path g)),
      rb_nested_repository = nested (gl_path g),
      rb_evidence_ids = tree_evidence_id hasher root g #
        (case decl (gl_path g) of None \<Rightarrow> [] | Some d \<Rightarrow> [gd_evidence_id d]),
      rb_coverage_gap_ids = []\<rparr>"

definition gaps_of ::
  "sha256 \<Rightarrow> bound_revision \<Rightarrow> (string \<rightharpoonup> gitmodules_declaration) \<Rightarrow> (string \<rightharpoonup> bound_revision) \<Rightarrow>
   acquired_gitlink \<Rightarrow> boundary_gap list" where
  "gaps_of hasher root decl nested g =
     map (gap_record hasher (gl_path g))
       (snd (boundary_gap_specs (boundary_id hasher root g) (tree_evidence_id hasher root g)
          (rb_evidence_ids (boundary_of hasher root decl nested g)) (decl (gl_path g)) (nested (gl_path g)))) @
     (case decl (gl_path g) of None \<Rightarrow> [] | Some d \<Rightarrow> unsupported_gap hasher (gl_path g) d)"

definition nested_matches :: "(string \<rightharpoonup> bound_revision) \<Rightarrow> acquired_gitlink \<Rightarrow> bool" where
  "nested_matches nested g \<longleftrightarrow> (\<forall>n. nested (gl_path g) = Some n \<longrightarrow> br_commit_oid n = gl_gitlink_oid g)"

lemma gitlink_boundary_eq:
  assumes "bt_get ids (gl_path g) = Some (boundary_id hasher root g)" "bt_get evs (gl_path g) = Some (tree_evidence_id hasher root g)"
    "\<And>k. bt_get dm k = decl k" "\<And>k. bt_get nm k = nested k"
  shows "gitlink_boundary hasher dm nm ids evs g =
    (if nested_matches nested g then Ok (boundary_of hasher root decl nested g, gaps_of hasher root decl nested g)
     else Err InvalidReport)"
  using assms
  by (auto simp: gitlink_boundary_def boundary_gap_specs_def boundary_of_def gaps_of_def nested_matches_def Let_def
      split: option.splits)

lemma gitlink_boundaries_eq:
  "(\<And>g. g \<in> set gs \<Longrightarrow> f g = (if P g then Ok (b g, k g) else Err InvalidReport)) \<Longrightarrow>
   gitlink_boundaries f gs = (if \<forall>g \<in> set gs. P g then Ok (map b gs, concat (map k gs)) else Err InvalidReport)"
  by (induction gs) auto

text \<open>The report of joined data; \<open>gitlinks\<close> and \<open>declarations\<close> have distinct paths.\<close>

definition all_gaps ::
  "sha256 \<Rightarrow> bound_revision \<Rightarrow> acquired_gitlink list \<Rightarrow> gitmodules_declaration list \<Rightarrow> (string \<rightharpoonup> bound_revision) \<Rightarrow>
   boundary_gap list" where
  "all_gaps hasher root gitlinks declarations nested =
     concat (map (gaps_of hasher root (map_of (map (\<lambda>d. (gd_path d, d)) declarations)) nested) gitlinks) @
     concat (map (\<lambda>d. declaration_gaps hasher
       (map_of (map (\<lambda>g. (gl_path g, boundary_id hasher root g)) gitlinks) (gd_path d)) d) declarations)"

definition joined_report ::
  "sha256 \<Rightarrow> bound_revision \<Rightarrow> acquired_gitlink list \<Rightarrow> gitmodules_declaration list \<Rightarrow> (string \<rightharpoonup> bound_revision) \<Rightarrow>
   boundary_report" where
  "joined_report hasher root gitlinks declarations nested =
     (let gaps = sort_key boundary_gap_key (all_gaps hasher root gitlinks declarations nested)
      in \<lparr>br_root_repository = root,
          br_boundaries = map (\<lambda>g. attach_gaps gaps
            (boundary_of hasher root (map_of (map (\<lambda>d. (gd_path d, d)) declarations)) nested g)) gitlinks,
          br_declarations = map (\<lambda>d. report_declaration
            (map_of (map (\<lambda>g. (gl_path g, boundary_id hasher root g)) gitlinks) (gd_path d)) d) declarations,
          br_coverage_gaps = gaps,
          br_evidence = report_evidence hasher root gitlinks declarations\<rparr>)"

lemma assemble_report_eq:
  assumes "distinct (map gl_path gitlinks)" "distinct (map gd_path declarations)" "\<And>k. bt_get nm k = nested k"
  shows "assemble_report hasher root gitlinks declarations nm =
    (if \<forall>g \<in> set gitlinks. nested_matches nested g then Ok (joined_report hasher root gitlinks declarations nested)
     else Err InvalidReport)"
proof -
  let ?ids = "bt_collect (map (\<lambda>g. (gl_path g, boundary_id hasher root g)) gitlinks)"
  let ?evs = "bt_collect (map (\<lambda>g. (gl_path g, tree_evidence_id hasher root g)) gitlinks)"
  let ?dm = "bt_collect (map (\<lambda>d. (gd_path d, d)) declarations)"
  let ?decl = "map_of (map (\<lambda>d. (gd_path d, d)) declarations)"
  have get: "bt_get ?ids k = map_of (map (\<lambda>g. (gl_path g, boundary_id hasher root g)) gitlinks) k"
    "bt_get ?evs k = map_of (map (\<lambda>g. (gl_path g, tree_evidence_id hasher root g)) gitlinks) k"
    "bt_get ?dm k = ?decl k" for k
    using assms(1,2) by (simp_all add: bt_collect_map_of comp_def)
  have "gitlink_boundary hasher ?dm nm ?ids ?evs g =
      (if nested_matches nested g then Ok (boundary_of hasher root ?decl nested g, gaps_of hasher root ?decl nested g)
       else Err InvalidReport)" if "g \<in> set gitlinks" for g
    using that get assms(3) by (intro gitlink_boundary_eq) (auto simp: map_of_Some_mem [OF assms(1)])
  then have "gitlink_boundaries (gitlink_boundary hasher ?dm nm ?ids ?evs) gitlinks =
      (if \<forall>g \<in> set gitlinks. nested_matches nested g
       then Ok (map (boundary_of hasher root ?decl nested) gitlinks, concat (map (gaps_of hasher root ?decl nested) gitlinks))
       else Err InvalidReport)"
    by (rule gitlink_boundaries_eq)
  then show ?thesis
    by (simp add: assemble_report_def get joined_report_def all_gaps_def comp_def Let_def)
qed

section \<open>Accepted inputs\<close>

text \<open>The conditions under which the inputs can be joined.\<close>

definition nested_map :: "verified_nested list \<Rightarrow> string \<rightharpoonup> bound_revision" where
  "nested_map verified = map_of (map (\<lambda>n. (vn_boundary_path n, vn_bound_revision n)) verified)"

definition joinable :: "acquired_gitlink list \<Rightarrow> gitmodules_declaration list \<Rightarrow> verified_nested list \<Rightarrow> bool" where
  "joinable gitlinks parsed verified \<longleftrightarrow>
     (\<forall>g \<in> set gitlinks. canonical_path (gl_path g)) \<and> distinct (map gl_path gitlinks) \<and>
     distinct (map gd_path parsed) \<and> distinct (map vn_boundary_path verified) \<and>
     vn_boundary_path ` set verified \<subseteq> gl_path ` set gitlinks \<and>
     (\<forall>g \<in> set gitlinks. nested_matches (nested_map verified) g)"

definition report_of ::
  "sha256 \<Rightarrow> bound_revision \<Rightarrow> acquired_gitlink list \<Rightarrow> gitmodules_declaration list \<Rightarrow> verified_nested list \<Rightarrow> boundary_report" where
  "report_of hasher root gitlinks parsed verified =
     joined_report hasher root (sort_key gl_path gitlinks) (sort_key declaration_key (map sort_unsupported parsed))
       (nested_map verified)"

lemma distinct_map_sort_key: "distinct (map f (sort_key k xs)) \<longleftrightarrow> distinct (map f xs)"
  by (metis distinct_map distinct_sort set_sort)

lemma sorted_declarations_paths:
  "distinct (map gd_path (sort_key declaration_key (map sort_unsupported parsed))) \<longleftrightarrow> distinct (map gd_path parsed)"
  by (simp add: distinct_map_sort_key comp_def sort_unsupported_def)

lemma gaps_of_nonempty: "filter (covers (boundary_of hasher root decl nested g)) (gaps_of hasher root decl nested g) \<noteq> []"
  by (auto simp: gaps_of_def boundary_of_def boundary_gap_specs_def covers_def gap_record_def)

text \<open>Every boundary is covered by a gap of its own, so the last check of the source never fails.\<close>

lemma joined_report_covered:
  assumes "b \<in> set (br_boundaries (joined_report hasher root gitlinks declarations nested))"
  shows "rb_coverage_gap_ids b \<noteq> []"
proof -
  let ?decl = "map_of (map (\<lambda>d. (gd_path d, d)) declarations)"
  from assms obtain g where g: "g \<in> set gitlinks"
    "b = attach_gaps (sort_key boundary_gap_key (all_gaps hasher root gitlinks declarations nested)) (boundary_of hasher root ?decl nested g)"
    by (auto simp: joined_report_def Let_def)
  from gaps_of_nonempty [of hasher root ?decl nested g] obtain x
    where "x \<in> set (gaps_of hasher root ?decl nested g)" "covers (boundary_of hasher root ?decl nested g) x"
    unfolding filter_empty_conv by blast
  with g show ?thesis by (auto simp: attach_gaps_def all_gaps_def filter_empty_conv)
qed

lemma build_boundary_report_eq:
  "build_boundary_report hasher root gitlinks parsed verified =
     and_then (check_boundary_limit GitlinkEntries (length gitlinks)) (\<lambda>_.
     and_then (check_boundary_limit ExplicitNestedRepositories (length verified)) (\<lambda>_.
     if joinable gitlinks parsed verified
     then and_then (validate_boundary_report (report_of hasher root gitlinks parsed verified))
       (\<lambda>_. Ok (report_of hasher root gitlinks parsed verified))
     else Err InvalidReport))"
proof -
  let ?gs = "sort_key gl_path gitlinks" and ?ds = "sort_key declaration_key (map sort_unsupported parsed)"
  let ?nm = "bt_collect (map (\<lambda>n. (vn_boundary_path n, vn_bound_revision n)) verified)"
  have gs: "any_pair (\<lambda>a b. gl_path a = gl_path b) ?gs \<longleftrightarrow> \<not> distinct (map gl_path gitlinks)"
    using any_pair_sorted [of gl_path ?gs] by (simp add: distinct_map_sort_key)
  have ds: "length (bt_collect (map (\<lambda>d. (gd_path d, d)) ?ds)) = length parsed \<longleftrightarrow> distinct (map gd_path parsed)"
    using bt_collect_length_distinct [of "map (\<lambda>d. (gd_path d, d)) ?ds"]
    by (simp add: comp_def sorted_declarations_paths)
  have nm: "length ?nm = length verified \<longleftrightarrow> distinct (map vn_boundary_path verified)"
    using bt_collect_length_distinct [of "map (\<lambda>n. (vn_boundary_path n, vn_bound_revision n)) verified"]
    by (simp add: comp_def)
  have keys: "set (bt_keys ?nm) = vn_boundary_path ` set verified" by (simp add: bt_collect_keys image_image)
  have asm: "assemble_report hasher root ?gs ?ds ?nm =
      (if \<forall>g \<in> set gitlinks. nested_matches (nested_map verified) g then Ok (report_of hasher root gitlinks parsed verified)
       else Err InvalidReport)"
    if "distinct (map gl_path gitlinks)" "distinct (map gd_path parsed)" "distinct (map vn_boundary_path verified)"
  proof -
    have "distinct (map gl_path ?gs)" using that(1) by (simp add: distinct_map_sort_key)
    moreover have "bt_get ?nm k = nested_map verified k" for k
      using that(3) by (simp add: bt_collect_map_of nested_map_def comp_def)
    ultimately show ?thesis
      using assemble_report_eq [of ?gs ?ds ?nm "nested_map verified" hasher root] that(2)
      by (simp add: sorted_declarations_paths report_of_def)
  qed
  have covered: "\<not> (\<exists>b \<in> set (br_boundaries (report_of hasher root gitlinks parsed verified)). rb_coverage_gap_ids b = [])"
    using joined_report_covered unfolding report_of_def by blast
  show ?thesis
    unfolding build_boundary_report_def Let_def gs
    using asm covered
    by (auto simp: ds nm keys joinable_def canonical_path_def simp del: boundary_maximum.simps intro!: and_then_cong)
qed

section \<open>What a report says\<close>

text \<open>
  The gaps a report must open: a nested repository is unbound or not analysed, a gitlink is not
  declared, a declaration has no gitlink, or a declaration carries keys that are not interpreted.
\<close>

definition expected_gap_keys ::
  "sha256 \<Rightarrow> bound_revision \<Rightarrow> acquired_gitlink list \<Rightarrow> gitmodules_declaration list \<Rightarrow> (string \<rightharpoonup> bound_revision) \<Rightarrow>
   (string \<times> string \<times> string) set" where
  "expected_gap_keys hasher root gitlinks parsed nested =
     (\<lambda>g. (nested_unbound, gl_path g, boundary_id hasher root g)) ` {g \<in> set gitlinks. nested (gl_path g) = None} \<union>
     (\<lambda>g. (not_analyzed, gl_path g, boundary_id hasher root g)) ` {g \<in> set gitlinks. nested (gl_path g) \<noteq> None} \<union>
     (\<lambda>g. (declaration_missing, gl_path g, boundary_id hasher root g)) `
       {g \<in> set gitlinks. gl_path g \<notin> gd_path ` set parsed} \<union>
     (\<lambda>d. (declaration_orphan, gd_path d, gd_declaration_id d)) `
       {d \<in> set parsed. gd_path d \<notin> gl_path ` set gitlinks} \<union>
     (\<lambda>d. (key_unsupported, gd_path d, gd_declaration_id d)) ` {d \<in> set parsed. gd_unsupported_keys d \<noteq> []}"

lemma gap_record_simps [simp]:
  "boundary_gap_key (gap_record hasher path (code, subject, ids)) = (code, path, subject)"
  "gap_code (gap_record hasher path (code, subject, ids)) = code"
  "gap_subject_id (gap_record hasher path (code, subject, ids)) = subject"
  "gap_path (gap_record hasher path (code, subject, ids)) = path"
  "gap_evidence_ids (gap_record hasher path (code, subject, ids)) = ids"
  "gap_id (gap_record hasher path (code, subject, ids)) = gap_record_id hasher code subject"
  by (simp_all add: boundary_gap_key_def gap_record_def)

lemma unsupported_gap_keys:
  "boundary_gap_key ` set (unsupported_gap hasher path d) =
     (if gd_unsupported_keys d = [] then {} else {(key_unsupported, path, gd_declaration_id d)})"
  by (simp add: unsupported_gap_def)

lemma gaps_of_keys:
  "boundary_gap_key ` set (gaps_of hasher root decl nested g) =
     (if nested (gl_path g) = None then {(nested_unbound, gl_path g, boundary_id hasher root g)}
      else {(not_analyzed, gl_path g, boundary_id hasher root g)}) \<union>
     (case decl (gl_path g) of
        None \<Rightarrow> {(declaration_missing, gl_path g, boundary_id hasher root g)}
      | Some d \<Rightarrow> if gd_unsupported_keys d = [] then {} else {(key_unsupported, gl_path g, gd_declaration_id d)})"
  by (auto simp: gaps_of_def boundary_gap_specs_def image_Un unsupported_gap_keys split: option.splits)

lemma declaration_gaps_keys:
  "boundary_gap_key ` set (declaration_gaps hasher bid d) =
     (if bid = None then insert (declaration_orphan, gd_path d, gd_declaration_id d)
        (if gd_unsupported_keys d = [] then {} else {(key_unsupported, gd_path d, gd_declaration_id d)}) else {})"
  by (cases "bid = None")
    (simp_all only: declaration_gaps_def if_True if_False simp_thms list.set image_insert image_empty gap_record_simps unsupported_gap_keys)

lemma gaps_by_kind:
  "(\<exists>g \<in> G. A g \<or> B g \<or> C g \<or> (\<exists>d \<in> D. p d = q g \<and> U d)) \<or> (\<exists>d \<in> D. p d \<notin> q ` G \<and> (V d \<or> U d)) \<longleftrightarrow>
   (\<exists>g \<in> G. A g) \<or> (\<exists>g \<in> G. B g) \<or> (\<exists>g \<in> G. C g) \<or> (\<exists>d \<in> D. p d \<notin> q ` G \<and> V d) \<or> (\<exists>d \<in> D. U d)"
  by (simp add: image_iff) blast

lemma all_gaps_keys:
  assumes "distinct (map gl_path gitlinks)" "distinct (map gd_path declarations)"
  shows "boundary_gap_key ` set (all_gaps hasher root gitlinks declarations nested) =
    expected_gap_keys hasher root gitlinks declarations nested" (is "?L = ?R")
proof (rule set_eqI)
  fix k
  let ?decl = "map_of (map (\<lambda>d. (gd_path d, d)) declarations)"
  let ?ids = "map_of (map (\<lambda>g. (gl_path g, boundary_id hasher root g)) gitlinks)"
  have decl: "?decl p = Some d \<longleftrightarrow> d \<in> set declarations \<and> gd_path d = p" for p d
    using map_of_Some_mem [OF assms(2), of "\<lambda>d. d"] by auto
  have undecl: "?decl p = None \<longleftrightarrow> p \<notin> gd_path ` set declarations" for p by (simp add: map_of_None_mem)
  have g: "k \<in> boundary_gap_key ` set (gaps_of hasher root ?decl nested g) \<longleftrightarrow>
      nested (gl_path g) = None \<and> k = (nested_unbound, gl_path g, boundary_id hasher root g) \<or>
      nested (gl_path g) \<noteq> None \<and> k = (not_analyzed, gl_path g, boundary_id hasher root g) \<or>
      gl_path g \<notin> gd_path ` set declarations \<and> k = (declaration_missing, gl_path g, boundary_id hasher root g) \<or>
      (\<exists>d \<in> set declarations. gd_path d = gl_path g \<and> gd_unsupported_keys d \<noteq> [] \<and>
        k = (key_unsupported, gd_path d, gd_declaration_id d))" for g
  proof (cases "?decl (gl_path g)")
    case None
    then have "gl_path g \<notin> gd_path ` set declarations" using undecl by blast
    moreover from this have "gd_path e \<noteq> gl_path g" if "e \<in> set declarations" for e
      using that by (metis imageI)
    ultimately show ?thesis unfolding gaps_of_keys None by auto
  next
    case (Some d)
    then have d: "e \<in> set declarations \<and> gd_path e = gl_path g \<longleftrightarrow> e = d" for e
      using decl [of "gl_path g" e] by auto
    then have "gl_path g \<in> gd_path ` set declarations" by (metis imageI)
    moreover have "(\<exists>e \<in> set declarations. gd_path e = gl_path g \<and> gd_unsupported_keys e \<noteq> [] \<and>
        k = (key_unsupported, gd_path e, gd_declaration_id e)) \<longleftrightarrow>
        gd_unsupported_keys d \<noteq> [] \<and> k = (key_unsupported, gl_path g, gd_declaration_id d)"
      using d by (metis (no_types))
    ultimately show ?thesis unfolding gaps_of_keys Some by auto
  qed
  have d: "k \<in> boundary_gap_key ` set (declaration_gaps hasher (?ids (gd_path d)) d) \<longleftrightarrow>
      gd_path d \<notin> gl_path ` set gitlinks \<and> (k = (declaration_orphan, gd_path d, gd_declaration_id d) \<or>
        gd_unsupported_keys d \<noteq> [] \<and> k = (key_unsupported, gd_path d, gd_declaration_id d))" for d
    unfolding declaration_gaps_keys by (simp add: map_of_None_mem)
  have "k \<in> ?L \<longleftrightarrow> (\<exists>g \<in> set gitlinks. k \<in> boundary_gap_key ` set (gaps_of hasher root ?decl nested g)) \<or>
      (\<exists>d \<in> set declarations. k \<in> boundary_gap_key ` set (declaration_gaps hasher (?ids (gd_path d)) d))"
    by (auto simp: all_gaps_def)
  also have "\<dots> \<longleftrightarrow> k \<in> ?R"
    unfolding g d gaps_by_kind expected_gap_keys_def by (simp add: image_iff Bex_def)
  finally show "k \<in> ?L \<longleftrightarrow> k \<in> ?R" .
qed

text \<open>What the boundaries and declarations of a report say of the inputs.\<close>

definition report_describes ::
  "sha256 \<Rightarrow> bound_revision \<Rightarrow> acquired_gitlink list \<Rightarrow> gitmodules_declaration list \<Rightarrow> verified_nested list \<Rightarrow>
   boundary_report \<Rightarrow> bool" where
  "report_describes hasher root gitlinks parsed verified r \<longleftrightarrow>
     br_root_repository r = root \<and>
     sorted_wrt (<) (map rb_path (br_boundaries r)) \<and>
     (\<lambda>b. (rb_path b, rb_gitlink_oid b)) ` set (br_boundaries r) = (\<lambda>g. (gl_path g, gl_gitlink_oid g)) ` set gitlinks \<and>
     (\<forall>b \<in> set (br_boundaries r).
        rb_nested_repository b = nested_map verified (rb_path b) \<and>
        (\<forall>n. rb_nested_repository b = Some n \<longrightarrow> br_commit_oid n = rb_gitlink_oid b) \<and>
        rb_state b = (if rb_nested_repository b \<noteq> None then ExplicitlyBound
                      else if rb_path b \<in> gd_path ` set parsed then DeclaredUnbound else UndeclaredUnbound)) \<and>
     sorted_wrt (<) (map bd_path (br_declarations r)) \<and>
     (\<lambda>d. (bd_path d, bd_declaration_id d)) ` set (br_declarations r) =
       (\<lambda>d. (gd_path d, gd_declaration_id d)) ` set parsed \<and>
     (\<forall>d \<in> set (br_declarations r). bd_boundary_id d \<noteq> None \<longleftrightarrow> bd_path d \<in> gl_path ` set gitlinks) \<and>
     boundary_gap_key ` set (br_coverage_gaps r) = expected_gap_keys hasher root gitlinks parsed (nested_map verified) \<and>
     sorted (map boundary_gap_key (br_coverage_gaps r))"

lemma sort_key_strict: "distinct (map f xs) \<Longrightarrow> sorted_wrt (<) (map f (sort_key f xs))"
  by (simp add: strict_sorted_iff distinct_map_sort_key)

lemma sort_unsupported_simps [simp]:
  "gd_path (sort_unsupported d) = gd_path d" "gd_declaration_id (sort_unsupported d) = gd_declaration_id d"
  "gd_evidence_id (sort_unsupported d) = gd_evidence_id d" "gd_blob_oid (sort_unsupported d) = gd_blob_oid d"
  "gd_start_byte (sort_unsupported d) = gd_start_byte d" "gd_end_byte (sort_unsupported d) = gd_end_byte d"
  "gd_unsupported_keys (sort_unsupported d) = sort (gd_unsupported_keys d)"
  by (simp_all add: sort_unsupported_def)

lemma expected_gap_keys_sorted:
  "expected_gap_keys hasher root (sort_key gl_path gitlinks) (sort_key declaration_key (map sort_unsupported parsed)) nested =
   expected_gap_keys hasher root gitlinks parsed nested"
proof -
  have "sort ks = [] \<longleftrightarrow> ks = []" for ks :: "unsupported_key list"
    by (metis length_0_conv length_sort)
  then show ?thesis by (simp add: expected_gap_keys_def image_image Compr_image_eq)
qed

lemma report_of_describes:
  assumes "joinable gitlinks parsed verified"
  shows "report_describes hasher root gitlinks parsed verified (report_of hasher root gitlinks parsed verified)"
proof -
  let ?gs = "sort_key gl_path gitlinks" and ?ds = "sort_key declaration_key (map sort_unsupported parsed)"
  let ?r = "report_of hasher root gitlinks parsed verified"
  have d: "distinct (map gl_path gitlinks)" "distinct (map gd_path parsed)"
    and m: "\<forall>g \<in> set gitlinks. nested_matches (nested_map verified) g"
    using assms by (auto simp: joinable_def)
  have "sorted_wrt (<) (map gd_path ?ds)"
    using d(2) by (intro sorted_key_paths) (simp add: comp_def)
  moreover have "map bd_path (br_declarations ?r) = map gd_path ?ds"
    by (simp add: report_of_def joined_report_def Let_def comp_def report_declaration_def)
  moreover have "map rb_path (br_boundaries ?r) = map gl_path ?gs"
    by (simp add: report_of_def joined_report_def Let_def comp_def attach_gaps_def boundary_of_def)
  moreover have "boundary_gap_key ` set (br_coverage_gaps ?r) = expected_gap_keys hasher root gitlinks parsed (nested_map verified)"
    using all_gaps_keys [of ?gs ?ds hasher root "nested_map verified"] d
    by (simp add: report_of_def joined_report_def Let_def distinct_map_sort_key comp_def expected_gap_keys_sorted)
  moreover have "(\<lambda>b. (rb_path b, rb_gitlink_oid b)) ` set (br_boundaries ?r) = (\<lambda>g. (gl_path g, gl_gitlink_oid g)) ` set gitlinks"
    by (simp add: report_of_def joined_report_def Let_def image_image attach_gaps_def boundary_of_def)
  moreover have "(\<lambda>d. (bd_path d, bd_declaration_id d)) ` set (br_declarations ?r) = (\<lambda>d. (gd_path d, gd_declaration_id d)) ` set parsed"
    by (simp add: report_of_def joined_report_def Let_def image_image report_declaration_def)
  moreover have "\<forall>d \<in> set (br_declarations ?r). bd_boundary_id d \<noteq> None \<longleftrightarrow> bd_path d \<in> gl_path ` set gitlinks"
    using map_of_None_mem [of gl_path "boundary_id hasher root" ?gs]
    by (auto simp: report_of_def joined_report_def Let_def report_declaration_def simp del: not_None_eq)
  moreover have "\<forall>b \<in> set (br_boundaries ?r). rb_nested_repository b = nested_map verified (rb_path b) \<and>
        (\<forall>n. rb_nested_repository b = Some n \<longrightarrow> br_commit_oid n = rb_gitlink_oid b) \<and>
        rb_state b = (if rb_nested_repository b \<noteq> None then ExplicitlyBound
                      else if rb_path b \<in> gd_path ` set parsed then DeclaredUnbound else UndeclaredUnbound)"
    using m map_of_None_mem [of gd_path "\<lambda>d. d" ?ds]
    by (auto simp: report_of_def joined_report_def Let_def attach_gaps_def boundary_of_def nested_matches_def
        image_image simp del: not_None_eq)
  moreover have "br_root_repository ?r = root" "sorted (map boundary_gap_key (br_coverage_gaps ?r))"
    by (simp_all add: report_of_def joined_report_def Let_def)
  ultimately show ?thesis
    unfolding report_describes_def using sort_key_strict [OF d(1)] by presburger
qed

text \<open>All references of a report lead to records of the report, and no identifier is used twice.\<close>

definition references_closed :: "boundary_report \<Rightarrow> bool" where
  "references_closed r \<longleftrightarrow> validate_boundary_report r = Ok ()"

section \<open>Soundness\<close>


end
