(* ===== verification/Constant_Values.thy ===== *)
theory Constant_Values
  imports Git_Objects "HOL-Library.Signed_Division"
begin

text \<open>
  Values and arithmetic of the safe constant evaluator
  (\<open>codenoesis-lang-rust/src/constant_evaluation.rs\<close>, with the limits of
  \<open>codenoesis-domain/src/s4_r16.rs\<close>): the fixed-width primitive types, integer literals, and the
  operators, which compute in 128 bits and then check the range of the type. An \<open>i128\<close> is an \<open>int\<close>
  and a \<open>u128\<close> a \<open>nat\<close>; every operation of the source that checks its result at 128 bits does so here.
\<close>

section \<open>Types and limits\<close>

datatype primitive_type = PT_Bool | PT_Signed nat | PT_Unsigned nat

definition parse_primitive :: "string \<Rightarrow> primitive_type option" where
  "parse_primitive v =
     (if v = ''bool'' then Some PT_Bool
      else if v = ''i8'' then Some (PT_Signed 8)
      else if v = ''i16'' then Some (PT_Signed 16)
      else if v = ''i32'' then Some (PT_Signed 32)
      else if v = ''i64'' then Some (PT_Signed 64)
      else if v = ''i128'' then Some (PT_Signed 128)
      else if v = ''u8'' then Some (PT_Unsigned 8)
      else if v = ''u16'' then Some (PT_Unsigned 16)
      else if v = ''u32'' then Some (PT_Unsigned 32)
      else if v = ''u64'' then Some (PT_Unsigned 64)
      else if v = ''u128'' then Some (PT_Unsigned 128)
      else None)"

datatype constant_value_kind = Boolean_kind | Integer_kind

fun primitive_kind :: "primitive_type \<Rightarrow> constant_value_kind" where
  "primitive_kind PT_Bool = Boolean_kind"
| "primitive_kind (PT_Signed _) = Integer_kind"
| "primitive_kind (PT_Unsigned _) = Integer_kind"

definition i128_min :: int where "i128_min = - (2 ^ 127)"
definition i128_max :: int where "i128_max = 2 ^ 127 - 1"
definition u128_max :: nat where "u128_max = 2 ^ 128 - 1"

fun signed_bounds :: "primitive_type \<Rightarrow> (int \<times> int) option" where
  "signed_bounds (PT_Signed bits) =
     (if bits = 128 then Some (i128_min, i128_max)
      else let m = 2 ^ (bits - 1) - 1 in Some (- m - 1, m))"
| "signed_bounds PT_Bool = None"
| "signed_bounds (PT_Unsigned _) = None"

fun unsigned_maximum :: "primitive_type \<Rightarrow> nat option" where
  "unsigned_maximum (PT_Unsigned bits) = (if bits = 128 then Some u128_max else Some (2 ^ bits - 1))"
| "unsigned_maximum PT_Bool = None"
| "unsigned_maximum (PT_Signed _) = None"

datatype constant_value = CV_Bool bool | CV_Signed int | CV_Unsigned nat

definition show_int :: "int \<Rightarrow> string" where
  "show_int i = (if i < 0 then CHR ''-'' # show_nat (nat (- i)) else show_nat (nat i))"

fun canonical :: "constant_value \<Rightarrow> string" where
  "canonical (CV_Bool b) = (if b then ''true'' else ''false'')"
| "canonical (CV_Signed v) = show_int v"
| "canonical (CV_Unsigned v) = show_nat v"

datatype constant_limit =
    CandidatesPerSource | SyntaxNodesPerExpression | DirectDependencies | DependencyLevels
  | VariantsPerEnum | EvaluatedEntities | EvaluationRelationships | DependencyReferences
  | DerivationInputReferences

fun constant_maximum :: "constant_limit \<Rightarrow> nat" where
  "constant_maximum CandidatesPerSource = 4096"
| "constant_maximum SyntaxNodesPerExpression = 256"
| "constant_maximum DirectDependencies = 256"
| "constant_maximum DependencyLevels = 64"
| "constant_maximum VariantsPerEnum = 4096"
| "constant_maximum EvaluatedEntities = 200000"
| "constant_maximum EvaluationRelationships = 200000"
| "constant_maximum DependencyReferences = 400000"
| "constant_maximum DerivationInputReferences = 1000000"

fun constant_limit_str :: "constant_limit \<Rightarrow> string" where
  "constant_limit_str CandidatesPerSource = ''candidate_declared_values_per_source''"
| "constant_limit_str SyntaxNodesPerExpression = ''syntax_nodes_per_expression''"
| "constant_limit_str DirectDependencies = ''direct_dependencies_per_subject''"
| "constant_limit_str DependencyLevels = ''dependency_levels''"
| "constant_limit_str VariantsPerEnum = ''variants_per_enum''"
| "constant_limit_str EvaluatedEntities = ''evaluated_entities_total''"
| "constant_limit_str EvaluationRelationships = ''evaluation_relationships_total''"
| "constant_limit_str DependencyReferences = ''evaluation_dependency_references''"
| "constant_limit_str DerivationInputReferences = ''derivation_input_references''"

section \<open>Failures\<close>

datatype evaluation_failure =
    Expression_failure | Dependency_failure | Arithmetic_failure | Limit_failure constant_limit nat nat

fun capability :: "evaluation_failure \<Rightarrow> string" where
  "capability Expression_failure = ''rust.constant_expression_not_evaluated''"
| "capability Dependency_failure = ''rust.constant_dependency_not_evaluated''"
| "capability (Limit_failure _ _ _) = ''rust.constant_dependency_not_evaluated''"
| "capability Arithmetic_failure = ''rust.constant_arithmetic_not_defined''"

text \<open>\<open>enforce_constant_limit\<close>, with its error mapped by \<open>EvaluationFailure::from_limit\<close>.\<close>

definition enforce_limit :: "constant_limit \<Rightarrow> nat \<Rightarrow> (unit, evaluation_failure) result" where
  "enforce_limit limit observed =
     (if observed > constant_maximum limit then Err (Limit_failure limit (constant_maximum limit) observed)
      else Ok ())"

text \<open>\<open>EvaluationFailure::constant_error\<close>: only a limit fails the whole extraction.\<close>

fun constant_error :: "evaluation_failure \<Rightarrow> (constant_limit \<times> nat \<times> nat) option" where
  "constant_error (Limit_failure limit m observed) = Some (limit, m, observed)"
| "constant_error _ = None"

section \<open>Integer literals\<close>

text \<open>\<open>char::to_digit\<close> for a radix of at most 16; \<open>is_digit\<close> tests that it exists.\<close>

definition to_digit :: "nat \<Rightarrow> char \<Rightarrow> nat option" where
  "to_digit radix c =
     (let n = of_char c in
      let d = (if 48 \<le> n \<and> n \<le> 57 then Some (n - 48)
               else if 97 \<le> n \<and> n \<le> 122 then Some (n - 87)
               else if 65 \<le> n \<and> n \<le> 90 then Some (n - 55) else None) in
      case d of None \<Rightarrow> None | Some v \<Rightarrow> if v < radix then Some v else None)"

text \<open>\<open>u128::from_str_radix\<close> on a non-empty text of digits.\<close>

definition from_str_radix :: "nat \<Rightarrow> string \<Rightarrow> nat option" where
  "from_str_radix radix digits =
     (let v = foldl (\<lambda>acc c. acc * radix + the (to_digit radix c)) 0 digits
      in if v \<le> u128_max then Some v else None)"

definition literal_radix :: "string \<Rightarrow> nat \<times> nat" where
  "literal_radix literal =
     (if starts_with ''0x'' literal then (16, 2)
      else if starts_with ''0o'' literal then (8, 2)
      else if starts_with ''0b'' literal then (2, 2)
      else (10, 0))"

definition digit_or_separator :: "nat \<Rightarrow> char \<Rightarrow> bool" where
  "digit_or_separator radix c \<longleftrightarrow> to_digit radix c \<noteq> None \<or> c = CHR ''_''"

fun expected_suffix :: "primitive_type \<Rightarrow> string option" where
  "expected_suffix PT_Bool = None"
| "expected_suffix (PT_Signed bits) = Some (CHR ''i'' # show_nat bits)"
| "expected_suffix (PT_Unsigned bits) = Some (CHR ''u'' # show_nat bits)"

text \<open>The value of a magnitude of the type, with its sign: the last \<open>match\<close> of \<open>parse_integer\<close>.\<close>

fun signed_magnitude :: "primitive_type \<Rightarrow> bool \<Rightarrow> nat \<Rightarrow> (constant_value, evaluation_failure) result" where
  "signed_magnitude PT_Bool negative magnitude = Err Expression_failure"
| "signed_magnitude (PT_Unsigned bits) negative magnitude =
     (let m = (case unsigned_maximum (PT_Unsigned bits) of None \<Rightarrow> 0 | Some m \<Rightarrow> m) in
      if negative \<or> magnitude > m then Err Arithmetic_failure else Ok (CV_Unsigned magnitude))"
| "signed_magnitude (PT_Signed bits) negative magnitude =
     (let (minimum, m) = (case signed_bounds (PT_Signed bits) of None \<Rightarrow> (0, 0) | Some b \<Rightarrow> b) in
      if negative then
        if int magnitude > \<bar>minimum\<bar> then Err Arithmetic_failure
        else if int magnitude = \<bar>minimum\<bar> then Ok (CV_Signed minimum)
        else if int magnitude > i128_max then Err Arithmetic_failure
        else Ok (CV_Signed (- int magnitude))
      else if int magnitude > (if m < 0 then 0 else m) then Err Arithmetic_failure
      else if int magnitude > i128_max then Err Arithmetic_failure
      else Ok (CV_Signed (int magnitude)))"

definition parse_integer ::
  "string \<Rightarrow> primitive_type \<Rightarrow> bool \<Rightarrow> (constant_value, evaluation_failure) result" where
  "parse_integer literal primitive negative =
     (let (radix, digits_start) = literal_radix literal;
          body = drop digits_start literal;
          digits = filter (\<lambda>c. c \<noteq> CHR ''_'') (takeWhile (digit_or_separator radix) body);
          suffix = dropWhile (digit_or_separator radix) body
      in case expected_suffix primitive of
           None \<Rightarrow> Err Expression_failure
         | Some expected \<Rightarrow>
             if digits = [] \<or> suffix \<noteq> [] \<and> suffix \<noteq> expected then Err Expression_failure
             else and_then (ok_or Expression_failure (from_str_radix radix digits))
               (signed_magnitude primitive negative))"

section \<open>Operators\<close>

text \<open>The operators, which the source keeps as the static texts of \<open>operator_str\<close>.\<close>

datatype operator =
    OrOr | AndAnd | EqEq | NotEq | Less | LessEq | Greater | GreaterEq | BitOr | BitXor | BitAnd
  | Plus | Minus | Times | Divide | Remainder | Bang

fun operator_str :: "operator \<Rightarrow> string" where
  "operator_str OrOr = ''||''"
| "operator_str AndAnd = ''&&''"
| "operator_str EqEq = ''==''"
| "operator_str NotEq = ''!=''"
| "operator_str Less = ''<''"
| "operator_str LessEq = ''<=''"
| "operator_str Greater = ''>''"
| "operator_str GreaterEq = ''>=''"
| "operator_str BitOr = ''|''"
| "operator_str BitXor = ''^''"
| "operator_str BitAnd = ''&''"
| "operator_str Plus = ''+''"
| "operator_str Minus = ''-''"
| "operator_str Times = ''*''"
| "operator_str Divide = ''/''"
| "operator_str Remainder = ''%''"
| "operator_str Bang = ''!''"

fun binary_precedence :: "operator \<Rightarrow> nat option" where
  "binary_precedence OrOr = Some 1"
| "binary_precedence AndAnd = Some 2"
| "binary_precedence EqEq = Some 3"
| "binary_precedence NotEq = Some 3"
| "binary_precedence Less = Some 3"
| "binary_precedence LessEq = Some 3"
| "binary_precedence Greater = Some 3"
| "binary_precedence GreaterEq = Some 3"
| "binary_precedence BitOr = Some 4"
| "binary_precedence BitXor = Some 5"
| "binary_precedence BitAnd = Some 6"
| "binary_precedence Plus = Some 7"
| "binary_precedence Minus = Some 7"
| "binary_precedence Times = Some 8"
| "binary_precedence Divide = Some 8"
| "binary_precedence Remainder = Some 8"
| "binary_precedence Bang = None"

text \<open>The checked operations of \<open>i128\<close> and \<open>u128\<close>; signed division rounds towards zero.\<close>

definition i128_checked :: "int \<Rightarrow> int option" where
  "i128_checked v = (if i128_min \<le> v \<and> v \<le> i128_max then Some v else None)"

definition u128_checked :: "nat \<Rightarrow> nat option" where
  "u128_checked v = (if v \<le> u128_max then Some v else None)"

definition i128_checked_div :: "int \<Rightarrow> int \<Rightarrow> int option" where
  "i128_checked_div l r = (if r = 0 then None else i128_checked (l sdiv r))"

definition i128_checked_rem :: "int \<Rightarrow> int \<Rightarrow> int option" where
  "i128_checked_rem l r = (if r = 0 \<or> l = i128_min \<and> r = - 1 then None else Some (l smod r))"

definition check_range :: "constant_value \<Rightarrow> primitive_type \<Rightarrow> (constant_value, evaluation_failure) result" where
  "check_range v primitive =
     (if (case (v, primitive) of
            (CV_Bool _, PT_Bool) \<Rightarrow> True
          | (CV_Signed i, PT_Signed _) \<Rightarrow>
              (case signed_bounds primitive of None \<Rightarrow> False | Some (lo, hi) \<Rightarrow> lo \<le> i \<and> i \<le> hi)
          | (CV_Unsigned n, PT_Unsigned _) \<Rightarrow>
              (case unsigned_maximum primitive of None \<Rightarrow> False | Some m \<Rightarrow> n \<le> m)
          | _ \<Rightarrow> False)
      then Ok v else Err Arithmetic_failure)"

fun value_matches :: "constant_value \<Rightarrow> primitive_type \<Rightarrow> bool" where
  "value_matches (CV_Bool _) PT_Bool = True"
| "value_matches (CV_Signed _) (PT_Signed _) = True"
| "value_matches (CV_Unsigned _) (PT_Unsigned _) = True"
| "value_matches _ _ = False"

fun apply_bool :: "operator \<Rightarrow> bool \<Rightarrow> bool \<Rightarrow> (constant_value, evaluation_failure) result" where
  "apply_bool AndAnd l r = Ok (CV_Bool (l \<and> r))"
| "apply_bool OrOr l r = Ok (CV_Bool (l \<or> r))"
| "apply_bool EqEq l r = Ok (CV_Bool (l = r))"
| "apply_bool NotEq l r = Ok (CV_Bool (l \<noteq> r))"
| "apply_bool Less l r = Ok (CV_Bool (\<not> l \<and> r))"
| "apply_bool LessEq l r = Ok (CV_Bool (\<not> l \<or> r))"
| "apply_bool Greater l r = Ok (CV_Bool (l \<and> \<not> r))"
| "apply_bool GreaterEq l r = Ok (CV_Bool (l \<or> \<not> r))"
| "apply_bool _ l r = Err Expression_failure"

text \<open>The comparisons, which return at once.\<close>

fun compare_op :: "operator \<Rightarrow> 'a :: linorder \<Rightarrow> 'a \<Rightarrow> bool option" where
  "compare_op EqEq l r = Some (l = r)"
| "compare_op NotEq l r = Some (l \<noteq> r)"
| "compare_op Less l r = Some (l < r)"
| "compare_op LessEq l r = Some (l \<le> r)"
| "compare_op Greater l r = Some (l > r)"
| "compare_op GreaterEq l r = Some (l \<ge> r)"
| "compare_op _ l r = None"

text \<open>The arithmetic of each signedness: no such operator, no result, or a result.\<close>

fun signed_op :: "operator \<Rightarrow> int \<Rightarrow> int \<Rightarrow> int option option" where
  "signed_op Plus l r = Some (i128_checked (l + r))"
| "signed_op Minus l r = Some (i128_checked (l - r))"
| "signed_op Times l r = Some (i128_checked (l * r))"
| "signed_op Divide l r = Some (i128_checked_div l r)"
| "signed_op Remainder l r = Some (i128_checked_rem l r)"
| "signed_op BitAnd l r = Some (Some (l AND r))"
| "signed_op BitOr l r = Some (Some (l OR r))"
| "signed_op BitXor l r = Some (Some (l XOR r))"
| "signed_op _ l r = None"

fun unsigned_op :: "operator \<Rightarrow> nat \<Rightarrow> nat \<Rightarrow> nat option option" where
  "unsigned_op Plus l r = Some (u128_checked (l + r))"
| "unsigned_op Minus l r = Some (if r \<le> l then Some (l - r) else None)"
| "unsigned_op Times l r = Some (u128_checked (l * r))"
| "unsigned_op Divide l r = Some (if r = 0 then None else Some (l div r))"
| "unsigned_op Remainder l r = Some (if r = 0 then None else Some (l mod r))"
| "unsigned_op BitAnd l r = Some (Some (l AND r))"
| "unsigned_op BitOr l r = Some (Some (l OR r))"
| "unsigned_op BitXor l r = Some (Some (l XOR r))"
| "unsigned_op _ l r = None"

fun apply_binary ::
  "operator \<Rightarrow> constant_value \<Rightarrow> constant_value \<Rightarrow> primitive_type \<Rightarrow> (constant_value, evaluation_failure) result" where
  "apply_binary op (CV_Bool l) (CV_Bool r) primitive = apply_bool op l r"
| "apply_binary op (CV_Signed l) (CV_Signed r) primitive =
     (case compare_op op l r of
        Some b \<Rightarrow> Ok (CV_Bool b)
      | None \<Rightarrow>
          and_then (ok_or Expression_failure (signed_op op l r)) (\<lambda>v.
          and_then (ok_or Arithmetic_failure v) (\<lambda>i. check_range (CV_Signed i) primitive)))"
| "apply_binary op (CV_Unsigned l) (CV_Unsigned r) primitive =
     (case compare_op op l r of
        Some b \<Rightarrow> Ok (CV_Bool b)
      | None \<Rightarrow>
          and_then (ok_or Expression_failure (unsigned_op op l r)) (\<lambda>v.
          and_then (ok_or Arithmetic_failure v) (\<lambda>n. check_range (CV_Unsigned n) primitive)))"
| "apply_binary op _ _ primitive = Err Expression_failure"

fun checked_not :: "constant_value \<Rightarrow> primitive_type \<Rightarrow> (constant_value, evaluation_failure) result" where
  "checked_not (CV_Bool b) primitive = Ok (CV_Bool (\<not> b))"
| "checked_not (CV_Signed i) primitive = check_range (CV_Signed (NOT i)) primitive"
| "checked_not (CV_Unsigned n) primitive =
     and_then (ok_or Expression_failure (unsigned_maximum primitive)) (\<lambda>m.
     Ok (CV_Unsigned ((u128_max - n) AND m)))"

fun checked_negate :: "constant_value \<Rightarrow> primitive_type \<Rightarrow> (constant_value, evaluation_failure) result" where
  "checked_negate (CV_Signed i) primitive =
     and_then (ok_or Arithmetic_failure (i128_checked (- i))) (\<lambda>v. check_range (CV_Signed v) primitive)"
| "checked_negate _ primitive = Err Expression_failure"

fun checked_increment :: "constant_value \<Rightarrow> primitive_type \<Rightarrow> (constant_value, evaluation_failure) result" where
  "checked_increment (CV_Signed i) primitive =
     and_then (ok_or Arithmetic_failure (i128_checked (i + 1))) (\<lambda>v. check_range (CV_Signed v) primitive)"
| "checked_increment (CV_Unsigned n) primitive =
     and_then (ok_or Arithmetic_failure (u128_checked (n + 1))) (\<lambda>v. check_range (CV_Unsigned v) primitive)"
| "checked_increment (CV_Bool _) primitive = Err Expression_failure"

fun zero_value :: "primitive_type \<Rightarrow> (constant_value, evaluation_failure) result" where
  "zero_value (PT_Signed _) = Ok (CV_Signed 0)"
| "zero_value (PT_Unsigned _) = Ok (CV_Unsigned 0)"
| "zero_value PT_Bool = Err Expression_failure"

section \<open>Typing\<close>

text \<open>The values of a type, as a range of the mathematical integers.\<close>

definition in_width :: "nat \<Rightarrow> int \<Rightarrow> bool" where
  "in_width bits i \<longleftrightarrow> - (2 ^ (bits - 1)) \<le> i \<and> i < 2 ^ (bits - 1)"

fun fits :: "constant_value \<Rightarrow> primitive_type \<Rightarrow> bool" where
  "fits (CV_Bool _) PT_Bool = True"
| "fits (CV_Signed i) (PT_Signed bits) = in_width bits i"
| "fits (CV_Unsigned n) (PT_Unsigned bits) = (n < 2 ^ bits)"
| "fits _ _ = False"

lemma u128_max_iff: "n \<le> u128_max \<longleftrightarrow> n < 2 ^ 128"
  by (simp add: u128_max_def less_eq_Suc_le [symmetric] flip: less_Suc_eq_le)

lemma nat_le_pow_iff: "n \<le> 2 ^ b - Suc 0 \<longleftrightarrow> n < (2 :: nat) ^ b"
  by (metis Suc_pred less_Suc_eq_le zero_less_numeral zero_less_power)

lemma check_range_Ok [simp]: "check_range v p = Ok w \<longleftrightarrow> w = v \<and> fits v p"
proof (cases v; cases p)
  fix i bits assume "v = CV_Signed i" "p = PT_Signed bits"
  moreover have "2 * (2 :: int) ^ 126 = 2 ^ 127" by simp
  ultimately show ?thesis
    by (auto simp: check_range_def in_width_def i128_min_def i128_max_def Let_def)
next
  fix n bits assume "v = CV_Unsigned n" "p = PT_Unsigned bits"
  then show ?thesis by (auto simp: check_range_def u128_max_iff nat_le_pow_iff)
qed (auto simp: check_range_def)

lemma check_range_Err [simp]: "check_range v p = Err e \<longleftrightarrow> e = Arithmetic_failure \<and> \<not> fits v p"
  using check_range_Ok [of v p v] by (cases "check_range v p") (auto simp: check_range_def split: if_splits)

lemma check_range_not_Panic [simp]: "check_range v p \<noteq> Panic"
  by (simp add: check_range_def)

lemma check_range_eq: "check_range v p = (if fits v p then Ok v else Err Arithmetic_failure)"
  by (cases "check_range v p") auto

lemma fits_matches: "fits v p \<Longrightarrow> value_matches v p"
  by (cases "(v, p)" rule: fits.cases) auto

text \<open>
  What an expression of a type can evaluate to: a value of the type, or a truth value that a
  comparison of its operands gave.
\<close>

definition expression_value :: "constant_value \<Rightarrow> primitive_type \<Rightarrow> bool" where
  "expression_value v p \<longleftrightarrow> fits v p \<or> (\<exists>b. v = CV_Bool b)"

lemma expression_value_fits: "expression_value v p \<Longrightarrow> value_matches v p \<Longrightarrow> fits v p"
  by (cases "(v, p)" rule: value_matches.cases) (auto simp: expression_value_def)

lemma apply_binary_value: "apply_binary op l r p = Ok v \<Longrightarrow> expression_value v p"
  by (cases "(op, l, r, p)" rule: apply_binary.cases; cases op)
    (auto simp: expression_value_def result_iffs)

lemma checked_not_value: "checked_not v p = Ok w \<Longrightarrow> expression_value w p"
proof (cases v)
  case (CV_Unsigned n)
  assume "checked_not v p = Ok w"
  with CV_Unsigned obtain bits m where "p = PT_Unsigned bits" "unsigned_maximum p = Some m"
    "w = CV_Unsigned ((u128_max - n) AND m)"
    by (cases p) (auto simp: result_iffs)
  moreover from this have "m < 2 ^ bits" by (auto simp: u128_max_def split: if_splits)
  moreover have "(u128_max - n) AND m \<le> m" by (simp add: and.commute and_nat_def nat_le_iff AND_upper1)
  ultimately show ?thesis by (auto simp: expression_value_def intro: le_less_trans)
qed (auto simp: expression_value_def)

lemma checked_negate_value: "checked_negate v p = Ok w \<Longrightarrow> fits w p"
  by (cases v) (auto simp: result_iffs)

lemma checked_increment_value: "checked_increment v p = Ok w \<Longrightarrow> fits w p"
  by (cases v) (auto simp: result_iffs)

lemma zero_value_fits: "zero_value p = Ok v \<Longrightarrow> fits v p"
  by (cases p) (auto simp: in_width_def)

lemma signed_magnitude_fits: "signed_magnitude p negative m = Ok v \<Longrightarrow> fits v p"
proof (cases p)
  case (PT_Unsigned bits)
  assume "signed_magnitude p negative m = Ok v"
  with PT_Unsigned show ?thesis by (auto simp: Let_def u128_max_iff nat_le_pow_iff not_less split: if_splits)
next
  case (PT_Signed bits)
  assume "signed_magnitude p negative m = Ok v"
  moreover have "- (2 ^ k) \<le> int m" "- int m < 2 ^ k" for k
    by (smt (verit) of_nat_0_le_iff zero_less_power)+
  ultimately show ?thesis using PT_Signed
    by (auto simp: Let_def in_width_def i128_min_def i128_max_def not_less split: if_splits)
qed auto

lemma parse_integer_fits: "parse_integer literal p negative = Ok v \<Longrightarrow> fits v p"
  by (auto simp: parse_integer_def Let_def result_iffs split: prod.splits option.splits if_splits
      intro: signed_magnitude_fits)

lemma value_ops_not_Panic [simp]:
  "apply_binary op l r p \<noteq> Panic" "checked_not v p \<noteq> Panic" "checked_negate v p \<noteq> Panic"
  "checked_increment v p \<noteq> Panic" "zero_value p \<noteq> Panic" "enforce_limit limit n \<noteq> Panic"
  "signed_magnitude p neg m \<noteq> Panic" "parse_integer literal p neg \<noteq> Panic"
proof -
  show "apply_binary op l r p \<noteq> Panic"
    by (cases "(op, l, r, p)" rule: apply_binary.cases; cases op) (auto simp: result_iffs split: option.splits)
  show "signed_magnitude p neg m \<noteq> Panic" for p neg m by (cases p) (auto simp: Let_def split: prod.splits)
  then show "parse_integer literal p neg \<noteq> Panic"
    by (auto simp: parse_integer_def Let_def result_iffs split: prod.splits option.splits)
  show "checked_not v p \<noteq> Panic" "checked_negate v p \<noteq> Panic" "checked_increment v p \<noteq> Panic"
    by (cases v; auto simp: result_iffs)+
  show "zero_value p \<noteq> Panic" by (cases p) auto
qed (simp_all add: enforce_limit_def)

section \<open>Arithmetic at the width of the type\<close>

text \<open>The checked operations of the integer type of a given width, as the language defines them.\<close>

fun checked_op :: "nat \<Rightarrow> operator \<Rightarrow> int \<Rightarrow> int \<Rightarrow> int option" where
  "checked_op bits Plus l r = (if in_width bits (l + r) then Some (l + r) else None)"
| "checked_op bits Minus l r = (if in_width bits (l - r) then Some (l - r) else None)"
| "checked_op bits Times l r = (if in_width bits (l * r) then Some (l * r) else None)"
| "checked_op bits Divide l r = (if r \<noteq> 0 \<and> in_width bits (l sdiv r) then Some (l sdiv r) else None)"
| "checked_op bits Remainder l r =
     (if r = 0 \<or> l = - (2 ^ (bits - 1)) \<and> r = - 1 then None else Some (l smod r))"
| "checked_op bits BitAnd l r = Some (l AND r)"
| "checked_op bits BitOr l r = Some (l OR r)"
| "checked_op bits BitXor l r = Some (l XOR r)"
| "checked_op bits _ l r = None"

lemma in_width_signed_take_bit: "in_width bits i \<longleftrightarrow> signed_take_bit (bits - 1) i = i"
  by (simp add: in_width_def signed_take_bit_int_eq_self_iff)

lemma in_width_bitwise:
  assumes "in_width bits l" "in_width bits r"
  shows "in_width bits (l AND r)" "in_width bits (l OR r)" "in_width bits (l XOR r)"
  using assms unfolding in_width_signed_take_bit bit_eq_iff
  by (auto simp: bit_signed_take_bit_iff bit_and_iff bit_or_iff bit_xor_iff)

lemma in_width_smod: "in_width bits r \<Longrightarrow> r \<noteq> 0 \<Longrightarrow> in_width bits (l smod r)"
  using smod_int_range [of r l] by (auto simp: in_width_def)

lemma in_width_i128: "in_width bits i \<Longrightarrow> bits \<le> 128 \<Longrightarrow> i128_checked i = Some i"
proof -
  assume "in_width bits i" "bits \<le> 128"
  moreover from this(2) have "(2 :: int) ^ (bits - 1) \<le> 2 ^ 127" by (intro power_increasing) auto
  ultimately show ?thesis by (auto simp: in_width_def i128_checked_def i128_min_def i128_max_def)
qed

lemma i128_checked_range:
  "bits \<le> 128 \<Longrightarrow> and_then (ok_or Arithmetic_failure (i128_checked i)) (\<lambda>v. check_range (CV_Signed v) (PT_Signed bits)) =
    (if in_width bits i then Ok (CV_Signed i) else Err Arithmetic_failure)"
  using in_width_i128 [of bits i] by (auto simp: i128_checked_def check_range_eq)

lemma apply_signed_width:
  assumes "bits \<le> 128" "in_width bits l" "in_width bits r" "signed_op op l r \<noteq> None"
    and "op = Remainder \<longrightarrow> l = - (2 ^ (bits - 1)) \<longrightarrow> r = - 1 \<longrightarrow> bits = 128"
  shows "apply_binary op (CV_Signed l) (CV_Signed r) (PT_Signed bits) =
    (case checked_op bits op l r of None \<Rightarrow> Err Arithmetic_failure | Some i \<Rightarrow> Ok (CV_Signed i))"
proof -
  note range = i128_checked_range [OF assms(1)]
  show ?thesis
  proof (cases op)
    case Remainder
    have "i128_min = - (2 ^ (bits - 1))" if "bits = 128" using that by (simp add: i128_min_def)
    moreover have "bits = 128" if "l = i128_min" "bits \<noteq> 0"
    proof (rule ccontr)
      assume "bits \<noteq> 128"
      then have "(2 :: int) ^ (bits - 1) < 2 ^ 127" using assms(1) that(2) by (intro power_strict_increasing) auto
      with assms(2) that(1) show False by (simp add: in_width_def i128_min_def)
    qed
    moreover have "l \<noteq> i128_min" if "bits = 0"
      using assms(2) that by (auto simp: in_width_def i128_min_def)
    ultimately have same: "(r = 0 \<or> l = i128_min \<and> r = - 1) = (r = 0 \<or> l = - (2 ^ (bits - 1)) \<and> r = - 1)"
      using assms(5) Remainder by metis
    show ?thesis
    proof (cases "r = 0 \<or> l = i128_min \<and> r = - 1")
      case True
      with same Remainder show ?thesis by (simp add: i128_checked_rem_def)
    next
      case False
      then have "in_width bits (l smod r)" using in_width_smod [OF assms(3)] by blast
      with False same Remainder show ?thesis by (simp add: i128_checked_rem_def check_range_eq)
    qed
  next
    case Divide
    then show ?thesis using range [of "l sdiv r"] by (auto simp: i128_checked_div_def)
  qed (use assms(4) range in_width_bitwise [OF assms(2,3)] in \<open>auto simp: check_range_eq\<close>)
qed

section \<open>Properties\<close>

text \<open>
  C35. Arithmetic on signed constants is the checked arithmetic of the type: for every width up to 128
  and operands of that width, an operator gives the result of the checked operation of the type, or
  an arithmetic failure when that operation has none. The one exception is a remainder of the
  minimum by minus one in a type of fewer than 128 bits.
\<close>

theorem apply_binary_checked_width:
  assumes "bits \<le> 128" "in_width bits l" "in_width bits r" "signed_op op l r \<noteq> None"
    and "op \<noteq> Remainder \<or> l \<noteq> - (2 ^ (bits - 1)) \<or> r \<noteq> - 1 \<or> bits = 128"
  shows "apply_binary op (CV_Signed l) (CV_Signed r) (PT_Signed bits) =
    (case checked_op bits op l r of None \<Rightarrow> Err Arithmetic_failure | Some i \<Rightarrow> Ok (CV_Signed i))"
  using assms by (intro apply_signed_width) auto

theorem apply_binary_checked_width_witness:
  "apply_binary Plus (CV_Signed 100) (CV_Signed 100) (PT_Signed 8) = Err Arithmetic_failure \<and>
   apply_binary Divide (CV_Signed (- 7)) (CV_Signed 2) (PT_Signed 8) = Ok (CV_Signed (- 3))"
  using apply_binary_checked_width [of 8 100 100 Plus] apply_binary_checked_width [of 8 "- 7" 2 Divide]
  by (simp add: in_width_def signed_divide_int_def)

text \<open>
  C40. The exception: the remainder of the minimum by minus one evaluates to zero in every signed type
  of fewer than 128 bits, where the checked operation of the type overflows and has no result.
\<close>

theorem remainder_of_minimum:
  assumes "bits < 128"
  shows "apply_binary Remainder (CV_Signed (- (2 ^ (bits - 1)))) (CV_Signed (- 1)) (PT_Signed bits) = Ok (CV_Signed 0) \<and>
    checked_op bits Remainder (- (2 ^ (bits - 1))) (- 1) = None"
proof -
  from assms have "(2 :: int) ^ (bits - 1) < 2 ^ 127" by (intro power_strict_increasing) auto
  then have "- (2 ^ (bits - 1)) \<noteq> i128_min" by (simp add: i128_min_def)
  then show ?thesis
    by (simp add: i128_checked_rem_def check_range_eq signed_modulo_int_def in_width_def)
qed

theorem remainder_of_minimum_witness:
  "apply_binary Remainder (CV_Signed (- 128)) (CV_Signed (- 1)) (PT_Signed 8) = Ok (CV_Signed 0)"
  using remainder_of_minimum [of 8] by simp

end
