(* ===== verification/Constant_Tokens.thy ===== *)
theory Constant_Tokens
  imports Constant_Values
begin

text \<open>
  The tokenizer of the safe constant evaluator (\<open>tokenize\<close> and \<open>token_end\<close> of
  \<open>constant_evaluation.rs\<close>). A text is read character by character: \<open>chars_of\<close> is \<open>str::chars\<close>, each
  character as its UTF-8 bytes, and the position of the source is the list of the characters left.
  The Unicode tables behind \<open>char::is_alphabetic\<close> and \<open>char::is_alphanumeric\<close> are a parameter
  beyond ASCII.
\<close>

section \<open>Characters\<close>

function chars_of :: "string \<Rightarrow> string list" where
  "chars_of s =
     (case utf8_width (map of_char s) of None \<Rightarrow> [] | Some w \<Rightarrow> take w s # chars_of (drop w s))"
  by pat_completeness auto

termination
proof (relation "measure length")
  show "(drop w s, s) \<in> measure length" if "utf8_width (map of_char s) = Some w" for s w
    using utf8_width_bounds [OF that] by auto
qed simp

declare chars_of.simps [simp del]

definition scalar :: "string \<Rightarrow> nat" where
  "scalar c = (case utf8_decode (map of_char c) of Some (n # _) \<Rightarrow> n | _ \<Rightarrow> 0)"

record unicode =
  uc_alphabetic :: "nat \<Rightarrow> bool"
  uc_numeric :: "nat \<Rightarrow> bool"

text \<open>The property \<open>White_Space\<close>, which \<open>char::is_whitespace\<close> tests.\<close>

definition is_whitespace :: "string \<Rightarrow> bool" where
  "is_whitespace c \<longleftrightarrow>
     (let n = scalar c in
      9 \<le> n \<and> n \<le> 13 \<or> n = 32 \<or> n = 133 \<or> n = 160 \<or> n = 5760 \<or> 8192 \<le> n \<and> n \<le> 8202 \<or>
      n = 8232 \<or> n = 8233 \<or> n = 8239 \<or> n = 8287 \<or> n = 12288)"

definition ascii_letter :: "nat \<Rightarrow> bool" where
  "ascii_letter n \<longleftrightarrow> 65 \<le> n \<and> n \<le> 90 \<or> 97 \<le> n \<and> n \<le> 122"

definition ascii_number :: "nat \<Rightarrow> bool" where
  "ascii_number n \<longleftrightarrow> 48 \<le> n \<and> n \<le> 57"

definition is_alphabetic :: "unicode \<Rightarrow> string \<Rightarrow> bool" where
  "is_alphabetic uc c \<longleftrightarrow> (if scalar c < 128 then ascii_letter (scalar c) else uc_alphabetic uc (scalar c))"

definition is_alphanumeric :: "unicode \<Rightarrow> string \<Rightarrow> bool" where
  "is_alphanumeric uc c \<longleftrightarrow>
     is_alphabetic uc c \<or> (if scalar c < 128 then ascii_number (scalar c) else uc_numeric uc (scalar c))"

section \<open>Tokens\<close>

datatype token =
    T_Bool bool | T_Integer string | T_Identifier string | T_Operator operator
  | T_LeftParenthesis | T_RightParenthesis

text \<open>The operators of two characters are tried before those of one.\<close>

definition double_operators :: "operator list" where
  "double_operators = [AndAnd, OrOr, EqEq, NotEq, LessEq, GreaterEq]"

definition double_operator :: "string \<Rightarrow> operator option" where
  "double_operator rest = List.find (\<lambda>op. starts_with (operator_str op) rest) double_operators"

definition single_operator :: "string \<Rightarrow> operator option" where
  "single_operator c =
     (if c = ''+'' then Some Plus
      else if c = ''-'' then Some Minus
      else if c = ''*'' then Some Times
      else if c = ''/'' then Some Divide
      else if c = ''%'' then Some Remainder
      else if c = ''&'' then Some BitAnd
      else if c = ''|'' then Some BitOr
      else if c = ''^'' then Some BitXor
      else if c = ''!'' then Some Bang
      else if c = ''<'' then Some Less
      else if c = ''>'' then Some Greater
      else None)"

definition integer_char :: "string \<Rightarrow> bool" where
  "integer_char c \<longleftrightarrow> scalar c < 128 \<and> (ascii_letter (scalar c) \<or> ascii_number (scalar c)) \<or> c = ''_''"

definition name_char :: "unicode \<Rightarrow> string \<Rightarrow> bool" where
  "name_char uc c \<longleftrightarrow> c = ''_'' \<or> is_alphanumeric uc c"

definition word_token :: "string \<Rightarrow> token" where
  "word_token v = (if v = ''true'' then T_Bool True else if v = ''false'' then T_Bool False else T_Identifier v)"

text \<open>
  One turn of the loop of \<open>tokenize\<close> on a non-empty rest: the token it pushes, if any, and the
  characters left. A word or number ends where \<open>token_end\<close> finds the first other character.
\<close>

definition next_token ::
  "unicode \<Rightarrow> string \<Rightarrow> string list \<Rightarrow> (token option \<times> string list, evaluation_failure) result" where
  "next_token uc c cs =
     (if is_whitespace c then Ok (None, cs)
      else if c = ''('' then Ok (Some T_LeftParenthesis, cs)
      else if c = '')'' then Ok (Some T_RightParenthesis, cs)
      else case double_operator (concat (c # cs)) of
        Some op \<Rightarrow> Ok (Some (T_Operator op), drop 1 cs)
      | None \<Rightarrow>
          (case single_operator c of
             Some op \<Rightarrow> Ok (Some (T_Operator op), cs)
           | None \<Rightarrow>
               if scalar c < 128 \<and> ascii_number (scalar c) then
                 Ok (Some (T_Integer (c @ concat (takeWhile integer_char cs))), dropWhile integer_char cs)
               else if c = ''_'' \<or> is_alphabetic uc c then
                 Ok (Some (word_token (c @ concat (takeWhile (name_char uc) cs))), dropWhile (name_char uc) cs)
               else if c = '':'' then Err Dependency_failure
               else Err Expression_failure))"

lemma next_token_shorter: "next_token uc c cs = Ok (t, rest) \<Longrightarrow> length rest \<le> length cs"
  by (auto simp: next_token_def length_dropWhile_le split: if_splits option.splits)

function token_loop :: "unicode \<Rightarrow> string list \<Rightarrow> (token list, evaluation_failure) result" where
  "token_loop uc [] = Ok []"
| "token_loop uc (c # cs) =
     (case next_token uc c cs of
        Ok (t, rest) \<Rightarrow>
          and_then (token_loop uc rest) (\<lambda>ts. Ok (case t of None \<Rightarrow> ts | Some t \<Rightarrow> t # ts))
      | Err e \<Rightarrow> Err e
      | Panic \<Rightarrow> Panic)"
  by pat_completeness auto

termination
  by (relation "measure (length \<circ> snd)") (auto dest: next_token_shorter simp: less_Suc_eq_le)

text \<open>An identifier before a parenthesis is a call.\<close>

fun has_call :: "token list \<Rightarrow> bool" where
  "has_call (T_Identifier n # T_LeftParenthesis # ts) = True"
| "has_call (t # ts) = has_call ts"
| "has_call [] = False"

definition tokenize :: "unicode \<Rightarrow> string \<Rightarrow> (token list, evaluation_failure) result" where
  "tokenize uc source =
     and_then (token_loop uc (chars_of source)) (\<lambda>ts.
     if ts = [] then Err Expression_failure
     else if has_call ts then Err Expression_failure
     else Ok ts)"

section \<open>Rendering\<close>

text \<open>The text of a token, and of a token list with a blank after every token.\<close>

fun token_str :: "token \<Rightarrow> string" where
  "token_str (T_Bool b) = (if b then ''true'' else ''false'')"
| "token_str (T_Integer v) = v"
| "token_str (T_Identifier v) = v"
| "token_str (T_Operator op) = operator_str op"
| "token_str T_LeftParenthesis = ''(''"
| "token_str T_RightParenthesis = '')''"

definition render_tokens :: "token list \<Rightarrow> string" where
  "render_tokens ts = concat (map (\<lambda>t. token_str t @ '' '') ts)"

definition letter_char :: "char \<Rightarrow> bool" where
  "letter_char c \<longleftrightarrow> ascii_letter (of_char c) \<or> c = CHR ''_''"

definition word_char :: "char \<Rightarrow> bool" where
  "word_char c \<longleftrightarrow> letter_char c \<or> ascii_number (of_char c)"

text \<open>The tokens a text can hold, with names of ASCII characters.\<close>

fun token_ok :: "token \<Rightarrow> bool" where
  "token_ok (T_Integer (c # v)) \<longleftrightarrow> ascii_number (of_char c) \<and> list_all word_char v"
| "token_ok (T_Integer []) \<longleftrightarrow> False"
| "token_ok (T_Identifier (c # v)) \<longleftrightarrow>
     letter_char c \<and> list_all word_char v \<and> c # v \<noteq> ''true'' \<and> c # v \<noteq> ''false''"
| "token_ok (T_Identifier []) \<longleftrightarrow> False"
| "token_ok _ \<longleftrightarrow> True"

definition singles :: "string \<Rightarrow> string list" where
  "singles s = map (\<lambda>c. [c]) s"

lemma singles_simps [simp]:
  "singles [] = []" "singles (c # s) = [c] # singles s" "singles (s @ t) = singles s @ singles t"
  "concat (singles s) = s"
  by (induction s) (auto simp: singles_def)

lemma chars_of_ascii: "list_all (\<lambda>c. of_char c < (128 :: nat)) s \<Longrightarrow> chars_of s = singles s"
  by (induction s) (simp_all add: chars_of.simps [of "[]"] chars_of.simps [of "_ # _"])

lemma scalar_single: "of_char c < (128 :: nat) \<Longrightarrow> scalar [c] = of_char c"
  by (simp add: scalar_def)

lemma word_char_ascii: "word_char c \<Longrightarrow> of_char c < (128 :: nat)"
  by (auto simp: word_char_def letter_char_def ascii_letter_def ascii_number_def)

lemma integer_char_single: "word_char c \<Longrightarrow> integer_char [c]"
  using word_char_ascii [of c]
  by (auto simp: integer_char_def scalar_single word_char_def letter_char_def)

lemma name_char_single: "word_char c \<Longrightarrow> name_char uc [c]"
  using word_char_ascii [of c]
  by (auto simp: name_char_def is_alphanumeric_def is_alphabetic_def scalar_single word_char_def letter_char_def)

lemma blank_chars: "\<not> integer_char '' ''" "\<not> name_char uc '' ''"
  by (simp_all add: integer_char_def name_char_def is_alphanumeric_def is_alphabetic_def scalar_single
      ascii_letter_def ascii_number_def)

lemma take_word:
  assumes "list_all word_char v" "\<And>c. word_char c \<Longrightarrow> P [c]" "\<not> P '' ''"
  shows "takeWhile P (singles (v @ '' '' @ rest)) = singles v"
    "dropWhile P (singles (v @ '' '' @ rest)) = singles ('' '' @ rest)"
  using assms by (induction v) auto

lemma word_char_not_operator: "word_char c \<Longrightarrow> c \<notin> set ''&|=!<>+-*/%^()''"
  by (auto simp: word_char_def letter_char_def ascii_letter_def ascii_number_def)

lemma double_operator_word: "word_char c \<Longrightarrow> double_operator (c # s) = None"
  using word_char_not_operator [of c]
  by (simp add: double_operator_def double_operators_def starts_with_def)

lemma single_operator_word: "word_char c \<Longrightarrow> single_operator [c] = None"
  using word_char_not_operator [of c] by (simp add: single_operator_def)

lemma word_not_blank: "word_char c \<Longrightarrow> \<not> is_whitespace [c] \<and> c \<noteq> CHR ''('' \<and> c \<noteq> CHR '')''"
proof -
  assume c: "word_char c"
  then have "48 \<le> (of_char c :: nat)"
    by (auto simp: word_char_def letter_char_def ascii_letter_def ascii_number_def)
  then have "\<not> is_whitespace [c]"
    using word_char_ascii [OF c] by (simp add: is_whitespace_def scalar_single)
  then show ?thesis using word_char_not_operator [OF c] by simp
qed

lemma next_token_word:
  assumes "word_char c"
  shows "next_token uc [c] cs =
    (if ascii_number (of_char c)
     then Ok (Some (T_Integer (c # concat (takeWhile integer_char cs))), dropWhile integer_char cs)
     else Ok (Some (word_token (c # concat (takeWhile (name_char uc) cs))), dropWhile (name_char uc) cs))"
  using assms word_not_blank [OF assms] double_operator_word [OF assms] single_operator_word [OF assms]
    word_char_ascii [OF assms]
  by (auto simp: next_token_def scalar_single is_alphabetic_def word_char_def letter_char_def)

lemma next_token_rendered:
  assumes "token_ok t"
  shows "\<exists>c v. token_str t = c # v \<and>
    next_token uc [c] (singles (v @ '' '' @ rest)) = Ok (Some t, singles ('' '' @ rest))"
proof (cases t)
  case (T_Operator op)
  then show ?thesis
    by (cases op) (simp_all add: next_token_def is_whitespace_def scalar_single double_operator_def
        double_operators_def starts_with_def single_operator_def)
next
  case (T_Integer v)
  with assms obtain c w where v: "v = c # w" "ascii_number (of_char c)" "list_all word_char w"
    by (cases t rule: token_ok.cases) auto
  then have "word_char c" by (simp add: word_char_def)
  then show ?thesis
    using T_Integer v take_word [where P = integer_char, OF v(3) integer_char_single blank_chars(1)]
    by (simp add: next_token_word)
next
  case (T_Identifier v)
  with assms obtain c w where v: "v = c # w" "letter_char c" "list_all word_char w"
    "c # w \<noteq> ''true''" "c # w \<noteq> ''false''"
    by (cases t rule: token_ok.cases) auto
  then have "word_char c" "\<not> ascii_number (of_char c)"
    by (auto simp: word_char_def letter_char_def ascii_letter_def ascii_number_def)
  then show ?thesis
    using T_Identifier v take_word [where P = "name_char uc", OF v(3) name_char_single blank_chars(2)]
    by (simp add: next_token_word word_token_def)
next
  case (T_Bool b)
  have w: "word_char (hd (token_str t))" "list_all word_char (tl (token_str t))"
    using T_Bool by (auto simp: word_char_def letter_char_def ascii_letter_def)
  show ?thesis
    using T_Bool take_word [where P = "name_char uc", OF w(2) name_char_single blank_chars(2)] next_token_word [OF w(1)]
    by (auto simp: word_token_def ascii_number_def)
qed (auto simp: next_token_def is_whitespace_def scalar_single)

lemma token_loop_blank: "token_loop uc (singles ('' '' @ rest)) = token_loop uc (singles rest)"
proof -
  have "next_token uc '' '' cs = Ok (None, cs)" for cs
    by (simp add: next_token_def is_whitespace_def scalar_single)
  then show ?thesis by (cases "token_loop uc (singles rest)") auto
qed

lemma token_loop_rendered: "list_all token_ok ts \<Longrightarrow> token_loop uc (singles (render_tokens ts)) = Ok ts"
proof (induction ts)
  case Nil
  then show ?case by (simp add: render_tokens_def)
next
  case (Cons t ts)
  obtain c v where tok: "token_str t = c # v"
    "next_token uc [c] (singles (v @ '' '' @ render_tokens ts)) = Ok (Some t, singles ('' '' @ render_tokens ts))"
    using next_token_rendered [of t uc "render_tokens ts"] Cons.prems by auto
  have "render_tokens (t # ts) = c # v @ '' '' @ render_tokens ts" by (simp add: render_tokens_def tok(1))
  then show ?case
    using tok(2) token_loop_blank [of uc "render_tokens ts"] Cons by simp
qed

lemma token_str_ascii: "token_ok t \<Longrightarrow> list_all (\<lambda>c. of_char c < (128 :: nat)) (token_str t)"
proof (cases t)
  case (T_Operator op)
  then show ?thesis by (cases op) auto
qed (auto simp: word_char_ascii list_all_iff word_char_def elim!: token_ok.elims)

section \<open>Properties\<close>



end
