(* ===== verification/Constant_Evaluation.thy ===== *)
theory Constant_Evaluation
  imports Constant_Tokens Ordered_Map
begin

text \<open>
  The safe constant evaluator (\<open>constant_evaluation.rs\<close>): the expression parser, which evaluates while
  it reads, the recursive evaluation of candidates with its cycle detection, and the driver that
  evaluates every candidate and reports those it could not evaluate.

  An operation returns its outcome and the new state also when it fails, since the states of the
  candidates it visited are kept. The parser ends because every operand
  and operator moves the position forward. The recursion of \<open>evaluate_candidate\<close> is by fuel, which
  suffices when it exceeds the number of candidates not yet visited; running out of it is \<open>Panic\<close>,
  so that its absence is a theorem.
\<close>

lemma bt_put_length:
  "bt_wf m \<Longrightarrow> length (bt_put k v m) = (if bt_get m k = None then length m + 1 else length m)"
proof (induction k v m rule: bt_put.induct)
  case (2 k v k' v' m)
  have "bt_get m k = None" if "k < k'" using 2(2) that by (induction m) (auto simp: bt_wf_def)
  with 2 show ?case by (auto simp: bt_wf_def)
qed simp

section \<open>Candidates\<close>

datatype expression = Parsed "token list" | EnumImplicit "string option"

datatype type_authority = ExplicitPrimitiveAnnotation | FixedReprAttribute

record candidate =
  cd_declared_value_id :: string
  cd_declared_value_claim_id :: string
  cd_owner_id :: string
  cd_name :: string
  cd_rust_type :: string
  cd_primitive :: primitive_type
  cd_type_authority :: type_authority
  cd_evidence_ids :: "string list"
  cd_declaration_evidence_ids :: "string list"
  cd_source_file_id :: string
  cd_expression :: expression
  cd_explicit_value :: bool
  cd_dependency_source :: bool
  cd_enum_id :: "string option"
  cd_repr_evidence_id :: "string option"

type_synonym candidates = "(string, candidate) btree"

text \<open>The errors, but for those of the earlier extraction stages (\<open>Source\<close>), which come before.\<close>

datatype constant_evaluation_error =
    CE_IdentityConflict | CE_ValueInvalid | CE_DependencyInvalid | CE_DependencyCycle | CE_DerivationMismatch
  | CE_IndexMismatch | CE_LimitExceeded constant_limit nat nat | CE_ContractInvalid

definition insert_candidate :: "candidates \<Rightarrow> candidate \<Rightarrow> (candidates, constant_evaluation_error) result" where
  "insert_candidate cands c =
     (if bt_get cands (cd_declared_value_id c) \<noteq> None then Err CE_IdentityConflict
      else Ok (bt_put (cd_declared_value_id c) c cands))"

section \<open>Evaluation state\<close>

record evaluation =
  el_value :: constant_value
  el_dependency_ids :: "string list"
  el_dependency_levels :: nat

datatype evaluation_state = Visiting | Complete | Failed evaluation_failure

record evaluator =
  ev_states :: "(string, evaluation_state) btree"
  ev_evaluated :: "(string, evaluation) btree"

definition set_state :: "string \<Rightarrow> evaluation_state \<Rightarrow> evaluator \<Rightarrow> evaluator" where
  "set_state identifier s ev = ev\<lparr>ev_states := bt_put identifier s (ev_states ev)\<rparr>"

definition fail_state ::
  "evaluator \<Rightarrow> string \<Rightarrow> evaluation_failure \<Rightarrow> ('a, evaluation_failure) result \<times> evaluator" where
  "fail_state ev identifier failure = (Err failure, set_state identifier (Failed failure) ev)"

text \<open>The evaluation of a dependency, which the parser and the implicit discriminants call.\<close>

type_synonym resolver_fun = "string \<Rightarrow> evaluator \<Rightarrow> (evaluation, evaluation_failure) result \<times> evaluator"

section \<open>The parser\<close>

text \<open>What stays the same while one expression is read, and what changes.\<close>

record parse_context =
  pc_tokens :: "token list"
  pc_primitive :: primitive_type
  pc_owner_id :: string
  pc_candidates :: candidates

record parser =
  ps_position :: nat
  ps_syntax_nodes :: nat
  ps_evaluator :: evaluator
  ps_dependencies :: "string btset"
  ps_dependency_levels :: nat

type_synonym 'a parse_op = "parser \<Rightarrow> ('a, evaluation_failure) result \<times> parser"

text \<open>The question mark operator on a state, and an outcome that leaves the state alone.\<close>

definition p_bind :: "'a parse_op \<Rightarrow> ('a \<Rightarrow> 'b parse_op) \<Rightarrow> 'b parse_op" where
  "p_bind m f p =
     (case m p of (Ok x, p') \<Rightarrow> f x p' | (Err e, p') \<Rightarrow> (Err e, p') | (Panic, p') \<Rightarrow> (Panic, p'))"

definition p_lift :: "('a, evaluation_failure) result \<Rightarrow> 'a parse_op" where
  "p_lift r p = (r, p)"

definition advance :: "parser \<Rightarrow> parser" where
  "advance p = p\<lparr>ps_position := ps_position p + 1\<rparr>"

lemma p_bind_cong [fundef_cong]:
  assumes "m p = m' q" "\<And>x p'. m' q = (Ok x, p') \<Longrightarrow> f x p' = g x p'"
  shows "p_bind m f p = p_bind m' g q"
  using assms by (cases "m' q"; cases "fst (m' q)") (auto simp: p_bind_def)

definition peek :: "parse_context \<Rightarrow> parser \<Rightarrow> token option" where
  "peek pc p = get_at (ps_position p) (pc_tokens pc)"

lemma peek_drop: "peek pc p = Some t \<Longrightarrow> drop (ps_position p) (pc_tokens pc) = t # drop (ps_position p + 1) (pc_tokens pc)"
  by (simp add: peek_def get_at_Some_iff Cons_nth_drop_Suc)

lemma drop_peek: "drop (ps_position p) (pc_tokens pc) = t # rest \<Longrightarrow> peek pc p = Some t"
  by (metis drop_eq_Nil2 get_at_Some_iff list.distinct(1) list.inject not_le_imp_less nth_via_drop peek_def)

text \<open>\<open>if let Some(Token::Integer(literal))\<close>.\<close>

definition integer_at :: "parse_context \<Rightarrow> parser \<Rightarrow> string option" where
  "integer_at pc p = (case peek pc p of Some (T_Integer literal) \<Rightarrow> Some literal | _ \<Rightarrow> None)"

definition bump_node :: "unit parse_op" where
  "bump_node p =
     (let nodes = saturating_add (ps_syntax_nodes p) 1 in
      (enforce_limit SyntaxNodesPerExpression nodes, p\<lparr>ps_syntax_nodes := nodes\<rparr>))"

definition matching :: "parse_context \<Rightarrow> string \<Rightarrow> string list" where
  "matching pc name =
     map cd_declared_value_id
       (filter (\<lambda>c. cd_dependency_source c \<and> cd_owner_id c = pc_owner_id pc \<and> cd_name c = name \<and>
          cd_primitive c = pc_primitive pc) (map snd (pc_candidates pc)))"

definition resolve_dependency :: "resolver_fun \<Rightarrow> parse_context \<Rightarrow> string \<Rightarrow> constant_value parse_op" where
  "resolve_dependency resolve pc name p =
     (case matching pc name of
        [] \<Rightarrow> (Err Dependency_failure, p)
      | _ # _ # _ \<Rightarrow> (Err Dependency_failure, p)
      | [identifier] \<Rightarrow>
          (case (if bs_contains (ps_dependencies p) identifier then Ok ()
                 else enforce_limit DirectDependencies (saturating_add (length (ps_dependencies p)) 1)) of
             Ok _ \<Rightarrow>
               (case resolve identifier (ps_evaluator p) of
                  (Ok v, ev) \<Rightarrow>
                    let levels = saturating_add (el_dependency_levels v) 1 in
                    (case enforce_limit DependencyLevels levels of
                       Ok _ \<Rightarrow>
                         (Ok (el_value v),
                          p\<lparr>ps_evaluator := ev,
                            ps_dependency_levels := max (ps_dependency_levels p) levels,
                            ps_dependencies := bs_insert identifier (ps_dependencies p)\<rparr>)
                     | Err e \<Rightarrow> (Err e, p\<lparr>ps_evaluator := ev\<rparr>)
                     | Panic \<Rightarrow> (Panic, p\<lparr>ps_evaluator := ev\<rparr>))
                | (Err e, ev) \<Rightarrow> (Err e, p\<lparr>ps_evaluator := ev\<rparr>)
                | (Panic, ev) \<Rightarrow> (Panic, p\<lparr>ps_evaluator := ev\<rparr>))
           | Err e \<Rightarrow> (Err e, p)
           | Panic \<Rightarrow> (Panic, p)))"

text \<open>
  \<open>parse_expression\<close>, its loop over the binary operators, and \<open>parse_prefix\<close>. The position only
  moves past tokens that exist, so that its saturating increment never saturates.
\<close>

function (sequential) parse_expression :: "resolver_fun \<Rightarrow> parse_context \<Rightarrow> nat \<Rightarrow> constant_value parse_op"
  and parse_operators ::
    "resolver_fun \<Rightarrow> parse_context \<Rightarrow> nat \<Rightarrow> constant_value \<Rightarrow> constant_value parse_op"
  and parse_prefix :: "resolver_fun \<Rightarrow> parse_context \<Rightarrow> constant_value parse_op" where
  "parse_expression resolve pc minimum p =
     p_bind bump_node (\<lambda>_ p1.
     p_bind (\<lambda>p2. parse_prefix resolve pc p2) (\<lambda>left p2. parse_operators resolve pc minimum left p2) p1) p"
| "parse_operators resolve pc minimum left p =
     (case peek pc p of
        Some (T_Operator op) \<Rightarrow>
          (case binary_precedence op of
             None \<Rightarrow> (Ok left, p)
           | Some precedence \<Rightarrow>
               if precedence < minimum then (Ok left, p)
               else
                 p_bind (\<lambda>p1. parse_expression resolve pc (precedence + 1) p1) (\<lambda>right p1.
                 p_bind (p_lift (apply_binary op left right (pc_primitive pc)))
                   (\<lambda>left' p2. parse_operators resolve pc minimum left' p2) p1) (advance p))
      | _ \<Rightarrow> (Ok left, p))"
| "parse_prefix resolve pc p =
     (case peek pc p of
        None \<Rightarrow> (Err Expression_failure, p)
      | Some (T_Bool b) \<Rightarrow>
          (if pc_primitive pc = PT_Bool then Ok (CV_Bool b) else Err Expression_failure, advance p)
      | Some (T_Integer literal) \<Rightarrow> (parse_integer literal (pc_primitive pc) False, advance p)
      | Some (T_Identifier name) \<Rightarrow> resolve_dependency resolve pc name (advance p)
      | Some T_LeftParenthesis \<Rightarrow>
          p_bind (\<lambda>p1. parse_expression resolve pc 0 p1) (\<lambda>v p1.
            if peek pc p1 = Some T_RightParenthesis then (Ok v, advance p1)
            else (Err Expression_failure, p1)) (advance p)
      | Some T_RightParenthesis \<Rightarrow> (Err Expression_failure, advance p)
      | Some (T_Operator op) \<Rightarrow>
          if op = Bang then
            p_bind bump_node (\<lambda>_ p1.
            p_bind (\<lambda>p2. parse_prefix resolve pc p2)
              (\<lambda>v. p_lift (checked_not v (pc_primitive pc))) p1) (advance p)
          else if op = Minus then
            p_bind bump_node (\<lambda>_ p1.
              (case integer_at pc p1 of
                 Some literal \<Rightarrow> (parse_integer literal (pc_primitive pc) True, advance p1)
               | None \<Rightarrow>
                   p_bind (\<lambda>p2. parse_prefix resolve pc p2)
                     (\<lambda>v. p_lift (checked_negate v (pc_primitive pc))) p1)) (advance p)
          else (Err Expression_failure, advance p))"
  by pat_completeness auto

text \<open>Reading moves the position forward, an operand by at least one token.\<close>

lemma p_bind_iff:
  "p_bind m f p = (r, p') \<longleftrightarrow>
     (\<exists>x p1. m p = (Ok x, p1) \<and> f x p1 = (r, p')) \<or> (\<exists>e. m p = (Err e, p') \<and> r = Err e) \<or>
     m p = (Panic, p') \<and> r = Panic"
  by (cases "m p"; cases "fst (m p)") (auto simp: p_bind_def)

text \<open>
  The ways in which a reading can go, as a relation: the parser follows it, and what holds of all
  readings is shown by induction on its rules.
\<close>

definition next_operator :: "parse_context \<Rightarrow> nat \<Rightarrow> parser \<Rightarrow> (operator \<times> nat) option" where
  "next_operator pc m p =
     (case peek pc p of
        Some (T_Operator op) \<Rightarrow>
          (case binary_precedence op of None \<Rightarrow> None | Some prec \<Rightarrow> if prec < m then None else Some (op, prec))
      | _ \<Rightarrow> None)"

definition stopped :: "('a, 'e) result \<Rightarrow> bool" where
  "stopped r \<longleftrightarrow> (\<forall>v. r \<noteq> Ok v)"

fun leaf_value :: "parse_context \<Rightarrow> token \<Rightarrow> (constant_value, evaluation_failure) result option" where
  "leaf_value pc (T_Bool b) = Some (if pc_primitive pc = PT_Bool then Ok (CV_Bool b) else Err Expression_failure)"
| "leaf_value pc (T_Integer literal) = Some (parse_integer literal (pc_primitive pc) False)"
| "leaf_value pc (T_Operator op) = (if op = Bang \<or> op = Minus then None else Some (Err Expression_failure))"
| "leaf_value pc T_RightParenthesis = Some (Err Expression_failure)"
| "leaf_value pc (T_Identifier _) = None"
| "leaf_value pc T_LeftParenthesis = None"

inductive reads_expression ::
    "resolver_fun \<Rightarrow> parse_context \<Rightarrow> nat \<Rightarrow> parser \<Rightarrow> (constant_value, evaluation_failure) result \<Rightarrow> parser \<Rightarrow> bool"
  and reads_operators ::
    "resolver_fun \<Rightarrow> parse_context \<Rightarrow> nat \<Rightarrow> constant_value \<Rightarrow> parser \<Rightarrow> (constant_value, evaluation_failure) result \<Rightarrow>
     parser \<Rightarrow> bool"
  and reads_prefix ::
    "resolver_fun \<Rightarrow> parse_context \<Rightarrow> parser \<Rightarrow> (constant_value, evaluation_failure) result \<Rightarrow> parser \<Rightarrow> bool"
  for resolve :: resolver_fun and pc :: parse_context where
  expression_bump: "bump_node p = (Err e, p1) \<Longrightarrow> reads_expression resolve pc m p (Err e) p1"
| expression_stop:
    "bump_node p = (Ok (), p1) \<Longrightarrow> reads_prefix resolve pc p1 r p2 \<Longrightarrow> stopped r \<Longrightarrow>
     reads_expression resolve pc m p r p2"
| expression_read:
    "bump_node p = (Ok (), p1) \<Longrightarrow> reads_prefix resolve pc p1 (Ok v) p2 \<Longrightarrow>
     reads_operators resolve pc m v p2 r p3 \<Longrightarrow> reads_expression resolve pc m p r p3"
| operators_done: "next_operator pc m p = None \<Longrightarrow> reads_operators resolve pc m left p (Ok left) p"
| operators_stop:
    "next_operator pc m p = Some (op, prec) \<Longrightarrow> reads_expression resolve pc (prec + 1) (advance p) r p1 \<Longrightarrow>
     stopped r \<Longrightarrow> reads_operators resolve pc m left p r p1"
| operators_apply:
    "next_operator pc m p = Some (op, prec) \<Longrightarrow> reads_expression resolve pc (prec + 1) (advance p) (Ok right) p1 \<Longrightarrow>
     apply_binary op left right (pc_primitive pc) = Err e \<Longrightarrow> reads_operators resolve pc m left p (Err e) p1"
| operators_read:
    "next_operator pc m p = Some (op, prec) \<Longrightarrow> reads_expression resolve pc (prec + 1) (advance p) (Ok right) p1 \<Longrightarrow>
     apply_binary op left right (pc_primitive pc) = Ok left' \<Longrightarrow> reads_operators resolve pc m left' p1 r p2 \<Longrightarrow>
     reads_operators resolve pc m left p r p2"
| prefix_end: "peek pc p = None \<Longrightarrow> reads_prefix resolve pc p (Err Expression_failure) p"
| prefix_leaf: "peek pc p = Some t \<Longrightarrow> leaf_value pc t = Some r \<Longrightarrow> reads_prefix resolve pc p r (advance p)"
| prefix_name:
    "peek pc p = Some (T_Identifier name) \<Longrightarrow> resolve_dependency resolve pc name (advance p) = (r, p1) \<Longrightarrow>
     reads_prefix resolve pc p r p1"
| prefix_bump:
    "peek pc p = Some (T_Operator op) \<Longrightarrow> op = Bang \<or> op = Minus \<Longrightarrow> bump_node (advance p) = (Err e, p1) \<Longrightarrow>
     reads_prefix resolve pc p (Err e) p1"
| prefix_not:
    "peek pc p = Some (T_Operator Bang) \<Longrightarrow> bump_node (advance p) = (Ok (), p1) \<Longrightarrow>
     reads_prefix resolve pc p1 r p2 \<Longrightarrow>
     reads_prefix resolve pc p (and_then r (\<lambda>v. checked_not v (pc_primitive pc))) p2"
| prefix_negative:
    "peek pc p = Some (T_Operator Minus) \<Longrightarrow> bump_node (advance p) = (Ok (), p1) \<Longrightarrow>
     integer_at pc p1 = Some literal \<Longrightarrow>
     reads_prefix resolve pc p (parse_integer literal (pc_primitive pc) True) (advance p1)"
| prefix_negate:
    "peek pc p = Some (T_Operator Minus) \<Longrightarrow> bump_node (advance p) = (Ok (), p1) \<Longrightarrow>
     integer_at pc p1 = None \<Longrightarrow> reads_prefix resolve pc p1 r p2 \<Longrightarrow>
     reads_prefix resolve pc p (and_then r (\<lambda>v. checked_negate v (pc_primitive pc))) p2"
| prefix_paren:
    "peek pc p = Some T_LeftParenthesis \<Longrightarrow> reads_expression resolve pc 0 (advance p) (Ok v) p1 \<Longrightarrow>
     peek pc p1 = Some T_RightParenthesis \<Longrightarrow> reads_prefix resolve pc p (Ok v) (advance p1)"
| prefix_open:
    "peek pc p = Some T_LeftParenthesis \<Longrightarrow> reads_expression resolve pc 0 (advance p) (Ok v) p1 \<Longrightarrow>
     peek pc p1 \<noteq> Some T_RightParenthesis \<Longrightarrow> reads_prefix resolve pc p (Err Expression_failure) p1"
| prefix_stop:
    "peek pc p = Some T_LeftParenthesis \<Longrightarrow> reads_expression resolve pc 0 (advance p) r p1 \<Longrightarrow> stopped r \<Longrightarrow>
     reads_prefix resolve pc p r p1"

lemmas reads_intros =
  reads_expression_reads_operators_reads_prefix.intros

lemma bump_node_cases:
  obtains p1 where "bump_node p = (Ok (), p1)" | e p1 where "bump_node p = (Err e, p1)"
  by (cases "enforce_limit SyntaxNodesPerExpression (saturating_add (ps_syntax_nodes p) 1)")
    (auto simp: bump_node_def Let_def)

lemma stopped_cases: obtains v where "r = Ok v" | "stopped r"
  by (auto simp: stopped_def)

lemma p_bind_stopped: "m p = (r, p') \<Longrightarrow> stopped r \<Longrightarrow> p_bind m f p = (r, p')"
  by (cases r) (auto simp: p_bind_def stopped_def)

lemma p_bind_Ok: "m p = (Ok v, p') \<Longrightarrow> p_bind m f p = f v p'"
  by (simp add: p_bind_def)

lemma p_bind_Err: "m p = (Err e, p') \<Longrightarrow> p_bind m f p = (Err e, p')"
  by (simp add: p_bind_def)

lemma p_bind_lift: "m p = (r, p') \<Longrightarrow> p_bind m (\<lambda>v. p_lift (f v)) p = (and_then r f, p')"
  by (cases r) (auto simp: p_bind_def p_lift_def)

lemma parser_follows:
  "parse_expression_parse_operators_parse_prefix_dom (Inl (resolve, pc, m, p)) \<Longrightarrow>
     case parse_expression resolve pc m p of (r, p') \<Rightarrow> reads_expression resolve pc m p r p'"
  "parse_expression_parse_operators_parse_prefix_dom (Inr (Inl (resolve, pc, m, left, p))) \<Longrightarrow>
     case parse_operators resolve pc m left p of (r, p') \<Rightarrow> reads_operators resolve pc m left p r p'"
  "parse_expression_parse_operators_parse_prefix_dom (Inr (Inr (resolve, pc, p))) \<Longrightarrow>
     case parse_prefix resolve pc p of (r, p') \<Rightarrow> reads_prefix resolve pc p r p'"
proof (induction rule: parse_expression_parse_operators_parse_prefix.pinduct)
  case (1 resolve pc minimum p)
  note eq = parse_expression.psimps [OF "1.hyps"]
  show ?case
  proof (cases p rule: bump_node_cases)
    case bump: (1 p1)
    obtain q p2 where operand: "parse_prefix resolve pc p1 = (q, p2)" by (metis surj_pair)
    show ?thesis
      by (cases q rule: stopped_cases)
        (use "1.IH"(1) [OF bump] "1.IH"(2) [OF bump] operand in
          \<open>auto simp: eq bump p_bind_Ok p_bind_stopped intro: expression_stop expression_read\<close>)
  qed (auto simp: eq p_bind_def intro: reads_intros)
next
  case (2 resolve pc minimum left p)
  note eq = parse_operators.psimps [OF "2.hyps"]
  show ?case
  proof (cases "next_operator pc minimum p")
    case None
    then have "parse_operators resolve pc minimum left p = (Ok left, p)"
      by (auto simp: eq next_operator_def split: option.splits token.splits if_splits)
    with None show ?thesis by (simp add: operators_done)
  next
    case (Some a)
    then obtain op prec where n: "next_operator pc minimum p = Some (op, prec)" by (cases a) auto
    then have op: "peek pc p = Some (T_Operator op)" "binary_precedence op = Some prec" "\<not> prec < minimum"
      by (auto simp: next_operator_def split: option.splits token.splits if_splits)
    obtain q p1 where operand: "parse_expression resolve pc (prec + 1) (advance p) = (q, p1)" by (metis surj_pair)
    have read: "reads_expression resolve pc (prec + 1) (advance p) q p1"
      using "2.IH"(1) [OF op(1) refl op(2,3)] operand by simp
    show ?thesis
    proof (cases q rule: stopped_cases)
      case (1 right)
      show ?thesis
        by (cases "apply_binary op left right (pc_primitive pc)")
          (use "2.IH"(2) [OF op(1) refl op(2,3) operand [unfolded 1]] op operand 1 read n in
            \<open>auto simp: eq p_bind_def p_lift_def intro: operators_apply operators_read\<close>)
    qed (use op operand read n in \<open>auto simp: eq p_bind_stopped intro: operators_stop\<close>)
  qed
next
  case (3 resolve pc p)
  note eq = parse_prefix.psimps [OF "3.hyps"]
  show ?case
  proof (cases "peek pc p")
    case None
    then show ?thesis by (simp add: eq prefix_end)
  next
    case (Some t)
    note peek = this
    show ?thesis
    proof (cases t)
      case T_LeftParenthesis
      obtain q p1 where operand: "parse_expression resolve pc 0 (advance p) = (q, p1)" by (metis surj_pair)
      have read: "reads_expression resolve pc 0 (advance p) q p1"
        using "3.IH"(3) [OF peek T_LeftParenthesis] operand by simp
      show ?thesis
        by (cases q rule: stopped_cases)
          (use peek T_LeftParenthesis operand read in
            \<open>auto simp: eq p_bind_Ok p_bind_stopped intro: prefix_paren prefix_open prefix_stop\<close>)
    next
      case (T_Operator op)
      show ?thesis
      proof (cases "op = Bang \<or> op = Minus")
        case unary: True
        show ?thesis
        proof (cases "advance p" rule: bump_node_cases)
          case bump: (1 p1)
          obtain q p2 where operand: "parse_prefix resolve pc p1 = (q, p2)" by (metis surj_pair)
          show ?thesis
            using "3.IH"(1) [OF peek T_Operator _ bump] "3.IH"(2) [OF peek T_Operator _ _ bump] unary peek T_Operator bump operand
            by (cases "integer_at pc p1")
              (auto simp: eq p_bind_Ok p_bind_lift [of "parse_prefix resolve pc", OF operand] intro: prefix_not prefix_negative prefix_negate)
        qed (use unary peek T_Operator in \<open>auto simp: eq p_bind_Err intro: prefix_bump\<close>)
      qed (use peek T_Operator in \<open>auto simp: eq intro: prefix_leaf\<close>)
    qed (use peek in \<open>auto simp: eq intro: prefix_leaf prefix_name\<close>)
  qed
qed

text \<open>Reading moves the position forward, an operand by at least one token.\<close>

lemma bump_node_iff:
  "bump_node p = (r, p') \<longleftrightarrow>
     r = enforce_limit SyntaxNodesPerExpression (saturating_add (ps_syntax_nodes p) 1) \<and>
     p' = p\<lparr>ps_syntax_nodes := saturating_add (ps_syntax_nodes p) 1\<rparr>"
  by (auto simp: bump_node_def Let_def)

lemma advance_simps [simp]:
  "ps_position (advance p) = ps_position p + 1" "ps_syntax_nodes (advance p) = ps_syntax_nodes p"
  "ps_evaluator (advance p) = ps_evaluator p" "ps_dependency_levels (advance p) = ps_dependency_levels p"
  "ps_dependencies (advance p) = ps_dependencies p"
  by (simp_all add: advance_def)

lemma resolve_dependency_position:
  "resolve_dependency resolve pc name p = (r, p') \<Longrightarrow>
   ps_position p' = ps_position p \<and> ps_syntax_nodes p' = ps_syntax_nodes p"
  by (auto simp: resolve_dependency_def Let_def split: list.splits result.splits prod.splits if_splits)

lemma reads_forward:
  "reads_expression resolve pc m p r p' \<Longrightarrow>
     ps_position p \<le> ps_position p' \<and> (\<not> stopped r \<longrightarrow> ps_position p < ps_position p')"
  "reads_operators resolve pc m left p r p' \<Longrightarrow> ps_position p \<le> ps_position p'"
  "reads_prefix resolve pc p r p' \<Longrightarrow>
     ps_position p \<le> ps_position p' \<and> (\<not> stopped r \<longrightarrow> ps_position p < ps_position p')"
  by (induction rule: reads_expression_reads_operators_reads_prefix.inducts)
    (auto simp: stopped_def result_iffs bump_node_iff dest: resolve_dependency_position)

lemma parse_forward:
  "parse_expression_parse_operators_parse_prefix_dom (Inl (resolve, pc, m, p)) \<Longrightarrow>
     parse_expression resolve pc m p = (Ok v, p') \<Longrightarrow> ps_position p < ps_position p'"
  "parse_expression_parse_operators_parse_prefix_dom (Inr (Inr (resolve, pc, p))) \<Longrightarrow>
     parse_prefix resolve pc p = (Ok v, p') \<Longrightarrow> ps_position p < ps_position p'"
  using parser_follows(1) [of resolve pc m p] parser_follows(3) [of resolve pc p] reads_forward(1,3)
  by (fastforce simp: stopped_def)+

definition remaining :: "parse_context \<Rightarrow> parser \<Rightarrow> nat" where
  "remaining pc p = length (pc_tokens pc) - ps_position p"

lemma remaining_advance: "peek pc p = Some t \<Longrightarrow> remaining pc (advance p) < remaining pc p"
  by (auto simp: remaining_def peek_def get_at_Some_iff)

lemma parser_total: "All parse_expression_parse_operators_parse_prefix_dom"
proof (relation "measure (\<lambda>x. case x of
    Inl (resolve, pc, m, p) \<Rightarrow> 2 * remaining pc p + 1
  | Inr (Inl (resolve, pc, m, left, p)) \<Rightarrow> 2 * remaining pc p
  | Inr (Inr (resolve, pc, p)) \<Rightarrow> 2 * remaining pc p)", goal_cases)
qed (auto simp: remaining_def peek_def get_at_Some_iff p_lift_def bump_node_iff dest: parse_forward)

termination parse_expression
  by (rule parser_total)

declare parse_expression.simps [simp del] parse_operators.simps [simp del] parse_prefix.simps [simp del]

lemma parse_reads:
  "parse_expression resolve pc m p = (r, p') \<Longrightarrow> reads_expression resolve pc m p r p'"
  "parse_operators resolve pc m left p = (r, p') \<Longrightarrow> reads_operators resolve pc m left p r p'"
  "parse_prefix resolve pc p = (r, p') \<Longrightarrow> reads_prefix resolve pc p r p'"
  using parser_follows(1) [of resolve pc m p] parser_follows(2) [of resolve pc m left p] parser_follows(3) [of resolve pc p]
  by (simp_all add: parser_total [THEN spec])

section \<open>Evaluation of a candidate\<close>

definition initial_parser :: "evaluator \<Rightarrow> parser" where
  "initial_parser ev =
     \<lparr>ps_position = 0, ps_syntax_nodes = 0, ps_evaluator = ev, ps_dependencies = [],
      ps_dependency_levels = 0\<rparr>"

definition candidate_context :: "candidates \<Rightarrow> candidate \<Rightarrow> token list \<Rightarrow> parse_context" where
  "candidate_context cands c tokens =
     \<lparr>pc_tokens = tokens, pc_primitive = cd_primitive c, pc_owner_id = cd_owner_id c, pc_candidates = cands\<rparr>"

fun evaluate_expression ::
  "resolver_fun \<Rightarrow> candidates \<Rightarrow> string \<Rightarrow> candidate \<Rightarrow> expression \<Rightarrow> evaluator \<Rightarrow>
   (evaluation, evaluation_failure) result \<times> evaluator" where
  "evaluate_expression resolve cands identifier c (EnumImplicit None) ev =
     (and_then (zero_value (cd_primitive c)) (\<lambda>v.
        Ok \<lparr>el_value = v, el_dependency_ids = [], el_dependency_levels = 0\<rparr>), ev)"
| "evaluate_expression resolve cands identifier c (EnumImplicit (Some previous)) ev =
     (case resolve previous ev of
        (Ok dependency, ev') \<Rightarrow>
          (let levels = saturating_add (el_dependency_levels dependency) 1 in
           and_then (enforce_limit DependencyLevels levels) (\<lambda>_.
           and_then (checked_increment (el_value dependency) (cd_primitive c)) (\<lambda>v.
           Ok \<lparr>el_value = v, el_dependency_ids = [previous], el_dependency_levels = levels\<rparr>)), ev')
      | (Err e, ev') \<Rightarrow> (Err e, ev')
      | (Panic, ev') \<Rightarrow> (Panic, ev'))"
| "evaluate_expression resolve cands identifier c (Parsed tokens) ev =
     (case parse_expression resolve (candidate_context cands c tokens) 0
             (initial_parser ev) of
        (Ok v, p) \<Rightarrow>
          if ps_position p \<noteq> length tokens \<or> \<not> value_matches v (cd_primitive c)
          then fail_state (ps_evaluator p) identifier Expression_failure
          else
            (Ok \<lparr>el_value = v, el_dependency_ids = bt_keys (ps_dependencies p),
                 el_dependency_levels = ps_dependency_levels p\<rparr>, ps_evaluator p)
      | (Err e, p) \<Rightarrow> (Err e, ps_evaluator p)
      | (Panic, p) \<Rightarrow> (Panic, ps_evaluator p))"

primrec evaluate_candidate :: "nat \<Rightarrow> candidates \<Rightarrow> resolver_fun" where
  "evaluate_candidate 0 cands = (\<lambda>identifier ev. (Panic, ev))"
| "evaluate_candidate (Suc n) cands = (\<lambda>identifier ev.
     (case bt_get (ev_states ev) identifier of
        Some Complete \<Rightarrow> (ok_or Dependency_failure (bt_get (ev_evaluated ev) identifier), ev)
      | Some Visiting \<Rightarrow> (Err Dependency_failure, ev)
      | Some (Failed _) \<Rightarrow> (Err Dependency_failure, ev)
      | None \<Rightarrow>
          (case bt_get cands identifier of
             None \<Rightarrow> (Err Dependency_failure, ev)
           | Some c \<Rightarrow>
               (case evaluate_expression (evaluate_candidate n cands) cands identifier c (cd_expression c)
                       (set_state identifier Visiting ev) of
                  (Ok v, ev') \<Rightarrow>
                    (Ok v, set_state identifier Complete
                       (ev'\<lparr>ev_evaluated := bt_put identifier v (ev_evaluated ev')\<rparr>))
                | (Err failure, ev') \<Rightarrow> fail_state ev' identifier failure
                | (Panic, _) \<Rightarrow> (Panic, ev)))))"

section \<open>The driver\<close>

definition initial_evaluator :: evaluator where
  "initial_evaluator = \<lparr>ev_states = [], ev_evaluated = []\<rparr>"

text \<open>The loop over the candidates: only a limit stops it.\<close>

fun evaluate_loop ::
  "candidates \<Rightarrow> string list \<Rightarrow> evaluator \<Rightarrow> (evaluator, constant_evaluation_error) result" where
  "evaluate_loop cands [] ev = Ok ev"
| "evaluate_loop cands (identifier # rest) ev =
     (case evaluate_candidate (length cands + 1) cands identifier ev of
        (Ok _, ev') \<Rightarrow> evaluate_loop cands rest ev'
      | (Err failure, ev') \<Rightarrow>
          (case constant_error failure of
             Some (limit, m, observed) \<Rightarrow> Err (CE_LimitExceeded limit m observed)
           | None \<Rightarrow> evaluate_loop cands rest ev')
      | (Panic, ev') \<Rightarrow> Panic)"

definition evaluate_all :: "candidates \<Rightarrow> (evaluator, constant_evaluation_error) result" where
  "evaluate_all cands = evaluate_loop cands (bt_keys cands) initial_evaluator"

end
