(* ===== verification/Constant_Semantics.thy ===== *)
theory Constant_Semantics
  imports Constant_Evaluation
begin

text \<open>
  What constants mean. The reference is a grammar of expressions with
  the precedences of the language, a structural evaluation, and an inductive definition of the value
  of a candidate from the values of the candidates it names. The invariant of the evaluator relates
  its state to these meanings.
\<close>

section \<open>Expressions\<close>

datatype expr =
    E_Bool bool | E_Int string | E_NegInt string | E_Name string | E_Not expr | E_Neg expr | E_Paren expr
  | E_Bin operator expr expr

fun tokens_of :: "expr \<Rightarrow> token list" where
  "tokens_of (E_Bool b) = [T_Bool b]"
| "tokens_of (E_Int l) = [T_Integer l]"
| "tokens_of (E_NegInt l) = [T_Operator Minus, T_Integer l]"
| "tokens_of (E_Name n) = [T_Identifier n]"
| "tokens_of (E_Not e) = T_Operator Bang # tokens_of e"
| "tokens_of (E_Neg e) = T_Operator Minus # tokens_of e"
| "tokens_of (E_Paren e) = T_LeftParenthesis # tokens_of e @ [T_RightParenthesis]"
| "tokens_of (E_Bin op l r) = tokens_of l @ T_Operator op # tokens_of r"

text \<open>An operand binds tightest; a binary expression as its operator, and to the left.\<close>

fun prec :: "expr \<Rightarrow> nat" where
  "prec (E_Bin op l r) = (case binary_precedence op of None \<Rightarrow> 0 | Some p \<Rightarrow> p)"
| "prec _ = 9"

fun wf_expr :: "expr \<Rightarrow> bool" where
  "wf_expr (E_Not e) \<longleftrightarrow> wf_expr e \<and> prec e = 9"
| "wf_expr (E_Neg e) \<longleftrightarrow> wf_expr e \<and> prec e = 9 \<and> (\<forall>l. e \<noteq> E_Int l)"
| "wf_expr (E_Paren e) \<longleftrightarrow> wf_expr e"
| "wf_expr (E_Bin op l r) \<longleftrightarrow>
     wf_expr l \<and> wf_expr r \<and> binary_precedence op \<noteq> None \<and>
     prec (E_Bin op l r) \<le> prec l \<and> prec (E_Bin op l r) < prec r"
| "wf_expr _ \<longleftrightarrow> True"

fun names :: "expr \<Rightarrow> string set" where
  "names (E_Name n) = {n}"
| "names (E_Not e) = names e"
| "names (E_Neg e) = names e"
| "names (E_Paren e) = names e"
| "names (E_Bin op l r) = names l \<union> names r"
| "names _ = {}"

fun eval_expr :: "(string \<Rightarrow> constant_value option) \<Rightarrow> primitive_type \<Rightarrow> expr \<Rightarrow> (constant_value, evaluation_failure) result" where
  "eval_expr env t (E_Bool b) = (if t = PT_Bool then Ok (CV_Bool b) else Err Expression_failure)"
| "eval_expr env t (E_Int l) = parse_integer l t False"
| "eval_expr env t (E_NegInt l) = parse_integer l t True"
| "eval_expr env t (E_Name n) = ok_or Dependency_failure (env n)"
| "eval_expr env t (E_Not e) = and_then (eval_expr env t e) (\<lambda>v. checked_not v t)"
| "eval_expr env t (E_Neg e) = and_then (eval_expr env t e) (\<lambda>v. checked_negate v t)"
| "eval_expr env t (E_Paren e) = eval_expr env t e"
| "eval_expr env t (E_Bin op l r) =
     and_then (eval_expr env t l) (\<lambda>x. and_then (eval_expr env t r) (\<lambda>y. apply_binary op x y t))"

lemma binary_precedence_bound: "binary_precedence op = Some p \<Longrightarrow> 1 \<le> p \<and> p \<le> 8"
  by (cases op) auto

lemma prec_bound: "prec e \<le> 9"
  by (cases e) (auto split: option.splits dest: binary_precedence_bound)

lemma tokens_of_nonempty [simp]: "tokens_of e \<noteq> []"
  by (cases e) auto

lemma eval_expr_mono:
  "eval_expr env t e = Ok v \<Longrightarrow> env \<subseteq>\<^sub>m env' \<Longrightarrow> eval_expr env' t e = Ok v"
  by (induction e arbitrary: v) (auto simp: result_iffs map_le_def dom_def)

text \<open>A result is a value of the type or a truth value, when the environment gives values of the type.\<close>

lemma eval_expr_value:
  "eval_expr env t e = Ok v \<Longrightarrow> (\<And>n w. env n = Some w \<Longrightarrow> fits w t) \<Longrightarrow> expression_value v t"
proof (induction e arbitrary: v)
  case (E_Bool b)
  then show ?case by (auto simp: expression_value_def split: if_splits)
qed (auto simp: result_iffs expression_value_def
    dest: parse_integer_fits checked_not_value [unfolded expression_value_def] checked_negate_value
      apply_binary_value [unfolded expression_value_def])

section \<open>The value of a candidate\<close>

definition named :: "parse_context \<Rightarrow> (string \<Rightarrow> constant_value option) \<Rightarrow> string \<Rightarrow> constant_value option" where
  "named pc E name = (case matching pc name of [identifier] \<Rightarrow> E identifier | _ \<Rightarrow> None)"

text \<open>
  A candidate has the value \<open>v\<close> when the candidates in \<open>D\<close> have the values \<open>E\<close> gives them.
\<close>

fun denotes ::
  "candidates \<Rightarrow> (string \<Rightarrow> constant_value option) \<Rightarrow> candidate \<Rightarrow> expression \<Rightarrow> constant_value \<Rightarrow> string set \<Rightarrow> bool" where
  "denotes cands E c (EnumImplicit None) v D \<longleftrightarrow> zero_value (cd_primitive c) = Ok v \<and> D = {}"
| "denotes cands E c (EnumImplicit (Some previous)) v D \<longleftrightarrow>
     (\<exists>w. E previous = Some w \<and> checked_increment w (cd_primitive c) = Ok v) \<and> D = {previous}"
| "denotes cands E c (Parsed tokens) v D \<longleftrightarrow>
     (let pc = candidate_context cands c tokens in
      \<exists>e. tokens_of e = tokens \<and> wf_expr e \<and> eval_expr (named pc E) (cd_primitive c) e = Ok v \<and>
        value_matches v (cd_primitive c) \<and> D = (\<Union>n \<in> names e. set (matching pc n)))"

text \<open>The values that follow from the candidates alone.\<close>

inductive derives :: "candidates \<Rightarrow> string \<Rightarrow> constant_value \<Rightarrow> bool" for cands :: candidates where
  derivesI: "bt_get cands k = Some c \<Longrightarrow> denotes cands E c (cd_expression c) v D \<Longrightarrow>
    (\<forall>k' w. E k' = Some w \<longrightarrow> derives cands k' w) \<Longrightarrow> derives cands k v"

lemma named_mono: "E \<subseteq>\<^sub>m F \<Longrightarrow> named pc E \<subseteq>\<^sub>m named pc F"
  by (auto simp: named_def map_le_def dom_def split: list.splits)

lemma denotes_mono: "denotes cands E c x v D \<Longrightarrow> E \<subseteq>\<^sub>m F \<Longrightarrow> denotes cands F c x v D"
proof (induction cands E c x v D rule: denotes.induct)
  case (3 cands E c tokens v D)
  from eval_expr_mono [OF _ named_mono [OF 3(2)]] 3(1) show ?case unfolding denotes.simps Let_def by blast
qed (auto simp: map_le_def dom_def)

section \<open>Invariants of the evaluator\<close>

definition values_of :: "evaluator \<Rightarrow> string \<Rightarrow> constant_value option" where
  "values_of ev k = map_option el_value (bt_get (ev_evaluated ev) k)"

text \<open>The values of the candidates below a dependency level.\<close>

definition below :: "evaluator \<Rightarrow> nat \<Rightarrow> string \<Rightarrow> constant_value option" where
  "below ev n k =
     (case bt_get (ev_evaluated ev) k of
        Some w \<Rightarrow> if el_dependency_levels w < n then Some (el_value w) else None
      | None \<Rightarrow> None)"

fun limit_failed :: "evaluation_failure \<Rightarrow> bool" where
  "limit_failed (Limit_failure _ _ _) = True"
| "limit_failed _ = False"

text \<open>Assignments that agree with what is known: evaluated candidates have their values, failed ones
  and those being visited have none.\<close>

definition admissible :: "candidates \<Rightarrow> evaluator \<Rightarrow> (string \<Rightarrow> constant_value option) \<Rightarrow> bool" where
  "admissible cands ev E \<longleftrightarrow>
     values_of ev \<subseteq>\<^sub>m E \<and> (\<forall>k. E k \<noteq> None \<longrightarrow> bt_get cands k \<noteq> None) \<and>
     (\<forall>k s. bt_get (ev_states ev) k = Some s \<longrightarrow> s \<noteq> Complete \<longrightarrow> E k = None)"

definition evaluation_ok :: "candidates \<Rightarrow> evaluator \<Rightarrow> candidate \<Rightarrow> evaluation \<Rightarrow> bool" where
  "evaluation_ok cands ev c w \<longleftrightarrow>
     fits (el_value w) (cd_primitive c) \<and>
     el_dependency_levels w \<le> constant_maximum DependencyLevels \<and>
     length (el_dependency_ids w) \<le> constant_maximum DirectDependencies \<and>
     sorted_wrt (<) (el_dependency_ids w) \<and>
     denotes cands (below ev (el_dependency_levels w)) c (cd_expression c) (el_value w) (set (el_dependency_ids w)) \<and>
     (\<forall>E v D. values_of ev \<subseteq>\<^sub>m E \<longrightarrow> denotes cands E c (cd_expression c) v D \<longrightarrow> v = el_value w)"

definition keyed :: "candidates \<Rightarrow> bool" where
  "keyed cands \<longleftrightarrow> bt_wf cands \<and> (\<forall>k c. bt_get cands k = Some c \<longrightarrow> cd_declared_value_id c = k)"

definition ev_inv :: "candidates \<Rightarrow> evaluator \<Rightarrow> bool" where
  "ev_inv cands ev \<longleftrightarrow>
     keyed cands \<and> bt_wf (ev_states ev) \<and> bt_wf (ev_evaluated ev) \<and>
     (\<forall>k. bt_get (ev_evaluated ev) k \<noteq> None \<longleftrightarrow> bt_get (ev_states ev) k = Some Complete) \<and>
     (\<forall>k. bt_get (ev_states ev) k \<noteq> None \<longrightarrow> bt_get cands k \<noteq> None) \<and>
     (\<forall>k c w. bt_get cands k = Some c \<longrightarrow> bt_get (ev_evaluated ev) k = Some w \<longrightarrow> evaluation_ok cands ev c w) \<and>
     (\<forall>k c f E v D. bt_get cands k = Some c \<longrightarrow> bt_get (ev_states ev) k = Some (Failed f) \<longrightarrow> \<not> limit_failed f \<longrightarrow>
        admissible cands ev E \<longrightarrow> \<not> denotes cands E c (cd_expression c) v D)"

text \<open>What is settled stays: states and values are kept, and what is new is no longer being visited.\<close>

definition extends_ev :: "evaluator \<Rightarrow> evaluator \<Rightarrow> bool" where
  "extends_ev ev ev' \<longleftrightarrow>
     (\<forall>k s. bt_get (ev_states ev) k = Some s \<longrightarrow> bt_get (ev_states ev') k = Some s) \<and>
     (\<forall>k w. bt_get (ev_evaluated ev) k = Some w \<longrightarrow> bt_get (ev_evaluated ev') k = Some w) \<and>
     (\<forall>k. bt_get (ev_states ev) k = None \<longrightarrow> bt_get (ev_states ev') k \<noteq> Some Visiting)"

definition grows :: "evaluator \<Rightarrow> evaluator \<Rightarrow> bool" where
  "grows ev ev' \<longleftrightarrow> (\<forall>k w. bt_get (ev_evaluated ev) k = Some w \<longrightarrow> bt_get (ev_evaluated ev') k = Some w)"

definition quiet :: "evaluator \<Rightarrow> evaluator \<Rightarrow> bool" where
  "quiet ev ev' \<longleftrightarrow>
     (\<forall>k f. bt_get (ev_states ev') k = Some (Failed f) \<longrightarrow> bt_get (ev_states ev) k = Some (Failed f))"

text \<open>A failure stops all evaluations under way, so that only it is recorded.\<close>

definition calm :: "evaluation_failure \<Rightarrow> evaluator \<Rightarrow> evaluator \<Rightarrow> bool" where
  "calm f ev ev' \<longleftrightarrow>
     (\<forall>k g. bt_get (ev_states ev') k = Some (Failed g) \<longrightarrow> bt_get (ev_states ev) k = Some (Failed g) \<or> g = f)"

definition unvisited :: "candidates \<Rightarrow> evaluator \<Rightarrow> nat" where
  "unvisited cands ev = length (filter (\<lambda>k. bt_get (ev_states ev) k = None) (bt_keys cands))"

lemma extends_ev_refl [simp]: "extends_ev ev ev"
  by (auto simp: extends_ev_def)

lemma extends_ev_trans: "extends_ev a b \<Longrightarrow> extends_ev b c \<Longrightarrow> extends_ev a c"
  unfolding extends_ev_def by (metis option.exhaust_sel option.inject)

lemma quiet_refl [simp]: "quiet ev ev"
  by (simp add: quiet_def)

lemma calm_refl [simp]: "calm f ev ev"
  by (simp add: calm_def)

lemma quiet_calm: "quiet a b \<Longrightarrow> calm f a b"
  by (auto simp: quiet_def calm_def)

lemma quiet_calm_trans: "quiet a b \<Longrightarrow> calm f b c \<Longrightarrow> calm f a c"
  by (auto simp: quiet_def calm_def)

lemma quiet_trans: "quiet a b \<Longrightarrow> quiet b c \<Longrightarrow> quiet a c"
  by (auto simp: quiet_def)

lemma extends_grows: "extends_ev ev ev' \<Longrightarrow> grows ev ev'"
  by (simp add: extends_ev_def grows_def)

lemma values_of_grows: "grows ev ev' \<Longrightarrow> values_of ev \<subseteq>\<^sub>m values_of ev'"
  by (auto simp: grows_def values_of_def map_le_def dom_def)

lemmas values_of_mono = values_of_grows [OF extends_grows]

lemma below_grows: "grows ev ev' \<Longrightarrow> m \<le> n \<Longrightarrow> below ev m \<subseteq>\<^sub>m below ev' n"
  by (auto simp: grows_def below_def map_le_def dom_def split: option.splits if_splits)

lemmas below_mono = below_grows [OF extends_grows]

lemma below_values: "below ev n \<subseteq>\<^sub>m values_of ev"
  by (auto simp: below_def values_of_def map_le_def split: option.splits)

lemma unvisited_mono: "extends_ev ev ev' \<Longrightarrow> unvisited cands ev' \<le> unvisited cands ev"
proof -
  assume "extends_ev ev ev'"
  then have "bt_get (ev_states ev') k = None \<Longrightarrow> bt_get (ev_states ev) k = None" for k
    by (metis extends_ev_def not_None_eq)
  then have "length (filter (\<lambda>k. bt_get (ev_states ev') k = None) ks) \<le>
    length (filter (\<lambda>k. bt_get (ev_states ev) k = None) ks)" for ks
    by (induction ks) (auto simp: le_SucI)
  then show ?thesis by (simp add: unvisited_def)
qed

lemma admissible_mono: "extends_ev ev ev' \<Longrightarrow> admissible cands ev' E \<Longrightarrow> admissible cands ev E"
  using values_of_mono [of ev ev'] by (auto simp: admissible_def extends_ev_def intro: map_le_trans)

lemma evaluation_ok_mono: "evaluation_ok cands ev c w \<Longrightarrow> grows ev ev' \<Longrightarrow> evaluation_ok cands ev' c w"
proof -
  assume ok: "evaluation_ok cands ev c w" and ext: "grows ev ev'"
  have "v = el_value w" if "values_of ev' \<subseteq>\<^sub>m E" "denotes cands E c (cd_expression c) v D" for E v D
    using ok that map_le_trans [OF values_of_grows [OF ext]] by (auto simp: evaluation_ok_def)
  then show ?thesis
    using ok denotes_mono [OF _ below_grows [OF ext order.refl]] by (auto simp: evaluation_ok_def)
qed

end
