(* ===== verification/Constant_Parser.thy ===== *)
theory Constant_Parser
  imports Constant_Semantics
begin

text \<open>
  The expression parser is sound and complete for the grammar, under any dependency resolver that keeps
  the contract of the locale \<open>resolver\<close>.
\<close>

section \<open>The contract of a resolver\<close>

text \<open>
  What the parser relies on: a resolver keeps the invariant and what is settled. A value it returns
  is recorded, and no candidate failed on the way. The failure it returns is the only one it records,
  and when it fails without a limit, the candidate has
  failed, is being visited, or does not exist. It stops without an outcome only when the fuel does
  not exceed the number of candidates left.
\<close>

fun outcome_ok ::
  "candidates \<Rightarrow> nat \<Rightarrow> string \<Rightarrow> evaluator \<Rightarrow> (evaluation, evaluation_failure) result \<Rightarrow> evaluator \<Rightarrow> bool" where
  "outcome_ok cands fuel k ev (Ok w) ev' \<longleftrightarrow> bt_get (ev_evaluated ev') k = Some w \<and> quiet ev ev'"
| "outcome_ok cands fuel k ev (Err f) ev' \<longleftrightarrow>
     calm f ev ev' \<and>
     (limit_failed f \<or> (\<exists>g. bt_get (ev_states ev') k = Some (Failed g)) \<or>
      bt_get (ev_states ev) k = Some Visiting \<or> bt_get cands k = None)"
| "outcome_ok cands fuel k ev Panic ev' \<longleftrightarrow> fuel \<le> unvisited cands ev"

locale resolver =
  fixes cands :: candidates and resolve :: resolver_fun and fuel :: nat
  assumes resolve_outcome: "ev_inv cands ev \<Longrightarrow> resolve k ev = (r, ev') \<Longrightarrow>
      ev_inv cands ev' \<and> extends_ev ev ev' \<and> outcome_ok cands fuel k ev r ev'"
begin

definition parser_inv :: "parser \<Rightarrow> bool" where
  "parser_inv p \<longleftrightarrow>
     ev_inv cands (ps_evaluator p) \<and> bt_wf (ps_dependencies p) \<and>
     length (ps_dependencies p) \<le> constant_maximum DirectDependencies \<and>
     ps_dependency_levels p \<le> constant_maximum DependencyLevels"

definition runs :: "parser \<Rightarrow> ('a, evaluation_failure) result \<Rightarrow> parser \<Rightarrow> bool" where
  "runs p r p' \<longleftrightarrow>
     parser_inv p' \<and> extends_ev (ps_evaluator p) (ps_evaluator p') \<and>
     ps_dependency_levels p \<le> ps_dependency_levels p' \<and>
     (\<not> stopped r \<longrightarrow> quiet (ps_evaluator p) (ps_evaluator p')) \<and>
     (\<forall>f. r = Err f \<longrightarrow> calm f (ps_evaluator p) (ps_evaluator p')) \<and>
     (r = Panic \<longrightarrow> fuel \<le> unvisited cands (ps_evaluator p))"

definition value_env :: "parse_context \<Rightarrow> parser \<Rightarrow> string \<Rightarrow> constant_value option" where
  "value_env pc p = named pc (below (ps_evaluator p) (ps_dependency_levels p))"

definition reads :: "parse_context \<Rightarrow> parser \<Rightarrow> expr \<Rightarrow> constant_value \<Rightarrow> parser \<Rightarrow> bool" where
  "reads pc p e v p' \<longleftrightarrow>
     drop (ps_position p) (pc_tokens pc) = tokens_of e @ drop (ps_position p') (pc_tokens pc) \<and>
     ps_position p' = ps_position p + length (tokens_of e) \<and> wf_expr e \<and>
     eval_expr (value_env pc p') (pc_primitive pc) e = Ok v \<and>
     set (bt_keys (ps_dependencies p')) =
       set (bt_keys (ps_dependencies p)) \<union> (\<Union>n \<in> names e. set (matching pc n))"

lemma runs_refl: "parser_inv p \<Longrightarrow> r \<noteq> Panic \<Longrightarrow> runs p r p"
  by (simp add: runs_def)

lemma runs_trans: "runs p (Ok v) p1 \<Longrightarrow> runs p1 r p2 \<Longrightarrow> runs p r p2"
  using unvisited_mono [of "ps_evaluator p" "ps_evaluator p1" cands]
  by (auto simp: runs_def stopped_def intro: extends_ev_trans quiet_trans quiet_calm_trans)

lemma parser_inv_same [simp]:
  "parser_inv (advance p) \<longleftrightarrow> parser_inv p" "parser_inv (p\<lparr>ps_syntax_nodes := n\<rparr>) \<longleftrightarrow> parser_inv p"
  by (simp_all add: parser_inv_def)

lemma runs_same [simp]:
  "runs (advance p) r q \<longleftrightarrow> runs p r q" "runs (p\<lparr>ps_syntax_nodes := n\<rparr>) r q \<longleftrightarrow> runs p r q"
  "runs p r (advance q) \<longleftrightarrow> runs p r q" "runs p r (q\<lparr>ps_syntax_nodes := n\<rparr>) \<longleftrightarrow> runs p r q"
  by (simp_all add: runs_def)

lemma runs_inv: "runs p r q \<Longrightarrow> parser_inv q"
  by (simp add: runs_def)

lemma runs_Err: "runs p (Ok v) q \<Longrightarrow> runs p (Err e) q"
  by (simp add: runs_def stopped_def quiet_calm)

lemma runs_Ok: "runs p (Ok v) q \<Longrightarrow> runs p (Ok w) q"
  by (simp add: runs_def stopped_def)

lemma runs_and_then: "runs p r q \<Longrightarrow> (\<And>v. f v \<noteq> Panic) \<Longrightarrow> runs p (and_then r f) q"
  by (cases r) (auto simp: runs_def stopped_def quiet_calm)

lemma value_env_mono: "runs p r p' \<Longrightarrow> value_env pc p \<subseteq>\<^sub>m value_env pc p'"
  unfolding value_env_def by (rule named_mono) (auto simp: runs_def intro: below_mono)

lemma resolve_dependency_runs:
  assumes p: "parser_inv p" and run: "resolve_dependency resolve pc name p = (r, p')"
  shows "runs p r p' \<and>
    (\<forall>v. r = Ok v \<longrightarrow> value_env pc p' name = Some v \<and>
      set (bt_keys (ps_dependencies p')) = set (bt_keys (ps_dependencies p)) \<union> set (matching pc name))"
proof (cases "\<exists>k. matching pc name = [k] \<and>
    (bs_contains (ps_dependencies p) k \<or> length (ps_dependencies p) < constant_maximum DirectDependencies)")
  case True
  then obtain k where k: "matching pc name = [k]"
    and deps: "bs_contains (ps_dependencies p) k \<or> length (ps_dependencies p) < constant_maximum DirectDependencies"
    by blast
  have enforced: "(if bs_contains (ps_dependencies p) k then Ok ()
    else enforce_limit DirectDependencies (saturating_add (length (ps_dependencies p)) 1)) = Ok ()"
    using deps by (auto simp: enforce_limit_def saturating_add_def u64_max_def)
  obtain q ev where q: "resolve k (ps_evaluator p) = (q, ev)" by (metis surj_pair)
  note out = resolve_outcome [OF _ q]
  have ev: "ev_inv cands (ps_evaluator p)" using p by (simp add: parser_inv_def)
  show ?thesis
  proof (cases q)
    case (Ok w)
    show ?thesis
    proof (cases "el_dependency_levels w < constant_maximum DependencyLevels")
      case True
      then have "enforce_limit DependencyLevels (saturating_add (el_dependency_levels w) 1) = Ok ()"
        "saturating_add (el_dependency_levels w) 1 = el_dependency_levels w + 1"
        by (auto simp: enforce_limit_def saturating_add_def u64_max_def)
      with run q Ok enforced k have r: "r = Ok (el_value w)"
        "p' = p\<lparr>ps_evaluator := ev, ps_dependency_levels := max (ps_dependency_levels p) (el_dependency_levels w + 1),
          ps_dependencies := bs_insert k (ps_dependencies p)\<rparr>"
        by (auto simp: resolve_dependency_def Let_def)
      have "length (bs_insert k (ps_dependencies p)) \<le> constant_maximum DirectDependencies"
        using deps p by (auto simp: bs_insert_def bs_contains_def bt_put_length parser_inv_def simp del: constant_maximum.simps)
      moreover have "bt_wf (bs_insert k (ps_dependencies p))" using p by (simp add: parser_inv_def bs_insert_def bt_wf_put)
      ultimately have "runs p r p'" using out [OF ev] p Ok r True by (auto simp: runs_def parser_inv_def)
      moreover have "value_env pc p' name = Some (el_value w)"
        using out [OF ev] Ok r k by (simp add: value_env_def named_def below_def)
      ultimately show ?thesis using r k by (simp add: bs_insert_keys)
    next
      case False
      then obtain f where "enforce_limit DependencyLevels (saturating_add (el_dependency_levels w) 1) = Err f"
        by (auto simp: enforce_limit_def saturating_add_def u64_max_def)
      with run q Ok enforced k have "r = Err f" "p' = p\<lparr>ps_evaluator := ev\<rparr>"
        by (auto simp: resolve_dependency_def Let_def)
      then show ?thesis using out [OF ev] p Ok by (auto simp: runs_def parser_inv_def stopped_def quiet_calm)
    qed
  next
    case (Err f)
    with run q enforced k have "r = Err f" "p' = p\<lparr>ps_evaluator := ev\<rparr>" by (auto simp: resolve_dependency_def)
    then show ?thesis using out [OF ev] p Err by (auto simp: runs_def parser_inv_def stopped_def)
  next
    case Panic
    with run q enforced k have "r = Panic" "p' = p\<lparr>ps_evaluator := ev\<rparr>" by (auto simp: resolve_dependency_def)
    then show ?thesis using out [OF ev] p Panic by (auto simp: runs_def parser_inv_def stopped_def)
  qed
next
  case False
  then have "\<exists>e. r = Err e \<and> p' = p"
    using run by (auto simp: resolve_dependency_def enforce_limit_def saturating_add_def u64_max_def split: list.splits if_splits)
  then show ?thesis using p by (auto intro: runs_refl)
qed

text \<open>What the parser reads is an expression of the grammar with the value it returns.\<close>

lemma reads_leaf:
  assumes "peek pc p = Some t" "leaf_value pc t = Some (Ok v)"
  shows "\<exists>e. reads pc p e v (advance p) \<and> prec e = 9"
proof -
  have d: "drop (ps_position p) (pc_tokens pc) = t # drop (ps_position p + 1) (pc_tokens pc)"
    using peek_drop [OF assms(1)] by simp
  show ?thesis
  proof (cases t)
    case (T_Bool b)
    with assms d show ?thesis by (intro exI [of _ "E_Bool b"]) (auto simp: reads_def split: if_splits)
  next
    case (T_Integer l)
    with assms d show ?thesis by (intro exI [of _ "E_Int l"]) (auto simp: reads_def)
  qed (use assms in \<open>auto split: if_splits\<close>)
qed

lemma reads_extend:
  assumes "reads pc p e v p1" "runs p1 r p2"
  shows "eval_expr (value_env pc p2) (pc_primitive pc) e = Ok v"
  using assms eval_expr_mono [OF _ value_env_mono [OF assms(2)]] by (simp add: reads_def)

lemma reads_prefixed:
  assumes "peek pc p = Some t" "reads pc p1 e v p2" "ps_position p1 = ps_position p + 1"
    "ps_dependencies p1 = ps_dependencies p" "tokens_of e' = t # tokens_of e" "wf_expr e'"
    "names e' = names e" "eval_expr (value_env pc p2) (pc_primitive pc) e' = Ok w"
  shows "reads pc p e' w p2"
  using assms peek_drop [OF assms(1)] by (auto simp: reads_def)

lemma reads_bin:
  assumes "reads pc p0 l x p" "next_operator pc m p = Some (op, q)" "q \<le> prec l"
    and "reads pc p1 r y p2" "q < prec r" "ps_position p1 = ps_position p + 1" "ps_dependencies p1 = ps_dependencies p"
    and "eval_expr (value_env pc p2) (pc_primitive pc) l = Ok x" "apply_binary op x y (pc_primitive pc) = Ok v"
  shows "reads pc p0 (E_Bin op l r) v p2"
proof -
  have op: "peek pc p = Some (T_Operator op)" "binary_precedence op = Some q"
    using assms(2) by (auto simp: next_operator_def split: option.splits token.splits if_splits)
  show ?thesis using assms op(2) peek_drop [OF op(1)] by (auto simp: reads_def)
qed

lemma next_operator_Some:
  assumes "next_operator pc m p = Some (op, q)"
  shows "peek pc p = Some (T_Operator op)" "binary_precedence op = Some q" "m \<le> q" "q \<le> 8"
  using assms binary_precedence_bound [of op q]
  by (auto simp: next_operator_def split: option.splits token.splits if_splits)

lemma next_operator_antimono: "next_operator pc m p = None \<Longrightarrow> m \<le> n \<Longrightarrow> next_operator pc n p = None"
  by (auto simp: next_operator_def split: option.splits token.splits if_splits)

lemma next_operator_operand: "prec e = 9 \<Longrightarrow> next_operator pc (prec e + 1) p = None"
  by (auto simp: next_operator_def split: option.splits token.splits dest: binary_precedence_bound)

lemma leaf_value_not_Panic: "leaf_value pc t = Some r \<Longrightarrow> r \<noteq> Panic"
  by (cases t) (auto split: if_splits)

lemma parser_runs:
  "reads_expression resolve pc m p r p' \<Longrightarrow> parser_inv p \<Longrightarrow> runs p r p'"
  "reads_operators resolve pc m left p r p' \<Longrightarrow> parser_inv p \<Longrightarrow> runs p r p'"
  "reads_prefix resolve pc p r p' \<Longrightarrow> parser_inv p \<Longrightarrow> runs p r p'"
proof (induction rule: reads_expression_reads_operators_reads_prefix.inducts)
  case (expression_read p p1 v p2 m r p3)
  then have run: "runs p (Ok v) p2" by (simp add: bump_node_iff)
  with expression_read have "runs p2 r p3" by (simp add: runs_inv)
  with run show ?case by (rule runs_trans)
next
  case (operators_read m p op q right p1 left left' r p2)
  then have run: "runs p (Ok right) p1" by simp
  with operators_read have "runs p1 r p2" by (simp add: runs_inv)
  with run show ?case by (rule runs_trans)
next
  case (prefix_name p name r p1)
  then show ?case using resolve_dependency_runs [of "advance p"] by auto
qed (auto simp: bump_node_iff dest: leaf_value_not_Panic intro: runs_refl runs_Err runs_and_then)

lemma parser_sound:
  "reads_expression resolve pc m p r p' \<Longrightarrow> parser_inv p \<Longrightarrow> m \<le> 9 \<Longrightarrow> r = Ok v \<Longrightarrow>
     \<exists>e. reads pc p e v p' \<and> m \<le> prec e \<and> next_operator pc m p' = None"
  "reads_operators resolve pc m left p r p' \<Longrightarrow> parser_inv p \<Longrightarrow> r = Ok v \<Longrightarrow>
     reads pc p0 e0 left p \<Longrightarrow> m \<le> prec e0 \<Longrightarrow> next_operator pc (prec e0 + 1) p = None \<Longrightarrow>
     \<exists>e. reads pc p0 e v p' \<and> m \<le> prec e \<and> next_operator pc m p' = None"
  "reads_prefix resolve pc p r p' \<Longrightarrow> parser_inv p \<Longrightarrow> r = Ok v \<Longrightarrow> \<exists>e. reads pc p e v p' \<and> prec e = 9"
proof (induction arbitrary: v and v p0 e0 and v rule: reads_expression_reads_operators_reads_prefix.inducts)
  case (expression_read p p1 x p2 m r p3)
  then have p1: "parser_inv p1" by (simp add: bump_node_iff)
  from expression_read(3) [OF p1 refl] obtain e where e: "reads pc p1 e x p2" "prec e = 9" by auto
  have "parser_inv p2" using parser_runs(3) [OF expression_read(2) p1] by (rule runs_inv)
  from expression_read(5) [OF this \<open>r = Ok v\<close> e(1) _ next_operator_operand [OF e(2)]]
  show ?case using expression_read(1) \<open>m \<le> 9\<close> e(2) by (auto simp: reads_def bump_node_iff)
next
  case (operators_read m p op q right p1 left left' r p2)
  note n = next_operator_Some [OF operators_read(1)]
  have p: "parser_inv (advance p)" "q + 1 \<le> 9" using operators_read(7) n by auto
  from operators_read(3) [OF p refl] obtain er where er: "reads pc (advance p) er right p1"
    "q + 1 \<le> prec er" "next_operator pc (q + 1) p1 = None" by auto
  have run: "runs p (Ok right) p1" using parser_runs(1) [OF operators_read(2) p(1)] by simp
  have q: "q \<le> prec e0"
    using operators_read(1,11) by (auto simp: next_operator_def split: option.splits token.splits if_splits)
  have "reads pc p0 (E_Bin op e0 er) left' p1"
    by (rule reads_bin [OF operators_read(9) operators_read(1) q er(1)])
      (use er(2) operators_read(4) reads_extend [OF operators_read(9) run] in auto)
  moreover have "prec (E_Bin op e0 er) = q" using n(2) by simp
  ultimately show ?case using operators_read(6) [OF runs_inv [OF run] operators_read(8), of p0 "E_Bin op e0 er"] n(3) er(3) by simp
next
  case (prefix_leaf p t r)
  then show ?case using reads_leaf by blast
next
  case (prefix_name p name r p1)
  have p: "parser_inv (advance p)" using prefix_name(3) by simp
  have "reads pc p (E_Name name) v p1"
    using prefix_name(4) resolve_dependency_runs [OF p prefix_name(2)] peek_drop [OF prefix_name(1)]
      resolve_dependency_position [OF prefix_name(2)]
    by (simp add: reads_def)
  then show ?case by (intro exI [of _ "E_Name name"]) simp
next
  case (prefix_not p p1 r p2)
  then obtain w where w: "r = Ok w" "checked_not w (pc_primitive pc) = Ok v" by (auto simp: result_iffs)
  with prefix_not obtain e where e: "reads pc p1 e w p2" "prec e = 9" by (auto simp: bump_node_iff)
  have "reads pc p (E_Not e) v p2"
    by (rule reads_prefixed [OF prefix_not(1) e(1)])
      (use \<open>bump_node (advance p) = (Ok (), p1)\<close> e w in \<open>auto simp: bump_node_iff reads_def\<close>)
  then show ?case by (intro exI [of _ "E_Not e"]) simp
next
  case (prefix_negative p p1 literal)
  have p1: "peek pc p1 = Some (T_Integer literal)"
    using \<open>integer_at pc p1 = Some literal\<close> by (auto simp: integer_at_def split: option.splits token.splits)
  have "reads pc p (E_NegInt literal) v (advance p1)"
    using \<open>bump_node (advance p) = (Ok (), p1)\<close> \<open>parse_integer literal (pc_primitive pc) True = Ok v\<close> peek_drop [OF prefix_negative(1)] peek_drop [OF p1] by (auto simp: bump_node_iff reads_def)
  then show ?case by (intro exI [of _ "E_NegInt literal"]) simp
next
  case (prefix_negate p p1 r p2)
  then obtain w where w: "r = Ok w" "checked_negate w (pc_primitive pc) = Ok v" by (auto simp: result_iffs)
  with prefix_negate obtain e where e: "reads pc p1 e w p2" "prec e = 9" by (auto simp: bump_node_iff)
  have "e \<noteq> E_Int l" for l
  proof
    assume "e = E_Int l"
    with e(1) have "drop (ps_position p1) (pc_tokens pc) = T_Integer l # drop (ps_position p2) (pc_tokens pc)"
      by (simp add: reads_def)
    then have "peek pc p1 = Some (T_Integer l)" by (rule drop_peek)
    with \<open>integer_at pc p1 = None\<close> show False by (simp add: integer_at_def)
  qed
  then have "reads pc p (E_Neg e) v p2"
    by (intro reads_prefixed [OF prefix_negate(1) e(1)])
      (use \<open>bump_node (advance p) = (Ok (), p1)\<close> e w in \<open>auto simp: bump_node_iff reads_def\<close>)
  then show ?case by (intro exI [of _ "E_Neg e"]) simp
next
  case (prefix_paren p x p1)
  from prefix_paren(3) [of v] prefix_paren(5,6) obtain e where e: "reads pc (advance p) e v p1" by auto
  have "reads pc p (E_Paren e) v (advance p1)"
    using e peek_drop [OF prefix_paren(1)] peek_drop [OF prefix_paren(4)]
    by (auto simp: reads_def value_env_def)
  then show ?case by (intro exI [of _ "E_Paren e"]) simp
qed (auto simp: stopped_def)

text \<open>
  Conversely the parser reads every expression of the grammar, unless a limit stops it: for an
  assignment \<open>E\<close> that agrees with the state it leaves behind, it returns the value under \<open>E\<close>.
\<close>

definition compatible :: "(string \<Rightarrow> constant_value option) \<Rightarrow> (constant_value, evaluation_failure) result \<Rightarrow> parser \<Rightarrow> bool" where
  "compatible E r p \<longleftrightarrow>
     values_of (ps_evaluator p) \<subseteq>\<^sub>m E \<and> (stopped r \<longrightarrow> admissible cands (ps_evaluator p) E)"

definition limited :: "(constant_value, evaluation_failure) result \<Rightarrow> bool" where
  "limited r \<longleftrightarrow> r = Panic \<or> (\<exists>f. r = Err f \<and> limit_failed f)"

definition prefix_complete :: "parse_context \<Rightarrow> (string \<Rightarrow> constant_value option) \<Rightarrow> expr \<Rightarrow> bool" where
  "prefix_complete pc E e \<longleftrightarrow>
     (\<forall>p r p' v rest. parser_inv p \<longrightarrow> drop (ps_position p) (pc_tokens pc) = tokens_of e @ rest \<longrightarrow>
        parse_prefix resolve pc p = (r, p') \<longrightarrow> compatible E r p' \<longrightarrow>
        eval_expr (named pc E) (pc_primitive pc) e = Ok v \<longrightarrow>
        limited r \<or> r = Ok v \<and> ps_position p' = ps_position p + length (tokens_of e))"

fun follow_below :: "token list \<Rightarrow> nat \<Rightarrow> bool" where
  "follow_below (T_Operator op # rest) m \<longleftrightarrow> (case binary_precedence op of None \<Rightarrow> True | Some k \<Rightarrow> k < m)"
| "follow_below _ m \<longleftrightarrow> True"

definition spine_complete :: "parse_context \<Rightarrow> (string \<Rightarrow> constant_value option) \<Rightarrow> expr \<Rightarrow> bool" where
  "spine_complete pc E e \<longleftrightarrow>
     (\<forall>m p r p' v rest. parser_inv p \<longrightarrow> drop (ps_position p) (pc_tokens pc) = tokens_of e @ rest \<longrightarrow>
        m \<le> prec e \<longrightarrow> follow_below rest (prec e + 1) \<longrightarrow>
        p_bind (parse_prefix resolve pc) (parse_operators resolve pc m) p = (r, p') \<longrightarrow> compatible E r p' \<longrightarrow>
        eval_expr (named pc E) (pc_primitive pc) e = Ok v \<longrightarrow>
        limited r \<or>
        (\<exists>p1. runs p (Ok v) p1 \<and> ps_position p1 = ps_position p + length (tokens_of e) \<and>
          parse_operators resolve pc m v p1 = (r, p')))"

lemma spine_completeD:
  assumes "spine_complete pc E e" "parser_inv p" "drop (ps_position p) (pc_tokens pc) = tokens_of e @ rest"
    "m \<le> prec e" "follow_below rest (prec e + 1)"
    "p_bind (parse_prefix resolve pc) (parse_operators resolve pc m) p = (r, p')" "compatible E r p'"
    "eval_expr (named pc E) (pc_primitive pc) e = Ok v"
  obtains "limited r" | p1 where "runs p (Ok v) p1" "ps_position p1 = ps_position p + length (tokens_of e)"
    "parse_operators resolve pc m v p1 = (r, p')"
  using assms unfolding spine_complete_def by metis

lemma compatible_back: "compatible E r p2 \<Longrightarrow> runs p1 r' p2 \<Longrightarrow> compatible E (Ok x) p1"
  using values_of_mono [of "ps_evaluator p1" "ps_evaluator p2"]
  by (auto simp: compatible_def runs_def stopped_def intro: map_le_trans)

lemma compatible_same [simp]:
  "compatible E r (advance p) \<longleftrightarrow> compatible E r p" "compatible E (Ok x) p \<longleftrightarrow> compatible E (Ok y) p"
  by (simp_all add: compatible_def stopped_def)

lemma limited_simps [simp]: "limited Panic" "limited (Err f) \<longleftrightarrow> limit_failed f" "\<not> limited (Ok v)"
  by (simp_all add: limited_def)

lemma resolve_dependency_complete:
  assumes p: "parser_inv p" and run: "resolve_dependency resolve pc name p = (r, p')"
    and E: "compatible E r p'" "named pc E name = Some v"
  shows "limited r \<or> r = Ok v"
proof -
  from E(2) obtain k where k: "matching pc name = [k]" "E k = Some v" by (auto simp: named_def split: list.splits)
  obtain q ev where q: "resolve k (ps_evaluator p) = (q, ev)" by (metis surj_pair)
  have out: "extends_ev (ps_evaluator p) ev" "outcome_ok cands fuel k (ps_evaluator p) q ev"
    using resolve_outcome [OF _ q] p by (auto simp: parser_inv_def)
  have limit: "limit_failed f" if "enforce_limit l n = Err f" for l n f
    using that by (auto simp: enforce_limit_def split: if_splits)
  show ?thesis
  proof (cases q)
    case (Ok w)
    then have "values_of ev k = Some (el_value w)" using out by (simp add: values_of_def)
    moreover have "values_of ev \<subseteq>\<^sub>m E \<or> limited r"
      using run k q Ok E(1) limit
      by (auto simp: resolve_dependency_def Let_def compatible_def split: result.splits if_splits)
    ultimately have "v = el_value w \<or> limited r" using k(2) by (force simp: map_le_def dom_def)
    then show ?thesis
      using run k q Ok limit by (auto simp: resolve_dependency_def Let_def split: result.splits if_splits)
  next
    case (Err f)
    have "\<not> admissible cands ev E" if "\<not> limit_failed f"
    proof
      assume "admissible cands ev E"
      with k(2) have "bt_get cands k \<noteq> None" "bt_get (ev_states ev) k = Some s \<Longrightarrow> s = Complete" for s
        by (force simp: admissible_def)+
      with out Err that show False by (force simp: extends_ev_def)
    qed
    then have "limit_failed f \<or> \<not> admissible cands ev E" by blast
    then show ?thesis
      using run k q Err limit E(1)
      by (auto simp: resolve_dependency_def compatible_def stopped_def split: result.splits if_splits)
  next
    case Panic
    then show ?thesis using run k q limit by (auto simp: resolve_dependency_def split: result.splits if_splits)
  qed
qed

lemma spine_of_prefix:
  assumes "prefix_complete pc E e" "prec e = 9"
  shows "spine_complete pc E e"
  unfolding spine_complete_def
proof (intro allI impI)
  fix m p r p' v rest
  assume a: "parser_inv p" "drop (ps_position p) (pc_tokens pc) = tokens_of e @ rest"
    "p_bind (parse_prefix resolve pc) (parse_operators resolve pc m) p = (r, p')" "compatible E r p'"
    "eval_expr (named pc E) (pc_primitive pc) e = Ok v"
  obtain q p1 where q: "parse_prefix resolve pc p = (q, p1)" by (metis surj_pair)
  have run: "runs p q p1" using parser_runs(3) [OF parse_reads(3) [OF q] a(1)] .
  have step: "limited q \<or> q = Ok v \<and> ps_position p1 = ps_position p + length (tokens_of e)" if "compatible E q p1"
    using assms(1) a q that unfolding prefix_complete_def by blast
  show "limited r \<or> (\<exists>p1. runs p (Ok v) p1 \<and> ps_position p1 = ps_position p + length (tokens_of e) \<and>
      parse_operators resolve pc m v p1 = (r, p'))"
  proof (cases q rule: stopped_cases)
    case (1 w)
    with a(3) q have ops: "parse_operators resolve pc m w p1 = (r, p')" by (simp add: p_bind_Ok)
    have "runs p1 r p'" using parser_runs(2) [OF parse_reads(2) [OF ops] runs_inv [OF run]] .
    from step compatible_back [OF a(4) this, of w] 1 have "w = v" "ps_position p1 = ps_position p + length (tokens_of e)" by auto
    with ops run 1 show ?thesis by auto
  next
    case 2
    with a(3) q have "r = q" "p' = p1" by (simp_all add: p_bind_stopped)
    with step a(4) 2 show ?thesis by (auto simp: stopped_def)
  qed
qed

lemma follow_next: "follow_below (drop (ps_position p) (pc_tokens pc)) m \<Longrightarrow> next_operator pc m p = None"
  by (cases "peek pc p") (auto simp: next_operator_def peek_drop split: option.splits token.splits)

lemma follow_mono: "follow_below rest m \<Longrightarrow> m \<le> n \<Longrightarrow> follow_below rest n"
  by (cases "(rest, m)" rule: follow_below.cases) (auto split: option.splits)

lemma parse_operators_end: "next_operator pc m p = None \<Longrightarrow> parse_operators resolve pc m left p = (Ok left, p)"
  by (auto simp: parse_operators.simps next_operator_def split: option.splits token.splits if_splits)

lemma bump_limited: "bump_node p = (Err f, p') \<Longrightarrow> limit_failed f"
  by (auto simp: bump_node_iff enforce_limit_def split: if_splits)

lemma drop_append_position:
  "drop n ts = a @ rest \<Longrightarrow> drop (n + length a) ts = rest"
  by (metis add.commute append_eq_conv_conj drop_drop)

lemma expression_complete:
  assumes e: "spine_complete pc E e" and p: "parser_inv p"
    and t: "drop (ps_position p) (pc_tokens pc) = tokens_of e @ rest" "m \<le> prec e" "follow_below rest m"
    and run: "parse_expression resolve pc m p = (r, p')" and E: "compatible E r p'"
      "eval_expr (named pc E) (pc_primitive pc) e = Ok v"
  shows "limited r \<or> r = Ok v \<and> ps_position p' = ps_position p + length (tokens_of e)"
proof (cases p rule: bump_node_cases)
  case bump: (1 p1)
  have spine: "p_bind (parse_prefix resolve pc) (parse_operators resolve pc m) p1 = (r, p')"
    using run bump by (simp add: parse_expression.simps p_bind_Ok)
  have p1: "parser_inv p1" "ps_position p1 = ps_position p" using p bump by (auto simp: bump_node_iff)
  have t1: "drop (ps_position p1) (pc_tokens pc) = tokens_of e @ rest" using t p1 by simp
  have f1: "follow_below rest (prec e + 1)" using follow_mono [OF t(3)] t(2) by simp
  show ?thesis
  proof (rule spine_completeD [OF e p1(1) t1 t(2) f1 spine E])
    fix p2 assume p2: "ps_position p2 = ps_position p1 + length (tokens_of e)"
      "parse_operators resolve pc m v p2 = (r, p')"
    have "drop (ps_position p2) (pc_tokens pc) = rest"
      using drop_append_position [OF t(1)] p1 p2 by simp
    then have "parse_operators resolve pc m v p2 = (Ok v, p2)"
      using t(3) by (intro parse_operators_end follow_next) simp
    with p2 p1 show ?thesis by simp
  qed simp
next
  case (2 f p1)
  then show ?thesis using run bump_limited by (auto simp: parse_expression.simps p_bind_Err)
qed

lemma spine_bin:
  assumes l: "spine_complete pc E l" and r: "spine_complete pc E r" and wf: "wf_expr (E_Bin op l r)"
  shows "spine_complete pc E (E_Bin op l r)"
  unfolding spine_complete_def
proof (intro allI impI)
  fix m p q p' v rest
  let ?ok = "limited q \<or> (\<exists>p1. runs p (Ok v) p1 \<and> ps_position p1 = ps_position p + length (tokens_of (E_Bin op l r)) \<and>
      parse_operators resolve pc m v p1 = (q, p'))"
  assume p: "parser_inv p" and t: "drop (ps_position p) (pc_tokens pc) = tokens_of (E_Bin op l r) @ rest"
    and m: "m \<le> prec (E_Bin op l r)" "follow_below rest (prec (E_Bin op l r) + 1)"
    and run: "p_bind (parse_prefix resolve pc) (parse_operators resolve pc m) p = (q, p')"
    and E: "compatible E q p'" "eval_expr (named pc E) (pc_primitive pc) (E_Bin op l r) = Ok v"
  from wf obtain k where k: "binary_precedence op = Some k" "k \<le> prec l" "k < prec r" by auto
  from E(2) obtain x y where xy: "eval_expr (named pc E) (pc_primitive pc) l = Ok x"
    "eval_expr (named pc E) (pc_primitive pc) r = Ok y" "apply_binary op x y (pc_primitive pc) = Ok v"
    by (auto simp: result_iffs)
  have tl: "drop (ps_position p) (pc_tokens pc) = tokens_of l @ (T_Operator op # tokens_of r @ rest)" using t by simp
  have ml: "m \<le> prec l" "follow_below (T_Operator op # tokens_of r @ rest) (prec l + 1)" using m(1) k by auto
  show ?ok
  proof (rule spine_completeD [OF l p tl ml run E(1) xy(1)])
    fix p1 assume p1: "runs p (Ok x) p1" "ps_position p1 = ps_position p + length (tokens_of l)"
      and ops: "parse_operators resolve pc m x p1 = (q, p')"
    have d1: "drop (ps_position p1) (pc_tokens pc) = T_Operator op # tokens_of r @ rest"
      using drop_append_position [OF tl] p1(2) by simp
    then have peek: "peek pc p1 = Some (T_Operator op)" by (rule drop_peek)
    have d2: "drop (ps_position (advance p1)) (pc_tokens pc) = tokens_of r @ rest"
      using d1 peek_drop [OF peek] by simp
    obtain z p2 where z: "parse_expression resolve pc (k + 1) (advance p1) = (z, p2)" by (metis surj_pair)
    have inv: "parser_inv (advance p1)" using runs_inv [OF p1(1)] by simp
    have run2: "runs p1 z p2" using parser_runs(1) [OF parse_reads(1) [OF z] inv] by simp
    have right: "limited z \<or> z = Ok y \<and> ps_position p2 = ps_position (advance p1) + length (tokens_of r)"
      if "compatible E z p2"
      by (rule expression_complete [OF r inv d2 _ _ z that xy(2)]) (use k m(2) in auto)
    note eq = ops [unfolded parse_operators.simps [of resolve pc m x p1]]
    show ?ok
    proof (cases z rule: stopped_cases)
      case (1 w)
      have tail: "p_bind (p_lift (apply_binary op x w (pc_primitive pc))) (parse_operators resolve pc m) p2 = (q, p')"
        using eq peek k(1) m(1) z 1 by (simp add: p_bind_Ok)
      have "compatible E z p2"
      proof (cases "apply_binary op x w (pc_primitive pc)")
        case (Ok u)
        with tail have o: "parse_operators resolve pc m u p2 = (q, p')" by (simp add: p_bind_def p_lift_def)
        show ?thesis using compatible_back [OF E(1) parser_runs(2) [OF parse_reads(2) [OF o] runs_inv [OF run2]], of w] 1 by simp
      next
        case (Err f)
        with tail have "p2 = p'" by (simp add: p_bind_def p_lift_def)
        with E(1) 1 show ?thesis by (simp add: compatible_def stopped_def)
      qed simp
      with right 1 have "w = y" "ps_position p2 = ps_position (advance p1) + length (tokens_of r)" by auto
      moreover from this tail xy(3) have "parse_operators resolve pc m v p2 = (q, p')" by (simp add: p_bind_def p_lift_def)
      moreover have "runs p (Ok v) p2" using runs_trans [OF p1(1)] run2 1 by (auto intro: runs_Ok)
      ultimately show ?thesis using p1(2) by auto
    next
      case 2
      then have "q = z" "p' = p2" using eq peek k(1) m(1) z by (simp_all add: p_bind_stopped)
      with right E(1) 2 show ?thesis by (auto simp: stopped_def)
    qed
  qed simp
qed

lemma prefix_unary:
  assumes e: "prefix_complete pc E e" and p: "parser_inv p"
    and t: "drop (ps_position p) (pc_tokens pc) = T_Operator op # tokens_of e @ rest"
    and run: "p_bind bump_node (\<lambda>_. p_bind (parse_prefix resolve pc) (\<lambda>v. p_lift (f v))) (advance p) = (r, p')"
    and E: "compatible E r p'" "and_then (eval_expr (named pc E) (pc_primitive pc) e) f = Ok v"
  shows "limited r \<or> r = Ok v \<and> ps_position p' = ps_position p + 1 + length (tokens_of e)"
proof (cases "advance p" rule: bump_node_cases)
  case bump: (1 p1)
  obtain q p2 where q: "parse_prefix resolve pc p1 = (q, p2)" by (metis surj_pair)
  from E(2) obtain w where w: "eval_expr (named pc E) (pc_primitive pc) e = Ok w" "f w = Ok v" by (auto simp: result_iffs)
  have r: "r = and_then q f" "p' = p2"
    using run bump p_bind_lift [of "parse_prefix resolve pc" p1 q p2 f, OF q] by (auto simp: p_bind_Ok)
  have p1: "parser_inv p1" "ps_position p1 = ps_position p + 1" using p bump by (auto simp: bump_node_iff)
  have "drop (ps_position p1) (pc_tokens pc) = tokens_of e @ rest"
    using t p1 peek_drop [OF drop_peek [OF t]] by simp
  moreover have "compatible E q p2"
    using E(1) r by (cases q) (auto simp: compatible_def stopped_def)
  ultimately have "limited q \<or> q = Ok w \<and> ps_position p2 = ps_position p1 + length (tokens_of e)"
    using e p1(1) q w(1) unfolding prefix_complete_def by blast
  then show ?thesis using r w p1 by (cases q) auto
next
  case (2 e' p1)
  then show ?thesis using run bump_limited by (auto simp: p_bind_Err)
qed

lemma prefix_leaf_complete:
  assumes "tokens_of e = [t]" "leaf_value pc t = Some (eval_expr (named pc E) (pc_primitive pc) e)"
  shows "prefix_complete pc E e"
  unfolding prefix_complete_def
proof (intro allI impI)
  fix p r p' v rest
  assume a: "drop (ps_position p) (pc_tokens pc) = tokens_of e @ rest" "parse_prefix resolve pc p = (r, p')"
    "eval_expr (named pc E) (pc_primitive pc) e = Ok v"
  have "peek pc p = Some t" using a(1) assms(1) by (auto intro: drop_peek)
  then show "limited r \<or> r = Ok v \<and> ps_position p' = ps_position p + length (tokens_of e)"
    using a assms by (cases t) (auto simp: parse_prefix.simps split: if_splits)
qed

lemma prefix_operator:
  assumes "peek pc p = Some (T_Operator op)" "parse_prefix resolve pc p = (r, p')"
  shows "op = Bang \<Longrightarrow> p_bind bump_node (\<lambda>_. p_bind (parse_prefix resolve pc) (\<lambda>v. p_lift (checked_not v (pc_primitive pc)))) (advance p) = (r, p')"
    and "op = Minus \<Longrightarrow> integer_at pc (advance p) = None \<Longrightarrow>
      p_bind bump_node (\<lambda>_. p_bind (parse_prefix resolve pc) (\<lambda>v. p_lift (checked_negate v (pc_primitive pc)))) (advance p) = (r, p')"
    and "op = Minus \<Longrightarrow> integer_at pc (advance p) = Some l \<Longrightarrow> bump_node (advance p) = (Ok (), p1) \<Longrightarrow>
      (r, p') = (parse_integer l (pc_primitive pc) True, advance p1)"
proof -
  have same: "integer_at pc p1 = integer_at pc (advance p)" if "bump_node (advance p) = (q, p1)" for q p1
    using that by (auto simp: bump_node_iff integer_at_def peek_def)
  show "op = Bang \<Longrightarrow> p_bind bump_node (\<lambda>_. p_bind (parse_prefix resolve pc) (\<lambda>v. p_lift (checked_not v (pc_primitive pc)))) (advance p) = (r, p')"
    using assms by (simp add: parse_prefix.simps)
  show "op = Minus \<Longrightarrow> integer_at pc (advance p) = None \<Longrightarrow>
      p_bind bump_node (\<lambda>_. p_bind (parse_prefix resolve pc) (\<lambda>v. p_lift (checked_negate v (pc_primitive pc)))) (advance p) = (r, p')"
    using assms same by (cases "advance p" rule: bump_node_cases) (auto simp: parse_prefix.simps p_bind_Ok p_bind_Err)
  show "op = Minus \<Longrightarrow> integer_at pc (advance p) = Some l \<Longrightarrow> bump_node (advance p) = (Ok (), p1) \<Longrightarrow>
      (r, p') = (parse_integer l (pc_primitive pc) True, advance p1)"
    using assms same [of "Ok ()" p1] by (auto simp: parse_prefix.simps p_bind_Ok)
qed

lemma prefix_name_complete: "prefix_complete pc E (E_Name n)"
  unfolding prefix_complete_def
proof (intro allI impI)
  fix p r p' v rest
  assume a: "parser_inv p" "drop (ps_position p) (pc_tokens pc) = tokens_of (E_Name n) @ rest"
    "parse_prefix resolve pc p = (r, p')" "compatible E r p'" "eval_expr (named pc E) (pc_primitive pc) (E_Name n) = Ok v"
  have "peek pc p = Some (T_Identifier n)" using a(2) by (auto intro: drop_peek)
  with a(3) have run: "resolve_dependency resolve pc n (advance p) = (r, p')" by (simp add: parse_prefix.simps)
  have "limited r \<or> r = Ok v" by (rule resolve_dependency_complete [OF _ run a(4)]) (use a in auto)
  then show "limited r \<or> r = Ok v \<and> ps_position p' = ps_position p + length (tokens_of (E_Name n))"
    using resolve_dependency_position [OF run] by auto
qed

lemma prefix_negative_complete: "prefix_complete pc E (E_NegInt l)"
  unfolding prefix_complete_def
proof (intro allI impI)
  fix p r p' v rest
  assume a: "drop (ps_position p) (pc_tokens pc) = tokens_of (E_NegInt l) @ rest"
    "parse_prefix resolve pc p = (r, p')" "eval_expr (named pc E) (pc_primitive pc) (E_NegInt l) = Ok v"
  have peek: "peek pc p = Some (T_Operator Minus)" using a(1) by (auto intro: drop_peek)
  then have "peek pc (advance p) = Some (T_Integer l)" using a(1) peek_drop [OF peek] by (auto intro: drop_peek)
  then have int: "integer_at pc (advance p) = Some l" by (simp add: integer_at_def)
  show "limited r \<or> r = Ok v \<and> ps_position p' = ps_position p + length (tokens_of (E_NegInt l))"
  proof (cases "advance p" rule: bump_node_cases)
    case (1 p1)
    then show ?thesis using prefix_operator(3) [OF peek a(2) _ int 1] a(3) by (auto simp: bump_node_iff)
  next
    case (2 f p1)
    then show ?thesis using a(2) peek bump_limited by (auto simp: parse_prefix.simps p_bind_Err)
  qed
qed

lemma prefix_not_complete:
  assumes e: "prefix_complete pc E e"
  shows "prefix_complete pc E (E_Not e)"
  unfolding prefix_complete_def
proof (intro allI impI)
  fix p r p' v rest
  assume a: "parser_inv p" "drop (ps_position p) (pc_tokens pc) = tokens_of (E_Not e) @ rest"
    "parse_prefix resolve pc p = (r, p')" "compatible E r p'" "eval_expr (named pc E) (pc_primitive pc) (E_Not e) = Ok v"
  have t: "drop (ps_position p) (pc_tokens pc) = T_Operator Bang # tokens_of e @ rest" using a(2) by simp
  from prefix_unary [OF e a(1) t prefix_operator(1) [OF drop_peek [OF t] a(3) refl] a(4)] a(5)
  show "limited r \<or> r = Ok v \<and> ps_position p' = ps_position p + length (tokens_of (E_Not e))" by simp
qed

lemma prefix_negate_complete:
  assumes e: "prefix_complete pc E e" and wf: "wf_expr (E_Neg e)"
  shows "prefix_complete pc E (E_Neg e)"
  unfolding prefix_complete_def
proof (intro allI impI)
  have first: "hd (tokens_of e) \<noteq> T_Integer l" for l
    using wf by (cases e) (auto split: option.splits dest: binary_precedence_bound)
  fix p r p' v rest
  assume a: "parser_inv p" "drop (ps_position p) (pc_tokens pc) = tokens_of (E_Neg e) @ rest"
    "parse_prefix resolve pc p = (r, p')" "compatible E r p'" "eval_expr (named pc E) (pc_primitive pc) (E_Neg e) = Ok v"
  have t: "drop (ps_position p) (pc_tokens pc) = T_Operator Minus # tokens_of e @ rest" using a(2) by simp
  have "drop (ps_position (advance p)) (pc_tokens pc) = hd (tokens_of e) # tl (tokens_of e) @ rest"
    using t peek_drop [OF drop_peek [OF t]] by simp
  then have int: "integer_at pc (advance p) = None"
    using drop_peek first by (fastforce simp: integer_at_def split: token.splits)
  from prefix_unary [OF e a(1) t prefix_operator(2) [OF drop_peek [OF t] a(3) refl int] a(4)] a(5)
  show "limited r \<or> r = Ok v \<and> ps_position p' = ps_position p + length (tokens_of (E_Neg e))" by simp
qed

lemma prefix_paren_complete:
  assumes e: "spine_complete pc E e"
  shows "prefix_complete pc E (E_Paren e)"
  unfolding prefix_complete_def
proof (intro allI impI)
  fix p r p' v rest
  assume a: "parser_inv p" "drop (ps_position p) (pc_tokens pc) = tokens_of (E_Paren e) @ rest"
    "parse_prefix resolve pc p = (r, p')" "compatible E r p'" "eval_expr (named pc E) (pc_primitive pc) (E_Paren e) = Ok v"
  have t: "drop (ps_position p) (pc_tokens pc) = T_LeftParenthesis # tokens_of e @ T_RightParenthesis # rest"
    using a(2) by simp
  have t1: "drop (ps_position (advance p)) (pc_tokens pc) = tokens_of e @ T_RightParenthesis # rest"
    using t peek_drop [OF drop_peek [OF t]] by simp
  obtain q p1 where q: "parse_expression resolve pc 0 (advance p) = (q, p1)" by (metis surj_pair)
  have run: "p_bind (parse_expression resolve pc 0) (\<lambda>v p1. if peek pc p1 = Some T_RightParenthesis
      then (Ok v, advance p1) else (Err Expression_failure, p1)) (advance p) = (r, p')"
    using a(3) drop_peek [OF t] by (simp add: parse_prefix.simps)
  have "compatible E q p1"
  proof (cases q rule: stopped_cases)
    case (1 w)
    then show ?thesis
      using run q a(4) by (auto simp: p_bind_Ok compatible_def stopped_def split: if_splits)
  next
    case 2
    then show ?thesis using run q a(4) by (simp add: p_bind_stopped)
  qed
  then have "limited q \<or> q = Ok v \<and> ps_position p1 = ps_position p + 1 + length (tokens_of e)"
    using expression_complete [OF e _ t1 _ _ q] a(1,5) by simp
  then show "limited r \<or> r = Ok v \<and> ps_position p' = ps_position p + length (tokens_of (E_Paren e))"
  proof (elim disjE conjE)
    assume "limited q"
    then show ?thesis using run q by (cases q) (auto simp: p_bind_def)
  next
    assume v: "q = Ok v" "ps_position p1 = ps_position p + 1 + length (tokens_of e)"
    then have "peek pc p1 = Some T_RightParenthesis"
      using drop_append_position [OF t1] by (intro drop_peek [of _ _ _ rest]) simp
    with run q v show ?thesis by (auto simp: p_bind_Ok)
  qed
qed

lemma grammar_complete: "wf_expr e \<Longrightarrow> (prec e = 9 \<longrightarrow> prefix_complete pc E e) \<and> spine_complete pc E e"
proof (induction e)
  case (E_Bin op l r)
  then show ?case using spine_bin by (auto split: option.splits dest: binary_precedence_bound)
qed (auto intro!: spine_of_prefix prefix_name_complete prefix_negative_complete prefix_not_complete
    prefix_negate_complete prefix_paren_complete intro: prefix_leaf_complete)

end

end
