(* ===== verification/Constant_Results.thy ===== *)
theory Constant_Results
  imports Constant_Parser
begin

text \<open>
  \<open>evaluate_candidate\<close> keeps the contract of a resolver, and what the driver computes: the values
  found are exactly the derivable ones.
\<close>

section \<open>The expression of a candidate\<close>

text \<open>
  What evaluating the expression of a candidate leaves: a value with its justification, or a failure
  that no admissible assignment could have avoided, unless a limit caused it.
\<close>

fun expression_outcome ::
  "candidates \<Rightarrow> nat \<Rightarrow> string \<Rightarrow> candidate \<Rightarrow> evaluator \<Rightarrow> (evaluation, evaluation_failure) result \<Rightarrow> evaluator \<Rightarrow> bool" where
  "expression_outcome cands fuel k c ev (Ok w) ev' \<longleftrightarrow>
     ev_inv cands ev' \<and> extends_ev ev ev' \<and> quiet ev ev' \<and> evaluation_ok cands ev' c w"
| "expression_outcome cands fuel k c ev (Err f) ev' \<longleftrightarrow>
     (\<exists>ev2. ev_inv cands ev2 \<and> extends_ev ev ev2 \<and> calm f ev ev2 \<and> (ev' = ev2 \<or> ev' = set_state k (Failed f) ev2) \<and>
       (\<forall>E v D. limit_failed f \<or> \<not> admissible cands ev2 E \<or> \<not> denotes cands E c (cd_expression c) v D))"
| "expression_outcome cands fuel k c ev Panic ev' \<longleftrightarrow> fuel \<le> unvisited cands ev"

context resolver
begin

lemma matching_keyed:
  assumes keyed_cands: "keyed cands" and "matching pc name = [k]" "pc_candidates pc = cands"
  shows "\<exists>c. bt_get cands k = Some c \<and> cd_primitive c = pc_primitive pc"
proof -
  have "k \<in> set (matching pc name)" using assms(2) by simp
  then obtain k' c where "(k', c) \<in> set cands" "cd_declared_value_id c = k" "cd_primitive c = pc_primitive pc"
    using assms(3) by (auto simp: matching_def)
  moreover from this have "bt_get cands k' = Some c" using keyed_cands by (simp add: keyed_def bt_get_mem)
  ultimately show ?thesis using keyed_cands by (auto simp: keyed_def)
qed

lemma named_fits:
  assumes "ev_inv cands ev" "named pc (below ev n) name = Some v" "pc_candidates pc = cands"
  shows "fits v (pc_primitive pc)"
proof -
  from assms(2) obtain k w where k: "matching pc name = [k]" "bt_get (ev_evaluated ev) k = Some w" "v = el_value w"
    by (auto simp: named_def below_def split: list.splits option.splits if_splits)
  obtain c where c: "bt_get cands k = Some c" "cd_primitive c = pc_primitive pc"
    using matching_keyed [OF _ k(1) assms(3)] assms(1) by (auto simp: ev_inv_def)
  have "evaluation_ok cands ev c w" using assms(1) c(1) k(2) by (simp add: ev_inv_def)
  then show ?thesis using c(2) k(3) by (simp add: evaluation_ok_def)
qed

text \<open>A whole expression: what the parser returns is its value, and conversely.\<close>

lemma tokens_sound:
  assumes ev: "ev_inv cands ev" and run: "parse_expression resolve (candidate_context cands c ts) 0 (initial_parser ev) = (Ok v, p)"
    and ends: "ps_position p = length ts" and matches: "value_matches v (cd_primitive c)"
  shows "denotes cands (below (ps_evaluator p) (ps_dependency_levels p)) c (Parsed ts) v (set (bt_keys (ps_dependencies p))) \<and>
    fits v (cd_primitive c)"
proof -
  let ?pc = "candidate_context cands c ts"
  have p0: "parser_inv (initial_parser ev)"
    using ev by (simp add: parser_inv_def initial_parser_def bt.wf_empty)
  from parser_sound(1) [OF parse_reads(1) [OF run] p0, of v] obtain e where
    e: "reads ?pc (initial_parser ev) e v p" by auto
  have inv: "ev_inv cands (ps_evaluator p)"
    using runs_inv [OF parser_runs(1) [OF parse_reads(1) [OF run] p0]] by (simp add: parser_inv_def)
  have "tokens_of e = ts" using e ends by (simp add: reads_def initial_parser_def candidate_context_def)
  moreover have "eval_expr (named ?pc (below (ps_evaluator p) (ps_dependency_levels p))) (cd_primitive c) e = Ok v"
    using e by (simp add: reads_def value_env_def candidate_context_def)
  moreover from this have "fits v (cd_primitive c)"
    using eval_expr_value named_fits [OF inv] expression_value_fits [OF _ matches]
    by (metis candidate_context_def parse_context.select_convs(2,4))
  moreover have "wf_expr e" "set (bt_keys (ps_dependencies p)) = (\<Union>n \<in> names e. set (matching ?pc n))"
    using e by (auto simp: reads_def initial_parser_def bt_keys_def)
  ultimately show ?thesis using matches unfolding denotes.simps Let_def by blast
qed

lemma tokens_complete:
  assumes ev: "ev_inv cands ev" and run: "parse_expression resolve (candidate_context cands c ts) 0 (initial_parser ev) = (r, p)"
    and E: "compatible E r p" and d: "denotes cands E c (Parsed ts) v D"
  shows "limited r \<or> r = Ok v \<and> ps_position p = length ts \<and> value_matches v (cd_primitive c)"
proof -
  let ?pc = "candidate_context cands c ts"
  from d obtain e where e: "tokens_of e = ts" "wf_expr e" "eval_expr (named ?pc E) (cd_primitive c) e = Ok v"
    "value_matches v (cd_primitive c)" by (auto simp: Let_def)
  have p0: "parser_inv (initial_parser ev)"
    using ev by (simp add: parser_inv_def initial_parser_def bt.wf_empty)
  have "limited r \<or> r = Ok v \<and> ps_position p = ps_position (initial_parser ev) + length (tokens_of e)"
    by (rule expression_complete [OF _ p0 _ _ _ run E])
      (use e grammar_complete [OF e(2)] in \<open>auto simp: initial_parser_def candidate_context_def\<close>)
  then show ?thesis using e by (simp add: initial_parser_def)
qed

lemma expression_Err:
  assumes "ev_inv cands ev'" "extends_ev ev ev'" "calm f ev ev'"
    and "\<And>E v D. admissible cands ev' E \<Longrightarrow> \<not> limit_failed f \<Longrightarrow> \<not> denotes cands E c (cd_expression c) v D"
  shows "expression_outcome cands fuel k c ev (Err f) ev'"
  using assms unfolding expression_outcome.simps by metis

lemma parsed_outcome:
  assumes ev: "ev_inv cands ev" and c: "cd_expression c = Parsed ts"
    and run: "evaluate_expression resolve cands k c (Parsed ts) ev = (r, ev')"
  shows "expression_outcome cands fuel k c ev r ev'"
proof -
  let ?pc = "candidate_context cands c ts"
  obtain q p where q: "parse_expression resolve ?pc 0 (initial_parser ev) = (q, p)" by (metis surj_pair)
  have "parser_inv (initial_parser ev)"
    using ev by (simp add: parser_inv_def initial_parser_def bt.wf_empty)
  from parser_runs(1) [OF parse_reads(1) [OF q] this]
  have runs: "ev_inv cands (ps_evaluator p)" "extends_ev ev (ps_evaluator p)" "\<not> stopped q \<longrightarrow> quiet ev (ps_evaluator p)"
    "\<And>f. q = Err f \<Longrightarrow> calm f ev (ps_evaluator p)" "q = Panic \<longrightarrow> fuel \<le> unvisited cands ev" "ps_dependency_levels p \<le> constant_maximum DependencyLevels"
    "bt_wf (ps_dependencies p)" "length (ps_dependencies p) \<le> constant_maximum DirectDependencies"
    by (simp_all add: runs_def parser_inv_def initial_parser_def)
  note complete = tokens_complete [OF ev q]
  show ?thesis
  proof (cases q)
    case (Ok v)
    show ?thesis
    proof (cases "ps_position p = length ts \<and> value_matches v (cd_primitive c)")
      case True
      have "x = v" if "values_of (ps_evaluator p) \<subseteq>\<^sub>m E" "denotes cands E c (Parsed ts) x D" for E x D
        using complete [OF _ that(2)] that(1) Ok by (auto simp: compatible_def stopped_def)
      then have "evaluation_ok cands (ps_evaluator p) c
        \<lparr>el_value = v, el_dependency_ids = bt_keys (ps_dependencies p), el_dependency_levels = ps_dependency_levels p\<rparr>"
        using tokens_sound [OF ev] q Ok True runs c
        by (auto simp: evaluation_ok_def bt_keys_def bt_wf_def simp del: denotes.simps constant_maximum.simps)
      then show ?thesis using run q Ok True runs by (auto simp: stopped_def simp del: constant_maximum.simps)
    next
      case False
      have "\<not> denotes cands E c (Parsed ts) x D" if "admissible cands (ps_evaluator p) E" for E x D
        using complete [of E x D] that Ok False by (auto simp: compatible_def admissible_def simp del: denotes.simps)
      then have "expression_outcome cands fuel k c ev (Err Expression_failure) (set_state k (Failed Expression_failure) (ps_evaluator p))"
        using runs c Ok quiet_calm [of ev "ps_evaluator p"] by (auto simp: stopped_def simp del: denotes.simps)
      then show ?thesis using run q Ok False by (auto simp: fail_state_def simp del: denotes.simps expression_outcome.simps)
    qed
  next
    case (Err f)
    have "\<not> denotes cands E c (Parsed ts) x D" if "admissible cands (ps_evaluator p) E" "\<not> limit_failed f" for E x D
      using complete [of E x D] that Err by (auto simp: compatible_def admissible_def simp del: denotes.simps)
    then have "expression_outcome cands fuel k c ev (Err f) (ps_evaluator p)"
      using c by (intro expression_Err runs(1,2) runs(4) [OF Err]) (simp del: denotes.simps)
    then show ?thesis using run q Err by (simp del: denotes.simps expression_outcome.simps)
  next
    case Panic
    then show ?thesis using run q runs by auto
  qed
qed

lemma implicit_outcome:
  assumes ev: "ev_inv cands ev" and c: "cd_expression c = EnumImplicit (Some previous)"
    and run: "evaluate_expression resolve cands k c (EnumImplicit (Some previous)) ev = (r, ev')"
  shows "expression_outcome cands fuel k c ev r ev'"
proof -
  obtain q ev1 where q: "resolve previous ev = (q, ev1)" by (metis surj_pair)
  note out = resolve_outcome [OF ev q]
  show ?thesis
  proof (cases q)
    case (Ok d)
    let ?levels = "saturating_add (el_dependency_levels d) 1"
    have d: "bt_get (ev_evaluated ev1) previous = Some d" "ev_inv cands ev1" "extends_ev ev ev1" "quiet ev ev1"
      using out Ok by auto
    have known: "values_of ev1 previous = Some (el_value d)" using d by (simp add: values_of_def)
    show ?thesis
    proof (cases "enforce_limit DependencyLevels ?levels")
      case l: (Ok u)
      then have levels: "?levels = el_dependency_levels d + 1" "el_dependency_levels d < constant_maximum DependencyLevels"
        by (auto simp: enforce_limit_def saturating_add_def u64_max_def split: if_splits)
      show ?thesis
      proof (cases "checked_increment (el_value d) (cd_primitive c)")
        case v: (Ok v)
        have "x = v" if "values_of ev1 \<subseteq>\<^sub>m E" "denotes cands E c (cd_expression c) x D" for E x D
          using that known c v by (auto simp: map_le_def dom_def)
        then have "evaluation_ok cands ev1 c \<lparr>el_value = v, el_dependency_ids = [previous], el_dependency_levels = ?levels\<rparr>"
          using v levels c d checked_increment_value [OF v] by (auto simp: evaluation_ok_def below_def)
        then show ?thesis using run q Ok l v d by (auto simp: Let_def)
      next
        case (Err f)
        have "\<not> denotes cands E c (cd_expression c) x D" if "admissible cands ev1 E" for E x D
          using that known c Err by (auto simp: admissible_def map_le_def dom_def)
        then have "expression_outcome cands fuel k c ev (Err f) ev1" by (intro expression_Err d(2,3) quiet_calm [OF d(4)])
        then show ?thesis using run q Ok l Err by (simp add: Let_def del: expression_outcome.simps)
      qed simp
    next
      case (Err f)
      then have "limit_failed f" by (auto simp: enforce_limit_def split: if_splits)
      then have "expression_outcome cands fuel k c ev (Err f) ev1" by (intro expression_Err d(2,3) quiet_calm [OF d(4)]) simp
      then show ?thesis using run q Ok Err by (simp add: Let_def del: expression_outcome.simps)
    qed simp
  next
    case (Err f)
    have "\<not> denotes cands E c (cd_expression c) x D" if E: "admissible cands ev1 E" "\<not> limit_failed f" for E x D
    proof -
      have "E previous = None"
      proof (rule ccontr)
        assume some: "E previous \<noteq> None"
        with E(1) have "bt_get cands previous \<noteq> None" "bt_get (ev_states ev1) previous = Some s \<Longrightarrow> s = Complete" for s
          by (force simp: admissible_def)+
        with out Err E(2) show False by (force simp: extends_ev_def)
      qed
      then show ?thesis using c by simp
    qed
    then have "expression_outcome cands fuel k c ev (Err f) ev1" using out Err by (intro expression_Err) auto
    then show ?thesis using run q Err by (simp del: expression_outcome.simps)
  next
    case Panic
    then show ?thesis using run q out by simp
  qed
qed

lemma first_outcome:
  assumes ev: "ev_inv cands ev" and c: "cd_expression c = EnumImplicit None"
    and run: "evaluate_expression resolve cands k c (EnumImplicit None) ev = (r, ev')"
  shows "expression_outcome cands fuel k c ev r ev'"
proof (cases "zero_value (cd_primitive c)")
  case (Ok v)
  with assms zero_value_fits [OF Ok] show ?thesis by (auto simp: evaluation_ok_def)
next
  case (Err f)
  then have "expression_outcome cands fuel k c ev (Err f) ev" using ev c by (intro expression_Err) auto
  then show ?thesis using run Err by (simp del: expression_outcome.simps)
qed simp

lemma evaluate_expression_outcome:
  assumes "ev_inv cands ev" "evaluate_expression resolve cands k c (cd_expression c) ev = (r, ev')"
  shows "expression_outcome cands fuel k c ev r ev'"
proof (cases "cd_expression c")
  case (EnumImplicit previous)
  then show ?thesis using assms first_outcome implicit_outcome by (cases previous) auto
qed (use assms parsed_outcome in auto)

end

section \<open>Evaluation of a candidate\<close>

lemma bt_get_set_state:
  "bt_wf (ev_states ev) \<Longrightarrow>
   bt_get (ev_states (set_state k s ev)) k' = (if k' = k then Some s else bt_get (ev_states ev) k')"
  by (simp add: set_state_def bt_get_put)

lemma set_state_simps [simp]:
  "ev_evaluated (set_state k s ev) = ev_evaluated ev" "values_of (set_state k s ev) = values_of ev"
  "below (set_state k s ev) = below ev" "bt_wf (ev_states ev) \<Longrightarrow> bt_wf (ev_states (set_state k s ev))"
  by (simp_all add: set_state_def values_of_def below_def bt_wf_put fun_eq_iff)

lemma evaluation_ok_set_state [simp]: "evaluation_ok cands (set_state k s ev) c w \<longleftrightarrow> evaluation_ok cands ev c w"
  by (simp add: evaluation_ok_def)

lemma set_state_twice: "set_state k s (set_state k s' ev) = set_state k s ev"
proof -
  have "bt_put k s (bt_put k s' m) = bt_put k s m" for m :: "(string, evaluation_state) btree"
    by (induction k s' m rule: bt_put.induct) auto
  then show ?thesis by (simp add: set_state_def)
qed

lemma ev_inv_wf: "ev_inv cands ev \<Longrightarrow> bt_wf (ev_states ev)"
  by (simp add: ev_inv_def)

lemma ev_inv_evaluated: "ev_inv cands ev \<Longrightarrow> bt_get (ev_evaluated ev) k = None \<longleftrightarrow> bt_get (ev_states ev) k \<noteq> Some Complete"
  unfolding ev_inv_def by metis

lemma ev_inv_candidate: "ev_inv cands ev \<Longrightarrow> bt_get (ev_states ev) k = Some s \<Longrightarrow> \<exists>c. bt_get cands k = Some c"
  unfolding ev_inv_def by (metis not_None_eq option.distinct(1))

lemma admissible_set_state:
  assumes "bt_wf (ev_states ev)" "s \<noteq> Complete" "admissible cands (set_state k s ev) E"
  shows "admissible cands ev E"
  unfolding admissible_def
proof (intro conjI allI impI)
  show "values_of ev \<subseteq>\<^sub>m E" "\<And>k. E k \<noteq> None \<Longrightarrow> bt_get cands k \<noteq> None"
    using assms(3) by (auto simp: admissible_def)
  show "E k' = None" if "bt_get (ev_states ev) k' = Some s'" "s' \<noteq> Complete" for k' s'
    using assms that unfolding admissible_def by (cases "k' = k") (auto simp: bt_get_set_state)
qed

text \<open>A candidate that has no value yet may be marked, as being visited or as failed.\<close>

lemma mark_inv:
  assumes inv: "ev_inv cands ev" and c: "bt_get cands k = Some c" "bt_get (ev_states ev) k \<noteq> Some Complete"
    and s: "s \<noteq> Complete" "\<And>f E v D. s = Failed f \<Longrightarrow> \<not> limit_failed f \<Longrightarrow> admissible cands ev E \<Longrightarrow>
      \<not> denotes cands E c (cd_expression c) v D"
  shows "ev_inv cands (set_state k s ev)"
  unfolding ev_inv_def
proof (intro conjI allI impI)
  note wf = ev_inv_wf [OF inv]
  fix k' c' f E v D
  assume a: "bt_get cands k' = Some c'" "bt_get (ev_states (set_state k s ev)) k' = Some (Failed f)" "\<not> limit_failed f"
    "admissible cands (set_state k s ev) E"
  from admissible_set_state [OF wf s(1) a(4)] have E: "admissible cands ev E" .
  show "\<not> denotes cands E c' (cd_expression c') v D"
  proof (cases "k' = k")
    case True
    then have "s = Failed f" "c' = c" using a c wf by (auto simp: bt_get_set_state)
    with s(2) a(3) E show ?thesis by blast
  next
    case False
    then have "bt_get (ev_states ev) k' = Some (Failed f)" using a(2) wf by (simp add: bt_get_set_state)
    with inv a(1,3) E show ?thesis unfolding ev_inv_def by blast
  qed
next
  note wf = ev_inv_wf [OF inv]
  show "bt_get cands k' \<noteq> None" if "bt_get (ev_states (set_state k s ev)) k' \<noteq> None" for k'
    using that c(1) ev_inv_candidate [OF inv, of k'] wf by (auto simp: bt_get_set_state split: if_splits)
  show "bt_get (ev_evaluated (set_state k s ev)) k' \<noteq> None \<longleftrightarrow> bt_get (ev_states (set_state k s ev)) k' = Some Complete" for k'
    using ev_inv_evaluated [OF inv, of k'] c(2) s(1) wf by (simp add: bt_get_set_state)
qed (use inv in \<open>simp_all add: ev_inv_def\<close>)

lemma complete_inv:
  assumes inv0: "ev_inv cands ev0" and inv: "ev_inv cands ev" and c: "bt_get cands k = Some c"
    and states: "bt_get (ev_states ev0) k = None" "bt_get (ev_states ev) k = Some Visiting"
    and ext: "\<And>k' s. bt_get (ev_states ev0) k' = Some s \<Longrightarrow> bt_get (ev_states ev) k' = Some s"
    and quiet: "quiet ev0 ev" and ok: "evaluation_ok cands ev c w" and grows0: "grows ev0 ev"
  defines "ev3 \<equiv> set_state k Complete (ev\<lparr>ev_evaluated := bt_put k w (ev_evaluated ev)\<rparr>)"
  shows "ev_inv cands ev3"
proof -
  have wf: "bt_wf (ev_states ev)" "bt_wf (ev_evaluated ev)" using inv by (auto simp: ev_inv_def)
  have st: "bt_get (ev_states ev3) k' = (if k' = k then Some Complete else bt_get (ev_states ev) k')" for k'
    using wf by (simp add: ev3_def bt_get_set_state)
  have evd: "bt_get (ev_evaluated ev3) k' = (if k' = k then Some w else bt_get (ev_evaluated ev) k')" for k'
    using wf by (simp add: ev3_def bt_get_put)
  have none: "bt_get (ev_evaluated ev) k = None" using ev_inv_evaluated [OF inv, of k] states(2) by simp
  have grows: "grows ev ev3" using none by (auto simp: grows_def evd)
  have adm: "admissible cands ev0 E" if "admissible cands ev3 E" for E
  proof -
    have "values_of ev0 \<subseteq>\<^sub>m values_of ev3"
      by (rule map_le_trans [OF values_of_grows [OF grows0] values_of_grows [OF grows]])
    moreover have "E k' = None" if "bt_get (ev_states ev0) k' = Some s" "s \<noteq> Complete" for k' s
    proof -
      from that ext states(1) have "bt_get (ev_states ev3) k' = Some s" by (auto simp: st)
      with \<open>admissible cands ev3 E\<close> that(2) show ?thesis by (simp add: admissible_def)
    qed
    ultimately show ?thesis using that unfolding admissible_def by (blast intro: map_le_trans)
  qed
  show ?thesis
    unfolding ev_inv_def
  proof (intro conjI allI impI)
    fix k' c' w' assume a: "bt_get cands k' = Some c'" "bt_get (ev_evaluated ev3) k' = Some w'"
    show "evaluation_ok cands ev3 c' w'"
    proof (rule evaluation_ok_mono [OF _ grows])
      show "evaluation_ok cands ev c' w'" using a ok inv c by (cases "k' = k") (auto simp: evd ev_inv_def)
    qed
  next
    fix k' c' f E v D
    assume a: "bt_get cands k' = Some c'" "bt_get (ev_states ev3) k' = Some (Failed f)" "\<not> limit_failed f"
      "admissible cands ev3 E"
    then have "bt_get (ev_states ev0) k' = Some (Failed f)" using quiet by (auto simp: st quiet_def split: if_splits)
    with inv0 a(1,3) adm [OF a(4)] show "\<not> denotes cands E c' (cd_expression c') v D" unfolding ev_inv_def by blast
  next
    show "bt_get cands k' \<noteq> None" if "bt_get (ev_states ev3) k' \<noteq> None" for k'
      using that c ev_inv_candidate [OF inv, of k'] by (auto simp: st split: if_splits)
    show "bt_get (ev_evaluated ev3) k' \<noteq> None \<longleftrightarrow> bt_get (ev_states ev3) k' = Some Complete" for k'
      using ev_inv_evaluated [OF inv, of k'] by (auto simp: st evd simp del: not_None_eq)
  qed (use inv wf in \<open>simp_all add: ev_inv_def ev3_def set_state_def bt_wf_put\<close>)
qed

lemma unvisited_mark:
  assumes "bt_wf (ev_states ev)" "bt_get cands k = Some c" "bt_get (ev_states ev) k = None"
  shows "unvisited cands (set_state k s ev) < unvisited cands ev"
proof -
  have k: "k \<in> set (bt_keys cands)" using assms(2) bt_get_key [of k cands] by (simp add: bt_keys_def)
  have "length (filter (\<lambda>x. bt_get (ev_states (set_state k s ev)) x = None) ks) \<le> length (filter (\<lambda>x. bt_get (ev_states ev) x = None) ks) \<and>
    (k \<in> set ks \<longrightarrow> length (filter (\<lambda>x. bt_get (ev_states (set_state k s ev)) x = None) ks) <
      length (filter (\<lambda>x. bt_get (ev_states ev) x = None) ks))" for ks
    by (induction ks) (use assms(1,3) in \<open>auto simp: bt_get_set_state\<close>)
  then show ?thesis using k by (simp add: unvisited_def)
qed

lemma evaluate_visit:
  assumes IH: "resolver cands (evaluate_candidate n cands) n" and inv: "ev_inv cands ev"
    and c: "bt_get cands k = Some c" and new: "bt_get (ev_states ev) k = None"
    and run: "evaluate_candidate (Suc n) cands k ev = (r, ev')"
  shows "ev_inv cands ev' \<and> extends_ev ev ev' \<and> outcome_ok cands (Suc n) k ev r ev'"
proof -
  let ?ev1 = "set_state k Visiting ev"
  have wf: "bt_wf (ev_states ev)" using inv by (rule ev_inv_wf)
  have inv1: "ev_inv cands ?ev1" by (rule mark_inv [OF inv c]) (use new in auto)
  obtain q ev2 where q: "evaluate_expression (evaluate_candidate n cands) cands k c (cd_expression c) ?ev1 = (q, ev2)"
    by (metis surj_pair)
  note out = resolver.evaluate_expression_outcome [OF IH inv1 q]
  have visiting: "bt_get (ev_states x) k = Some Visiting" "\<And>k' s. bt_get (ev_states ev) k' = Some s \<Longrightarrow> bt_get (ev_states x) k' = Some s"
    "grows ev x" "\<And>k'. k' \<noteq> k \<Longrightarrow> bt_get (ev_states ev) k' = None \<Longrightarrow> bt_get (ev_states x) k' \<noteq> Some Visiting"
    if "extends_ev ?ev1 x" for x
  proof -
    show "bt_get (ev_states x) k = Some Visiting" "grows ev x" using that wf by (auto simp: extends_ev_def grows_def bt_get_set_state)
    show "bt_get (ev_states x) k' = Some s" if s: "bt_get (ev_states ev) k' = Some s" for k' s
    proof -
      have "bt_get (ev_states ?ev1) k' = Some s" using s new wf by (auto simp: bt_get_set_state)
      with \<open>extends_ev ?ev1 x\<close> show ?thesis by (simp add: extends_ev_def)
    qed
    show "bt_get (ev_states x) k' \<noteq> Some Visiting" if "k' \<noteq> k" "bt_get (ev_states ev) k' = None" for k'
    proof -
      have "bt_get (ev_states ?ev1) k' = None" using that wf by (simp add: bt_get_set_state)
      with \<open>extends_ev ?ev1 x\<close> show ?thesis by (simp add: extends_ev_def)
    qed
  qed
  show ?thesis
  proof (cases q)
    case (Ok w)
    let ?ev3 = "set_state k Complete (ev2\<lparr>ev_evaluated := bt_put k w (ev_evaluated ev2)\<rparr>)"
    have o: "ev_inv cands ev2" "extends_ev ?ev1 ev2" "quiet ?ev1 ev2" "evaluation_ok cands ev2 c w" using out Ok by auto
    have r: "r = Ok w" "ev' = ?ev3" using run q Ok new c by auto
    have wf2: "bt_wf (ev_states ev2)" "bt_wf (ev_evaluated ev2)" using o(1) by (auto simp: ev_inv_def)
    have quiet: "quiet ev ev2" using o(3) wf by (auto simp: quiet_def bt_get_set_state split: if_splits)
    have "ev_inv cands ?ev3"
      by (rule complete_inv [OF inv o(1) c new visiting(1,2) [OF o(2)] quiet o(4) visiting(3) [OF o(2)]])
    moreover have none: "bt_get (ev_evaluated ev) k = None" using ev_inv_evaluated [OF inv, of k] new by simp
    have "extends_ev ev ?ev3"
      using visiting(2-4) [OF o(2)] wf2 new none
      by (auto simp: extends_ev_def grows_def bt_get_set_state bt_get_put)
    moreover have "quiet ev ?ev3" using quiet wf2 by (auto simp: quiet_def bt_get_set_state split: if_splits)
    ultimately show ?thesis using r wf2 by (simp add: bt_get_put)
  next
    case (Err f)
    then obtain ev2' where o: "ev_inv cands ev2'" "extends_ev ?ev1 ev2'" "calm f ?ev1 ev2'" "ev2 = ev2' \<or> ev2 = set_state k (Failed f) ev2'"
      "\<And>E v D. limit_failed f \<or> \<not> admissible cands ev2' E \<or> \<not> denotes cands E c (cd_expression c) v D"
      using out by auto
    have r: "r = Err f" "ev' = set_state k (Failed f) ev2'"
      using run q Err new c o(4) by (auto simp: fail_state_def set_state_twice)
    have "ev_inv cands (set_state k (Failed f) ev2')"
      by (rule mark_inv [OF o(1) c]) (use visiting(1) [OF o(2)] o(5) in auto)
    moreover have "extends_ev ev (set_state k (Failed f) ev2')"
      using visiting(2-4) [OF o(2)] ev_inv_wf [OF o(1)] new by (auto simp: extends_ev_def grows_def bt_get_set_state)
    moreover have "calm f ev (set_state k (Failed f) ev2')"
      using o(3) wf ev_inv_wf [OF o(1)] by (auto simp: calm_def bt_get_set_state split: if_splits)
    ultimately show ?thesis using r ev_inv_wf [OF o(1)] by (simp add: bt_get_set_state)
  next
    case Panic
    then have "n \<le> unvisited cands ?ev1" using out by simp
    with unvisited_mark [OF wf c new, of Visiting] Panic show ?thesis using run q new c inv by auto
  qed
qed

lemma evaluate_candidate_resolver: "resolver cands (evaluate_candidate n cands) n"
proof (induction n)
  case 0
  then show ?case by unfold_locales auto
next
  case (Suc n)
  show ?case
  proof
    fix ev k r ev' assume inv: "ev_inv cands ev" and run: "evaluate_candidate (Suc n) cands k ev = (r, ev')"
    show "ev_inv cands ev' \<and> extends_ev ev ev' \<and> outcome_ok cands (Suc n) k ev r ev'"
    proof (cases "bt_get (ev_states ev) k")
      case None
      show ?thesis
      proof (cases "bt_get cands k")
        case (Some c)
        show ?thesis by (rule evaluate_visit [OF Suc inv Some None run])
      qed (use run None inv in auto)
    next
      case (Some s)
      then show ?thesis
        using run inv ev_inv_evaluated [OF inv, of k] by (cases s) (auto split: option.splits)
    qed
  qed
qed

interpretation evaluator: resolver cands "evaluate_candidate n cands" n for cands n
  by (rule evaluate_candidate_resolver)

section \<open>The driver\<close>

definition settled :: "candidates \<Rightarrow> evaluator \<Rightarrow> bool" where
  "settled cands ev \<longleftrightarrow> ev_inv cands ev \<and>
     (\<forall>k s. bt_get (ev_states ev) k = Some s \<longrightarrow> s \<noteq> Visiting \<and> (\<forall>f. s = Failed f \<longrightarrow> \<not> limit_failed f))"

lemma constant_error_limit: "constant_error f = None \<longleftrightarrow> \<not> limit_failed f"
  by (cases f) auto

lemma unvisited_le: "unvisited cands ev \<le> length cands"
  by (simp add: unvisited_def bt_keys_def le_trans [OF length_filter_le])

lemma settled_step:
  assumes ev: "settled cands ev" and run: "evaluate_candidate (length cands + 1) cands k ev = (r, ev')"
  shows "r \<noteq> Panic \<and> extends_ev ev ev' \<and>
    ((\<exists>f. r = Err f \<and> constant_error f \<noteq> None) \<or> settled cands ev')"
proof -
  have inv: "ev_inv cands ev" using ev by (simp add: settled_def)
  note out = evaluator.resolve_outcome [OF inv run]
  have "bt_get (ev_states ev') k' \<noteq> Some Visiting" for k'
    using out ev by (cases "bt_get (ev_states ev) k'") (auto simp: extends_ev_def settled_def)
  moreover have "\<not> limit_failed g"
    if "bt_get (ev_states ev') k' = Some (Failed g)" "calm f ev ev'" "\<not> limit_failed f" for k' g f
    using that ev unfolding calm_def settled_def by metis
  moreover have "\<not> limit_failed g" if "bt_get (ev_states ev') k' = Some (Failed g)" "quiet ev ev'" for k' g
    using that ev unfolding quiet_def settled_def by metis
  moreover have "r \<noteq> Panic" using out unvisited_le [of cands ev] by auto
  ultimately show ?thesis
    using out by (cases r) (auto simp: settled_def constant_error_limit)
qed

lemma evaluate_candidate_state:
  assumes "ev_inv cands ev" "evaluate_candidate (Suc n) cands k ev = (r, ev')" "r \<noteq> Panic" "bt_get cands k \<noteq> None"
    "\<And>f. r = Err f \<Longrightarrow> \<not> limit_failed f"
  shows "bt_get (ev_states ev') k \<noteq> None"
proof (cases "bt_get (ev_states ev) k")
  case None
  then show ?thesis
    using assms evaluator.resolve_outcome [OF assms(1,2)] ev_inv_evaluated [of cands ev' k] by (cases r) auto
next
  case (Some s)
  then show ?thesis using evaluator.resolve_outcome [OF assms(1,2)] by (auto simp: extends_ev_def)
qed

lemma evaluate_loop_settled:
  "settled cands ev \<Longrightarrow> evaluate_loop cands ks ev = r \<Longrightarrow>
   r \<noteq> Panic \<and> (\<forall>ev'. r = Ok ev' \<longrightarrow> settled cands ev' \<and> extends_ev ev ev' \<and>
     (\<forall>k \<in> set ks. bt_get cands k \<noteq> None \<longrightarrow> bt_get (ev_states ev') k \<noteq> None))"
proof (induction ks arbitrary: ev r)
  case (Cons k ks)
  obtain q ev1 where q: "evaluate_candidate (length cands + 1) cands k ev = (q, ev1)" by (metis surj_pair)
  note step = settled_step [OF Cons.prems(1) q]
  show ?case
  proof (cases "\<exists>f. q = Err f \<and> constant_error f \<noteq> None")
    case True
    then show ?thesis using Cons.prems(2) q by auto
  next
    case False
    with step have ev1: "settled cands ev1" "extends_ev ev ev1" "q \<noteq> Panic" by auto
    have loop: "evaluate_loop cands ks ev1 = r"
      using Cons.prems(2) q False ev1(3)
      by (cases q) (auto split: option.splits simp del: evaluate_candidate.simps)
    have rest: "r \<noteq> Panic \<and> (\<forall>ev'. r = Ok ev' \<longrightarrow> settled cands ev' \<and> extends_ev ev1 ev' \<and>
        (\<forall>k \<in> set ks. bt_get cands k \<noteq> None \<longrightarrow> bt_get (ev_states ev') k \<noteq> None))"
      by (rule Cons.IH [OF ev1(1) loop])
    have "bt_get (ev_states ev1) k \<noteq> None" if "bt_get cands k \<noteq> None"
      using evaluate_candidate_state [of cands ev "length cands" k q ev1] q ev1(3) False that Cons.prems(1)
      by (auto simp: settled_def constant_error_limit)
    then have "bt_get (ev_states ev') k \<noteq> None" if "bt_get cands k \<noteq> None" "extends_ev ev1 ev'" for ev'
      using that by (auto simp: extends_ev_def)
    with rest ev1(2) show ?thesis by (auto intro: extends_ev_trans)
  qed
qed auto

lemma initial_settled: "keyed cands \<Longrightarrow> settled cands initial_evaluator"
  by (simp add: settled_def ev_inv_def initial_evaluator_def bt.wf_empty)

lemma evaluate_all_settled:
  assumes "keyed cands" "evaluate_all cands = Ok ev"
  shows "settled cands ev" "\<And>k. bt_get cands k \<noteq> None \<Longrightarrow> bt_get (ev_states ev) k \<noteq> None"
proof -
  note loop = evaluate_loop_settled [OF initial_settled [OF assms(1)] assms(2) [unfolded evaluate_all_def]]
  show "settled cands ev" using loop by blast
  show "bt_get (ev_states ev) k \<noteq> None" if "bt_get cands k \<noteq> None" for k
    using loop that bt_get_key [of k cands] unfolding bt_keys_def by blast
qed

text \<open>What is found follows from the candidates, by induction on the dependency level.\<close>

lemma evaluated_derives:
  assumes inv: "ev_inv cands ev"
  shows "bt_get (ev_evaluated ev) k = Some w \<Longrightarrow> derives cands k (el_value w)"
proof (induction "el_dependency_levels w" arbitrary: k w rule: less_induct)
  case less
  then have "bt_get (ev_states ev) k = Some Complete" using ev_inv_evaluated [OF inv, of k] by fastforce
  then obtain c where c: "bt_get cands k = Some c" using ev_inv_candidate [OF inv] by blast
  then have ok: "evaluation_ok cands ev c w" using inv less.prems unfolding ev_inv_def by blast
  have "derives cands k' v" if "below ev (el_dependency_levels w) k' = Some v" for k' v
    using that less.hyps by (auto simp: below_def split: option.splits if_splits)
  then show ?case using ok c unfolding evaluation_ok_def by (blast intro: derivesI)
qed

lemma derives_evaluated:
  assumes set: "settled cands ev" and all: "\<And>k. bt_get cands k \<noteq> None \<Longrightarrow> bt_get (ev_states ev) k \<noteq> None"
  shows "derives cands k v \<Longrightarrow> values_of ev k = Some v"
proof (induction rule: derives.induct)
  case (derivesI k c E v D)
  have inv: "ev_inv cands ev" using set by (simp add: settled_def)
  have "E \<subseteq>\<^sub>m values_of ev" using derivesI(3) by (auto simp: map_le_def dom_def)
  with derivesI(2) have d: "denotes cands (values_of ev) c (cd_expression c) v D" by (rule denotes_mono)
  have adm: "admissible cands ev (values_of ev)"
    using ev_inv_evaluated [OF inv] ev_inv_candidate [OF inv]
    by (fastforce simp: admissible_def values_of_def)
  obtain s where s: "bt_get (ev_states ev) k = Some s" using all derivesI(1) by fastforce
  show ?case
  proof (cases s)
    case Complete
    then obtain w where w: "bt_get (ev_evaluated ev) k = Some w" using ev_inv_evaluated [OF inv, of k] s by fastforce
    then have "evaluation_ok cands ev c w" using inv derivesI(1) unfolding ev_inv_def by blast
    then have "v = el_value w" using d unfolding evaluation_ok_def by (blast intro: map_le_refl)
    with w show ?thesis by (simp add: values_of_def)
  next
    case (Failed f)
    then have "\<not> limit_failed f" using set s by (auto simp: settled_def)
    with inv derivesI(1) s Failed adm d show ?thesis unfolding ev_inv_def by blast
  next
    case Visiting
    with set s show ?thesis by (auto simp: settled_def)
  qed
qed

lemma eval_expr_strict: "eval_expr env t e = Ok v \<Longrightarrow> n \<in> names e \<Longrightarrow> env n \<noteq> None"
  by (induction e arbitrary: v) (auto simp: result_iffs)

lemma denotes_dependencies: "denotes cands E c x v D \<Longrightarrow> d \<in> D \<Longrightarrow> E d \<noteq> None"
proof (induction cands E c x v D rule: denotes.induct)
  case (3 cands E c tokens v D)
  then obtain e n where e: "eval_expr (named (candidate_context cands c tokens) E) (cd_primitive c) e = Ok v"
    "n \<in> names e" "d \<in> set (matching (candidate_context cands c tokens) n)" by (auto simp: Let_def)
  from eval_expr_strict [OF e(1,2)] e(3) show ?case by (auto simp: named_def split: list.splits)
qed auto

section \<open>Samples\<close>

definition sample_candidate :: "string \<Rightarrow> string \<Rightarrow> token list \<Rightarrow> candidate" where
  "sample_candidate identifier name ts =
     \<lparr>cd_declared_value_id = identifier, cd_declared_value_claim_id = ''claim'', cd_owner_id = ''owner'', cd_name = name,
      cd_rust_type = ''i32'', cd_primitive = PT_Signed 32, cd_type_authority = ExplicitPrimitiveAnnotation,
      cd_evidence_ids = [], cd_declaration_evidence_ids = [], cd_source_file_id = ''file'', cd_expression = Parsed ts,
      cd_explicit_value = True, cd_dependency_source = True, cd_enum_id = None, cd_repr_evidence_id = None\<rparr>"

text \<open>\<open>const A: i32 = 2 + B * 3; const B: i32 = 4;\<close>\<close>

definition sample_candidates :: candidates where
  "sample_candidates =
     [(''a'', sample_candidate ''a'' ''A''
         [T_Integer ''2'', T_Operator Plus, T_Identifier ''B'', T_Operator Times, T_Integer ''3'']),
      (''b'', sample_candidate ''b'' ''B'' [T_Integer ''4''])]"

definition sample_evaluator :: evaluator where
  "sample_evaluator = (case evaluate_all sample_candidates of Ok ev \<Rightarrow> ev | _ \<Rightarrow> initial_evaluator)"

text \<open>\<open>const A: i32 = 1 / 0; const B: i32 = A + 1;\<close>, with given identifiers.\<close>

definition failing_candidates :: "string \<Rightarrow> string \<Rightarrow> candidates" where
  "failing_candidates a b =
     bt_collect
      [(a, sample_candidate a ''A'' [T_Integer ''1'', T_Operator Divide, T_Integer ''0'']),
       (b, sample_candidate b ''B'' [T_Identifier ''A'', T_Operator Plus, T_Integer ''1''])]"

definition failure_of :: "candidates \<Rightarrow> string \<Rightarrow> evaluation_failure option" where
  "failure_of cands k =
     (case evaluate_all cands of
        Ok ev \<Rightarrow> (case bt_get (ev_states ev) k of Some (Failed f) \<Rightarrow> Some f | _ \<Rightarrow> None)
      | _ \<Rightarrow> None)"

text \<open>The implicit discriminants of an enum, each the successor of the one before.\<close>

definition implicit_chain :: "candidates \<Rightarrow> nat \<Rightarrow> string list \<Rightarrow> bool" where
  "implicit_chain cands bits ks \<longleftrightarrow>
     (\<forall>i < length ks. \<exists>c. bt_get cands (ks ! i) = Some c \<and> cd_primitive c = PT_Unsigned bits \<and>
        cd_expression c = EnumImplicit (if i = 0 then None else Some (ks ! (i - 1))))"

definition variant_id :: "nat \<Rightarrow> string" where
  "variant_id i = replicate i (CHR ''v'')"

definition variant_candidate :: "nat \<Rightarrow> candidate" where
  "variant_candidate i =
     (sample_candidate (variant_id i) ''V'' [])
       \<lparr>cd_primitive := PT_Unsigned 8, cd_dependency_source := False, cd_enum_id := Some ''enum'',
        cd_expression := EnumImplicit (if i = 0 then None else Some (variant_id (i - 1)))\<rparr>"

definition variants :: "nat \<Rightarrow> candidates" where
  "variants n = map (\<lambda>i. (variant_id i, variant_candidate i)) [0..<n]"

lemma saturating_add_code [code]: "saturating_add a b = (let s = a + b in if s \<le> 1000 then s else min s u64_max)"
  by (auto simp: saturating_add_def u64_max_def Let_def)

lemma from_str_radix_code [code]:
  "from_str_radix radix digits =
     (let v = foldl (\<lambda>acc c. acc * radix + the (to_digit radix c)) 0 digits
      in if int v < 2 ^ 128 then Some v else None)"
  unfolding from_str_radix_def Let_def u128_max_iff by (simp add: nat_less_iff)

lemma sample_keyed: "keyed sample_candidates"
  by (auto simp: keyed_def bt_wf_def sample_candidates_def sample_candidate_def split: if_splits)

lemma sample_evaluates: "evaluate_all sample_candidates = Ok sample_evaluator"
proof -
  have "case evaluate_all sample_candidates of Ok _ \<Rightarrow> True | _ \<Rightarrow> False" by code_simp
  then show ?thesis by (simp add: sample_evaluator_def split: result.splits)
qed

lemma chain_derives:
  assumes "implicit_chain cands bits ks" "bits \<le> 128"
  shows "i < length ks \<Longrightarrow> i < 2 ^ bits \<Longrightarrow> derives cands (ks ! i) (CV_Unsigned i)"
proof (induction i)
  case 0
  then obtain c where c: "bt_get cands (ks ! 0) = Some c" "cd_primitive c = PT_Unsigned bits"
    "cd_expression c = EnumImplicit None" using assms(1) by (auto simp: implicit_chain_def)
  show ?case by (rule derivesI [OF c(1), of "\<lambda>_. None" _ "{}"]) (use c in auto)
next
  case (Suc i)
  then obtain c where c: "bt_get cands (ks ! Suc i) = Some c" "cd_primitive c = PT_Unsigned bits"
    "cd_expression c = EnumImplicit (Some (ks ! i))" using assms(1) by (fastforce simp: implicit_chain_def)
  have "(2 :: nat) ^ bits \<le> 2 ^ 128" using assms(2) by (intro power_increasing) auto
  then have "u128_checked (i + 1) = Some (i + 1)" using Suc.prems(2) by (simp add: u128_checked_def u128_max_iff)
  then have "checked_increment (CV_Unsigned i) (cd_primitive c) = Ok (CV_Unsigned (Suc i))"
    using c(2) Suc.prems(2) by (simp add: check_range_eq)
  moreover have "derives cands (ks ! i) (CV_Unsigned i)" using Suc by simp
  ultimately show ?case
    by (intro derivesI [OF c(1), of "[ks ! i \<mapsto> CV_Unsigned i]" _ "{ks ! i}"]) (use c in auto)
qed

lemma chain_levels:
  assumes "implicit_chain cands bits ks" "ev_inv cands ev"
  shows "i < length ks \<Longrightarrow> bt_get (ev_evaluated ev) (ks ! i) = Some w \<Longrightarrow> i \<le> el_dependency_levels w"
proof (induction i arbitrary: w)
  case (Suc i)
  then obtain c where c: "bt_get cands (ks ! Suc i) = Some c" "cd_expression c = EnumImplicit (Some (ks ! i))"
    using assms(1) by (fastforce simp: implicit_chain_def)
  have "evaluation_ok cands ev c w" using assms(2) c(1) Suc.prems(2) unfolding ev_inv_def by blast
  then have "below ev (el_dependency_levels w) (ks ! i) \<noteq> None" using c(2) by (auto simp: evaluation_ok_def)
  then obtain w' where "bt_get (ev_evaluated ev) (ks ! i) = Some w'" "el_dependency_levels w' < el_dependency_levels w"
    by (auto simp: below_def split: option.splits if_splits)
  with Suc.IH [of w'] Suc.prems(1) show ?case by simp
qed simp

lemma evaluate_all_limit:
  assumes "keyed cands"
  shows "(\<exists>ev. evaluate_all cands = Ok ev) \<or> (\<exists>l m n. evaluate_all cands = Err (CE_LimitExceeded l m n))"
proof (cases "evaluate_all cands")
  case (Err e)
  have "evaluate_loop cands ks ev = Err e \<Longrightarrow> \<exists>l m n. e = CE_LimitExceeded l m n" for ks ev
    by (induction cands ks ev rule: evaluate_loop.induct)
      (auto split: prod.splits result.splits option.splits simp del: evaluate_candidate.simps)
  with Err show ?thesis by (auto simp: evaluate_all_def)
next
  case Panic
  with evaluate_loop_settled [OF initial_settled [OF assms] refl] show ?thesis by (simp add: evaluate_all_def)
qed simp

lemma variant_id_less: "i < j \<Longrightarrow> variant_id i < variant_id j"
  unfolding variant_id_def
proof (induction i arbitrary: j)
  case 0
  then show ?case by (cases j) auto
next
  case (Suc i)
  then show ?case by (cases j) auto
qed

lemma variants_chain: "keyed (variants n)" "implicit_chain (variants n) 8 (map variant_id [0..<n])"
proof -
  have wf: "bt_wf (variants n)"
    by (auto simp: bt_wf_def variants_def comp_def sorted_wrt_map sorted_wrt_iff_nth_less variant_id_less)
  have mem: "bt_get (variants n) (variant_id i) = Some (variant_candidate i)" if "i < n" for i
    using that by (simp add: bt_get_mem [OF wf]) (auto simp: variants_def)
  show "implicit_chain (variants n) 8 (map variant_id [0..<n])"
    by (auto simp: implicit_chain_def mem variant_candidate_def)
  have "cd_declared_value_id c = k" if "(k, c) \<in> set (variants n)" for k c
    using that by (auto simp: variants_def variant_candidate_def sample_candidate_def)
  with wf show "keyed (variants n)" by (simp add: keyed_def bt_get_mem)
qed

lemma evaluated_typed:
  assumes "keyed cands" "evaluate_all cands = Ok ev" "bt_get (ev_evaluated ev) k = Some w"
  shows "\<exists>c. bt_get cands k = Some c \<and> fits (el_value w) (cd_primitive c) \<and>
    el_dependency_levels w \<le> 64 \<and> length (el_dependency_ids w) \<le> 256 \<and> sorted_wrt (<) (el_dependency_ids w) \<and>
    list_all (\<lambda>d. \<exists>x. bt_get (ev_evaluated ev) d = Some x \<and> el_dependency_levels x < el_dependency_levels w)
      (el_dependency_ids w)"
proof -
  have inv: "ev_inv cands ev" using evaluate_all_settled [OF assms(1,2)] by (simp add: settled_def)
  have "bt_get (ev_states ev) k = Some Complete" using ev_inv_evaluated [OF inv, of k] assms(3) by fastforce
  then obtain c where c: "bt_get cands k = Some c" using ev_inv_candidate [OF inv] by blast
  then have ok: "evaluation_ok cands ev c w" using inv assms(3) unfolding ev_inv_def by blast
  then have d: "denotes cands (below ev (el_dependency_levels w)) c (cd_expression c) (el_value w) (set (el_dependency_ids w))"
    by (simp add: evaluation_ok_def)
  have "\<exists>x. bt_get (ev_evaluated ev) d = Some x \<and> el_dependency_levels x < el_dependency_levels w"
    if "d \<in> set (el_dependency_ids w)" for d
    using denotes_dependencies [OF d that] by (auto simp: below_def split: option.splits if_splits)
  with ok c show ?thesis by (simp add: evaluation_ok_def list_all_iff)
qed

section \<open>Properties\<close>

text \<open>
  C14. The evaluator finds exactly the values that follow from the candidates: when no limit stops it, a
  candidate is evaluated to a value if and only if the value is derivable, by the grammar of
  expressions with the precedences of the language, checked arithmetic in the type, implicit
  discriminants as successors, and names standing for the one same-typed constant of the same owner
  with a derivable value. So the outcome does not depend on the order of evaluation, and a cycle never
  has a value.
\<close>

theorem evaluate_all_exact:
  assumes "keyed cands" "evaluate_all cands = Ok ev"
  shows "values_of ev k = Some v \<longleftrightarrow> derives cands k v"
proof
  have set: "settled cands ev" using evaluate_all_settled [OF assms] by blast
  assume "values_of ev k = Some v"
  then obtain w where "bt_get (ev_evaluated ev) k = Some w" "v = el_value w" by (auto simp: values_of_def)
  then show "derives cands k v" using evaluated_derives set by (auto simp: settled_def)
next
  assume "derives cands k v"
  with derives_evaluated evaluate_all_settled [OF assms] show "values_of ev k = Some v" by blast
qed

theorem evaluate_all_exact_witness: "derives sample_candidates ''a'' (CV_Signed 14)"
proof -
  have "values_of sample_evaluator ''a'' = Some (CV_Signed 14)" by code_simp
  then show ?thesis using evaluate_all_exact [OF sample_keyed sample_evaluates] by simp
qed

text \<open>
  C16. Every evaluated constant is well typed and well founded: its value is in the range of its type, it
  has at most 64 dependency levels and 256 direct dependencies, listed in order, and every one of them
  is itself evaluated at a strictly lower level, so that the dependencies of the result are closed
  and without cycles.
\<close>

theorem evaluate_all_typed:
  assumes "keyed cands" "evaluate_all cands = Ok ev" "bt_get (ev_evaluated ev) k = Some w"
  shows "\<exists>c. bt_get cands k = Some c \<and> fits (el_value w) (cd_primitive c) \<and>
    el_dependency_levels w \<le> 64 \<and> length (el_dependency_ids w) \<le> 256 \<and> sorted_wrt (<) (el_dependency_ids w) \<and>
    list_all (\<lambda>d. \<exists>x. bt_get (ev_evaluated ev) d = Some x \<and> el_dependency_levels x < el_dependency_levels w)
      (el_dependency_ids w)"
  by (rule evaluated_typed [OF assms])

theorem evaluate_all_typed_witness:
  "\<exists>w. bt_get (ev_evaluated sample_evaluator) ''a'' = Some w \<and> fits (el_value w) (PT_Signed 32) \<and>
     el_dependency_ids w = [''b''] \<and> el_dependency_levels w = 1"
proof -
  let ?w = "\<lparr>el_value = CV_Signed 14, el_dependency_ids = [''b''], el_dependency_levels = 1\<rparr>"
  have w: "bt_get (ev_evaluated sample_evaluator) ''a'' = Some ?w" by code_simp
  from evaluate_all_typed [OF sample_keyed sample_evaluates w] have "fits (el_value ?w) (PT_Signed 32)"
    by (auto simp: sample_candidates_def sample_candidate_def)
  with w show ?thesis by auto
qed

text \<open>
  C17. The evaluation ends for every set of candidates: it never runs out of the recursion depth its
  candidates allow, stops early only at a limit, and otherwise leaves every candidate either
  evaluated or failed, and none being visited.
\<close>

theorem evaluate_all_ends:
  assumes "keyed cands"
  shows "case evaluate_all cands of
      Ok ev \<Rightarrow> list_all (\<lambda>k. bt_get (ev_states ev) k = Some Complete \<or> (\<exists>f. bt_get (ev_states ev) k = Some (Failed f)))
        (bt_keys cands)
    | Err e \<Rightarrow> (\<exists>l m n. e = CE_LimitExceeded l m n)
    | Panic \<Rightarrow> False"
proof (cases "evaluate_all cands")
  case (Ok ev)
  have "bt_get (ev_states ev) k = Some Complete \<or> (\<exists>f. bt_get (ev_states ev) k = Some (Failed f))"
    if "k \<in> set (bt_keys cands)" for k
  proof -
    have "bt_get cands k \<noteq> None" using that bt_get_key [of k cands] by (simp add: bt_keys_def)
    then obtain s where "bt_get (ev_states ev) k = Some s" using evaluate_all_settled(2) [OF assms Ok] by fastforce
    then show ?thesis using evaluate_all_settled(1) [OF assms Ok] by (cases s) (auto simp: settled_def)
  qed
  with Ok show ?thesis by (simp add: list_all_iff)
qed (use evaluate_all_limit [OF assms] in auto)

theorem evaluate_all_ends_witness:
  "case evaluate_all sample_candidates of
      Ok ev \<Rightarrow> list_all (\<lambda>k. bt_get (ev_states ev) k = Some Complete \<or> (\<exists>f. bt_get (ev_states ev) k = Some (Failed f))) [''a'', ''b'']
    | _ \<Rightarrow> False"
  using evaluate_all_ends [OF sample_keyed] sample_evaluates by (simp add: bt_keys_def sample_candidates_def)




end
