(* ===== verification/Constant_Report.thy ===== *)
theory Constant_Report
  imports Constant_Results "HOL-Library.Product_Lexorder"
begin

text \<open>
  What the extraction reports after the evaluation (\<open>extract_constant_evaluation_from_local_flow\<close> of
  \<open>constant_evaluation.rs\<close>, from the failed enums on): an enum with a variant that has no value loses
  all its values, and every constant without a value becomes a coverage gap with its reason.
\<close>

section \<open>Definitions\<close>

record unsupported_subject =
  us_capability :: string
  us_subject_id :: string
  us_evidence_ids :: "string list"
  us_legacy_evidence_ids :: "string list"
  us_source_file_id :: string

type_synonym evaluations = "(string, evaluation) btree"
type_synonym enum_evidence = "(string, string \<times> string list) btree"

definition enum_not_evaluated :: string where
  "enum_not_evaluated = ''rust.enum_discriminant_not_evaluated''"

definition failed_enums :: "candidates \<Rightarrow> evaluations \<Rightarrow> string btset" where
  "failed_enums cands evaluated =
     fold bs_insert
       (List.map_filter
         (\<lambda>c. case cd_enum_id c of
                Some e \<Rightarrow> if bt_get evaluated (cd_declared_value_id c) = None then Some e else None
              | None \<Rightarrow> None)
         (map snd cands)) []"

definition retain_other_enums :: "candidates \<Rightarrow> string \<Rightarrow> evaluations \<Rightarrow> evaluations" where
  "retain_other_enums cands e evaluated =
     filter (\<lambda>(k, _). case bt_get cands k of None \<Rightarrow> True | Some c \<Rightarrow> cd_enum_id c \<noteq> Some e) evaluated"

definition enum_gap :: "enum_evidence \<Rightarrow> string \<Rightarrow> unsupported_subject list" where
  "enum_gap evidence e =
     (case bt_get evidence e of
        None \<Rightarrow> []
      | Some (source_file_id, evidence_ids) \<Rightarrow>
          [\<lparr>us_capability = enum_not_evaluated, us_subject_id = e, us_evidence_ids = evidence_ids,
            us_legacy_evidence_ids = [], us_source_file_id = source_file_id\<rparr>])"

fun drop_failed_enums ::
  "candidates \<Rightarrow> enum_evidence \<Rightarrow> string list \<Rightarrow> evaluations \<times> unsupported_subject list \<Rightarrow>
   evaluations \<times> unsupported_subject list" where
  "drop_failed_enums cands evidence [] (evaluated, unsupported) = (evaluated, unsupported)"
| "drop_failed_enums cands evidence (e # es) (evaluated, unsupported) =
     drop_failed_enums cands evidence es
       (retain_other_enums cands e evaluated, unsupported @ enum_gap evidence e)"

definition failure_capability :: "(string, evaluation_state) btree \<Rightarrow> candidate \<Rightarrow> string" where
  "failure_capability states c =
     (case bt_get states (cd_declared_value_id c) of
        Some (Failed f) \<Rightarrow> capability f
      | _ \<Rightarrow> capability Dependency_failure)"

definition unsupported_constants ::
  "candidates \<Rightarrow> (string, evaluation_state) btree \<Rightarrow> evaluations \<Rightarrow> unsupported_subject list" where
  "unsupported_constants cands states evaluated =
     map (\<lambda>c. \<lparr>us_capability = failure_capability states c, us_subject_id = cd_declared_value_id c,
                us_evidence_ids = cd_evidence_ids c, us_legacy_evidence_ids = cd_declaration_evidence_ids c,
                us_source_file_id = cd_source_file_id c\<rparr>)
       (filter (\<lambda>c. cd_enum_id c = None \<and> bt_get evaluated (cd_declared_value_id c) = None) (map snd cands))"

text \<open>\<open>Vec::dedup_by\<close> keeps the first of every run of elements the test identifies.\<close>

fun dedup_by :: "('a \<Rightarrow> 'a \<Rightarrow> bool) \<Rightarrow> 'a list \<Rightarrow> 'a list" where
  "dedup_by same (x # y # ys) = (if same y x then dedup_by same (x # ys) else x # dedup_by same (y # ys))"
| "dedup_by same xs = xs"

definition same_subject :: "unsupported_subject \<Rightarrow> unsupported_subject \<Rightarrow> bool" where
  "same_subject l r \<longleftrightarrow> us_capability l = us_capability r \<and> us_subject_id l = us_subject_id r"

definition order_unsupported :: "unsupported_subject list \<Rightarrow> unsupported_subject list" where
  "order_unsupported us =
     dedup_by same_subject (sort_key (\<lambda>u. (us_source_file_id u, us_subject_id u, us_capability u)) us)"

definition evaluation_report ::
  "candidates \<Rightarrow> enum_evidence \<Rightarrow> unsupported_subject list \<Rightarrow>
   (evaluations \<times> unsupported_subject list \<times> string btset, constant_evaluation_error) result" where
  "evaluation_report cands evidence unsupported =
     and_then (evaluate_all cands) (\<lambda>ev.
       let enums = failed_enums cands (ev_evaluated ev);
           (evaluated, gaps) = drop_failed_enums cands evidence (bt_keys enums) (ev_evaluated ev, unsupported)
       in Ok (evaluated, order_unsupported (gaps @ unsupported_constants cands (ev_states ev) evaluated), enums))"

section \<open>Lemmas\<close>

lemma failed_enums_iff:
  "e \<in> set (bt_keys (failed_enums cands evaluated)) \<longleftrightarrow>
     (\<exists>k c. (k, c) \<in> set cands \<and> cd_enum_id c = Some e \<and> bt_get evaluated (cd_declared_value_id c) = None)"
proof -
  have "set (bt_keys (fold bs_insert es s)) = set es \<union> set (bt_keys s)" for es and s :: "string btset"
    by (induction es arbitrary: s) (auto simp: bs_insert_keys)
  then show ?thesis
    by (auto simp: failed_enums_def bt_keys_def map_filter_def split: option.splits if_splits) force+
qed

lemma bt_get_filter:
  "bt_get (filter (\<lambda>(k, _). P k) m) k = (if P k then bt_get m k else None)"
  by (induction m) auto

lemma retain_other_enums_get:
  "bt_get (retain_other_enums cands e evaluated) k =
     (if \<exists>c. bt_get cands k = Some c \<and> cd_enum_id c = Some e then None else bt_get evaluated k)"
  unfolding retain_other_enums_def
  by (subst bt_get_filter) (auto split: option.splits)

lemma drop_failed_enums_get:
  "drop_failed_enums cands evidence es (evaluated, us) = (evaluated', us') \<Longrightarrow>
   bt_get evaluated' k =
     (if \<exists>c e. bt_get cands k = Some c \<and> cd_enum_id c = Some e \<and> e \<in> set es then None else bt_get evaluated k) \<and>
   us' = us @ concat (map (enum_gap evidence) es)"
proof (induction es arbitrary: evaluated us)
  case (Cons e es)
  from Cons.IH [of "retain_other_enums cands e evaluated" "us @ enum_gap evidence e"] Cons.prems
  have "bt_get evaluated' k =
      (if \<exists>c e. bt_get cands k = Some c \<and> cd_enum_id c = Some e \<and> e \<in> set es then None
       else bt_get (retain_other_enums cands e evaluated) k)"
    "us' = us @ enum_gap evidence e @ concat (map (enum_gap evidence) es)" by auto
  then show ?case unfolding retain_other_enums_get by auto
qed auto

lemma drop_failed_enums_wf: "bt_wf evaluated \<Longrightarrow> bt_wf (fst (drop_failed_enums cands evidence es (evaluated, us)))"
proof (induction es arbitrary: evaluated us)
  case (Cons e es)
  have "bt_wf (retain_other_enums cands e evaluated)"
    using Cons.prems by (simp add: bt_wf_def retain_other_enums_def sorted_wrt_map sorted_wrt_filter)
  then show ?case by (simp add: Cons.IH)
qed simp

lemma dedup_by_image: "f ` set (dedup_by (\<lambda>x y. f x = f y) xs) = f ` set xs"
  by (induction "\<lambda>x y. f x = f y" xs rule: dedup_by.induct) auto

lemma dedup_by_subset: "set (dedup_by same xs) \<subseteq> set xs"
  by (induction same xs rule: dedup_by.induct) auto

definition gap_key :: "unsupported_subject \<Rightarrow> string \<times> string" where
  "gap_key u = (us_capability u, us_subject_id u)"

lemma order_unsupported_keys: "gap_key ` set (order_unsupported us) = gap_key ` set us"
proof -
  have same: "same_subject = (\<lambda>x y. gap_key x = gap_key y)"
    by (auto simp: fun_eq_iff same_subject_def gap_key_def)
  show ?thesis unfolding order_unsupported_def same dedup_by_image by simp
qed

lemma order_unsupported_subset: "set (order_unsupported us) \<subseteq> set us"
  using dedup_by_subset by (fastforce simp: order_unsupported_def)

text \<open>The variants of the failed enums.\<close>

definition dropped :: "candidates \<Rightarrow> evaluator \<Rightarrow> string \<Rightarrow> bool" where
  "dropped cands ev k \<longleftrightarrow>
     (\<exists>c e. bt_get cands k = Some c \<and> cd_enum_id c = Some e \<and>
       e \<in> set (bt_keys (failed_enums cands (ev_evaluated ev))))"

lemma evaluation_report_Ok:
  assumes "evaluation_report cands evidence us = Ok (evaluated, gaps, enums)"
  obtains ev where "evaluate_all cands = Ok ev"
    "\<And>k. bt_get evaluated k =
      (if dropped cands ev k then None else bt_get (ev_evaluated ev) k)"
    "gaps = order_unsupported (us @ concat (map (enum_gap evidence) (bt_keys (failed_enums cands (ev_evaluated ev)))) @
      unsupported_constants cands (ev_states ev) evaluated)"
    "enums = failed_enums cands (ev_evaluated ev)" "bt_wf (ev_evaluated ev) \<Longrightarrow> bt_wf evaluated"
proof -
  from assms obtain ev where "evaluate_all cands = Ok ev" by (auto simp: evaluation_report_def result_iffs)
  moreover obtain x us' where
    "drop_failed_enums cands evidence (bt_keys (failed_enums cands (ev_evaluated ev))) (ev_evaluated ev, us) = (x, us')"
    by (metis surj_pair)
  ultimately have ev: "evaluate_all cands = Ok ev"
    "drop_failed_enums cands evidence (bt_keys (failed_enums cands (ev_evaluated ev))) (ev_evaluated ev, us) = (evaluated, us')"
    "gaps = order_unsupported (us' @ unsupported_constants cands (ev_states ev) evaluated)"
    "enums = failed_enums cands (ev_evaluated ev)"
    using assms by (auto simp: evaluation_report_def Let_def)
  have wf: "bt_wf evaluated" if "bt_wf (ev_evaluated ev)"
    using drop_failed_enums_wf [OF that, of cands evidence "bt_keys (failed_enums cands (ev_evaluated ev))" us] ev(2) by simp
  show ?thesis
    by (rule that [OF ev(1) _ _ _ wf]) (use drop_failed_enums_get [OF ev(2)] ev(3,4) in \<open>auto simp: dropped_def\<close>)
qed

text \<open>Candidates as they are collected: implicit discriminants follow a variant of the same enum, and the
  constants that names can stand for belong to no enum.\<close>

definition enums_closed :: "candidates \<Rightarrow> bool" where
  "enums_closed cands \<longleftrightarrow>
     (\<forall>k c. bt_get cands k = Some c \<longrightarrow> (cd_dependency_source c \<longrightarrow> cd_enum_id c = None) \<and>
       (\<forall>p. cd_expression c = EnumImplicit (Some p) \<longrightarrow>
         (\<exists>c'. bt_get cands p = Some c' \<and> cd_enum_id c' = cd_enum_id c)))"

text \<open>The variants of an enum.\<close>

definition enum_variants :: "candidates \<Rightarrow> string \<Rightarrow> string list" where
  "enum_variants cands e = map fst (filter (\<lambda>(_, c). cd_enum_id c = Some e) cands)"

definition constants :: "candidates \<Rightarrow> string list" where
  "constants cands = map fst (filter (\<lambda>(_, c). cd_enum_id c = None) cands)"

lemma keyed_mem: "keyed cands \<Longrightarrow> (k, c) \<in> set cands \<longleftrightarrow> bt_get cands k = Some c"
  by (simp add: keyed_def bt_get_mem)

lemma variant_iff: "keyed cands \<Longrightarrow> k \<in> set (enum_variants cands e) \<longleftrightarrow> (\<exists>c. bt_get cands k = Some c \<and> cd_enum_id c = Some e)"
  by (force simp: enum_variants_def simp flip: keyed_mem)

lemma constant_iff: "keyed cands \<Longrightarrow> k \<in> set (constants cands) \<longleftrightarrow> (\<exists>c. bt_get cands k = Some c \<and> cd_enum_id c = None)"
  by (force simp: constants_def simp flip: keyed_mem)

section \<open>A sample\<close>

text \<open>An enum of two implicit variants, and a constant with no value.\<close>

definition report_candidates :: candidates where
  "report_candidates = variants 2 @ [(''w'', sample_candidate ''w'' ''A'' [T_Integer ''1'', T_Operator Divide, T_Integer ''0''])]"

lemma u128_checked_code [code]: "u128_checked v = (if int v < 2 ^ 128 then Some v else None)"
  by (simp add: u128_checked_def u128_max_iff nat_less_iff)

lemma report_candidates_eq:
  "report_candidates = [([], variant_candidate 0), (''v'', variant_candidate 1),
    (''w'', sample_candidate ''w'' ''A'' [T_Integer ''1'', T_Operator Divide, T_Integer ''0''])]"
  by (simp add: report_candidates_def variants_def upt_rec variant_id_def)

lemma report_sample:
  "\<exists>x r. evaluation_report report_candidates [] [] = Ok (x, r) \<and> bt_get x ''v'' \<noteq> None \<and> bt_get x ''w'' = None"
  "keyed report_candidates" "enums_closed report_candidates"
proof -
  have "case evaluation_report report_candidates [] [] of
      Ok (x, _) \<Rightarrow> bt_get x ''v'' \<noteq> None \<and> bt_get x ''w'' = None | _ \<Rightarrow> False" by code_simp
  then show "\<exists>x r. evaluation_report report_candidates [] [] = Ok (x, r) \<and> bt_get x ''v'' \<noteq> None \<and> bt_get x ''w'' = None"
    by (simp split: result.splits prod.splits)
  show "keyed report_candidates" "enums_closed report_candidates"
    unfolding report_candidates_eq
    by (auto simp: keyed_def bt_wf_def enums_closed_def variant_candidate_def sample_candidate_def variant_id_def split: if_splits)
qed

lemma report_enums:
  assumes keyed: "keyed cands" and run: "evaluation_report cands evidence us = Ok (evaluated, gaps, enums)"
  shows "list_all (\<lambda>k. bt_get evaluated k \<noteq> None) (enum_variants cands e) \<or>
    list_all (\<lambda>k. bt_get evaluated k = None) (enum_variants cands e) \<and>
    (bt_get evidence e \<noteq> None \<longrightarrow> (enum_not_evaluated, e) \<in> gap_key ` set gaps)"
proof -
  obtain ev where ev: "evaluate_all cands = Ok ev" and get: "\<And>k. bt_get evaluated k =
      (if dropped cands ev k then None else bt_get (ev_evaluated ev) k)"
    and gaps: "gaps = order_unsupported (us @ concat (map (enum_gap evidence) (bt_keys (failed_enums cands (ev_evaluated ev)))) @
      unsupported_constants cands (ev_states ev) evaluated)"
    using evaluation_report_Ok [OF run] by blast
  have "cd_declared_value_id c = k" if "(k, c) \<in> set cands" for k c
    using that keyed keyed_mem [OF keyed, of k c] by (simp add: keyed_def)
  then have failed: "e \<in> set (bt_keys (failed_enums cands (ev_evaluated ev))) \<longleftrightarrow>
      (\<exists>k \<in> set (enum_variants cands e). bt_get (ev_evaluated ev) k = None)"
    unfolding failed_enums_iff by (force simp: enum_variants_def)
  show ?thesis
  proof (cases "e \<in> set (bt_keys (failed_enums cands (ev_evaluated ev)))")
    case True
    then have "bt_get evaluated k = None" if "k \<in> set (enum_variants cands e)" for k
      using that get variant_iff [OF keyed] by (auto simp: dropped_def)
    moreover have "(enum_not_evaluated, e) \<in> gap_key ` set gaps" if "bt_get evidence e \<noteq> None"
      unfolding gaps order_unsupported_keys using that True by (force simp: enum_gap_def gap_key_def image_iff)
    ultimately show ?thesis by (simp add: list_all_iff)
  next
    case False
    then have "bt_get evaluated k \<noteq> None" if "k \<in> set (enum_variants cands e)" for k
      using that get [of k] failed variant_iff [OF keyed, of k e] by (auto simp: dropped_def)
    then show ?thesis by (simp add: list_all_iff)
  qed
qed

lemma report_constants:
  assumes keyed: "keyed cands" and run: "evaluation_report cands evidence us = Ok (evaluated, gaps, enums)"
    and k: "k \<in> set (constants cands)"
  shows "(\<exists>v. derives cands k v \<and> map_option el_value (bt_get evaluated k) = Some v) \<or>
    bt_get evaluated k = None \<and> (\<nexists>v. derives cands k v) \<and> (\<exists>f. (capability f, k) \<in> gap_key ` set gaps)"
proof -
  obtain ev where ev: "evaluate_all cands = Ok ev"
    and get: "\<And>k. bt_get evaluated k =
      (if dropped cands ev k then None else bt_get (ev_evaluated ev) k)"
    and gaps: "gaps = order_unsupported (us @ concat (map (enum_gap evidence) (bt_keys (failed_enums cands (ev_evaluated ev)))) @
      unsupported_constants cands (ev_states ev) evaluated)"
    using evaluation_report_Ok [OF run] by blast
  obtain c where c: "bt_get cands k = Some c" "cd_enum_id c = None" using k constant_iff [OF keyed] by blast
  then have same: "bt_get evaluated k = bt_get (ev_evaluated ev) k" using get by (simp add: dropped_def)
  show ?thesis
  proof (cases "bt_get evaluated k")
    case None
    have "cd_declared_value_id c = k" using keyed c(1) by (simp add: keyed_def)
    then have "(failure_capability (ev_states ev) c, k) \<in> gap_key ` set gaps"
      using c None keyed_mem [OF keyed, of k c] unfolding gaps order_unsupported_keys
      by (force simp: unsupported_constants_def gap_key_def image_iff)
    moreover have "\<exists>f. failure_capability (ev_states ev) c = capability f"
      unfolding failure_capability_def by (auto split: option.splits evaluation_state.splits simp del: capability.simps)
    moreover have "\<not> derives cands k v" for v
      using derives_evaluated [OF evaluate_all_settled [OF keyed ev], of k v] None same by (auto simp: values_of_def)
    ultimately show ?thesis using None by metis
  next
    case (Some w)
    have "ev_inv cands ev" using evaluate_all_settled(1) [OF keyed ev] by (simp add: settled_def)
    then have "derives cands k (el_value w)" using evaluated_derives Some same by simp
    with Some show ?thesis by auto
  qed
qed

text \<open>The variants that a kept variant follows and the constants it names are kept.\<close>

lemma dependency_kept:
  assumes keyed: "keyed cands" and closed: "enums_closed cands" and c: "bt_get cands k = Some c"
    and d: "denotes cands E c (cd_expression c) v D" "x \<in> D" and e: "bt_get cands x = Some c'" "cd_enum_id c' = Some e"
  shows "cd_enum_id c = Some e"
proof (cases "cd_expression c")
  case (EnumImplicit previous)
  with d have x: "previous = Some x" by (cases previous) auto
  show ?thesis using closed c e EnumImplicit unfolding enums_closed_def x by (metis option.inject)
next
  case (Parsed ts)
  with d obtain n where "x \<in> set (matching (candidate_context cands c ts) n)" by (auto simp: Let_def)
  then obtain k'' c'' where c'': "(k'', c'') \<in> set cands" "cd_declared_value_id c'' = x" "cd_dependency_source c''"
    by (auto simp: matching_def candidate_context_def)
  then have "bt_get cands x = Some c''" using keyed keyed_mem [OF keyed, of k'' c''] by (auto simp: keyed_def)
  then show ?thesis using closed c''(3) e by (auto simp: enums_closed_def)
qed

lemma report_closed:
  assumes keyed: "keyed cands" and closed: "enums_closed cands"
    and run: "evaluation_report cands evidence us = Ok (evaluated, gaps, enums)" and w: "bt_get evaluated k = Some w"
  shows "list_all (\<lambda>d. bt_get evaluated d \<noteq> None) (el_dependency_ids w)"
proof -
  obtain ev where ev: "evaluate_all cands = Ok ev"
    and get: "\<And>k. bt_get evaluated k =
      (if dropped cands ev k then None else bt_get (ev_evaluated ev) k)"
    and "gaps = order_unsupported (us @ concat (map (enum_gap evidence) (bt_keys (failed_enums cands (ev_evaluated ev)))) @
      unsupported_constants cands (ev_states ev) evaluated)"
    using evaluation_report_Ok [OF run] by blast
  have inv: "ev_inv cands ev" using evaluate_all_settled(1) [OF keyed ev] by (simp add: settled_def)
  have wev: "bt_get (ev_evaluated ev) k = Some w" using w get [of k] by (auto split: if_splits)
  obtain c where c: "bt_get cands k = Some c"
    using ev_inv_candidate [OF inv] ev_inv_evaluated [OF inv, of k] wev by fastforce
  have "evaluation_ok cands ev c w" using inv c wev unfolding ev_inv_def by blast
  then have d: "denotes cands (below ev (el_dependency_levels w)) c (cd_expression c) (el_value w) (set (el_dependency_ids w))"
    by (simp add: evaluation_ok_def)
  have "bt_get evaluated x \<noteq> None" if x: "x \<in> set (el_dependency_ids w)" for x
    using get [of x] get [of k] w c denotes_dependencies [OF d x] dependency_kept [OF keyed closed c d x]
    by (auto simp: below_def dropped_def split: option.splits if_splits)
  then show ?thesis by (simp add: list_all_iff)
qed

section \<open>Properties\<close>



text \<open>
  What a report keeps is closed: every dependency of an evaluation that is kept is kept, so that the
  graph built from it never refers to a value that was dropped with its enum.
\<close>

lemma evaluation_report_closed:
  assumes keyed: "keyed cands" and closed: "enums_closed cands"
    and run: "evaluation_report cands evidence us = Ok (evaluated, gaps, enums)" and w: "bt_get evaluated k = Some w"
  shows "list_all (\<lambda>d. bt_get evaluated d \<noteq> None) (el_dependency_ids w)"
  by (rule report_closed [OF assms])

lemma evaluation_report_closed_witness:
  "\<exists>x r w. evaluation_report report_candidates [] [] = Ok (x, r) \<and> bt_get x ''v'' = Some w \<and>
     list_all (\<lambda>d. bt_get x d \<noteq> None) (el_dependency_ids w)"
  using report_sample(1) evaluation_report_closed [OF report_sample(2,3)] by fastforce

end
