(* ===== verification/Stable_Ids.thy ===== *)
theory Stable_Ids
  imports Domain_Types Ordered_Map Git_Objects
begin

text \<open>
  Stable identifiers. Every entity, relationship, claim, evidence and coverage gap is named by the
  BLAKE3 hash of a canonical JSON array of its components (\<open>stable_id\<close>, \<open>canonical_string_array\<close> and
  \<open>write_json_string\<close>, of which every model file of \<open>codenoesis-domain/src\<close> holds a copy). Texts are
  the lists of their UTF-8 bytes; escaping acts on ASCII characters only, so that writing byte by byte
  is writing character by character. BLAKE3 is a parameter.
\<close>

type_synonym hash = "bytes \<Rightarrow> bytes"

section \<open>The canonical array\<close>

definition json_byte :: "byte \<Rightarrow> bytes" where
  "json_byte b =
     (if b = 0x22 then [0x5C, 0x22]
      else if b = 0x5C then [0x5C, 0x5C]
      else if b = 0x08 then [0x5C, 0x62]
      else if b = 0x0C then [0x5C, 0x66]
      else if b = 0x0A then [0x5C, 0x6E]
      else if b = 0x0D then [0x5C, 0x72]
      else if b = 0x09 then [0x5C, 0x74]
      else if b \<le> 0x1F then [0x5C, 0x75, 0x30, 0x30] @ as_bytes (byte_hex b)
      else [b])"

definition write_json_string :: "bytes \<Rightarrow> string \<Rightarrow> bytes" where
  "write_json_string bs v = bs @ [0x22] @ concat (map json_byte (as_bytes v)) @ [0x22]"

fun write_components :: "nat \<Rightarrow> string list \<Rightarrow> bytes \<Rightarrow> bytes" where
  "write_components index [] bs = bs"
| "write_components index (component # components) bs =
     write_components (index + 1) components
       (write_json_string (if index > 0 then bs @ [0x2C] else bs) component)"

definition canonical_string_array :: "string list \<Rightarrow> bytes" where
  "canonical_string_array components = write_components 0 components [0x5B] @ [0x5D]"

definition stable_id :: "hash \<Rightarrow> string \<Rightarrow> string list \<Rightarrow> string" where
  "stable_id blake3 prefix components = prefix @ concat (map byte_hex (blake3 (canonical_string_array components)))"

section \<open>Kinds and states\<close>

datatype entity_kind =
    RustCrate | SourceFile | RustModule | RustStruct | RustEnum | RustTrait | RustTypeAlias
  | RustFunction | RustMethod | RustSymbolReference

datatype relationship_kind = Contains | Defines | Implements | Imports

datatype claim_subject_kind = Entity_subject | Relationship_subject

datatype claim_state =
    Candidate_state | Confirmed | DerivedFact | DeterministicFact | Rejected | ReviewedInference | Superseded

fun relationship_kind_str :: "relationship_kind \<Rightarrow> string" where
  "relationship_kind_str Contains = ''CONTAINS''"
| "relationship_kind_str Defines = ''DEFINES''"
| "relationship_kind_str Implements = ''IMPLEMENTS''"
| "relationship_kind_str Imports = ''IMPORTS''"

fun subject_kind_str :: "claim_subject_kind \<Rightarrow> string" where
  "subject_kind_str Entity_subject = ''entity''"
| "subject_kind_str Relationship_subject = ''relationship''"

fun claim_state_str :: "claim_state \<Rightarrow> string" where
  "claim_state_str Candidate_state = ''candidate''"
| "claim_state_str Confirmed = ''confirmed''"
| "claim_state_str DerivedFact = ''derived_fact''"
| "claim_state_str DeterministicFact = ''deterministic_fact''"
| "claim_state_str Rejected = ''rejected''"
| "claim_state_str ReviewedInference = ''reviewed_inference''"
| "claim_state_str Superseded = ''superseded''"

fun identity_entity_kind :: "entity_kind \<Rightarrow> string" where
  "identity_entity_kind RustCrate = ''crate''"
| "identity_entity_kind SourceFile = ''source_file''"
| "identity_entity_kind RustModule = ''module''"
| "identity_entity_kind RustStruct = ''struct''"
| "identity_entity_kind RustEnum = ''enum''"
| "identity_entity_kind RustTrait = ''trait''"
| "identity_entity_kind RustTypeAlias = ''type_alias''"
| "identity_entity_kind RustFunction = ''function''"
| "identity_entity_kind RustMethod = ''method''"
| "identity_entity_kind RustSymbolReference = ''symbol_reference''"

section \<open>Identifiers of the workspace graph\<close>

definition workspace_crate_id :: "hash \<Rightarrow> string \<Rightarrow> string \<Rightarrow> string \<Rightarrow> string \<Rightarrow> string \<Rightarrow> string" where
  "workspace_crate_id blake3 repository_identity manifest_path package_name target_kind target_name =
     stable_id blake3 ''urn:codenoesis:entity:blake3:''
       [''codenoesis.entity-id/rust/v2'', repository_identity, ''crate'', manifest_path, package_name,
        target_kind, target_name]"

definition workspace_source_file_id :: "hash \<Rightarrow> string \<Rightarrow> string \<Rightarrow> string \<Rightarrow> string" where
  "workspace_source_file_id blake3 repository_identity crate_id source_path =
     stable_id blake3 ''urn:codenoesis:entity:blake3:''
       [''codenoesis.entity-id/rust/v2'', repository_identity, ''source_file'', crate_id, source_path]"

definition workspace_module_id :: "hash \<Rightarrow> string \<Rightarrow> string \<Rightarrow> string \<Rightarrow> string" where
  "workspace_module_id blake3 repository_identity crate_id module_path =
     stable_id blake3 ''urn:codenoesis:entity:blake3:''
       [''codenoesis.entity-id/rust/v2'', repository_identity, ''module'', crate_id, module_path]"

definition workspace_declaration_id ::
  "hash \<Rightarrow> string \<Rightarrow> entity_kind \<Rightarrow> string \<Rightarrow> string \<Rightarrow> string \<Rightarrow> string" where
  "workspace_declaration_id blake3 repository_identity kind crate_id module_path nm =
     stable_id blake3 ''urn:codenoesis:entity:blake3:''
       [''codenoesis.entity-id/rust/v2'', repository_identity, identity_entity_kind kind, crate_id,
        module_path, nm]"

definition workspace_relationship_id :: "hash \<Rightarrow> relationship_kind \<Rightarrow> string \<Rightarrow> string \<Rightarrow> string" where
  "workspace_relationship_id blake3 kind source target =
     stable_id blake3 ''urn:codenoesis:relationship:blake3:''
       [''codenoesis.relationship-id/rust/v2'', relationship_kind_str kind, source, target]"

definition workspace_claim_id :: "hash \<Rightarrow> claim_subject_kind \<Rightarrow> string \<Rightarrow> claim_state \<Rightarrow> string" where
  "workspace_claim_id blake3 subject_kind subject_id state =
     stable_id blake3 ''urn:codenoesis:claim:blake3:''
       [''codenoesis.claim-id/v2'', subject_kind_str subject_kind, subject_id, claim_state_str state]"

definition workspace_evidence_id ::
  "hash \<Rightarrow> string \<Rightarrow> string \<Rightarrow> string \<Rightarrow> string \<Rightarrow> nat \<Rightarrow> nat \<Rightarrow> string" where
  "workspace_evidence_id blake3 repository_identity commit_oid blob_oid path start_byte end_byte =
     stable_id blake3 ''urn:codenoesis:evidence:blake3:''
       [''codenoesis.evidence-id/v2'', repository_identity, commit_oid, blob_oid, path, show_nat start_byte,
        show_nat end_byte]"

definition workspace_coverage_gap_id :: "hash \<Rightarrow> string \<Rightarrow> string \<Rightarrow> string \<Rightarrow> string \<Rightarrow> string" where
  "workspace_coverage_gap_id blake3 repository_identity commit_oid capability evidence_id =
     stable_id blake3 ''urn:codenoesis:coverage-gap:blake3:''
       [''codenoesis.coverage-gap-id/v2'', repository_identity, commit_oid, capability, evidence_id]"

section \<open>Ordered identifiers\<close>

fun ordered_from :: "'a :: linorder option \<Rightarrow> 'a list \<Rightarrow> bool" where
  "ordered_from previous [] = True"
| "ordered_from previous (v # vs) =
     (if (case previous of None \<Rightarrow> False | Some p \<Rightarrow> p \<ge> v) then False else ordered_from (Some v) vs)"

definition ordered_unique :: "'a :: linorder list \<Rightarrow> bool" where
  "ordered_unique vs = ordered_from None vs"

text \<open>\<open>windows(2)\<close>: every pair of neighbours.\<close>

fun strictly_ordered :: "'a :: linorder list \<Rightarrow> bool" where
  "strictly_ordered (x # y # ys) \<longleftrightarrow> x < y \<and> strictly_ordered (y # ys)"
| "strictly_ordered xs \<longleftrightarrow> True"

fun stable_dedup_from :: "'a list \<Rightarrow> 'a set \<Rightarrow> 'a list" where
  "stable_dedup_from [] seen = []"
| "stable_dedup_from (v # vs) seen =
     (if v \<in> seen then stable_dedup_from vs seen else v # stable_dedup_from vs (insert v seen))"

definition stable_dedup :: "'a list \<Rightarrow> 'a list" where
  "stable_dedup vs = stable_dedup_from vs {}"

text \<open>\<open>sort\<close> followed by \<open>dedup\<close>.\<close>

definition sort_dedup :: "'a :: linorder list \<Rightarrow> 'a list" where
  "sort_dedup vs = remdups_adj (sort vs)"

lemma ordered_from_iff: "ordered_from p vs \<longleftrightarrow> sorted_wrt (<) ((case p of None \<Rightarrow> [] | Some v \<Rightarrow> [v]) @ vs)"
  by (induction p vs rule: ordered_from.induct) (auto split: option.splits)

lemma ordered_unique_iff [simp]: "ordered_unique vs \<longleftrightarrow> sorted_wrt (<) vs"
  by (simp add: ordered_unique_def ordered_from_iff)

lemma strictly_ordered_iff [simp]: "strictly_ordered vs \<longleftrightarrow> sorted_wrt (<) vs"
  by (induction vs rule: strictly_ordered.induct) (auto simp: order_less_trans)

lemma sorted_remdups_adj_distinct: "sorted vs \<Longrightarrow> distinct (remdups_adj vs)"
  by (induction vs rule: remdups_adj.induct) (auto simp: order.antisym)

lemma sort_dedup_sorted [simp]: "sorted_wrt (<) (sort_dedup vs)"
  by (simp add: sort_dedup_def strict_sorted_iff sorted_remdups_adj_distinct)

lemma set_sort_dedup [simp]: "set (sort_dedup vs) = set vs"
  by (simp add: sort_dedup_def)

lemma stable_dedup_from_facts: "set (stable_dedup_from vs seen) = set vs - seen" "distinct (stable_dedup_from vs seen)"
  by (induction vs seen rule: stable_dedup_from.induct) auto

lemma stable_dedup_id: "distinct vs \<Longrightarrow> stable_dedup vs = vs"
proof -
  have "distinct vs \<Longrightarrow> set vs \<inter> seen = {} \<Longrightarrow> stable_dedup_from vs seen = vs" for seen
    by (induction vs arbitrary: seen) auto
  then show "distinct vs \<Longrightarrow> ?thesis" by (simp add: stable_dedup_def)
qed

lemma sort_dedup_id: "sorted_wrt (<) vs \<Longrightarrow> sort_dedup vs = vs"
  by (simp add: strict_sorted_iff sort_dedup_def sorted_sort_id remdups_adj_distinct)

section \<open>Decoding\<close>

lemma as_bytes_byte_hex_length [simp]: "length (as_bytes (byte_hex b)) = 2"
  by (simp add: byte_hex_def)

lemma json_byte_prefix_free:
  assumes "json_byte a @ u = json_byte b @ v"
  shows "a = b \<and> u = v"
proof (cases "a = b")
  case False
  have "length (byte_hex a) = length (byte_hex b)" by (simp add: byte_hex_def)
  with assms False show ?thesis
    by (auto simp: json_byte_def append_eq_append_conv as_bytes_inject split: if_splits)
qed (use assms in simp)

lemma json_byte_head: "json_byte b = x # xs \<Longrightarrow> x \<noteq> 0x22"
  by (auto simp: json_byte_def split: if_splits)

lemma json_byte_Cons: "\<exists>x xs. json_byte b = x # xs"
  by (auto simp: json_byte_def)

lemma json_text_inject:
  "concat (map json_byte as) @ 0x22 # u = concat (map json_byte bs) @ 0x22 # v \<Longrightarrow> as = bs \<and> u = v"
proof (induction as arbitrary: bs)
  case Nil
  then show ?case using json_byte_Cons [of "hd bs"] json_byte_head by (cases bs) auto
next
  case (Cons a as)
  show ?case
  proof (cases bs)
    case Nil
    then show ?thesis using Cons.prems json_byte_Cons [of a] json_byte_head by auto
  next
    case (Cons b bs')
    with Cons.prems have "a = b \<and> concat (map json_byte as) @ 0x22 # u = concat (map json_byte bs') @ 0x22 # v"
      by (auto dest!: json_byte_prefix_free)
    with Cons.IH Cons show ?thesis by blast
  qed
qed

fun json_tail :: "string list \<Rightarrow> bytes" where
  "json_tail [] = [0x5D]"
| "json_tail (c # cs) = [0x2C, 0x22] @ concat (map json_byte (as_bytes c)) @ [0x22] @ json_tail cs"

lemma write_components_tail: "0 < i \<Longrightarrow> write_components i cs bs @ [0x5D] = bs @ json_tail cs"
  by (induction i cs bs rule: write_components.induct) (auto simp: write_json_string_def)

lemma json_tail_inject: "json_tail as = json_tail bs \<Longrightarrow> as = bs"
proof (induction as arbitrary: bs)
  case (Cons a as)
  then show ?case
    by (cases bs) (auto dest!: json_text_inject simp: as_bytes_inject)
next
  case Nil
  then show ?case by (cases bs) auto
qed

lemma canonical_string_array_eq:
  "canonical_string_array cs =
     (case cs of [] \<Rightarrow> [0x5B, 0x5D]
      | c # cs \<Rightarrow> [0x5B, 0x22] @ concat (map json_byte (as_bytes c)) @ [0x22] @ json_tail cs)"
  by (auto simp: canonical_string_array_def write_components_tail write_json_string_def split: list.splits)

lemma canonical_string_array_inject:
  "canonical_string_array as = canonical_string_array bs \<longleftrightarrow> as = bs"
  by (auto simp: canonical_string_array_eq as_bytes_inject dest!: json_text_inject json_tail_inject split: list.splits)

text \<open>Two inputs with one hash.\<close>

definition collision :: "hash \<Rightarrow> bytes \<Rightarrow> bytes \<Rightarrow> bool" where
  "collision h x y \<longleftrightarrow> x \<noteq> y \<and> h x = h y"

lemma stable_id_eq_iff:
  assumes "\<And>x. length (blake3 x) = 32"
  shows "stable_id blake3 prefix as = stable_id blake3 prefix bs \<longleftrightarrow>
    as = bs \<or> collision blake3 (canonical_string_array as) (canonical_string_array bs)"
proof -
  have "stable_id blake3 prefix as = stable_id blake3 prefix bs \<longleftrightarrow>
      blake3 (canonical_string_array as) = blake3 (canonical_string_array bs)"
    using assms by (simp add: stable_id_def concat_byte_hex_inject)
  then show ?thesis by (auto simp: collision_def canonical_string_array_inject)
qed

section \<open>Properties\<close>

text \<open>
  C19. Identifiers identify: the components of an identifier are encoded without ambiguity, whatever
  characters they hold and however many they are, so that two identifiers of one class are equal
  exactly when their components are, unless the hash function itself collides on the two encodings.
\<close>

theorem stable_id_identifies:
  assumes "\<And>x. length (blake3 x) = 32"
  shows "stable_id blake3 prefix as = stable_id blake3 prefix bs \<longleftrightarrow>
    as = bs \<or> collision blake3 (canonical_string_array as) (canonical_string_array bs)"
  by (rule stable_id_eq_iff [OF assms])

theorem stable_id_identifies_witness:
  "stable_id (\<lambda>x. replicate 31 0 @ [foldr (\<lambda>b n. 3 * n + b) x 0]) ''urn:'' [''a'', ''b''] \<noteq>
   stable_id (\<lambda>x. replicate 31 0 @ [foldr (\<lambda>b n. 3 * n + b) x 0]) ''urn:'' [''a'', ''c'']"
proof -
  let ?h = "\<lambda>x :: bytes. replicate 31 0 @ [foldr (\<lambda>b n. 3 * n + b) x 0] :: bytes"
  have "\<not> collision ?h (canonical_string_array [''a'', ''b'']) (canonical_string_array [''a'', ''c''])"
    by (simp add: collision_def canonical_string_array_eq as_bytes_def json_byte_def)
  then show ?thesis using stable_id_identifies [of ?h "''urn:''" "[''a'', ''b'']" "[''a'', ''c'']"] by simp
qed

end
