(* ===== verification/Constant_Graph.thy ===== *)
theory Constant_Graph
  imports Constant_Report Stable_Ids
begin

text \<open>
  The graph of evaluated constants (\<open>codenoesis-domain/src/s4_r16.rs\<close> and \<open>build_graph\<close> and
  \<open>source_overlays\<close> of \<open>codenoesis-lang-rust/src/constant_evaluation.rs\<close>): every evaluation becomes an
  entity, the relationship from its declaration, a claim on each of the two, and a derivation that
  names its inputs; the overlays divide the graph among the source files.
\<close>

section \<open>Records\<close>

record workspace_claim =
  wc_id :: string
  wc_subject_kind :: claim_subject_kind
  wc_subject_id :: string
  wc_state :: claim_state
  wc_evidence_ids :: "string list"

definition new_claim ::
  "hash \<Rightarrow> claim_subject_kind \<Rightarrow> string \<Rightarrow> claim_state \<Rightarrow> string list \<Rightarrow> workspace_claim" where
  "new_claim blake3 subject_kind subject_id state evidence_ids =
     \<lparr>wc_id = workspace_claim_id blake3 subject_kind subject_id state, wc_subject_kind = subject_kind,
      wc_subject_id = subject_id, wc_state = state, wc_evidence_ids = stable_dedup evidence_ids\<rparr>"

record workspace_evidence =
  we_id :: string
  we_path :: string
  we_blob_oid :: string
  we_start_byte :: nat
  we_end_byte :: nat

record evaluated_value =
  vl_id :: string
  vl_declared_value_id :: string
  vl_value_kind :: constant_value_kind
  vl_canonical_value :: string
  vl_rust_type :: string
  vl_type_authority :: type_authority
  vl_evidence_ids :: "string list"

record evaluation_relationship =
  rl_id :: string
  rl_source :: string
  rl_target :: string
  rl_evidence_ids :: "string list"

record derivation =
  dv_entity_id :: string
  dv_relationship_id :: string
  dv_input_claim_ids :: "string list"
  dv_input_evidence_ids :: "string list"
  dv_dependency_entity_ids :: "string list"

record coverage_gap =
  cg_id :: string
  cg_capability :: string
  cg_state :: string
  cg_subject_id :: string
  cg_evidence_ids :: "string list"

record source_overlay =
  so_source_file_id :: string
  so_entities :: "evaluated_value list"
  so_relationships :: "evaluation_relationship list"
  so_claims :: "workspace_claim list"
  so_coverage :: "coverage_gap list"
  so_removed_coverage_ids :: "string list"
  so_removed_diagnostic_ids :: "string list"

record evaluation_index =
  ix_evaluated_entity_ids :: "string list"
  ix_evaluation_relationship_ids :: "string list"
  ix_derivations :: "derivation list"

record evaluation_graph =
  gr_entities :: "evaluated_value list"
  gr_relationships :: "evaluation_relationship list"
  gr_claims :: "workspace_claim list"
  gr_coverage :: "coverage_gap list"
  gr_removed_coverage_ids :: "string list"
  gr_removed_diagnostic_ids :: "string list"
  gr_index :: evaluation_index

section \<open>Constructors\<close>

definition evaluated_value_id :: "hash \<Rightarrow> string \<Rightarrow> string \<Rightarrow> string" where
  "evaluated_value_id blake3 repository_identity declared_value_id =
     stable_id blake3 ''urn:codenoesis:entity:blake3:''
       [''codenoesis.entity-id/rust-safe-constant-evaluation/v1'', ''evaluated_value'', repository_identity,
        declared_value_id]"

definition evaluation_relationship_id :: "hash \<Rightarrow> string \<Rightarrow> string \<Rightarrow> string" where
  "evaluation_relationship_id blake3 declared_value_id value_id =
     stable_id blake3 ''urn:codenoesis:relationship:blake3:''
       [''codenoesis.relationship-id/rust-safe-constant-evaluation/v1'', ''EVALUATES_TO'', declared_value_id,
        value_id]"

definition new_evaluated_value ::
  "hash \<Rightarrow> string \<Rightarrow> string \<Rightarrow> constant_value_kind \<Rightarrow> string \<Rightarrow> string \<Rightarrow> type_authority \<Rightarrow> string list \<Rightarrow>
   evaluated_value" where
  "new_evaluated_value blake3 repository_identity declared_value_id kind canonical_value rust_type authority
     evidence_ids =
     \<lparr>vl_id = evaluated_value_id blake3 repository_identity declared_value_id,
      vl_declared_value_id = declared_value_id, vl_value_kind = kind, vl_canonical_value = canonical_value,
      vl_rust_type = rust_type, vl_type_authority = authority, vl_evidence_ids = sort_dedup evidence_ids\<rparr>"

definition new_relationship :: "hash \<Rightarrow> string \<Rightarrow> string \<Rightarrow> string list \<Rightarrow> evaluation_relationship" where
  "new_relationship blake3 source target evidence_ids =
     \<lparr>rl_id = evaluation_relationship_id blake3 source target, rl_source = source, rl_target = target,
      rl_evidence_ids = sort_dedup evidence_ids\<rparr>"

definition new_derivation ::
  "string \<Rightarrow> string \<Rightarrow> string list \<Rightarrow> string list \<Rightarrow> string list \<Rightarrow> derivation" where
  "new_derivation entity_id relationship_id input_claim_ids input_evidence_ids dependency_entity_ids =
     \<lparr>dv_entity_id = entity_id, dv_relationship_id = relationship_id,
      dv_input_claim_ids = sort_dedup input_claim_ids, dv_input_evidence_ids = sort_dedup input_evidence_ids,
      dv_dependency_entity_ids = sort_dedup dependency_entity_ids\<rparr>"

definition input_count :: "derivation \<Rightarrow> nat" where
  "input_count d =
     saturating_add (saturating_add (length (dv_input_claim_ids d)) (length (dv_input_evidence_ids d)))
       (length (dv_dependency_entity_ids d))"

definition not_evaluated :: "hash \<Rightarrow> string \<Rightarrow> string \<Rightarrow> string list \<Rightarrow> coverage_gap" where
  "not_evaluated blake3 capab subject_id evidence_ids =
     (let ids = sort_dedup evidence_ids; state = ''not_evaluated'' in
      \<lparr>cg_id = stable_id blake3 ''urn:codenoesis:coverage-gap:blake3:''
         [''codenoesis.coverage-gap-id/rust-safe-constant-evaluation/v1'', capab, state, subject_id,
          join_with CHR 0x1F ids],
       cg_capability = capab, cg_state = state, cg_subject_id = subject_id, cg_evidence_ids = ids\<rparr>)"

definition constant_evaluation_claim :: "hash \<Rightarrow> claim_subject_kind \<Rightarrow> string \<Rightarrow> string list \<Rightarrow> workspace_claim" where
  "constant_evaluation_claim blake3 subject_kind subject_id evidence_ids =
     new_claim blake3 subject_kind subject_id DerivedFact evidence_ids"

definition index_from_graph ::
  "evaluated_value list \<Rightarrow> evaluation_relationship list \<Rightarrow> derivation list \<Rightarrow> evaluation_index" where
  "index_from_graph entities relationships derivations =
     \<lparr>ix_evaluated_entity_ids = map vl_id entities, ix_evaluation_relationship_ids = map rl_id relationships,
      ix_derivations = sort_key dv_entity_id derivations\<rparr>"

section \<open>Building the graph\<close>

text \<open>What the graph takes from the knowledge it extends: the coverage gaps and the diagnostics of the
  semantic graph, and the evidence by identifier.\<close>

record semantic_gap =
  sg_id :: string
  sg_capability :: string
  sg_evidence_ids :: "string list"

record semantic_diagnostic =
  sd_id :: string
  sd_code :: string
  sd_evidence_ids :: "string list"

record extraction_catalog =
  ct_evidence :: "(string, workspace_evidence) btree"
  ct_semantic_coverage :: "semantic_gap list"
  ct_semantic_diagnostics :: "semantic_diagnostic list"

fun build_entities ::
  "hash \<Rightarrow> string \<Rightarrow> candidates \<Rightarrow> evaluations \<Rightarrow> evaluated_value list \<times> (string, string) btree \<Rightarrow>
   (evaluated_value list \<times> (string, string) btree, constant_evaluation_error) result" where
  "build_entities blake3 repository_identity cands [] acc = Ok acc"
| "build_entities blake3 repository_identity cands ((identifier, ev) # evaluated) (entities, by_declared) =
     and_then (ok_or CE_DependencyInvalid (bt_get cands identifier)) (\<lambda>c.
       let entity = new_evaluated_value blake3 repository_identity (cd_declared_value_id c)
             (primitive_kind (cd_primitive c)) (canonical (el_value ev)) (cd_rust_type c) (cd_type_authority c)
             (cd_evidence_ids c)
       in build_entities blake3 repository_identity cands evaluated
            (entities @ [entity], bt_put identifier (vl_id entity) by_declared))"

fun dependency_inputs ::
  "hash \<Rightarrow> (string, string) btree \<Rightarrow> string list \<Rightarrow> string list \<times> string list \<Rightarrow>
   (string list \<times> string list, constant_evaluation_error) result" where
  "dependency_inputs blake3 by_declared [] acc = Ok acc"
| "dependency_inputs blake3 by_declared (dependency # dependencies) (claim_ids, entity_ids) =
     and_then (ok_or CE_DependencyInvalid (bt_get by_declared dependency)) (\<lambda>entity_id.
       dependency_inputs blake3 by_declared dependencies
         (claim_ids @ [workspace_claim_id blake3 Entity_subject entity_id DerivedFact],
          entity_ids @ [entity_id]))"

fun describe_entities ::
  "hash \<Rightarrow> candidates \<Rightarrow> evaluations \<Rightarrow> (string, string) btree \<Rightarrow> evaluated_value list \<Rightarrow>
   evaluation_relationship list \<times> workspace_claim list \<times> derivation list \<Rightarrow>
   (evaluation_relationship list \<times> workspace_claim list \<times> derivation list, constant_evaluation_error) result" where
  "describe_entities blake3 cands evaluated by_declared [] acc = Ok acc"
| "describe_entities blake3 cands evaluated by_declared (entity # entities) (relationships, claims, derivations) =
     and_then (ok_or CE_DependencyInvalid (bt_get cands (vl_declared_value_id entity))) (\<lambda>c.
     and_then (ok_or CE_DependencyInvalid (bt_get evaluated (vl_declared_value_id entity))) (\<lambda>ev.
       let relationship = new_relationship blake3 (vl_declared_value_id entity) (vl_id entity) (vl_evidence_ids entity) in
       and_then (dependency_inputs blake3 by_declared (el_dependency_ids ev) ([cd_declared_value_claim_id c], []))
         (\<lambda>(input_claim_ids, dependency_entity_ids).
         describe_entities blake3 cands evaluated by_declared entities
           (relationships @ [relationship],
            claims @ [constant_evaluation_claim blake3 Entity_subject (vl_id entity) (vl_evidence_ids entity),
              constant_evaluation_claim blake3 Relationship_subject (rl_id relationship) (rl_evidence_ids relationship)],
            derivations @ [new_derivation (vl_id entity) (rl_id relationship) input_claim_ids
              (vl_evidence_ids entity) dependency_entity_ids]))))"

definition coverage_of :: "hash \<Rightarrow> unsupported_subject list \<Rightarrow> coverage_gap list" where
  "coverage_of blake3 unsupported =
     dedup_by (\<lambda>l r. cg_id l = cg_id r)
       (sort_key cg_id (map (\<lambda>u. not_evaluated blake3 (us_capability u) (us_subject_id u) (us_evidence_ids u)) unsupported))"

definition successful :: "candidates \<Rightarrow> evaluations \<Rightarrow> candidate list" where
  "successful cands evaluated =
     List.map_filter (\<lambda>(identifier, ev).
       case bt_get cands identifier of
         None \<Rightarrow> None
       | Some c \<Rightarrow>
           if cd_explicit_value c \<and> cd_primitive c \<noteq> PT_Bool \<and> el_dependency_ids ev = [] then Some c else None)
       evaluated"

definition completed_enum_repr_evidence :: "candidates \<Rightarrow> string btset \<Rightarrow> enum_evidence \<Rightarrow> string list" where
  "completed_enum_repr_evidence cands enums evidence =
     List.map_filter (\<lambda>e.
       case find (\<lambda>c. cd_enum_id c = Some e) (map snd cands) of
         None \<Rightarrow> None
       | Some c \<Rightarrow> cd_repr_evidence_id c)
       (filter (\<lambda>e. \<not> bs_contains enums e) (bt_keys evidence))"

definition value_not_evaluated :: string where
  "value_not_evaluated = ''rust.value_not_evaluated''"

definition attribute_not_interpreted :: string where
  "attribute_not_interpreted = ''rust.attribute_semantics_not_interpreted''"

definition removed_coverage ::
  "candidates \<Rightarrow> evaluations \<Rightarrow> unsupported_subject list \<Rightarrow> string list \<Rightarrow> semantic_gap list \<Rightarrow> string list" where
  "removed_coverage cands evaluated unsupported repr_evidence gaps =
     sort_dedup
       (map sg_id (filter (\<lambda>g. sg_capability g = value_not_evaluated \<and>
          list_ex (\<lambda>c. sg_evidence_ids g = cd_declaration_evidence_ids c) (successful cands evaluated)) gaps) @
        map sg_id (filter (\<lambda>g. sg_capability g = value_not_evaluated \<and>
          list_ex (\<lambda>u. us_legacy_evidence_ids u \<noteq> [] \<and> sg_evidence_ids g = us_legacy_evidence_ids u) unsupported) gaps) @
        map sg_id (filter (\<lambda>g. sg_capability g = attribute_not_interpreted \<and>
          list_ex (\<lambda>i. i \<in> set repr_evidence) (sg_evidence_ids g)) gaps))"

definition removed_diagnostics :: "string list \<Rightarrow> semantic_diagnostic list \<Rightarrow> string list" where
  "removed_diagnostics repr_evidence diagnostics =
     sort (map sd_id (filter (\<lambda>d. sd_code d = attribute_not_interpreted \<and>
       list_ex (\<lambda>i. i \<in> set repr_evidence) (sd_evidence_ids d)) diagnostics))"

definition build_graph ::
  "hash \<Rightarrow> string \<Rightarrow> candidates \<Rightarrow> evaluations \<Rightarrow> unsupported_subject list \<Rightarrow> extraction_catalog \<Rightarrow>
   string btset \<Rightarrow> enum_evidence \<Rightarrow> (evaluation_graph, constant_evaluation_error) result" where
  "build_graph blake3 repository_identity cands evaluated unsupported catalog enums evidence =
     and_then (build_entities blake3 repository_identity cands evaluated ([], [])) (\<lambda>(entities, by_declared).
     let entities = sort_key vl_id entities in
     and_then (describe_entities blake3 cands evaluated by_declared entities ([], [], []))
       (\<lambda>(relationships, claims, derivations).
     let relationships = sort_key rl_id relationships;
         repr_evidence = completed_enum_repr_evidence cands enums evidence in
     Ok \<lparr>gr_entities = entities, gr_relationships = relationships, gr_claims = sort_key wc_id claims,
         gr_coverage = coverage_of blake3 unsupported,
         gr_removed_coverage_ids =
           removed_coverage cands evaluated unsupported repr_evidence (ct_semantic_coverage catalog),
         gr_removed_diagnostic_ids = removed_diagnostics repr_evidence (ct_semantic_diagnostics catalog),
         gr_index = index_from_graph entities relationships derivations\<rparr>))"

section \<open>Source overlays\<close>

record source_context =
  cx_source_file_id :: string
  cx_path :: string

definition evidence_in_source :: "extraction_catalog \<Rightarrow> string \<Rightarrow> string list \<Rightarrow> bool" where
  "evidence_in_source catalog path identifiers =
     list_ex (\<lambda>i. case bt_get (ct_evidence catalog) i of None \<Rightarrow> False | Some e \<Rightarrow> we_path e = path) identifiers"

definition source_overlay_of :: "extraction_catalog \<Rightarrow> evaluation_graph \<Rightarrow> source_context \<Rightarrow> source_overlay" where
  "source_overlay_of catalog graph context =
     (let within = evidence_in_source catalog (cx_path context) in
      \<lparr>so_source_file_id = cx_source_file_id context,
       so_entities = filter (\<lambda>v. within (vl_evidence_ids v)) (gr_entities graph),
       so_relationships = filter (\<lambda>v. within (rl_evidence_ids v)) (gr_relationships graph),
       so_claims = filter (\<lambda>v. within (wc_evidence_ids v)) (gr_claims graph),
       so_coverage = filter (\<lambda>v. within (cg_evidence_ids v)) (gr_coverage graph),
       so_removed_coverage_ids =
         filter (\<lambda>i. list_ex (\<lambda>g. sg_id g = i \<and> within (sg_evidence_ids g)) (ct_semantic_coverage catalog))
           (gr_removed_coverage_ids graph),
       so_removed_diagnostic_ids =
         filter (\<lambda>i. list_ex (\<lambda>d. sd_id d = i \<and> within (sd_evidence_ids d)) (ct_semantic_diagnostics catalog))
           (gr_removed_diagnostic_ids graph)\<rparr>)"

definition source_overlays ::
  "source_context list \<Rightarrow> evaluation_graph \<Rightarrow> extraction_catalog \<Rightarrow> source_overlay list" where
  "source_overlays contexts graph catalog =
     sort_key so_source_file_id (map (source_overlay_of catalog graph) contexts)"

section \<open>What is built\<close>

definition entity_of :: "hash \<Rightarrow> string \<Rightarrow> candidates \<Rightarrow> string \<times> evaluation \<Rightarrow> evaluated_value" where
  "entity_of blake3 repo cands kv =
     (let c = the (bt_get cands (fst kv)) in
      new_evaluated_value blake3 repo (cd_declared_value_id c) (primitive_kind (cd_primitive c))
        (canonical (el_value (snd kv))) (cd_rust_type c) (cd_type_authority c) (cd_evidence_ids c))"

lemma build_entities_eq:
  "list_all (\<lambda>(k, _). bt_get cands k \<noteq> None) evaluated \<Longrightarrow>
   build_entities blake3 repo cands evaluated (es, by) =
     Ok (es @ map (entity_of blake3 repo cands) evaluated,
         fold (\<lambda>kv. bt_put (fst kv) (vl_id (entity_of blake3 repo cands kv))) evaluated by)"
  by (induction evaluated arbitrary: es "by") (auto simp: entity_of_def Let_def)

lemma dependency_inputs_eq:
  "list_all (\<lambda>d. bt_get by d \<noteq> None) ds \<Longrightarrow>
   dependency_inputs blake3 by ds (cs, es) =
     Ok (cs @ map (\<lambda>d. workspace_claim_id blake3 Entity_subject (the (bt_get by d)) DerivedFact) ds,
         es @ map (\<lambda>d. the (bt_get by d)) ds)"
  by (induction ds arbitrary: cs es) auto

definition relationship_of :: "hash \<Rightarrow> evaluated_value \<Rightarrow> evaluation_relationship" where
  "relationship_of blake3 e = new_relationship blake3 (vl_declared_value_id e) (vl_id e) (vl_evidence_ids e)"

definition claims_of :: "hash \<Rightarrow> evaluated_value \<Rightarrow> workspace_claim list" where
  "claims_of blake3 e =
     [constant_evaluation_claim blake3 Entity_subject (vl_id e) (vl_evidence_ids e),
      constant_evaluation_claim blake3 Relationship_subject (rl_id (relationship_of blake3 e))
        (rl_evidence_ids (relationship_of blake3 e))]"

definition derivation_of ::
  "hash \<Rightarrow> candidates \<Rightarrow> evaluations \<Rightarrow> (string, string) btree \<Rightarrow> evaluated_value \<Rightarrow> derivation" where
  "derivation_of blake3 cands evaluated by e =
     (let c = the (bt_get cands (vl_declared_value_id e)); w = the (bt_get evaluated (vl_declared_value_id e));
          ds = map (\<lambda>d. the (bt_get by d)) (el_dependency_ids w) in
      new_derivation (vl_id e) (rl_id (relationship_of blake3 e))
        (cd_declared_value_claim_id c # map (\<lambda>d. workspace_claim_id blake3 Entity_subject d DerivedFact) ds)
        (vl_evidence_ids e) ds)"

lemma describe_entities_eq:
  "list_all (\<lambda>e. bt_get cands (vl_declared_value_id e) \<noteq> None \<and>
     (case bt_get evaluated (vl_declared_value_id e) of None \<Rightarrow> False
      | Some w \<Rightarrow> list_all (\<lambda>d. bt_get by d \<noteq> None) (el_dependency_ids w))) es \<Longrightarrow>
   describe_entities blake3 cands evaluated by es (rs, cs, ds) =
     Ok (rs @ map (relationship_of blake3) es, cs @ concat (map (claims_of blake3) es),
         ds @ map (derivation_of blake3 cands evaluated by) es)"
proof (induction es arbitrary: rs cs ds)
  case (Cons e es)
  then obtain c w where cw: "bt_get cands (vl_declared_value_id e) = Some c"
    "bt_get evaluated (vl_declared_value_id e) = Some w" "list_all (\<lambda>d. bt_get by d \<noteq> None) (el_dependency_ids w)"
    by (auto split: option.splits)
  show ?case
    using Cons.prems Cons.IH
    by (simp add: cw dependency_inputs_eq [OF cw(3)] relationship_of_def claims_of_def derivation_of_def Let_def comp_def)
qed simp

lemma dedup_by_sorted:
  fixes f :: "'a \<Rightarrow> 'b :: linorder"
  shows "sorted (map f xs) \<Longrightarrow> sorted_wrt (<) (map f (dedup_by (\<lambda>x y. f x = f y) xs))"
proof (induction "\<lambda>x y. f x = f y" xs rule: dedup_by.induct)
  case (1 x y ys)
  have le: "f x \<le> f z" if "z \<in> set (dedup_by (\<lambda>x y. f x = f y) (y # ys))" for z
    using that "1.prems" dedup_by_subset [of "\<lambda>x y. f x = f y" "y # ys"] by auto
  show ?case
  proof (cases "f y = f x")
    case False
    have "f y \<le> f z" if "z \<in> set (dedup_by (\<lambda>x y. f x = f y) (y # ys))" for z
      using that "1.prems" dedup_by_subset [of "\<lambda>x y. f x = f y" "y # ys"] by auto
    then show ?thesis using "1.prems" 1(2) [OF False] False le by (fastforce simp: le_less)
  qed (use 1 in simp)
qed auto

lemma coverage_sorted: "sorted_wrt (<) (map cg_id (coverage_of blake3 us))"
  unfolding coverage_of_def by (rule dedup_by_sorted) simp

end
