(* ===== verification/Constant_Validation.thy ===== *)
theory Constant_Validation
  imports Constant_Graph
begin

text \<open>
  The validation of a graph of evaluated constants (\<open>ConstantEvaluationKnowledge::validate\<close> of
  \<open>codenoesis-domain/src/s4_r16.rs\<close>), after the knowledge it extends has been validated, and the search
  for dependency cycles.
\<close>

section \<open>Values\<close>

text \<open>\<open>str::parse\<close> for the unsigned and signed integers: an optional sign, then digits only.\<close>

definition parse_digits :: "string \<Rightarrow> nat option" where
  "parse_digits s =
     (if s = [] \<or> list_ex (\<lambda>c. \<not> is_ascii_digit c) s then None
      else Some (foldl (\<lambda>acc c. acc * 10 + digit_value c) 0 s))"

definition parse_unsigned :: "nat \<Rightarrow> string \<Rightarrow> nat option" where
  "parse_unsigned maximum s =
     (case parse_digits (case strip_prefix ''+'' s of Some t \<Rightarrow> t | None \<Rightarrow> s) of
        None \<Rightarrow> None
      | Some v \<Rightarrow> if v \<le> maximum then Some v else None)"

definition parse_i128 :: "string \<Rightarrow> int option" where
  "parse_i128 s =
     (case (case strip_prefix ''-'' s of
              Some t \<Rightarrow> map_option (\<lambda>v. - int v) (parse_digits t)
            | None \<Rightarrow> map_option int (parse_digits (case strip_prefix ''+'' s of Some t \<Rightarrow> t | None \<Rightarrow> s))) of
        None \<Rightarrow> None
      | Some v \<Rightarrow> if i128_min \<le> v \<and> v \<le> i128_max then Some v else None)"

definition canonical_integer :: "string \<Rightarrow> bool" where
  "canonical_integer v =
     (let digits = (case strip_prefix ''-'' v of Some t \<Rightarrow> t | None \<Rightarrow> v) in
      digits \<noteq> [] \<and> list_all is_ascii_digit digits \<and> (digits = ''0'' \<or> \<not> starts_with ''0'' digits) \<and> v \<noteq> ''-0'')"

definition integer_in_range :: "string \<Rightarrow> string \<Rightarrow> bool" where
  "integer_in_range v rust_type =
     (case rust_type of
        [] \<Rightarrow> False
      | c # width \<Rightarrow>
          if c = CHR ''i'' then
            (case parse_i128 v of
               None \<Rightarrow> False
             | Some parsed \<Rightarrow>
                 (case parse_unsigned u32_max width of
                    None \<Rightarrow> False
                  | Some bits \<Rightarrow>
                      if bits = 128 then True
                      else let maximum = 2 ^ (bits - 1) - 1 in - maximum - 1 \<le> parsed \<and> parsed \<le> maximum))
          else if c = CHR ''u'' then
            (case parse_unsigned u128_max v of
               None \<Rightarrow> False
             | Some parsed \<Rightarrow>
                 (case parse_unsigned u32_max width of
                    None \<Rightarrow> False
                  | Some bits \<Rightarrow> bits = 128 \<or> parsed < 2 ^ bits))
          else False)"

definition valid_value :: "evaluated_value \<Rightarrow> bool" where
  "valid_value v \<longleftrightarrow>
     vl_rust_type v \<in> {''bool'', ''i8'', ''i16'', ''i32'', ''i64'', ''i128'', ''u8'', ''u16'', ''u32'', ''u64'', ''u128''} \<and>
     (case vl_type_authority v of
        ExplicitPrimitiveAnnotation \<Rightarrow> True
      | FixedReprAttribute \<Rightarrow> vl_value_kind v = Integer_kind) \<and>
     (case vl_value_kind v of
        Boolean_kind \<Rightarrow> vl_rust_type v = ''bool'' \<and> vl_canonical_value v \<in> {''true'', ''false''}
      | Integer_kind \<Rightarrow> vl_rust_type v \<noteq> ''bool'' \<and> canonical_integer (vl_canonical_value v) \<and>
          integer_in_range (vl_canonical_value v) (vl_rust_type v))"

section \<open>Cycles\<close>

type_synonym adjacency = "(string, string list) btree"

definition neighbours :: "adjacency \<Rightarrow> string \<Rightarrow> string list" where
  "neighbours adjacency k = (case bt_get adjacency k of None \<Rightarrow> [] | Some ds \<Rightarrow> ds)"

text \<open>The recursive visit, with the active and the complete nodes as its state. It ends since it stops
  at the maximum depth.\<close>

function visit ::
    "adjacency \<Rightarrow> string \<Rightarrow> nat \<Rightarrow> string set \<times> string set \<Rightarrow> (string set \<times> string set, constant_evaluation_error) result"
  and visit_each ::
    "adjacency \<Rightarrow> string list \<Rightarrow> nat \<Rightarrow> string set \<times> string set \<Rightarrow>
     (string set \<times> string set, constant_evaluation_error) result"
where
  "visit adjacency identifier depth (active, complete) =
     (if depth > constant_maximum DependencyLevels
      then Err (CE_LimitExceeded DependencyLevels (constant_maximum DependencyLevels) depth)
      else if identifier \<in> complete then Ok (active, complete)
      else if identifier \<in> active then Err CE_DependencyCycle
      else and_then (visit_each adjacency (neighbours adjacency identifier) depth (insert identifier active, complete))
        (\<lambda>(active, complete). Ok (active - {identifier}, insert identifier complete)))"
| "visit_each adjacency [] depth st = Ok st"
| "visit_each adjacency (dependency # dependencies) depth st =
     and_then (visit adjacency dependency (saturating_add depth 1) st)
       (\<lambda>st. visit_each adjacency dependencies depth st)"
  by pat_completeness auto
termination
  by (relation "measures
      [\<lambda>x. case x of Inl (adj, k, d, st) \<Rightarrow> 2 * (65 - d)
         | Inr (adj, ds, d, st) \<Rightarrow> if d \<le> 64 then 2 * (65 - d) - 1 else 1,
       \<lambda>x. case x of Inl _ \<Rightarrow> 0 | Inr (adj, ds, d, st) \<Rightarrow> length ds]")
    (auto simp: saturating_add_def u64_max_def)

declare visit.simps [simp del]

fun visit_roots ::
  "adjacency \<Rightarrow> string list \<Rightarrow> string set \<Rightarrow> (string set, constant_evaluation_error) result" where
  "visit_roots adjacency [] complete = Ok complete"
| "visit_roots adjacency (identifier # identifiers) complete =
     and_then (visit adjacency identifier 0 ({}, complete)) (\<lambda>(_, complete).
       visit_roots adjacency identifiers complete)"

definition validate_acyclic :: "adjacency \<Rightarrow> (unit, constant_evaluation_error) result" where
  "validate_acyclic adjacency =
     and_then (visit_roots adjacency (bt_keys adjacency) {}) (\<lambda>_. Ok ())"

section \<open>The inherited knowledge\<close>

datatype semantic_entity_kind = Field | EnumVariant | Constant | Static | AssociatedType | Method

record semantic_entity =
  se_id :: string
  se_kind :: semantic_entity_kind

datatype callable_entity_kind = Signature | Parameter | DeclaredValue | LocalBinding | CallSite | Control

record callable_entity =
  ce_id :: string
  ce_kind :: callable_entity_kind
  ce_subject_id :: string

text \<open>The parts of the local-flow knowledge the validation reads. The claims and the evidence are those
  of the semantic, callable, expression and local-flow graphs, one after the other.\<close>

record inherited =
  ih_repository_identity :: string
  ih_callable_entities :: "callable_entity list"
  ih_semantic_entities :: "semantic_entity list"
  ih_claims :: "workspace_claim list"
  ih_evidence :: "workspace_evidence list"

definition declared_values :: "inherited \<Rightarrow> (string, callable_entity) btree" where
  "declared_values ih =
     bt_collect (map (\<lambda>e. (ce_id e, e)) (filter (\<lambda>e. ce_kind e = DeclaredValue) (ih_callable_entities ih)))"

definition semantic_entities :: "inherited \<Rightarrow> (string, semantic_entity) btree" where
  "semantic_entities ih = bt_collect (map (\<lambda>e. (se_id e, e)) (ih_semantic_entities ih))"

definition inherited_claims :: "inherited \<Rightarrow> (string, workspace_claim) btree" where
  "inherited_claims ih = bt_collect (map (\<lambda>c. (wc_id c, c)) (ih_claims ih))"

definition inherited_claim_by_subject :: "inherited \<Rightarrow> (string, workspace_claim) btree" where
  "inherited_claim_by_subject ih = bt_collect (map (\<lambda>(_, c). (wc_subject_id c, c)) (inherited_claims ih))"

definition inherited_evidence :: "inherited \<Rightarrow> string set" where
  "inherited_evidence ih = set (map we_id (ih_evidence ih))"

definition valid_type_authority :: "evaluated_value \<Rightarrow> semantic_entity \<Rightarrow> bool" where
  "valid_type_authority v semantic =
     (case vl_type_authority v of
        ExplicitPrimitiveAnnotation \<Rightarrow> se_kind semantic \<in> {Constant, Static}
      | FixedReprAttribute \<Rightarrow> se_kind semantic = EnumVariant)"

section \<open>Validation\<close>

definition require_ordered :: "string list \<Rightarrow> (unit, constant_evaluation_error) result" where
  "require_ordered ids = fail_if (\<not> ordered_unique ids) CE_IdentityConflict"

text \<open>\<open>enforce_constant_limit\<close>, as an error of the extraction.\<close>

definition enforce_constant_limit :: "constant_limit \<Rightarrow> nat \<Rightarrow> (unit, constant_evaluation_error) result" where
  "enforce_constant_limit limit observed =
     fail_if (observed > constant_maximum limit) (CE_LimitExceeded limit (constant_maximum limit) observed)"

definition entity_valid :: "hash \<Rightarrow> inherited \<Rightarrow> evaluated_value \<Rightarrow> bool" where
  "entity_valid blake3 ih v =
     (case bt_get (declared_values ih) (vl_declared_value_id v) of
        None \<Rightarrow> False
      | Some declared \<Rightarrow>
          (case bt_get (semantic_entities ih) (ce_subject_id declared) of
             None \<Rightarrow> False
           | Some semantic \<Rightarrow>
               valid_type_authority v semantic \<and>
               vl_id v = evaluated_value_id blake3 (ih_repository_identity ih) (vl_declared_value_id v) \<and>
               vl_evidence_ids v \<noteq> [] \<and> strictly_ordered (vl_evidence_ids v) \<and>
               list_all (\<lambda>i. i \<in> inherited_evidence ih) (vl_evidence_ids v) \<and> valid_value v))"

fun validate_entities ::
  "hash \<Rightarrow> inherited \<Rightarrow> string set \<Rightarrow> evaluated_value list \<Rightarrow> (unit, constant_evaluation_error) result" where
  "validate_entities blake3 ih declared_seen [] = Ok ()"
| "validate_entities blake3 ih declared_seen (v # vs) =
     (if vl_declared_value_id v \<in> declared_seen \<or> \<not> entity_valid blake3 ih v then Err CE_ValueInvalid
      else validate_entities blake3 ih (insert (vl_declared_value_id v) declared_seen) vs)"

definition entity_by_id :: "evaluation_graph \<Rightarrow> (string, evaluated_value) btree" where
  "entity_by_id graph = bt_collect (map (\<lambda>e. (vl_id e, e)) (gr_entities graph))"

definition relationship_by_id :: "evaluation_graph \<Rightarrow> (string, evaluation_relationship) btree" where
  "relationship_by_id graph = bt_collect (map (\<lambda>r. (rl_id r, r)) (gr_relationships graph))"

definition relationship_valid :: "hash \<Rightarrow> inherited \<Rightarrow> evaluation_graph \<Rightarrow> evaluation_relationship \<Rightarrow> bool" where
  "relationship_valid blake3 ih graph r \<longleftrightarrow>
     rl_id r = evaluation_relationship_id blake3 (rl_source r) (rl_target r) \<and>
     bt_get (declared_values ih) (rl_source r) \<noteq> None \<and>
     rl_target r \<in> set (map vl_id (gr_entities graph)) \<and>
     rl_evidence_ids r \<noteq> [] \<and> strictly_ordered (rl_evidence_ids r) \<and>
     list_all (\<lambda>i. i \<in> inherited_evidence ih) (rl_evidence_ids r) \<and>
     (case bt_get (entity_by_id graph) (rl_target r) of
        None \<Rightarrow> False
      | Some e \<Rightarrow> vl_declared_value_id e = rl_source r \<and> vl_evidence_ids e = rl_evidence_ids r)"

fun validate_relationships ::
  "hash \<Rightarrow> inherited \<Rightarrow> evaluation_graph \<Rightarrow> string set \<Rightarrow> evaluation_relationship list \<Rightarrow>
   (unit, constant_evaluation_error) result" where
  "validate_relationships blake3 ih graph targets [] = Ok ()"
| "validate_relationships blake3 ih graph targets (r # rs) =
     (if rl_target r \<in> targets \<or> \<not> relationship_valid blake3 ih graph r then Err CE_ValueInvalid
      else validate_relationships blake3 ih graph (insert (rl_target r) targets) rs)"

definition claim_subjects :: "evaluation_graph \<Rightarrow> (claim_subject_kind \<times> string) list" where
  "claim_subjects graph =
     remdups (map (Pair Entity_subject) (map vl_id (gr_entities graph)) @
              map (Pair Relationship_subject) (map rl_id (gr_relationships graph)))"

definition claim_valid :: "hash \<Rightarrow> evaluation_graph \<Rightarrow> workspace_claim \<Rightarrow> bool" where
  "claim_valid blake3 graph c \<longleftrightarrow>
     wc_state c = DerivedFact \<and>
     wc_id c = workspace_claim_id blake3 (wc_subject_kind c) (wc_subject_id c) (wc_state c) \<and>
     (case wc_subject_kind c of
        Entity_subject \<Rightarrow> map_option vl_evidence_ids (bt_get (entity_by_id graph) (wc_subject_id c))
      | Relationship_subject \<Rightarrow> map_option rl_evidence_ids (bt_get (relationship_by_id graph) (wc_subject_id c)))
       = Some (wc_evidence_ids c)"

record derivation_state =
  ds_previous :: "string option"
  ds_dependency_references :: nat
  ds_derivation_inputs :: nat
  ds_adjacency :: adjacency
  ds_represented :: "string set"

definition derivation_matches ::
  "hash \<Rightarrow> inherited \<Rightarrow> evaluation_graph \<Rightarrow> string set \<Rightarrow> evaluated_value \<Rightarrow> evaluation_relationship \<Rightarrow>
   workspace_claim \<Rightarrow> derivation \<Rightarrow> bool" where
  "derivation_matches blake3 ih graph represented entity relationship declared_claim d \<longleftrightarrow>
     rl_target relationship = dv_entity_id d \<and>
     rl_source relationship = vl_declared_value_id entity \<and>
     rl_id relationship \<notin> represented \<and>
     dv_input_claim_ids d \<noteq> [] \<and>
     dv_input_claim_ids d =
       sort_dedup (wc_id declared_claim #
         map (\<lambda>i. workspace_claim_id blake3 Entity_subject i DerivedFact) (dv_dependency_entity_ids d)) \<and>
     dv_input_evidence_ids d = vl_evidence_ids entity \<and>
     list_all (\<lambda>i. bt_get (inherited_claims ih) i \<noteq> None \<or> list_ex (\<lambda>c. wc_id c = i) (gr_claims graph))
       (dv_input_claim_ids d) \<and>
     strictly_ordered (dv_input_claim_ids d) \<and> strictly_ordered (dv_input_evidence_ids d) \<and>
     strictly_ordered (dv_dependency_entity_ids d)"

definition derivation_step ::
  "hash \<Rightarrow> inherited \<Rightarrow> evaluation_graph \<Rightarrow> derivation \<Rightarrow> derivation_state \<Rightarrow>
   (derivation_state, constant_evaluation_error) result" where
  "derivation_step blake3 ih graph d st =
     (if (case ds_previous st of None \<Rightarrow> False | Some p \<Rightarrow> p \<ge> dv_entity_id d) then Err CE_DerivationMismatch
      else
        and_then (ok_or CE_DerivationMismatch (bt_get (entity_by_id graph) (dv_entity_id d))) (\<lambda>entity.
        and_then (ok_or CE_DerivationMismatch (bt_get (relationship_by_id graph) (dv_relationship_id d))) (\<lambda>relationship.
        and_then (fail_if (list_ex (\<lambda>i. i \<notin> set (map vl_id (gr_entities graph))) (dv_dependency_entity_ids d))
          CE_DependencyInvalid) (\<lambda>_.
        and_then (enforce_constant_limit DirectDependencies (length (dv_dependency_entity_ids d))) (\<lambda>_.
        and_then (ok_or CE_DerivationMismatch
          (bt_get (inherited_claim_by_subject ih) (vl_declared_value_id entity))) (\<lambda>declared_claim.
        and_then (fail_if (\<not> derivation_matches blake3 ih graph (ds_represented st) entity relationship declared_claim d)
          CE_DerivationMismatch) (\<lambda>_.
        Ok \<lparr>ds_previous = Some (dv_entity_id d),
            ds_dependency_references =
              saturating_add (ds_dependency_references st) (length (dv_dependency_entity_ids d)),
            ds_derivation_inputs = saturating_add (ds_derivation_inputs st) (input_count d),
            ds_adjacency = bt_put (dv_entity_id d) (dv_dependency_entity_ids d) (ds_adjacency st),
            ds_represented = insert (rl_id relationship) (ds_represented st)\<rparr>)))))))"

fun validate_derivations ::
  "hash \<Rightarrow> inherited \<Rightarrow> evaluation_graph \<Rightarrow> derivation list \<Rightarrow> derivation_state \<Rightarrow>
   (derivation_state, constant_evaluation_error) result" where
  "validate_derivations blake3 ih graph [] st = Ok st"
| "validate_derivations blake3 ih graph (d # ds) st =
     and_then (derivation_step blake3 ih graph d st) (\<lambda>st. validate_derivations blake3 ih graph ds st)"

definition initial_derivation_state :: derivation_state where
  "initial_derivation_state =
     \<lparr>ds_previous = None, ds_dependency_references = 0, ds_derivation_inputs = 0, ds_adjacency = [],
      ds_represented = {}\<rparr>"

definition overlay_ordered :: "source_overlay \<Rightarrow> (unit, constant_evaluation_error) result" where
  "overlay_ordered so =
     and_then (require_ordered (map vl_id (so_entities so))) (\<lambda>_.
     and_then (require_ordered (map rl_id (so_relationships so))) (\<lambda>_.
     and_then (require_ordered (map wc_id (so_claims so))) (\<lambda>_.
     and_then (require_ordered (map cg_id (so_coverage so))) (\<lambda>_.
     and_then (require_ordered (so_removed_coverage_ids so)) (\<lambda>_.
     require_ordered (so_removed_diagnostic_ids so))))))"

fun overlays_ordered :: "source_overlay list \<Rightarrow> (unit, constant_evaluation_error) result" where
  "overlays_ordered [] = Ok ()"
| "overlays_ordered (so # sos) = and_then (overlay_ordered so) (\<lambda>_. overlays_ordered sos)"

definition validate_overlay_union ::
  "source_overlay list \<Rightarrow> evaluation_graph \<Rightarrow> (unit, constant_evaluation_error) result" where
  "validate_overlay_union overlays graph =
     and_then (require_ordered (map so_source_file_id overlays)) (\<lambda>_.
     and_then (overlays_ordered overlays) (\<lambda>_.
     fail_if
       (sort_key vl_id (concat (map so_entities overlays)) \<noteq> gr_entities graph \<or>
        sort_key rl_id (concat (map so_relationships overlays)) \<noteq> gr_relationships graph \<or>
        sort_key wc_id (concat (map so_claims overlays)) \<noteq> gr_claims graph \<or>
        sort_key cg_id (concat (map so_coverage overlays)) \<noteq> gr_coverage graph \<or>
        sort (concat (map so_removed_coverage_ids overlays)) \<noteq> gr_removed_coverage_ids graph \<or>
        sort (concat (map so_removed_diagnostic_ids overlays)) \<noteq> gr_removed_diagnostic_ids graph)
       CE_ContractInvalid))"

definition validate_order :: "evaluation_graph \<Rightarrow> (unit, constant_evaluation_error) result" where
  "validate_order graph =
     and_then (require_ordered (map vl_id (gr_entities graph))) (\<lambda>_.
     and_then (require_ordered (map rl_id (gr_relationships graph))) (\<lambda>_.
     and_then (require_ordered (map wc_id (gr_claims graph))) (\<lambda>_.
     and_then (require_ordered (map cg_id (gr_coverage graph))) (\<lambda>_.
     and_then (require_ordered (gr_removed_coverage_ids graph)) (\<lambda>_.
     require_ordered (gr_removed_diagnostic_ids graph))))))"

definition validate_knowledge ::
  "hash \<Rightarrow> inherited \<Rightarrow> source_overlay list \<Rightarrow> evaluation_graph \<Rightarrow> (unit, constant_evaluation_error) result" where
  "validate_knowledge blake3 ih overlays graph =
     and_then (validate_order graph) (\<lambda>_.
     and_then (enforce_constant_limit EvaluatedEntities (length (gr_entities graph))) (\<lambda>_.
     and_then (enforce_constant_limit EvaluationRelationships (length (gr_relationships graph))) (\<lambda>_.
     and_then (validate_entities blake3 ih {} (gr_entities graph)) (\<lambda>_.
     and_then (fail_if (length (gr_relationships graph) \<noteq> length (gr_entities graph)) CE_ValueInvalid) (\<lambda>_.
     and_then (validate_relationships blake3 ih graph {} (gr_relationships graph)) (\<lambda>_.
     and_then (fail_if (length (gr_claims graph) \<noteq> length (claim_subjects graph)) CE_DerivationMismatch) (\<lambda>_.
     and_then (fail_if (list_ex (\<lambda>c. \<not> claim_valid blake3 graph c) (gr_claims graph)) CE_DerivationMismatch) (\<lambda>_.
     and_then (fail_if (length (ix_derivations (gr_index graph)) \<noteq> length (gr_entities graph))
       CE_DerivationMismatch) (\<lambda>_.
     and_then (validate_derivations blake3 ih graph (ix_derivations (gr_index graph)) initial_derivation_state) (\<lambda>st.
     and_then (enforce_constant_limit DependencyReferences (ds_dependency_references st)) (\<lambda>_.
     and_then (enforce_constant_limit DerivationInputReferences (ds_derivation_inputs st)) (\<lambda>_.
     and_then (validate_acyclic (ds_adjacency st)) (\<lambda>_.
     and_then (fail_if (gr_index graph \<noteq>
         index_from_graph (gr_entities graph) (gr_relationships graph) (ix_derivations (gr_index graph)))
       CE_IndexMismatch) (\<lambda>_.
     validate_overlay_union overlays graph))))))))))))))"

text \<open>The end of the extraction: what is evaluated is reported, made into a graph, divided among the
  sources and, unless the caller validates later, validated.\<close>

definition extract_constants ::
  "hash \<Rightarrow> inherited \<Rightarrow> source_context list \<Rightarrow> extraction_catalog \<Rightarrow> candidates \<Rightarrow> enum_evidence \<Rightarrow>
   unsupported_subject list \<Rightarrow> bool \<Rightarrow> (source_overlay list \<times> evaluation_graph, constant_evaluation_error) result" where
  "extract_constants blake3 ih contexts catalog cands evidence unsupported validate =
     and_then (evaluation_report cands evidence unsupported) (\<lambda>(evaluated, gaps, enums).
     and_then (build_graph blake3 (ih_repository_identity ih) cands evaluated gaps catalog enums evidence) (\<lambda>graph.
     let overlays = source_overlays contexts graph catalog in
     and_then (if validate then validate_knowledge blake3 ih overlays graph else Ok ()) (\<lambda>_.
     Ok (overlays, graph))))"

section \<open>Values are valid\<close>

lemma parse_digits_show [simp]: "parse_digits (show_nat n) = Some n"
  using show_nat_digits [of n] by (auto simp: parse_digits_def show_nat_value list_ex_iff)

lemma show_nat_no_sign [simp]: "strip_prefix ''-'' (show_nat n) = None" "strip_prefix ''+'' (show_nat n) = None"
proof -
  obtain c cs where cs: "show_nat n = c # cs" using show_nat_nonempty [of n] by (cases "show_nat n") auto
  then have "is_ascii_digit c" using show_nat_digits [of n] by simp
  then show "strip_prefix ''-'' (show_nat n) = None" "strip_prefix ''+'' (show_nat n) = None"
    by (auto simp: cs strip_prefix_def is_ascii_digit_def less_eq_char_def)
qed

lemma show_nat_zero: "starts_with ''0'' (show_nat n) \<Longrightarrow> n = 0"
proof (induction n rule: show_nat.induct)
  case (1 n)
  obtain c cs where cs: "show_nat (n div 10) = c # cs" using show_nat_nonempty [of "n div 10"] by (cases "show_nat (n div 10)") auto
  show ?case
  proof (cases "n < 10")
    case True
    with 1(2) show ?thesis using digit_char [of n] by (simp add: show_nat.simps [of n] starts_with_def digit_value_def)
  next
    case False
    then have "starts_with ''0'' (show_nat (n div 10))" using 1(2) cs by (simp add: show_nat.simps [of n] starts_with_def)
    with 1(1) False show ?thesis by linarith
  qed
qed

lemma show_nat_0 [simp]: "show_nat 0 = ''0''"
  by code_simp

lemma canonical_integer_show:
  "canonical_integer (show_nat n)" "n \<noteq> 0 \<Longrightarrow> canonical_integer (CHR ''-'' # show_nat n)"
proof -
  have digits: "list_all is_ascii_digit (show_nat n)" using show_nat_digits by (simp add: list_all_iff)
  show "canonical_integer (show_nat n)"
    using digits show_nat_zero [of n] show_nat_no_sign(1) [of n]
    by (auto simp: canonical_integer_def Let_def strip_prefix_def)
  show "canonical_integer (CHR ''-'' # show_nat n)" if "n \<noteq> 0"
    using that digits show_nat_zero [of n] by (auto simp: canonical_integer_def Let_def strip_prefix_def starts_with_def)
qed

section \<open>The search for cycles is exact\<close>

definition edges :: "adjacency \<Rightarrow> (string \<times> string) set" where
  "edges adj = {(k, d). d \<in> set (neighbours adj k)}"

definition settled_nodes :: "adjacency \<Rightarrow> string set \<Rightarrow> bool" where
  "settled_nodes adj C \<longleftrightarrow> edges adj `` C \<subseteq> C \<and> acyclic (edges adj \<inter> C \<times> C)"

lemma settled_nodes_insert:
  assumes "settled_nodes adj C" "k \<notin> C" "set (neighbours adj k) \<subseteq> C"
  shows "settled_nodes adj (insert k C)"
proof -
  let ?r = "edges adj \<inter> C \<times> C" and ?s = "edges adj \<inter> insert k C \<times> insert k C"
  have closed: "d \<in> C" if "(x, d) \<in> edges adj" "x \<in> insert k C" for x d
    using that assms by (auto simp: settled_nodes_def edges_def)
  have in_C: "(x, y) \<in> ?r\<^sup>+" if "(x, y) \<in> ?s\<^sup>+" "x \<in> C" for x y
    using that
  proof (induction rule: trancl_induct)
    case (step y z)
    then have "y \<in> C" by (metis Int_iff SigmaD2 tranclD2)
    with step have "(y, z) \<in> ?r" using closed by auto
    with step show ?case by (meson trancl.trancl_into_trancl)
  qed (use closed in auto)
  have "(x, x) \<notin> ?s\<^sup>+" for x
  proof
    assume cyc: "(x, x) \<in> ?s\<^sup>+"
    then obtain y where "(y, x) \<in> ?s" by (meson tranclD2)
    then have "x \<in> C" using closed by auto
    with in_C [OF cyc] assms(1) show False by (auto simp: settled_nodes_def acyclic_def)
  qed
  with closed show ?thesis by (auto simp: settled_nodes_def acyclic_def)
qed

definition visit_fails :: "adjacency \<Rightarrow> constant_evaluation_error \<Rightarrow> bool" where
  "visit_fails adj e \<longleftrightarrow>
     e = CE_DependencyCycle \<and> \<not> acyclic (edges adj) \<or>
     e = CE_LimitExceeded DependencyLevels 64 65 \<and> (\<exists>x y. (x, y) \<in> edges adj ^^ 65)"

definition visited :: "adjacency \<Rightarrow> string set \<times> string set \<Rightarrow> string list \<Rightarrow> string set \<times> string set \<Rightarrow> bool" where
  "visited adj st ds st' \<longleftrightarrow>
     fst st' = fst st \<and> snd st \<subseteq> snd st' \<and> set ds \<subseteq> snd st' \<and> fst st \<inter> snd st' = {} \<and> settled_nodes adj (snd st')"

lemma visit_outcome:
  "fst st \<inter> snd st = {} \<Longrightarrow> settled_nodes adj (snd st) \<Longrightarrow> \<forall>a \<in> fst st. (a, k) \<in> (edges adj)\<^sup>+ \<Longrightarrow>
   (root, k) \<in> edges adj ^^ depth \<Longrightarrow> depth \<le> 65 \<Longrightarrow>
   case visit adj k depth st of Ok st' \<Rightarrow> visited adj st [k] st' | Err e \<Rightarrow> visit_fails adj e | Panic \<Rightarrow> False"
  "fst st \<inter> snd st = {} \<Longrightarrow> settled_nodes adj (snd st) \<Longrightarrow> \<forall>a \<in> fst st. (a, p) \<in> (edges adj)\<^sup>* \<Longrightarrow>
   (root, p) \<in> edges adj ^^ depth \<Longrightarrow> depth \<le> 64 \<Longrightarrow> set ds \<subseteq> set (neighbours adj p) \<Longrightarrow>
   case visit_each adj ds depth st of Ok st' \<Rightarrow> visited adj st ds st' | Err e \<Rightarrow> visit_fails adj e | Panic \<Rightarrow> False"
proof (induction adj k depth st and adj ds depth st arbitrary: root and root p rule: visit_visit_each.induct)
  case (1 adj k depth A C)
  show ?case
  proof (cases "depth > 64 \<or> k \<in> C \<or> k \<in> A")
    case True
    then consider "depth = 65" | "depth \<le> 64" "k \<in> C" | "depth \<le> 64" "k \<notin> C" "k \<in> A" using "1.prems"(5) by linarith
    then show ?thesis
      using "1.prems" by cases (auto simp: visit.simps visit_fails_def visited_def acyclic_def)
  next
    case False
    then have "case visit_each adj (neighbours adj k) depth (insert k A, C) of
        Ok st' \<Rightarrow> visited adj (insert k A, C) (neighbours adj k) st' | Err e \<Rightarrow> visit_fails adj e | Panic \<Rightarrow> False"
      using "1.prems" by (intro "1.IH") (auto intro: trancl_into_rtrancl)
    then show ?thesis
      using False by (auto simp: visit.simps visited_def intro!: settled_nodes_insert split: result.splits)
  qed
next
  case (3 adj d ds depth st)
  have d: "(p, d) \<in> edges adj" using "3.prems"(6) by (simp add: edges_def)
  have sat: "saturating_add depth 1 = Suc depth" using "3.prems"(5) by (simp add: saturating_add_def u64_max_def)
  have v: "case visit adj d (Suc depth) st of Ok st' \<Rightarrow> visited adj st [d] st' | Err e \<Rightarrow> visit_fails adj e | Panic \<Rightarrow> False"
    using "3.prems" d by (intro "3.IH"(1) [unfolded sat, of root]) (auto intro: rtrancl_into_trancl1)
  show ?case
  proof (cases "visit adj d (Suc depth) st")
    case (Ok st')
    with v have st': "visited adj st [d] st'" by simp
    have "case visit_each adj ds depth st' of Ok st'' \<Rightarrow> visited adj st' ds st'' | Err e \<Rightarrow> visit_fails adj e | Panic \<Rightarrow> False"
      using "3.prems" st' by (intro "3.IH"(2) [unfolded sat, OF Ok]) (auto simp: visited_def)
    with Ok st' show ?thesis by (auto simp: sat visited_def simp del: One_nat_def split: result.splits)
  qed (use v in \<open>auto simp: sat simp del: One_nat_def\<close>)
qed (auto simp: visited_def)

lemma visit_roots_outcome:
  "settled_nodes adj C \<Longrightarrow>
   case visit_roots adj ks C of Ok C' \<Rightarrow> C \<subseteq> C' \<and> set ks \<subseteq> C' \<and> settled_nodes adj C' | Err e \<Rightarrow> visit_fails adj e | Panic \<Rightarrow> False"
proof (induction ks arbitrary: C)
  case (Cons k ks)
  have v: "case visit adj k 0 ({}, C) of Ok st' \<Rightarrow> visited adj ({}, C) [k] st' | Err e \<Rightarrow> visit_fails adj e | Panic \<Rightarrow> False"
    using Cons.prems by (intro visit_outcome(1) [where root = k]) auto
  show ?case
  proof (cases "visit adj k 0 ({}, C)")
    case (Ok st')
    obtain A' C' where st': "st' = (A', C')" by (cases st')
    with v Ok have "C \<subseteq> C'" "k \<in> C'" "settled_nodes adj C'" by (auto simp: visited_def)
    with Cons.IH [of C'] show ?thesis by (auto simp: Ok st' split: result.splits)
  qed (use v in auto)
qed auto

lemma validate_acyclic_outcome:
  "case validate_acyclic adj of Ok _ \<Rightarrow> acyclic (edges adj) | Err e \<Rightarrow> visit_fails adj e | Panic \<Rightarrow> False"
proof -
  have "settled_nodes adj {}" by (simp add: settled_nodes_def acyclic_def)
  note v = visit_roots_outcome [OF this, of "bt_keys adj"]
  have "edges adj \<subseteq> C \<times> C" if "set (bt_keys adj) \<subseteq> C" "settled_nodes adj C" for C
  proof -
    have "k \<in> set (bt_keys adj)" if "(k, d) \<in> edges adj" for k d
      using that bt_get_key [of k adj] by (auto simp: edges_def neighbours_def bt_keys_def split: option.splits)
    then show ?thesis using that by (force simp: settled_nodes_def)
  qed
  then have "acyclic (edges adj)" if "set (bt_keys adj) \<subseteq> C" "settled_nodes adj C" for C
    using that by (metis Int_absorb2 settled_nodes_def)
  with v show ?thesis by (auto simp: validate_acyclic_def split: result.splits)
qed

text \<open>A graph with a rank of at most 64 that falls along every edge is accepted.\<close>

lemma ranked_acyclic:
  assumes rank: "\<And>k d. (k, d) \<in> edges adj \<Longrightarrow> rank d < (rank k :: nat)" and "\<And>k. rank k \<le> 64"
  shows "validate_acyclic adj = Ok ()"
proof -
  have fall: "rank y + n \<le> rank x" if "(x, y) \<in> edges adj ^^ n" for x y n
    using that by (induction n arbitrary: y) (fastforce dest: rank)+
  have "(x, y) \<notin> edges adj ^^ 65" for x y
    using fall [of x y 65] assms(2) [of x] by linarith
  moreover have "acyclic (edges adj)"
    using rank by (rule acyclicI_order)
  ultimately show ?thesis
    using validate_acyclic_outcome [of adj] by (auto simp: visit_fails_def split: result.splits)
qed

lemma widths:
  "parse_unsigned u32_max ''8'' = Some 8" "parse_unsigned u32_max ''16'' = Some 16" "parse_unsigned u32_max ''32'' = Some 32"
  "parse_unsigned u32_max ''64'' = Some 64" "parse_unsigned u32_max ''128'' = Some 128"
  by (simp_all add: parse_unsigned_def parse_digits_def strip_prefix_def is_ascii_digit_def less_eq_char_def
      digit_value_def u32_max_def)

lemma valid_type:
  "parse_primitive t = Some p \<Longrightarrow> p \<noteq> PT_Bool \<Longrightarrow>
   \<exists>c width bits. t = c # width \<and> parse_unsigned u32_max width = Some bits \<and> 8 \<le> bits \<and> bits \<le> 128 \<and>
     (c = CHR ''i'' \<and> p = PT_Signed bits \<or> c = CHR ''u'' \<and> p = PT_Unsigned bits)"
  by (auto simp: parse_primitive_def widths split: if_splits)

lemma parse_i128_show: "i128_min \<le> v \<Longrightarrow> v \<le> i128_max \<Longrightarrow> parse_i128 (show_int v) = Some v"
  by (auto simp: parse_i128_def show_int_def strip_prefix_def [of _ "_ # _"] split: option.splits)

lemma canonical_in_range:
  assumes "parse_primitive t = Some p" "fits v p" "p \<noteq> PT_Bool"
  shows "canonical_integer (canonical v) \<and> integer_in_range (canonical v) t"
proof -
  obtain c width bits where t: "t = c # width" "parse_unsigned u32_max width = Some bits" "8 \<le> bits" "bits \<le> 128"
    "c = CHR ''i'' \<and> p = PT_Signed bits \<or> c = CHR ''u'' \<and> p = PT_Unsigned bits"
    using valid_type [OF assms(1,3)] by blast
  show ?thesis
  proof (cases v)
    case (CV_Signed i)
    with assms(2) t have w: "c = CHR ''i''" "in_width bits i" by auto
    have "i128_min \<le> i" "i \<le> i128_max"
      using in_width_i128 [OF w(2) t(4)] by (auto simp: i128_checked_def split: if_splits)
    then have "integer_in_range (show_int i) t"
      using w t by (auto simp: integer_in_range_def parse_i128_show Let_def in_width_def)
    moreover have "canonical_integer (show_int i)" using canonical_integer_show by (simp add: show_int_def)
    ultimately show ?thesis by (simp add: CV_Signed)
  next
    case (CV_Unsigned n)
    with assms(2) t have w: "c = CHR ''u''" "n < 2 ^ bits" by auto
    have "n \<le> u128_max" using w(2) t(4) power_increasing [of bits 128 "2 :: nat"] by (simp add: u128_max_iff)
    with w t CV_Unsigned show ?thesis
      using canonical_integer_show by (auto simp: integer_in_range_def parse_unsigned_def)
  qed (use assms in \<open>cases p; simp\<close>)
qed

section \<open>A chain the depth limit does not see\<close>

text \<open>Nodes in increasing order, each depending on the one before it.\<close>

definition leaf_first :: "nat \<Rightarrow> adjacency" where
  "leaf_first n = map (\<lambda>i. (variant_id i, if i = 0 then [] else [variant_id (i - 1)])) [0..<n]"

lemma leaf_first_neighbours: "i < n \<Longrightarrow> neighbours (leaf_first n) (variant_id i) = (if i = 0 then [] else [variant_id (i - 1)])"
proof -
  assume "i < n"
  moreover have "bt_wf (leaf_first n)"
    by (auto simp: bt_wf_def leaf_first_def comp_def sorted_wrt_map sorted_wrt_iff_nth_less variant_id_less)
  ultimately have "bt_get (leaf_first n) (variant_id i) = Some (if i = 0 then [] else [variant_id (i - 1)])"
    by (simp add: bt_get_mem) (auto simp: leaf_first_def)
  then show ?thesis by (simp add: neighbours_def)
qed

lemma leaf_first_keys: "bt_keys (leaf_first n) = map variant_id [0..<n]"
  by (simp add: bt_keys_def leaf_first_def comp_def)

lemma leaf_first_visit:
  assumes "i < n"
  shows "visit (leaf_first n) (variant_id i) 0 ({}, variant_id ` {..<i}) = Ok ({}, variant_id ` {..<Suc i})"
proof -
  have "variant_id i \<notin> variant_id ` {..<i}" using variant_id_less by (force simp: image_iff)
  moreover have "visit_each (leaf_first n) (neighbours (leaf_first n) (variant_id i)) 0 (A, variant_id ` {..<i}) =
      Ok (A, variant_id ` {..<i})" for A
    using assms by (cases i) (auto simp: leaf_first_neighbours visit.simps saturating_add_def u64_max_def)
  ultimately show ?thesis by (auto simp: visit.simps [of _ _ 0] lessThan_Suc)
qed

lemma leaf_first_roots:
  "i \<le> n \<Longrightarrow> visit_roots (leaf_first n) (map variant_id [i..<n]) (variant_id ` {..<i}) = Ok (variant_id ` {..<n})"
proof (induction "n - i" arbitrary: i)
  case (Suc d)
  then have "i < n" by simp
  with Suc.hyps(1) [of "Suc i"] Suc.hyps(2) show ?case
    by (simp add: upt_conv_Cons leaf_first_visit del: upt_Suc)
qed simp

section \<open>Properties\<close>

text \<open>
  C18. The search for dependency cycles is exact: it ends on every graph, accepts only graphs without
  cycles, reports a cycle only when there is one, and reports a limit only when there is a chain of 65
  dependencies.
\<close>

theorem validate_acyclic_exact:
  "case validate_acyclic adj of
     Ok _ \<Rightarrow> acyclic (edges adj)
   | Err CE_DependencyCycle \<Rightarrow> \<not> acyclic (edges adj)
   | Err e \<Rightarrow> e = CE_LimitExceeded DependencyLevels 64 65 \<and> (\<exists>x y. (x, y) \<in> edges adj ^^ 65)
   | Panic \<Rightarrow> False"
  using validate_acyclic_outcome [of adj]
  by (auto simp: visit_fails_def split: result.splits constant_evaluation_error.splits)

text \<open>
  C39. The depth limit of the search depends on the order of the identifiers: a chain of any length is
  accepted when every node sorts after the nodes it depends on, since a node that is complete is not
  entered again, although the limit on dependency levels is 64.
\<close>

theorem validate_acyclic_depth_unseen:
  "validate_acyclic (leaf_first (Suc n)) = Ok () \<and>
   (variant_id n, variant_id 0) \<in> edges (leaf_first (Suc n)) ^^ n"
proof
  show "validate_acyclic (leaf_first (Suc n)) = Ok ()"
    using leaf_first_roots [of 0 "Suc n"] leaf_first_keys [of "Suc n"] by (simp add: validate_acyclic_def del: upt_Suc)
  have "(variant_id i, variant_id 0) \<in> edges (leaf_first (Suc n)) ^^ i" if "i \<le> n" for i
    using that
  proof (induction i)
    case (Suc i)
    then have "(variant_id (Suc i), variant_id i) \<in> edges (leaf_first (Suc n))"
      by (simp add: edges_def leaf_first_neighbours)
    with Suc show ?case by (metis Suc_leD relpow_Suc_I2)
  qed simp
  then show "(variant_id n, variant_id 0) \<in> edges (leaf_first (Suc n)) ^^ n" by simp
qed

end
