(* ===== verification/Constant_Extraction.thy ===== *)
theory Constant_Extraction
  imports Constant_Validation "HOL-Library.Multiset"
begin

text \<open>
  The constant extraction from end to end: the graph built from a report of the evaluator passes its
  validation, whatever the candidates are, so that an extraction fails only at a limit or at a collision
  of the hash that names its records.
\<close>

section \<open>What a report guarantees\<close>

definition report_ok :: "candidates \<Rightarrow> evaluations \<Rightarrow> bool" where
  "report_ok cands evaluated \<longleftrightarrow>
     bt_wf evaluated \<and>
     (\<forall>k w. bt_get evaluated k = Some w \<longrightarrow>
        (\<exists>c. bt_get cands k = Some c \<and> fits (el_value w) (cd_primitive c)) \<and>
        derives cands k (el_value w) \<and>
        el_dependency_levels w \<le> 64 \<and> length (el_dependency_ids w) \<le> 256 \<and>
        (\<forall>d \<in> set (el_dependency_ids w). \<exists>x. bt_get evaluated d = Some x \<and>
           el_dependency_levels x < el_dependency_levels w))"

lemma report_is_ok:
  assumes "keyed cands" "enums_closed cands" "evaluation_report cands evidence us = Ok (evaluated, gaps, enums)"
  shows "report_ok cands evaluated"
proof -
  obtain ev where ev: "evaluate_all cands = Ok ev" "bt_wf (ev_evaluated ev) \<Longrightarrow> bt_wf evaluated"
    and get: "\<And>k. bt_get evaluated k = (if dropped cands ev k then None else bt_get (ev_evaluated ev) k)"
    using evaluation_report_Ok [OF assms(3)] by blast
  have inv: "ev_inv cands ev" using evaluate_all_settled(1) [OF assms(1) ev(1)] by (simp add: settled_def)
  have "(\<exists>c. bt_get cands k = Some c \<and> fits (el_value w) (cd_primitive c)) \<and> derives cands k (el_value w) \<and>
      el_dependency_levels w \<le> 64 \<and> length (el_dependency_ids w) \<le> 256 \<and>
      (\<forall>d \<in> set (el_dependency_ids w). \<exists>x. bt_get evaluated d = Some x \<and> el_dependency_levels x < el_dependency_levels w)"
    if w: "bt_get evaluated k = Some w" for k w
  proof -
    have wev: "bt_get (ev_evaluated ev) k = Some w" using w get [of k] by (auto split: if_splits)
    have "bt_get evaluated d = bt_get (ev_evaluated ev) d" if "d \<in> set (el_dependency_ids w)" for d
      using that get [of d] report_closed [OF assms w] by (auto simp: list_all_iff split: if_splits)
    then show ?thesis
      using evaluated_typed [OF assms(1) ev(1) wev] evaluated_derives [OF inv wev] by (auto simp: list_all_iff)
  qed
  then show ?thesis using ev(2) inv by (simp add: report_ok_def ev_inv_def)
qed

section \<open>Assumptions on the inputs\<close>

text \<open>A candidate is taken from the inherited knowledge: its type is the primitive type named by its
  annotation or its representation, its declaration is a value of the right kind, its evidence is
  inherited, and its claim is the one on its declaration.\<close>

definition candidate_catalogued :: "inherited \<Rightarrow> candidate \<Rightarrow> bool" where
  "candidate_catalogued ih c \<longleftrightarrow>
     parse_primitive (cd_rust_type c) = Some (cd_primitive c) \<and>
     (case bt_get (declared_values ih) (cd_declared_value_id c) of
        None \<Rightarrow> False
      | Some d \<Rightarrow>
          (case bt_get (semantic_entities ih) (ce_subject_id d) of
             None \<Rightarrow> False
           | Some s \<Rightarrow>
               (case cd_type_authority c of
                  ExplicitPrimitiveAnnotation \<Rightarrow> se_kind s \<in> {Constant, Static}
                | FixedReprAttribute \<Rightarrow> se_kind s = EnumVariant \<and> cd_primitive c \<noteq> PT_Bool))) \<and>
     cd_evidence_ids c \<noteq> [] \<and> list_all (\<lambda>i. i \<in> inherited_evidence ih) (cd_evidence_ids c) \<and>
     map_option wc_id (bt_get (inherited_claim_by_subject ih) (cd_declared_value_id c)) = Some (cd_declared_value_claim_id c)"

definition catalogued :: "inherited \<Rightarrow> candidates \<Rightarrow> bool" where
  "catalogued ih cands \<longleftrightarrow> list_all (\<lambda>(_, c). candidate_catalogued ih c) cands"

text \<open>Evidence lies in exactly one of the source files.\<close>

definition sourced :: "source_context list \<Rightarrow> extraction_catalog \<Rightarrow> string list \<Rightarrow> bool" where
  "sourced contexts catalog ids \<longleftrightarrow>
     length (filter (\<lambda>cx. evidence_in_source catalog (cx_path cx) ids) contexts) = 1"

definition inputs_sourced ::
  "source_context list \<Rightarrow> extraction_catalog \<Rightarrow> candidates \<Rightarrow> enum_evidence \<Rightarrow> unsupported_subject list \<Rightarrow> bool" where
  "inputs_sourced contexts catalog cands evidence us \<longleftrightarrow>
     distinct (map cx_source_file_id contexts) \<and>
     list_all (\<lambda>(_, c). sourced contexts catalog (cd_evidence_ids c)) cands \<and>
     list_all (\<lambda>(_, _, ids). sourced contexts catalog ids) evidence \<and>
     list_all (\<lambda>u. sourced contexts catalog (us_evidence_ids u)) us \<and>
     distinct (map sg_id (ct_semantic_coverage catalog)) \<and>
     list_all (\<lambda>g. sourced contexts catalog (sg_evidence_ids g)) (ct_semantic_coverage catalog) \<and>
     distinct (map sd_id (ct_semantic_diagnostics catalog)) \<and>
     list_all (\<lambda>d. sourced contexts catalog (sd_evidence_ids d)) (ct_semantic_diagnostics catalog)"

section \<open>The graph\<close>

definition sorted_entities :: "hash \<Rightarrow> string \<Rightarrow> candidates \<Rightarrow> evaluations \<Rightarrow> evaluated_value list" where
  "sorted_entities blake3 repo cands evaluated = sort_key vl_id (map (entity_of blake3 repo cands) evaluated)"

definition ids_by_declared :: "hash \<Rightarrow> string \<Rightarrow> evaluations \<Rightarrow> (string, string) btree" where
  "ids_by_declared blake3 repo evaluated = bt_collect (map (\<lambda>(k, _). (k, evaluated_value_id blake3 repo k)) evaluated)"

definition graph_of ::
  "hash \<Rightarrow> string \<Rightarrow> candidates \<Rightarrow> evaluations \<Rightarrow> unsupported_subject list \<Rightarrow> extraction_catalog \<Rightarrow>
   string btset \<Rightarrow> enum_evidence \<Rightarrow> evaluation_graph" where
  "graph_of blake3 repo cands evaluated us catalog enums evidence =
     (let es = sorted_entities blake3 repo cands evaluated;
          rs = sort_key rl_id (map (relationship_of blake3) es);
          repr = completed_enum_repr_evidence cands enums evidence in
      \<lparr>gr_entities = es, gr_relationships = rs, gr_claims = sort_key wc_id (concat (map (claims_of blake3) es)),
       gr_coverage = coverage_of blake3 us,
       gr_removed_coverage_ids = removed_coverage cands evaluated us repr (ct_semantic_coverage catalog),
       gr_removed_diagnostic_ids = removed_diagnostics repr (ct_semantic_diagnostics catalog),
       gr_index = index_from_graph es rs
         (map (derivation_of blake3 cands evaluated (ids_by_declared blake3 repo evaluated)) es)\<rparr>)"

lemma entity_of_simps:
  assumes "keyed cands" "bt_get cands k = Some c"
  shows "vl_declared_value_id (entity_of b repo cands (k, w)) = k" "vl_id (entity_of b repo cands (k, w)) = evaluated_value_id b repo k"
    "vl_evidence_ids (entity_of b repo cands (k, w)) = sort_dedup (cd_evidence_ids c)"
  using assms by (auto simp: entity_of_def new_evaluated_value_def keyed_def)

lemma ids_by_declared_get:
  assumes "bt_wf evaluated"
  shows "bt_get (ids_by_declared b repo evaluated) k = map_option (\<lambda>_. evaluated_value_id b repo k) (bt_get evaluated k)"
proof -
  have "distinct (map fst (map (\<lambda>(k, _). (k, evaluated_value_id b repo k)) evaluated))"
    using assms by (simp add: bt_wf_def strict_sorted_iff comp_def case_prod_unfold)
  note get = bt_collect_get [OF this]
  show ?thesis
  proof (cases "bt_get evaluated k")
    case None
    then have "\<nexists>v. bt_get (ids_by_declared b repo evaluated) k = Some v"
      using assms by (auto simp: ids_by_declared_def get bt_get_mem [symmetric])
    with None show ?thesis by (cases "bt_get (ids_by_declared b repo evaluated) k") auto
  next
    case (Some w)
    then have "(k, w) \<in> set evaluated" using assms by (simp add: bt_get_mem)
    then have "bt_get (ids_by_declared b repo evaluated) k = Some (evaluated_value_id b repo k)"
      unfolding ids_by_declared_def get by force
    with Some show ?thesis by simp
  qed
qed

lemma entity_mem:
  assumes "keyed cands" "report_ok cands evaluated" "e \<in> set (sorted_entities b repo cands evaluated)"
  obtains k w c where "bt_get evaluated k = Some w" "bt_get cands k = Some c" "e = entity_of b repo cands (k, w)"
    "vl_declared_value_id e = k" "vl_id e = evaluated_value_id b repo k" "vl_evidence_ids e = sort_dedup (cd_evidence_ids c)"
proof -
  from assms(3) obtain k w where kw: "(k, w) \<in> set evaluated" "e = entity_of b repo cands (k, w)"
    by (auto simp: sorted_entities_def)
  then have w: "bt_get evaluated k = Some w" using assms(2) by (simp add: report_ok_def bt_get_mem)
  then obtain c where "bt_get cands k = Some c" using assms(2) by (metis report_ok_def)
  with w kw(2) entity_of_simps [OF assms(1) this] show ?thesis by (intro that) auto
qed

lemma build_graph_eq:
  assumes "keyed cands" "report_ok cands evaluated"
  shows "build_graph b repo cands evaluated us catalog enums evidence =
    Ok (graph_of b repo cands evaluated us catalog enums evidence)"
proof -
  have wf: "bt_wf evaluated" using assms(2) by (simp add: report_ok_def)
  have cand: "\<exists>c. bt_get cands k = Some c" if "(k, w) \<in> set evaluated" for k w
    using that assms(2) wf by (fastforce simp: report_ok_def bt_get_mem)
  have "build_entities b repo cands evaluated ([], []) =
      Ok (map (entity_of b repo cands) evaluated, ids_by_declared b repo evaluated)"
  proof -
    have "fold (\<lambda>kv. bt_put (fst kv) (vl_id (entity_of b repo cands kv))) evaluated m =
        fold (\<lambda>(k, v). bt_put k v) (map (\<lambda>(k, _). (k, evaluated_value_id b repo k)) evaluated) m" for m
      using cand
      by (induction evaluated arbitrary: m) (fastforce simp: entity_of_simps(2) [OF assms(1)])+
    then show ?thesis
      using cand by (subst build_entities_eq) (auto simp: list_all_iff ids_by_declared_def bt_collect_def)
  qed
  moreover have "describe_entities b cands evaluated (ids_by_declared b repo evaluated)
      (sorted_entities b repo cands evaluated) ([], [], []) =
      Ok (map (relationship_of b) (sorted_entities b repo cands evaluated),
          concat (map (claims_of b) (sorted_entities b repo cands evaluated)),
          map (derivation_of b cands evaluated (ids_by_declared b repo evaluated)) (sorted_entities b repo cands evaluated))"
  proof (subst describe_entities_eq)
    have "bt_get cands (vl_declared_value_id e) \<noteq> None \<and>
        (case bt_get evaluated (vl_declared_value_id e) of None \<Rightarrow> False
         | Some w \<Rightarrow> list_all (\<lambda>d. bt_get (ids_by_declared b repo evaluated) d \<noteq> None) (el_dependency_ids w))"
      if "e \<in> set (sorted_entities b repo cands evaluated)" for e
      using that
    proof (rule entity_mem [OF assms])
      fix k w c assume "bt_get evaluated k = Some w" "bt_get cands k = Some c" "vl_declared_value_id e = k"
      then show ?thesis
        using assms(2) by (fastforce simp: ids_by_declared_get [OF wf] list_all_iff report_ok_def)
    qed
    then show "list_all (\<lambda>e. bt_get cands (vl_declared_value_id e) \<noteq> None \<and>
        (case bt_get evaluated (vl_declared_value_id e) of None \<Rightarrow> False
         | Some w \<Rightarrow> list_all (\<lambda>d. bt_get (ids_by_declared b repo evaluated) d \<noteq> None) (el_dependency_ids w)))
        (sorted_entities b repo cands evaluated)" by (simp add: list_all_iff)
  qed simp
  ultimately show ?thesis
    by (simp add: build_graph_def graph_of_def Let_def sorted_entities_def)
qed

section \<open>Validation of its parts\<close>

lemma collect_by:
  fixes f :: "'a \<Rightarrow> 'b :: linorder"
  shows "distinct (map f xs) \<Longrightarrow> bt_get (bt_collect (map (\<lambda>x. (f x, x)) xs)) k = Some x \<longleftrightarrow> x \<in> set xs \<and> f x = k"
  by (subst bt_collect_get) (auto simp: comp_def)

lemma constant_key_strict: "sorted_wrt (<) (map f (sort_key f xs)) \<longleftrightarrow> distinct (map f xs)" for f :: "'a \<Rightarrow> 'b :: linorder"
proof -
  have "distinct (map f (sort_key f xs)) \<longleftrightarrow> distinct (map f xs)" by (rule mset_eq_imp_distinct_iff) simp
  then show ?thesis by (simp add: strict_sorted_iff)
qed

lemma sort_key_id: "sorted_wrt (<) (map f xs) \<Longrightarrow> sort_key f xs = xs" for f :: "'a \<Rightarrow> 'b :: linorder"
  by (simp add: strict_sorted_iff sorted_sort_id sort_key_id_if_sorted)

lemma validate_entities_Ok:
  "distinct (map vl_declared_value_id vs) \<Longrightarrow> vl_declared_value_id ` set vs \<inter> seen = {} \<Longrightarrow> list_all (entity_valid b ih) vs \<Longrightarrow>
   validate_entities b ih seen vs = Ok ()"
  by (induction vs arbitrary: seen) auto

lemma validate_relationships_Ok:
  "distinct (map rl_target rs) \<Longrightarrow> rl_target ` set rs \<inter> targets = {} \<Longrightarrow> list_all (relationship_valid b ih g) rs \<Longrightarrow>
   validate_relationships b ih g targets rs = Ok ()"
  by (induction rs arbitrary: targets) auto

definition derivation_valid :: "hash \<Rightarrow> inherited \<Rightarrow> evaluation_graph \<Rightarrow> derivation \<Rightarrow> bool" where
  "derivation_valid b ih g d \<longleftrightarrow>
     (\<exists>entity relationship claim. bt_get (entity_by_id g) (dv_entity_id d) = Some entity \<and>
        bt_get (relationship_by_id g) (dv_relationship_id d) = Some relationship \<and>
        rl_id relationship = dv_relationship_id d \<and>
        bt_get (inherited_claim_by_subject ih) (vl_declared_value_id entity) = Some claim \<and>
        set (dv_dependency_entity_ids d) \<subseteq> vl_id ` set (gr_entities g) \<and>
        length (dv_dependency_entity_ids d) \<le> 256 \<and>
        derivation_matches b ih g {} entity relationship claim d)"

lemma derivation_step_Ok:
  assumes "derivation_valid b ih g d" "dv_relationship_id d \<notin> ds_represented st"
    "\<forall>p. ds_previous st = Some p \<longrightarrow> p < dv_entity_id d"
  shows "\<exists>st'. derivation_step b ih g d st = Ok st' \<and> ds_previous st' = Some (dv_entity_id d) \<and>
    ds_represented st' = insert (dv_relationship_id d) (ds_represented st) \<and>
    ds_adjacency st' = bt_put (dv_entity_id d) (dv_dependency_entity_ids d) (ds_adjacency st)"
proof -
  obtain entity relationship claim where v: "bt_get (entity_by_id g) (dv_entity_id d) = Some entity"
      "bt_get (relationship_by_id g) (dv_relationship_id d) = Some relationship" "rl_id relationship = dv_relationship_id d"
      "bt_get (inherited_claim_by_subject ih) (vl_declared_value_id entity) = Some claim"
      "set (dv_dependency_entity_ids d) \<subseteq> vl_id ` set (gr_entities g)" "length (dv_dependency_entity_ids d) \<le> 256"
      "derivation_matches b ih g {} entity relationship claim d"
    using assms(1) unfolding derivation_valid_def by blast
  have "derivation_matches b ih g (ds_represented st) entity relationship claim d"
    using v(7) assms(2) unfolding v(3) [symmetric] derivation_matches_def by blast
  moreover have "\<not> list_ex (\<lambda>i. i \<notin> set (map vl_id (gr_entities g))) (dv_dependency_entity_ids d)"
    using v(5) by (auto simp: list_ex_iff)
  moreover have "\<not> (case ds_previous st of None \<Rightarrow> False | Some p \<Rightarrow> dv_entity_id d \<le> p)"
    using assms(3) by (auto split: option.splits)
  ultimately show ?thesis
    using v by (simp add: derivation_step_def enforce_constant_limit_def)
qed

lemma validate_derivations_Ok:
  assumes "list_all (derivation_valid b ih g) ds" "sorted_wrt (<) (map dv_entity_id ds)" "distinct (map dv_relationship_id ds)"
    "dv_relationship_id ` set ds \<inter> ds_represented st = {}" "\<forall>p. ds_previous st = Some p \<longrightarrow> (\<forall>d \<in> set ds. p < dv_entity_id d)"
  shows "\<exists>st'. validate_derivations b ih g ds st = Ok st' \<and>
    ds_adjacency st' = fold (\<lambda>d. bt_put (dv_entity_id d) (dv_dependency_entity_ids d)) ds (ds_adjacency st)"
  using assms
proof (induction ds arbitrary: st)
  case (Cons d ds)
  obtain st' where st': "derivation_step b ih g d st = Ok st'" "ds_previous st' = Some (dv_entity_id d)"
    "ds_represented st' = insert (dv_relationship_id d) (ds_represented st)"
    "ds_adjacency st' = bt_put (dv_entity_id d) (dv_dependency_entity_ids d) (ds_adjacency st)"
    using derivation_step_Ok [of b ih g d st] Cons.prems by auto
  have "\<exists>st''. validate_derivations b ih g ds st' = Ok st'' \<and>
      ds_adjacency st'' = fold (\<lambda>d. bt_put (dv_entity_id d) (dv_dependency_entity_ids d)) ds (ds_adjacency st')"
    using Cons.prems st' by (intro Cons.IH) auto
  with st' show ?case by auto
qed simp

section \<open>The sources divide the graph\<close>

lemma insort_key_map: "insort_key f (g x) (map g xs) = map g (insort_key (\<lambda>x. f (g x)) x xs)"
  by (induction xs) auto

lemma sort_key_map: "sort_key f (map g xs) = map g (sort_key (\<lambda>x. f (g x)) xs)"
  by (induction xs) (auto simp: insort_key_map)

lemma union_of_parts:
  fixes f :: "'a \<Rightarrow> 'b :: linorder"
  assumes "sorted_wrt (<) (map f xs)" "\<And>x. x \<in> set xs \<Longrightarrow> length (filter (\<lambda>c. P c x) cs) = 1"
  shows "sort_key f (concat (map (\<lambda>c. filter (P c) xs) cs)) = xs"
proof -
  have "count (mset (concat (map (\<lambda>c. filter (P c) xs) cs))) x = length (filter (\<lambda>c. P c x) cs) * count (mset xs) x" for x
    by (induction cs) auto
  then have "count (mset (concat (map (\<lambda>c. filter (P c) xs) cs))) x = count (mset xs) x" for x
    using assms(2) [of x] by (cases "x \<in> set xs") (auto simp: count_mset_0_iff)
  then have eq: "mset (concat (map (\<lambda>c. filter (P c) xs) cs)) = mset xs" by (rule multiset_eqI)
  have d: "distinct (map f xs)" "sorted (map f xs)" using assms(1) by (simp_all add: strict_sorted_iff)
  have "mset (map f (concat (map (\<lambda>c. filter (P c) xs) cs))) = mset (map f xs)" using eq by (metis mset_map)
  then have d': "distinct (map f (concat (map (\<lambda>c. filter (P c) xs) cs)))" using d(1) mset_eq_imp_distinct_iff by blast
  have sets: "set (concat (map (\<lambda>c. filter (P c) xs) cs)) = set xs" using eq by (metis mset_eq_setD)
  show ?thesis
    by (rule map_sorted_distinct_set_unique [of f])
      (use d d' sets in \<open>auto simp: distinct_map constant_key_strict [unfolded strict_sorted_iff, THEN iffD2]\<close>)
qed

section \<open>The parts of the graph are valid\<close>

lemma catalogued_get:
  "keyed cands \<Longrightarrow> catalogued ih cands \<Longrightarrow> bt_get cands k = Some c \<Longrightarrow> candidate_catalogued ih c"
  using keyed_mem [of cands k c] by (auto simp: catalogued_def list_all_iff)

lemma catalogued_value_valid:
  assumes "candidate_catalogued ih c" "fits v (cd_primitive c)"
    "vl_rust_type e = cd_rust_type c" "vl_type_authority e = cd_type_authority c"
    "vl_value_kind e = primitive_kind (cd_primitive c)" "vl_canonical_value e = canonical v"
  shows "valid_value e"
proof -
  have p: "parse_primitive (cd_rust_type c) = Some (cd_primitive c)" using assms(1) by (simp add: candidate_catalogued_def)
  have auth: "cd_type_authority c = FixedReprAttribute \<Longrightarrow> cd_primitive c \<noteq> PT_Bool"
    using assms(1) by (auto simp: candidate_catalogued_def split: option.splits)
  show ?thesis
  proof (cases "cd_primitive c = PT_Bool")
    case True
    with p have "cd_rust_type c = ''bool''" by (auto simp: parse_primitive_def split: if_splits)
    moreover have "canonical v \<in> {''true'', ''false''}" using assms(2) True by (cases v) auto
    ultimately show ?thesis
      using True auth assms(3-6) by (auto simp: valid_value_def split: type_authority.splits)
  next
    case False
    then have "primitive_kind (cd_primitive c) = Integer_kind" by (cases "cd_primitive c") auto
    then show ?thesis
      using False p canonical_in_range [OF p assms(2) False] assms(3-6)
      by (auto simp: valid_value_def parse_primitive_def split: type_authority.splits if_splits)
  qed
qed

lemma sorted_entities_valid:
  assumes "keyed cands" "catalogued ih cands" "report_ok cands evaluated"
    and e: "e \<in> set (sorted_entities b (ih_repository_identity ih) cands evaluated)"
  shows "entity_valid b ih e"
proof (rule entity_mem [OF assms(1,3) e])
  fix k w c assume kw: "bt_get evaluated k = Some w" "bt_get cands k = Some c"
    "e = entity_of b (ih_repository_identity ih) cands (k, w)" "vl_declared_value_id e = k"
    "vl_id e = evaluated_value_id b (ih_repository_identity ih) k" "vl_evidence_ids e = sort_dedup (cd_evidence_ids c)"
  have c: "candidate_catalogued ih c" "cd_declared_value_id c = k"
    using catalogued_get [OF assms(1,2) kw(2)] assms(1) kw(2) by (auto simp: keyed_def)
  have f: "vl_rust_type e = cd_rust_type c" "vl_type_authority e = cd_type_authority c"
    "vl_value_kind e = primitive_kind (cd_primitive c)" "vl_canonical_value e = canonical (el_value w)"
    using kw(2,3) by (auto simp: entity_of_def new_evaluated_value_def)
  have "fits (el_value w) (cd_primitive c)" using assms(3) kw(1,2) unfolding report_ok_def by (metis option.inject)
  then have "valid_value e" by (rule catalogued_value_valid [OF c(1) _ f])
  moreover have "sort_dedup (cd_evidence_ids c) \<noteq> []"
    using c(1) set_sort_dedup [of "cd_evidence_ids c"] by (auto simp: candidate_catalogued_def simp del: set_sort_dedup)
  ultimately show ?thesis
    using c f(2) kw(4-6)
    by (auto simp: entity_valid_def candidate_catalogued_def valid_type_authority_def list_all_iff
        split: option.splits type_authority.splits)
qed

lemma sorted_entities_distinct:
  assumes "keyed cands" "report_ok cands evaluated"
  shows "distinct (map vl_declared_value_id (sorted_entities b repo cands evaluated))"
proof -
  have "vl_declared_value_id (entity_of b repo cands kv) = fst kv" if "kv \<in> set evaluated" for kv
  proof -
    have "bt_get evaluated (fst kv) = Some (snd kv)" using that assms(2) by (simp add: report_ok_def bt_get_mem)
    then obtain c where "bt_get cands (fst kv) = Some c" using assms(2) unfolding report_ok_def by blast
    then show ?thesis using entity_of_simps(1) [OF assms(1), of "fst kv" c b repo "snd kv"] by simp
  qed
  then have "map vl_declared_value_id (map (entity_of b repo cands) evaluated) = map fst evaluated" by simp
  moreover have "distinct (map fst evaluated)" using assms(2) by (simp add: report_ok_def bt_wf_def strict_sorted_iff)
  ultimately have "distinct (map vl_declared_value_id (map (entity_of b repo cands) evaluated))" by (simp only:)
  moreover have "mset (map vl_declared_value_id (sorted_entities b repo cands evaluated)) =
      mset (map vl_declared_value_id (map (entity_of b repo cands) evaluated))"
    by (simp add: sorted_entities_def del: map_map)
  ultimately show ?thesis using mset_eq_imp_distinct_iff by blast
qed

lemma entity_present:
  assumes "report_ok cands evaluated" "bt_get evaluated k = Some w"
  shows "entity_of b repo cands (k, w) \<in> set (sorted_entities b repo cands evaluated)"
  using assms by (auto simp: sorted_entities_def report_ok_def bt_get_mem)

lemma relationship_of_simps:
  "sorted_wrt (<) (vl_evidence_ids e) \<Longrightarrow> rl_evidence_ids (relationship_of b e) = vl_evidence_ids e"
  "rl_source (relationship_of b e) = vl_declared_value_id e" "rl_target (relationship_of b e) = vl_id e"
  "rl_id (relationship_of b e) = evaluation_relationship_id b (vl_declared_value_id e) (vl_id e)"
  by (simp_all add: relationship_of_def new_relationship_def sort_dedup_id)

lemma entity_valid_sorted: "entity_valid b ih e \<Longrightarrow> sorted_wrt (<) (vl_evidence_ids e)"
  by (auto simp: entity_valid_def split: option.splits)

lemma relationships_valid:
  assumes valid: "\<forall>e \<in> set es. entity_valid b ih e" and ids: "distinct (map vl_id es)" and g: "gr_entities g = es"
    and e: "e \<in> set es"
  shows "relationship_valid b ih g (relationship_of b e)"
proof -
  have "bt_get (entity_by_id g) (vl_id e) = Some e" using collect_by [OF ids, of "vl_id e" e] e by (simp add: entity_by_id_def g)
  moreover have "entity_valid b ih e" using valid e by blast
  ultimately show ?thesis
    using e by (auto simp: relationship_valid_def relationship_of_simps entity_valid_def g split: option.splits)
qed

lemma claims_of_valid:
  assumes valid: "\<forall>e \<in> set es. entity_valid b ih e" and ids: "distinct (map vl_id es)" "distinct (map rl_id rs)"
    and g: "gr_entities g = es" "gr_relationships g = rs" "set rs = relationship_of b ` set es"
    and c: "e \<in> set es" "c \<in> set (claims_of b e)"
  shows "claim_valid b g c"
proof -
  have s: "sorted_wrt (<) (vl_evidence_ids e)" using valid c(1) entity_valid_sorted by blast
  have "bt_get (entity_by_id g) (vl_id e) = Some e" using collect_by [OF ids(1), of "vl_id e" e] c(1) by (simp add: entity_by_id_def g)
  moreover have "bt_get (relationship_by_id g) (rl_id (relationship_of b e)) = Some (relationship_of b e)"
    using collect_by [OF ids(2), of "rl_id (relationship_of b e)" "relationship_of b e"] c(1) g by (simp add: relationship_by_id_def)
  ultimately show ?thesis
    using c(2) s
    by (auto simp: claim_valid_def claims_of_def constant_evaluation_claim_def new_claim_def relationship_of_simps(1)
        stable_dedup_id strict_sorted_iff)
qed

lemma length_sort_dedup: "length (sort_dedup xs) \<le> length xs"
  unfolding sort_dedup_def by (metis length_sort remdups_adj_length)

lemma sort_dedup_cong: "set xs = set ys \<Longrightarrow> sort_dedup xs = sort_dedup ys"
  using sort_dedup_sorted [of xs] sort_dedup_sorted [of ys] by (intro sorted_distinct_set_unique) (auto simp: strict_sorted_iff)

lemma bt_collect_mem: "bt_get (bt_collect kvs) k = Some v \<Longrightarrow> (k, v) \<in> set kvs"
  unfolding bt_collect_def bt.get_collect by (auto dest: map_of_SomeD)

lemma inherited_claim_known:
  assumes "bt_get (inherited_claim_by_subject ih) s = Some c"
  shows "bt_get (inherited_claims ih) (wc_id c) \<noteq> None"
proof -
  from assms obtain i where "(i, c) \<in> set (inherited_claims ih)" by (auto simp: inherited_claim_by_subject_def dest!: bt_collect_mem)
  then have "bt_get (inherited_claims ih) i = Some c"
    unfolding inherited_claims_def by (simp add: bt_get_mem [OF bt_collect_wf])
  moreover from this have "i = wc_id c" by (auto simp: inherited_claims_def dest!: bt_collect_mem)
  ultimately show ?thesis by simp
qed


lemma derivation_of_simps:
  "dv_entity_id (derivation_of b cands evaluated m e) = vl_id e"
  "dv_relationship_id (derivation_of b cands evaluated m e) = rl_id (relationship_of b e)"
  by (simp_all add: derivation_of_def new_derivation_def Let_def)

lemma derivations_valid:
  assumes kcr: "keyed cands" "catalogued ih cands" "report_ok cands evaluated"
    and es: "es = sorted_entities b (ih_repository_identity ih) cands evaluated"
    and ids: "distinct (map vl_id es)" "distinct (map rl_id (gr_relationships g))"
    and g: "gr_entities g = es" "set (gr_relationships g) = relationship_of b ` set es"
      "set (gr_claims g) = (\<Union>e \<in> set es. set (claims_of b e))"
    and e: "e \<in> set es"
  shows "derivation_valid b ih g (derivation_of b cands evaluated (ids_by_declared b (ih_repository_identity ih) evaluated) e)"
    (is "derivation_valid b ih g ?d")
proof (rule entity_mem [OF kcr(1,3) e [unfolded es]])
  let ?id = "evaluated_value_id b (ih_repository_identity ih)"
  fix k w c assume kw: "bt_get evaluated k = Some w" "bt_get cands k = Some c" "vl_declared_value_id e = k"
    "vl_id e = ?id k" "vl_evidence_ids e = sort_dedup (cd_evidence_ids c)"
  have wf: "bt_wf evaluated" using kcr(3) by (simp add: report_ok_def)
  have w: "length (el_dependency_ids w) \<le> 256" "\<forall>d \<in> set (el_dependency_ids w). \<exists>x. bt_get evaluated d = Some x"
    using kcr(3) kw(1) unfolding report_ok_def by blast+
  define ds where "ds = map ?id (el_dependency_ids w)"
  have "map (\<lambda>d. the (bt_get (ids_by_declared b (ih_repository_identity ih) evaluated) d)) (el_dependency_ids w) = ds"
    using w(2) by (auto simp: ds_def ids_by_declared_get [OF wf])
  then have d: "?d = new_derivation (?id k) (rl_id (relationship_of b e))
      (cd_declared_value_claim_id c # map (\<lambda>d. workspace_claim_id b Entity_subject d DerivedFact) ds) (vl_evidence_ids e) ds"
    using kw by (simp add: derivation_of_def Let_def del: map_map)
  obtain claim where claim: "bt_get (inherited_claim_by_subject ih) k = Some claim" "wc_id claim = cd_declared_value_claim_id c"
    using catalogued_get [OF kcr(1,2) kw(2)] kcr(1) kw(2) by (auto simp: candidate_catalogued_def keyed_def)
  have deps: "\<exists>e' \<in> set es. vl_id e' = i" if "i \<in> set ds" for i
  proof -
    from that w(2) obtain x d where x: "i = ?id d" "bt_get evaluated d = Some x" by (auto simp: ds_def)
    then obtain c' where "bt_get cands d = Some c'" using kcr(3) unfolding report_ok_def by blast
    with x entity_present [OF kcr(3) x(2)] show ?thesis
      using entity_of_simps(2) [OF kcr(1)] unfolding es by metis
  qed
  have claims: "\<exists>c \<in> set (gr_claims g). wc_id c = workspace_claim_id b Entity_subject i DerivedFact" if "i \<in> set ds" for i
  proof -
    from deps [OF that] obtain e' where e': "e' \<in> set es" "vl_id e' = i" by blast
    then have "constant_evaluation_claim b Entity_subject i (vl_evidence_ids e') \<in> set (gr_claims g)"
      unfolding g(3) by (auto simp: claims_of_def)
    then show ?thesis by (force simp: constant_evaluation_claim_def new_claim_def)
  qed
  have sorted: "sorted_wrt (<) (vl_evidence_ids e)" using kw(5) by simp
  have "bt_get (entity_by_id g) (?id k) = Some e" using collect_by [OF ids(1), of "?id k" e] e kw(4) by (simp add: entity_by_id_def g)
  moreover have "bt_get (relationship_by_id g) (rl_id (relationship_of b e)) = Some (relationship_of b e)"
    using collect_by [OF ids(2), of "rl_id (relationship_of b e)" "relationship_of b e"] e g(2) by (simp add: relationship_by_id_def)
  moreover have "derivation_matches b ih g {} e (relationship_of b e) claim ?d"
  proof -
    have "sort_dedup (cd_declared_value_claim_id c # map (\<lambda>d. workspace_claim_id b Entity_subject d DerivedFact) ds) =
        sort_dedup (wc_id claim # map (\<lambda>d. workspace_claim_id b Entity_subject d DerivedFact) (sort_dedup ds))"
      by (rule sort_dedup_cong) (simp add: claim(2))
    moreover have "sort_dedup (a # as) \<noteq> []" for a :: string and as
      using set_sort_dedup [of "a # as"] by (metis list.set_intros(1) empty_iff empty_set)
    moreover note inherited_claim_known [OF claim(1)]
    ultimately show ?thesis
      using claims sorted kw(3,4)
      by (auto simp: derivation_matches_def d new_derivation_def relationship_of_simps sort_dedup_id list_all_iff list_ex_iff)
  qed
  moreover have "set (dv_dependency_entity_ids ?d) \<subseteq> vl_id ` set (gr_entities g)"
    using deps by (force simp: d new_derivation_def g(1))
  moreover have "length (dv_dependency_entity_ids ?d) \<le> 256"
    using w(1) length_sort_dedup [of ds] by (simp add: d new_derivation_def ds_def)
  ultimately show ?thesis
    using claim(1) kw(3,4) unfolding derivation_valid_def by (metis derivation_of_simps)
qed


lemma derivations_acyclic:
  assumes kr: "keyed cands" "report_ok cands evaluated" and es: "es = sorted_entities b repo cands evaluated"
    and ids: "distinct (map vl_id es)"
    and adj: "adj = fold (\<lambda>d. bt_put (dv_entity_id d) (dv_dependency_entity_ids d))
      (map (derivation_of b cands evaluated (ids_by_declared b repo evaluated)) es) []"
  shows "validate_acyclic adj = Ok ()"
proof -
  let ?id = "evaluated_value_id b repo"
  have wf: "bt_wf evaluated" using kr(2) by (simp add: report_ok_def)
  have adj': "adj = bt_collect (map (\<lambda>e. (vl_id e, dv_dependency_entity_ids
      (derivation_of b cands evaluated (ids_by_declared b repo evaluated) e))) es)"
    by (simp add: adj bt_collect_def fold_map comp_def derivation_of_simps)
  have edge: "\<exists>k w d x. i = ?id k \<and> j = ?id d \<and> bt_get evaluated k = Some w \<and> bt_get evaluated d = Some x \<and>
      el_dependency_levels x < el_dependency_levels w" if "(i, j) \<in> edges adj" for i j
  proof -
    from that obtain ds where "bt_get adj i = Some ds" "j \<in> set ds" by (cases "bt_get adj i") (auto simp: edges_def neighbours_def)
    then obtain e where e: "e \<in> set es" "vl_id e = i"
      "j \<in> set (dv_dependency_entity_ids (derivation_of b cands evaluated (ids_by_declared b repo evaluated) e))"
      unfolding adj' by (auto dest!: bt_collect_mem)
    show ?thesis
      using e(1) unfolding es
    proof (rule entity_mem [OF kr])
      fix k w assume kw: "bt_get evaluated k = Some w" "vl_declared_value_id e = k" "vl_id e = ?id k"
      then obtain d where d: "d \<in> set (el_dependency_ids w)" "j = the (bt_get (ids_by_declared b repo evaluated) d)"
        using e(3) by (auto simp: derivation_of_def new_derivation_def Let_def)
      then obtain x where "bt_get evaluated d = Some x" "el_dependency_levels x < el_dependency_levels w"
        using kr(2) kw(1) unfolding report_ok_def by blast
      with d kw e(2) show ?thesis by (fastforce simp: ids_by_declared_get [OF wf])
    qed
  qed
  have inj: "inj_on ?id (dom (bt_get evaluated))"
  proof (rule inj_onI)
    fix k k' assume k: "k \<in> dom (bt_get evaluated)" "k' \<in> dom (bt_get evaluated)" "?id k = ?id k'"
    then obtain w w' where "bt_get evaluated k = Some w" "bt_get evaluated k' = Some w'" by blast
    note e = this [THEN entity_present [OF kr(2), of _ _ b repo, folded es]]
    obtain c c' where "bt_get cands k = Some c" "bt_get cands k' = Some c'"
      using k(1,2) kr(2) unfolding report_ok_def by blast
    note v = this [THEN entity_of_simps(1) [OF kr(1)]] this [THEN entity_of_simps(2) [OF kr(1)]]
    from k(3) e v ids have "entity_of b repo cands (k, w) = entity_of b repo cands (k', w')"
      by (simp add: distinct_map inj_on_def)
    with v show "k = k'" by metis
  qed
  define rank where "rank i = (case bt_get evaluated (inv_into (dom (bt_get evaluated)) ?id i) of
      None \<Rightarrow> 0 | Some w \<Rightarrow> el_dependency_levels w)" for i
  have rank: "rank (?id k) = el_dependency_levels w" if "bt_get evaluated k = Some w" for k w
    using that inv_into_f_f [OF inj, of k] by (simp add: rank_def domI)
  show ?thesis
  proof (rule ranked_acyclic)
    show "rank j < rank i" if "(i, j) \<in> edges adj" for i j using edge [OF that] rank by metis
    show "rank k \<le> 64" for k
      using kr(2) unfolding rank_def report_ok_def by (auto split: option.splits)
  qed
qed

section \<open>Identifiers collide only with their hashes\<close>

lemma collision_of_ids:
  assumes len: "\<And>x. length (blake3 x) = 32" and f: "\<And>x. x \<in> set xs \<Longrightarrow> f x = stable_id blake3 prefix (components x)"
    and "\<not> distinct (map f xs)" "distinct (map components xs)"
  shows "\<exists>x y. collision blake3 x y"
proof -
  from assms(3,4) obtain x y where xy: "x \<in> set xs" "y \<in> set xs" "x \<noteq> y" "f x = f y" "components x \<noteq> components y"
    by (auto simp: distinct_map inj_on_def)
  then show ?thesis using f stable_id_eq_iff [of blake3 prefix "components x" "components y", OF len] by metis
qed

definition claim_components :: "workspace_claim \<Rightarrow> string list" where
  "claim_components c =
     [''codenoesis.claim-id/v2'', subject_kind_str (wc_subject_kind c), wc_subject_id c, claim_state_str (wc_state c)]"

lemma claims_distinct:
  "distinct (map vl_id es) \<Longrightarrow> distinct (map rl_id (map (relationship_of b) es)) \<Longrightarrow>
   distinct (map claim_components (concat (map (claims_of b) es)))"
  by (induction es) (auto simp: claims_of_def claim_components_def constant_evaluation_claim_def new_claim_def)

lemma identifiers_collide:
  assumes len: "\<And>x. length (b x) = 32" and kr: "keyed cands" "report_ok cands evaluated"
    and es: "es = sorted_entities b repo cands evaluated"
    and "\<not> (distinct (map vl_id es) \<and> distinct (map rl_id (map (relationship_of b) es)) \<and>
      distinct (map wc_id (concat (map (claims_of b) es))))"
  shows "\<exists>x y. collision b x y"
proof -
  note d = sorted_entities_distinct [OF kr, of b repo, folded es]
  show ?thesis
  proof (cases "distinct (map vl_id es)")
    case False
    let ?c = "\<lambda>e. [''codenoesis.entity-id/rust-safe-constant-evaluation/v1'', ''evaluated_value'', repo, vl_declared_value_id e]"
    have "vl_id e = stable_id b ''urn:codenoesis:entity:blake3:'' (?c e)" if "e \<in> set es" for e
      using that unfolding es by (rule entity_mem [OF kr]) (simp add: evaluated_value_id_def)
    moreover have "distinct (map ?c es)" using d by (simp add: distinct_map inj_on_def)
    ultimately show ?thesis by (rule collision_of_ids [OF len _ False])
  next
    case vl: True
    show ?thesis
    proof (cases "distinct (map rl_id (map (relationship_of b) es))")
      case False
      let ?c = "\<lambda>r. [''codenoesis.relationship-id/rust-safe-constant-evaluation/v1'', ''EVALUATES_TO'', rl_source r, rl_target r]"
      have "rl_id r = stable_id b ''urn:codenoesis:relationship:blake3:'' (?c r)" if "r \<in> set (map (relationship_of b) es)" for r
        using that by (auto simp: relationship_of_simps evaluation_relationship_id_def)
      moreover have "distinct (map ?c (map (relationship_of b) es))"
        using d by (simp add: distinct_map inj_on_def relationship_of_simps comp_def)
      ultimately show ?thesis by (rule collision_of_ids [OF len _ False])
    next
      case rl: True
      then have claims: "\<not> distinct (map wc_id (concat (map (claims_of b) es)))" using assms(5) vl by blast
      have "wc_id c = stable_id b ''urn:codenoesis:claim:blake3:'' (claim_components c)"
        if "c \<in> set (concat (map (claims_of b) es))" for c
        using that
        by (auto simp: claims_of_def claim_components_def constant_evaluation_claim_def new_claim_def workspace_claim_id_def)
      then show ?thesis by (rule collision_of_ids [OF len _ claims claims_distinct [OF vl rl]])
    qed
  qed
qed

section \<open>The overlays of the graph\<close>

lemma evidence_in_source_cong: "set xs = set ys \<Longrightarrow> evidence_in_source catalog path xs = evidence_in_source catalog path ys"
  by (simp add: evidence_in_source_def list_ex_iff)

lemma sourced_cong: "set xs = set ys \<Longrightarrow> sourced contexts catalog xs = sourced contexts catalog ys"
  by (simp add: sourced_def evidence_in_source_def list_ex_iff)

lemma source_overlays_eq:
  "source_overlays contexts g catalog = map (source_overlay_of catalog g) (sort_key cx_source_file_id contexts)"
proof -
  have "(\<lambda>cx. so_source_file_id (source_overlay_of catalog g cx)) = cx_source_file_id"
    by (simp add: fun_eq_iff source_overlay_of_def Let_def)
  then show ?thesis by (simp only: source_overlays_def sort_key_map)
qed

text \<open>The part of a list of records that lies in one source, by the evidence of each record.\<close>

lemma overlay_parts:
  fixes f :: "'a \<Rightarrow> 'b :: linorder"
  assumes "sorted_wrt (<) (map f xs)" "\<And>x. x \<in> set xs \<Longrightarrow> sourced contexts catalog (ids x)"
    "\<And>x cx. x \<in> set xs \<Longrightarrow> P cx x \<longleftrightarrow> evidence_in_source catalog (cx_path cx) (ids x)"
  shows "sort_key f (concat (map (\<lambda>cx. filter (P cx) xs) (sort_key cx_source_file_id contexts))) = xs"
proof (rule union_of_parts [OF assms(1)])
  fix x assume x: "x \<in> set xs"
  have "length (filter (\<lambda>cx. P cx x) (sort_key cx_source_file_id contexts)) = length (filter (\<lambda>cx. P cx x) contexts)"
    by (simp add: filter_sort)
  then show "length (filter (\<lambda>cx. P cx x) (sort_key cx_source_file_id contexts)) = 1"
    using assms(2) [OF x] assms(3) [OF x] by (simp add: sourced_def)
qed

lemma overlays_ordered_Ok: "list_all (\<lambda>so. overlay_ordered so = Ok ()) sos \<Longrightarrow> overlays_ordered sos = Ok ()"
  by (induction sos) auto

lemma ordered_filter: "sorted_wrt (<) (map f xs) \<Longrightarrow> sorted_wrt (<) (map f (filter P xs))" for f :: "'a \<Rightarrow> 'b :: linorder"
  by (simp add: sorted_wrt_map sorted_wrt_filter)

lemma removed_parts:
  fixes idf :: "'a \<Rightarrow> string"
  assumes "sorted_wrt (<) is" "distinct (map idf rs)" "set is \<subseteq> idf ` set rs" "\<forall>r \<in> set rs. sourced contexts catalog (evf r)"
  shows "sort (concat (map (\<lambda>cx. filter (\<lambda>i. list_ex (\<lambda>r. idf r = i \<and> evidence_in_source catalog (cx_path cx) (evf r)) rs) is)
    (sort_key cx_source_file_id contexts))) = is"
proof (rule overlay_parts [where f = "\<lambda>x. x" and ids = "\<lambda>i. evf (the_inv_into (set rs) idf i)"])
  have inj: "inj_on idf (set rs)" using assms(2) by (simp add: distinct_map)
  fix i assume "i \<in> set is"
  then obtain r where r: "r \<in> set rs" "i = idf r" using assms(3) by blast
  then have inv: "the_inv_into (set rs) idf i = r" using the_inv_into_f_f [OF inj] by simp
  with r assms(4) show "sourced contexts catalog (evf (the_inv_into (set rs) idf i))" by simp
  show "list_ex (\<lambda>r. idf r = i \<and> evidence_in_source catalog (cx_path cx) (evf r)) rs \<longleftrightarrow>
      evidence_in_source catalog (cx_path cx) (evf (the_inv_into (set rs) idf i))" for cx
    using r inj unfolding inv by (auto simp: list_ex_iff inj_on_def)
qed (use assms(1) in simp)

definition graph_ordered :: "evaluation_graph \<Rightarrow> bool" where
  "graph_ordered g \<longleftrightarrow>
     sorted_wrt (<) (map vl_id (gr_entities g)) \<and> sorted_wrt (<) (map rl_id (gr_relationships g)) \<and>
     sorted_wrt (<) (map wc_id (gr_claims g)) \<and> sorted_wrt (<) (map cg_id (gr_coverage g)) \<and>
     sorted_wrt (<) (gr_removed_coverage_ids g) \<and> sorted_wrt (<) (gr_removed_diagnostic_ids g)"

definition graph_sourced :: "source_context list \<Rightarrow> extraction_catalog \<Rightarrow> evaluation_graph \<Rightarrow> bool" where
  "graph_sourced contexts catalog g \<longleftrightarrow>
     (\<forall>v \<in> set (gr_entities g). sourced contexts catalog (vl_evidence_ids v)) \<and>
     (\<forall>v \<in> set (gr_relationships g). sourced contexts catalog (rl_evidence_ids v)) \<and>
     (\<forall>v \<in> set (gr_claims g). sourced contexts catalog (wc_evidence_ids v)) \<and>
     (\<forall>v \<in> set (gr_coverage g). sourced contexts catalog (cg_evidence_ids v)) \<and>
     set (gr_removed_coverage_ids g) \<subseteq> sg_id ` set (ct_semantic_coverage catalog) \<and>
     set (gr_removed_diagnostic_ids g) \<subseteq> sd_id ` set (ct_semantic_diagnostics catalog)"

lemma validate_order_iff: "validate_order g = (if graph_ordered g then Ok () else Err CE_IdentityConflict)"
  by (simp add: validate_order_def require_ordered_def graph_ordered_def fail_if_def)

lemma overlays_valid:
  assumes inputs: "inputs_sourced contexts catalog cands evidence us" and ord: "graph_ordered g"
    and src: "graph_sourced contexts catalog g"
  shows "validate_overlay_union (source_overlays contexts g catalog) g = Ok ()"
proof -
  let ?cs = "sort_key cx_source_file_id contexts"
  have ctx: "sorted_wrt (<) (map cx_source_file_id ?cs)" using inputs by (simp add: inputs_sourced_def constant_key_strict)
  have "list_all (\<lambda>so. overlay_ordered so = Ok ()) (source_overlays contexts g catalog)"
    using ord ordered_filter [where f = "\<lambda>x :: string. x"]
    by (auto simp: source_overlays_eq list_all_iff overlay_ordered_def require_ordered_def source_overlay_of_def Let_def
        graph_ordered_def ordered_filter)
  note ordered = overlays_ordered_Ok [OF this]
  have "sort_key vl_id (concat (map so_entities (source_overlays contexts g catalog))) = gr_entities g"
    using ord src overlay_parts [of vl_id "gr_entities g" contexts catalog vl_evidence_ids]
    by (simp add: source_overlays_eq comp_def source_overlay_of_def Let_def graph_ordered_def graph_sourced_def)
  moreover have "sort_key rl_id (concat (map so_relationships (source_overlays contexts g catalog))) = gr_relationships g"
    using ord src overlay_parts [of rl_id "gr_relationships g" contexts catalog rl_evidence_ids]
    by (simp add: source_overlays_eq comp_def source_overlay_of_def Let_def graph_ordered_def graph_sourced_def)
  moreover have "sort_key wc_id (concat (map so_claims (source_overlays contexts g catalog))) = gr_claims g"
    using ord src overlay_parts [of wc_id "gr_claims g" contexts catalog wc_evidence_ids]
    by (simp add: source_overlays_eq comp_def source_overlay_of_def Let_def graph_ordered_def graph_sourced_def)
  moreover have "sort_key cg_id (concat (map so_coverage (source_overlays contexts g catalog))) = gr_coverage g"
    using ord src overlay_parts [of cg_id "gr_coverage g" contexts catalog cg_evidence_ids]
    by (simp add: source_overlays_eq comp_def source_overlay_of_def Let_def graph_ordered_def graph_sourced_def)
  moreover have "sort (concat (map so_removed_coverage_ids (source_overlays contexts g catalog))) = gr_removed_coverage_ids g"
    using ord src inputs
      removed_parts [of "gr_removed_coverage_ids g" sg_id "ct_semantic_coverage catalog" contexts catalog sg_evidence_ids]
    by (simp add: source_overlays_eq comp_def source_overlay_of_def Let_def graph_ordered_def graph_sourced_def
        inputs_sourced_def list_all_iff)
  moreover have "sort (concat (map so_removed_diagnostic_ids (source_overlays contexts g catalog))) = gr_removed_diagnostic_ids g"
    using ord src inputs
      removed_parts [of "gr_removed_diagnostic_ids g" sd_id "ct_semantic_diagnostics catalog" contexts catalog sd_evidence_ids]
    by (simp add: source_overlays_eq comp_def source_overlay_of_def Let_def graph_ordered_def graph_sourced_def
        inputs_sourced_def list_all_iff)
  moreover have "require_ordered (map so_source_file_id (source_overlays contexts g catalog)) = Ok ()"
    using ctx by (simp add: require_ordered_def source_overlays_eq comp_def source_overlay_of_def Let_def)
  ultimately show ?thesis by (simp add: validate_overlay_union_def ordered)
qed


section \<open>The whole extraction\<close>

lemma graph_of_ordered:
  assumes "distinct (map sd_id (ct_semantic_diagnostics catalog))" "es = sorted_entities b repo cands evaluated"
  shows "graph_ordered (graph_of b repo cands evaluated us catalog enums evidence) \<longleftrightarrow>
    distinct (map vl_id es) \<and> distinct (map rl_id (map (relationship_of b) es)) \<and>
    distinct (map wc_id (concat (map (claims_of b) es)))"
proof -
  have "sorted (map vl_id es)" by (simp add: assms(2) sorted_entities_def)
  moreover have "sorted_wrt (<) (removed_diagnostics repr (ct_semantic_diagnostics catalog))" for repr
    using assms(1) by (simp add: removed_diagnostics_def strict_sorted_iff distinct_map_filter)
  ultimately show ?thesis
    by (simp add: graph_ordered_def graph_of_def Let_def coverage_sorted removed_coverage_def
        constant_key_strict strict_sorted_iff [of "map vl_id _"] flip: assms(2))
qed

lemma claims_of_evidence:
  "c \<in> set (claims_of b e) \<Longrightarrow> sorted_wrt (<) (vl_evidence_ids e) \<Longrightarrow> wc_evidence_ids c = vl_evidence_ids e"
  by (auto simp: claims_of_def constant_evaluation_claim_def new_claim_def relationship_of_simps(1) stable_dedup_id strict_sorted_iff)

lemma graph_of_sourced:
  assumes kr: "keyed cands" "report_ok cands evaluated" and inputs: "inputs_sourced contexts catalog cands evidence us"
    and gaps: "\<forall>u \<in> set gaps. sourced contexts catalog (us_evidence_ids u)"
  shows "graph_sourced contexts catalog (graph_of b repo cands evaluated gaps catalog enums evidence)"
proof -
  let ?es = "sorted_entities b repo cands evaluated"
  have e: "sorted_wrt (<) (vl_evidence_ids e)" "sourced contexts catalog (vl_evidence_ids e)" if "e \<in> set ?es" for e
  proof (rule_tac [!] entity_mem [OF kr that])
    fix k w c assume kw: "bt_get cands k = Some c" "vl_evidence_ids e = sort_dedup (cd_evidence_ids c)"
    then show "sorted_wrt (<) (vl_evidence_ids e)" by simp
    have "sourced contexts catalog (cd_evidence_ids c)"
      using inputs kw(1) keyed_mem [OF kr(1), of k c] by (auto simp: inputs_sourced_def list_all_iff)
    then show "sourced contexts catalog (vl_evidence_ids e)"
      using kw(2) sourced_cong [of "sort_dedup (cd_evidence_ids c)" "cd_evidence_ids c"] by simp
  qed
  have "sourced contexts catalog (cg_evidence_ids v)" if v: "v \<in> set (coverage_of b gaps)" for v
  proof -
    from v obtain u where u: "u \<in> set gaps" "cg_evidence_ids v = sort_dedup (us_evidence_ids u)"
      using dedup_by_subset unfolding coverage_of_def by (fastforce simp: not_evaluated_def Let_def)
    then show ?thesis using gaps sourced_cong [of "sort_dedup (us_evidence_ids u)" "us_evidence_ids u"] by simp
  qed
  then show ?thesis
    using e claims_of_evidence
    by (auto simp: graph_sourced_def graph_of_def Let_def relationship_of_simps(1) removed_coverage_def removed_diagnostics_def)
qed

lemma bt_get_in: "bt_get m k = Some v \<Longrightarrow> (k, v) \<in> set m"
  by (induction m) (auto split: if_splits)

lemma report_gaps_sourced:
  assumes "evaluation_report cands evidence us = Ok (evaluated, gaps, enums)" "inputs_sourced contexts catalog cands evidence us"
    "u \<in> set gaps"
  shows "sourced contexts catalog (us_evidence_ids u)"
proof (rule evaluation_report_Ok [OF assms(1)])
  fix ev assume "gaps = order_unsupported (us @ concat (map (enum_gap evidence) (bt_keys (failed_enums cands (ev_evaluated ev)))) @
      unsupported_constants cands (ev_states ev) evaluated)"
  then consider "u \<in> set us" | e where "u \<in> set (enum_gap evidence e)" | "u \<in> set (unsupported_constants cands (ev_states ev) evaluated)"
    using assms(3) order_unsupported_subset by fastforce
  then show ?thesis
  proof cases
    case 2
    then obtain f ids where "bt_get evidence e = Some (f, ids)" "us_evidence_ids u = ids"
      by (cases "bt_get evidence e") (auto simp: enum_gap_def)
    then show ?thesis using assms(2) bt_get_in by (fastforce simp: inputs_sourced_def list_all_iff)
  qed (use assms(2) in \<open>auto simp: inputs_sourced_def list_all_iff unsupported_constants_def\<close>)
qed

definition limit_error :: "constant_evaluation_error \<Rightarrow> bool" where
  "limit_error e \<longleftrightarrow> (\<exists>l m n. e = CE_LimitExceeded l m n)"

lemma graph_validates:
  assumes kcr: "keyed cands" "catalogued ih cands" "report_ok cands evaluated"
    and inputs: "inputs_sourced contexts catalog cands evidence us"
    and gaps: "\<forall>u \<in> set gaps. sourced contexts catalog (us_evidence_ids u)"
    and g: "g = graph_of b (ih_repository_identity ih) cands evaluated gaps catalog enums evidence"
    and ord: "graph_ordered g"
  shows "case validate_knowledge b ih (source_overlays contexts g catalog) g of Ok _ \<Rightarrow> True | Err e \<Rightarrow> limit_error e | Panic \<Rightarrow> False"
proof -
  define es where "es = sorted_entities b (ih_repository_identity ih) cands evaluated"
  define ds where "ds = map (derivation_of b cands evaluated (ids_by_declared b (ih_repository_identity ih) evaluated)) es"
  have diag: "distinct (map sd_id (ct_semantic_diagnostics catalog))" using inputs by (simp add: inputs_sourced_def)
  note ids = graph_of_ordered [OF diag es_def, of gaps enums evidence, folded g, THEN iffD1, OF ord]
  have rl: "distinct (map (\<lambda>e. rl_id (relationship_of b e)) es)" using ids by (simp add: comp_def)
  have parts: "gr_entities g = es" "gr_relationships g = sort_key rl_id (map (relationship_of b) es)"
    "gr_claims g = sort_key wc_id (concat (map (claims_of b) es))"
    by (simp_all add: g graph_of_def Let_def es_def)
  have sorted_ds: "sorted_wrt (<) (map dv_entity_id ds)"
    using ord parts(1) by (simp add: ds_def comp_def derivation_of_simps graph_ordered_def)
  have index: "gr_index g = \<lparr>ix_evaluated_entity_ids = map vl_id es, ix_evaluation_relationship_ids = map rl_id (gr_relationships g),
      ix_derivations = ds\<rparr>"
    using sort_key_id [OF sorted_ds] by (simp add: g graph_of_def Let_def index_from_graph_def ds_def es_def)
  have valid: "\<forall>e \<in> set es. entity_valid b ih e" using sorted_entities_valid [OF kcr] by (simp add: es_def)
  have rels: "set (gr_relationships g) = relationship_of b ` set es" "distinct (map rl_id (gr_relationships g))"
    using ids ord by (auto simp: parts(2) graph_ordered_def strict_sorted_iff)
  have claims: "set (gr_claims g) = (\<Union>e \<in> set es. set (claims_of b e))" by (simp add: parts(3))
  have "validate_entities b ih {} es = Ok ()"
    using valid sorted_entities_distinct [OF kcr(1,3)] by (intro validate_entities_Ok) (auto simp: list_all_iff es_def)
  moreover have "validate_relationships b ih g {} (gr_relationships g) = Ok ()"
  proof (rule validate_relationships_Ok)
    have "mset (map rl_target (gr_relationships g)) = mset (map vl_id es)"
      by (simp add: parts(2) relationship_of_simps comp_def multiset.map_comp)
    then show "distinct (map rl_target (gr_relationships g))" using ids mset_eq_imp_distinct_iff by blast
    show "list_all (relationship_valid b ih g) (gr_relationships g)"
      using relationships_valid [OF valid _ parts(1)] ids by (auto simp: list_all_iff rels(1))
  qed simp
  moreover have "length (gr_claims g) = length (claim_subjects g)"
  proof -
    have "length (concat (map (claims_of b) es)) = 2 * length es" by (induction es) (auto simp: claims_of_def)
    moreover have "distinct (map (Pair Entity_subject) (map vl_id es) @ map (Pair Relationship_subject) (map rl_id (gr_relationships g)))"
      using ids rels(2) by (auto simp: distinct_map inj_on_def)
    ultimately show ?thesis by (simp add: claim_subjects_def parts distinct_remdups_id del: map_map)
  qed
  moreover have "\<not> list_ex (\<lambda>c. \<not> claim_valid b g c) (gr_claims g)"
    using claims_of_valid [OF valid _ rels(2) parts(1) refl rels(1)] ids by (auto simp: list_ex_iff claims)
  moreover obtain st where st: "validate_derivations b ih g ds initial_derivation_state = Ok st"
    "ds_adjacency st = fold (\<lambda>d. bt_put (dv_entity_id d) (dv_dependency_entity_ids d)) ds []"
  proof -
    have "\<exists>st. validate_derivations b ih g ds initial_derivation_state = Ok st \<and>
        ds_adjacency st = fold (\<lambda>d. bt_put (dv_entity_id d) (dv_dependency_entity_ids d)) ds (ds_adjacency initial_derivation_state)"
    proof (rule validate_derivations_Ok)
      show "list_all (derivation_valid b ih g) ds"
        using derivations_valid [OF kcr es_def _ rels(2) parts(1) rels(1) claims] ids by (simp add: list_all_iff ds_def)
      show "distinct (map dv_relationship_id ds)" using rl by (simp add: ds_def comp_def derivation_of_simps)
    qed (use sorted_ds in \<open>auto simp: initial_derivation_state_def\<close>)
    then show ?thesis using that by (auto simp: initial_derivation_state_def)
  qed
  moreover have "validate_acyclic (ds_adjacency st) = Ok ()"
    using derivations_acyclic [OF kcr(1,3) es_def _ st(2) [unfolded ds_def]] ids by blast
  moreover have "validate_overlay_union (source_overlays contexts g catalog) g = Ok ()"
    using overlays_valid [OF inputs ord] graph_of_sourced [OF kcr(1,3) inputs gaps] g by simp
  moreover have "index_from_graph es (gr_relationships g) ds = gr_index g"
    using sort_key_id [OF sorted_ds] by (simp add: index index_from_graph_def)
  ultimately show ?thesis
    using ord by (simp add: validate_knowledge_def validate_order_iff parts(1) index enforce_constant_limit_def fail_if_def
        limit_error_def ds_def parts(2))
qed


lemma extraction_sound:
  assumes kc: "keyed cands" "enums_closed cands" "catalogued ih cands" and inputs: "inputs_sourced contexts catalog cands evidence us"
    and len: "\<And>x. length (b x) = 32"
  shows "case extract_constants b ih contexts catalog cands evidence us True of
      Ok (overlays, g) \<Rightarrow> list_all (\<lambda>e. \<exists>v. derives cands (vl_declared_value_id e) v \<and> vl_canonical_value e = canonical v) (gr_entities g)
    | Err e \<Rightarrow> limit_error e \<or> e = CE_IdentityConflict \<and> (\<exists>x y. collision b x y)
    | Panic \<Rightarrow> False"
proof (cases "evaluation_report cands evidence us")
  case (Ok r)
  obtain evaluated gaps enums where "r = (evaluated, gaps, enums)" by (cases r)
  with Ok have run: "evaluation_report cands evidence us = Ok (evaluated, gaps, enums)" by simp
  note rep = report_is_ok [OF kc(1,2) run]
  define g where "g = graph_of b (ih_repository_identity ih) cands evaluated gaps catalog enums evidence"
  have run_g: "extract_constants b ih contexts catalog cands evidence us True =
      and_then (validate_knowledge b ih (source_overlays contexts g catalog) g) (\<lambda>_. Ok (source_overlays contexts g catalog, g))"
    by (simp add: extract_constants_def run build_graph_eq [OF kc(1) rep] g_def Let_def)
  have gaps: "\<forall>u \<in> set gaps. sourced contexts catalog (us_evidence_ids u)" using report_gaps_sourced [OF run inputs] by blast
  have evaluated: "\<exists>v. derives cands (vl_declared_value_id e) v \<and> vl_canonical_value e = canonical v" if e: "e \<in> set (gr_entities g)" for e
  proof (rule entity_mem [OF kc(1) rep, of e b "ih_repository_identity ih"])
    show "e \<in> set (sorted_entities b (ih_repository_identity ih) cands evaluated)" using e by (simp add: g_def graph_of_def Let_def)
    fix k w assume kw: "bt_get evaluated k = Some w" "e = entity_of b (ih_repository_identity ih) cands (k, w)" "vl_declared_value_id e = k"
    then have "derives cands k (el_value w)" using rep unfolding report_ok_def by blast
    with kw show ?thesis by (auto simp: entity_of_def new_evaluated_value_def Let_def)
  qed
  show ?thesis
  proof (cases "graph_ordered g")
    case True
    then show ?thesis
      using graph_validates [OF kc(1,3) rep inputs gaps g_def] evaluated unfolding run_g by (auto simp: list_all_iff split: result.splits)
  next
    case False
    have "distinct (map sd_id (ct_semantic_diagnostics catalog))" using inputs by (simp add: inputs_sourced_def)
    note ord = graph_of_ordered [OF this refl, of b "ih_repository_identity ih" cands evaluated gaps enums evidence, folded g_def]
    have "\<exists>x y. collision b x y"
      using False unfolding ord by (rule identifiers_collide [OF len kc(1) rep refl])
    with False show ?thesis unfolding run_g by (simp add: validate_knowledge_def validate_order_iff)
  qed
next
  case (Err e)
  then have "evaluate_all cands = Err e" by (auto simp: evaluation_report_def Let_def result_iffs split: prod.splits)
  then show ?thesis using evaluate_all_limit [OF kc(1)] Err by (auto simp: extract_constants_def limit_error_def)
next
  case Panic
  then have "evaluate_all cands = Panic" by (auto simp: evaluation_report_def Let_def result_iffs split: prod.splits)
  then show ?thesis using evaluate_all_limit [OF kc(1)] by auto
qed

section \<open>A sample\<close>

text \<open>\<open>const A: i32 = 2;\<close> in one file.\<close>

definition constant_sample :: candidates where
  "constant_sample = [(''a'', (sample_candidate ''a'' ''A'' [T_Integer ''2''])\<lparr>cd_evidence_ids := [''e'']\<rparr>)]"

definition evidence_sample :: workspace_evidence where
  "evidence_sample = \<lparr>we_id = ''e'', we_path = ''src/lib.rs'', we_blob_oid = ''blob'', we_start_byte = 0, we_end_byte = 17\<rparr>"

definition inherited_sample :: inherited where
  "inherited_sample =
     \<lparr>ih_repository_identity = ''repo'',
      ih_callable_entities = [\<lparr>ce_id = ''a'', ce_kind = DeclaredValue, ce_subject_id = ''s''\<rparr>],
      ih_semantic_entities = [\<lparr>se_id = ''s'', se_kind = Constant\<rparr>],
      ih_claims = [\<lparr>wc_id = ''claim'', wc_subject_kind = Entity_subject, wc_subject_id = ''a'', wc_state = DeterministicFact,
        wc_evidence_ids = [''e'']\<rparr>],
      ih_evidence = [evidence_sample]\<rparr>"

definition catalog_sample :: extraction_catalog where
  "catalog_sample = \<lparr>ct_evidence = [(''e'', evidence_sample)], ct_semantic_coverage = [], ct_semantic_diagnostics = []\<rparr>"

definition contexts_sample :: "source_context list" where
  "contexts_sample = [\<lparr>cx_source_file_id = ''file'', cx_path = ''src/lib.rs''\<rparr>]"

definition hash_sample :: hash where
  "hash_sample x = replicate 31 0 @ [foldr (\<lambda>b n. 3 * n + b) x 0]"

lemma sample_inputs:
  "keyed constant_sample" "enums_closed constant_sample" "catalogued inherited_sample constant_sample"
  "inputs_sourced contexts_sample catalog_sample constant_sample [] []" "length (hash_sample x) = 32"
proof -
  show "keyed constant_sample" "enums_closed constant_sample"
    by (auto simp: constant_sample_def keyed_def bt_wf_def enums_closed_def sample_candidate_def split: if_splits)
  show "catalogued inherited_sample constant_sample" by code_simp
  show "inputs_sourced contexts_sample catalog_sample constant_sample [] []" by code_simp
  show "length (hash_sample x) = 32" by (simp add: hash_sample_def)
qed

section \<open>Properties\<close>



end
