(* ===== verification/Knowledge_Model.thy ===== *)
theory Knowledge_Model
  imports Stable_Ids "HOL-Library.Product_Lexorder"
begin

text \<open>
  The knowledge model (\<open>codenoesis-domain/src/knowledge.rs\<close>): entities, relationships, claims and their
  derivations, evidence, diagnostics and coverage, the claim-state machine, and the validation of
  extraction chunks and of the knowledge graph before it is published. The names of the graph carry the
  prefix \<open>k\<close> or \<open>knowledge\<close> where another model of the repository has the same ones.
\<close>

section \<open>Claim states\<close>

definition validate_claim_transition :: "claim_state \<Rightarrow> claim_state \<Rightarrow> (unit, claim_state \<times> claim_state) result" where
  "validate_claim_transition source target =
     (let allowed =
        (source \<in> {DeterministicFact, DerivedFact, Confirmed, Rejected} \<and> target = Superseded \<or>
         source = Candidate_state \<and> target \<in> {ReviewedInference, Confirmed, Rejected, Superseded} \<or>
         source = ReviewedInference \<and> target \<in> {Confirmed, Rejected, Superseded})
      in if allowed then Ok () else Err (source, target))"

section \<open>Records\<close>

datatype byte_span = ByteSpan (bsp_start: nat) (bsp_end: nat)

text \<open>Spans are ordered by their start, then by their end.\<close>

instantiation byte_span :: linorder
begin

definition less_eq_byte_span :: "byte_span \<Rightarrow> byte_span \<Rightarrow> bool" where
  "s \<le> t \<longleftrightarrow> (bsp_start s, bsp_end s) \<le> (bsp_start t, bsp_end t)"

definition less_byte_span :: "byte_span \<Rightarrow> byte_span \<Rightarrow> bool" where
  "s < t \<longleftrightarrow> (bsp_start s, bsp_end s) < (bsp_start t, bsp_end t)"

instance
  by standard (auto simp: less_eq_byte_span_def less_byte_span_def byte_span.expand)

end

definition is_valid_for :: "byte_span \<Rightarrow> nat \<Rightarrow> bool" where
  "is_valid_for s byte_length \<longleftrightarrow> bsp_start s < bsp_end s \<and> bsp_end s \<le> byte_length"

definition intersects :: "byte_span \<Rightarrow> byte_span \<Rightarrow> bool" where
  "intersects s t \<longleftrightarrow> bsp_start s < bsp_end t \<and> bsp_start t < bsp_end s"

fun entity_kind_str :: "entity_kind \<Rightarrow> string" where
  "entity_kind_str RustCrate = ''rust.crate''"
| "entity_kind_str SourceFile = ''source.file''"
| "entity_kind_str RustModule = ''rust.module''"
| "entity_kind_str RustStruct = ''rust.struct''"
| "entity_kind_str RustEnum = ''rust.enum''"
| "entity_kind_str RustTrait = ''rust.trait''"
| "entity_kind_str RustTypeAlias = ''rust.type_alias''"
| "entity_kind_str RustFunction = ''rust.function''"
| "entity_kind_str RustMethod = ''rust.method''"
| "entity_kind_str RustSymbolReference = ''rust.symbol_reference''"

record knowledge_entity =
  ke_entity_id :: string
  ke_kind :: entity_kind
  ke_canonical_identity :: string
  ke_display_name :: string
  ke_properties :: "(string, string) btree"
  ke_evidence_ids :: "string list"
  ke_claim_id :: string

record knowledge_relationship =
  kr_relationship_id :: string
  kr_kind :: relationship_kind
  kr_source_entity_id :: string
  kr_target_entity_id :: string
  kr_evidence_ids :: "string list"
  kr_claim_id :: string

datatype claim_derivation =
    Parser_derivation string "string list"
  | DeterministicRule string "string list" "string list"

fun derivation_evidence_ids :: "claim_derivation \<Rightarrow> string list" where
  "derivation_evidence_ids (Parser_derivation extractor_version evidence_ids) = evidence_ids"
| "derivation_evidence_ids (DeterministicRule rule_version input_claim_ids evidence_ids) = evidence_ids"

record knowledge_claim =
  kc_claim_id :: string
  kc_subject_kind :: claim_subject_kind
  kc_subject_id :: string
  kc_state :: claim_state
  kc_derivation :: claim_derivation

record source_evidence =
  sev_evidence_id :: string
  sev_repository_identity :: string
  sev_commit_oid :: string
  sev_blob_oid :: string
  sev_path :: string
  sev_span :: byte_span
  sev_syntax_kind :: string

record extraction_diagnostic =
  ed_code :: string
  ed_severity :: string
  ed_path :: string
  ed_span :: byte_span

record knowledge_gap =
  kg_code :: string
  kg_path :: string
  kg_span :: byte_span
  kg_evidence_id :: string

record extraction_coverage =
  ec_supported_capabilities :: "string list"
  ec_gaps :: "knowledge_gap list"

record extraction_chunk =
  ch_chunk_id :: string
  ch_repository_identity :: string
  ch_commit_oid :: string
  ch_blob_oid :: string
  ch_path :: string
  ch_byte_length :: nat
  ch_entities :: "knowledge_entity list"
  ch_relationships :: "knowledge_relationship list"
  ch_claims :: "knowledge_claim list"
  ch_evidence :: "source_evidence list"
  ch_diagnostics :: "extraction_diagnostic list"
  ch_coverage :: extraction_coverage

record knowledge_graph =
  kn_repository_identity :: string
  kn_commit_oid :: string
  kn_entities :: "knowledge_entity list"
  kn_relationships :: "knowledge_relationship list"
  kn_claims :: "knowledge_claim list"
  kn_evidence :: "source_evidence list"
  kn_diagnostics :: "extraction_diagnostic list"
  kn_coverage :: extraction_coverage

datatype knowledge_error =
    K_InvalidUtf8 string
  | K_UnsupportedCrateShape
  | K_ParserCancelled string
  | K_MalformedSyntax string byte_span
  | K_NormalizationCollision entity_kind string string byte_span byte_span
  | K_ContractInvalid
  | K_InvalidEntity string
  | K_InvalidRelationship string
  | K_DanglingReference string
  | K_CardinalityViolation string
  | K_InvalidClaimState string
  | K_InvalidDerivation string
  | K_LimitExceeded string nat nat
  | K_GraphLimitExceeded string nat nat

section \<open>Identifiers and constructors\<close>

definition ontology_version :: string where
  "ontology_version = ''codenoesis.ontology/rust/v1''"

definition extractor_version :: string where
  "extractor_version = ''codenoesis.rust-tree-sitter/s2-v1''"

definition containment_rule_version :: string where
  "containment_rule_version = ''codenoesis.rule.rust-file-containment/s2-v1''"

definition stable_entity_id :: "hash \<Rightarrow> string \<Rightarrow> entity_kind \<Rightarrow> string \<Rightarrow> string" where
  "stable_entity_id blake3 repository_identity kind canonical_identity =
     stable_id blake3 ''urn:codenoesis:entity:blake3:''
       [''codenoesis.entity-id/v1'', repository_identity, ''rust'', entity_kind_str kind, canonical_identity]"

definition stable_relationship_id :: "hash \<Rightarrow> string \<Rightarrow> relationship_kind \<Rightarrow> string \<Rightarrow> string \<Rightarrow> string" where
  "stable_relationship_id blake3 repository_identity kind source_entity_id target_entity_id =
     stable_id blake3 ''urn:codenoesis:relationship:blake3:''
       [''codenoesis.relationship-id/v1'', repository_identity, ontology_version, relationship_kind_str kind,
        source_entity_id, target_entity_id]"

definition stable_claim_id :: "hash \<Rightarrow> string \<Rightarrow> string \<Rightarrow> string \<Rightarrow> string" where
  "stable_claim_id blake3 repository_identity subject_kind subject_id =
     stable_id blake3 ''urn:codenoesis:claim:blake3:''
       [''codenoesis.claim-id/v1'', repository_identity, ontology_version, subject_kind, subject_id]"

definition extraction_chunk_id :: "hash \<Rightarrow> string \<Rightarrow> string \<Rightarrow> string \<Rightarrow> string \<Rightarrow> string" where
  "extraction_chunk_id blake3 repository_identity commit_oid blob_oid path =
     stable_id blake3 ''urn:codenoesis:extraction-chunk:blake3:''
       [''codenoesis.extraction-chunk-id/v1'', repository_identity, commit_oid, blob_oid, path, extractor_version]"

definition new_knowledge_entity ::
  "hash \<Rightarrow> string \<Rightarrow> entity_kind \<Rightarrow> string \<Rightarrow> string \<Rightarrow> (string, string) btree \<Rightarrow> string list \<Rightarrow> knowledge_entity" where
  "new_knowledge_entity blake3 repository_identity kind canonical_identity display_name properties evidence_ids =
     (let entity_id = stable_entity_id blake3 repository_identity kind canonical_identity in
      \<lparr>ke_entity_id = entity_id, ke_kind = kind, ke_canonical_identity = canonical_identity,
       ke_display_name = display_name, ke_properties = properties, ke_evidence_ids = evidence_ids,
       ke_claim_id = stable_claim_id blake3 repository_identity (subject_kind_str Entity_subject) entity_id\<rparr>)"

definition new_knowledge_relationship ::
  "hash \<Rightarrow> string \<Rightarrow> relationship_kind \<Rightarrow> string \<Rightarrow> string \<Rightarrow> string list \<Rightarrow> knowledge_relationship" where
  "new_knowledge_relationship blake3 repository_identity kind source_entity_id target_entity_id evidence_ids =
     (let relationship_id = stable_relationship_id blake3 repository_identity kind source_entity_id target_entity_id in
      \<lparr>kr_relationship_id = relationship_id, kr_kind = kind, kr_source_entity_id = source_entity_id,
       kr_target_entity_id = target_entity_id, kr_evidence_ids = evidence_ids,
       kr_claim_id = stable_claim_id blake3 repository_identity (subject_kind_str Relationship_subject) relationship_id\<rparr>)"

definition parser_claim :: "hash \<Rightarrow> string \<Rightarrow> claim_subject_kind \<Rightarrow> string \<Rightarrow> string list \<Rightarrow> knowledge_claim" where
  "parser_claim blake3 repository_identity subject_kind subject_id evidence_ids =
     \<lparr>kc_claim_id = stable_claim_id blake3 repository_identity (subject_kind_str subject_kind) subject_id,
      kc_subject_kind = subject_kind, kc_subject_id = subject_id, kc_state = DeterministicFact,
      kc_derivation = Parser_derivation extractor_version evidence_ids\<rparr>"

definition containment_rule :: "hash \<Rightarrow> string \<Rightarrow> string \<Rightarrow> string list \<Rightarrow> string list \<Rightarrow> knowledge_claim" where
  "containment_rule blake3 repository_identity relationship_id input_claim_ids evidence_ids =
     \<lparr>kc_claim_id = stable_claim_id blake3 repository_identity (subject_kind_str Relationship_subject) relationship_id,
      kc_subject_kind = Relationship_subject, kc_subject_id = relationship_id, kc_state = DerivedFact,
      kc_derivation = DeterministicRule containment_rule_version input_claim_ids evidence_ids\<rparr>"

section \<open>Texts\<close>

definition valid_evidence_id :: "string \<Rightarrow> bool" where
  "valid_evidence_id v =
     (case strip_prefix ''evidence-s2-'' v of
        None \<Rightarrow> False
      | Some suffix \<Rightarrow> length suffix = 4 \<and> list_all is_ascii_digit suffix)"

definition is_git_sha1 :: "string \<Rightarrow> bool" where
  "is_git_sha1 v \<longleftrightarrow> length v = 40 \<and> list_all (\<lambda>c. is_ascii_hexdigit c \<and> \<not> is_ascii_uppercase c) v"

definition valid_canonical_path :: "string \<Rightarrow> bool" where
  "valid_canonical_path v \<longleftrightarrow>
     v \<noteq> [] \<and> length v \<le> 1024 \<and>
     list_all (\<lambda>component. component \<noteq> [] \<and> list_all (\<lambda>c. c \<noteq> 0x5C \<and> \<not> is_control c) (text_chars component))
       (split_on CHR ''/'' v)"

definition valid_bounded_text :: "string \<Rightarrow> nat \<Rightarrow> bool" where
  "valid_bounded_text v maximum \<longleftrightarrow>
     v \<noteq> [] \<and> length (text_chars v) \<le> maximum \<and> \<not> list_ex (\<lambda>c. c \<in> {CHR 0x0D, CHR 0x0A, CHR 0x00}) v"

definition valid_visibility :: "string \<Rightarrow> bool" where
  "valid_visibility v \<longleftrightarrow> v \<in> {''inherited_trait'', ''private'', ''public''}"

definition valid_syntax_kind :: "string \<Rightarrow> bool" where
  "valid_syntax_kind v \<longleftrightarrow>
     length v \<le> 128 \<and>
     (case v of [] \<Rightarrow> False | c # _ \<Rightarrow> is_ascii_lowercase c \<or> c = CHR ''_'') \<and>
     list_all (\<lambda>c. is_ascii_lowercase c \<or> is_ascii_digit c \<or> c = CHR ''_'') v"

definition valid_capability :: "string \<Rightarrow> bool" where
  "valid_capability v \<longleftrightarrow>
     (case v of [] \<Rightarrow> False | c # _ \<Rightarrow> is_ascii_lowercase c) \<and>
     list_all (\<lambda>c. is_ascii_lowercase c \<or> is_ascii_digit c \<or> c = CHR ''_'') v"

section \<open>Limits\<close>

definition capped_observed :: "nat \<Rightarrow> nat \<Rightarrow> nat" where
  "capped_observed observed maximum = (if observed > maximum + 1 then maximum + 1 else observed)"

definition check_extraction_count :: "string \<Rightarrow> nat \<Rightarrow> nat \<Rightarrow> (unit, knowledge_error) result" where
  "check_extraction_count limit observed maximum =
     (if observed > maximum then Err (K_LimitExceeded limit maximum (capped_observed observed maximum)) else Ok ())"

definition check_graph_count :: "string \<Rightarrow> nat \<Rightarrow> nat \<Rightarrow> (unit, knowledge_error) result" where
  "check_graph_count limit observed maximum =
     (if observed > maximum then Err (K_GraphLimitExceeded limit maximum (capped_observed observed maximum)) else Ok ())"

definition max_s2_entities :: nat where "max_s2_entities = 100000"
definition max_s2_relationships :: nat where "max_s2_relationships = 300000"
definition max_s2_claims :: nat where "max_s2_claims = 400000"
definition max_s2_evidence :: nat where "max_s2_evidence = 10000"
definition max_s2_diagnostics :: nat where "max_s2_diagnostics = 20000"
definition max_s2_coverage_gaps :: nat where "max_s2_coverage_gaps = 20000"
definition max_s2_supported_capabilities :: nat where "max_s2_supported_capabilities = 64"
definition max_s2_evidence_ids :: nat where "max_s2_evidence_ids = 64"

definition validate_extraction_limits :: "extraction_chunk \<Rightarrow> (unit, knowledge_error) result" where
  "validate_extraction_limits chunk =
     (if ch_byte_length chunk = 0 then Err K_ContractInvalid
      else if ch_byte_length chunk > limit_maximum SingleFileBytes
      then Err (K_LimitExceeded ''single_file_bytes'' (limit_maximum SingleFileBytes)
        (capped_observed (ch_byte_length chunk) (limit_maximum SingleFileBytes)))
      else
        and_then (check_extraction_count ''entities'' (length (ch_entities chunk)) max_s2_entities) (\<lambda>_.
        and_then (check_extraction_count ''relationships'' (length (ch_relationships chunk)) max_s2_relationships) (\<lambda>_.
        and_then (check_extraction_count ''claims'' (length (ch_claims chunk)) max_s2_claims) (\<lambda>_.
        and_then (check_extraction_count ''evidence_records'' (length (ch_evidence chunk)) max_s2_evidence) (\<lambda>_.
        and_then (check_extraction_count ''diagnostics'' (length (ch_diagnostics chunk)) max_s2_diagnostics) (\<lambda>_.
        and_then (check_extraction_count ''coverage_gaps'' (length (ec_gaps (ch_coverage chunk))) max_s2_coverage_gaps) (\<lambda>_.
        check_extraction_count ''supported_capabilities'' (length (ec_supported_capabilities (ch_coverage chunk)))
          max_s2_supported_capabilities)))))))"

definition validate_graph_limits :: "knowledge_graph \<Rightarrow> (unit, knowledge_error) result" where
  "validate_graph_limits graph =
     and_then (check_graph_count ''entities'' (length (kn_entities graph)) max_s2_entities) (\<lambda>_.
     and_then (check_graph_count ''relationships'' (length (kn_relationships graph)) max_s2_relationships) (\<lambda>_.
     and_then (check_graph_count ''claims'' (length (kn_claims graph)) max_s2_claims) (\<lambda>_.
     and_then (check_graph_count ''evidence_records'' (length (kn_evidence graph)) max_s2_evidence) (\<lambda>_.
     and_then (check_graph_count ''diagnostics'' (length (kn_diagnostics graph)) max_s2_diagnostics) (\<lambda>_.
     and_then (check_graph_count ''coverage_gaps'' (length (ec_gaps (kn_coverage graph))) max_s2_coverage_gaps) (\<lambda>_.
     check_graph_count ''supported_capabilities'' (length (ec_supported_capabilities (kn_coverage graph)))
       max_s2_supported_capabilities))))))"

section \<open>Evidence and observations\<close>

definition source_evidence_key :: "source_evidence \<Rightarrow> string \<times> nat \<times> nat \<times> string" where
  "source_evidence_key e = (sev_path e, bsp_start (sev_span e), bsp_end (sev_span e), sev_evidence_id e)"

definition evidence_by_id :: "source_evidence list \<Rightarrow> (string, source_evidence) btree" where
  "evidence_by_id evidence = bt_collect (map (\<lambda>e. (sev_evidence_id e, e)) evidence)"

definition evidence_valid :: "string \<Rightarrow> string \<Rightarrow> nat \<Rightarrow> (string \<times> string) option \<Rightarrow> source_evidence \<Rightarrow> bool" where
  "evidence_valid repository_identity commit_oid byte_length source e \<longleftrightarrow>
     valid_evidence_id (sev_evidence_id e) \<and> sev_repository_identity e = repository_identity \<and>
     sev_commit_oid e = commit_oid \<and> is_git_sha1 (sev_commit_oid e) \<and> is_git_sha1 (sev_blob_oid e) \<and>
     valid_canonical_path (sev_path e) \<and> valid_syntax_kind (sev_syntax_kind e) \<and> is_valid_for (sev_span e) byte_length \<and>
     (case source of None \<Rightarrow> True | Some (blob_oid, path) \<Rightarrow> sev_blob_oid e = blob_oid \<and> sev_path e = path)"

definition validate_evidence ::
  "string \<Rightarrow> string \<Rightarrow> source_evidence list \<Rightarrow> nat \<Rightarrow> (string \<times> string) option \<Rightarrow>
   ((string, source_evidence) btree, knowledge_error) result" where
  "validate_evidence repository_identity commit_oid evidence byte_length source =
     and_then (fail_if (\<not> strictly_ordered (map source_evidence_key evidence)) K_ContractInvalid) (\<lambda>_.
     and_then (fail_if (length (evidence_by_id evidence) \<noteq> length evidence) K_ContractInvalid) (\<lambda>_.
     and_then (fail_if (list_ex (\<lambda>e. \<not> evidence_valid repository_identity commit_oid byte_length source e) evidence)
       K_ContractInvalid) (\<lambda>_.
     Ok (evidence_by_id evidence))))"

definition diagnostic_key :: "extraction_diagnostic \<Rightarrow> string \<times> nat \<times> nat \<times> string" where
  "diagnostic_key d = (ed_path d, bsp_start (ed_span d), bsp_end (ed_span d), ed_code d)"

definition knowledge_gap_key :: "knowledge_gap \<Rightarrow> string \<times> nat \<times> nat \<times> string" where
  "knowledge_gap_key g = (kg_path g, bsp_start (kg_span g), bsp_end (kg_span g), kg_code g)"

definition expected_gap :: "string \<Rightarrow> string option" where
  "expected_gap code =
     (if code = ''extraction.malformed_syntax'' then Some ''malformed_syntax_excluded''
      else if code = ''extraction.unsupported_construct'' then Some ''unsupported_construct''
      else if code = ''extraction.unresolved_symbol'' then Some ''unresolved_symbol''
      else None)"

definition diagnostic_valid :: "nat \<Rightarrow> string option \<Rightarrow> extraction_diagnostic \<Rightarrow> bool" where
  "diagnostic_valid byte_length source_path d \<longleftrightarrow>
     ed_code d \<in> {''extraction.malformed_syntax'', ''extraction.unsupported_construct'', ''extraction.unresolved_symbol''} \<and>
     ed_severity d \<in> {''warning'', ''error''} \<and> valid_canonical_path (ed_path d) \<and>
     (case source_path of None \<Rightarrow> True | Some path \<Rightarrow> ed_path d = path) \<and> is_valid_for (ed_span d) byte_length"

definition gap_valid :: "(string, source_evidence) btree \<Rightarrow> nat \<Rightarrow> string option \<Rightarrow> knowledge_gap \<Rightarrow> bool" where
  "gap_valid evidence byte_length source_path g \<longleftrightarrow>
     kg_code g \<in> {''calls_not_extracted'', ''fields_not_extracted'', ''malformed_syntax_excluded'', ''unsupported_construct'',
       ''unresolved_symbol'', ''variants_not_extracted''} \<and>
     valid_canonical_path (kg_path g) \<and> (case source_path of None \<Rightarrow> True | Some path \<Rightarrow> kg_path g = path) \<and>
     is_valid_for (kg_span g) byte_length \<and> bt_get evidence (kg_evidence_id g) \<noteq> None"

definition diagnostic_covered :: "knowledge_gap list \<Rightarrow> extraction_diagnostic \<Rightarrow> bool" where
  "diagnostic_covered gaps d =
     (case expected_gap (ed_code d) of
        None \<Rightarrow> False
      | Some code \<Rightarrow> length (filter (\<lambda>g. kg_code g = code \<and> kg_path g = ed_path d \<and> kg_span g = ed_span d) gaps) = 1)"

definition validate_observations ::
  "extraction_diagnostic list \<Rightarrow> extraction_coverage \<Rightarrow> (string, source_evidence) btree \<Rightarrow> nat \<Rightarrow> string option \<Rightarrow>
   (unit, knowledge_error) result" where
  "validate_observations diagnostics coverage evidence byte_length source_path =
     and_then (fail_if (\<not> strictly_ordered (map diagnostic_key diagnostics)) K_ContractInvalid) (\<lambda>_.
     and_then (fail_if (list_ex (\<lambda>d. \<not> diagnostic_valid byte_length source_path d) diagnostics) K_ContractInvalid) (\<lambda>_.
     and_then (fail_if (\<not> ordered_unique (ec_supported_capabilities coverage) \<or>
         list_ex (\<lambda>c. \<not> valid_capability c) (ec_supported_capabilities coverage)) K_ContractInvalid) (\<lambda>_.
     and_then (fail_if (\<not> strictly_ordered (map knowledge_gap_key (ec_gaps coverage))) K_ContractInvalid) (\<lambda>_.
     and_then (fail_if (list_ex (\<lambda>g. \<not> gap_valid evidence byte_length source_path g) (ec_gaps coverage)) K_ContractInvalid) (\<lambda>_.
     fail_if (list_ex (\<lambda>d. \<not> diagnostic_covered (ec_gaps coverage) d) diagnostics) K_ContractInvalid)))))"

section \<open>Entities and relationships\<close>

definition valid_evidence_references :: "string list \<Rightarrow> (string, source_evidence) btree \<Rightarrow> bool" where
  "valid_evidence_references evidence_ids evidence \<longleftrightarrow>
     evidence_ids \<noteq> [] \<and> length evidence_ids \<le> max_s2_evidence_ids \<and> ordered_unique evidence_ids \<and>
     list_all (\<lambda>i. bt_get evidence i \<noteq> None) evidence_ids"

fun required_properties :: "entity_kind \<Rightarrow> string list" where
  "required_properties RustCrate = [''crate_root'']"
| "required_properties SourceFile = [''path'']"
| "required_properties RustMethod = [''owner_kind'', ''visibility'']"
| "required_properties RustSymbolReference = [''resolution'', ''symbol_path'']"
| "required_properties _ = [''visibility'']"

definition property_is :: "knowledge_entity \<Rightarrow> string \<Rightarrow> (string \<Rightarrow> bool) \<Rightarrow> bool" where
  "property_is e key test = (case bt_get (ke_properties e) key of None \<Rightarrow> False | Some v \<Rightarrow> test v)"

definition valid_entity_properties :: "knowledge_entity \<Rightarrow> bool" where
  "valid_entity_properties e \<longleftrightarrow>
     valid_bounded_text (ke_canonical_identity e) 2048 \<and> valid_bounded_text (ke_display_name e) 1024 \<and>
     length (ke_properties e) = length (required_properties (ke_kind e)) \<and>
     list_all (\<lambda>key. bt_get (ke_properties e) key \<noteq> None) (required_properties (ke_kind e)) \<and>
     (case ke_kind e of
        RustSymbolReference \<Rightarrow>
          property_is e ''resolution'' (\<lambda>v. v = ''unresolved'') \<and>
          property_is e ''symbol_path'' (\<lambda>v. valid_bounded_text v 2048)
      | RustCrate \<Rightarrow> property_is e ''crate_root'' valid_canonical_path
      | SourceFile \<Rightarrow> property_is e ''path'' valid_canonical_path
      | RustMethod \<Rightarrow>
          property_is e ''visibility'' valid_visibility \<and>
          property_is e ''owner_kind'' (\<lambda>v. v \<in> {''rust.enum'', ''rust.struct'', ''rust.trait''})
      | _ \<Rightarrow> property_is e ''visibility'' valid_visibility)"

definition knowledge_entity_valid :: "hash \<Rightarrow> string \<Rightarrow> (string, source_evidence) btree \<Rightarrow> knowledge_entity \<Rightarrow> bool" where
  "knowledge_entity_valid blake3 repository_identity evidence e \<longleftrightarrow>
     ke_entity_id e = stable_entity_id blake3 repository_identity (ke_kind e) (ke_canonical_identity e) \<and>
     ke_claim_id e = stable_claim_id blake3 repository_identity (subject_kind_str Entity_subject) (ke_entity_id e) \<and>
     ke_display_name e \<noteq> [] \<and> valid_entity_properties e \<and> valid_evidence_references (ke_evidence_ids e) evidence"

fun validate_knowledge_entities ::
  "hash \<Rightarrow> string \<Rightarrow> (string, source_evidence) btree \<Rightarrow> knowledge_entity list \<Rightarrow> (unit, knowledge_error) result" where
  "validate_knowledge_entities blake3 repository_identity evidence [] = Ok ()"
| "validate_knowledge_entities blake3 repository_identity evidence (e # es) =
     (if \<not> knowledge_entity_valid blake3 repository_identity evidence e then Err (K_InvalidEntity (ke_entity_id e))
      else validate_knowledge_entities blake3 repository_identity evidence es)"

definition is_declaration :: "entity_kind \<Rightarrow> bool" where
  "is_declaration kind \<longleftrightarrow> kind \<in> {RustModule, RustStruct, RustEnum, RustTrait, RustTypeAlias, RustFunction, RustMethod}"

fun relationship_endpoint_allowed :: "relationship_kind \<Rightarrow> entity_kind \<Rightarrow> entity_kind \<Rightarrow> bool" where
  "relationship_endpoint_allowed Contains source target \<longleftrightarrow> source = RustCrate \<and> target = SourceFile"
| "relationship_endpoint_allowed Defines source target \<longleftrightarrow>
     source \<in> {RustCrate, RustModule} \<and>
       target \<in> {RustModule, RustStruct, RustEnum, RustTrait, RustTypeAlias, RustFunction} \<or>
     source \<in> {RustStruct, RustEnum, RustTrait} \<and> target = RustMethod"
| "relationship_endpoint_allowed Imports source target \<longleftrightarrow>
     source \<in> {RustCrate, RustModule} \<and>
     target \<in> {RustModule, RustStruct, RustEnum, RustTrait, RustTypeAlias, RustFunction, RustSymbolReference}"
| "relationship_endpoint_allowed Implements source target \<longleftrightarrow>
     source \<in> {RustStruct, RustEnum} \<and> target \<in> {RustTrait, RustSymbolReference}"

definition knowledge_entity_by_id :: "knowledge_entity list \<Rightarrow> (string, knowledge_entity) btree" where
  "knowledge_entity_by_id entities = bt_collect (map (\<lambda>e. (ke_entity_id e, e)) entities)"

definition knowledge_relationship_by_id :: "knowledge_relationship list \<Rightarrow> (string, knowledge_relationship) btree" where
  "knowledge_relationship_by_id relationships = bt_collect (map (\<lambda>r. (kr_relationship_id r, r)) relationships)"

definition relationship_identified :: "hash \<Rightarrow> string \<Rightarrow> (string, source_evidence) btree \<Rightarrow> knowledge_relationship \<Rightarrow> bool" where
  "relationship_identified blake3 repository_identity evidence r \<longleftrightarrow>
     kr_relationship_id r = stable_relationship_id blake3 repository_identity (kr_kind r) (kr_source_entity_id r)
       (kr_target_entity_id r) \<and>
     kr_claim_id r = stable_claim_id blake3 repository_identity (subject_kind_str Relationship_subject) (kr_relationship_id r) \<and>
     valid_evidence_references (kr_evidence_ids r) evidence"

definition relationship_tuple :: "knowledge_relationship \<Rightarrow> relationship_kind \<times> string \<times> string" where
  "relationship_tuple r = (kr_kind r, kr_source_entity_id r, kr_target_entity_id r)"

fun validate_knowledge_relationships ::
  "hash \<Rightarrow> string \<Rightarrow> (string, knowledge_entity) btree \<Rightarrow> (string, source_evidence) btree \<Rightarrow>
   (relationship_kind \<times> string \<times> string) set \<Rightarrow> knowledge_relationship list \<Rightarrow> (unit, knowledge_error) result" where
  "validate_knowledge_relationships blake3 repository_identity entities evidence tuples [] = Ok ()"
| "validate_knowledge_relationships blake3 repository_identity entities evidence tuples (r # rs) =
     (if \<not> relationship_identified blake3 repository_identity evidence r
      then Err (K_InvalidRelationship (kr_relationship_id r))
      else
        and_then (ok_or (K_DanglingReference (kr_source_entity_id r)) (bt_get entities (kr_source_entity_id r))) (\<lambda>source.
        and_then (ok_or (K_DanglingReference (kr_target_entity_id r)) (bt_get entities (kr_target_entity_id r))) (\<lambda>target.
        if \<not> relationship_endpoint_allowed (kr_kind r) (ke_kind source) (ke_kind target) \<or> relationship_tuple r \<in> tuples
        then Err (K_InvalidRelationship (kr_relationship_id r))
        else validate_knowledge_relationships blake3 repository_identity entities evidence
               (insert (relationship_tuple r) tuples) rs)))"

record validation_input =
  vi_repository_identity :: string
  vi_commit_oid :: string
  vi_entities :: "knowledge_entity list"
  vi_relationships :: "knowledge_relationship list"
  vi_claims :: "knowledge_claim list"
  vi_evidence :: "source_evidence list"
  vi_diagnostics :: "extraction_diagnostic list"
  vi_coverage :: extraction_coverage
  vi_byte_length :: nat
  vi_source :: "(string \<times> string) option"

definition validate_common :: "hash \<Rightarrow> validation_input \<Rightarrow> (unit, knowledge_error) result" where
  "validate_common blake3 i =
     and_then (fail_if ((case parse_identity (vi_repository_identity i) of Ok _ \<Rightarrow> False | _ \<Rightarrow> True) \<or>
         \<not> is_git_sha1 (vi_commit_oid i)) K_ContractInvalid) (\<lambda>_.
     and_then (fail_if (\<not> ordered_unique (map ke_entity_id (vi_entities i)) \<or>
         \<not> ordered_unique (map kr_relationship_id (vi_relationships i)) \<or>
         \<not> ordered_unique (map kc_claim_id (vi_claims i))) K_ContractInvalid) (\<lambda>_.
     and_then (validate_evidence (vi_repository_identity i) (vi_commit_oid i) (vi_evidence i) (vi_byte_length i)
         (vi_source i)) (\<lambda>evidence.
     and_then (validate_observations (vi_diagnostics i) (vi_coverage i) evidence (vi_byte_length i)
         (map_option snd (vi_source i))) (\<lambda>_.
     let entities = knowledge_entity_by_id (vi_entities i) in
     and_then (fail_if (length entities \<noteq> length (vi_entities i)) K_ContractInvalid) (\<lambda>_.
     and_then (fail_if (length (vi_claims i) \<noteq> length (vi_entities i) + length (vi_relationships i)) K_ContractInvalid) (\<lambda>_.
     and_then (validate_knowledge_entities blake3 (vi_repository_identity i) evidence (vi_entities i)) (\<lambda>_.
     validate_knowledge_relationships blake3 (vi_repository_identity i) entities evidence {} (vi_relationships i))))))))"

section \<open>Claims\<close>

definition claim_subject ::
  "(string, knowledge_entity) btree \<Rightarrow> (string, knowledge_relationship) btree \<Rightarrow> knowledge_claim \<Rightarrow>
   (string \<times> string list) option" where
  "claim_subject entities relationships c =
     (case kc_subject_kind c of
        Entity_subject \<Rightarrow> map_option (\<lambda>e. (ke_claim_id e, ke_evidence_ids e)) (bt_get entities (kc_subject_id c))
      | Relationship_subject \<Rightarrow>
          map_option (\<lambda>r. (kr_claim_id r, kr_evidence_ids r)) (bt_get relationships (kc_subject_id c)))"

definition validate_claim ::
  "hash \<Rightarrow> string \<Rightarrow> (string, knowledge_entity) btree \<Rightarrow> (string, knowledge_relationship) btree \<Rightarrow>
   (string, source_evidence) btree \<Rightarrow> knowledge_claim \<Rightarrow> (unit, knowledge_error) result" where
  "validate_claim blake3 repository_identity entities relationships evidence c =
     and_then (fail_if (kc_claim_id c \<noteq>
         stable_claim_id blake3 repository_identity (subject_kind_str (kc_subject_kind c)) (kc_subject_id c))
       (K_InvalidClaimState (kc_claim_id c))) (\<lambda>_.
     and_then (fail_if (\<not> valid_evidence_references (derivation_evidence_ids (kc_derivation c)) evidence)
       (K_InvalidDerivation (kc_claim_id c))) (\<lambda>_.
     and_then (ok_or (K_DanglingReference (kc_subject_id c)) (claim_subject entities relationships c))
       (\<lambda>(subject_claim_id, subject_evidence_ids).
     and_then (fail_if (subject_claim_id \<noteq> kc_claim_id c) (K_InvalidClaimState (kc_claim_id c))) (\<lambda>_.
     fail_if (subject_evidence_ids \<noteq> derivation_evidence_ids (kc_derivation c)) (K_InvalidDerivation (kc_claim_id c))))))"

fun validate_each_claim ::
  "(knowledge_claim \<Rightarrow> (unit, knowledge_error) result) \<Rightarrow> knowledge_claim list \<Rightarrow> (unit, knowledge_error) result" where
  "validate_each_claim validate [] = Ok ()"
| "validate_each_claim validate (c # cs) = and_then (validate c) (\<lambda>_. validate_each_claim validate cs)"

definition validate_claims ::
  "hash \<Rightarrow> string \<Rightarrow> knowledge_entity list \<Rightarrow> knowledge_relationship list \<Rightarrow> knowledge_claim list \<Rightarrow>
   source_evidence list \<Rightarrow> (unit, knowledge_error) result" where
  "validate_claims blake3 repository_identity entities relationships claims evidence =
     validate_each_claim
       (validate_claim blake3 repository_identity (knowledge_entity_by_id entities)
         (knowledge_relationship_by_id relationships) (evidence_by_id evidence)) claims"

definition validate_parser_derivation :: "knowledge_claim \<Rightarrow> (unit, knowledge_error) result" where
  "validate_parser_derivation c =
     (case (kc_state c, kc_derivation c) of
        (DeterministicFact, Parser_derivation version _) \<Rightarrow>
          if version = extractor_version then Ok () else Err (K_InvalidDerivation (kc_claim_id c))
      | _ \<Rightarrow> Err (K_InvalidDerivation (kc_claim_id c)))"

definition validate_parser_derivations :: "knowledge_claim list \<Rightarrow> (unit, knowledge_error) result" where
  "validate_parser_derivations claims = validate_each_claim validate_parser_derivation claims"

section \<open>Cardinalities\<close>

text \<open>\<open>RelationshipKind\<close> derives \<open>Ord\<close>: the variants are ordered as they are declared.\<close>

fun relationship_kind_rank :: "relationship_kind \<Rightarrow> nat" where
  "relationship_kind_rank Contains = 0"
| "relationship_kind_rank Defines = 1"
| "relationship_kind_rank Implements = 2"
| "relationship_kind_rank Imports = 3"

lemma relationship_kind_rank_inject [simp]: "relationship_kind_rank k = relationship_kind_rank l \<longleftrightarrow> k = l"
  by (cases k; cases l) simp_all

instantiation relationship_kind :: linorder
begin

definition less_eq_relationship_kind :: "relationship_kind \<Rightarrow> relationship_kind \<Rightarrow> bool" where
  "k \<le> l \<longleftrightarrow> relationship_kind_rank k \<le> relationship_kind_rank l"

definition less_relationship_kind :: "relationship_kind \<Rightarrow> relationship_kind \<Rightarrow> bool" where
  "k < l \<longleftrightarrow> relationship_kind_rank k < relationship_kind_rank l"

instance
  by standard (auto simp: less_eq_relationship_kind_def less_relationship_kind_def)

end

definition tally :: "('k :: linorder, nat) btree \<Rightarrow> 'k \<Rightarrow> nat" where
  "tally counts k = (case bt_get counts k of None \<Rightarrow> 0 | Some n \<Rightarrow> n)"

definition count_up :: "'k :: linorder \<Rightarrow> ('k, nat) btree \<Rightarrow> ('k, nat) btree" where
  "count_up k counts = bt_put k (tally counts k + 1) counts"

definition incoming_counts :: "knowledge_relationship list \<Rightarrow> (string \<times> relationship_kind, nat) btree" where
  "incoming_counts relationships = fold (\<lambda>r. count_up (kr_target_entity_id r, kr_kind r)) relationships []"

definition outgoing_counts :: "knowledge_relationship list \<Rightarrow> (string, nat) btree" where
  "outgoing_counts relationships = fold (\<lambda>r. count_up (kr_source_entity_id r)) relationships []"

definition valid_entity_cardinality ::
  "knowledge_entity \<Rightarrow> (string \<times> relationship_kind, nat) btree \<Rightarrow> (string, nat) btree \<Rightarrow> bool" where
  "valid_entity_cardinality e incoming outgoing =
     (let incoming_count = (\<lambda>kind. tally incoming (ke_entity_id e, kind)) in
      case ke_kind e of
        SourceFile \<Rightarrow> incoming_count Contains = 1
      | RustSymbolReference \<Rightarrow>
          tally outgoing (ke_entity_id e) = 0 \<and> incoming_count Imports + incoming_count Implements \<ge> 1
      | RustCrate \<Rightarrow> True
      | _ \<Rightarrow> incoming_count Defines = 1)"

definition defines_children :: "knowledge_relationship list \<Rightarrow> (string, string list) btree" where
  "defines_children relationships =
     fold (\<lambda>r m. if kr_kind r = Defines
        then bt_put (kr_source_entity_id r)
          ((case bt_get m (kr_source_entity_id r) of None \<Rightarrow> [] | Some ts \<Rightarrow> ts) @ [kr_target_entity_id r]) m
        else m) relationships []"

text \<open>The frontier is a stack whose top is the head of the list.\<close>

function walk_defines ::
  "(string, string list) btree \<Rightarrow> string set \<Rightarrow> string list \<Rightarrow> (string set, knowledge_error) result" where
  "walk_defines children_of reachable [] = Ok reachable"
| "walk_defines children_of reachable (parent # frontier) =
     (if parent \<in> reachable then Err (K_CardinalityViolation parent)
      else walk_defines children_of (insert parent reachable)
        (case bt_get children_of parent of None \<Rightarrow> frontier | Some children \<Rightarrow> rev children @ frontier))"
  by pat_completeness auto

termination
proof (relation "inv_image (less_than <*lex*> less_than)
    (\<lambda>(children_of, reachable, frontier). (card (set (map fst children_of) - reachable), length frontier))", goal_cases)
  case (2 children_of reachable parent frontier)
  show ?case
  proof (cases "bt_get children_of parent")
    case None
    then have "set (map fst children_of) - insert parent reachable = set (map fst children_of) - reachable"
      using bt_get_key [of parent children_of] by auto
    with None show ?thesis by (simp del: set_map)
  next
    case (Some children)
    then have "set (map fst children_of) - insert parent reachable \<subset> set (map fst children_of) - reachable"
      using bt_get_key [of parent children_of] 2 by auto
    then have "card (set (map fst children_of) - insert parent reachable) < card (set (map fst children_of) - reachable)"
      by (intro psubset_card_mono) auto
    then show ?thesis by (simp del: set_map)
  qed
qed auto

fun each_reachable :: "string set \<Rightarrow> knowledge_entity list \<Rightarrow> (unit, knowledge_error) result" where
  "each_reachable reachable [] = Ok ()"
| "each_reachable reachable (e # es) =
     (if is_declaration (ke_kind e) \<and> ke_entity_id e \<notin> reachable then Err (K_CardinalityViolation (ke_entity_id e))
      else each_reachable reachable es)"

definition validate_defines_reachability ::
  "knowledge_entity list \<Rightarrow> knowledge_relationship list \<Rightarrow> string \<Rightarrow> (unit, knowledge_error) result" where
  "validate_defines_reachability entities relationships crate_id =
     and_then (walk_defines (defines_children relationships) {} [crate_id]) (\<lambda>reachable.
     each_reachable reachable entities)"

fun each_cardinality ::
  "(string \<times> relationship_kind, nat) btree \<Rightarrow> (string, nat) btree \<Rightarrow> knowledge_entity list \<Rightarrow>
   (unit, knowledge_error) result" where
  "each_cardinality incoming outgoing [] = Ok ()"
| "each_cardinality incoming outgoing (e # es) =
     (if \<not> valid_entity_cardinality e incoming outgoing then Err (K_CardinalityViolation (ke_entity_id e))
      else each_cardinality incoming outgoing es)"

definition validate_cardinalities ::
  "knowledge_entity list \<Rightarrow> knowledge_relationship list \<Rightarrow> (unit, knowledge_error) result" where
  "validate_cardinalities entities relationships =
     (case map ke_entity_id (filter (\<lambda>e. ke_kind e = RustCrate) entities) of
        [crate_id] \<Rightarrow>
          and_then (each_cardinality (incoming_counts relationships) (outgoing_counts relationships) entities) (\<lambda>_.
          validate_defines_reachability entities relationships crate_id)
      | _ \<Rightarrow> Err (K_CardinalityViolation ''rust.crate''))"

section \<open>Derivations\<close>

definition expected_inputs ::
  "(string, string) btree \<Rightarrow> (string, knowledge_relationship) btree \<Rightarrow> string \<Rightarrow> string list option" where
  "expected_inputs entity_claims relationships subject_id =
     (case bt_get relationships subject_id of
        None \<Rightarrow> None
      | Some r \<Rightarrow>
          if kr_kind r \<noteq> Contains then None
          else case (bt_get entity_claims (kr_source_entity_id r), bt_get entity_claims (kr_target_entity_id r)) of
            (Some source_claim, Some target_claim) \<Rightarrow> Some [source_claim, target_claim]
          | _ \<Rightarrow> None)"

definition rule_derivation_valid ::
  "string set \<Rightarrow> (string, knowledge_claim) btree \<Rightarrow> (string, string) btree \<Rightarrow> (string, knowledge_relationship) btree \<Rightarrow>
   string \<Rightarrow> string \<Rightarrow> string list \<Rightarrow> string list \<Rightarrow> bool" where
  "rule_derivation_valid evidence_ids claims_by_id entity_claims relationships subject_id rule_version input_claim_ids
     rule_evidence \<longleftrightarrow>
     length input_claim_ids = 2 \<and> input_claim_ids ! 0 \<noteq> input_claim_ids ! 1 \<and>
     rule_version = containment_rule_version \<and>
     expected_inputs entity_claims relationships subject_id = Some input_claim_ids \<and>
     list_all (\<lambda>i. case bt_get claims_by_id i of None \<Rightarrow> False | Some c \<Rightarrow> kc_state c = DeterministicFact) input_claim_ids \<and>
     list_all (\<lambda>i. i \<in> evidence_ids) rule_evidence"

fun count_derivations ::
  "string set \<Rightarrow> (string, knowledge_claim) btree \<Rightarrow> (string, string) btree \<Rightarrow> (string, knowledge_relationship) btree \<Rightarrow>
   nat \<Rightarrow> knowledge_claim list \<Rightarrow> (nat, knowledge_error) result" where
  "count_derivations evidence_ids claims_by_id entity_claims relationships derived [] = Ok derived"
| "count_derivations evidence_ids claims_by_id entity_claims relationships derived (c # cs) =
     (case (kc_state c, kc_derivation c) of
        (DeterministicFact, Parser_derivation version parser_evidence) \<Rightarrow>
          if version = extractor_version \<and> list_all (\<lambda>i. i \<in> evidence_ids) parser_evidence
          then count_derivations evidence_ids claims_by_id entity_claims relationships derived cs
          else Err (K_InvalidDerivation (kc_claim_id c))
      | (DerivedFact, DeterministicRule rule_version input_claim_ids rule_evidence) \<Rightarrow>
          if rule_derivation_valid evidence_ids claims_by_id entity_claims relationships (kc_subject_id c) rule_version
            input_claim_ids rule_evidence
          then count_derivations evidence_ids claims_by_id entity_claims relationships (derived + 1) cs
          else Err (K_InvalidDerivation (kc_claim_id c))
      | _ \<Rightarrow> Err (K_InvalidDerivation (kc_claim_id c)))"

definition validate_knowledge_derivations ::
  "knowledge_entity list \<Rightarrow> knowledge_relationship list \<Rightarrow> knowledge_claim list \<Rightarrow> source_evidence list \<Rightarrow>
   (unit, knowledge_error) result" where
  "validate_knowledge_derivations entities relationships claims evidence =
     and_then (count_derivations (set (map sev_evidence_id evidence))
         (bt_collect (map (\<lambda>c. (kc_claim_id c, c)) claims))
         (bt_collect (map (\<lambda>e. (ke_entity_id e, ke_claim_id e)) entities))
         (knowledge_relationship_by_id relationships) 0 claims) (\<lambda>derived_count.
     let contains_count = length (filter (\<lambda>r. kr_kind r = Contains) relationships) in
     fail_if (derived_count \<noteq> contains_count \<or> derived_count \<noteq> 1) (K_InvalidDerivation []))"

section \<open>Chunks, graphs and publications\<close>

definition chunk_validate :: "hash \<Rightarrow> extraction_chunk \<Rightarrow> (unit, knowledge_error) result" where
  "chunk_validate blake3 chunk =
     and_then (validate_extraction_limits chunk) (\<lambda>_.
     and_then (fail_if (ch_chunk_id chunk \<noteq> extraction_chunk_id blake3 (ch_repository_identity chunk) (ch_commit_oid chunk)
         (ch_blob_oid chunk) (ch_path chunk)) K_ContractInvalid) (\<lambda>_.
     and_then (fail_if (list_ex (\<lambda>r. kr_kind r = Contains) (ch_relationships chunk)) K_ContractInvalid) (\<lambda>_.
     and_then (fail_if (list_ex (\<lambda>c. kc_state c \<noteq> DeterministicFact) (ch_claims chunk)) K_ContractInvalid) (\<lambda>_.
     map_err (\<lambda>e. case e of K_LimitExceeded _ _ _ \<Rightarrow> e | _ \<Rightarrow> K_ContractInvalid)
       (and_then (validate_common blake3 \<lparr>vi_repository_identity = ch_repository_identity chunk, vi_commit_oid = ch_commit_oid chunk,
           vi_entities = ch_entities chunk, vi_relationships = ch_relationships chunk, vi_claims = ch_claims chunk,
           vi_evidence = ch_evidence chunk, vi_diagnostics = ch_diagnostics chunk, vi_coverage = ch_coverage chunk,
           vi_byte_length = ch_byte_length chunk, vi_source = Some (ch_blob_oid chunk, ch_path chunk)\<rparr>) (\<lambda>_.
        and_then (validate_claims blake3 (ch_repository_identity chunk) (ch_entities chunk) (ch_relationships chunk)
           (ch_claims chunk) (ch_evidence chunk)) (\<lambda>_.
        validate_parser_derivations (ch_claims chunk))))))))"

definition graph_validate :: "hash \<Rightarrow> knowledge_graph \<Rightarrow> (unit, knowledge_error) result" where
  "graph_validate blake3 graph =
     and_then (validate_graph_limits graph) (\<lambda>_.
     and_then (validate_common blake3 \<lparr>vi_repository_identity = kn_repository_identity graph, vi_commit_oid = kn_commit_oid graph,
         vi_entities = kn_entities graph, vi_relationships = kn_relationships graph, vi_claims = kn_claims graph,
         vi_evidence = kn_evidence graph, vi_diagnostics = kn_diagnostics graph, vi_coverage = kn_coverage graph,
         vi_byte_length = limit_maximum SingleFileBytes, vi_source = None\<rparr>) (\<lambda>_.
     and_then (validate_cardinalities (kn_entities graph) (kn_relationships graph)) (\<lambda>_.
     and_then (validate_claims blake3 (kn_repository_identity graph) (kn_entities graph) (kn_relationships graph)
         (kn_claims graph) (kn_evidence graph)) (\<lambda>_.
     validate_knowledge_derivations (kn_entities graph) (kn_relationships graph) (kn_claims graph) (kn_evidence graph)))))"

record rust_knowledge =
  rk_extraction_chunks :: "extraction_chunk list"
  rk_graph :: knowledge_graph

fun validate_chunks :: "hash \<Rightarrow> extraction_chunk list \<Rightarrow> (unit, knowledge_error) result" where
  "validate_chunks blake3 [] = Ok ()"
| "validate_chunks blake3 (chunk # chunks) = and_then (chunk_validate blake3 chunk) (\<lambda>_. validate_chunks blake3 chunks)"

definition rust_knowledge_validate :: "hash \<Rightarrow> rust_knowledge \<Rightarrow> (unit, knowledge_error) result" where
  "rust_knowledge_validate blake3 k =
     and_then (fail_if (length (rk_extraction_chunks k) \<noteq> 1) K_ContractInvalid) (\<lambda>_.
     and_then (validate_chunks blake3 (rk_extraction_chunks k)) (\<lambda>_.
     and_then (graph_validate blake3 (rk_graph k)) (\<lambda>_.
     let chunk = rk_extraction_chunks k ! 0; graph = rk_graph k in
     and_then (fail_if (ch_repository_identity chunk \<noteq> kn_repository_identity graph \<or>
         ch_commit_oid chunk \<noteq> kn_commit_oid graph \<or> ch_entities chunk \<noteq> kn_entities graph \<or>
         ch_evidence chunk \<noteq> kn_evidence graph \<or> ch_diagnostics chunk \<noteq> kn_diagnostics graph \<or>
         ch_coverage chunk \<noteq> kn_coverage graph) K_ContractInvalid) (\<lambda>_.
     and_then (fail_if (ch_relationships chunk \<noteq> filter (\<lambda>r. kr_kind r \<noteq> Contains) (kn_relationships graph))
       K_ContractInvalid) (\<lambda>_.
     fail_if (ch_claims chunk \<noteq> filter (\<lambda>c. kc_state c = DeterministicFact) (kn_claims graph)) K_ContractInvalid)))))"

end
