(* ===== verification/Rust_Extraction.thy ===== *)
theory Rust_Extraction
  imports Knowledge_Model Constant_Tokens
begin

text \<open>
  The extractor of Rust declarations (\<open>codenoesis-lang-rust/src/lib.rs\<close>): the walk over the syntax tree
  of one library root, the builder that collects entities, relationships, imports, diagnostics and gaps,
  and the assembly of the extraction chunk and the knowledge graph. The parser (tree-sitter) and the
  normalisation of identifiers to NFC (unicode-normalization) are parameters: the parser is a function
  from the text to the tree it builds.
\<close>

section \<open>Syntax trees\<close>

text \<open>
  A node as the parser presents it: its kind, whether it is named, missing or an error, the field of the
  parent it fills, its byte range and its children.
\<close>

datatype syntax_node = Syntax_Node
  (sn_kind: string) (sn_named: bool) (sn_missing: bool) (sn_error: bool) (sn_field: "string option")
  (sn_start: nat) (sn_end: nat) (sn_children: "syntax_node list")

definition named_children :: "syntax_node \<Rightarrow> syntax_node list" where
  "named_children node = filter sn_named (sn_children node)"

definition child_by_field_name :: "syntax_node \<Rightarrow> string \<Rightarrow> syntax_node option" where
  "child_by_field_name node name = find (\<lambda>child. sn_field child = Some name) (sn_children node)"

definition node_span :: "syntax_node \<Rightarrow> byte_span" where
  "node_span node = ByteSpan (sn_start node) (sn_end node)"

text \<open>The text of a node: the bytes of its range, which must lie in the source.\<close>

definition node_text :: "syntax_node \<Rightarrow> string \<Rightarrow> (string, knowledge_error) result" where
  "node_text node source =
     (case get_range (sn_start node) (sn_end node) (as_bytes source) of
        None \<Rightarrow> Panic
      | Some bytes \<Rightarrow> ok_or (K_InvalidUtf8 []) (from_utf8 bytes))"

definition node_name :: "syntax_node \<Rightarrow> string \<Rightarrow> (string, knowledge_error) result" where
  "node_name node source =
     and_then (ok_or K_ContractInvalid (child_by_field_name node ''name'')) (\<lambda>name. node_text name source)"

definition visibility :: "syntax_node \<Rightarrow> string \<Rightarrow> (string, knowledge_error) result" where
  "visibility node source =
     (case find (\<lambda>child. sn_kind child = ''visibility_modifier'') (named_children node) of
        None \<Rightarrow> Ok ''private''
      | Some child \<Rightarrow> and_then (node_text child source) (\<lambda>v. Ok (if starts_with ''pub'' v then ''public'' else ''private'')))"

definition declaration_span :: "syntax_node \<Rightarrow> (byte_span, knowledge_error) result" where
  "declaration_span node =
     (case child_by_field_name node ''body'' of
        Some body \<Rightarrow>
          if sn_kind node = ''function_item'' \<and> named_children body = [] then Ok (ByteSpan (sn_start node) (sn_end node))
          else and_then (ok_or K_ContractInvalid (checked_add (sn_start body) 1)) (\<lambda>e. Ok (ByteSpan (sn_start node) e))
      | None \<Rightarrow> Ok (ByteSpan (sn_start node) (sn_end node)))"

text \<open>The frontier is a stack whose top is the head of the list.\<close>

function malformed_loop ::
  "string \<Rightarrow> byte_span list \<Rightarrow> syntax_node list \<Rightarrow> (byte_span list, knowledge_error) result" where
  "malformed_loop path spans [] = Ok spans"
| "malformed_loop path spans (node # frontier) =
     (if sn_missing node then Err (K_MalformedSyntax path (node_span node))
      else if sn_error node then malformed_loop path (spans @ [node_span node]) frontier
      else malformed_loop path spans (rev (sn_children node) @ frontier))"
  by pat_completeness auto

termination
proof (relation "measure (\<lambda>(path, spans, frontier). sum_list (map size frontier))")
  fix path :: string and spans :: "byte_span list" and node frontier
  have "sum_list (map size (sn_children node)) < size node"
    by (cases node) (simp add: size_list_conv_sum_list less_Suc_eq_le sum_list_mono trans_le_add2)
  then show "((path, spans, rev (sn_children node) @ frontier), path, spans, node # frontier)
      \<in> measure (\<lambda>(path, spans, frontier). sum_list (map size frontier))"
    by (simp add: rev_map [symmetric])
  show "((path, spans @ [node_span node], frontier), path, spans, node # frontier)
      \<in> measure (\<lambda>(path, spans, frontier). sum_list (map size frontier))"
    by (cases node) simp
qed simp

definition malformed_spans :: "syntax_node \<Rightarrow> string \<Rightarrow> (byte_span list, knowledge_error) result" where
  "malformed_spans root path = and_then (malformed_loop path [] [root]) (\<lambda>spans. Ok (sort_dedup spans))"

section \<open>Names and paths\<close>

definition trim_text :: "string \<Rightarrow> string" where
  "trim_text s = concat (rev (dropWhile is_whitespace (rev (dropWhile is_whitespace (chars_of s)))))"

function trim_start_matches :: "string \<Rightarrow> string \<Rightarrow> string" where
  "trim_start_matches p s = (if p \<noteq> [] \<and> starts_with p s then trim_start_matches p (drop (length p) s) else s)"
  by pat_completeness auto

termination
proof (relation "measure (length \<circ> snd)")
  show "((p, drop (length p) s), p, s) \<in> measure (length \<circ> snd)" if "p \<noteq> [] \<and> starts_with p s" for p s
    using that by (cases s) (auto simp: starts_with_def)
qed simp

definition strip_suffix :: "string \<Rightarrow> string \<Rightarrow> string option" where
  "strip_suffix p s = map_option rev (strip_prefix (rev p) (rev s))"

text \<open>Splitting at a text: \<open>split_once\<close> at its first occurrence, \<open>rsplit_once\<close> at its last, \<open>split\<close> at all.\<close>

fun split_once_text :: "string \<Rightarrow> string \<Rightarrow> (string \<times> string) option" where
  "split_once_text p s =
     (if starts_with p s then Some ([], drop (length p) s)
      else case s of [] \<Rightarrow> None | c # cs \<Rightarrow> map_option (\<lambda>(a, b). (c # a, b)) (split_once_text p cs))"

definition rsplit_once_text :: "string \<Rightarrow> string \<Rightarrow> (string \<times> string) option" where
  "rsplit_once_text p s = map_option (\<lambda>(a, b). (rev b, rev a)) (split_once_text (rev p) (rev s))"

lemma split_once_text_shorter:
  "p \<noteq> [] \<Longrightarrow> split_once_text p s = Some (a, b) \<Longrightarrow> length b < length s"
proof (induction s arbitrary: a)
  case (Cons c s)
  then show ?case
    by (subst (asm) split_once_text.simps) (fastforce split: if_splits simp: starts_with_def)
qed (simp add: starts_with_def)

declare split_once_text.simps [simp del] trim_start_matches.simps [simp del]

function split_text :: "string \<Rightarrow> string \<Rightarrow> string list" where
  "split_text p s =
     (if p = [] then [s] else case split_once_text p s of None \<Rightarrow> [s] | Some (a, b) \<Rightarrow> a # split_text p b)"
  by pat_completeness auto

termination
  by (relation "measure (length \<circ> snd)") (auto simp: split_once_text_shorter)

declare split_text.simps [simp del]

fun join_text :: "string \<Rightarrow> string list \<Rightarrow> string" where
  "join_text sep [] = []"
| "join_text sep [p] = p"
| "join_text sep (p # q # ps) = p @ sep @ join_text sep (q # ps)"

definition normalize_identifier :: "(string \<Rightarrow> string) \<Rightarrow> string \<Rightarrow> string" where
  "normalize_identifier nfc v = nfc (trim_start_matches ''r#'' (trim_text v))"

definition parent_scope :: "string \<Rightarrow> string option" where
  "parent_scope scope = (if scope = ''crate'' then None else map_option fst (rsplit_once_text ''::'' scope))"

definition use_base :: "(string \<Rightarrow> string) \<Rightarrow> string \<Rightarrow> string \<Rightarrow> (string, knowledge_error) result" where
  "use_base nfc prefix scope =
     (case map (normalize_identifier nfc) (split_text ''::'' prefix) of
        [] \<Rightarrow> Err K_UnsupportedCrateShape
      | first # rest \<Rightarrow>
          if first = ''crate'' then Ok (join_text ''::'' (''crate'' # rest))
          else if first = ''self'' then Ok (join_text ''::'' (scope # rest))
          else if first = ''super'' then
            and_then (ok_or K_UnsupportedCrateShape (parent_scope scope)) (\<lambda>parent. Ok (join_text ''::'' (parent # rest)))
          else Err K_UnsupportedCrateShape)"

definition extraction_limit :: "string \<Rightarrow> nat \<Rightarrow> knowledge_error" where
  "extraction_limit limit maximum = K_LimitExceeded limit maximum (maximum + 1)"

fun import_targets ::
  "(string \<Rightarrow> string) \<Rightarrow> string \<Rightarrow> string list \<Rightarrow> string list \<Rightarrow> (string list, knowledge_error) result" where
  "import_targets nfc base targets [] = Ok targets"
| "import_targets nfc base targets (name # names) =
     (if length targets \<ge> max_s2_relationships then Err (extraction_limit ''relationships'' max_s2_relationships)
      else import_targets nfc base (targets @ [base @ ''::'' @ normalize_identifier nfc name]) names)"

definition grouped_import_targets :: "(string \<Rightarrow> string) \<Rightarrow> string \<Rightarrow> string \<Rightarrow> (string list, knowledge_error) result" where
  "grouped_import_targets nfc text scope =
     and_then (ok_or K_ContractInvalid
       (case strip_prefix ''use '' (trim_text text) of None \<Rightarrow> None | Some v \<Rightarrow> strip_suffix '';'' v)) (\<lambda>v.
     and_then (ok_or K_UnsupportedCrateShape
       (case split_once_text ''::{'' v of
          None \<Rightarrow> None
        | Some (prefix, names) \<Rightarrow> map_option (\<lambda>names. (prefix, names)) (strip_suffix ''}'' names))) (\<lambda>(prefix, names).
     and_then (use_base nfc prefix scope) (\<lambda>base.
     and_then (import_targets nfc base [] (filter (\<lambda>name. name \<noteq> []) (map trim_text (split_on CHR '','' names)))) (\<lambda>targets.
     if targets = [] then Err K_UnsupportedCrateShape else Ok targets))))"

section \<open>The builder\<close>

text \<open>\<open>EntityKind\<close>, \<open>EntityKey\<close> and \<open>EvidenceKey\<close> derive \<open>Ord\<close>: fields and variants in the order of their declaration.\<close>

fun entity_kind_rank :: "entity_kind \<Rightarrow> nat" where
  "entity_kind_rank RustCrate = 0"
| "entity_kind_rank SourceFile = 1"
| "entity_kind_rank RustModule = 2"
| "entity_kind_rank RustStruct = 3"
| "entity_kind_rank RustEnum = 4"
| "entity_kind_rank RustTrait = 5"
| "entity_kind_rank RustTypeAlias = 6"
| "entity_kind_rank RustFunction = 7"
| "entity_kind_rank RustMethod = 8"
| "entity_kind_rank RustSymbolReference = 9"

lemma entity_kind_rank_inject [simp]: "entity_kind_rank k = entity_kind_rank l \<longleftrightarrow> k = l"
  by (cases k; cases l) simp_all

datatype entity_key = EntityKey (ek_kind: entity_kind) (ek_canonical_identity: string)

instantiation entity_key :: linorder
begin

definition less_eq_entity_key :: "entity_key \<Rightarrow> entity_key \<Rightarrow> bool" where
  "k \<le> l \<longleftrightarrow> (entity_kind_rank (ek_kind k), ek_canonical_identity k) \<le> (entity_kind_rank (ek_kind l), ek_canonical_identity l)"

definition less_entity_key :: "entity_key \<Rightarrow> entity_key \<Rightarrow> bool" where
  "k < l \<longleftrightarrow> (entity_kind_rank (ek_kind k), ek_canonical_identity k) < (entity_kind_rank (ek_kind l), ek_canonical_identity l)"

instance
  by standard (auto simp: less_eq_entity_key_def less_entity_key_def entity_key.expand)

end

datatype evidence_key = EvidenceKey (vk_span: byte_span) (vk_syntax_kind: string)

instantiation evidence_key :: linorder
begin

definition less_eq_evidence_key :: "evidence_key \<Rightarrow> evidence_key \<Rightarrow> bool" where
  "k \<le> l \<longleftrightarrow> (vk_span k, vk_syntax_kind k) \<le> (vk_span l, vk_syntax_kind l)"

definition less_evidence_key :: "evidence_key \<Rightarrow> evidence_key \<Rightarrow> bool" where
  "k < l \<longleftrightarrow> (vk_span k, vk_syntax_kind k) < (vk_span l, vk_syntax_kind l)"

instance
  by standard (auto simp: less_eq_evidence_key_def less_evidence_key_def evidence_key.expand)

end

record entity_draft =
  dr_key :: entity_key
  dr_display_name :: string
  dr_properties :: "(string, string) btree"
  dr_evidence :: evidence_key

record relationship_draft =
  rd_kind :: relationship_kind
  rd_source :: entity_key
  rd_target :: entity_key
  rd_evidence :: evidence_key

record pending_import =
  pi_owner :: entity_key
  pi_target_paths :: "string list"
  pi_evidence :: evidence_key

record builder =
  bd_repository_identity :: string
  bd_commit_oid :: string
  bd_blob_oid :: string
  bd_path :: string
  bd_source :: string
  bd_malformed :: "byte_span list"
  bd_entities :: "(entity_key, entity_draft) btree"
  bd_relationships :: "relationship_draft list"
  bd_pending_imports :: "pending_import list"
  bd_diagnostics :: "extraction_diagnostic list"
  bd_extra_gaps :: "(string \<times> byte_span \<times> evidence_key) list"

definition node_evidence_key :: "syntax_node \<Rightarrow> (evidence_key, knowledge_error) result" where
  "node_evidence_key node = and_then (declaration_span node) (\<lambda>span. Ok (EvidenceKey span (sn_kind node)))"

definition root_evidence_key :: "string \<Rightarrow> evidence_key" where
  "root_evidence_key source = EvidenceKey (ByteSpan 0 (length source)) ''source_file''"

definition node_is_malformed :: "builder \<Rightarrow> syntax_node \<Rightarrow> bool" where
  "node_is_malformed b node = list_ex (\<lambda>malformed. intersects (node_span node) malformed) (bd_malformed b)"

definition add_entity ::
  "entity_kind \<Rightarrow> string \<Rightarrow> string \<Rightarrow> (string, string) btree \<Rightarrow> evidence_key \<Rightarrow> builder \<Rightarrow>
   (entity_key \<times> builder, knowledge_error) result" where
  "add_entity kind canonical_identity display_name properties evidence b =
     (let key = EntityKey kind canonical_identity in
      case bt_get (bd_entities b) key of
        Some existing \<Rightarrow>
          Err (K_NormalizationCollision kind canonical_identity (bd_path b) (vk_span (dr_evidence existing)) (vk_span evidence))
      | None \<Rightarrow>
          if length (bd_entities b) \<ge> max_s2_entities then Err (extraction_limit ''entities'' max_s2_entities)
          else Ok (key, b\<lparr>bd_entities := bt_put key
            \<lparr>dr_key = key, dr_display_name = display_name, dr_properties = properties, dr_evidence = evidence\<rparr> (bd_entities b)\<rparr>))"

definition push_relationship :: "relationship_draft \<Rightarrow> builder \<Rightarrow> (builder, knowledge_error) result" where
  "push_relationship r b =
     (if length (bd_relationships b) \<ge> max_s2_relationships
      then Err (extraction_limit ''relationships'' max_s2_relationships)
      else Ok (b\<lparr>bd_relationships := bd_relationships b @ [r]\<rparr>))"

definition push_diagnostic :: "extraction_diagnostic \<Rightarrow> builder \<Rightarrow> (builder, knowledge_error) result" where
  "push_diagnostic d b =
     (if length (bd_diagnostics b) \<ge> max_s2_diagnostics then Err (extraction_limit ''diagnostics'' max_s2_diagnostics)
      else Ok (b\<lparr>bd_diagnostics := bd_diagnostics b @ [d]\<rparr>))"

definition push_gap :: "string \<times> byte_span \<times> evidence_key \<Rightarrow> builder \<Rightarrow> (builder, knowledge_error) result" where
  "push_gap g b =
     (if length (bd_extra_gaps b) \<ge> max_s2_coverage_gaps then Err (extraction_limit ''coverage_gaps'' max_s2_coverage_gaps)
      else Ok (b\<lparr>bd_extra_gaps := bd_extra_gaps b @ [g]\<rparr>))"

definition warning :: "string \<Rightarrow> string \<Rightarrow> byte_span \<Rightarrow> extraction_diagnostic" where
  "warning code path span = \<lparr>ed_code = code, ed_severity = ''warning'', ed_path = path, ed_span = span\<rparr>"

definition add_unsupported :: "syntax_node \<Rightarrow> evidence_key \<Rightarrow> builder \<Rightarrow> (builder, knowledge_error) result" where
  "add_unsupported node root_evidence b =
     and_then (push_diagnostic (warning ''extraction.unsupported_construct'' (bd_path b) (node_span node)) b) (\<lambda>b.
     push_gap (''unsupported_construct'', node_span node, root_evidence) b)"

definition add_named_declaration ::
  "(string \<Rightarrow> string) \<Rightarrow> syntax_node \<Rightarrow> entity_key \<Rightarrow> string \<Rightarrow> entity_kind \<Rightarrow> builder \<Rightarrow>
   (entity_key \<times> builder, knowledge_error) result" where
  "add_named_declaration nfc node owner scope kind b =
     and_then (node_name node (bd_source b)) (\<lambda>name.
     let canonical_identity = scope @ ''::'' @ normalize_identifier nfc name in
     and_then (node_evidence_key node) (\<lambda>evidence.
     and_then (visibility node (bd_source b)) (\<lambda>v.
     and_then (add_entity kind canonical_identity name (bt_collect [(''visibility'', v)]) evidence b) (\<lambda>(key, b).
     and_then (push_relationship \<lparr>rd_kind = Defines, rd_source = owner, rd_target = key, rd_evidence = evidence\<rparr> b) (\<lambda>b.
     Ok (key, b))))))"

text \<open>A method of a trait or of a trait implementation.\<close>

definition add_method ::
  "(string \<Rightarrow> string) \<Rightarrow> entity_key \<Rightarrow> syntax_node \<Rightarrow> builder \<Rightarrow> (builder, knowledge_error) result" where
  "add_method nfc owner child b =
     and_then (node_name child (bd_source b)) (\<lambda>name.
     and_then (node_evidence_key child) (\<lambda>evidence.
     and_then (add_entity RustMethod (ek_canonical_identity owner @ ''::'' @ normalize_identifier nfc name) name
         (bt_collect [(''owner_kind'', entity_kind_str (ek_kind owner)), (''visibility'', ''inherited_trait'')]) evidence b) (\<lambda>(key, b).
     push_relationship \<lparr>rd_kind = Defines, rd_source = owner, rd_target = key, rd_evidence = evidence\<rparr> b)))"

fun add_methods ::
  "(string \<Rightarrow> string) \<Rightarrow> string \<Rightarrow> entity_key \<Rightarrow> syntax_node list \<Rightarrow> builder \<Rightarrow> (builder, knowledge_error) result" where
  "add_methods nfc method_kind owner [] b = Ok b"
| "add_methods nfc method_kind owner (child # children) b =
     (if sn_kind child \<noteq> method_kind \<or> node_is_malformed b child then add_methods nfc method_kind owner children b
      else and_then (add_method nfc owner child b) (\<lambda>b. add_methods nfc method_kind owner children b))"

definition add_trait ::
  "(string \<Rightarrow> string) \<Rightarrow> syntax_node \<Rightarrow> entity_key \<Rightarrow> string \<Rightarrow> builder \<Rightarrow> (builder, knowledge_error) result" where
  "add_trait nfc node owner scope b =
     and_then (add_named_declaration nfc node owner scope RustTrait b) (\<lambda>(trait_key, b).
     and_then (ok_or K_ContractInvalid (child_by_field_name node ''body'')) (\<lambda>body.
     add_methods nfc ''function_signature_item'' trait_key (named_children body) b))"

fun find_exact_loop ::
  "builder \<Rightarrow> string \<Rightarrow> entity_key option \<Rightarrow> entity_kind list \<Rightarrow> entity_key option" where
  "find_exact_loop b canonical_identity found [] = found"
| "find_exact_loop b canonical_identity found (kind # kinds) =
     (if bt_get (bd_entities b) (EntityKey kind canonical_identity) \<noteq> None
      then if found \<noteq> None then None
        else find_exact_loop b canonical_identity (Some (EntityKey kind canonical_identity)) kinds
      else find_exact_loop b canonical_identity found kinds)"

definition find_exact :: "builder \<Rightarrow> string \<Rightarrow> entity_kind list \<Rightarrow> entity_key option" where
  "find_exact b canonical_identity kinds = find_exact_loop b canonical_identity None kinds"

lemma split_once_text_parts: "split_once_text p s = Some (a, b) \<Longrightarrow> s = a @ p @ b"
proof (induction s arbitrary: a)
  case Nil
  then show ?case by (subst (asm) split_once_text.simps) (auto simp: starts_with_def split: if_splits)
next
  case (Cons c s)
  show ?case
  proof (cases "starts_with p (c # s)")
    case True
    with Cons.prems have "a = []" "b = drop (length p) (c # s)"
      by (subst (asm) split_once_text.simps; simp)+
    with True show ?thesis by (metis append_Nil append_take_drop_id starts_with_def)
  next
    case False
    with Cons.prems obtain a' where "split_once_text p s = Some (a', b)" "a = c # a'"
      by (subst (asm) split_once_text.simps) auto
    with Cons.IH show ?thesis by simp
  qed
qed

lemma parent_scope_shorter: "parent_scope scope = Some p \<Longrightarrow> length p < length scope"
  using split_once_text_parts [of "''::''" "rev scope"]
  by (auto simp: parent_scope_def rsplit_once_text_def split: if_splits dest!: arg_cong [of "rev scope" _ length])

function resolve_lexical :: "builder \<Rightarrow> string \<Rightarrow> string \<Rightarrow> entity_kind list \<Rightarrow> entity_key option" where
  "resolve_lexical b scope name kinds =
     (case find_exact b (scope @ ''::'' @ name) kinds of
        Some found \<Rightarrow> Some found
      | None \<Rightarrow> (case parent_scope scope of None \<Rightarrow> None | Some parent \<Rightarrow> resolve_lexical b parent name kinds))"
  by pat_completeness auto

termination
  by (relation "measure (\<lambda>(b, scope, name, kinds). length scope)") (auto simp: parent_scope_shorter)

declare resolve_lexical.simps [simp del]

definition add_impl :: "(string \<Rightarrow> string) \<Rightarrow> syntax_node \<Rightarrow> string \<Rightarrow> builder \<Rightarrow> (builder, knowledge_error) result" where
  "add_impl nfc node scope b =
     and_then (ok_or K_UnsupportedCrateShape (child_by_field_name node ''trait'')) (\<lambda>trait_node.
     and_then (ok_or K_UnsupportedCrateShape (child_by_field_name node ''type'')) (\<lambda>type_node.
     and_then (node_text trait_node (bd_source b)) (\<lambda>trait_text.
     and_then (node_text type_node (bd_source b)) (\<lambda>type_text.
     and_then (ok_or K_UnsupportedCrateShape (resolve_lexical b scope (normalize_identifier nfc trait_text)
         [RustTrait, RustSymbolReference])) (\<lambda>trait_key.
     and_then (ok_or K_UnsupportedCrateShape (resolve_lexical b scope (normalize_identifier nfc type_text)
         [RustStruct, RustEnum])) (\<lambda>type_key.
     and_then (node_evidence_key node) (\<lambda>evidence.
     and_then (push_relationship \<lparr>rd_kind = Implements, rd_source = type_key, rd_target = trait_key, rd_evidence = evidence\<rparr> b) (\<lambda>b.
     and_then (ok_or K_UnsupportedCrateShape (child_by_field_name node ''body'')) (\<lambda>body.
     add_methods nfc ''function_item'' type_key (named_children body) b)))))))))"

definition add_import ::
  "(string \<Rightarrow> string) \<Rightarrow> syntax_node \<Rightarrow> entity_key \<Rightarrow> string \<Rightarrow> builder \<Rightarrow> (builder, knowledge_error) result" where
  "add_import nfc node owner scope b =
     (if length (bd_pending_imports b) \<ge> max_s2_relationships
      then Err (extraction_limit ''relationships'' max_s2_relationships)
      else
        and_then (node_text node (bd_source b)) (\<lambda>text.
        and_then (grouped_import_targets nfc text scope) (\<lambda>targets.
        and_then (node_evidence_key node) (\<lambda>evidence.
        Ok (b\<lparr>bd_pending_imports := bd_pending_imports b @
          [\<lparr>pi_owner = owner, pi_target_paths = targets, pi_evidence = evidence\<rparr>]\<rparr>)))))"

definition importable_kinds :: "entity_kind list" where
  "importable_kinds = [RustModule, RustStruct, RustEnum, RustTrait, RustTypeAlias, RustFunction]"

definition symbol_path :: "string \<Rightarrow> string" where
  "symbol_path target_path = (case strip_prefix ''crate::'' target_path of None \<Rightarrow> target_path | Some p \<Rightarrow> p)"

definition import_key :: "builder \<Rightarrow> pending_import \<Rightarrow> string \<Rightarrow> entity_key" where
  "import_key b pending target_path =
     (case find_exact b target_path importable_kinds of
        Some key \<Rightarrow> key
      | None \<Rightarrow> EntityKey RustSymbolReference
          (''unresolved:'' @ ek_canonical_identity (pi_owner pending) @ '':'' @ symbol_path target_path))"

definition resolve_import :: "pending_import \<Rightarrow> string \<Rightarrow> builder \<Rightarrow> (builder, knowledge_error) result" where
  "resolve_import pending target_path b =
     (let target = import_key b pending target_path in
      and_then
        (if ek_kind target = RustSymbolReference \<and> bt_get (bd_entities b) target = None
         then
           and_then (add_entity RustSymbolReference (ek_canonical_identity target) (symbol_path target_path)
             (bt_collect [(''resolution'', ''unresolved''), (''symbol_path'', symbol_path target_path)]) (pi_evidence pending) b) (\<lambda>(created, b).
           and_then (push_diagnostic (warning ''extraction.unresolved_symbol'' (bd_path b) (vk_span (pi_evidence pending))) b) (\<lambda>b.
           and_then (push_gap (''unresolved_symbol'', vk_span (pi_evidence pending), pi_evidence pending) b) (\<lambda>b.
           Ok (created, b))))
         else Ok (target, b)) (\<lambda>(target, b).
      push_relationship \<lparr>rd_kind = Imports, rd_source = pi_owner pending, rd_target = target, rd_evidence = pi_evidence pending\<rparr> b))"

fun resolve_targets :: "pending_import \<Rightarrow> string list \<Rightarrow> builder \<Rightarrow> (builder, knowledge_error) result" where
  "resolve_targets pending [] b = Ok b"
| "resolve_targets pending (target_path # paths) b =
     and_then (resolve_import pending target_path b) (\<lambda>b. resolve_targets pending paths b)"

fun resolve_pending :: "pending_import list \<Rightarrow> builder \<Rightarrow> (builder, knowledge_error) result" where
  "resolve_pending [] b = Ok b"
| "resolve_pending (pending # rest) b =
     and_then (resolve_targets pending (pi_target_paths pending) b) (\<lambda>b. resolve_pending rest b)"

definition resolve_imports :: "builder \<Rightarrow> (builder, knowledge_error) result" where
  "resolve_imports b = resolve_pending (bd_pending_imports b) (b\<lparr>bd_pending_imports := []\<rparr>)"

section \<open>The walk\<close>

lemma named_children_size: "sum_list (map size (named_children node)) < size node"
proof -
  have "sum_list (map size (filter P xs)) \<le> sum_list (map size xs)" for P and xs :: "syntax_node list"
    by (induction xs) auto
  moreover have "sum_list (map size (sn_children node)) < size node"
    by (cases node) (simp add: size_list_conv_sum_list less_Suc_eq_le sum_list_mono trans_le_add2)
  ultimately show ?thesis unfolding named_children_def by (meson le_less_trans)
qed

lemma child_by_field_name_size: "child_by_field_name node name = Some child \<Longrightarrow> size child < size node"
proof -
  assume "child_by_field_name node name = Some child"
  then have "child \<in> set (sn_children node)" by (auto simp: child_by_field_name_def find_Some_iff)
  then have "size child \<le> sum_list (map size (sn_children node))" by (simp add: member_le_sum_list)
  also have "\<dots> < size node"
    by (cases node) (simp add: size_list_conv_sum_list less_Suc_eq_le sum_list_mono trans_le_add2)
  finally show ?thesis .
qed

function walk_scope ::
  "(string \<Rightarrow> string) \<Rightarrow> syntax_node \<Rightarrow> entity_key \<Rightarrow> string \<Rightarrow> nat \<Rightarrow> builder \<Rightarrow> (builder, knowledge_error) result"
and walk_nodes ::
  "(string \<Rightarrow> string) \<Rightarrow> syntax_node list \<Rightarrow> entity_key \<Rightarrow> string \<Rightarrow> nat \<Rightarrow> builder \<Rightarrow> (builder, knowledge_error) result"
where
  "walk_scope nfc container owner scope depth b =
     (if depth > limit_maximum RecursionDepth
      then Err (extraction_limit ''syntax_recursion_depth'' (limit_maximum RecursionDepth))
      else walk_nodes nfc (named_children container) owner scope depth b)"
| "walk_nodes nfc [] owner scope depth b = Ok b"
| "walk_nodes nfc (node # nodes) owner scope depth b =
     (if node_is_malformed b node then walk_nodes nfc nodes owner scope depth b
      else
        and_then
          (if sn_kind node = ''use_declaration'' then add_import nfc node owner scope b
           else if sn_kind node = ''type_item'' then
             and_then (add_named_declaration nfc node owner scope RustTypeAlias b) (\<lambda>(_, b). Ok b)
           else if sn_kind node = ''trait_item'' then add_trait nfc node owner scope b
           else if sn_kind node = ''mod_item'' then
             and_then (add_named_declaration nfc node owner scope RustModule b) (\<lambda>(module_key, b).
             and_then (ok_or K_UnsupportedCrateShape (child_by_field_name node ''body'')) (\<lambda>body.
             walk_scope nfc body module_key (ek_canonical_identity module_key) (depth + 1) b))
           else if sn_kind node = ''struct_item'' then
             and_then (add_named_declaration nfc node owner scope RustStruct b) (\<lambda>(_, b). Ok b)
           else if sn_kind node = ''enum_item'' then
             and_then (add_named_declaration nfc node owner scope RustEnum b) (\<lambda>(_, b). Ok b)
           else if sn_kind node = ''function_item'' then
             and_then (add_named_declaration nfc node owner scope RustFunction b) (\<lambda>(_, b). Ok b)
           else if sn_kind node = ''impl_item'' then add_impl nfc node scope b
           else if sn_kind node \<in> {''line_comment'', ''block_comment''} then Ok b
           else add_unsupported node (root_evidence_key (bd_source b)) b) (\<lambda>b.
        walk_nodes nfc nodes owner scope depth b))"
  by pat_completeness auto

termination
proof (relation "measure (case_sum (\<lambda>(nfc, container, owner, scope, depth, b). 2 * size container + 1)
    (\<lambda>(nfc, nodes, owner, scope, depth, b). 2 * sum_list (map size nodes)))", goal_cases)
  case (2 nfc container owner scope depth b)
  then show ?case using named_children_size [of container] by simp
next
  case (3 nfc node nodes owner scope depth b)
  then show ?case by (cases node) simp
next
  case (4 nfc node nodes owner scope depth b x module_key b' body)
  then have "size body < size node" by (auto dest: child_by_field_name_size)
  then show ?case by simp
next
  case (5 nfc node nodes owner scope depth b b')
  then show ?case by (cases node) simp
qed simp

section \<open>Assembly\<close>

definition pad_zeros :: "nat \<Rightarrow> string \<Rightarrow> string" where
  "pad_zeros width digits = replicate (width - length digits) CHR ''0'' @ digits"

definition evidence_ids :: "evidence_key \<Rightarrow> evidence_key list \<Rightarrow> evidence_key list \<Rightarrow> (evidence_key, string) btree" where
  "evidence_ids root entity_evidence relationship_evidence =
     (let keys = sort_dedup (filter (\<lambda>key. key \<noteq> root) (entity_evidence @ relationship_evidence)) in
      fold (\<lambda>(index, key). bt_put key (''evidence-s2-'' @ pad_zeros 4 (show_nat (index + 1)))) (enumerate 0 keys)
        [(root, ''evidence-s2-0000'')])"

definition materialize_evidence :: "builder \<Rightarrow> (evidence_key, string) btree \<Rightarrow> source_evidence list" where
  "materialize_evidence b ids =
     sort_key source_evidence_key
       (map (\<lambda>(key, evidence_id).
          \<lparr>sev_evidence_id = evidence_id, sev_repository_identity = bd_repository_identity b, sev_commit_oid = bd_commit_oid b,
           sev_blob_oid = bd_blob_oid b, sev_path = bd_path b, sev_span = vk_span key, sev_syntax_kind = vk_syntax_kind key\<rparr>) ids)"

fun new_entities ::
  "hash \<Rightarrow> string \<Rightarrow> (evidence_key, string) btree \<Rightarrow> entity_draft list \<Rightarrow> (knowledge_entity list, knowledge_error) result" where
  "new_entities blake3 repository_identity ids [] = Ok []"
| "new_entities blake3 repository_identity ids (d # ds) =
     and_then (expect (bt_get ids (dr_evidence d))) (\<lambda>evidence_id.
     and_then (new_entities blake3 repository_identity ids ds) (\<lambda>es.
     Ok (new_knowledge_entity blake3 repository_identity (ek_kind (dr_key d)) (ek_canonical_identity (dr_key d))
       (dr_display_name d) (dr_properties d) [evidence_id] # es)))"

definition materialize_entities ::
  "hash \<Rightarrow> string \<Rightarrow> (entity_key, entity_draft) btree \<Rightarrow> (evidence_key, string) btree \<Rightarrow>
   (knowledge_entity list, knowledge_error) result" where
  "materialize_entities blake3 repository_identity drafts ids =
     and_then (new_entities blake3 repository_identity ids (map snd drafts)) (\<lambda>es. Ok (sort_key ke_entity_id es))"

definition entity_id_index :: "knowledge_entity list \<Rightarrow> (entity_key, string) btree" where
  "entity_id_index entities =
     bt_collect (map (\<lambda>e. (EntityKey (ke_kind e) (ke_canonical_identity e), ke_entity_id e)) entities)"

type_synonym grouped_drafts = "(relationship_kind \<times> string \<times> string, string btset) btree"

fun group_drafts ::
  "(entity_key, string) btree \<Rightarrow> (evidence_key, string) btree \<Rightarrow> grouped_drafts \<Rightarrow> relationship_draft list \<Rightarrow>
   (grouped_drafts, knowledge_error) result" where
  "group_drafts entity_ids ids grouped [] = Ok grouped"
| "group_drafts entity_ids ids grouped (d # ds) =
     and_then (ok_or K_ContractInvalid (bt_get entity_ids (rd_source d))) (\<lambda>source_id.
     and_then (ok_or K_ContractInvalid (bt_get entity_ids (rd_target d))) (\<lambda>target_id.
     and_then (expect (bt_get ids (rd_evidence d))) (\<lambda>evidence_id.
     let key = (rd_kind d, source_id, target_id);
         old = (case bt_get grouped key of None \<Rightarrow> [] | Some known \<Rightarrow> known)
     in group_drafts entity_ids ids (bt_put key (bs_insert evidence_id old) grouped) ds)))"

definition materialize_relationships ::
  "hash \<Rightarrow> string \<Rightarrow> relationship_draft list \<Rightarrow> (entity_key, string) btree \<Rightarrow> (evidence_key, string) btree \<Rightarrow>
   (knowledge_relationship list, knowledge_error) result" where
  "materialize_relationships blake3 repository_identity drafts entity_ids ids =
     and_then (group_drafts entity_ids ids [] drafts) (\<lambda>grouped.
     Ok (sort_key kr_relationship_id
       (map (\<lambda>((kind, source_id, target_id), evidence).
          new_knowledge_relationship blake3 repository_identity kind source_id target_id (bt_keys evidence)) grouped)))"

definition parser_claims ::
  "hash \<Rightarrow> string \<Rightarrow> knowledge_entity list \<Rightarrow> knowledge_relationship list \<Rightarrow> knowledge_claim list" where
  "parser_claims blake3 repository_identity entities relationships =
     map (\<lambda>e. parser_claim blake3 repository_identity Entity_subject (ke_entity_id e) (ke_evidence_ids e)) entities @
     map (\<lambda>r. parser_claim blake3 repository_identity Relationship_subject (kr_relationship_id r) (kr_evidence_ids r)) relationships"

definition sort_diagnostics :: "extraction_diagnostic list \<Rightarrow> extraction_diagnostic list" where
  "sort_diagnostics diagnostics = remdups_adj (sort_key diagnostic_key diagnostics)"

definition materialize_coverage ::
  "string \<Rightarrow> nat \<Rightarrow> (string \<times> byte_span \<times> evidence_key) list \<Rightarrow> (evidence_key, string) btree \<Rightarrow> string \<Rightarrow>
   extraction_coverage" where
  "materialize_coverage path source_length extra_gaps ids root_evidence_id =
     \<lparr>ec_supported_capabilities = [''grouped_imports'', ''inline_modules'', ''named_trait_implementations'', ''named_types'',
        ''rust_library_root'', ''unicode_identifiers''],
      ec_gaps = remdups_adj (sort_key knowledge_gap_key
        (map (\<lambda>code. \<lparr>kg_code = code, kg_path = path, kg_span = ByteSpan 0 source_length, kg_evidence_id = root_evidence_id\<rparr>)
           [''calls_not_extracted'', ''fields_not_extracted'', ''variants_not_extracted''] @
         map (\<lambda>(code, span, key). \<lparr>kg_code = code, kg_path = path, kg_span = span,
           kg_evidence_id = (case bt_get ids key of None \<Rightarrow> root_evidence_id | Some i \<Rightarrow> i)\<rparr>) extra_gaps))\<rparr>"

definition derive_containment ::
  "hash \<Rightarrow> string \<Rightarrow> entity_key \<Rightarrow> entity_key \<Rightarrow> (entity_key, string) btree \<Rightarrow> knowledge_claim list \<Rightarrow> string \<Rightarrow>
   (knowledge_relationship \<times> knowledge_claim, knowledge_error) result" where
  "derive_containment blake3 repository_identity crate_key file_key entity_ids claims root_evidence_id =
     and_then (ok_or K_ContractInvalid (bt_get entity_ids crate_key)) (\<lambda>crate_id.
     and_then (ok_or K_ContractInvalid (bt_get entity_ids file_key)) (\<lambda>file_id.
     let contains = new_knowledge_relationship blake3 repository_identity Contains crate_id file_id [root_evidence_id];
         entity_claims = bt_collect (map (\<lambda>c. (kc_subject_id c, kc_claim_id c))
           (filter (\<lambda>c. kc_subject_kind c = Entity_subject) claims))
     in
     and_then (ok_or K_ContractInvalid (bt_get entity_claims (kr_source_entity_id contains))) (\<lambda>source_claim.
     and_then (ok_or K_ContractInvalid (bt_get entity_claims (kr_target_entity_id contains))) (\<lambda>target_claim.
     Ok (contains, containment_rule blake3 repository_identity (kr_relationship_id contains) [source_claim, target_claim]
       (kr_evidence_ids contains))))))"

definition finish ::
  "hash \<Rightarrow> entity_key \<Rightarrow> entity_key \<Rightarrow> evidence_key \<Rightarrow> builder \<Rightarrow> (rust_knowledge, knowledge_error) result" where
  "finish blake3 crate_key file_key root_evidence b =
     (let repository_identity = bd_repository_identity b;
          ids = evidence_ids root_evidence (map (dr_evidence \<circ> snd) (bd_entities b)) (map rd_evidence (bd_relationships b))
      in
      if length ids > max_s2_evidence then Err (extraction_limit ''evidence_records'' max_s2_evidence)
      else
        and_then (ok_or K_ContractInvalid (bt_get ids root_evidence)) (\<lambda>root_evidence_id.
        let evidence = materialize_evidence b ids in
        and_then (materialize_entities blake3 repository_identity (bd_entities b) ids) (\<lambda>entities.
        let entity_ids = entity_id_index entities in
        and_then (materialize_relationships blake3 repository_identity (bd_relationships b) entity_ids ids) (\<lambda>relationships.
        let claims = sort_key kc_claim_id (parser_claims blake3 repository_identity entities relationships);
            diagnostics = sort_diagnostics (bd_diagnostics b);
            source_length = length (bd_source b);
            coverage = materialize_coverage (bd_path b) source_length (bd_extra_gaps b) ids root_evidence_id;
            chunk = \<lparr>ch_chunk_id = extraction_chunk_id blake3 repository_identity (bd_commit_oid b) (bd_blob_oid b) (bd_path b),
              ch_repository_identity = repository_identity, ch_commit_oid = bd_commit_oid b, ch_blob_oid = bd_blob_oid b,
              ch_path = bd_path b, ch_byte_length = source_length, ch_entities = entities,
              ch_relationships = relationships, ch_claims = claims, ch_evidence = evidence,
              ch_diagnostics = diagnostics, ch_coverage = coverage\<rparr>
        in
        and_then (derive_containment blake3 repository_identity crate_key file_key entity_ids claims root_evidence_id)
          (\<lambda>(contains, derived_claim).
        let graph = \<lparr>kn_repository_identity = repository_identity, kn_commit_oid = bd_commit_oid b, kn_entities = entities,
              kn_relationships = sort_key kr_relationship_id (relationships @ [contains]),
              kn_claims = sort_key kc_claim_id (claims @ [derived_claim]), kn_evidence = evidence,
              kn_diagnostics = diagnostics, kn_coverage = coverage\<rparr>;
            knowledge = \<lparr>rk_extraction_chunks = [chunk], rk_graph = graph\<rparr>
        in
        and_then (rust_knowledge_validate blake3 knowledge) (\<lambda>_. Ok knowledge))))))"

section \<open>Extraction\<close>

fun report_malformed :: "evidence_key \<Rightarrow> byte_span list \<Rightarrow> builder \<Rightarrow> (builder, knowledge_error) result" where
  "report_malformed root_evidence [] b = Ok b"
| "report_malformed root_evidence (span # spans) b =
     and_then (push_diagnostic (warning ''extraction.malformed_syntax'' (bd_path b) span) b) (\<lambda>b.
     and_then (push_gap (''malformed_syntax_excluded'', span, root_evidence) b) (\<lambda>b.
     report_malformed root_evidence spans b))"

definition extract_builder ::
  "hash \<Rightarrow> (string \<Rightarrow> string) \<Rightarrow> syntax_node \<Rightarrow> builder \<Rightarrow> (rust_knowledge, knowledge_error) result" where
  "extract_builder blake3 nfc root b =
     (let root_evidence = EvidenceKey (node_span root) ''source_file'' in
      and_then (add_entity RustCrate ''crate'' ''crate'' (bt_collect [(''crate_root'', bd_path b)]) root_evidence b) (\<lambda>(crate_key, b).
      and_then (add_entity SourceFile (''file:'' @ bd_path b) (bd_path b) (bt_collect [(''path'', bd_path b)]) root_evidence b)
        (\<lambda>(file_key, b).
      and_then (walk_scope nfc root crate_key ''crate'' 0 b) (\<lambda>b.
      and_then (resolve_imports b) (\<lambda>b.
      and_then (report_malformed root_evidence (bd_malformed b) b) (\<lambda>b.
      finish blake3 crate_key file_key root_evidence b))))))"

definition extract_source ::
  "hash \<Rightarrow> (string \<Rightarrow> string) \<Rightarrow> (string \<Rightarrow> syntax_node option) \<Rightarrow> string \<Rightarrow> string \<Rightarrow> string \<Rightarrow> string \<Rightarrow> string \<Rightarrow>
   (rust_knowledge, knowledge_error) result" where
  "extract_source blake3 nfc parse repository_identity commit_oid blob_oid path source =
     (if length source = 0 then Err K_ContractInvalid
      else if length source > limit_maximum SingleFileBytes
      then Err (extraction_limit ''single_file_bytes'' (limit_maximum SingleFileBytes))
      else
        and_then (ok_or (K_ParserCancelled path) (parse source)) (\<lambda>root.
        and_then (malformed_spans root path) (\<lambda>malformed.
        extract_builder blake3 nfc root
          \<lparr>bd_repository_identity = repository_identity, bd_commit_oid = commit_oid, bd_blob_oid = blob_oid, bd_path = path,
           bd_source = source, bd_malformed = malformed, bd_entities = [], bd_relationships = [], bd_pending_imports = [],
           bd_diagnostics = [], bd_extra_gaps = []\<rparr>)))"

end
