(* ===== verification/Knowledge_Validation.thy ===== *)
theory Knowledge_Validation
  imports Knowledge_Model
begin

text \<open>
  What the validation of the knowledge model accepts. The cardinality checks accept exactly the graphs
  whose definitions form a tree below the one crate; the claim and derivation checks accept exactly the
  claims that the constructors build from the entities and relationships; a publication is accepted when
  its graph is and its one extraction chunk is the graph without the containment.
\<close>

section \<open>Counting\<close>

lemma count_up_wf: "bt_wf m \<Longrightarrow> bt_wf (count_up k m)"
  by (simp add: count_up_def bt_wf_put)

lemma count_up_tally: "bt_wf m \<Longrightarrow> tally (count_up k m) k' = tally m k' + (if k' = k then 1 else 0)"
  by (simp add: count_up_def tally_def bt_get_put)

lemma tally_fold:
  "bt_wf m \<Longrightarrow> tally (fold (\<lambda>r. count_up (f r)) rs m) k = tally m k + length (filter (\<lambda>r. f r = k) rs)"
  by (induction rs arbitrary: m) (auto simp: count_up_wf count_up_tally)

lemma bt_wf_Nil [simp]: "bt_wf []"
  by (simp add: bt_wf_def)

lemma tally_Nil [simp]: "tally [] k = 0"
  by (simp add: tally_def)

lemma incoming_tally:
  "tally (incoming_counts rs) (t, kind) = length (filter (\<lambda>r. kr_target_entity_id r = t \<and> kr_kind r = kind) rs)"
  by (simp add: incoming_counts_def tally_fold)

lemma outgoing_tally: "tally (outgoing_counts rs) s = length (filter (\<lambda>r. kr_source_entity_id r = s) rs)"
  by (simp add: outgoing_counts_def tally_fold)

lemma each_cardinality_iff: "each_cardinality incoming outgoing es = Ok () \<longleftrightarrow> (\<forall>e\<in>set es. valid_entity_cardinality e incoming outgoing)"
  by (induction es) auto

lemma each_reachable_iff:
  "each_reachable reachable es = Ok () \<longleftrightarrow> (\<forall>e\<in>set es. is_declaration (ke_kind e) \<longrightarrow> ke_entity_id e \<in> reachable)"
  by (induction es) auto

section \<open>The walk along the definitions\<close>

definition defined_children :: "knowledge_relationship list \<Rightarrow> string \<Rightarrow> string list" where
  "defined_children rs p = map kr_target_entity_id (filter (\<lambda>r. kr_kind r = Defines \<and> kr_source_entity_id r = p) rs)"

definition child_relation :: "knowledge_relationship list \<Rightarrow> (string \<times> string) set" where
  "child_relation rs = {(p, c). c \<in> set (defined_children rs p)}"

definition children_in :: "(string, string list) btree \<Rightarrow> string \<Rightarrow> string list" where
  "children_in m p = (case bt_get m p of None \<Rightarrow> [] | Some cs \<Rightarrow> cs)"

lemma walk_defines_Cons:
  "walk_defines m reachable (parent # frontier) =
     (if parent \<in> reachable then Err (K_CardinalityViolation parent)
      else walk_defines m (insert parent reachable) (rev (children_in m parent) @ frontier))"
  by (simp add: children_in_def split: option.split)

lemma defines_children_fold:
  "bt_wf m \<Longrightarrow>
   children_in (fold (\<lambda>r m. if kr_kind r = Defines
        then bt_put (kr_source_entity_id r)
          ((case bt_get m (kr_source_entity_id r) of None \<Rightarrow> [] | Some ts \<Rightarrow> ts) @ [kr_target_entity_id r]) m
        else m) rs m) p = children_in m p @ defined_children rs p"
proof (induction rs arbitrary: m)
  case (Cons r rs)
  then show ?case by (auto simp: defined_children_def children_in_def bt_wf_put bt_get_put split: option.splits)
qed (simp add: defined_children_def)

lemma children_in_defines [simp]: "children_in (defines_children rs) p = defined_children rs p"
  by (simp add: defines_children_def defines_children_fold) (simp add: children_in_def)

lemma walk_sound:
  "walk_defines m reachable frontier = Ok found \<Longrightarrow>
   reachable \<union> set frontier \<subseteq> found \<and> found \<subseteq> reachable \<union> {(p, c). c \<in> set (children_in m p)}\<^sup>* `` set frontier \<and>
   (\<forall>p \<in> found - reachable. set (children_in m p) \<subseteq> found)"
proof (induction m reachable frontier rule: walk_defines.induct)
  case (2 m reachable parent frontier)
  let ?E = "{(p, c). c \<in> set (children_in m p)}"
  from 2(2) have new: "parent \<notin> reachable"
    and rest: "walk_defines m (insert parent reachable) (rev (children_in m parent) @ frontier) = Ok found"
    by (auto simp: walk_defines_Cons simp del: walk_defines.simps split: if_splits)
  have frontier: "(case bt_get m parent of None \<Rightarrow> frontier | Some cs \<Rightarrow> rev cs @ frontier) = rev (children_in m parent) @ frontier"
    by (simp add: children_in_def split: option.split)
  have ih: "insert parent reachable \<union> (set (children_in m parent) \<union> set frontier) \<subseteq> found"
      "found \<subseteq> insert parent reachable \<union> ?E\<^sup>* `` (set (children_in m parent) \<union> set frontier)"
      "\<forall>p \<in> found - insert parent reachable. set (children_in m p) \<subseteq> found"
    using 2(1) [OF new, unfolded frontier, OF rest] by auto
  have step: "?E\<^sup>* `` (set (children_in m parent) \<union> set frontier) \<subseteq> ?E\<^sup>* `` set (parent # frontier)"
    by (auto intro: converse_rtrancl_into_rtrancl)
  have self: "insert parent reachable \<subseteq> reachable \<union> ?E\<^sup>* `` set (parent # frontier)" by auto
  show ?case
  proof (intro conjI)
    show "reachable \<union> set (parent # frontier) \<subseteq> found" using ih(1) by auto
    show "found \<subseteq> reachable \<union> ?E\<^sup>* `` set (parent # frontier)"
      by (rule subset_trans [OF ih(2)]) (intro Un_least self le_supI2 step)
    show "\<forall>p \<in> found - reachable. set (children_in m p) \<subseteq> found" using ih(1,3) by auto
  qed
qed simp

text \<open>A node has one parent when no two entries of the children name it.\<close>

definition single_parent :: "(string \<Rightarrow> string list) \<Rightarrow> bool" where
  "single_parent kids \<longleftrightarrow> (\<forall>p. distinct (kids p)) \<and> (\<forall>p q. p \<noteq> q \<longrightarrow> set (kids p) \<inter> set (kids q) = {})"

lemma walk_ends:
  assumes "single_parent (children_in m)"
  shows "distinct frontier \<Longrightarrow> set frontier \<inter> reachable = {} \<Longrightarrow>
    (\<forall>p. p \<notin> reachable \<longrightarrow> set (children_in m p) \<inter> (reachable \<union> set frontier) = {}) \<Longrightarrow>
    \<exists>found. walk_defines m reachable frontier = Ok found"
  using assms
proof (induction m reachable frontier rule: walk_defines.induct)
  case (2 m reachable parent frontier)
  have frontier: "(case bt_get m parent of None \<Rightarrow> frontier | Some cs \<Rightarrow> rev cs @ frontier) = rev (children_in m parent) @ frontier"
    by (simp add: children_in_def split: option.split)
  have new: "parent \<notin> reachable" using 2(3) by simp
  have kids: "distinct (children_in m parent)" "\<And>p. p \<noteq> parent \<Longrightarrow> set (children_in m p) \<inter> set (children_in m parent) = {}"
    using 2(5) by (auto simp: single_parent_def)
  have apart: "set (children_in m parent) \<inter> (reachable \<union> insert parent (set frontier)) = {}"
    using 2(4) new by auto
  have "\<exists>found. walk_defines m (insert parent reachable) (rev (children_in m parent) @ frontier) = Ok found"
  proof (rule 2(1) [OF new, unfolded frontier])
    show "distinct (rev (children_in m parent) @ frontier)" using 2(2) kids(1) apart by auto
    show "set (rev (children_in m parent) @ frontier) \<inter> insert parent reachable = {}" using 2(2,3) apart by auto
    show "\<forall>p. p \<notin> insert parent reachable \<longrightarrow>
        set (children_in m p) \<inter> (insert parent reachable \<union> set (rev (children_in m parent) @ frontier)) = {}"
      using 2(4) kids(2) by auto
  qed (rule 2(5))
  with new show ?case by (simp add: walk_defines_Cons del: walk_defines.simps)
qed simp

lemma walk_from_root:
  assumes "single_parent (defined_children rs)" and root: "\<And>p. root \<notin> set (defined_children rs p)"
  shows "walk_defines (defines_children rs) {} [root] = Ok ((child_relation rs)\<^sup>* `` {root})"
proof -
  obtain found where walk: "walk_defines (defines_children rs) {} [root] = Ok found"
    using walk_ends [of "defines_children rs" "[root]" "{}"] assms by (auto simp: single_parent_def)
  have E: "{(p, c). c \<in> set (defined_children rs p)} = child_relation rs" by (simp add: child_relation_def)
  from walk_sound [OF walk] have found: "root \<in> found" "found \<subseteq> (child_relation rs)\<^sup>* `` {root}"
      "\<forall>p\<in>found. set (defined_children rs p) \<subseteq> found"
    by (simp_all add: E)
  have "x \<in> found" if "(root, x) \<in> (child_relation rs)\<^sup>*" for x
    using that by (induction rule: rtrancl_induct) (use found in \<open>auto simp: child_relation_def\<close>)
  with found walk show ?thesis by (auto intro: subset_antisym)
qed

section \<open>Trees of definitions\<close>

text \<open>When every node has one parent at most, a node below a root without parent is on no cycle.\<close>

lemma below_root_no_cycle:
  assumes single: "\<And>p q c. (p, c) \<in> E \<Longrightarrow> (q, c) \<in> E \<Longrightarrow> p = q" and root: "\<And>p. (p, root) \<notin> E"
    and below: "(root, x) \<in> E\<^sup>*"
  shows "(x, x) \<notin> E\<^sup>+"
  using below
proof (induction rule: rtrancl_induct)
  case base
  then show ?case using root by (meson tranclE)
next
  case (step y x)
  show ?case
  proof
    assume "(x, x) \<in> E\<^sup>+"
    then obtain z where "(x, z) \<in> E\<^sup>*" "(z, x) \<in> E" by (metis tranclD2)
    with single step(2) have "(x, y) \<in> E\<^sup>*" by blast
    with step(2,3) show False by (meson rtrancl_into_trancl2)
  qed
qed

text \<open>Every relationship joins two entities of the graph whose kinds its kind allows.\<close>

definition endpoints_allowed :: "knowledge_entity list \<Rightarrow> knowledge_relationship list \<Rightarrow> bool" where
  "endpoints_allowed es rs \<longleftrightarrow>
     (\<forall>r \<in> set rs. \<exists>s \<in> set es. \<exists>t \<in> set es. ke_entity_id s = kr_source_entity_id r \<and> ke_entity_id t = kr_target_entity_id r \<and>
       relationship_endpoint_allowed (kr_kind r) (ke_kind s) (ke_kind t))"

text \<open>
  The shape of a graph: one crate; every file in one containment; every declaration in one definition;
  every symbol reference imported or implemented; no declaration, however indirectly, defined by itself.
\<close>

definition graph_shape :: "knowledge_entity list \<Rightarrow> knowledge_relationship list \<Rightarrow> bool" where
  "graph_shape es rs \<longleftrightarrow>
     (\<exists>!e. e \<in> set es \<and> ke_kind e = RustCrate) \<and>
     (\<forall>e \<in> set es. ke_kind e = SourceFile \<longrightarrow>
       (\<exists>!r. r \<in> set rs \<and> kr_kind r = Contains \<and> kr_target_entity_id r = ke_entity_id e)) \<and>
     (\<forall>e \<in> set es. is_declaration (ke_kind e) \<longrightarrow>
       (\<exists>!r. r \<in> set rs \<and> kr_kind r = Defines \<and> kr_target_entity_id r = ke_entity_id e)) \<and>
     (\<forall>e \<in> set es. ke_kind e = RustSymbolReference \<longrightarrow>
       (\<exists>r \<in> set rs. kr_kind r \<in> {Imports, Implements} \<and> kr_target_entity_id r = ke_entity_id e)) \<and>
     acyclic (child_relation rs)"

lemma length_filter_one: "distinct xs \<Longrightarrow> length (filter P xs) = Suc 0 \<longleftrightarrow> (\<exists>!x. x \<in> set xs \<and> P x)"
proof -
  assume "distinct xs"
  then have "length (filter P xs) = card {x \<in> set xs. P x}"
    by (metis distinct_card distinct_filter set_filter)
  then show ?thesis by (auto simp: card_1_singleton_iff Ex1_def)
qed

lemma length_filter_zero: "length (filter P xs) = 0 \<longleftrightarrow> (\<forall>x \<in> set xs. \<not> P x)"
  by (auto simp: filter_empty_conv)

lemma endpoint_kinds:
  "relationship_endpoint_allowed kind s t \<Longrightarrow> s \<noteq> RustSymbolReference"
  "relationship_endpoint_allowed Defines s t \<Longrightarrow> is_declaration t"
  "relationship_endpoint_allowed Defines s t \<Longrightarrow> s = RustCrate \<or> is_declaration s"
  "relationship_endpoint_allowed Contains s t \<Longrightarrow> s = RustCrate \<and> t = SourceFile"
  by (cases kind; auto simp: is_declaration_def)+

lemma entity_inject:
  "distinct (map ke_entity_id es) \<Longrightarrow> e \<in> set es \<Longrightarrow> e' \<in> set es \<Longrightarrow> ke_entity_id e = ke_entity_id e' \<Longrightarrow> e = e'"
  by (auto simp: distinct_map dest: inj_onD)

text \<open>What the counts of the validation say of one entity.\<close>

lemma entity_cardinality_iff:
  assumes ids: "distinct (map ke_entity_id es)" and "distinct rs" and ends: "endpoints_allowed es rs" and e: "e \<in> set es"
  shows "valid_entity_cardinality e (incoming_counts rs) (outgoing_counts rs) \<longleftrightarrow>
     (ke_kind e = SourceFile \<longrightarrow> (\<exists>!r. r \<in> set rs \<and> kr_kind r = Contains \<and> kr_target_entity_id r = ke_entity_id e)) \<and>
     (is_declaration (ke_kind e) \<longrightarrow> (\<exists>!r. r \<in> set rs \<and> kr_kind r = Defines \<and> kr_target_entity_id r = ke_entity_id e)) \<and>
     (ke_kind e = RustSymbolReference \<longrightarrow>
       (\<exists>r \<in> set rs. kr_kind r \<in> {Imports, Implements} \<and> kr_target_entity_id r = ke_entity_id e))"
proof -
  have one: "length (filter (\<lambda>r. kr_target_entity_id r = ke_entity_id e \<and> kr_kind r = kind) rs) = Suc 0 \<longleftrightarrow>
      (\<exists>!r. r \<in> set rs \<and> kr_kind r = kind \<and> kr_target_entity_id r = ke_entity_id e)" for kind
    using length_filter_one [OF \<open>distinct rs\<close>] by (simp add: conj_commute)
  have some: "Suc 0 \<le> length (filter P rs) + length (filter Q rs) \<longleftrightarrow> (\<exists>r \<in> set rs. P r \<or> Q r)" for P Q
    using length_filter_zero [of P rs] length_filter_zero [of Q rs] by (auto simp: Suc_le_eq)
  have quiet: "filter (\<lambda>r. kr_source_entity_id r = ke_entity_id e) rs = []" if "ke_kind e = RustSymbolReference"
    using ends that entity_inject [OF ids e] endpoint_kinds(1)
    by (auto simp: endpoints_allowed_def filter_empty_conv) metis
  show ?thesis
    by (cases "ke_kind e") (auto simp: valid_entity_cardinality_def incoming_tally outgoing_tally one some quiet is_declaration_def)
qed

lemma finite_child_relation: "finite (child_relation rs)"
proof (rule finite_subset)
  show "child_relation rs \<subseteq> set (map (\<lambda>r. (kr_source_entity_id r, kr_target_entity_id r)) rs)"
    by (auto simp: child_relation_def defined_children_def)
qed simp

lemma child_relation_iff:
  "(p, c) \<in> child_relation rs \<longleftrightarrow>
   (\<exists>r \<in> set rs. kr_kind r = Defines \<and> kr_source_entity_id r = p \<and> kr_target_entity_id r = c)"
  by (auto simp: child_relation_def defined_children_def)

text \<open>A graph whose declarations have one definition each.\<close>

definition defined_once :: "knowledge_entity list \<Rightarrow> knowledge_relationship list \<Rightarrow> bool" where
  "defined_once es rs \<longleftrightarrow> (\<forall>e \<in> set es. is_declaration (ke_kind e) \<longrightarrow>
     (\<exists>!r. r \<in> set rs \<and> kr_kind r = Defines \<and> kr_target_entity_id r = ke_entity_id e))"

lemma defined_onceD:
  assumes "defined_once es rs" "endpoints_allowed es rs" "r \<in> set rs" "r' \<in> set rs" "kr_kind r = Defines" "kr_kind r' = Defines"
    "kr_target_entity_id r = kr_target_entity_id r'"
  shows "r = r'"
proof -
  from assms(2,3,5) obtain t where "t \<in> set es" "ke_entity_id t = kr_target_entity_id r" "is_declaration (ke_kind t)"
    using endpoint_kinds(2) unfolding endpoints_allowed_def by metis
  with assms(1,3-7) show ?thesis unfolding defined_once_def by metis
qed

lemma defined_once_single_parent:
  assumes "distinct rs" "defined_once es rs" "endpoints_allowed es rs"
  shows "single_parent (defined_children rs)"
  using assms(1) defined_onceD [OF assms(2,3)] unfolding single_parent_def defined_children_def
  by (auto simp: distinct_map inj_on_def)

lemma crate_not_defined:
  assumes "distinct (map ke_entity_id es)" "endpoints_allowed es rs" "e \<in> set es" "ke_kind e = RustCrate"
  shows "ke_entity_id e \<notin> set (defined_children rs p)"
proof
  assume "ke_entity_id e \<in> set (defined_children rs p)"
  then obtain r where "r \<in> set rs" "kr_kind r = Defines" "kr_target_entity_id r = ke_entity_id e" by (auto simp: defined_children_def)
  with assms endpoint_kinds(2) obtain t where "t \<in> set es" "ke_entity_id t = ke_entity_id e" "is_declaration (ke_kind t)"
    unfolding endpoints_allowed_def by metis
  with assms entity_inject have "is_declaration RustCrate" by metis
  then show False by (simp add: is_declaration_def)
qed

text \<open>Every declaration is below the crate exactly when no declaration is below itself.\<close>

lemma below_crate_iff_acyclic:
  assumes ids: "distinct (map ke_entity_id es)" and ends: "endpoints_allowed es rs" and once: "defined_once es rs"
    and crate: "crate \<in> set es" "ke_kind crate = RustCrate" and only: "\<And>e. e \<in> set es \<Longrightarrow> ke_kind e = RustCrate \<Longrightarrow> e = crate"
  shows "(\<forall>e \<in> set es. is_declaration (ke_kind e) \<longrightarrow> (ke_entity_id crate, ke_entity_id e) \<in> (child_relation rs)\<^sup>*) \<longleftrightarrow>
    acyclic (child_relation rs)" (is "?below \<longleftrightarrow> _")
proof
  assume below: ?below
  have single: "p = q" if "(p, c) \<in> child_relation rs" "(q, c) \<in> child_relation rs" for p q c
    using that defined_onceD [OF once ends] by (auto simp: child_relation_iff)
  have root: "(p, ke_entity_id crate) \<notin> child_relation rs" for p
    using crate_not_defined [OF ids ends crate] by (simp add: child_relation_def)
  show "acyclic (child_relation rs)"
  proof (rule acyclicI, safe)
    fix x assume cycle: "(x, x) \<in> (child_relation rs)\<^sup>+"
    then obtain p where "(p, x) \<in> child_relation rs" by (meson tranclE)
    then obtain e where "e \<in> set es" "ke_entity_id e = x" "is_declaration (ke_kind e)"
      using ends endpoint_kinds(2) unfolding child_relation_iff endpoints_allowed_def by metis
    with below have "(ke_entity_id crate, x) \<in> (child_relation rs)\<^sup>*" by auto
    from below_root_no_cycle [OF single root this] cycle show False by simp
  qed
next
  assume "acyclic (child_relation rs)"
  then have wf: "wf (child_relation rs)" by (rule finite_acyclic_wf [OF finite_child_relation])
  have "(ke_entity_id crate, x) \<in> (child_relation rs)\<^sup>*"
    if "e \<in> set es" "is_declaration (ke_kind e)" "ke_entity_id e = x" for e x
    using wf that
  proof (induction x arbitrary: e rule: wf_induct_rule)
    case (less x)
    then obtain r where r: "r \<in> set rs" "kr_kind r = Defines" "kr_target_entity_id r = x"
      using once unfolding defined_once_def by metis
    with ends endpoint_kinds(3) obtain s where s: "s \<in> set es" "ke_entity_id s = kr_source_entity_id r"
        "ke_kind s = RustCrate \<or> is_declaration (ke_kind s)"
      unfolding endpoints_allowed_def by metis
    have edge: "(ke_entity_id s, x) \<in> child_relation rs" using r s by (auto simp: child_relation_iff)
    have "(ke_entity_id crate, ke_entity_id s) \<in> (child_relation rs)\<^sup>*"
      using s(1,3) only less(1) [OF edge] by auto
    then show ?case using edge by (rule rtrancl_into_rtrancl)
  qed
  then show ?below by blast
qed

lemma single_crate:
  assumes "distinct (map ke_entity_id es)"
  shows "(\<exists>!e. e \<in> set es \<and> ke_kind e = RustCrate) \<longleftrightarrow> (\<exists>e. filter (\<lambda>e. ke_kind e = RustCrate) es = [e])"
  using length_filter_one [of es "\<lambda>e. ke_kind e = RustCrate"] assms
  by (simp add: distinct_map length_Suc_conv)

lemma validate_cardinalities_shape:
  assumes ids: "distinct (map ke_entity_id es)" and "distinct rs" and ends: "endpoints_allowed es rs"
  shows "validate_cardinalities es rs = Ok () \<longleftrightarrow> graph_shape es rs"
proof (cases "\<exists>!e. e \<in> set es \<and> ke_kind e = RustCrate")
  case False
  then have "map ke_entity_id (filter (\<lambda>e. ke_kind e = RustCrate) es) \<noteq> [i]" for i
    by (auto simp: single_crate [OF ids] map_eq_Cons_conv)
  then show ?thesis
    using False by (auto simp: validate_cardinalities_def graph_shape_def split: list.splits)
next
  case True
  then obtain crate where only: "filter (\<lambda>e. ke_kind e = RustCrate) es = [crate]" by (auto simp: single_crate [OF ids])
  then have crate: "crate \<in> set es" "ke_kind crate = RustCrate" by (auto simp: filter_eq_Cons_iff)
  have unique: "e = crate" if "e \<in> set es" "ke_kind e = RustCrate" for e
    using True that crate by auto
  have walk: "walk_defines (defines_children rs) {} [ke_entity_id crate] = Ok ((child_relation rs)\<^sup>* `` {ke_entity_id crate})"
    if "defined_once es rs"
    by (rule walk_from_root [OF defined_once_single_parent [OF assms(2) that ends] crate_not_defined [OF ids ends crate]])
  have cards: "each_cardinality (incoming_counts rs) (outgoing_counts rs) es = Ok () \<longleftrightarrow>
     (\<forall>e \<in> set es. ke_kind e = SourceFile \<longrightarrow>
       (\<exists>!r. r \<in> set rs \<and> kr_kind r = Contains \<and> kr_target_entity_id r = ke_entity_id e)) \<and> defined_once es rs \<and>
     (\<forall>e \<in> set es. ke_kind e = RustSymbolReference \<longrightarrow>
       (\<exists>r \<in> set rs. kr_kind r \<in> {Imports, Implements} \<and> kr_target_entity_id r = ke_entity_id e))"
    unfolding each_cardinality_iff defined_once_def ball_conj_distrib [symmetric]
    by (rule ball_cong [OF refl entity_cardinality_iff [OF assms]])
  have reach: "validate_defines_reachability es rs (ke_entity_id crate) = Ok () \<longleftrightarrow> acyclic (child_relation rs)" if "defined_once es rs"
    using below_crate_iff_acyclic [OF ids ends that crate unique]
    by (simp add: validate_defines_reachability_def walk [OF that] each_reachable_iff del: walk_defines.simps)
  show ?thesis
    using True reach cards
    by (simp add: validate_cardinalities_def only graph_shape_def result_iffs defined_once_def [symmetric]) blast
qed

section \<open>Claims\<close>

text \<open>The claim that the extraction makes for an entity and for a relationship.\<close>

definition entity_claim :: "hash \<Rightarrow> string \<Rightarrow> knowledge_entity \<Rightarrow> knowledge_claim" where
  "entity_claim blake3 repository_identity e =
     parser_claim blake3 repository_identity Entity_subject (ke_entity_id e) (ke_evidence_ids e)"

definition relationship_claim :: "hash \<Rightarrow> string \<Rightarrow> knowledge_relationship \<Rightarrow> knowledge_claim" where
  "relationship_claim blake3 repository_identity r =
     (if kr_kind r = Contains
      then containment_rule blake3 repository_identity (kr_relationship_id r)
        [stable_claim_id blake3 repository_identity (subject_kind_str Entity_subject) (kr_source_entity_id r),
         stable_claim_id blake3 repository_identity (subject_kind_str Entity_subject) (kr_target_entity_id r)] (kr_evidence_ids r)
      else parser_claim blake3 repository_identity Relationship_subject (kr_relationship_id r) (kr_evidence_ids r))"

definition justified_claims ::
  "hash \<Rightarrow> string \<Rightarrow> knowledge_entity list \<Rightarrow> knowledge_relationship list \<Rightarrow> knowledge_claim set" where
  "justified_claims blake3 repository_identity es rs =
     entity_claim blake3 repository_identity ` set es \<union> relationship_claim blake3 repository_identity ` set rs"

text \<open>Entities and relationships with their own identifiers, supported by the evidence.\<close>

definition subjects_valid ::
  "hash \<Rightarrow> string \<Rightarrow> knowledge_entity list \<Rightarrow> knowledge_relationship list \<Rightarrow> source_evidence list \<Rightarrow> bool" where
  "subjects_valid blake3 repository_identity es rs evidence \<longleftrightarrow>
     distinct (map ke_entity_id es) \<and> distinct (map kr_relationship_id rs) \<and>
     (\<forall>e \<in> set es. knowledge_entity_valid blake3 repository_identity (evidence_by_id evidence) e) \<and>
     (\<forall>r \<in> set rs. relationship_identified blake3 repository_identity (evidence_by_id evidence) r) \<and>
     endpoints_allowed es rs"

lemma validate_each_claim_iff: "validate_each_claim v cs = Ok () \<longleftrightarrow> (\<forall>c \<in> set cs. v c = Ok ())"
  by (induction cs) (auto simp: result_iffs)

definition derivation_ok ::
  "string set \<Rightarrow> (string, knowledge_claim) btree \<Rightarrow> (string, string) btree \<Rightarrow> (string, knowledge_relationship) btree \<Rightarrow>
   knowledge_claim \<Rightarrow> bool" where
  "derivation_ok evidence_ids claims_by_id entity_claims relationships c \<longleftrightarrow>
     (\<exists>evs. kc_state c = DeterministicFact \<and> kc_derivation c = Parser_derivation extractor_version evs \<and>
        set evs \<subseteq> evidence_ids) \<or>
     (\<exists>rule inputs evs. kc_state c = DerivedFact \<and> kc_derivation c = DeterministicRule rule inputs evs \<and>
        rule_derivation_valid evidence_ids claims_by_id entity_claims relationships (kc_subject_id c) rule inputs evs)"

lemma count_derivations_iff:
  "count_derivations evidence_ids claims_by_id entity_claims relationships n cs = Ok m \<longleftrightarrow>
   (\<forall>c \<in> set cs. derivation_ok evidence_ids claims_by_id entity_claims relationships c) \<and>
   m = n + length (filter (\<lambda>c. kc_state c = DerivedFact) cs)"
proof (induction cs arbitrary: n)
  case (Cons c cs)
  show ?case
    by (cases "kc_state c"; cases "kc_derivation c")
      (auto simp: derivation_ok_def Cons.IH list_all_iff subset_iff split: if_splits)
qed auto

lemma bt_collect_map:
  "distinct (map f xs) \<Longrightarrow> bt_get (bt_collect (map (\<lambda>x. (f x, g x)) xs)) k = Some v \<longleftrightarrow> (\<exists>x \<in> set xs. f x = k \<and> g x = v)"
  by (subst bt_collect_get) (auto simp: comp_def)

lemma knowledge_entity_by_id_get:
  "distinct (map ke_entity_id es) \<Longrightarrow> bt_get (knowledge_entity_by_id es) i = Some e \<longleftrightarrow> e \<in> set es \<and> ke_entity_id e = i"
  by (auto simp: knowledge_entity_by_id_def bt_collect_map)

lemma knowledge_relationship_by_id_get:
  "distinct (map kr_relationship_id rs) \<Longrightarrow>
   bt_get (knowledge_relationship_by_id rs) i = Some r \<longleftrightarrow> r \<in> set rs \<and> kr_relationship_id r = i"
  by (auto simp: knowledge_relationship_by_id_def bt_collect_map)

text \<open>An entity and a relationship never have the same identifier: the prefixes differ.\<close>

lemma entity_not_relationship:
  assumes "subjects_valid blake3 repository_identity es rs evidence" "e \<in> set es" "r \<in> set rs"
  shows "ke_entity_id e \<noteq> kr_relationship_id r"
proof -
  have "ke_entity_id e = stable_entity_id blake3 repository_identity (ke_kind e) (ke_canonical_identity e)"
    "kr_relationship_id r = stable_relationship_id blake3 repository_identity (kr_kind r) (kr_source_entity_id r) (kr_target_entity_id r)"
    using assms by (auto simp: subjects_valid_def knowledge_entity_valid_def relationship_identified_def)
  then show ?thesis by (simp add: stable_entity_id_def stable_relationship_id_def stable_id_def)
qed

text \<open>What the claim checks say of one claim.\<close>

definition claim_checked ::
  "hash \<Rightarrow> string \<Rightarrow> knowledge_entity list \<Rightarrow> knowledge_relationship list \<Rightarrow> knowledge_claim \<Rightarrow> bool" where
  "claim_checked blake3 repository_identity es rs c \<longleftrightarrow>
     kc_claim_id c = stable_claim_id blake3 repository_identity (subject_kind_str (kc_subject_kind c)) (kc_subject_id c) \<and>
     (case kc_subject_kind c of
        Entity_subject \<Rightarrow> \<exists>e \<in> set es. ke_entity_id e = kc_subject_id c \<and> ke_evidence_ids e = derivation_evidence_ids (kc_derivation c)
      | Relationship_subject \<Rightarrow>
          \<exists>r \<in> set rs. kr_relationship_id r = kc_subject_id c \<and> kr_evidence_ids r = derivation_evidence_ids (kc_derivation c))"

lemma validate_claim_iff:
  assumes "subjects_valid blake3 repository_identity es rs evidence"
  shows "validate_claim blake3 repository_identity (knowledge_entity_by_id es) (knowledge_relationship_by_id rs)
      (evidence_by_id evidence) c = Ok () \<longleftrightarrow> claim_checked blake3 repository_identity es rs c"
proof -
  note valid = assms [unfolded subjects_valid_def knowledge_entity_valid_def relationship_identified_def]
  have ids: "distinct (map ke_entity_id es)" "distinct (map kr_relationship_id rs)" using valid by auto
  show ?thesis
    using valid
    by (cases "kc_subject_kind c")
      (fastforce simp: validate_claim_def claim_subject_def claim_checked_def result_iffs
        knowledge_entity_by_id_get [OF ids(1)] knowledge_relationship_by_id_get [OF ids(2)])+
qed

definition claims_of_entities :: "knowledge_entity list \<Rightarrow> (string, string) btree" where
  "claims_of_entities es = bt_collect (map (\<lambda>e. (ke_entity_id e, ke_claim_id e)) es)"

lemma claims_of_entities_get:
  assumes "subjects_valid blake3 repository_identity es rs evidence" "e \<in> set es" "ke_entity_id e = i"
  shows "bt_get (claims_of_entities es) i = Some (stable_claim_id blake3 repository_identity (subject_kind_str Entity_subject) i)"
proof -
  have "ke_claim_id e = stable_claim_id blake3 repository_identity (subject_kind_str Entity_subject) (ke_entity_id e)"
    using assms by (auto simp: subjects_valid_def knowledge_entity_valid_def)
  then show ?thesis
    using assms unfolding claims_of_entities_def subjects_valid_def by (subst bt_collect_map) auto
qed

lemma expected_inputs_iff:
  assumes valid: "subjects_valid blake3 repository_identity es rs evidence"
  shows "expected_inputs (claims_of_entities es) (knowledge_relationship_by_id rs) i = Some inputs \<longleftrightarrow>
    (\<exists>r \<in> set rs. kr_relationship_id r = i \<and> kr_kind r = Contains \<and>
      inputs = [stable_claim_id blake3 repository_identity (subject_kind_str Entity_subject) (kr_source_entity_id r),
         stable_claim_id blake3 repository_identity (subject_kind_str Entity_subject) (kr_target_entity_id r)])"
proof -
  have ids: "distinct (map kr_relationship_id rs)" using valid by (simp add: subjects_valid_def)
  have ends: "bt_get (claims_of_entities es) (kr_source_entity_id r) =
        Some (stable_claim_id blake3 repository_identity (subject_kind_str Entity_subject) (kr_source_entity_id r))"
      "bt_get (claims_of_entities es) (kr_target_entity_id r) =
        Some (stable_claim_id blake3 repository_identity (subject_kind_str Entity_subject) (kr_target_entity_id r))"
    if "r \<in> set rs" for r
    using that claims_of_entities_get [OF valid] valid unfolding subjects_valid_def endpoints_allowed_def by metis+
  show ?thesis
  proof (cases "bt_get (knowledge_relationship_by_id rs) i")
    case None
    then show ?thesis
      using knowledge_relationship_by_id_get [OF ids, of i] by (auto simp: expected_inputs_def)
  next
    case (Some r)
    then have r: "r \<in> set rs" "kr_relationship_id r = i" by (auto simp: knowledge_relationship_by_id_get [OF ids])
    have "r' = r" if "r' \<in> set rs" "kr_relationship_id r' = i" for r'
      using that Some knowledge_relationship_by_id_get [OF ids, of i r'] by auto
    with r have only: "(\<exists>r' \<in> set rs. kr_relationship_id r' = i \<and> Q r') \<longleftrightarrow> Q r" for Q by blast
    show ?thesis unfolding only by (simp add: expected_inputs_def Some ends [OF r(1)] eq_commute)
  qed
qed

lemma claim_eqI:
  "kc_claim_id c = kc_claim_id d \<Longrightarrow> kc_subject_kind c = kc_subject_kind d \<Longrightarrow> kc_subject_id c = kc_subject_id d \<Longrightarrow>
   kc_state c = kc_state d \<Longrightarrow> kc_derivation c = kc_derivation d \<Longrightarrow> c = d" for c d :: knowledge_claim
  by (cases c; cases d) simp

text \<open>A checked claim is the claim of its subject, but for a containment that the parser claims.\<close>

lemma checked_claim_cases:
  assumes valid: "subjects_valid blake3 repository_identity es rs evidence"
    and checked: "claim_checked blake3 repository_identity es rs c"
    and derived: "derivation_ok evidence_ids claims_by_id (claims_of_entities es) (knowledge_relationship_by_id rs) c"
  obtains (entity) e where "e \<in> set es" "c = entity_claim blake3 repository_identity e"
  | (parsed) r where "r \<in> set rs" "c = parser_claim blake3 repository_identity Relationship_subject (kr_relationship_id r) (kr_evidence_ids r)"
  | (rule) r where "r \<in> set rs" "kr_kind r = Contains" "c = relationship_claim blake3 repository_identity r"
proof (cases "kc_state c = DerivedFact")
  case False
  then obtain evs where det: "kc_state c = DeterministicFact" "kc_derivation c = Parser_derivation extractor_version evs"
    using derived by (auto simp: derivation_ok_def)
  show thesis
  proof (cases "kc_subject_kind c")
    case Entity_subject
    with checked det obtain e where "e \<in> set es" "ke_entity_id e = kc_subject_id c" "ke_evidence_ids e = evs"
      "kc_claim_id c = stable_claim_id blake3 repository_identity (subject_kind_str Entity_subject) (kc_subject_id c)"
      by (auto simp: claim_checked_def)
    with det Entity_subject show thesis by (intro entity [of e]) (auto intro!: claim_eqI simp: entity_claim_def parser_claim_def)
  next
    case Relationship_subject
    with checked det obtain r where "r \<in> set rs" "kr_relationship_id r = kc_subject_id c" "kr_evidence_ids r = evs"
      "kc_claim_id c = stable_claim_id blake3 repository_identity (subject_kind_str Relationship_subject) (kc_subject_id c)"
      by (auto simp: claim_checked_def)
    with det Relationship_subject show thesis by (intro parsed [of r]) (auto intro!: claim_eqI simp: parser_claim_def)
  qed
next
  case True
  then obtain inputs evs where d: "kc_derivation c = DeterministicRule containment_rule_version inputs evs"
    and "expected_inputs (claims_of_entities es) (knowledge_relationship_by_id rs) (kc_subject_id c) = Some inputs"
    using derived by (auto simp: derivation_ok_def rule_derivation_valid_def)
  then obtain r where r: "r \<in> set rs" "kr_relationship_id r = kc_subject_id c" "kr_kind r = Contains"
      "inputs = [stable_claim_id blake3 repository_identity (subject_kind_str Entity_subject) (kr_source_entity_id r),
         stable_claim_id blake3 repository_identity (subject_kind_str Entity_subject) (kr_target_entity_id r)]"
    by (auto simp: expected_inputs_iff [OF valid])
  have kind: "kc_subject_kind c = Relationship_subject"
  proof (cases "kc_subject_kind c")
    case Entity_subject
    with checked obtain e where "e \<in> set es" "ke_entity_id e = kc_subject_id c" by (auto simp: claim_checked_def)
    with entity_not_relationship [OF valid this(1) r(1)] r(2) show ?thesis by simp
  qed
  with checked d obtain r' where "r' \<in> set rs" "kr_relationship_id r' = kc_subject_id c" "kr_evidence_ids r' = evs"
    by (auto simp: claim_checked_def)
  with r valid have "kr_evidence_ids r = evs"
    unfolding subjects_valid_def distinct_map by (metis inj_onD)
  with True d r kind checked show thesis
    by (intro rule [of r]) (auto intro!: claim_eqI simp: relationship_claim_def containment_rule_def claim_checked_def)
qed

lemma evidence_by_id_known: "bt_get (evidence_by_id evidence) i \<noteq> None \<longleftrightarrow> i \<in> sev_evidence_id ` set evidence"
  unfolding evidence_by_id_def bt_collect_def bt.get_collect by (simp add: map_of_eq_None_iff image_image)

lemma evidence_supports:
  assumes "subjects_valid blake3 repository_identity es rs evidence"
  shows "e \<in> set es \<Longrightarrow> set (ke_evidence_ids e) \<subseteq> sev_evidence_id ` set evidence"
    and "r \<in> set rs \<Longrightarrow> set (kr_evidence_ids r) \<subseteq> sev_evidence_id ` set evidence"
  using assms evidence_by_id_known [of evidence]
  unfolding subjects_valid_def knowledge_entity_valid_def relationship_identified_def valid_evidence_references_def list_all_iff
  by blast+

lemma claim_fields [simp]:
  "kc_claim_id (entity_claim b i e) = stable_claim_id b i (subject_kind_str Entity_subject) (ke_entity_id e)"
  "kc_subject_kind (entity_claim b i e) = Entity_subject" "kc_subject_id (entity_claim b i e) = ke_entity_id e"
  "kc_state (entity_claim b i e) = DeterministicFact"
  "kc_derivation (entity_claim b i e) = Parser_derivation extractor_version (ke_evidence_ids e)"
  "kc_claim_id (relationship_claim b i r) = stable_claim_id b i (subject_kind_str Relationship_subject) (kr_relationship_id r)"
  "kc_subject_kind (relationship_claim b i r) = Relationship_subject" "kc_subject_id (relationship_claim b i r) = kr_relationship_id r"
  "kc_state (relationship_claim b i r) = (if kr_kind r = Contains then DerivedFact else DeterministicFact)"
  "derivation_evidence_ids (kc_derivation (relationship_claim b i r)) = kr_evidence_ids r"
  by (simp_all add: entity_claim_def relationship_claim_def parser_claim_def containment_rule_def)

lemma justified_size:
  assumes "distinct (map ke_entity_id es)" "distinct (map kr_relationship_id rs)"
  shows "card (justified_claims blake3 repository_identity es rs) = length es + length rs"
proof -
  let ?e = "entity_claim blake3 repository_identity" and ?r = "relationship_claim blake3 repository_identity"
  have "inj_on ?e (set es)" "inj_on ?r (set rs)"
    using assms by (auto simp: distinct_map inj_on_def dest: arg_cong [where f = kc_subject_id])
  moreover have "?e ` set es \<inter> ?r ` set rs = {}"
    by (auto dest: arg_cong [where f = kc_subject_kind])
  ultimately show ?thesis
    using assms by (simp add: justified_claims_def card_Un_disjoint card_image distinct_map distinct_card)
qed

lemma justified_checked:
  "c \<in> justified_claims blake3 repository_identity es rs \<Longrightarrow> claim_checked blake3 repository_identity es rs c"
  by (auto simp: justified_claims_def claim_checked_def)

lemma checked_justified:
  assumes valid: "subjects_valid blake3 repository_identity es rs evidence"
    and ids: "inj_on kc_claim_id (set cs)" and checked: "\<And>c. c \<in> set cs \<Longrightarrow> claim_checked blake3 repository_identity es rs c"
    and derived: "\<And>c. c \<in> set cs \<Longrightarrow>
      derivation_ok evidence_ids claims_by_id (claims_of_entities es) (knowledge_relationship_by_id rs) c"
    and one: "\<exists>!r. r \<in> set rs \<and> kr_kind r = Contains" and d: "d \<in> set cs" "kc_state d = DerivedFact"
  shows "set cs \<subseteq> justified_claims blake3 repository_identity es rs"
proof
  obtain r0 where r0: "r0 \<in> set rs" "kr_kind r0 = Contains" "d = relationship_claim blake3 repository_identity r0"
  proof (cases rule: checked_claim_cases [OF valid checked [OF d(1)] derived [OF d(1)], case_names entity parsed rule])
    case (rule r)
    then show thesis by (rule that)
  qed (use d(2) in \<open>auto simp: parser_claim_def\<close>)
  fix c assume c: "c \<in> set cs"
  show "c \<in> justified_claims blake3 repository_identity es rs"
  proof (cases rule: checked_claim_cases [OF valid checked [OF c] derived [OF c], case_names entity parsed rule])
    case (parsed r)
    have "kr_kind r \<noteq> Contains"
    proof
      assume "kr_kind r = Contains"
      with one r0 parsed have "r = r0" by auto
      with parsed r0 have "kc_claim_id c = kc_claim_id d" by (simp add: parser_claim_def)
      with ids c d have "c = d" by (auto dest: inj_onD)
      with d parsed show False by (simp add: parser_claim_def)
    qed
    with parsed show ?thesis by (auto simp: justified_claims_def relationship_claim_def)
  qed (auto simp: justified_claims_def)
qed

lemma justified_derivation_ok:
  assumes valid: "subjects_valid blake3 repository_identity es rs evidence" and ids: "distinct (map kc_claim_id cs)"
    and claims: "set cs = justified_claims blake3 repository_identity es rs" and c: "c \<in> set cs"
  shows "derivation_ok (sev_evidence_id ` set evidence) (bt_collect (map (\<lambda>c. (kc_claim_id c, c)) cs)) (claims_of_entities es)
    (knowledge_relationship_by_id rs) c"
proof -
  let ?id = "stable_claim_id blake3 repository_identity (subject_kind_str Entity_subject)"
  have input: "bt_get (bt_collect (map (\<lambda>c. (kc_claim_id c, c)) cs)) (?id (ke_entity_id e)) =
      Some (entity_claim blake3 repository_identity e)" if "e \<in> set es" for e
    using that claims by (auto simp: bt_collect_map [OF ids] justified_claims_def)
  have differ: "?id (ke_entity_id e) \<noteq> ?id (ke_entity_id e')"
    if "e \<in> set es" "e' \<in> set es" "ke_entity_id e \<noteq> ke_entity_id e'" for e e'
    using input [OF that(1)] input [OF that(2)] that(3) by (metis claim_fields(3) option.inject)
  consider (entity) e where "e \<in> set es" "c = entity_claim blake3 repository_identity e"
    | (relationship) r where "r \<in> set rs" "c = relationship_claim blake3 repository_identity r"
    using c claims by (auto simp: justified_claims_def)
  then show ?thesis
  proof cases
    case entity
    then show ?thesis using evidence_supports(1) [OF valid] by (auto simp: derivation_ok_def)
  next
    case relationship
    show ?thesis
    proof (cases "kr_kind r = Contains")
      case False
      with relationship show ?thesis
        using evidence_supports(2) [OF valid] by (auto simp: derivation_ok_def relationship_claim_def parser_claim_def)
    next
      case True
      obtain s t where st: "s \<in> set es" "t \<in> set es" "ke_entity_id s = kr_source_entity_id r" "ke_entity_id t = kr_target_entity_id r"
          "relationship_endpoint_allowed Contains (ke_kind s) (ke_kind t)"
        using valid relationship True unfolding subjects_valid_def endpoints_allowed_def by metis
      then have "ke_entity_id s \<noteq> ke_entity_id t"
        using valid entity_inject [of es s t] by (auto simp: subjects_valid_def)
      note inputs = differ [OF st(1,2) this] input [OF st(1)] input [OF st(2)]
      show ?thesis
        using relationship True inputs evidence_supports(2) [OF valid relationship(1)]
        by (auto simp: derivation_ok_def relationship_claim_def containment_rule_def rule_derivation_valid_def
          expected_inputs_iff [OF valid] st list_all_iff)
    qed
  qed
qed

text \<open>The claim checks and the derivation checks accept the justified claims and no others.\<close>

lemma claims_exact:
  assumes valid: "subjects_valid blake3 repository_identity es rs evidence" and sorted: "sorted_wrt (<) (map kc_claim_id cs)"
  shows "length cs = length es + length rs \<and> validate_claims blake3 repository_identity es rs cs evidence = Ok () \<and>
      validate_knowledge_derivations es rs cs evidence = Ok () \<longleftrightarrow>
    set cs = justified_claims blake3 repository_identity es rs \<and> (\<exists>!r. r \<in> set rs \<and> kr_kind r = Contains)" (is "?accepted \<longleftrightarrow> ?justified")
proof -
  let ?ok = "derivation_ok (sev_evidence_id ` set evidence) (bt_collect (map (\<lambda>c. (kc_claim_id c, c)) cs)) (claims_of_entities es)
    (knowledge_relationship_by_id rs)"
  have ids: "distinct (map kc_claim_id cs)" using sorted by (simp add: strict_sorted_iff)
  then have cs: "distinct cs" "inj_on kc_claim_id (set cs)" by (auto simp: distinct_map)
  have rs: "distinct rs" using valid by (simp add: subjects_valid_def distinct_map)
  have claims: "validate_claims blake3 repository_identity es rs cs evidence = Ok () \<longleftrightarrow>
      (\<forall>c \<in> set cs. claim_checked blake3 repository_identity es rs c)"
    by (simp add: validate_claims_def validate_each_claim_iff validate_claim_iff [OF valid])
  have derivations: "validate_knowledge_derivations es rs cs evidence = Ok () \<longleftrightarrow>
      (\<forall>c \<in> set cs. ?ok c) \<and> (\<exists>!c. c \<in> set cs \<and> kc_state c = DerivedFact) \<and> (\<exists>!r. r \<in> set rs \<and> kr_kind r = Contains)"
    by (auto simp: validate_knowledge_derivations_def Let_def result_iffs count_derivations_iff claims_of_entities_def
      length_filter_one [OF cs(1), symmetric] length_filter_one [OF rs, symmetric])
  show ?thesis
  proof
    assume acc: ?accepted
    then obtain d where "d \<in> set cs" "kc_state d = DerivedFact" using derivations by blast
    then have sub: "set cs \<subseteq> justified_claims blake3 repository_identity es rs"
      using acc claims derivations by (intro checked_justified [OF valid cs(2)]) auto
    have "card (set cs) = card (justified_claims blake3 repository_identity es rs)"
      using acc justified_size valid distinct_card [OF cs(1)] by (simp add: subjects_valid_def)
    with sub have "set cs = justified_claims blake3 repository_identity es rs"
      by (intro card_subset_eq) (simp_all add: justified_claims_def)
    with acc derivations show ?justified by blast
  next
    assume just: ?justified
    then obtain r where r: "r \<in> set rs" "kr_kind r = Contains" and only: "\<And>q. q \<in> set rs \<Longrightarrow> kr_kind q = Contains \<Longrightarrow> q = r" by auto
    have "length cs = length es + length rs"
      using just justified_size valid distinct_card [OF cs(1)] by (simp add: subjects_valid_def)
    moreover have "\<forall>c \<in> set cs. claim_checked blake3 repository_identity es rs c" using just justified_checked by blast
    moreover have "\<forall>c \<in> set cs. ?ok c" using justified_derivation_ok [OF valid ids] just by blast
    moreover have "\<exists>!c. c \<in> set cs \<and> kc_state c = DerivedFact"
    proof (rule ex1I)
      show "relationship_claim blake3 repository_identity r \<in> set cs \<and> kc_state (relationship_claim blake3 repository_identity r) = DerivedFact"
        using just r by (simp add: justified_claims_def)
      show "c = relationship_claim blake3 repository_identity r" if "c \<in> set cs \<and> kc_state c = DerivedFact" for c
      proof -
        from that just obtain x where "x \<in> set rs" "kr_kind x = Contains" "c = relationship_claim blake3 repository_identity x"
          by (auto simp: justified_claims_def split: if_splits)
        with only show ?thesis by simp
      qed
    qed
    ultimately show ?accepted using just claims derivations by blast
  qed
qed

section \<open>The checks every collection passes\<close>

lemma validate_knowledge_entities_iff:
  "validate_knowledge_entities blake3 repository_identity evidence es = Ok () \<longleftrightarrow>
   (\<forall>e \<in> set es. knowledge_entity_valid blake3 repository_identity evidence e)"
  by (induction es) auto

lemma relationship_tuple_id:
  "relationship_identified blake3 repository_identity ev r \<Longrightarrow> relationship_identified blake3 repository_identity ev r' \<Longrightarrow>
   relationship_tuple r = relationship_tuple r' \<Longrightarrow> kr_relationship_id r = kr_relationship_id r'"
  by (simp add: relationship_tuple_def relationship_identified_def)

lemma validate_relationships_iff:
  assumes ids: "distinct (map ke_entity_id es)"
  shows "distinct (map kr_relationship_id rs) \<Longrightarrow>
    validate_knowledge_relationships blake3 repository_identity (knowledge_entity_by_id es) ev tuples rs = Ok () \<longleftrightarrow>
    (\<forall>r \<in> set rs. relationship_identified blake3 repository_identity ev r) \<and> endpoints_allowed es rs \<and>
    relationship_tuple ` set rs \<inter> tuples = {}"
proof (induction rs arbitrary: tuples)
  case (Cons r rs)
  let ?ok = "relationship_identified blake3 repository_identity ev"
  have step: "validate_knowledge_relationships blake3 repository_identity (knowledge_entity_by_id es) ev tuples (r # rs) = Ok () \<longleftrightarrow>
    ?ok r \<and> endpoints_allowed es [r] \<and> relationship_tuple r \<notin> tuples \<and>
    validate_knowledge_relationships blake3 repository_identity (knowledge_entity_by_id es) ev (insert (relationship_tuple r) tuples) rs = Ok ()"
    by (auto simp: result_iffs knowledge_entity_by_id_get [OF ids] endpoints_allowed_def split: if_splits)
  have fresh: "relationship_tuple r \<notin> relationship_tuple ` set rs" if "?ok r" "\<forall>q \<in> set rs. ?ok q"
  proof
    assume "relationship_tuple r \<in> relationship_tuple ` set rs"
    then obtain q where q: "q \<in> set rs" "relationship_tuple r = relationship_tuple q" by auto
    then have "kr_relationship_id r = kr_relationship_id q" using that by (intro relationship_tuple_id) auto
    with q Cons.prems show False by auto
  qed
  have ends: "endpoints_allowed es (r # rs) \<longleftrightarrow> endpoints_allowed es [r] \<and> endpoints_allowed es rs"
    by (simp add: endpoints_allowed_def)
  have "distinct (map kr_relationship_id rs)" using Cons.prems by simp
  then show ?case unfolding step ends Cons.IH [OF \<open>distinct (map kr_relationship_id rs)\<close>] using fresh by (simp; blast)
qed (simp add: endpoints_allowed_def)

lemma length_bt_collect: "length (bt_collect kvs) = card (fst ` set kvs)"
proof -
  have "set (map fst (bt_collect kvs)) = fst ` set kvs"
    unfolding set_eq_iff bt_get_key bt_collect_def bt.get_collect by (simp add: map_of_eq_None_iff)
  moreover have "distinct (map fst (bt_collect kvs))"
    using bt_collect_wf [of kvs] by (simp add: bt_wf_def strict_sorted_iff)
  ultimately show ?thesis by (metis distinct_card length_map)
qed

lemma length_bt_collect_iff:
  "length (bt_collect (map (\<lambda>x. (f x, g x)) xs)) = length xs \<longleftrightarrow> distinct (map f xs)"
  using card_distinct [of "map f xs"] distinct_card [of "map f xs"] by (auto simp: length_bt_collect image_image)

text \<open>The evidence, diagnostics and gaps of a collection.\<close>

definition evidence_sound :: "string \<Rightarrow> string \<Rightarrow> nat \<Rightarrow> (string \<times> string) option \<Rightarrow> source_evidence list \<Rightarrow> bool" where
  "evidence_sound repository_identity commit_oid byte_length source evidence \<longleftrightarrow>
     sorted_wrt (<) (map source_evidence_key evidence) \<and> distinct (map sev_evidence_id evidence) \<and>
     (\<forall>e \<in> set evidence. evidence_valid repository_identity commit_oid byte_length source e)"

definition observations_sound ::
  "source_evidence list \<Rightarrow> nat \<Rightarrow> string option \<Rightarrow> extraction_diagnostic list \<Rightarrow> extraction_coverage \<Rightarrow> bool" where
  "observations_sound evidence byte_length path diagnostics coverage \<longleftrightarrow>
     sorted_wrt (<) (map diagnostic_key diagnostics) \<and> sorted_wrt (<) (map knowledge_gap_key (ec_gaps coverage)) \<and>
     sorted_wrt (<) (ec_supported_capabilities coverage) \<and> (\<forall>c \<in> set (ec_supported_capabilities coverage). valid_capability c) \<and>
     (\<forall>d \<in> set diagnostics. diagnostic_valid byte_length path d) \<and>
     (\<forall>g \<in> set (ec_gaps coverage). gap_valid (evidence_by_id evidence) byte_length path g) \<and>
     (\<forall>d \<in> set diagnostics. \<exists>!g. g \<in> set (ec_gaps coverage) \<and> expected_gap (ed_code d) = Some (kg_code g) \<and>
       kg_path g = ed_path d \<and> kg_span g = ed_span d)"

lemma validate_evidence_iff:
  "validate_evidence repository_identity commit_oid evidence byte_length source = Ok m \<longleftrightarrow>
   evidence_sound repository_identity commit_oid byte_length source evidence \<and> m = evidence_by_id evidence"
  unfolding validate_evidence_def evidence_sound_def evidence_by_id_def
  by (auto simp: result_iffs length_bt_collect_iff list_ex_iff)

lemma diagnostic_covered_iff:
  assumes "distinct gaps"
  shows "diagnostic_covered gaps d \<longleftrightarrow>
    (\<exists>!g. g \<in> set gaps \<and> expected_gap (ed_code d) = Some (kg_code g) \<and> kg_path g = ed_path d \<and> kg_span g = ed_span d)"
proof (cases "expected_gap (ed_code d)")
  case (Some code)
  then show ?thesis
    using length_filter_one [OF assms, of "\<lambda>g. kg_code g = code \<and> kg_path g = ed_path d \<and> kg_span g = ed_span d"]
    by (simp add: diagnostic_covered_def eq_commute [of code])
qed (auto simp: diagnostic_covered_def)

lemma validate_observations_iff:
  "validate_observations diagnostics coverage (evidence_by_id evidence) byte_length path = Ok () \<longleftrightarrow>
   observations_sound evidence byte_length path diagnostics coverage"
proof -
  have "distinct (ec_gaps coverage)" if "sorted_wrt (<) (map knowledge_gap_key (ec_gaps coverage))"
    using that by (simp add: strict_sorted_iff distinct_map)
  then have covered: "sorted_wrt (<) (map knowledge_gap_key (ec_gaps coverage)) \<Longrightarrow> diagnostic_covered (ec_gaps coverage) d \<longleftrightarrow>
      (\<exists>!g. g \<in> set (ec_gaps coverage) \<and> expected_gap (ed_code d) = Some (kg_code g) \<and>
        kg_path g = ed_path d \<and> kg_span g = ed_span d)" for d
    by (rule diagnostic_covered_iff)
  show ?thesis
  proof (cases "sorted_wrt (<) (map knowledge_gap_key (ec_gaps coverage))")
    case True
    then show ?thesis
      by (simp add: validate_observations_def observations_sound_def result_iffs list_ex_iff covered [OF True] conj_ac)
  qed (simp add: validate_observations_def observations_sound_def result_iffs)
qed

definition identified :: "string \<Rightarrow> string \<Rightarrow> bool" where
  "identified repository_identity commit_oid \<longleftrightarrow> (\<exists>i. parse_identity repository_identity = Ok i) \<and> is_git_sha1 commit_oid"

definition collections_ordered ::
  "knowledge_entity list \<Rightarrow> knowledge_relationship list \<Rightarrow> knowledge_claim list \<Rightarrow> bool" where
  "collections_ordered es rs cs \<longleftrightarrow> sorted_wrt (<) (map ke_entity_id es) \<and> sorted_wrt (<) (map kr_relationship_id rs) \<and>
     sorted_wrt (<) (map kc_claim_id cs)"

lemma validate_common_iff:
  "validate_common blake3 i = Ok () \<longleftrightarrow>
   identified (vi_repository_identity i) (vi_commit_oid i) \<and>
   collections_ordered (vi_entities i) (vi_relationships i) (vi_claims i) \<and>
   evidence_sound (vi_repository_identity i) (vi_commit_oid i) (vi_byte_length i) (vi_source i) (vi_evidence i) \<and>
   observations_sound (vi_evidence i) (vi_byte_length i) (map_option snd (vi_source i)) (vi_diagnostics i) (vi_coverage i) \<and>
   length (vi_claims i) = length (vi_entities i) + length (vi_relationships i) \<and>
   subjects_valid blake3 (vi_repository_identity i) (vi_entities i) (vi_relationships i) (vi_evidence i)"
proof -
  have identity: "(case parse_identity s of Ok _ \<Rightarrow> False | _ \<Rightarrow> True) \<longleftrightarrow> \<not> (\<exists>i. parse_identity s = Ok i)" for s
    by (simp split: result.split)
  show ?thesis
    unfolding validate_common_def Let_def identity
    by (auto simp: result_iffs identified_def collections_ordered_def validate_evidence_iff validate_observations_iff
      knowledge_entity_by_id_def length_bt_collect_iff validate_knowledge_entities_iff strict_sorted_iff subjects_valid_def
      validate_relationships_iff [unfolded knowledge_entity_by_id_def])
qed

section \<open>Graphs\<close>

definition graph_bounded :: "knowledge_graph \<Rightarrow> bool" where
  "graph_bounded g \<longleftrightarrow>
     length (kn_entities g) \<le> max_s2_entities \<and> length (kn_relationships g) \<le> max_s2_relationships \<and>
     length (kn_claims g) \<le> max_s2_claims \<and> length (kn_evidence g) \<le> max_s2_evidence \<and>
     length (kn_diagnostics g) \<le> max_s2_diagnostics \<and> length (ec_gaps (kn_coverage g)) \<le> max_s2_coverage_gaps \<and>
     length (ec_supported_capabilities (kn_coverage g)) \<le> max_s2_supported_capabilities"

text \<open>
  A graph that may be published: within the limits, bound to a repository and a commit, with sound
  evidence and observations, valid entities and relationships in the shape of a tree of definitions
  below one crate and one containment, and with the claims its entities and relationships justify.
\<close>

definition publishable :: "hash \<Rightarrow> knowledge_graph \<Rightarrow> bool" where
  "publishable blake3 g \<longleftrightarrow>
     graph_bounded g \<and> identified (kn_repository_identity g) (kn_commit_oid g) \<and>
     collections_ordered (kn_entities g) (kn_relationships g) (kn_claims g) \<and>
     evidence_sound (kn_repository_identity g) (kn_commit_oid g) (limit_maximum SingleFileBytes) None (kn_evidence g) \<and>
     observations_sound (kn_evidence g) (limit_maximum SingleFileBytes) None (kn_diagnostics g) (kn_coverage g) \<and>
     subjects_valid blake3 (kn_repository_identity g) (kn_entities g) (kn_relationships g) (kn_evidence g) \<and>
     graph_shape (kn_entities g) (kn_relationships g) \<and>
     (\<exists>!r. r \<in> set (kn_relationships g) \<and> kr_kind r = Contains) \<and>
     set (kn_claims g) = justified_claims blake3 (kn_repository_identity g) (kn_entities g) (kn_relationships g)"

lemma check_graph_count_iff: "check_graph_count limit n m = Ok () \<longleftrightarrow> n \<le> m"
  by (simp add: check_graph_count_def)

lemma validate_graph_limits_iff: "validate_graph_limits g = Ok () \<longleftrightarrow> graph_bounded g"
  by (simp add: validate_graph_limits_def graph_bounded_def result_iffs check_graph_count_iff)

lemma graph_validate_publishable: "graph_validate blake3 g = Ok () \<longleftrightarrow> publishable blake3 g"
proof (cases "subjects_valid blake3 (kn_repository_identity g) (kn_entities g) (kn_relationships g) (kn_evidence g) \<and>
    collections_ordered (kn_entities g) (kn_relationships g) (kn_claims g)")
  case True
  then have valid: "subjects_valid blake3 (kn_repository_identity g) (kn_entities g) (kn_relationships g) (kn_evidence g)"
    and sorted: "sorted_wrt (<) (map kc_claim_id (kn_claims g))" by (auto simp: collections_ordered_def)
  have shape: "validate_cardinalities (kn_entities g) (kn_relationships g) = Ok () \<longleftrightarrow> graph_shape (kn_entities g) (kn_relationships g)"
    using valid by (intro validate_cardinalities_shape) (auto simp: subjects_valid_def distinct_map)
  note claims = claims_exact [OF valid sorted]
  show ?thesis
    using claims by (simp add: graph_validate_def publishable_def result_iffs validate_graph_limits_iff validate_common_iff shape) blast
qed (auto simp: graph_validate_def publishable_def result_iffs validate_common_iff)

section \<open>Publications\<close>

lemma parser_derivation_iff:
  "validate_parser_derivation c = Ok () \<longleftrightarrow>
   kc_state c = DeterministicFact \<and> (\<exists>evs. kc_derivation c = Parser_derivation extractor_version evs)"
  by (cases "kc_state c"; cases "kc_derivation c") (auto simp: validate_parser_derivation_def)

lemma parser_claims_exact:
  assumes valid: "subjects_valid blake3 repository_identity es rs evidence" and sorted: "sorted_wrt (<) (map kc_claim_id cs)"
    and parsed: "\<And>r. r \<in> set rs \<Longrightarrow> kr_kind r \<noteq> Contains"
  shows "length cs = length es + length rs \<and> validate_claims blake3 repository_identity es rs cs evidence = Ok () \<and>
      validate_parser_derivations cs = Ok () \<longleftrightarrow> set cs = justified_claims blake3 repository_identity es rs"
    (is "?accepted \<longleftrightarrow> ?justified")
proof -
  have cs: "distinct cs" using sorted by (simp add: strict_sorted_iff distinct_map)
  have claims: "validate_claims blake3 repository_identity es rs cs evidence = Ok () \<longleftrightarrow>
      (\<forall>c \<in> set cs. claim_checked blake3 repository_identity es rs c)"
    by (simp add: validate_claims_def validate_each_claim_iff validate_claim_iff [OF valid])
  have derivations: "validate_parser_derivations cs = Ok () \<longleftrightarrow> (\<forall>c \<in> set cs. validate_parser_derivation c = Ok ())"
    by (simp add: validate_parser_derivations_def validate_each_claim_iff)
  have own: "c \<in> justified_claims blake3 repository_identity es rs"
    if "claim_checked blake3 repository_identity es rs c" "validate_parser_derivation c = Ok ()" for c
  proof -
    have "derivation_ok UNIV [] (claims_of_entities es) (knowledge_relationship_by_id rs) c"
      using that(2) by (auto simp: derivation_ok_def parser_derivation_iff)
    from checked_claim_cases [OF valid that(1) this] parsed show ?thesis
      by cases (auto simp: justified_claims_def relationship_claim_def)
  qed
  show ?thesis
  proof
    assume acc: ?accepted
    then have sub: "set cs \<subseteq> justified_claims blake3 repository_identity es rs" using own claims derivations by blast
    have "card (set cs) = card (justified_claims blake3 repository_identity es rs)"
      using acc justified_size valid distinct_card [OF cs] by (simp add: subjects_valid_def)
    with sub show ?justified by (intro card_subset_eq) (simp_all add: justified_claims_def)
  next
    assume just: ?justified
    have "length cs = length es + length rs"
      using just justified_size valid distinct_card [OF cs] by (simp add: subjects_valid_def)
    moreover have "validate_parser_derivation c = Ok ()" if "c \<in> set cs" for c
      using that just parsed by (auto simp: parser_derivation_iff justified_claims_def relationship_claim_def parser_claim_def)
    ultimately show ?accepted using just claims derivations justified_checked by blast
  qed
qed

text \<open>The chunk of a graph: the graph of one file without its containment and the claim derived for it.\<close>

definition chunk_of :: "hash \<Rightarrow> knowledge_graph \<Rightarrow> string \<Rightarrow> string \<Rightarrow> nat \<Rightarrow> extraction_chunk" where
  "chunk_of blake3 g blob_oid path byte_length =
     \<lparr>ch_chunk_id = extraction_chunk_id blake3 (kn_repository_identity g) (kn_commit_oid g) blob_oid path,
      ch_repository_identity = kn_repository_identity g, ch_commit_oid = kn_commit_oid g, ch_blob_oid = blob_oid,
      ch_path = path, ch_byte_length = byte_length, ch_entities = kn_entities g,
      ch_relationships = filter (\<lambda>r. kr_kind r \<noteq> Contains) (kn_relationships g),
      ch_claims = filter (\<lambda>c. kc_state c = DeterministicFact) (kn_claims g),
      ch_evidence = kn_evidence g, ch_diagnostics = kn_diagnostics g, ch_coverage = kn_coverage g\<rparr>"

text \<open>All evidence, diagnostics and gaps of the graph are in one file of the given blob and length.\<close>

definition single_source :: "knowledge_graph \<Rightarrow> string \<Rightarrow> string \<Rightarrow> nat \<Rightarrow> bool" where
  "single_source g blob_oid path byte_length \<longleftrightarrow>
     0 < byte_length \<and> byte_length \<le> limit_maximum SingleFileBytes \<and>
     evidence_sound (kn_repository_identity g) (kn_commit_oid g) byte_length (Some (blob_oid, path)) (kn_evidence g) \<and>
     observations_sound (kn_evidence g) byte_length (Some path) (kn_diagnostics g) (kn_coverage g)"

lemma check_extraction_count_iff: "check_extraction_count limit n m = Ok () \<longleftrightarrow> n \<le> m"
  by (simp add: check_extraction_count_def)

lemma subjects_valid_filter:
  "subjects_valid blake3 repository_identity es rs evidence \<Longrightarrow> subjects_valid blake3 repository_identity es (filter P rs) evidence"
  by (auto simp: subjects_valid_def endpoints_allowed_def distinct_map inj_on_def)

lemma collections_ordered_filter: "collections_ordered es rs cs \<Longrightarrow> collections_ordered es (filter P rs) (filter Q cs)"
  by (auto simp: collections_ordered_def sorted_wrt_map sorted_wrt_filter)

lemma justified_parser_claims:
  "{c \<in> justified_claims blake3 repository_identity es rs. kc_state c = DeterministicFact} =
   justified_claims blake3 repository_identity es (filter (\<lambda>r. kr_kind r \<noteq> Contains) rs)"
  by (auto simp: justified_claims_def)

lemma chunk_of_valid:
  assumes "publishable blake3 g"
  shows "chunk_validate blake3 (chunk_of blake3 g blob_oid path byte_length) = Ok () \<longleftrightarrow> single_source g blob_oid path byte_length"
proof -
  let ?rs = "filter (\<lambda>r. kr_kind r \<noteq> Contains) (kn_relationships g)"
  let ?cs = "filter (\<lambda>c. kc_state c = DeterministicFact) (kn_claims g)"
  let ?id = "kn_repository_identity g"
  have valid: "subjects_valid blake3 ?id (kn_entities g) ?rs (kn_evidence g)"
    and ordered: "collections_ordered (kn_entities g) ?rs ?cs" and id: "identified ?id (kn_commit_oid g)"
    and just: "set ?cs = justified_claims blake3 ?id (kn_entities g) ?rs" and bounded: "graph_bounded g"
    using assms subjects_valid_filter collections_ordered_filter
    unfolding publishable_def justified_parser_claims [symmetric] by (auto simp del: filter_filter)
  have claims: "length ?cs = length (kn_entities g) + length ?rs"
      "validate_claims blake3 ?id (kn_entities g) ?rs ?cs (kn_evidence g) = Ok ()" "validate_parser_derivations ?cs = Ok ()"
    using parser_claims_exact [OF valid, of ?cs] ordered just by (auto simp: collections_ordered_def)
  have limits: "validate_extraction_limits (chunk_of blake3 g blob_oid path byte_length) = Ok () \<longleftrightarrow>
      0 < byte_length \<and> byte_length \<le> limit_maximum SingleFileBytes"
    using bounded
    by (auto simp: validate_extraction_limits_def chunk_of_def graph_bounded_def result_iffs check_extraction_count_iff
      intro: le_trans [OF length_filter_le])
  show ?thesis
    using claims valid ordered id
    by (auto simp: chunk_validate_def limits [unfolded chunk_of_def] chunk_of_def single_source_def result_iffs validate_common_iff list_ex_iff)
qed

lemma rust_knowledge_publishable:
  "rust_knowledge_validate blake3 k = Ok () \<longleftrightarrow>
   publishable blake3 (rk_graph k) \<and>
   (\<exists>blob_oid path byte_length. rk_extraction_chunks k = [chunk_of blake3 (rk_graph k) blob_oid path byte_length] \<and>
      single_source (rk_graph k) blob_oid path byte_length)"
  (is "_ \<longleftrightarrow> ?accepted")
proof
  assume ok: "rust_knowledge_validate blake3 k = Ok ()"
  then obtain chunk where chunk: "rk_extraction_chunks k = [chunk]"
    by (auto simp: rust_knowledge_validate_def result_iffs length_Suc_conv)
  have graph: "publishable blake3 (rk_graph k)" and cv: "chunk_validate blake3 chunk = Ok ()"
    and id: "ch_chunk_id chunk = extraction_chunk_id blake3 (ch_repository_identity chunk) (ch_commit_oid chunk) (ch_blob_oid chunk) (ch_path chunk)"
    using ok by (auto simp: rust_knowledge_validate_def chunk result_iffs graph_validate_publishable chunk_validate_def)
  have "chunk = chunk_of blake3 (rk_graph k) (ch_blob_oid chunk) (ch_path chunk) (ch_byte_length chunk)"
    using ok id by (auto simp: rust_knowledge_validate_def chunk result_iffs chunk_of_def Let_def intro!: extraction_chunk.equality)
  with cv chunk graph chunk_of_valid [OF graph] show ?accepted by metis
next
  assume acc: ?accepted
  then obtain blob_oid path byte_length where chunk: "rk_extraction_chunks k = [chunk_of blake3 (rk_graph k) blob_oid path byte_length]"
      "single_source (rk_graph k) blob_oid path byte_length" by auto
  with acc have valid: "chunk_validate blake3 (chunk_of blake3 (rk_graph k) blob_oid path byte_length) = Ok ()"
    "graph_validate blake3 (rk_graph k) = Ok ()"
    using chunk_of_valid graph_validate_publishable by blast+
  show "rust_knowledge_validate blake3 k = Ok ()"
    by (simp add: rust_knowledge_validate_def chunk(1) valid) (simp add: chunk_of_def)
qed

section \<open>Histories of a claim\<close>

text \<open>The states a claim has gone through, the present one first.\<close>

inductive claim_history :: "claim_state list \<Rightarrow> bool" where
  start: "claim_history [s]"
| step: "claim_history (s # earlier) \<Longrightarrow> validate_claim_transition s t = Ok () \<Longrightarrow> claim_history (t # s # earlier)"

inductive_cases claim_history_step: "claim_history (t # s # earlier)"

fun claim_stage :: "claim_state \<Rightarrow> nat" where
  "claim_stage Candidate_state = 0"
| "claim_stage ReviewedInference = 1"
| "claim_stage Superseded = 3"
| "claim_stage _ = 2"

lemma transition_stage: "validate_claim_transition s t = Ok () \<Longrightarrow> claim_stage s < claim_stage t"
  by (auto simp: validate_claim_transition_def split: if_splits)

lemma claim_stage_final: "claim_stage s \<le> 3" "claim_stage s = 3 \<longleftrightarrow> s = Superseded"
  by (cases s; simp)+

lemma history_stages: "claim_history h \<Longrightarrow> sorted_wrt (>) (map claim_stage h)"
proof (induction rule: claim_history.induct)
  case (step s earlier t)
  with transition_stage [OF step(2)] show ?case by auto
qed simp

section \<open>Properties\<close>

text \<open>
  C10. A knowledge graph passes its validation exactly when it is publishable: within the limits,
  bound to a repository and a commit, with evidence and observations in order, entities and
  relationships that carry their own stable identifiers, one crate, every file contained once, every
  declaration defined once and none, however indirectly, by itself, every unresolved symbol used, one
  containment, and with exactly the claims that the constructors build from its entities and
  relationships.
\<close>

theorem graph_validate_exact: "graph_validate blake3 g = Ok () \<longleftrightarrow> publishable blake3 g"
  by (rule graph_validate_publishable)

text \<open>
  C11. A publication of Rust knowledge passes its validation exactly when its graph is publishable and
  its one extraction chunk is the graph without the containment and without the claim derived for it,
  all evidence, diagnostics and gaps lying in the file of the chunk.
\<close>

theorem rust_knowledge_validate_exact:
  "rust_knowledge_validate blake3 k = Ok () \<longleftrightarrow>
   publishable blake3 (rk_graph k) \<and>
   (\<exists>blob_oid path byte_length. rk_extraction_chunks k = [chunk_of blake3 (rk_graph k) blob_oid path byte_length] \<and>
      single_source (rk_graph k) blob_oid path byte_length)"
  by (rule rust_knowledge_publishable)

text \<open>
  C12. However the state of a claim changes, no state recurs, a claim goes through four states at
  most, and a superseded claim stays superseded.
\<close>

theorem claim_history_ends:
  assumes "claim_history h"
  shows "distinct h \<and> length h \<le> 4 \<and> Superseded \<notin> set (tl h)"
proof -
  have stages: "sorted_wrt (>) (map claim_stage h)" by (rule history_stages [OF assms])
  then have "sorted_wrt (<) (rev (map claim_stage h))" by (simp add: sorted_wrt_rev)
  then have "distinct (map claim_stage h)" by (simp add: strict_sorted_iff)
  moreover have "set (map claim_stage h) \<subseteq> {0..3}" using claim_stage_final(1) by auto
  ultimately have "length h \<le> 4"
    using card_mono [of "{0..3 :: nat}" "set (map claim_stage h)"] distinct_card [of "map claim_stage h"] by simp
  moreover have "Superseded \<notin> set (tl h)"
  proof (cases h)
    case (Cons t earlier)
    then have "\<forall>s \<in> set earlier. claim_stage s < claim_stage t" using stages by simp
    with claim_stage_final [of t] Cons show ?thesis by auto
  qed simp
  ultimately show ?thesis using \<open>distinct (map claim_stage h)\<close> by (simp add: distinct_map)
qed

theorem claim_history_ends_witness:
  "claim_history [Superseded, Confirmed, ReviewedInference, Candidate_state] \<and>
   distinct [Superseded, Confirmed, ReviewedInference, Candidate_state]"
proof -
  have "claim_history [Superseded, Confirmed, ReviewedInference, Candidate_state]"
    by (intro claim_history.intros) (simp_all add: validate_claim_transition_def)
  with claim_history_ends [OF this] show ?thesis by blast
qed

end
