(* ===== verification/Rust_Builder.thy ===== *)
theory Rust_Builder
  imports Rust_Extraction Knowledge_Validation
begin

text \<open>
  The invariant of the builder of the Rust extractor: every operation of the walk keeps a builder whose
  drafts are the tree of definitions below one crate, or ends with a typed failure of the extraction.
\<close>

section \<open>Outcomes\<close>

text \<open>The failures of an extraction; the errors about a finished graph are not among them.\<close>

fun extraction_failure :: "knowledge_error \<Rightarrow> bool" where
  "extraction_failure (K_InvalidEntity _) = False"
| "extraction_failure (K_InvalidRelationship _) = False"
| "extraction_failure (K_DanglingReference _) = False"
| "extraction_failure (K_CardinalityViolation _) = False"
| "extraction_failure (K_InvalidClaimState _) = False"
| "extraction_failure (K_InvalidDerivation _) = False"
| "extraction_failure _ = True"

fun yields :: "('a \<Rightarrow> bool) \<Rightarrow> ('a, knowledge_error) result \<Rightarrow> bool" where
  "yields P (Ok x) = P x"
| "yields P (Err e) = extraction_failure e"
| "yields P Panic = False"

named_theorems yields_intros \<open>outcomes of composed operations\<close>

lemma yields_and_then: "yields Q r \<Longrightarrow> (\<And>x. r = Ok x \<Longrightarrow> Q x \<Longrightarrow> yields P (f x)) \<Longrightarrow> yields P (and_then r f)"
  by (cases r) auto

lemma yields_and_then_pair:
  "yields (\<lambda>(x, y). Q x y) r \<Longrightarrow> (\<And>x y. r = Ok (x, y) \<Longrightarrow> Q x y \<Longrightarrow> yields P (f x y)) \<Longrightarrow> yields P (and_then r (\<lambda>(x, y). f x y))"
  by (cases r) auto

lemma yields_mono: "yields Q r \<Longrightarrow> (\<And>x. Q x \<Longrightarrow> P x) \<Longrightarrow> yields P r"
  by (cases r) auto

lemma yields_ok_or [yields_intros]: "extraction_failure e \<Longrightarrow> yields (\<lambda>x. v = Some x) (ok_or e v)"
  by (cases v) auto

lemma yields_fail_if [yields_intros]: "extraction_failure e \<Longrightarrow> yields (\<lambda>_. \<not> c) (fail_if c e)"
  by (simp add: fail_if_def)

lemma extraction_limit_failure [simp]: "extraction_failure (extraction_limit limit maximum)"
  by (simp add: extraction_limit_def)

section \<open>Nodes\<close>

text \<open>A tree whose byte ranges lie in a source of the given length.\<close>

primrec node_within :: "nat \<Rightarrow> syntax_node \<Rightarrow> bool" where
  "node_within n (Syntax_Node kind named missing error field start stop children) \<longleftrightarrow>
     start \<le> stop \<and> stop \<le> n \<and> list_all (\<lambda>within. within) (map (node_within n) children)"

lemma node_within_parts:
  "node_within n node \<Longrightarrow> sn_start node \<le> sn_end node \<and> sn_end node \<le> n \<and> (\<forall>child \<in> set (sn_children node). node_within n child)"
  by (cases node) (auto simp: list_all_iff)

lemma named_children_within: "node_within n node \<Longrightarrow> child \<in> set (named_children node) \<Longrightarrow> node_within n child"
  using node_within_parts by (auto simp: named_children_def)

lemma field_within: "node_within n node \<Longrightarrow> child_by_field_name node name = Some child \<Longrightarrow> node_within n child"
  using node_within_parts by (auto simp: child_by_field_name_def find_Some_iff)

lemma yields_node_text: "node_within (length source) node \<Longrightarrow> yields (\<lambda>_. True) (node_text node source)"
  using node_within_parts [of "length source" node]
  by (auto simp: node_text_def get_range_def as_bytes_def intro!: yields_mono [OF yields_ok_or])

lemma yields_node_name: "node_within (length source) node \<Longrightarrow> yields (\<lambda>_. True) (node_name node source)"
  unfolding node_name_def
  by (rule yields_and_then [OF yields_ok_or]) (auto intro: yields_node_text field_within)

lemma yields_visibility: "node_within (length source) node \<Longrightarrow> yields (\<lambda>_. True) (visibility node source)"
  unfolding visibility_def
  by (auto split: option.split simp: find_Some_iff intro!: yields_and_then [OF yields_node_text] intro: named_children_within nth_mem)

lemma yields_node_evidence_key: "yields (\<lambda>_. True) (node_evidence_key node)"
  unfolding node_evidence_key_def declaration_span_def
  by (auto split: option.split intro!: yields_and_then [where Q = "\<lambda>_. True"] yields_mono [OF yields_ok_or])

lemma yields_use_base: "yields (\<lambda>_. True) (use_base nfc prefix scope)"
  unfolding use_base_def by (auto split: list.split intro!: yields_and_then [OF yields_ok_or])

lemma yields_import_targets: "yields (\<lambda>_. True) (import_targets nfc base targets names)"
  by (induction nfc base targets names rule: import_targets.induct) auto

lemma yields_grouped_import_targets: "yields (\<lambda>_. True) (grouped_import_targets nfc text scope)"
  unfolding grouped_import_targets_def
  by (intro yields_and_then [OF yields_ok_or])
    (auto intro!: yields_and_then [OF yields_use_base] yields_and_then [OF yields_import_targets])

lemma yields_malformed_loop: "yields (\<lambda>_. True) (malformed_loop path spans frontier)"
  by (induction path spans frontier rule: malformed_loop.induct) auto

section \<open>The invariant\<close>

definition known :: "builder \<Rightarrow> entity_key \<Rightarrow> bool" where
  "known b k \<longleftrightarrow> bt_get (bd_entities b) k \<noteq> None"

abbreviation crate_key :: entity_key where
  "crate_key \<equiv> EntityKey RustCrate ''crate''"

abbreviation file_key :: "builder \<Rightarrow> entity_key" where
  "file_key b \<equiv> EntityKey SourceFile (''file:'' @ bd_path b)"

definition draft_ok :: "builder \<Rightarrow> relationship_draft \<Rightarrow> bool" where
  "draft_ok b r \<longleftrightarrow>
     known b (rd_source r) \<and> known b (rd_target r) \<and> rd_kind r \<noteq> Contains \<and>
     relationship_endpoint_allowed (rd_kind r) (ek_kind (rd_source r)) (ek_kind (rd_target r)) \<and>
     (rd_kind r = Defines \<longrightarrow>
       length (ek_canonical_identity (rd_source r)) < length (ek_canonical_identity (rd_target r)))"

text \<open>The owner of a declaration: the source of its definitions.\<close>

definition defined_by :: "builder \<Rightarrow> entity_key \<Rightarrow> entity_key \<Rightarrow> bool" where
  "defined_by b p k \<longleftrightarrow> (\<exists>r \<in> set (bd_relationships b). rd_kind r = Defines \<and> rd_source r = p \<and> rd_target r = k)"

definition built :: "builder \<Rightarrow> bool" where
  "built b \<longleftrightarrow>
     bt_wf (bd_entities b) \<and> (\<forall>k d. bt_get (bd_entities b) k = Some d \<longrightarrow> dr_key d = k) \<and>
     (\<forall>k. ek_kind k = RustCrate \<longrightarrow> (known b k \<longleftrightarrow> k = crate_key)) \<and>
     (\<forall>k. ek_kind k = SourceFile \<longrightarrow> (known b k \<longleftrightarrow> k = file_key b)) \<and>
     (\<forall>r \<in> set (bd_relationships b). draft_ok b r) \<and>
     (\<forall>k. known b k \<longrightarrow> is_declaration (ek_kind k) \<longrightarrow> (\<exists>!p. defined_by b p k)) \<and>
     (\<forall>k. known b k \<longrightarrow> ek_kind k = RustSymbolReference \<longrightarrow>
       (\<exists>r \<in> set (bd_relationships b). rd_kind r = Imports \<and> rd_target r = k)) \<and>
     (\<forall>p \<in> set (bd_pending_imports b). known b (pi_owner p) \<and> ek_kind (pi_owner p) \<in> {RustCrate, RustModule})"

lemma builtI:
  assumes "bt_wf (bd_entities b)" "\<And>k d. bt_get (bd_entities b) k = Some d \<Longrightarrow> dr_key d = k"
    "\<And>k. ek_kind k = RustCrate \<Longrightarrow> known b k \<longleftrightarrow> k = crate_key"
    "\<And>k. ek_kind k = SourceFile \<Longrightarrow> known b k \<longleftrightarrow> k = file_key b"
    "\<And>r. r \<in> set (bd_relationships b) \<Longrightarrow> draft_ok b r"
    "\<And>k. known b k \<Longrightarrow> is_declaration (ek_kind k) \<Longrightarrow> \<exists>!p. defined_by b p k"
    "\<And>k. known b k \<Longrightarrow> ek_kind k = RustSymbolReference \<Longrightarrow>
      \<exists>r \<in> set (bd_relationships b). rd_kind r = Imports \<and> rd_target r = k"
    "\<And>p. p \<in> set (bd_pending_imports b) \<Longrightarrow> known b (pi_owner p) \<and> ek_kind (pi_owner p) \<in> {RustCrate, RustModule}"
  shows "built b"
  unfolding built_def
  by (intro conjI allI impI ballI; (rule assms | rule assms(8) [THEN conjunct1] | rule assms(8) [THEN conjunct2]); assumption)

lemma builtD:
  assumes "built b"
  shows "bt_wf (bd_entities b)" "bt_get (bd_entities b) k = Some d \<Longrightarrow> dr_key d = k"
    "ek_kind k = RustCrate \<Longrightarrow> known b k \<longleftrightarrow> k = crate_key"
    "ek_kind k = SourceFile \<Longrightarrow> known b k \<longleftrightarrow> k = file_key b"
    "r \<in> set (bd_relationships b) \<Longrightarrow> draft_ok b r"
    "known b k \<Longrightarrow> is_declaration (ek_kind k) \<Longrightarrow> \<exists>!p. defined_by b p k"
    "known b k \<Longrightarrow> ek_kind k = RustSymbolReference \<Longrightarrow>
      \<exists>r \<in> set (bd_relationships b). rd_kind r = Imports \<and> rd_target r = k"
    "p \<in> set (bd_pending_imports b) \<Longrightarrow> known b (pi_owner p) \<and> ek_kind (pi_owner p) \<in> {RustCrate, RustModule}"
  using assms unfolding built_def by simp_all

text \<open>A later state of the builder: the same source and all the entities of the earlier one.\<close>

definition grows :: "builder \<Rightarrow> builder \<Rightarrow> bool" where
  "grows b b' \<longleftrightarrow>
     bd_repository_identity b' = bd_repository_identity b \<and> bd_commit_oid b' = bd_commit_oid b \<and>
     bd_blob_oid b' = bd_blob_oid b \<and> bd_path b' = bd_path b \<and> bd_source b' = bd_source b \<and>
     bd_malformed b' = bd_malformed b \<and> (\<forall>k. known b k \<longrightarrow> known b' k)"

lemma grows_refl [simp]: "grows b b"
  by (simp add: grows_def)

lemma grows_trans: "grows b b' \<Longrightarrow> grows b' b'' \<Longrightarrow> grows b b''"
  by (simp add: grows_def)

definition advances :: "builder \<Rightarrow> builder \<Rightarrow> bool" where
  "advances b b' \<longleftrightarrow> built b' \<and> grows b b'"

lemma advances_refl: "built b \<Longrightarrow> advances b b"
  by (simp add: advances_def)

lemma advances_trans: "advances b b' \<Longrightarrow> advances b' b'' \<Longrightarrow> advances b b''"
  by (auto simp: advances_def intro: grows_trans)

lemma yields_advances: "advances b b' \<Longrightarrow> yields (advances b') r \<Longrightarrow> yields (advances b) r"
  by (erule yields_mono) (rule advances_trans)

lemma advancesD: "advances b b' \<Longrightarrow> built b'" "advances b b' \<Longrightarrow> bd_source b' = bd_source b" "advances b b' \<Longrightarrow> bd_path b' = bd_path b"
  "advances b b' \<Longrightarrow> known b k \<Longrightarrow> known b' k"
  by (auto simp: advances_def grows_def)

section \<open>Operations\<close>

lemma known_put:
  assumes "bt_wf (bd_entities b)"
  shows "known (b\<lparr>bd_entities := bt_put k d (bd_entities b)\<rparr>) l \<longleftrightarrow> l = k \<or> known b l"
  using assms by (simp add: known_def bt_get_put)

lemma known_other [simp]:
  "known (b\<lparr>bd_relationships := rs\<rparr>) = known b" "known (b\<lparr>bd_pending_imports := ps\<rparr>) = known b"
  "known (b\<lparr>bd_diagnostics := ds\<rparr>) = known b" "known (b\<lparr>bd_extra_gaps := gs\<rparr>) = known b"
  by (simp_all add: known_def fun_eq_iff)

lemma add_entity_yields:
  "yields (\<lambda>(key, b'). key = EntityKey kind ident \<and> \<not> known b key \<and>
     b' = b\<lparr>bd_entities := bt_put key \<lparr>dr_key = key, dr_display_name = name, dr_properties = props, dr_evidence = ev\<rparr> (bd_entities b)\<rparr>)
   (add_entity kind ident name props ev b)"
  by (simp add: add_entity_def Let_def known_def split: option.split)

lemma push_relationship_yields: "yields (\<lambda>b'. b' = b\<lparr>bd_relationships := bd_relationships b @ [r]\<rparr>) (push_relationship r b)"
  by (simp add: push_relationship_def)

lemma push_diagnostic_yields: "yields (\<lambda>b'. b' = b\<lparr>bd_diagnostics := bd_diagnostics b @ [d]\<rparr>) (push_diagnostic d b)"
  by (simp add: push_diagnostic_def)

lemma push_gap_yields: "yields (\<lambda>b'. b' = b\<lparr>bd_extra_gaps := bd_extra_gaps b @ [g]\<rparr>) (push_gap g b)"
  by (simp add: push_gap_def)

text \<open>Observations do not touch what the invariant speaks of.\<close>

lemma built_observations [simp]:
  "built (b\<lparr>bd_diagnostics := ds\<rparr>) = built b" "built (b\<lparr>bd_extra_gaps := gs\<rparr>) = built b"
  by (simp_all add: built_def defined_by_def draft_ok_def)

lemma grows_observations [simp]:
  "grows b (b\<lparr>bd_diagnostics := ds\<rparr>)" "grows b (b\<lparr>bd_extra_gaps := gs\<rparr>)" "grows b (b\<lparr>bd_relationships := rs\<rparr>)"
  "grows b (b\<lparr>bd_pending_imports := ps\<rparr>)"
  by (simp_all add: grows_def)

lemma report_yields:
  assumes "built b"
  shows "yields (advances b) (and_then (push_diagnostic d b) (push_gap g))"
  by (rule yields_and_then [OF push_diagnostic_yields], rule yields_mono [OF push_gap_yields])
    (use assms in \<open>auto simp: advances_def intro: grows_trans [OF grows_observations(1) grows_observations(2)]\<close>)

text \<open>The owner of the earlier declarations is the same after a draft for another target.\<close>

lemma defined_by_push:
  "defined_by (b\<lparr>bd_relationships := bd_relationships b @ [r]\<rparr>) p k \<longleftrightarrow>
   defined_by b p k \<or> rd_kind r = Defines \<and> rd_source r = p \<and> rd_target r = k"
  by (auto simp: defined_by_def)

lemma defined_known: "built b \<Longrightarrow> defined_by b p k \<Longrightarrow> known b k"
  by (auto simp: built_def defined_by_def draft_ok_def)

lemma draft_ok_grows: "draft_ok b r \<Longrightarrow> (\<And>k. known b k \<Longrightarrow> known b' k) \<Longrightarrow> draft_ok b' r"
  by (auto simp: draft_ok_def)

lemma built_declare:
  assumes b: "built b" and new: "\<not> known b key" and key: "key = EntityKey kind ident" and d: "dr_key d = key"
    and owner: "known b owner" "relationship_endpoint_allowed Defines (ek_kind owner) kind"
    and longer: "length (ek_canonical_identity owner) < length ident"
    and b': "b' = b\<lparr>bd_entities := bt_put key d (bd_entities b),
      bd_relationships := bd_relationships b @ [\<lparr>rd_kind = Defines, rd_source = owner, rd_target = key, rd_evidence = ev\<rparr>]\<rparr>"
  shows "advances b b' \<and> known b' key"
proof -
  have wf: "bt_wf (bd_entities b)" using b by (simp add: built_def)
  have kn: "known b' l \<longleftrightarrow> l = key \<or> known b l" for l
    unfolding b' by (simp add: known_def bt_get_put [OF wf])
  have decl: "is_declaration kind" using endpoint_kinds(2) [OF owner(2)] .
  then have kind: "kind \<noteq> RustCrate" "kind \<noteq> SourceFile" "kind \<noteq> RustSymbolReference" by (auto simp: is_declaration_def)
  have defined: "defined_by b' p k \<longleftrightarrow> defined_by b p k \<or> p = owner \<and> k = key" for p k
    unfolding b' by (auto simp: defined_by_def)
  have "built b'"
  proof (rule builtI)
    show "bt_wf (bd_entities b')" using wf by (simp add: b' bt_wf_put)
    show "dr_key d' = k" if "bt_get (bd_entities b') k = Some d'" for k d'
      using that builtD(2) [OF b] d by (auto simp: b' bt_get_put [OF wf] split: if_splits)
    show "known b' k \<longleftrightarrow> k = crate_key" if "ek_kind k = RustCrate" for k
      using that builtD(3) [OF b] kind key kn by auto
    show "known b' k \<longleftrightarrow> k = file_key b'" if "ek_kind k = SourceFile" for k
      using that builtD(4) [OF b] kind key kn by (auto simp: b')
    show "draft_ok b' r" if "r \<in> set (bd_relationships b')" for r
    proof (cases "r \<in> set (bd_relationships b)")
      case True
      then show ?thesis using draft_ok_grows [OF builtD(5) [OF b]] kn by blast
    next
      case False
      with that have "r = \<lparr>rd_kind = Defines, rd_source = owner, rd_target = key, rd_evidence = ev\<rparr>" by (simp add: b')
      with owner longer kn key show ?thesis by (simp add: draft_ok_def)
    qed
    show "\<exists>!p. defined_by b' p k" if "known b' k" "is_declaration (ek_kind k)" for k
    proof (cases "k = key")
      case True
      then have "\<not> defined_by b p k" for p using new defined_known [OF b] by blast
      with True defined show ?thesis by auto
    next
      case False
      with that kn have "\<exists>!p. defined_by b p k" using builtD(6) [OF b] by blast
      with False defined show ?thesis by simp
    qed
    show "\<exists>r \<in> set (bd_relationships b'). rd_kind r = Imports \<and> rd_target r = k"
      if "known b' k" "ek_kind k = RustSymbolReference" for k
    proof -
      have "known b k" using that kn key kind by auto
      with builtD(7) [OF b _ that(2)] show ?thesis by (auto simp: b')
    qed
    show "known b' (pi_owner p) \<and> ek_kind (pi_owner p) \<in> {RustCrate, RustModule}" if "p \<in> set (bd_pending_imports b')" for p
      using that builtD(8) [OF b] kn by (auto simp: b')
  qed
  moreover have "grows b b'" unfolding grows_def kn by (auto simp: b')
  ultimately show ?thesis by (simp add: advances_def kn)
qed

lemma declare_yields:
  assumes "built b" "known b owner" "relationship_endpoint_allowed Defines (ek_kind owner) kind"
    "length (ek_canonical_identity owner) < length ident"
  shows "yields (\<lambda>(key, b'). key = EntityKey kind ident \<and> known b' key \<and> advances b b')
    (and_then (add_entity kind ident name props ev b) (\<lambda>(key, b).
     and_then (push_relationship \<lparr>rd_kind = Defines, rd_source = owner, rd_target = key, rd_evidence = ev\<rparr> b) (\<lambda>b.
     Ok (key, b))))"
proof (rule yields_and_then [OF add_entity_yields], clarify)
  fix key
  assume new: "\<not> known b (EntityKey kind ident)"
  let ?d = "\<lparr>dr_key = EntityKey kind ident, dr_display_name = name, dr_properties = props, dr_evidence = ev\<rparr>"
  let ?b = "b\<lparr>bd_entities := bt_put (EntityKey kind ident) ?d (bd_entities b)\<rparr>"
  have "advances b b' \<and> known b' (EntityKey kind ident)"
    if "b' = ?b\<lparr>bd_relationships := bd_relationships ?b @
        [\<lparr>rd_kind = Defines, rd_source = owner, rd_target = EntityKey kind ident, rd_evidence = ev\<rparr>]\<rparr>" for b'
    using that by (intro built_declare [OF assms(1) new refl _ assms(2,3,4), where d = ?d]) simp_all
  then show "yields (\<lambda>(key, b'). key = EntityKey kind ident \<and> known b' key \<and> advances b b')
    (and_then (push_relationship \<lparr>rd_kind = Defines, rd_source = owner, rd_target = EntityKey kind ident, rd_evidence = ev\<rparr> ?b)
      (\<lambda>b. Ok (EntityKey kind ident, b)))"
    by (intro yields_and_then [OF push_relationship_yields]) auto
qed

definition scope_owner :: "builder \<Rightarrow> entity_key \<Rightarrow> string \<Rightarrow> bool" where
  "scope_owner b owner scope \<longleftrightarrow> known b owner \<and> ek_kind owner \<in> {RustCrate, RustModule} \<and> ek_canonical_identity owner = scope"

definition item_kind :: "entity_kind \<Rightarrow> bool" where
  "item_kind kind \<longleftrightarrow> kind \<in> {RustModule, RustStruct, RustEnum, RustTrait, RustTypeAlias, RustFunction}"

lemma add_named_declaration_yields:
  assumes "built b" "scope_owner b owner scope" "item_kind kind" "node_within (length (bd_source b)) node"
  shows "yields (\<lambda>(key, b'). ek_kind key = kind \<and> known b' key \<and> advances b b') (add_named_declaration nfc node owner scope kind b)"
  unfolding add_named_declaration_def Let_def
  by (intro yields_and_then [OF yields_node_name [OF assms(4)]] yields_and_then [OF yields_node_evidence_key]
      yields_and_then [OF yields_visibility [OF assms(4)]] yields_mono [OF declare_yields [OF assms(1)]])
    (use assms in \<open>auto simp: scope_owner_def item_kind_def\<close>)

definition method_owner :: "builder \<Rightarrow> entity_key \<Rightarrow> bool" where
  "method_owner b owner \<longleftrightarrow> known b owner \<and> ek_kind owner \<in> {RustStruct, RustEnum, RustTrait}"

lemma add_method_yields:
  assumes "built b" "method_owner b owner" "node_within (length (bd_source b)) child"
  shows "yields (advances b) (add_method nfc owner child b)"
proof -
  have tail: "and_then r (\<lambda>(key, b). f key b) = and_then (and_then r (\<lambda>(key, b). and_then (f key b) (\<lambda>b. Ok (key, b)))) (\<lambda>(key, b). Ok b)"
    for r :: "(entity_key \<times> builder, knowledge_error) result" and f :: "entity_key \<Rightarrow> builder \<Rightarrow> (builder, knowledge_error) result"
  proof (cases r)
    case (Ok x)
    then show ?thesis by (cases x; cases "f (fst x) (snd x)") auto
  qed simp_all
  show ?thesis
    unfolding add_method_def
    by (intro yields_and_then [OF yields_node_name [OF assms(3)]] yields_and_then [OF yields_node_evidence_key])
      (subst tail, rule yields_and_then [OF declare_yields [OF assms(1)]], use assms in \<open>auto simp: method_owner_def\<close>)
qed

lemma add_methods_yields:
  "built b \<Longrightarrow> method_owner b owner \<Longrightarrow> \<forall>child \<in> set children. node_within (length (bd_source b)) child \<Longrightarrow>
   yields (advances b) (add_methods nfc method_kind owner children b)"
proof (induction children arbitrary: b)
  case Nil
  then show ?case by (simp add: advances_refl)
next
  case (Cons child children)
  show ?case
  proof (cases "sn_kind child \<noteq> method_kind \<or> node_is_malformed b child")
    case True
    then show ?thesis using Cons by simp
  next
    case False
    have "yields (advances b) (and_then (add_method nfc owner child b) (\<lambda>b. add_methods nfc method_kind owner children b))"
    proof (rule yields_and_then [OF add_method_yields])
      fix b' assume adv: "advances b b'"
      have "yields (advances b') (add_methods nfc method_kind owner children b')"
        using Cons.prems adv by (intro Cons.IH) (auto simp: method_owner_def advancesD)
      then show "yields (advances b) (add_methods nfc method_kind owner children b')"
        by (rule yields_advances [OF adv])
    qed (use Cons.prems in auto)
    with False show ?thesis by simp
  qed
qed

lemma add_trait_yields:
  assumes "built b" "scope_owner b owner scope" "node_within (length (bd_source b)) node"
  shows "yields (advances b) (add_trait nfc node owner scope b)"
  unfolding add_trait_def
proof (rule yields_and_then_pair [OF add_named_declaration_yields [OF assms(1,2) _ assms(3)]])
  fix key b' assume "ek_kind key = RustTrait \<and> known b' key \<and> advances b b'"
  then have key: "ek_kind key = RustTrait" "known b' key" and adv: "advances b b'" by auto
  show "yields (advances b) (and_then (ok_or K_ContractInvalid (child_by_field_name node ''body''))
      (\<lambda>body. add_methods nfc ''function_signature_item'' key (named_children body) b'))"
  proof (rule yields_and_then [OF yields_ok_or])
    fix body assume "child_by_field_name node ''body'' = Some body"
    then have "\<forall>child \<in> set (named_children body). node_within (length (bd_source b')) child"
      using assms(3) adv field_within named_children_within by (metis advancesD(2))
    then have "yields (advances b') (add_methods nfc ''function_signature_item'' key (named_children body) b')"
      using key adv by (intro add_methods_yields) (auto simp: method_owner_def advancesD)
    then show "yields (advances b) (add_methods nfc ''function_signature_item'' key (named_children body) b')"
      by (rule yields_advances [OF adv])
  qed simp
qed (simp add: item_kind_def)

lemma find_exact_loop_known:
  "find_exact_loop b ident found kinds = Some key \<Longrightarrow>
   found = Some key \<or> known b key \<and> ek_kind key \<in> set kinds \<and> ek_canonical_identity key = ident"
  by (induction b ident found kinds rule: find_exact_loop.induct) (auto simp: known_def split: if_splits)

lemma find_exact_known:
  "find_exact b ident kinds = Some key \<Longrightarrow> known b key \<and> ek_kind key \<in> set kinds \<and> ek_canonical_identity key = ident"
  using find_exact_loop_known by (fastforce simp: find_exact_def)

lemma resolve_lexical_known: "resolve_lexical b scope name kinds = Some key \<Longrightarrow> known b key \<and> ek_kind key \<in> set kinds"
proof (induction b scope name kinds rule: resolve_lexical.induct)
  case (1 b scope name kinds)
  then show ?case
    using find_exact_known [of b _ kinds key]
    by (subst (asm) (2) resolve_lexical.simps) (auto split: option.splits)
qed

text \<open>A draft between known entities, not a definition, keeps the invariant.\<close>

lemma built_push:
  assumes "built b" "draft_ok b r" "rd_kind r \<noteq> Defines"
  shows "built (b\<lparr>bd_relationships := bd_relationships b @ [r]\<rparr>)" (is "built ?b")
proof (rule builtI)
  note D = builtD [OF assms(1)]
  show "bt_wf (bd_entities ?b)" using D(1) by simp
  show "dr_key d = k" if "bt_get (bd_entities ?b) k = Some d" for k d using that D(2) by simp
  show "known ?b k \<longleftrightarrow> k = crate_key" if "ek_kind k = RustCrate" for k using that D(3) by simp
  show "known ?b k \<longleftrightarrow> k = file_key ?b" if "ek_kind k = SourceFile" for k using that D(4) by simp
  show "draft_ok ?b q" if "q \<in> set (bd_relationships ?b)" for q
    using that D(5) assms(2) by (auto simp: draft_ok_def)
  show "\<exists>!p. defined_by ?b p k" if "known ?b k" "is_declaration (ek_kind k)" for k
    using that D(6) assms(3) by (simp add: defined_by_push)
  show "\<exists>q \<in> set (bd_relationships ?b). rd_kind q = Imports \<and> rd_target q = k"
    if "known ?b k" "ek_kind k = RustSymbolReference" for k
    using that D(7) by auto
  show "known ?b (pi_owner p) \<and> ek_kind (pi_owner p) \<in> {RustCrate, RustModule}" if "p \<in> set (bd_pending_imports ?b)" for p
    using that D(8) by simp
qed

lemma push_yields:
  assumes "built b" "draft_ok b r" "rd_kind r \<noteq> Defines"
  shows "yields (advances b) (push_relationship r b)"
  by (rule yields_mono [OF push_relationship_yields]) (use built_push [OF assms] in \<open>simp add: advances_def\<close>)

lemma implement_yields:
  assumes b: "built b" and node: "node_within (length (bd_source b)) node"
    and trait: "known b trait_key" "ek_kind trait_key \<in> {RustTrait, RustSymbolReference}"
    and type: "known b type_key" "ek_kind type_key \<in> {RustStruct, RustEnum}"
  shows "yields (advances b)
    (and_then (push_relationship \<lparr>rd_kind = Implements, rd_source = type_key, rd_target = trait_key, rd_evidence = evidence\<rparr> b)
     (\<lambda>b. and_then (ok_or K_UnsupportedCrateShape (child_by_field_name node ''body''))
       (\<lambda>body. add_methods nfc ''function_item'' type_key (named_children body) b)))"
proof (rule yields_and_then [OF push_yields [OF b]])
  show "draft_ok b \<lparr>rd_kind = Implements, rd_source = type_key, rd_target = trait_key, rd_evidence = evidence\<rparr>"
    using trait type by (auto simp: draft_ok_def)
  fix b' assume adv: "advances b b'"
  show "yields (advances b) (and_then (ok_or K_UnsupportedCrateShape (child_by_field_name node ''body''))
       (\<lambda>body. add_methods nfc ''function_item'' type_key (named_children body) b'))"
  proof (rule yields_and_then [OF yields_ok_or])
    fix body assume "child_by_field_name node ''body'' = Some body"
    then have "\<forall>child \<in> set (named_children body). node_within (length (bd_source b')) child"
      using node adv field_within named_children_within by (metis advancesD(2))
    then have "yields (advances b') (add_methods nfc ''function_item'' type_key (named_children body) b')"
      using type adv by (intro add_methods_yields) (auto simp: method_owner_def advancesD)
    then show "yields (advances b) (add_methods nfc ''function_item'' type_key (named_children body) b')"
      by (rule yields_advances [OF adv])
  qed simp
qed simp

lemma add_impl_yields:
  assumes b: "built b" and node: "node_within (length (bd_source b)) node"
  shows "yields (advances b) (add_impl nfc node scope b)"
  unfolding add_impl_def
  by (intro yields_and_then [OF yields_ok_or] yields_and_then [OF yields_node_text] yields_and_then [OF yields_node_evidence_key]
      implement_yields [OF b node])
    (use node field_within in \<open>auto dest: resolve_lexical_known\<close>)

lemma add_import_yields:
  assumes b: "built b" and "scope_owner b owner scope" and node: "node_within (length (bd_source b)) node"
  shows "yields (advances b) (add_import nfc node owner scope b)"
proof -
  have "advances b (b\<lparr>bd_pending_imports := bd_pending_imports b @ [\<lparr>pi_owner = owner, pi_target_paths = targets, pi_evidence = evidence\<rparr>]\<rparr>)"
    for targets evidence
    using assms unfolding advances_def built_def scope_owner_def by (auto simp: draft_ok_def defined_by_def)
  then show ?thesis
    unfolding add_import_def
    by (auto intro!: yields_and_then [OF yields_node_text [OF node]] yields_and_then [OF yields_grouped_import_targets]
        yields_and_then [OF yields_node_evidence_key])
qed

section \<open>The walk and the imports\<close>

lemma scope_owner_advances: "scope_owner b owner scope \<Longrightarrow> advances b b' \<Longrightarrow> scope_owner b' owner scope"
  by (auto simp: scope_owner_def advancesD)

lemma add_unsupported_yields: "built b \<Longrightarrow> yields (advances b) (add_unsupported node root_evidence b)"
  unfolding add_unsupported_def by (rule report_yields)

lemma declared_item_yields:
  assumes "built b" "scope_owner b owner scope" "item_kind kind" "node_within (length (bd_source b)) node"
  shows "yields (advances b) (and_then (add_named_declaration nfc node owner scope kind b) (\<lambda>(_, b). Ok b))"
  by (rule yields_and_then_pair [OF add_named_declaration_yields [OF assms]]) auto

lemma walk_yields:
  "built b \<Longrightarrow> scope_owner b owner scope \<Longrightarrow> node_within (length (bd_source b)) container \<Longrightarrow>
   yields (advances b) (walk_scope nfc container owner scope depth b)"
  "built b \<Longrightarrow> scope_owner b owner scope \<Longrightarrow> \<forall>node \<in> set nodes. node_within (length (bd_source b)) node \<Longrightarrow>
   yields (advances b) (walk_nodes nfc nodes owner scope depth b)"
proof (induction nfc container owner scope depth b and nfc nodes owner scope depth b rule: walk_scope_walk_nodes.induct)
  case (1 nfc container owner scope depth b)
  then show ?case by (simp add: named_children_within)
next
  case (2 nfc owner scope depth b)
  then show ?case by (simp add: advances_refl)
next
  case (3 nfc node nodes owner scope depth b)
  show ?case
  proof (cases "node_is_malformed b node")
    case True
    then show ?thesis using 3 by simp
  next
    case False
    have node: "node_within (length (bd_source b)) node" using 3 by simp
    note module = 3(2) [OF False]
    show ?thesis
    proof (simp only: walk_nodes.simps False if_False, rule yields_and_then [where Q = "advances b"], goal_cases)
      case 1
      have "yields (advances b) (and_then (add_named_declaration nfc node owner scope RustModule b) (\<lambda>(module_key, b).
             and_then (ok_or K_UnsupportedCrateShape (child_by_field_name node ''body'')) (\<lambda>body.
             walk_scope nfc body module_key (ek_canonical_identity module_key) (depth + 1) b)))"
        if kind: "sn_kind node = ''mod_item''"
      proof (rule yields_and_then_pair [OF add_named_declaration_yields [OF 3(4,5) _ node]], simp add: item_kind_def,
          rule yields_and_then [OF yields_ok_or], simp)
        fix key b' body
        assume ok: "add_named_declaration nfc node owner scope RustModule b = Ok (key, b')"
          and key: "ek_kind key = RustModule \<and> known b' key \<and> advances b b'" and body: "child_by_field_name node ''body'' = Some body"
        have "yields (advances b') (walk_scope nfc body key (ek_canonical_identity key) (depth + 1) b')"
          using key ok body kind field_within [OF node body]
          by (intro module) (auto simp: scope_owner_def advancesD)
        then show "yields (advances b) (walk_scope nfc body key (ek_canonical_identity key) (depth + 1) b')"
          using key by (blast intro: yields_advances)
      qed
      then show ?case
        using add_import_yields [OF 3(4,5) node] declared_item_yields [OF 3(4,5) _ node] add_trait_yields [OF 3(4,5) node]
          add_impl_yields [OF 3(4) node] add_unsupported_yields [OF 3(4)] advances_refl [OF 3(4)]
        by (simp add: item_kind_def)
    next
      case (2 b')
      then have "yields (advances b') (walk_nodes nfc nodes owner scope depth b')"
        using 3(5,6) by (intro 3(3) [OF False]) (auto simp: scope_owner_advances advancesD)
      with 2 show ?case by (blast intro: yields_advances)
    qed
  qed
qed

lemma built_reference:
  assumes b: "built b" and new: "\<not> known b key" and key: "ek_kind key = RustSymbolReference" and d: "dr_key d = key"
    and owner: "known b owner" "ek_kind owner \<in> {RustCrate, RustModule}"
    and b': "b' = b\<lparr>bd_entities := bt_put key d (bd_entities b), bd_diagnostics := ds, bd_extra_gaps := gs,
      bd_relationships := bd_relationships b @ [\<lparr>rd_kind = Imports, rd_source = owner, rd_target = key, rd_evidence = ev\<rparr>]\<rparr>"
  shows "advances b b'"
proof -
  note D = builtD [OF b]
  have kn: "known b' l \<longleftrightarrow> l = key \<or> known b l" for l
    unfolding b' by (simp add: known_def bt_get_put [OF D(1)])
  have defined: "defined_by b' p k \<longleftrightarrow> defined_by b p k" for p k
    unfolding b' by (auto simp: defined_by_def)
  have "built b'"
  proof (rule builtI)
    show "bt_wf (bd_entities b')" using D(1) by (simp add: b' bt_wf_put)
    show "dr_key d' = k" if "bt_get (bd_entities b') k = Some d'" for k d'
      using that D(2) d by (auto simp: b' bt_get_put [OF D(1)] split: if_splits)
    show "known b' k \<longleftrightarrow> k = crate_key" if "ek_kind k = RustCrate" for k using that D(3) key kn by auto
    show "known b' k \<longleftrightarrow> k = file_key b'" if "ek_kind k = SourceFile" for k using that D(4) key kn by (auto simp: b')
    show "draft_ok b' r" if "r \<in> set (bd_relationships b')" for r
    proof (cases "r \<in> set (bd_relationships b)")
      case True
      then show ?thesis using draft_ok_grows [OF D(5)] kn by blast
    next
      case False
      with that have "r = \<lparr>rd_kind = Imports, rd_source = owner, rd_target = key, rd_evidence = ev\<rparr>" by (simp add: b')
      with owner kn key show ?thesis by (auto simp: draft_ok_def)
    qed
    show "\<exists>!p. defined_by b' p k" if "known b' k" "is_declaration (ek_kind k)" for k
      using that D(6) [of k] key kn defined by (auto simp: is_declaration_def)
    show "\<exists>r \<in> set (bd_relationships b'). rd_kind r = Imports \<and> rd_target r = k"
      if "known b' k" "ek_kind k = RustSymbolReference" for k
      using that D(7) [of k] kn by (auto simp: b')
    show "known b' (pi_owner p) \<and> ek_kind (pi_owner p) \<in> {RustCrate, RustModule}" if "p \<in> set (bd_pending_imports b')" for p
      using that D(8) kn by (auto simp: b')
  qed
  moreover have "grows b b'" unfolding grows_def kn by (auto simp: b')
  ultimately show ?thesis by (simp add: advances_def)
qed

definition import_owner :: "builder \<Rightarrow> pending_import \<Rightarrow> bool" where
  "import_owner b pending \<longleftrightarrow> known b (pi_owner pending) \<and> ek_kind (pi_owner pending) \<in> {RustCrate, RustModule}"

lemma import_key_cases:
  obtains (known) "known b (import_key b pending path)" "ek_kind (import_key b pending path) \<in> set importable_kinds"
  | (reference) "ek_kind (import_key b pending path) = RustSymbolReference"
proof (cases "find_exact b path importable_kinds")
  case None
  then show thesis by (intro reference) (simp add: import_key_def)
next
  case (Some key)
  with find_exact_known [OF Some] show thesis by (intro known) (simp_all add: import_key_def)
qed

lemma resolve_import_yields:
  assumes b: "built b" and owner: "import_owner b pending"
  shows "yields (advances b) (resolve_import pending path b)"
proof (cases "ek_kind (import_key b pending path) = RustSymbolReference \<and> \<not> known b (import_key b pending path)")
  case True
  let ?key = "import_key b pending path" and ?ev = "pi_evidence pending"
  have key: "EntityKey RustSymbolReference (ek_canonical_identity ?key) = ?key" using True by (cases ?key) simp
  let ?d = "\<lambda>name props. \<lparr>dr_key = ?key, dr_display_name = name, dr_properties = props, dr_evidence = ?ev\<rparr>"
  define added where "added name props t b' \<longleftrightarrow> t = ?key \<and>
    (\<exists>ds gs. b' = b\<lparr>bd_entities := bt_put ?key (?d name props) (bd_entities b), bd_diagnostics := ds, bd_extra_gaps := gs\<rparr>)"
    for name props t b'
  have new: "yields (\<lambda>(t, b'). added name props t b')
      (and_then (add_entity RustSymbolReference (ek_canonical_identity ?key) name props ?ev b) (\<lambda>(created, b).
       and_then (push_diagnostic (warning code (bd_path b) (vk_span ?ev)) b) (\<lambda>b.
       and_then (push_gap g b) (\<lambda>b. Ok (created, b)))))" for name props code g
  proof (rule yields_and_then_pair [OF add_entity_yields], rule yields_and_then [OF push_diagnostic_yields],
      rule yields_and_then [OF push_gap_yields])
    fix t b1 b2 b3
    assume "t = EntityKey RustSymbolReference (ek_canonical_identity ?key) \<and> \<not> known b t \<and>
        b1 = b\<lparr>bd_entities := bt_put t \<lparr>dr_key = t, dr_display_name = name, dr_properties = props, dr_evidence = ?ev\<rparr> (bd_entities b)\<rparr>"
      and "b2 = b1\<lparr>bd_diagnostics := bd_diagnostics b1 @ [warning code (bd_path b1) (vk_span ?ev)]\<rparr>"
      and "b3 = b2\<lparr>bd_extra_gaps := bd_extra_gaps b2 @ [g]\<rparr>"
    then show "yields (\<lambda>(t, b'). added name props t b') (Ok (t, b3))"
      unfolding added_def key by auto
  qed
  have "yields (advances b) (and_then r (\<lambda>(target, b).
      push_relationship \<lparr>rd_kind = Imports, rd_source = pi_owner pending, rd_target = target, rd_evidence = ?ev\<rparr> b))"
    if "yields (\<lambda>(t, b'). added name props t b') r" for r name props
  proof (rule yields_and_then_pair [OF that])
    fix t b' assume "added name props t b'"
    then obtain ds gs where t: "t = ?key"
        "b' = b\<lparr>bd_entities := bt_put ?key (?d name props) (bd_entities b), bd_diagnostics := ds, bd_extra_gaps := gs\<rparr>"
      by (auto simp: added_def)
    have "advances b (b'\<lparr>bd_relationships := bd_relationships b' @
        [\<lparr>rd_kind = Imports, rd_source = pi_owner pending, rd_target = ?key, rd_evidence = ?ev\<rparr>]\<rparr>)"
      by (rule built_reference [OF b, where key = ?key and d = "?d name props" and owner = "pi_owner pending" and ds = ds and gs = gs and ev = ?ev])
        (use True t owner in \<open>simp_all add: import_owner_def\<close>)
    then show "yields (advances b) (push_relationship
        \<lparr>rd_kind = Imports, rd_source = pi_owner pending, rd_target = t, rd_evidence = ?ev\<rparr> b')"
      using t(1) by (intro yields_mono [OF push_relationship_yields]) simp
  qed
  from this [OF new] True show ?thesis by (simp add: resolve_import_def Let_def known_def)
next
  case False
  have "draft_ok b \<lparr>rd_kind = Imports, rd_source = pi_owner pending, rd_target = import_key b pending path, rd_evidence = pi_evidence pending\<rparr>"
    by (cases rule: import_key_cases [of b pending path])
      (use False owner in \<open>auto simp: draft_ok_def import_owner_def importable_kinds_def\<close>)
  from push_yields [OF b this] False show ?thesis
    by (auto simp: resolve_import_def Let_def known_def)
qed

lemma resolve_targets_yields:
  "built b \<Longrightarrow> import_owner b pending \<Longrightarrow> yields (advances b) (resolve_targets pending paths b)"
proof (induction paths arbitrary: b)
  case (Cons path paths)
  have "yields (advances b) (resolve_targets pending paths b')" if "advances b b'" for b'
    using Cons.IH [of b'] Cons.prems(2) that by (auto intro!: yields_advances [OF that] simp: import_owner_def advancesD)
  then show ?case by (simp add: yields_and_then [OF resolve_import_yields [OF Cons.prems]])
qed (simp add: advances_refl)

lemma resolve_pending_yields:
  "built b \<Longrightarrow> \<forall>p \<in> set pending. import_owner b p \<Longrightarrow> yields (advances b) (resolve_pending pending b)"
proof (induction pending arbitrary: b)
  case (Cons p pending)
  have "yields (advances b) (resolve_pending pending b')" if "advances b b'" for b'
    using Cons.IH [of b'] Cons.prems(2) that by (auto intro!: yields_advances [OF that] simp: import_owner_def advancesD)
  then show ?case using Cons.prems by (simp add: yields_and_then [OF resolve_targets_yields])
qed (simp add: advances_refl)

lemma resolve_imports_yields:
  assumes "built b"
  shows "yields (advances b) (resolve_imports b)"
proof -
  let ?b = "b\<lparr>bd_pending_imports := []\<rparr>"
  have "built ?b" using assms unfolding built_def by (simp add: draft_ok_def defined_by_def)
  then have adv: "advances b ?b" by (simp add: advances_def)
  have "\<forall>p \<in> set (bd_pending_imports b). import_owner ?b p" using builtD(8) [OF assms] by (simp add: import_owner_def)
  from resolve_pending_yields [OF \<open>built ?b\<close> this] show ?thesis
    unfolding resolve_imports_def by (rule yields_advances [OF adv])
qed

lemma report_malformed_yields: "built b \<Longrightarrow> yields (advances b) (report_malformed root_evidence spans b)"
proof (induction spans arbitrary: b)
  case (Cons span spans)
  have "yields (advances b) (and_then (and_then (push_diagnostic d b) (push_gap g)) (report_malformed root_evidence spans))" for d g
    by (rule yields_and_then [OF report_yields [OF Cons.prems]]) (blast intro: yields_advances Cons.IH advancesD(1))
  moreover have "and_then (and_then r f) h = and_then r (\<lambda>x. and_then (f x) h)"
    for r :: "(builder, knowledge_error) result" and f :: "builder \<Rightarrow> (builder, knowledge_error) result" and h :: "builder \<Rightarrow> (builder, knowledge_error) result"
    by (cases r) auto
  ultimately show ?case by simp
qed (simp add: advances_refl)

text \<open>The builder after the crate and its file are added.\<close>

lemma built_start:
  assumes "bd_entities b = []" "bd_relationships b = []" "bd_pending_imports b = []"
    and "d = \<lparr>dr_key = crate_key, dr_display_name = n, dr_properties = ps, dr_evidence = ev\<rparr>"
    and "d' = \<lparr>dr_key = file_key b, dr_display_name = n', dr_properties = ps', dr_evidence = ev'\<rparr>"
    and b': "b' = b\<lparr>bd_entities := bt_put (file_key b) d' (bt_put crate_key d (bd_entities b))\<rparr>"
  shows "built b' \<and> known b' crate_key \<and> known b' (file_key b')"
proof -
  have wf: "bt_wf [(crate_key, d)]" by (simp add: bt_wf_def)
  have ents: "bd_entities b' = bt_put (file_key b) d' [(crate_key, d)]" using assms by simp
  have get: "bt_get (bd_entities b') k = (if k = file_key b then Some d' else if k = crate_key then Some d else None)" for k
    unfolding ents bt_get_put [OF wf] by simp
  have kn: "known b' k \<longleftrightarrow> k = file_key b \<or> k = crate_key" for k by (simp add: known_def get)
  have rest: "bd_relationships b' = []" "bd_pending_imports b' = []" "bd_path b' = bd_path b" using assms by simp_all
  have "built b'"
  proof (rule builtI)
    show "bt_wf (bd_entities b')" unfolding ents by (rule bt_wf_put [OF wf])
    show "dr_key e = k" if "bt_get (bd_entities b') k = Some e" for k e using that assms(4,5) by (auto simp: get split: if_splits)
    show "known b' k \<longleftrightarrow> k = crate_key" if "ek_kind k = RustCrate" for k using that by (auto simp: kn)
    show "known b' k \<longleftrightarrow> k = file_key b'" if "ek_kind k = SourceFile" for k using that by (auto simp: kn rest)
    show "\<exists>!p. defined_by b' p k" if "known b' k" "is_declaration (ek_kind k)" for k using that by (auto simp: kn is_declaration_def)
    show "\<exists>r \<in> set (bd_relationships b'). rd_kind r = Imports \<and> rd_target r = k"
      if "known b' k" "ek_kind k = RustSymbolReference" for k using that by (auto simp: kn)
  qed (simp_all add: rest)
  then show ?thesis by (simp add: kn rest)
qed

end
