(* ===== verification/Rust_Knowledge.thy ===== *)
theory Rust_Knowledge
  imports Rust_Builder
begin

text \<open>
  From a source text to published knowledge: what the builder has collected becomes a graph that passes
  the checks of a graph, so that an extraction fails only while it reads the source, at a limit, or at
  the contract of the chunk.
\<close>

section \<open>The graph of a builder\<close>

text \<open>
  Entities and relationships with the keys and drafts of a builder, named through identifiers that tell
  the keys apart, and the containment.
\<close>

definition materialized ::
  "builder \<Rightarrow> (entity_key \<Rightarrow> string) \<Rightarrow> knowledge_entity list \<Rightarrow> knowledge_relationship list \<Rightarrow> knowledge_relationship \<Rightarrow> bool" where
  "materialized b eid es rs contains \<longleftrightarrow>
     (\<forall>e \<in> set es. \<exists>k. known b k \<and> ke_kind e = ek_kind k \<and> ke_entity_id e = eid k) \<and>
     (\<forall>k. known b k \<longrightarrow> (\<exists>e \<in> set es. ke_kind e = ek_kind k \<and> ke_entity_id e = eid k)) \<and>
     (\<forall>r \<in> set rs. r = contains \<or>
       (\<exists>d \<in> set (bd_relationships b). relationship_tuple r = (rd_kind d, eid (rd_source d), eid (rd_target d)))) \<and>
     (\<forall>d \<in> set (bd_relationships b). \<exists>r \<in> set rs. relationship_tuple r = (rd_kind d, eid (rd_source d), eid (rd_target d))) \<and>
     contains \<in> set rs \<and> relationship_tuple contains = (Contains, eid crate_key, eid (file_key b)) \<and>
     inj_on relationship_tuple (set rs) \<and> inj_on eid {k. known b k}"

lemma materializedD:
  assumes "materialized b eid es rs contains"
  shows "e \<in> set es \<Longrightarrow> \<exists>k. known b k \<and> ke_kind e = ek_kind k \<and> ke_entity_id e = eid k"
    "known b k \<Longrightarrow> \<exists>e \<in> set es. ke_kind e = ek_kind k \<and> ke_entity_id e = eid k"
    "r \<in> set rs \<Longrightarrow> r \<noteq> contains \<Longrightarrow>
      \<exists>d \<in> set (bd_relationships b). relationship_tuple r = (rd_kind d, eid (rd_source d), eid (rd_target d))"
    "d \<in> set (bd_relationships b) \<Longrightarrow> \<exists>r \<in> set rs. relationship_tuple r = (rd_kind d, eid (rd_source d), eid (rd_target d))"
    "contains \<in> set rs" "relationship_tuple contains = (Contains, eid crate_key, eid (file_key b))"
    "r \<in> set rs \<Longrightarrow> r' \<in> set rs \<Longrightarrow> relationship_tuple r = relationship_tuple r' \<Longrightarrow> r = r'"
    "known b k \<Longrightarrow> known b k' \<Longrightarrow> eid k = eid k' \<Longrightarrow> k = k'"
  using assms unfolding materialized_def by (auto dest: inj_onD)

lemma materialized_endpoints:
  assumes built: "built b" and mat: "materialized b eid es rs contains"
  shows "endpoints_allowed es rs"
  unfolding endpoints_allowed_def
proof
  fix r assume r: "r \<in> set rs"
  have "\<exists>k l. known b k \<and> known b l \<and> eid k = kr_source_entity_id r \<and> eid l = kr_target_entity_id r \<and>
      relationship_endpoint_allowed (kr_kind r) (ek_kind k) (ek_kind l)"
  proof (cases "r = contains")
    case True
    then show ?thesis
      using materializedD(6) [OF mat] builtD(3) [OF built, of crate_key] builtD(4) [OF built, of "file_key b"]
      by (intro exI [of _ crate_key] exI [of _ "file_key b"]) (simp add: relationship_tuple_def)
  next
    case False
    then obtain d where "d \<in> set (bd_relationships b)" "relationship_tuple r = (rd_kind d, eid (rd_source d), eid (rd_target d))"
      using materializedD(3) [OF mat r] by auto
    with builtD(5) [OF built] show ?thesis by (auto simp: draft_ok_def relationship_tuple_def)
  qed
  then show "\<exists>s\<in>set es. \<exists>t\<in>set es. ke_entity_id s = kr_source_entity_id r \<and> ke_entity_id t = kr_target_entity_id r \<and>
      relationship_endpoint_allowed (kr_kind r) (ke_kind s) (ke_kind t)"
    using materializedD(2) [OF mat] by metis
qed

text \<open>The relationships of one kind are the drafts of that kind, but for the containment.\<close>

lemma materialized_kind:
  assumes mat: "materialized b eid es rs contains" and r: "r \<in> set rs" "kr_kind r \<noteq> Contains"
  obtains d where "d \<in> set (bd_relationships b)" "kr_kind r = rd_kind d" "kr_source_entity_id r = eid (rd_source d)"
    "kr_target_entity_id r = eid (rd_target d)"
proof -
  have "r \<noteq> contains" using r(2) materializedD(6) [OF mat] by (auto simp: relationship_tuple_def)
  with materializedD(3) [OF mat r(1)] that show thesis by (auto simp: relationship_tuple_def)
qed

lemma materialized_contains:
  assumes built: "built b" and mat: "materialized b eid es rs contains" and r: "r \<in> set rs" "kr_kind r = Contains"
  shows "r = contains"
proof (rule ccontr)
  assume "r \<noteq> contains"
  then obtain d where "d \<in> set (bd_relationships b)" "rd_kind d = Contains"
    using materializedD(3) [OF mat r(1)] r(2) by (auto simp: relationship_tuple_def)
  with builtD(5) [OF built] show False by (auto simp: draft_ok_def)
qed

lemma materialized_definition:
  assumes built: "built b" and mat: "materialized b eid es rs contains" and k: "known b k" "is_declaration (ek_kind k)"
  shows "\<exists>!r. r \<in> set rs \<and> kr_kind r = Defines \<and> kr_target_entity_id r = eid k"
proof -
  from builtD(6) [OF built k] obtain p where p: "defined_by b p k" and only: "\<And>q. defined_by b q k \<Longrightarrow> q = p" by auto
  have source: "kr_source_entity_id r = eid p" if r: "r \<in> set rs" "kr_kind r = Defines" "kr_target_entity_id r = eid k" for r
  proof -
    obtain d where d: "d \<in> set (bd_relationships b)" "rd_kind d = Defines" "kr_source_entity_id r = eid (rd_source d)"
        "eid (rd_target d) = eid k"
      using materialized_kind [OF mat r(1)] r(2,3) by (metis relationship_kind.distinct(1))
    then have "rd_target d = k" using builtD(5) [OF built] materializedD(8) [OF mat] k(1) by (auto simp: draft_ok_def)
    with d(1,2) have "defined_by b (rd_source d) k" by (auto simp: defined_by_def)
    with only d(3) show ?thesis by auto
  qed
  from p obtain d where "d \<in> set (bd_relationships b)" "rd_kind d = Defines" "rd_source d = p" "rd_target d = k"
    by (auto simp: defined_by_def)
  then obtain r where r: "r \<in> set rs" "relationship_tuple r = (Defines, eid p, eid k)"
    using materializedD(4) [OF mat] by metis
  show ?thesis
  proof (rule ex1I)
    show "r \<in> set rs \<and> kr_kind r = Defines \<and> kr_target_entity_id r = eid k" using r by (simp add: relationship_tuple_def)
    show "q = r" if "q \<in> set rs \<and> kr_kind q = Defines \<and> kr_target_entity_id q = eid k" for q
      using that source r by (intro materializedD(7) [OF mat]) (auto simp: relationship_tuple_def)
  qed
qed

lemma materialized_acyclic:
  assumes built: "built b" and mat: "materialized b eid es rs contains"
  shows "acyclic (child_relation rs)"
proof (rule acyclicI, safe)
  have edge: "\<exists>k l. known b k \<and> known b l \<and> x = eid k \<and> y = eid l \<and>
      length (ek_canonical_identity k) < length (ek_canonical_identity l)" if xy: "(x, y) \<in> child_relation rs" for x y
  proof -
    obtain r where r: "r \<in> set rs" "kr_kind r = Defines" "kr_source_entity_id r = x" "kr_target_entity_id r = y"
      using xy by (auto simp: child_relation_iff)
    have "kr_kind r \<noteq> Contains" using r(2) by simp
    from materialized_kind [OF mat r(1) this] obtain d where "d \<in> set (bd_relationships b)" "rd_kind d = Defines"
        "x = eid (rd_source d)" "y = eid (rd_target d)"
      using r by metis
    with builtD(5) [OF built] show ?thesis by (auto simp: draft_ok_def)
  qed
  have path: "\<exists>k l. known b k \<and> known b l \<and> x = eid k \<and> y = eid l \<and>
      length (ek_canonical_identity k) < length (ek_canonical_identity l)" if "(x, y) \<in> (child_relation rs)\<^sup>+" for x y
    using that
  proof (induction rule: trancl_induct)
    case (step y z)
    from step.IH edge [OF step.hyps(2)] materializedD(8) [OF mat] show ?case by (metis less_trans)
  qed (rule edge)
  fix x assume "(x, x) \<in> (child_relation rs)\<^sup>+"
  with path [OF this] materializedD(8) [OF mat] show False by (metis less_irrefl)
qed

lemma materialized_shape:
  assumes built: "built b" and mat: "materialized b eid es rs contains" and ids: "distinct (map ke_entity_id es)"
  shows "graph_shape es rs" "\<exists>!r. r \<in> set rs \<and> kr_kind r = Contains"
proof -
  note M = materializedD [OF mat]
  have crate: "known b crate_key" using builtD(3) [OF built, of crate_key] by simp
  have key: "\<exists>k. known b k \<and> ke_kind e = ek_kind k \<and> ke_entity_id e = eid k" if "e \<in> set es" for e using M(1) that .
  have only: "kr_target_entity_id contains = eid (file_key b)" "kr_kind contains = Contains"
    using M(6) by (auto simp: relationship_tuple_def)
  show one: "\<exists>!r. r \<in> set rs \<and> kr_kind r = Contains"
    using M(5) only materialized_contains [OF built mat] by blast
  show "graph_shape es rs"
    unfolding graph_shape_def
  proof (intro conjI ballI impI)
    obtain c where c: "c \<in> set es" "ke_kind c = RustCrate" "ke_entity_id c = eid crate_key" using M(2) [OF crate] by auto
    show "\<exists>!e. e \<in> set es \<and> ke_kind e = RustCrate"
    proof (rule ex1I)
      show "c \<in> set es \<and> ke_kind c = RustCrate" using c by simp
      show "e = c" if e: "e \<in> set es \<and> ke_kind e = RustCrate" for e
      proof -
        obtain k where "known b k" "ek_kind k = RustCrate" "ke_entity_id e = eid k" using key e by metis
        with builtD(3) [OF built, of k] c have "ke_entity_id e = ke_entity_id c" by simp
        with e c show ?thesis by (intro entity_inject [OF ids]) auto
      qed
    qed
    show "\<exists>!r. r \<in> set rs \<and> kr_kind r = Contains \<and> kr_target_entity_id r = ke_entity_id e"
      if e: "e \<in> set es" "ke_kind e = SourceFile" for e
    proof -
      obtain k where "known b k" "ek_kind k = SourceFile" "ke_entity_id e = eid k" using key [OF e(1)] e(2) by metis
      with builtD(4) [OF built, of k] have "ke_entity_id e = eid (file_key b)" by simp
      then show ?thesis
        using M(5) only by (intro ex1I [of _ contains]) (simp, blast intro: materialized_contains [OF built mat])
    qed
    show "\<exists>!r. r \<in> set rs \<and> kr_kind r = Defines \<and> kr_target_entity_id r = ke_entity_id e"
      if e: "e \<in> set es" "is_declaration (ke_kind e)" for e
    proof -
      obtain k where "known b k" "ke_kind e = ek_kind k" "ke_entity_id e = eid k" using key [OF e(1)] by metis
      with materialized_definition [OF built mat, of k] e(2) show ?thesis by simp
    qed
    show "\<exists>r\<in>set rs. kr_kind r \<in> {Imports, Implements} \<and> kr_target_entity_id r = ke_entity_id e"
      if e: "e \<in> set es" "ke_kind e = RustSymbolReference" for e
    proof -
      obtain k where k: "known b k" "ek_kind k = RustSymbolReference" "ke_entity_id e = eid k" using key [OF e(1)] e(2) by metis
      then obtain d where "d \<in> set (bd_relationships b)" "rd_kind d = Imports" "rd_target d = k" using builtD(7) [OF built] by blast
      with M(4) [of d] k(3) show ?thesis by (auto simp: relationship_tuple_def)
    qed
  qed (rule materialized_acyclic [OF built mat])
qed

section \<open>Materialisation\<close>

lemma evidence_ids_fold:
  "evidence_ids root es rs = fold (\<lambda>(k, v). bt_put k v)
     (map (\<lambda>(index, key). (key, ''evidence-s2-'' @ pad_zeros 4 (show_nat (index + 1))))
       (enumerate 0 (sort_dedup (filter (\<lambda>key. key \<noteq> root) (es @ rs))))) [(root, ''evidence-s2-0000'')]"
  unfolding evidence_ids_def Let_def fold_map by (rule arg_cong [where f = "\<lambda>f. fold f _ _"]) (auto simp: fun_eq_iff)

lemma evidence_ids_known:
  assumes "key = root \<or> key \<in> set es \<or> key \<in> set rs"
  shows "\<exists>i. bt_get (evidence_ids root es rs) key = Some i"
proof -
  let ?kvs = "map (\<lambda>(index, key). (key, ''evidence-s2-'' @ pad_zeros 4 (show_nat (index + 1))))
       (enumerate 0 (sort_dedup (filter (\<lambda>key. key \<noteq> root) (es @ rs))))"
  have wf: "bt_wf [(root, ''evidence-s2-0000'')]" by (simp add: bt_wf_def)
  have keys: "map fst ?kvs = sort_dedup (filter (\<lambda>key. key \<noteq> root) (es @ rs))"
    by (simp add: comp_def case_prod_beta)
  have "key \<in> fst ` set ?kvs" if "key \<noteq> root"
    using that assms unfolding set_map [symmetric] keys by auto
  then show ?thesis
    unfolding evidence_ids_fold bt.get_fold [OF wf]
    by (cases "key = root") (auto split: option.split simp: map_of_eq_None_iff)
qed

definition drafted_entity :: "hash \<Rightarrow> string \<Rightarrow> (evidence_key, string) btree \<Rightarrow> entity_draft \<Rightarrow> knowledge_entity" where
  "drafted_entity blake3 repository_identity ids d =
     new_knowledge_entity blake3 repository_identity (ek_kind (dr_key d)) (ek_canonical_identity (dr_key d))
       (dr_display_name d) (dr_properties d) [the (bt_get ids (dr_evidence d))]"

lemma new_entities_Ok:
  "(\<And>d. d \<in> set ds \<Longrightarrow> \<exists>i. bt_get ids (dr_evidence d) = Some i) \<Longrightarrow>
   new_entities blake3 repository_identity ids ds = Ok (map (drafted_entity blake3 repository_identity ids) ds)"
proof (induction ds)
  case (Cons d ds)
  from Cons.prems obtain i where "bt_get ids (dr_evidence d) = Some i" by auto
  with Cons show ?case by (simp add: drafted_entity_def)
qed simp

text \<open>The identifier of the entity with a key.\<close>

definition key_id :: "hash \<Rightarrow> string \<Rightarrow> entity_key \<Rightarrow> string" where
  "key_id blake3 repository_identity k = stable_entity_id blake3 repository_identity (ek_kind k) (ek_canonical_identity k)"

lemma drafted_entity_fields [simp]:
  "ke_kind (drafted_entity blake3 i ids d) = ek_kind (dr_key d)"
  "ke_canonical_identity (drafted_entity blake3 i ids d) = ek_canonical_identity (dr_key d)"
  "ke_entity_id (drafted_entity blake3 i ids d) = key_id blake3 i (dr_key d)"
  by (simp_all add: drafted_entity_def new_knowledge_entity_def key_id_def Let_def)

lemma drafts_of_known:
  assumes "built b"
  shows "known b k \<longleftrightarrow> (\<exists>d \<in> set (map snd (bd_entities b)). dr_key d = k)"
proof -
  have "known b k \<longleftrightarrow> (\<exists>d. (k, d) \<in> set (bd_entities b))"
    using bt_get_mem [OF builtD(1) [OF assms]] by (auto simp: known_def)
  also have "\<dots> \<longleftrightarrow> (\<exists>d \<in> set (map snd (bd_entities b)). dr_key d = k)"
    using builtD(2) [OF assms] bt_get_mem [OF builtD(1) [OF assms]] by force
  finally show ?thesis .
qed

lemma drafts_distinct:
  assumes "built b"
  shows "distinct (map dr_key (map snd (bd_entities b)))"
proof -
  have "map dr_key (map snd (bd_entities b)) = map fst (bd_entities b)"
    using builtD(2) [OF assms] bt_get_mem [OF builtD(1) [OF assms]] by force
  moreover have "distinct (map fst (bd_entities b))" using builtD(1) [OF assms] by (simp add: bt_wf_def strict_sorted_iff)
  ultimately show ?thesis by (simp only:)
qed

lemma distinct_keys_sort: "distinct (map f (sort_key g xs)) \<longleftrightarrow> distinct (map f xs)"
  by (simp add: distinct_map)

lemma entity_id_index_get:
  assumes "built b" and es: "es = sort_key ke_entity_id (map (drafted_entity blake3 i ids) (map snd (bd_entities b)))"
  shows "bt_get (entity_id_index es) k = (if known b k then Some (key_id blake3 i k) else None)"
proof -
  let ?key = "\<lambda>e. EntityKey (ke_kind e) (ke_canonical_identity e)"
  have key: "?key (drafted_entity blake3 i ids d) = dr_key d" for d by simp
  have "distinct (map ?key (map (drafted_entity blake3 i ids) (map snd (bd_entities b))))"
    using drafts_distinct [OF assms(1)] by (simp add: comp_def)
  then have "distinct (map ?key es)" unfolding es distinct_keys_sort .
  then have "bt_get (entity_id_index es) k = Some v \<longleftrightarrow> (\<exists>e \<in> set es. ?key e = k \<and> ke_entity_id e = v)" for v
    unfolding entity_id_index_def by (rule bt_collect_map)
  also have "\<dots> v \<longleftrightarrow> (\<exists>d \<in> set (map snd (bd_entities b)). dr_key d = k \<and> key_id blake3 i (dr_key d) = v)" for v
    unfolding es by simp
  also have "\<dots> v \<longleftrightarrow> known b k \<and> v = key_id blake3 i k" for v
    unfolding drafts_of_known [OF assms(1)] by auto
  finally have get: "bt_get (entity_id_index es) k = Some v \<longleftrightarrow> known b k \<and> v = key_id blake3 i k" for v .
  show ?thesis using get by (cases "bt_get (entity_id_index es) k") auto
qed

lemma group_drafts_Ok:
  assumes "\<And>d. d \<in> set ds \<Longrightarrow> bt_get entity_ids (rd_source d) = Some (eid (rd_source d)) \<and>
      bt_get entity_ids (rd_target d) = Some (eid (rd_target d)) \<and> (\<exists>i. bt_get ids (rd_evidence d) = Some i)"
  shows "bt_wf g \<Longrightarrow> \<exists>g'. group_drafts entity_ids ids g ds = Ok g' \<and> bt_wf g' \<and>
    fst ` set g' = fst ` set g \<union> (\<lambda>d. (rd_kind d, eid (rd_source d), eid (rd_target d))) ` set ds"
  using assms
proof (induction ds arbitrary: g)
  case (Cons d ds)
  from Cons.prems(2) obtain i where d: "bt_get entity_ids (rd_source d) = Some (eid (rd_source d))"
      "bt_get entity_ids (rd_target d) = Some (eid (rd_target d))" "bt_get ids (rd_evidence d) = Some i" by auto
  let ?key = "(rd_kind d, eid (rd_source d), eid (rd_target d))"
  let ?g = "bt_put ?key (bs_insert i (case bt_get g ?key of None \<Rightarrow> [] | Some old \<Rightarrow> old)) g"
  have "bt_wf ?g" using Cons.prems(1) by (rule bt_wf_put)
  moreover have "fst ` set ?g = insert ?key (fst ` set g)"
    using bt_put_keys [of ?key] unfolding set_map .
  ultimately show ?case using Cons.IH [of ?g] Cons.prems(2) d by (simp add: Let_def)
qed auto

lemma new_relationship_fields [simp]:
  "kr_kind (new_knowledge_relationship blake3 i kind s t ev) = kind"
  "kr_source_entity_id (new_knowledge_relationship blake3 i kind s t ev) = s"
  "kr_target_entity_id (new_knowledge_relationship blake3 i kind s t ev) = t"
  "kr_evidence_ids (new_knowledge_relationship blake3 i kind s t ev) = ev"
  "kr_relationship_id (new_knowledge_relationship blake3 i kind s t ev) = stable_relationship_id blake3 i kind s t"
  "kr_claim_id (new_knowledge_relationship blake3 i kind s t ev) =
     stable_claim_id blake3 i (subject_kind_str Relationship_subject) (stable_relationship_id blake3 i kind s t)"
  "relationship_tuple (new_knowledge_relationship blake3 i kind s t ev) = (kind, s, t)"
  by (simp_all add: new_knowledge_relationship_def relationship_tuple_def Let_def)

lemma materialize_relationships_Ok:
  assumes "\<And>d. d \<in> set ds \<Longrightarrow> bt_get entity_ids (rd_source d) = Some (eid (rd_source d)) \<and>
      bt_get entity_ids (rd_target d) = Some (eid (rd_target d)) \<and> (\<exists>i. bt_get ids (rd_evidence d) = Some i)"
  shows "\<exists>rs. materialize_relationships blake3 i ds entity_ids ids = Ok rs \<and> inj_on relationship_tuple (set rs) \<and>
    relationship_tuple ` set rs = (\<lambda>d. (rd_kind d, eid (rd_source d), eid (rd_target d))) ` set ds"
proof -
  let ?new = "\<lambda>((kind, source_id, target_id), evidence). new_knowledge_relationship blake3 i kind source_id target_id (bt_keys evidence)"
  obtain g where g: "group_drafts entity_ids ids [] ds = Ok g" "bt_wf g"
      "fst ` set g = (\<lambda>d. (rd_kind d, eid (rd_source d), eid (rd_target d))) ` set ds"
    using group_drafts_Ok [of ds entity_ids eid ids "[]"] assms by auto
  have tuple: "relationship_tuple (?new x) = fst x" for x :: "(relationship_kind \<times> string \<times> string) \<times> string btset"
    by (cases x) auto
  have "inj_on fst (set g)" using g(2) by (simp add: bt_wf_def strict_sorted_iff distinct_map)
  then have "inj_on relationship_tuple (?new ` set g)" by (auto simp: inj_on_def tuple)
  moreover have "relationship_tuple ` ?new ` set g = fst ` set g" unfolding image_image tuple ..
  ultimately show ?thesis using g by (auto simp: materialize_relationships_def)
qed

lemma derive_containment_Ok:
  assumes b: "built b" and es: "es = sort_key ke_entity_id (map (drafted_entity blake3 i ids) (map snd (bd_entities b)))"
    and contains: "contains = new_knowledge_relationship blake3 i Contains (key_id blake3 i crate_key) (key_id blake3 i (file_key b)) [root_id]"
  shows "derive_containment blake3 i crate_key (file_key b) (entity_id_index es) (sort_key kc_claim_id (parser_claims blake3 i es rs)) root_id =
    Ok (contains, relationship_claim blake3 i contains)"
proof -
  have crate: "known b crate_key" "known b (file_key b)"
    using builtD(3) [OF b, of crate_key] builtD(4) [OF b, of "file_key b"] by simp_all
  let ?cs = "filter (\<lambda>c. kc_subject_kind c = Entity_subject) (sort_key kc_claim_id (parser_claims blake3 i es rs))"
  let ?m = "bt_collect (map (\<lambda>c. (kc_subject_id c, kc_claim_id c)) ?cs)"
  have get: "bt_get ?m (key_id blake3 i k) = Some (stable_claim_id blake3 i (subject_kind_str Entity_subject) (key_id blake3 i k))"
    if kn: "known b k" for k
  proof -
    obtain d where d: "d \<in> set (map snd (bd_entities b))" "dr_key d = k" using kn drafts_of_known [OF b] by auto
    define e where "e = drafted_entity blake3 i ids d"
    have e: "e \<in> set es" "ke_entity_id e = key_id blake3 i k"
      using d unfolding es e_def by auto
    have mem: "c \<in> set ?cs \<Longrightarrow> kc_claim_id c = stable_claim_id blake3 i (subject_kind_str Entity_subject) (kc_subject_id c)" for c
      by (auto simp: parser_claims_def parser_claim_def)
    have "parser_claim blake3 i Entity_subject (ke_entity_id e) (ke_evidence_ids e) \<in> set ?cs"
      using e(1) by (auto simp: parser_claims_def parser_claim_def)
    then have "key_id blake3 i k \<in> kc_subject_id ` set ?cs" using e(2) by (force simp: parser_claim_def)
    then have "map_of (rev (map (\<lambda>c. (kc_subject_id c, kc_claim_id c)) ?cs)) (key_id blake3 i k) \<noteq> None"
      unfolding map_of_eq_None_iff by (simp add: image_image)
    then obtain v where v: "map_of (rev (map (\<lambda>c. (kc_subject_id c, kc_claim_id c)) ?cs)) (key_id blake3 i k) = Some v" by auto
    from map_of_SomeD [OF v] obtain c where "c \<in> set ?cs" "kc_subject_id c = key_id blake3 i k" "kc_claim_id c = v" by auto
    with v mem [of c] show ?thesis unfolding bt_collect_def bt.get_collect by simp
  qed
  show ?thesis
    using crate get [OF crate(1)] get [OF crate(2)]
    by (simp add: derive_containment_def entity_id_index_get [OF b es] Let_def contains relationship_claim_def)
qed

section \<open>Validation of what is assembled\<close>

lemma validate_no_panic:
  "validate_common blake3 v \<noteq> Panic" "validate_claims blake3 i es rs cs evidence \<noteq> Panic" "validate_parser_derivations cs \<noteq> Panic"
proof -
  have entities: "validate_knowledge_entities blake3 i ev es \<noteq> Panic" for i ev es by (induction es) auto
  have relationships: "validate_knowledge_relationships blake3 i m ev tuples rs \<noteq> Panic" for i m ev tuples rs
    by (induction rs arbitrary: tuples) (auto simp: result_iffs)
  show "validate_common blake3 v \<noteq> Panic"
    by (auto simp: validate_common_def Let_def result_iffs validate_evidence_def validate_observations_def entities relationships)
  have each: "(\<And>c. v c \<noteq> Panic) \<Longrightarrow> validate_each_claim v cs \<noteq> Panic" for v cs
    by (induction cs) (auto simp: result_iffs)
  show "validate_claims blake3 i es rs cs evidence \<noteq> Panic"
    unfolding validate_claims_def by (rule each) (auto simp: validate_claim_def result_iffs split: prod.splits)
  show "validate_parser_derivations cs \<noteq> Panic"
    unfolding validate_parser_derivations_def
    by (rule each) (simp add: validate_parser_derivation_def split: claim_state.split claim_derivation.split)
qed

lemma yields_chunk_validate: "yields (\<lambda>_. True) (chunk_validate blake3 chunk)"
proof -
  have limits: "yields (\<lambda>_. True) (validate_extraction_limits chunk)"
    unfolding validate_extraction_limits_def check_extraction_count_def
    by (auto intro!: yields_and_then [where Q = "\<lambda>_. True"])
  have mapped: "yields (\<lambda>_. True) (map_err (\<lambda>e. case e of K_LimitExceeded _ _ _ \<Rightarrow> e | _ \<Rightarrow> K_ContractInvalid) r)"
    if "r \<noteq> Panic" for r :: "(unit, knowledge_error) result"
    using that by (cases r) (auto split: knowledge_error.split)
  show ?thesis
    unfolding chunk_validate_def
    by (intro yields_and_then [OF limits] yields_and_then [OF yields_fail_if] mapped)
      (auto simp: and_then_Panic_iff validate_no_panic)
qed

lemma evidence_sound_larger:
  "evidence_sound i c n source evidence \<Longrightarrow> n \<le> m \<Longrightarrow> evidence_sound i c m None evidence"
  by (auto simp: evidence_sound_def evidence_valid_def is_valid_for_def)

lemma observation_larger:
  "diagnostic_valid n path d \<Longrightarrow> n \<le> m \<Longrightarrow> diagnostic_valid m None d"
  "gap_valid ev n path g \<Longrightarrow> n \<le> m \<Longrightarrow> gap_valid ev m None g"
  by (auto simp: diagnostic_valid_def gap_valid_def is_valid_for_def)

lemma observations_sound_larger:
  assumes "observations_sound evidence n path diagnostics coverage" "n \<le> m"
  shows "observations_sound evidence m None diagnostics coverage"
  using assms observation_larger unfolding observations_sound_def by blast

text \<open>The facts a valid chunk gives of its own collections.\<close>

lemma chunk_validateD:
  assumes "chunk_validate blake3 chunk = Ok ()"
  shows "ch_byte_length chunk \<le> limit_maximum SingleFileBytes" "\<And>r. r \<in> set (ch_relationships chunk) \<Longrightarrow> kr_kind r \<noteq> Contains"
    "identified (ch_repository_identity chunk) (ch_commit_oid chunk)"
    "evidence_sound (ch_repository_identity chunk) (ch_commit_oid chunk) (ch_byte_length chunk)
      (Some (ch_blob_oid chunk, ch_path chunk)) (ch_evidence chunk)"
    "observations_sound (ch_evidence chunk) (ch_byte_length chunk) (Some (ch_path chunk)) (ch_diagnostics chunk) (ch_coverage chunk)"
    "subjects_valid blake3 (ch_repository_identity chunk) (ch_entities chunk) (ch_relationships chunk) (ch_evidence chunk)"
    "sorted_wrt (<) (map ke_entity_id (ch_entities chunk))"
  using assms
  by (auto simp: chunk_validate_def result_iffs validate_common_iff collections_ordered_def validate_extraction_limits_def list_ex_iff
    simp del: limit_maximum.simps split: if_splits)

lemma yields_graph_limits: "yields (\<lambda>_. True) (validate_graph_limits g)"
  unfolding validate_graph_limits_def check_graph_count_def
  by (auto intro!: yields_and_then [where Q = "\<lambda>_. True"])

lemma graph_common_yields:
  assumes "identified (kn_repository_identity g) (kn_commit_oid g)"
    and ordered: "collections_ordered (kn_entities g) (kn_relationships g) (kn_claims g) \<Longrightarrow>
      validate_common blake3 \<lparr>vi_repository_identity = kn_repository_identity g, vi_commit_oid = kn_commit_oid g,
         vi_entities = kn_entities g, vi_relationships = kn_relationships g, vi_claims = kn_claims g,
         vi_evidence = kn_evidence g, vi_diagnostics = kn_diagnostics g, vi_coverage = kn_coverage g,
         vi_byte_length = n, vi_source = None\<rparr> = Ok ()"
  shows "yields (\<lambda>_. collections_ordered (kn_entities g) (kn_relationships g) (kn_claims g))
    (validate_common blake3 \<lparr>vi_repository_identity = kn_repository_identity g, vi_commit_oid = kn_commit_oid g,
         vi_entities = kn_entities g, vi_relationships = kn_relationships g, vi_claims = kn_claims g,
         vi_evidence = kn_evidence g, vi_diagnostics = kn_diagnostics g, vi_coverage = kn_coverage g,
         vi_byte_length = n, vi_source = None\<rparr>)"
proof (cases "collections_ordered (kn_entities g) (kn_relationships g) (kn_claims g)")
  case True
  then show ?thesis using ordered by simp
next
  case False
  then show ?thesis
    using assms(1) by (auto simp: validate_common_def collections_ordered_def identified_def fail_if_def)
qed

lemma assembled_graph_yields:
  assumes b: "built b" and chunk: "chunk_validate blake3 chunk = Ok ()"
    and same: "kn_repository_identity g = ch_repository_identity chunk" "kn_commit_oid g = ch_commit_oid chunk"
      "kn_entities g = ch_entities chunk" "kn_evidence g = ch_evidence chunk" "kn_diagnostics g = ch_diagnostics chunk"
      "kn_coverage g = ch_coverage chunk"
    and rs: "kn_relationships g = sort_key kr_relationship_id (ch_relationships chunk @ [contains])"
    and cs: "kn_claims g = sort_key kc_claim_id (sort_key kc_claim_id (parser_claims blake3 (ch_repository_identity chunk)
      (ch_entities chunk) (ch_relationships chunk)) @ [relationship_claim blake3 (ch_repository_identity chunk) contains])"
    and contains: "relationship_identified blake3 (ch_repository_identity chunk) (evidence_by_id (ch_evidence chunk)) contains"
      "kr_kind contains = Contains"
    and mat: "materialized b eid (ch_entities chunk) (kn_relationships g) contains"
  shows "yields (\<lambda>_. True) (graph_validate blake3 g)"
proof -
  note C = chunk_validateD [OF chunk]
  let ?i = "ch_repository_identity chunk"
  have ids: "distinct (map ke_entity_id (ch_entities chunk))" using C(7) by (simp add: strict_sorted_iff)
  have valid: "subjects_valid blake3 ?i (kn_entities g) (kn_relationships g) (kn_evidence g)"
    if "collections_ordered (kn_entities g) (kn_relationships g) (kn_claims g)"
    using that C(6) contains(1) materialized_endpoints [OF b mat]
    by (auto simp: subjects_valid_def collections_ordered_def strict_sorted_iff same rs)
  have justified: "set (kn_claims g) = justified_claims blake3 ?i (kn_entities g) (kn_relationships g)"
    using C(2) by (auto simp: cs rs same justified_claims_def parser_claims_def entity_claim_def relationship_claim_def)
  have counted: "length (kn_claims g) = length (kn_entities g) + length (kn_relationships g)"
    by (simp add: cs rs same parser_claims_def)
  have rest: "validate_cardinalities (kn_entities g) (kn_relationships g) = Ok ()"
      "validate_claims blake3 ?i (kn_entities g) (kn_relationships g) (kn_claims g) (kn_evidence g) = Ok ()"
      "validate_knowledge_derivations (kn_entities g) (kn_relationships g) (kn_claims g) (kn_evidence g) = Ok ()"
    if ordered: "collections_ordered (kn_entities g) (kn_relationships g) (kn_claims g)"
  proof -
    note v = valid [OF ordered]
    have "distinct (kn_relationships g)" using v by (simp add: subjects_valid_def distinct_map)
    then show "validate_cardinalities (kn_entities g) (kn_relationships g) = Ok ()"
      using validate_cardinalities_shape [of "kn_entities g" "kn_relationships g"] ids materialized_endpoints [OF b mat]
        materialized_shape(1) [OF b mat ids] by (simp add: same)
    have "sorted_wrt (<) (map kc_claim_id (kn_claims g))" using ordered by (simp add: collections_ordered_def)
    from claims_exact [OF v this] justified materialized_shape(2) [OF b mat ids]
    show "validate_claims blake3 ?i (kn_entities g) (kn_relationships g) (kn_claims g) (kn_evidence g) = Ok ()"
      "validate_knowledge_derivations (kn_entities g) (kn_relationships g) (kn_claims g) (kn_evidence g) = Ok ()"
      by blast+
  qed
  have common: "yields (\<lambda>_. collections_ordered (kn_entities g) (kn_relationships g) (kn_claims g))
    (validate_common blake3 \<lparr>vi_repository_identity = kn_repository_identity g, vi_commit_oid = kn_commit_oid g,
         vi_entities = kn_entities g, vi_relationships = kn_relationships g, vi_claims = kn_claims g,
         vi_evidence = kn_evidence g, vi_diagnostics = kn_diagnostics g, vi_coverage = kn_coverage g,
         vi_byte_length = limit_maximum SingleFileBytes, vi_source = None\<rparr>)"
    using C(3) counted valid evidence_sound_larger [OF C(4,1)] observations_sound_larger [OF C(5,1)]
    by (intro graph_common_yields) (simp_all add: validate_common_iff same del: limit_maximum.simps)
  show ?thesis
    unfolding graph_validate_def
    by (rule yields_and_then [OF yields_graph_limits], rule yields_and_then [OF common]) (simp add: rest same(1))
qed

section \<open>Extraction\<close>

lemma bt_get_listed: "bt_get m k = Some v \<Longrightarrow> (k, v) \<in> set m"
  by (induction m) (auto split: if_splits)

lemma key_id_inject:
  assumes b: "built b" and es: "es = sort_key ke_entity_id (map (drafted_entity blake3 i ids) (map snd (bd_entities b)))"
    and "distinct (map ke_entity_id es)"
  shows "inj_on (key_id blake3 i) {k. known b k}"
proof -
  let ?ds = "map snd (bd_entities b)"
  have "map ke_entity_id (map (drafted_entity blake3 i ids) ?ds) = map (key_id blake3 i) (map dr_key ?ds)" by simp
  then have "distinct (map (key_id blake3 i) (map dr_key ?ds))"
    using assms(3) unfolding es distinct_keys_sort by (simp only:)
  moreover have "{k. known b k} = set (map dr_key ?ds)"
    using drafts_of_known [OF b] by auto
  ultimately show ?thesis unfolding distinct_map [of "key_id blake3 i"] by simp
qed

lemma materialized_drafts:
  assumes b: "built b" and es: "es = sort_key ke_entity_id (map (drafted_entity blake3 i ids) (map snd (bd_entities b)))"
    and ids: "distinct (map ke_entity_id es)" and inj: "inj_on relationship_tuple (set rs)"
    and rs: "relationship_tuple ` set rs =
      (\<lambda>d. (rd_kind d, key_id blake3 i (rd_source d), key_id blake3 i (rd_target d))) ` set (bd_relationships b)"
    and contains: "relationship_tuple contains = (Contains, key_id blake3 i crate_key, key_id blake3 i (file_key b))"
  shows "materialized b (key_id blake3 i) es (sort_key kr_relationship_id (rs @ [contains])) contains"
proof -
  have new: "relationship_tuple r \<noteq> relationship_tuple contains" if "r \<in> set rs" for r
  proof
    assume "relationship_tuple r = relationship_tuple contains"
    then have "(Contains, key_id blake3 i crate_key, key_id blake3 i (file_key b)) \<in> relationship_tuple ` set rs"
      using that contains by force
    then obtain d where "d \<in> set (bd_relationships b)" "rd_kind d = Contains" unfolding rs by auto
    with builtD(5) [OF b] show False by (auto simp: draft_ok_def)
  qed
  have es_iff: "e \<in> set es \<longleftrightarrow> (\<exists>d \<in> set (map snd (bd_entities b)). e = drafted_entity blake3 i ids d)" for e unfolding es by auto
  have "\<exists>k. known b k \<and> ke_kind e = ek_kind k \<and> ke_entity_id e = key_id blake3 i k" if "e \<in> set es" for e
  proof -
    from that es_iff obtain d where "d \<in> set (map snd (bd_entities b))" "e = drafted_entity blake3 i ids d" by auto
    then show ?thesis using drafts_of_known [OF b, of "dr_key d"] by (intro exI [of _ "dr_key d"]) auto
  qed
  moreover have "\<exists>e \<in> set es. ke_kind e = ek_kind k \<and> ke_entity_id e = key_id blake3 i k" if "known b k" for k
  proof -
    from that drafts_of_known [OF b, of k] obtain d where "d \<in> set (map snd (bd_entities b))" "dr_key d = k" by auto
    then show ?thesis using es_iff by (intro bexI [of _ "drafted_entity blake3 i ids d"]) auto
  qed
  moreover have "\<exists>d \<in> set (bd_relationships b). relationship_tuple r = (rd_kind d, key_id blake3 i (rd_source d), key_id blake3 i (rd_target d))"
    if "r \<in> set rs" for r using that imageI [OF that, of relationship_tuple] unfolding rs by auto
  moreover have "\<exists>r \<in> set rs. relationship_tuple r = (rd_kind d, key_id blake3 i (rd_source d), key_id blake3 i (rd_target d))"
    if "d \<in> set (bd_relationships b)" for d
  proof -
    have "(rd_kind d, key_id blake3 i (rd_source d), key_id blake3 i (rd_target d)) \<in> relationship_tuple ` set rs"
      unfolding rs using that by blast
    then show ?thesis by (auto simp: image_iff)
  qed
  moreover have "inj_on relationship_tuple (set (sort_key kr_relationship_id (rs @ [contains])))"
    using inj new by (force simp: inj_on_insert)
  ultimately show ?thesis
    using contains key_id_inject [OF b es ids] unfolding materialized_def by auto
qed

lemma finish_yields:
  assumes b: "built b"
  shows "yields (\<lambda>_. True) (finish blake3 crate_key (file_key b) root b)"
proof -
  let ?i = "bd_repository_identity b"
  define ids where "ids = evidence_ids root (map (dr_evidence \<circ> snd) (bd_entities b)) (map rd_evidence (bd_relationships b))"
  define es where "es = sort_key ke_entity_id (map (drafted_entity blake3 ?i ids) (map snd (bd_entities b)))"
  obtain root_id where root: "bt_get ids root = Some root_id" using evidence_ids_known unfolding ids_def by blast
  have "\<exists>i. bt_get ids (dr_evidence d) = Some i" if "d \<in> set (map snd (bd_entities b))" for d
    unfolding ids_def by (rule evidence_ids_known) (use that in auto)
  then have entities: "materialize_entities blake3 ?i (bd_entities b) ids = Ok es"
    by (simp only: materialize_entities_def es_def and_then.simps new_entities_Ok)
  have "bt_get (entity_id_index es) (rd_source d) = Some (key_id blake3 ?i (rd_source d)) \<and>
      bt_get (entity_id_index es) (rd_target d) = Some (key_id blake3 ?i (rd_target d)) \<and> (\<exists>i. bt_get ids (rd_evidence d) = Some i)"
    if d: "d \<in> set (bd_relationships b)" for d
  proof -
    have "known b (rd_source d)" "known b (rd_target d)" using builtD(5) [OF b d] by (auto simp: draft_ok_def)
    moreover have "\<exists>i. bt_get ids (rd_evidence d) = Some i" unfolding ids_def by (rule evidence_ids_known) (use d in auto)
    ultimately show ?thesis by (simp add: entity_id_index_get [OF b es_def])
  qed
  from materialize_relationships_Ok [OF this] obtain rs
    where relationships: "materialize_relationships blake3 ?i (bd_relationships b) (entity_id_index es) ids = Ok rs"
      and inj: "inj_on relationship_tuple (set rs)"
      and tuples: "relationship_tuple ` set rs =
        (\<lambda>d. (rd_kind d, key_id blake3 ?i (rd_source d), key_id blake3 ?i (rd_target d))) ` set (bd_relationships b)"
    by blast
  define contains where "contains =
    new_knowledge_relationship blake3 ?i Contains (key_id blake3 ?i crate_key) (key_id blake3 ?i (file_key b)) [root_id]"
  note derived = derive_containment_Ok [OF b es_def contains_def, of rs]
  have supported: "relationship_identified blake3 ?i (evidence_by_id (materialize_evidence b ids)) contains"
  proof -
    have "root_id \<in> sev_evidence_id ` set (materialize_evidence b ids)"
      using bt_get_listed [OF root] by (force simp: materialize_evidence_def)
    then have "bt_get (evidence_by_id (materialize_evidence b ids)) root_id \<noteq> None" unfolding evidence_by_id_known .
    then show ?thesis by (simp add: relationship_identified_def contains_def valid_evidence_references_def max_s2_evidence_ids_def)
  qed
  have validated: "yields (\<lambda>_. True) (rust_knowledge_validate blake3 \<lparr>rk_extraction_chunks = [chunk], rk_graph = g\<rparr>)"
    if chunk: "chunk_validate blake3 chunk = Ok () \<Longrightarrow> yields (\<lambda>_. True) (graph_validate blake3 g)" for chunk g
    unfolding rust_knowledge_validate_def Let_def
    using yields_chunk_validate [of blake3 chunk] chunk
    by (cases "chunk_validate blake3 chunk") (auto intro!: yields_and_then [where Q = "\<lambda>_. True"] simp: fail_if_def)
  have graph: "yields (\<lambda>_. True) (graph_validate blake3 g)"
    if chunk: "chunk_validate blake3 chunk = Ok ()"
      and c: "ch_repository_identity chunk = ?i" "ch_entities chunk = es" "ch_relationships chunk = rs" "ch_evidence chunk = materialize_evidence b ids"
      and g: "g = \<lparr>kn_repository_identity = ?i, kn_commit_oid = ch_commit_oid chunk, kn_entities = es,
              kn_relationships = sort_key kr_relationship_id (rs @ [contains]),
              kn_claims = sort_key kc_claim_id (sort_key kc_claim_id (parser_claims blake3 ?i es rs) @ [relationship_claim blake3 ?i contains]),
              kn_evidence = materialize_evidence b ids, kn_diagnostics = ch_diagnostics chunk, kn_coverage = ch_coverage chunk\<rparr>"
    for chunk g
  proof (rule assembled_graph_yields [OF b chunk, where contains = contains and eid = "key_id blake3 ?i"])
    have "distinct (map ke_entity_id es)" using chunk_validateD(7) [OF chunk] by (simp add: c strict_sorted_iff)
    from materialized_drafts [OF b es_def this inj tuples] show "materialized b (key_id blake3 ?i) (ch_entities chunk) (kn_relationships g) contains"
      by (simp add: c g contains_def)
  qed (use supported in \<open>simp_all add: c g, simp_all add: contains_def\<close>)
  define chunk where "chunk =
    \<lparr>ch_chunk_id = extraction_chunk_id blake3 ?i (bd_commit_oid b) (bd_blob_oid b) (bd_path b),
     ch_repository_identity = ?i, ch_commit_oid = bd_commit_oid b, ch_blob_oid = bd_blob_oid b,
     ch_path = bd_path b, ch_byte_length = length (bd_source b), ch_entities = es, ch_relationships = rs,
     ch_claims = sort_key kc_claim_id (parser_claims blake3 ?i es rs), ch_evidence = materialize_evidence b ids,
     ch_diagnostics = sort_diagnostics (bd_diagnostics b),
     ch_coverage = materialize_coverage (bd_path b) (length (bd_source b)) (bd_extra_gaps b) ids root_id\<rparr>"
  define g where "g = \<lparr>kn_repository_identity = ?i, kn_commit_oid = bd_commit_oid b, kn_entities = es,
     kn_relationships = sort_key kr_relationship_id (rs @ [contains]),
     kn_claims = sort_key kc_claim_id (sort_key kc_claim_id (parser_claims blake3 ?i es rs) @ [relationship_claim blake3 ?i contains]),
     kn_evidence = materialize_evidence b ids, kn_diagnostics = sort_diagnostics (bd_diagnostics b),
     kn_coverage = materialize_coverage (bd_path b) (length (bd_source b)) (bd_extra_gaps b) ids root_id\<rparr>"
  have "finish blake3 crate_key (file_key b) root b =
     (if length ids > max_s2_evidence then Err (extraction_limit ''evidence_records'' max_s2_evidence)
      else and_then (rust_knowledge_validate blake3 \<lparr>rk_extraction_chunks = [chunk], rk_graph = g\<rparr>)
        (\<lambda>_. Ok \<lparr>rk_extraction_chunks = [chunk], rk_graph = g\<rparr>))"
    by (simp only: finish_def Let_def ids_def [symmetric] root entities relationships derived ok_or.simps and_then.simps
      case_prod_conv chunk_def g_def)
  moreover have "yields (\<lambda>_. True) (rust_knowledge_validate blake3 \<lparr>rk_extraction_chunks = [chunk], rk_graph = g\<rparr>)"
    by (rule validated, erule graph) (simp_all add: chunk_def g_def)
  ultimately show ?thesis by (auto intro: yields_and_then)
qed

lemma extract_builder_yields:
  assumes within: "node_within (length (bd_source b)) root"
    and empty: "bd_entities b = []" "bd_relationships b = []" "bd_pending_imports b = []"
  shows "yields (\<lambda>_. True) (extract_builder blake3 nfc root b)"
  unfolding extract_builder_def Let_def
proof (rule yields_and_then_pair [OF add_entity_yields], rule yields_and_then_pair [OF add_entity_yields])
  let ?ev = "EvidenceKey (node_span root) ''source_file''"
  fix c b1 f b2
  assume c: "c = crate_key \<and> \<not> known b c \<and> b1 = b\<lparr>bd_entities := bt_put c \<lparr>dr_key = c, dr_display_name = ''crate'',
      dr_properties = bt_collect [(''crate_root'', bd_path b)], dr_evidence = ?ev\<rparr> (bd_entities b)\<rparr>"
    and f: "f = file_key b1 \<and> \<not> known b1 f \<and> b2 = b1\<lparr>bd_entities := bt_put f \<lparr>dr_key = f, dr_display_name = bd_path b1,
      dr_properties = bt_collect [(''path'', bd_path b1)], dr_evidence = ?ev\<rparr> (bd_entities b1)\<rparr>"
  have "built b2 \<and> known b2 crate_key \<and> known b2 (file_key b2)"
    using c f by (intro built_start [OF empty refl refl]) simp
  then have b2: "built b2" "scope_owner b2 crate_key ''crate''" by (simp_all add: scope_owner_def)
  have same: "bd_source b2 = bd_source b" "f = file_key b2" "c = crate_key" using c f by simp_all
  have "yields (\<lambda>_. True) (finish blake3 c f ?ev b5)" if "advances b2 b5" for b5
    using finish_yields [OF advancesD(1) [OF that], of blake3 ?ev] advancesD(3) [OF that] unfolding same by simp
  then show "yields (\<lambda>_. True) (and_then (walk_scope nfc root c ''crate'' 0 b2) (\<lambda>b3. and_then (resolve_imports b3)
      (\<lambda>b4. and_then (report_malformed ?ev (bd_malformed b4) b4) (\<lambda>b5. finish blake3 c f ?ev b5))))"
    unfolding same(3)
    by (intro yields_and_then [OF walk_yields(1) [OF b2]])
      (auto intro!: yields_and_then [OF resolve_imports_yields] yields_and_then [OF report_malformed_yields]
        intro: advancesD(1) advances_trans simp: within same)
qed

section \<open>The declarations that are extracted\<close>

definition declared_kind :: "string \<Rightarrow> entity_kind option" where
  "declared_kind kind =
     map_of [(''type_item'', RustTypeAlias), (''trait_item'', RustTrait), (''mod_item'', RustModule), (''struct_item'', RustStruct),
       (''enum_item'', RustEnum), (''function_item'', RustFunction)] kind"

text \<open>
  The declarations of a list of nodes in a scope: the items among the nodes that no malformed range
  touches, and the declarations of the bodies of the modules among them.
\<close>

inductive declares ::
  "(string \<Rightarrow> string) \<Rightarrow> string \<Rightarrow> byte_span list \<Rightarrow> syntax_node list \<Rightarrow> string \<Rightarrow> entity_key \<Rightarrow> bool"
  for nfc source malformed where
  item: "node \<in> set nodes \<Longrightarrow> \<not> list_ex (intersects (node_span node)) malformed \<Longrightarrow> declared_kind (sn_kind node) = Some kind \<Longrightarrow>
    node_name node source = Ok name \<Longrightarrow>
    declares nfc source malformed nodes scope (EntityKey kind (scope @ ''::'' @ normalize_identifier nfc name))"
| nested: "node \<in> set nodes \<Longrightarrow> \<not> list_ex (intersects (node_span node)) malformed \<Longrightarrow> sn_kind node = ''mod_item'' \<Longrightarrow>
    node_name node source = Ok name \<Longrightarrow> child_by_field_name node ''body'' = Some body \<Longrightarrow>
    declares nfc source malformed (named_children body) (scope @ ''::'' @ normalize_identifier nfc name) key \<Longrightarrow>
    declares nfc source malformed nodes scope key"

inductive_simps declares_Nil: "declares nfc source malformed [] scope key"

definition items :: "builder \<Rightarrow> entity_key set" where
  "items b = {k. known b k \<and> item_kind (ek_kind k)}"

lemma declares_mono:
  assumes "declares nfc source malformed nodes scope key" "set nodes \<subseteq> set nodes'"
  shows "declares nfc source malformed nodes' scope key"
  using assms(1)
proof (cases rule: declares.cases)
  case (item node kind name)
  then show ?thesis using assms(2) declares.item [of node nodes'] by blast
next
  case (nested node name body)
  then show ?thesis using assms(2) declares.nested [of node nodes'] by blast
qed

lemma declares_Cons:
  "declares nfc source malformed (node # nodes) scope key \<longleftrightarrow>
   declares nfc source malformed [node] scope key \<or> declares nfc source malformed nodes scope key"
proof
  assume "declares nfc source malformed (node # nodes) scope key"
  then show "declares nfc source malformed [node] scope key \<or> declares nfc source malformed nodes scope key"
  proof (cases rule: declares.cases)
    case (item n kind name)
    then show ?thesis using declares.item [of n "[node]"] declares.item [of n nodes] by (cases "n = node") auto
  next
    case (nested n name body)
    then show ?thesis using declares.nested [of n "[node]"] declares.nested [of n nodes] by (cases "n = node") auto
  qed
next
  assume "declares nfc source malformed [node] scope key \<or> declares nfc source malformed nodes scope key"
  then show "declares nfc source malformed (node # nodes) scope key" by (auto elim: declares_mono)
qed

text \<open>What one node declares.\<close>

lemma declares_node:
  "declares nfc source malformed [node] scope key \<longleftrightarrow>
   \<not> list_ex (intersects (node_span node)) malformed \<and>
   (\<exists>kind name. declared_kind (sn_kind node) = Some kind \<and> node_name node source = Ok name \<and>
      (key = EntityKey kind (scope @ ''::'' @ normalize_identifier nfc name) \<or>
       sn_kind node = ''mod_item'' \<and> (\<exists>body. child_by_field_name node ''body'' = Some body \<and>
         declares nfc source malformed (named_children body) (scope @ ''::'' @ normalize_identifier nfc name) key)))"
  (is "_ \<longleftrightarrow> ?r")
proof
  assume "declares nfc source malformed [node] scope key"
  then show ?r by (cases rule: declares.cases) (auto simp: declared_kind_def)
next
  assume r: ?r
  then obtain kind name where "declared_kind (sn_kind node) = Some kind" "node_name node source = Ok name"
    "\<not> list_ex (intersects (node_span node)) malformed"
    "key = EntityKey kind (scope @ ''::'' @ normalize_identifier nfc name) \<or>
       sn_kind node = ''mod_item'' \<and> (\<exists>body. child_by_field_name node ''body'' = Some body \<and>
         declares nfc source malformed (named_children body) (scope @ ''::'' @ normalize_identifier nfc name) key)" by blast
  then show "declares nfc source malformed [node] scope key"
    using declares.item [of node "[node]"] declares.nested [of node "[node]"] by (metis list.set_intros(1))
qed

lemma items_simps [simp]:
  "items (b\<lparr>bd_relationships := rs\<rparr>) = items b" "items (b\<lparr>bd_pending_imports := ps\<rparr>) = items b"
  "items (b\<lparr>bd_diagnostics := ds\<rparr>) = items b" "items (b\<lparr>bd_extra_gaps := gs\<rparr>) = items b"
  by (simp_all add: items_def)

text \<open>The effect of the operations on the items.\<close>

definition keyed_drafts :: "builder \<Rightarrow> bool" where
  "keyed_drafts b \<longleftrightarrow> bt_wf (bd_entities b) \<and> (\<forall>k d. bt_get (bd_entities b) k = Some d \<longrightarrow> dr_key d = k)"

lemma keyed_drafts_simps [simp]:
  "keyed_drafts (b\<lparr>bd_relationships := rs\<rparr>) = keyed_drafts b" "keyed_drafts (b\<lparr>bd_pending_imports := ps\<rparr>) = keyed_drafts b"
  "keyed_drafts (b\<lparr>bd_diagnostics := ds\<rparr>) = keyed_drafts b" "keyed_drafts (b\<lparr>bd_extra_gaps := gs\<rparr>) = keyed_drafts b"
  by (simp_all add: keyed_drafts_def)

lemma keyed_drafts_put:
  "keyed_drafts b \<Longrightarrow> dr_key d = k \<Longrightarrow> keyed_drafts (b\<lparr>bd_entities := bt_put k d (bd_entities b)\<rparr>)"
  by (simp add: keyed_drafts_def bt_wf_put bt_get_put)

definition extends :: "entity_key set \<Rightarrow> builder \<Rightarrow> builder \<Rightarrow> bool" where
  "extends keys b b' \<longleftrightarrow> keyed_drafts b' \<and> bd_source b' = bd_source b \<and> bd_malformed b' = bd_malformed b \<and> bd_path b' = bd_path b \<and>
     bd_repository_identity b' = bd_repository_identity b \<and> bd_commit_oid b' = bd_commit_oid b \<and> bd_blob_oid b' = bd_blob_oid b \<and>
     items b' = items b \<union> keys"

lemma builder_extends_trans: "extends xs b b' \<Longrightarrow> extends ys b' b'' \<Longrightarrow> extends (xs \<union> ys) b b''"
  by (auto simp: extends_def)

lemma push_extends:
  "keyed_drafts b \<Longrightarrow> push_relationship r b = Ok b' \<Longrightarrow> extends {} b b'"
  "keyed_drafts b \<Longrightarrow> push_diagnostic d b = Ok b' \<Longrightarrow> extends {} b b'"
  "keyed_drafts b \<Longrightarrow> push_gap g b = Ok b' \<Longrightarrow> extends {} b b'"
  by (auto simp: extends_def push_relationship_def push_diagnostic_def push_gap_def split: if_splits)

lemma add_entity_extends:
  assumes "keyed_drafts b" "add_entity kind ident name props ev b = Ok (key, b')"
  shows "key = EntityKey kind ident" "extends (if item_kind kind then {key} else {}) b b'"
proof -
  have wf: "bt_wf (bd_entities b)" using assms(1) by (simp add: keyed_drafts_def)
  show "key = EntityKey kind ident" "extends (if item_kind kind then {key} else {}) b b'"
    using assms(2)
    by (auto simp: add_entity_def Let_def extends_def items_def known_put [OF wf] keyed_drafts_put [OF assms(1)]
      split: option.splits if_splits)
qed

lemma extends_wf: "extends xs b b' \<Longrightarrow> keyed_drafts b'"
  by (simp add: extends_def)

lemma add_named_declaration_extends:
  assumes "keyed_drafts b" "item_kind kind" "add_named_declaration nfc node owner scope kind b = Ok (key, b')"
  shows "\<exists>name. node_name node (bd_source b) = Ok name \<and> key = EntityKey kind (scope @ ''::'' @ normalize_identifier nfc name) \<and>
    extends {key} b b'"
proof -
  from assms(3) obtain name ev v b1 where name: "node_name node (bd_source b) = Ok name"
    and add: "add_entity kind (scope @ ''::'' @ normalize_identifier nfc name) name (bt_collect [(''visibility'', v)]) ev b = Ok (key, b1)"
    and push: "push_relationship \<lparr>rd_kind = Defines, rd_source = owner, rd_target = key, rd_evidence = ev\<rparr> b1 = Ok b'"
    unfolding add_named_declaration_def Let_def and_then_Ok_iff by (auto simp: and_then_Ok_iff)
  note e = add_entity_extends [OF assms(1) add]
  from builder_extends_trans [OF e(2) push_extends(1) [OF extends_wf [OF e(2)] push]] e(1) name assms(2) show ?thesis by auto
qed

lemma add_methods_extends:
  "keyed_drafts b \<Longrightarrow> add_methods nfc method_kind owner children b = Ok b' \<Longrightarrow> extends {} b b'"
proof (induction children arbitrary: b)
  case Nil
  then show ?case by (simp add: extends_def)
next
  case (Cons child children)
  show ?case
  proof (cases "sn_kind child \<noteq> method_kind \<or> node_is_malformed b child")
    case True
    with Cons show ?thesis by simp
  next
    case False
    then obtain b1 where one: "add_method nfc owner child b = Ok b1" and rest: "add_methods nfc method_kind owner children b1 = Ok b'"
      using Cons.prems by (auto simp: result_iffs)
    from one obtain ident name props ev key b2 where add: "add_entity RustMethod ident name props ev b = Ok (key, b2)"
      and push: "push_relationship \<lparr>rd_kind = Defines, rd_source = owner, rd_target = key, rd_evidence = ev\<rparr> b2 = Ok b1"
      unfolding add_method_def and_then_Ok_iff by auto
    note e = add_entity_extends(2) [OF Cons.prems(1) add]
    have "extends {} b b1"
      using builder_extends_trans [OF e push_extends(1) [OF extends_wf [OF e] push]] by (simp add: item_kind_def)
    with builder_extends_trans [OF this Cons.IH [OF extends_wf [OF this] rest]] show ?thesis by simp
  qed
qed

lemma step_extends:
  "keyed_drafts b \<Longrightarrow> add_import nfc node owner scope b = Ok b' \<Longrightarrow> extends {} b b'"
  "keyed_drafts b \<Longrightarrow> add_unsupported node root_evidence b = Ok b' \<Longrightarrow> extends {} b b'"
  "keyed_drafts b \<Longrightarrow> add_impl nfc node scope b = Ok b' \<Longrightarrow> extends {} b b'"
proof -
  show "extends {} b b'" if "keyed_drafts b" "add_import nfc node owner scope b = Ok b'"
    using that by (auto simp: add_import_def extends_def result_iffs split: if_splits)
  show "extends {} b b'" if wf: "keyed_drafts b" and ok: "add_unsupported node root_evidence b = Ok b'"
  proof -
    obtain b1 where d: "push_diagnostic (warning ''extraction.unsupported_construct'' (bd_path b) (node_span node)) b = Ok b1"
      and g: "push_gap (''unsupported_construct'', node_span node, root_evidence) b1 = Ok b'"
      using ok by (auto simp: add_unsupported_def result_iffs)
    note e = push_extends(2) [OF wf d]
    from builder_extends_trans [OF e push_extends(3) [OF extends_wf [OF e] g]] show ?thesis by simp
  qed
  show "extends {} b b'" if wf: "keyed_drafts b" and ok: "add_impl nfc node scope b = Ok b'"
  proof -
    obtain r b1 owner children where p: "push_relationship r b = Ok b1" and m: "add_methods nfc ''function_item'' owner children b1 = Ok b'"
      using ok unfolding add_impl_def and_then_Ok_iff by blast
    note e = push_extends(1) [OF wf p]
    from builder_extends_trans [OF e add_methods_extends [OF extends_wf [OF e] m]] show ?thesis by simp
  qed
qed

lemma add_trait_extends:
  assumes "keyed_drafts b" "add_trait nfc node owner scope b = Ok b'"
  shows "\<exists>name. node_name node (bd_source b) = Ok name \<and> extends {EntityKey RustTrait (scope @ ''::'' @ normalize_identifier nfc name)} b b'"
proof -
  from assms(2) obtain key b1 body where d: "add_named_declaration nfc node owner scope RustTrait b = Ok (key, b1)"
    and m: "add_methods nfc ''function_signature_item'' key (named_children body) b1 = Ok b'"
    unfolding add_trait_def and_then_Ok_iff by (auto simp: and_then_Ok_iff)
  have "item_kind RustTrait" by (simp add: item_kind_def)
  from add_named_declaration_extends [OF assms(1) this d] obtain name where name: "node_name node (bd_source b) = Ok name"
    "key = EntityKey RustTrait (scope @ ''::'' @ normalize_identifier nfc name)" and e: "extends {key} b b1" by auto
  from builder_extends_trans [OF e add_methods_extends [OF extends_wf [OF e] m]] name show ?thesis by auto
qed

definition declared_in :: "(string \<Rightarrow> string) \<Rightarrow> builder \<Rightarrow> syntax_node list \<Rightarrow> string \<Rightarrow> entity_key set" where
  "declared_in nfc b nodes scope = {key. declares nfc (bd_source b) (bd_malformed b) nodes scope key}"

lemma declared_in_Cons: "declared_in nfc b (node # nodes) scope = declared_in nfc b [node] scope \<union> declared_in nfc b nodes scope"
  unfolding declared_in_def declares_Cons [of _ _ _ node nodes] by auto

lemma declared_in_extends: "extends xs b b' \<Longrightarrow> declared_in nfc b' nodes scope = declared_in nfc b nodes scope"
  by (simp add: declared_in_def extends_def)

lemma declared_item:
  assumes "\<not> node_is_malformed b node" "declared_kind (sn_kind node) = Some kind" "sn_kind node \<noteq> ''mod_item''"
    "node_name node (bd_source b) = Ok name"
  shows "declared_in nfc b [node] scope = {EntityKey kind (scope @ ''::'' @ normalize_identifier nfc name)}"
  using assms unfolding declared_in_def declares_node node_is_malformed_def by auto

lemma declared_module:
  assumes "\<not> node_is_malformed b node" "sn_kind node = ''mod_item''" "node_name node (bd_source b) = Ok name"
    "child_by_field_name node ''body'' = Some body"
  shows "declared_in nfc b [node] scope = insert (EntityKey RustModule (scope @ ''::'' @ normalize_identifier nfc name))
    (declared_in nfc b (named_children body) (scope @ ''::'' @ normalize_identifier nfc name))"
  using assms unfolding declared_in_def declares_node node_is_malformed_def by (auto simp: declared_kind_def)

lemma declared_nothing:
  "node_is_malformed b node \<or> declared_kind (sn_kind node) = None \<Longrightarrow> declared_in nfc b [node] scope = {}"
  unfolding declared_in_def declares_node node_is_malformed_def by auto

lemma walk_node_extends:
  assumes wf: "keyed_drafts b" and shown: "\<not> node_is_malformed b node"
    and step: "(if sn_kind node = ''use_declaration'' then add_import nfc node owner scope b
           else if sn_kind node = ''type_item'' then
             and_then (add_named_declaration nfc node owner scope RustTypeAlias b) (\<lambda>(_, b). Ok b)
           else if sn_kind node = ''trait_item'' then add_trait nfc node owner scope b
           else if sn_kind node = ''mod_item'' then module_outcome
           else if sn_kind node = ''struct_item'' then
             and_then (add_named_declaration nfc node owner scope RustStruct b) (\<lambda>(_, b). Ok b)
           else if sn_kind node = ''enum_item'' then
             and_then (add_named_declaration nfc node owner scope RustEnum b) (\<lambda>(_, b). Ok b)
           else if sn_kind node = ''function_item'' then
             and_then (add_named_declaration nfc node owner scope RustFunction b) (\<lambda>(_, b). Ok b)
           else if sn_kind node = ''impl_item'' then add_impl nfc node scope b
           else if sn_kind node \<in> {''line_comment'', ''block_comment''} then Ok b
           else add_unsupported node (root_evidence_key (bd_source b)) b) = Ok b'"
    and module: "sn_kind node = ''mod_item'' \<Longrightarrow> module_outcome = Ok b' \<Longrightarrow> extends (declared_in nfc b [node] scope) b b'"
  shows "extends (declared_in nfc b [node] scope) b b'"
proof -
  have named: "extends (declared_in nfc b [node] scope) b b'"
    if "and_then (add_named_declaration nfc node owner scope kind b) (\<lambda>(_, b). Ok b) = Ok b'"
      "declared_kind (sn_kind node) = Some kind" "item_kind kind" "sn_kind node \<noteq> ''mod_item''" for kind
  proof -
    from that(1) obtain key where d: "add_named_declaration nfc node owner scope kind b = Ok (key, b')" by (auto simp: result_iffs)
    from add_named_declaration_extends [OF wf that(3) d] declared_item [OF shown that(2,4)] show ?thesis by auto
  qed
  have trait: "extends (declared_in nfc b [node] scope) b b'" if "sn_kind node = ''trait_item''" "add_trait nfc node owner scope b = Ok b'"
    using add_trait_extends [OF wf that(2)] declared_item [OF shown, of RustTrait] that(1) by (auto simp: declared_kind_def)
  have none: "declared_in nfc b [node] scope = {}" if "declared_kind (sn_kind node) = None" using declared_nothing that by blast
  have unchanged: "extends {} b b" using wf by (simp add: extends_def)
  show ?thesis
  proof (cases "declared_kind (sn_kind node)")
    case None
    with step none [OF None] step_extends [OF wf] unchanged show ?thesis
      by (auto simp: declared_kind_def split: if_splits)
  next
    case (Some kind)
    then have kind: "item_kind kind" by (auto simp: declared_kind_def item_kind_def split: if_splits)
    consider "sn_kind node = ''mod_item''" | "sn_kind node = ''trait_item''"
      | "sn_kind node \<noteq> ''mod_item''" "and_then (add_named_declaration nfc node owner scope kind b) (\<lambda>(_, b). Ok b) = Ok b'"
      using Some step by (auto simp: declared_kind_def split: if_splits)
    then show ?thesis
    proof cases
      case 1
      with step module show ?thesis by simp
    next
      case 2
      with step trait show ?thesis by simp
    next
      case 3
      with named Some kind show ?thesis by blast
    qed
  qed
qed

lemma walk_extends:
  "keyed_drafts b \<Longrightarrow> walk_scope nfc container owner scope depth b = Ok b' \<Longrightarrow>
   extends (declared_in nfc b (named_children container) scope) b b'"
  "keyed_drafts b \<Longrightarrow> walk_nodes nfc nodes owner scope depth b = Ok b' \<Longrightarrow> extends (declared_in nfc b nodes scope) b b'"
proof (induction nfc container owner scope depth b and nfc nodes owner scope depth b arbitrary: b' and b' rule: walk_scope_walk_nodes.induct)
  case (1 nfc container owner scope depth b)
  from 1(3) have "walk_nodes nfc (named_children container) owner scope depth b = Ok b'" "\<not> depth > limit_maximum RecursionDepth"
    by (auto split: if_splits)
  with 1(1,2) show ?case by blast
next
  case (2 nfc owner scope depth b)
  then show ?case by (simp add: extends_def declared_in_def declares_Nil)
next
  case (3 nfc node nodes owner scope depth b)
  show ?case
  proof (cases "node_is_malformed b node")
    case True
    then have "extends (declared_in nfc b nodes scope) b b'" using 3 by simp
    then show ?thesis using declared_nothing True by (metis declared_in_Cons sup_bot_left)
  next
    case False
    note module = 3(2) [OF False]
    let ?module = "and_then (add_named_declaration nfc node owner scope RustModule b) (\<lambda>(module_key, b).
             and_then (ok_or K_UnsupportedCrateShape (child_by_field_name node ''body'')) (\<lambda>body.
             walk_scope nfc body module_key (ek_canonical_identity module_key) (depth + 1) b))"
    from 3(5) obtain b1 where rest: "walk_nodes nfc nodes owner scope depth b1 = Ok b'"
      and step: "(if sn_kind node = ''use_declaration'' then add_import nfc node owner scope b
           else if sn_kind node = ''type_item'' then
             and_then (add_named_declaration nfc node owner scope RustTypeAlias b) (\<lambda>(_, b). Ok b)
           else if sn_kind node = ''trait_item'' then add_trait nfc node owner scope b
           else if sn_kind node = ''mod_item'' then ?module
           else if sn_kind node = ''struct_item'' then
             and_then (add_named_declaration nfc node owner scope RustStruct b) (\<lambda>(_, b). Ok b)
           else if sn_kind node = ''enum_item'' then
             and_then (add_named_declaration nfc node owner scope RustEnum b) (\<lambda>(_, b). Ok b)
           else if sn_kind node = ''function_item'' then
             and_then (add_named_declaration nfc node owner scope RustFunction b) (\<lambda>(_, b). Ok b)
           else if sn_kind node = ''impl_item'' then add_impl nfc node scope b
           else if sn_kind node \<in> {''line_comment'', ''block_comment''} then Ok b
           else add_unsupported node (root_evidence_key (bd_source b)) b) = Ok b1"
      unfolding walk_nodes.simps by (simp only: False if_False and_then_Ok_iff) blast
    have "extends (declared_in nfc b [node] scope) b b1" if kind: "sn_kind node = ''mod_item''" and ok: "?module = Ok b1"
    proof -
      from ok obtain key b2 body where d: "add_named_declaration nfc node owner scope RustModule b = Ok (key, b2)"
        and body: "child_by_field_name node ''body'' = Some body"
        and walk: "walk_scope nfc body key (ek_canonical_identity key) (depth + 1) b2 = Ok b1"
        by (auto simp: and_then_Ok_iff simp del: walk_scope.simps)
      have "item_kind RustModule" by (simp add: item_kind_def)
      from add_named_declaration_extends [OF 3(4) this d] obtain name where name: "node_name node (bd_source b) = Ok name"
        "key = EntityKey RustModule (scope @ ''::'' @ normalize_identifier nfc name)" and e: "extends {key} b b2" by auto
      have "extends (declared_in nfc b2 (named_children body) (ek_canonical_identity key)) b2 b1"
        using kind body by (intro module [OF _ _ _ _ d refl _ extends_wf [OF e] walk]) auto
      with builder_extends_trans [OF e this] declared_in_extends [OF e] declared_module [OF False kind name(1) body] name(2)
      show ?thesis by auto
    qed
    from walk_node_extends [OF 3(4) False step this] have e: "extends (declared_in nfc b [node] scope) b b1" .
    have "extends (declared_in nfc b1 nodes scope) b1 b'" by (rule 3(3) [OF False step extends_wf [OF e] rest])
    with builder_extends_trans [OF e this] declared_in_extends [OF e] declared_in_Cons show ?thesis by metis
  qed
qed

lemma resolve_import_extends:
  assumes "keyed_drafts b" "resolve_import pending path b = Ok b'"
  shows "extends {} b b'"
proof (cases "ek_kind (import_key b pending path) = RustSymbolReference \<and> bt_get (bd_entities b) (import_key b pending path) = None")
  case True
  with assms(2) obtain ident name props ev key b1 d b2 g b3 r
    where add: "add_entity RustSymbolReference ident name props ev b = Ok (key, b1)" and d: "push_diagnostic d b1 = Ok b2"
      and g: "push_gap g b2 = Ok b3" and r: "push_relationship r b3 = Ok b'"
    by (auto simp: resolve_import_def Let_def and_then_Ok_iff)
  have e1: "extends {} b b1" using add_entity_extends(2) [OF assms(1) add] by (simp add: item_kind_def)
  note e2 = push_extends(2) [OF extends_wf [OF e1] d]
  note e3 = push_extends(3) [OF extends_wf [OF e2] g]
  note e4 = push_extends(1) [OF extends_wf [OF e3] r]
  from builder_extends_trans [OF builder_extends_trans [OF builder_extends_trans [OF e1 e2] e3] e4] show ?thesis by simp
next
  case False
  with assms(2) obtain r where "push_relationship r b = Ok b'" by (auto simp: resolve_import_def Let_def split: if_splits)
  then show ?thesis by (rule push_extends(1) [OF assms(1)])
qed

lemma resolve_targets_extends: "keyed_drafts b \<Longrightarrow> resolve_targets pending paths b = Ok b' \<Longrightarrow> extends {} b b'"
proof (induction paths arbitrary: b)
  case (Cons path paths)
  then obtain b1 where one: "resolve_import pending path b = Ok b1" and rest: "resolve_targets pending paths b1 = Ok b'"
    by (auto simp: result_iffs)
  note e = resolve_import_extends [OF Cons.prems(1) one]
  from builder_extends_trans [OF e Cons.IH [OF extends_wf [OF e] rest]] show ?case by simp
qed (simp add: extends_def)

lemma resolve_pending_extends: "keyed_drafts b \<Longrightarrow> resolve_pending pending b = Ok b' \<Longrightarrow> extends {} b b'"
proof (induction pending arbitrary: b)
  case (Cons p pending)
  then obtain b1 where one: "resolve_targets p (pi_target_paths p) b = Ok b1" and rest: "resolve_pending pending b1 = Ok b'"
    by (auto simp: result_iffs)
  note e = resolve_targets_extends [OF Cons.prems(1) one]
  from builder_extends_trans [OF e Cons.IH [OF extends_wf [OF e] rest]] show ?case by simp
qed (simp add: extends_def)

lemma report_malformed_extends: "keyed_drafts b \<Longrightarrow> report_malformed root_evidence spans b = Ok b' \<Longrightarrow> extends {} b b'"
proof (induction spans arbitrary: b)
  case (Cons span spans)
  then obtain d b1 g b2 where d: "push_diagnostic d b = Ok b1" and g: "push_gap g b1 = Ok b2"
    and rest: "report_malformed root_evidence spans b2 = Ok b'"
    by (auto simp: result_iffs)
  note e = push_extends(2) [OF Cons.prems(1) d]
  note e' = builder_extends_trans [OF e push_extends(3) [OF extends_wf [OF e] g]]
  from builder_extends_trans [OF e' Cons.IH [OF extends_wf [OF e'] rest]] show ?case by simp
qed (simp add: extends_def)

lemma new_entities_keys:
  "new_entities blake3 i ids ds = Ok es \<Longrightarrow> map (\<lambda>e. EntityKey (ke_kind e) (ke_canonical_identity e)) es = map dr_key ds"
  by (induction ds arbitrary: es) (auto simp: result_iffs new_knowledge_entity_def Let_def)

definition entity_keys :: "knowledge_entity list \<Rightarrow> entity_key set" where
  "entity_keys es = (\<lambda>e. EntityKey (ke_kind e) (ke_canonical_identity e)) ` set es"

text \<open>The source a chunk and its graph are about: the repository, the commit, the blob, the path and the length.\<close>

definition source_of :: "rust_knowledge \<Rightarrow> string \<times> string \<times> (string \<times> string \<times> nat) list" where
  "source_of k = (kn_repository_identity (rk_graph k), kn_commit_oid (rk_graph k),
     map (\<lambda>c. (ch_blob_oid c, ch_path c, ch_byte_length c)) (rk_extraction_chunks k))"

definition bound_source :: "builder \<Rightarrow> string \<times> string \<times> (string \<times> string \<times> nat) list" where
  "bound_source b = (bd_repository_identity b, bd_commit_oid b, [(bd_blob_oid b, bd_path b, length (bd_source b))])"

lemma extends_bound_source: "extends keys b b' \<Longrightarrow> bound_source b' = bound_source b"
  by (simp add: extends_def bound_source_def)

lemma finish_result:
  assumes "keyed_drafts b" "finish blake3 c f root b = Ok k"
  shows "entity_keys (kn_entities (rk_graph k)) = {key. known b key}" "rust_knowledge_validate blake3 k = Ok ()"
    "source_of k = bound_source b"
proof -
  from assms(2) obtain ids es where es: "new_entities blake3 (bd_repository_identity b) ids (map snd (bd_entities b)) = Ok es"
    and k: "kn_entities (rk_graph k) = sort_key ke_entity_id es" and valid: "rust_knowledge_validate blake3 k = Ok ()"
    and source: "source_of k = bound_source b"
    unfolding source_of_def bound_source_def finish_def Let_def materialize_entities_def
    by (auto simp: and_then_Ok_iff split: if_splits)
  show "rust_knowledge_validate blake3 k = Ok ()" by (rule valid)
  show "source_of k = bound_source b" by (rule source)
  have "entity_keys (kn_entities (rk_graph k)) = set (map (\<lambda>e. EntityKey (ke_kind e) (ke_canonical_identity e)) es)"
    by (simp add: entity_keys_def k)
  also have "\<dots> = set (map dr_key (map snd (bd_entities b)))" unfolding new_entities_keys [OF es] ..
  also have "\<dots> = {key. known b key}"
    using assms(1) bt_get_mem [of "bd_entities b"] by (force simp: keyed_drafts_def known_def)
  finally show "entity_keys (kn_entities (rk_graph k)) = {key. known b key}" .
qed

lemma extract_builder_result:
  assumes empty: "bd_entities b = []" and ok: "extract_builder blake3 nfc root b = Ok k"
  shows "{key \<in> entity_keys (kn_entities (rk_graph k)). item_kind (ek_kind key)} = declared_in nfc b (named_children root) ''crate''"
    "rust_knowledge_validate blake3 k = Ok ()" "source_of k = bound_source b"
proof -
  from ok obtain ev p1 c b1 p2 f b2 b3 b4 b5 where
      add: "add_entity RustCrate ''crate'' ''crate'' p1 ev b = Ok (c, b1)"
        "add_entity SourceFile (''file:'' @ bd_path b1) (bd_path b1) p2 ev b1 = Ok (f, b2)"
      and walk: "walk_scope nfc root c ''crate'' 0 b2 = Ok b3" and resolved: "resolve_imports b3 = Ok b4"
      and report: "report_malformed ev (bd_malformed b4) b4 = Ok b5" and finish: "finish blake3 c f ev b5 = Ok k"
    unfolding extract_builder_def Let_def and_then_Ok_iff by (auto simp: and_then_Ok_iff simp del: walk_scope.simps)
  have start: "keyed_drafts b" "items b = {}" using empty by (simp_all add: keyed_drafts_def items_def known_def bt_wf_def)
  have e1: "extends {} b b1" using add_entity_extends(2) [OF start(1) add(1)] by (simp add: item_kind_def)
  have e2: "extends {} b1 b2" using add_entity_extends(2) [OF extends_wf [OF e1] add(2)] by (simp add: item_kind_def)
  note e12 = builder_extends_trans [OF e1 e2]
  note e3 = builder_extends_trans [OF e12 walk_extends(1) [OF extends_wf [OF e12] walk]]
  have "resolve_pending (bd_pending_imports b3) (b3\<lparr>bd_pending_imports := []\<rparr>) = Ok b4" using resolved by (simp add: resolve_imports_def)
  then have "extends {} (b3\<lparr>bd_pending_imports := []\<rparr>) b4" using extends_wf [OF e3] by (intro resolve_pending_extends) simp_all
  then have e4: "extends {} b3 b4" by (simp add: extends_def)
  note e5 = builder_extends_trans [OF builder_extends_trans [OF e3 e4] report_malformed_extends [OF extends_wf [OF e4] report]]
  have "items b5 = declared_in nfc b (named_children root) ''crate''"
    using e5 start(2) declared_in_extends [OF e12] by (simp add: extends_def)
  with finish_result [OF extends_wf [OF e5] finish] show
    "{key \<in> entity_keys (kn_entities (rk_graph k)). item_kind (ek_kind key)} = declared_in nfc b (named_children root) ''crate''"
    "rust_knowledge_validate blake3 k = Ok ()" "source_of k = bound_source b"
    using extends_bound_source [OF e5] by (auto simp: items_def)
qed

end
