(* ===== verification/Rust_Soundness.thy ===== *)
theory Rust_Soundness
  imports Rust_Knowledge
begin

text \<open>
  What the extraction of one library root (\<open>extract_source\<close>) gives on every input, and a complete run of it
  on the source \<open>struct S;\<close>: the parameters are instantiated with the tree the parser builds for that
  source, an identity as the normalisation and a hash that keeps two bytes.
\<close>

section \<open>Soundness\<close>

lemma yields_malformed_spans: "yields (\<lambda>_. True) (malformed_spans root path)"
  unfolding malformed_spans_def by (rule yields_and_then [OF yields_malformed_loop]) simp

lemma extract_source_yields:
  assumes "\<And>root. parse source = Some root \<Longrightarrow> node_within (length source) root"
  shows "yields (\<lambda>_. True) (extract_source blake3 nfc parse repository_identity commit_oid blob_oid path source)"
  unfolding extract_source_def
  by (auto intro!: yields_and_then [OF yields_ok_or] yields_and_then [OF yields_malformed_spans] extract_builder_yields assms)

text \<open>
  Knowledge that represents a source: its graph may be published, it is bound to the repository, the
  commit and the blob it was given, and its items are the declarations of the tree.
\<close>

definition extracted ::
  "hash \<Rightarrow> (string \<Rightarrow> string) \<Rightarrow> (string \<Rightarrow> syntax_node option) \<Rightarrow> string \<Rightarrow> string \<Rightarrow> string \<Rightarrow> string \<Rightarrow> string \<Rightarrow>
   rust_knowledge \<Rightarrow> bool" where
  "extracted blake3 nfc parse repository_identity commit_oid blob_oid path source k \<longleftrightarrow>
     publishable blake3 (rk_graph k) \<and>
     source_of k = (repository_identity, commit_oid, [(blob_oid, path, length source)]) \<and>
     (\<exists>root malformed. parse source = Some root \<and> malformed_spans root path = Ok malformed \<and>
        {key \<in> entity_keys (kn_entities (rk_graph k)). item_kind (ek_kind key)} =
        {key. declares nfc source malformed (named_children root) ''crate'' key})"

lemma extract_source_result:
  assumes "extract_source blake3 nfc parse repository_identity commit_oid blob_oid path source = Ok k"
  shows "extracted blake3 nfc parse repository_identity commit_oid blob_oid path source k"
proof -
  from assms obtain root malformed where root: "parse source = Some root" "malformed_spans root path = Ok malformed"
    and run: "extract_builder blake3 nfc root
        \<lparr>bd_repository_identity = repository_identity, bd_commit_oid = commit_oid, bd_blob_oid = blob_oid, bd_path = path,
         bd_source = source, bd_malformed = malformed, bd_entities = [], bd_relationships = [], bd_pending_imports = [],
         bd_diagnostics = [], bd_extra_gaps = []\<rparr> = Ok k"
    by (auto simp: extract_source_def result_iffs split: if_splits)
  show ?thesis
    using root extract_builder_result [OF _ run] rust_knowledge_publishable
    by (auto simp: extracted_def declared_in_def bound_source_def)
qed

text \<open>
  On every source whose tree lies within the text, the extraction of a library root never panics. It
  fails only because of its input or a limit: never because an entity, a relationship, a reference, a
  claim or a derivation it has built is invalid. On success the graph may be published, it is bound to
  the repository, the commit and the blob of the source, and the items among its entities (modules, types, traits, functions) are exactly those that the source declares
  outside malformed ranges, in the modules that enclose them.
\<close>

lemma extract_source_sound:
  assumes "\<And>root. parse source = Some root \<Longrightarrow> node_within (length source) root"
  shows "case extract_source blake3 nfc parse repository_identity commit_oid blob_oid path source of
     Ok k \<Rightarrow> extracted blake3 nfc parse repository_identity commit_oid blob_oid path source k
   | Err e \<Rightarrow> extraction_failure e
   | Panic \<Rightarrow> False"
  using extract_source_yields [of parse source blake3 nfc repository_identity commit_oid blob_oid path] assms
    extract_source_result [of blake3 nfc parse repository_identity commit_oid blob_oid path source]
  by (cases "extract_source blake3 nfc parse repository_identity commit_oid blob_oid path source") simp_all

section \<open>A run on a sample\<close>

definition sample_item :: syntax_node where
  "sample_item = Syntax_Node ''struct_item'' True False False None 0 9 [Syntax_Node ''type_identifier'' True False False (Some
      ''name'') 7 8 []]"

definition sample_tree :: syntax_node where
  "sample_tree = Syntax_Node ''source_file'' True False False None 0 9 [sample_item]"

definition sample_hash :: hash where
  "sample_hash bs = take 2 (drop 2 (rev bs))"

definition sample_identity :: string where
  "sample_identity = ''urn:codenoesis:fixture:a''"

definition sample_commit :: string where
  "sample_commit = replicate 40 CHR ''0''"

definition sample_blob :: string where
  "sample_blob = replicate 40 CHR ''1''"

definition sample_source :: string where
  "sample_source = ''struct S;''"

definition crate_id :: string where
  "crate_id = ''urn:codenoesis:entity:blake3:6574''"

definition file_id :: string where
  "file_id = ''urn:codenoesis:entity:blake3:7372''"

definition struct_id :: string where
  "struct_id = ''urn:codenoesis:entity:blake3:533a''"

definition contains_id :: string where
  "contains_id = ''urn:codenoesis:relationship:blake3:3237''"

definition defines_id :: string where
  "defines_id = ''urn:codenoesis:relationship:blake3:6133''"

lemmas sample_ids_def = crate_id_def file_id_def struct_id_def contains_id_def defines_id_def

lemmas sample_id_defs = stable_entity_id_def stable_claim_id_def stable_relationship_id_def stable_id_def canonical_string_array_def
    write_json_string_def
  json_byte_def as_bytes_def sample_hash_def byte_hex_def hex_digit_def char_of_def bit_0 ontology_version_def sample_ids_def
      sample_identity_def

lemma sample_entity_ids:
  "stable_entity_id sample_hash sample_identity RustCrate ''crate'' = crate_id"
  "stable_entity_id sample_hash sample_identity SourceFile ''file:src/lib.rs'' = file_id"
  "stable_entity_id sample_hash sample_identity RustStruct ''crate::S'' = struct_id"
  by (simp_all add: sample_id_defs)

lemma sample_relationship_ids:
  "stable_relationship_id sample_hash sample_identity Contains crate_id file_id = contains_id"
  "stable_relationship_id sample_hash sample_identity Defines crate_id struct_id = defines_id"
  by (simp_all add: sample_id_defs)

lemma sample_claim_ids:
  "stable_claim_id sample_hash sample_identity ''entity'' crate_id = ''urn:codenoesis:claim:blake3:3437''"
  "stable_claim_id sample_hash sample_identity ''entity'' file_id = ''urn:codenoesis:claim:blake3:3237''"
  "stable_claim_id sample_hash sample_identity ''entity'' struct_id = ''urn:codenoesis:claim:blake3:6133''"
  "stable_claim_id sample_hash sample_identity ''relationship'' contains_id = ''urn:codenoesis:claim:blake3:3733''"
  "stable_claim_id sample_hash sample_identity ''relationship'' defines_id = ''urn:codenoesis:claim:blake3:3333''"
  by (simp_all add: sample_id_defs)

lemma sample_ids_order:
  "struct_id < crate_id" "crate_id < file_id" "struct_id < file_id" "contains_id < defines_id"
  "\<not> crate_id < struct_id" "\<not> file_id < crate_id" "\<not> file_id < struct_id" "\<not> defines_id < contains_id"
  "struct_id \<noteq> crate_id" "crate_id \<noteq> file_id" "struct_id \<noteq> file_id" "contains_id \<noteq> defines_id"
  "crate_id \<noteq> struct_id" "file_id \<noteq> crate_id" "file_id \<noteq> struct_id" "defines_id \<noteq> contains_id"
  by (simp_all add: sample_ids_def)

lemma sample_malformed: "malformed_spans sample_tree p = Ok []"
  by (simp add: malformed_spans_def sample_tree_def sample_item_def sort_dedup_def)

definition sample_root :: evidence_key where
  "sample_root = EvidenceKey (ByteSpan 0 9) ''source_file''"

definition sample_struct :: evidence_key where
  "sample_struct = EvidenceKey (ByteSpan 0 9) ''struct_item''"

definition sample_start :: builder where
  "sample_start = \<lparr>bd_repository_identity = sample_identity, bd_commit_oid = sample_commit, bd_blob_oid = sample_blob, bd_path =
      ''src/lib.rs'',
     bd_source = sample_source, bd_malformed = [], bd_entities = [], bd_relationships = [], bd_pending_imports = [],
     bd_diagnostics = [], bd_extra_gaps = []\<rparr>"

definition sample_builder :: builder where
  "sample_builder = sample_start\<lparr>bd_entities :=
     [(EntityKey RustCrate ''crate'', \<lparr>dr_key = EntityKey RustCrate ''crate'', dr_display_name = ''crate'',
         dr_properties = [(''crate_root'', ''src/lib.rs'')], dr_evidence = sample_root\<rparr>),
      (EntityKey SourceFile ''file:src/lib.rs'', \<lparr>dr_key = EntityKey SourceFile ''file:src/lib.rs'', dr_display_name =
          ''src/lib.rs'',
         dr_properties = [(''path'', ''src/lib.rs'')], dr_evidence = sample_root\<rparr>),
      (EntityKey RustStruct ''crate::S'', \<lparr>dr_key = EntityKey RustStruct ''crate::S'', dr_display_name = ''S'',
         dr_properties = [(''visibility'', ''private'')], dr_evidence = sample_struct\<rparr>)],
     bd_relationships := [\<lparr>rd_kind = Defines, rd_source = EntityKey RustCrate ''crate'', rd_target = EntityKey RustStruct
         ''crate::S'', rd_evidence = sample_struct\<rparr>]\<rparr>"

lemma sample_keys_order:
  "EntityKey RustCrate x < EntityKey SourceFile y" "\<not> EntityKey SourceFile y < EntityKey RustCrate x"
  "EntityKey RustCrate x < EntityKey RustStruct y" "\<not> EntityKey RustStruct y < EntityKey RustCrate x"
  "EntityKey SourceFile x < EntityKey RustStruct y" "\<not> EntityKey RustStruct y < EntityKey SourceFile x"
  by (simp_all add: less_entity_key_def)

lemma sample_trim: "trim_text ''S'' = ''S''"
  by code_simp

lemma sample_byte: "from_utf8 [83] = Some ''S''"
  using from_utf8_ascii [of "''S''"] by (simp add: as_bytes_def)

lemma sample_name: "node_name sample_item sample_source = Ok ''S''"
  by (simp add: node_name_def sample_item_def sample_source_def child_by_field_name_def node_text_def get_range_def
      as_bytes_def sample_byte)

lemma sample_normalized: "normalize_identifier (\<lambda>s. s) ''S'' = ''S''"
  by (simp only: normalize_identifier_def sample_trim, subst trim_start_matches.simps, simp add: starts_with_def)

lemma sample_visibility: "visibility sample_item sample_source = Ok ''private''"
  by (simp add: visibility_def sample_item_def named_children_def)

lemma sample_declaration: "node_evidence_key sample_item = Ok sample_struct"
  by (simp add: node_evidence_key_def declaration_span_def sample_item_def child_by_field_name_def sample_struct_def)

lemmas sample_item_facts = sample_name sample_normalized sample_visibility sample_declaration

lemma sample_children: "named_children sample_tree = [sample_item]"
  by (simp add: named_children_def sample_tree_def sample_item_def)

lemma sample_declares: "{key. declares (\<lambda>s. s) sample_source [] [sample_item] ''crate'' key} = {EntityKey RustStruct ''crate::S''}"
proof -
  have kind: "sn_kind sample_item = ''struct_item''" by (simp add: sample_item_def)
  have "declares (\<lambda>s. s) sample_source [] [sample_item] ''crate'' key \<longleftrightarrow> key = EntityKey RustStruct
      ''crate::S''" for key
    by (subst declares.simps) (auto simp: kind declared_kind_def sample_item_facts)
  then show ?thesis by simp
qed

lemma sample_extract:
  "extract_builder sample_hash (\<lambda>s. s) sample_tree sample_start =
   finish sample_hash (EntityKey RustCrate ''crate'') (EntityKey SourceFile ''file:src/lib.rs'') sample_root sample_builder"
proof -
  have kind: "sn_kind sample_item = ''struct_item''" by (simp add: sample_item_def)
  have span: "node_span sample_tree = ByteSpan 0 9" by (simp add: sample_tree_def node_span_def)
  show ?thesis
  by (simp add: extract_builder_def Let_def add_entity_def sample_start_def max_s2_entities_def bt_collect_def sample_keys_order kind
      sample_children span
     add_named_declaration_def sample_item_facts push_relationship_def max_s2_relationships_def
    node_is_malformed_def resolve_imports_def sample_builder_def sample_root_def)
qed

lemma sample_evidence_order: "sample_root < sample_struct" "sample_root \<le> sample_struct" "sample_root \<noteq> sample_struct"
    "\<not> sample_struct < sample_root" "\<not> sample_struct \<le> sample_root"
  by (simp_all add: sample_root_def sample_struct_def less_evidence_key_def less_eq_evidence_key_def)

lemma sample_number: "pad_zeros 4 (show_nat (Suc 0)) = ''0001''"
  by code_simp

lemma sample_evidence_ids: "evidence_ids sample_root [sample_root, sample_root, sample_struct] [sample_struct] =
   [(sample_root, ''evidence-s2-0000''), (sample_struct, ''evidence-s2-0001'')]"
  using sample_evidence_order sample_number by (simp add: evidence_ids_def sort_dedup_def)

lemmas sample_text_defs = valid_canonical_path_def valid_bounded_text_def valid_syntax_kind_def valid_capability_def valid_evidence_id_def
  is_git_sha1_def is_ascii_digit_def is_ascii_lowercase_def is_ascii_uppercase_def is_ascii_hexdigit_def text_chars_def is_control_def
      strip_prefix_def

lemma sample_texts:
  "valid_canonical_path ''src/lib.rs''" "is_git_sha1 sample_commit" "is_git_sha1 sample_blob"
  "valid_syntax_kind ''source_file''" "valid_syntax_kind ''struct_item''" "valid_evidence_id ''evidence-s2-0000''" "valid_evidence_id
      ''evidence-s2-0001''"
  "valid_bounded_text ''crate'' 2048" "valid_bounded_text ''crate'' 1024" "valid_bounded_text ''file:src/lib.rs'' 2048"
      "valid_bounded_text ''src/lib.rs'' 1024"
  "valid_bounded_text ''crate::S'' 2048" "valid_bounded_text ''S'' 1024"
  "valid_capability ''grouped_imports''" "valid_capability ''inline_modules''" "valid_capability ''named_trait_implementations''"
  "valid_capability ''named_types''" "valid_capability ''rust_library_root''" "valid_capability ''unicode_identifiers''"
  by (simp_all add: sample_text_defs numeral_eq_Suc sample_commit_def sample_blob_def)

lemma sample_identified: "identified sample_identity sample_commit"
  by (simp add: identified_def sample_texts sample_identity_def parse_identity_def repository_id_prefix_def strip_prefix_def
      is_ascii_lowercase_def identity_tail_char_def is_ascii_digit_def)

definition sample_evidence :: "source_evidence list" where
  "sample_evidence = map (\<lambda>(i, k). \<lparr>sev_evidence_id = i, sev_repository_identity = sample_identity,
     sev_commit_oid = sample_commit, sev_blob_oid = sample_blob, sev_path = ''src/lib.rs'', sev_span = ByteSpan 0 9, sev_syntax_kind =
         k\<rparr>)
     [(''evidence-s2-0000'', ''source_file''), (''evidence-s2-0001'', ''struct_item'')]"

definition sample_crate :: knowledge_entity where
  "sample_crate = \<lparr>ke_entity_id = crate_id, ke_kind = RustCrate, ke_canonical_identity = ''crate'',
     ke_display_name = ''crate'', ke_properties = [(''crate_root'', ''src/lib.rs'')], ke_evidence_ids = [''evidence-s2-0000''],
     ke_claim_id = ''urn:codenoesis:claim:blake3:3437''\<rparr>"

definition sample_file :: knowledge_entity where
  "sample_file = \<lparr>ke_entity_id = file_id, ke_kind = SourceFile, ke_canonical_identity = ''file:src/lib.rs'',
     ke_display_name = ''src/lib.rs'', ke_properties = [(''path'', ''src/lib.rs'')], ke_evidence_ids = [''evidence-s2-0000''],
     ke_claim_id = ''urn:codenoesis:claim:blake3:3237''\<rparr>"

definition sample_type :: knowledge_entity where
  "sample_type = \<lparr>ke_entity_id = struct_id, ke_kind = RustStruct, ke_canonical_identity = ''crate::S'',
     ke_display_name = ''S'', ke_properties = [(''visibility'', ''private'')], ke_evidence_ids = [''evidence-s2-0001''],
     ke_claim_id = ''urn:codenoesis:claim:blake3:6133''\<rparr>"

definition sample_contains :: knowledge_relationship where
  "sample_contains = \<lparr>kr_relationship_id = contains_id, kr_kind = Contains,
     kr_source_entity_id = crate_id, kr_target_entity_id = file_id, kr_evidence_ids = [''evidence-s2-0000''],
     kr_claim_id = ''urn:codenoesis:claim:blake3:3733''\<rparr>"

definition sample_defines :: knowledge_relationship where
  "sample_defines = \<lparr>kr_relationship_id = defines_id, kr_kind = Defines,
     kr_source_entity_id = crate_id, kr_target_entity_id = struct_id, kr_evidence_ids = [''evidence-s2-0001''],
     kr_claim_id = ''urn:codenoesis:claim:blake3:3333''\<rparr>"

definition sample_claims :: "knowledge_claim list" where
  "sample_claims = [entity_claim sample_hash sample_identity sample_file, relationship_claim sample_hash sample_identity sample_defines,
     entity_claim sample_hash sample_identity sample_crate, relationship_claim sample_hash sample_identity sample_contains,
     entity_claim sample_hash sample_identity sample_type]"

definition sample_coverage :: extraction_coverage where
  "sample_coverage = materialize_coverage ''src/lib.rs'' (length sample_source) [] [(sample_root, ''evidence-s2-0000''),
      (sample_struct, ''evidence-s2-0001'')] ''evidence-s2-0000''"

definition sample_graph :: knowledge_graph where
  "sample_graph = \<lparr>kn_repository_identity = sample_identity, kn_commit_oid = sample_commit,
     kn_entities = [sample_type, sample_crate, sample_file], kn_relationships = [sample_contains, sample_defines], kn_claims =
         sample_claims,
     kn_evidence = sample_evidence, kn_diagnostics = [], kn_coverage = sample_coverage\<rparr>"

definition sample_knowledge :: rust_knowledge where
  "sample_knowledge = \<lparr>rk_extraction_chunks = [chunk_of sample_hash sample_graph sample_blob ''src/lib.rs'' (length
      sample_source)], rk_graph = sample_graph\<rparr>"

abbreviation (input) sample_evidence_index :: "(evidence_key, string) btree" where
  "sample_evidence_index \<equiv> [(sample_root, ''evidence-s2-0000''), (sample_struct, ''evidence-s2-0001'')]"

abbreviation (input) sample_entity_index :: "(entity_key, string) btree" where
  "sample_entity_index \<equiv> [(EntityKey RustCrate ''crate'', crate_id), (EntityKey SourceFile ''file:src/lib.rs'', file_id),
     (EntityKey RustStruct ''crate::S'', struct_id)]"

abbreviation (input) sample_parsed :: "knowledge_claim list" where
  "sample_parsed \<equiv> [entity_claim sample_hash sample_identity sample_file, relationship_claim sample_hash sample_identity
      sample_defines,
     entity_claim sample_hash sample_identity sample_crate, entity_claim sample_hash sample_identity sample_type]"

lemmas sample_subject_defs = sample_crate_def sample_file_def sample_type_def sample_contains_def sample_defines_def
lemmas sample_claim_defs = sample_claims_def entity_claim_def relationship_claim_def parser_claim_def containment_rule_def sample_claim_ids

lemma sample_parts:
  "materialize_evidence sample_builder sample_evidence_index = sample_evidence"
  "materialize_entities sample_hash sample_identity (bd_entities sample_builder) sample_evidence_index =
     Ok [sample_type, sample_crate, sample_file]"
  "entity_id_index [sample_type, sample_crate, sample_file] = sample_entity_index"
proof -
  show "materialize_evidence sample_builder sample_evidence_index = sample_evidence"
    by (simp add: materialize_evidence_def sample_builder_def sample_start_def sample_evidence_def sample_root_def sample_struct_def
        source_evidence_key_def)
  show "materialize_entities sample_hash sample_identity (bd_entities sample_builder) sample_evidence_index =
     Ok [sample_type, sample_crate, sample_file]"
    using sample_ids_order sample_evidence_order
    by (simp add: materialize_entities_def sample_builder_def new_knowledge_entity_def sample_entity_ids sample_claim_ids
        sample_subject_defs less_le_not_le)
  show "entity_id_index [sample_type, sample_crate, sample_file] = sample_entity_index"
    by (simp add: entity_id_index_def bt_collect_def sample_keys_order sample_subject_defs)
qed

lemma sample_relationships:
  "materialize_relationships sample_hash sample_identity (bd_relationships sample_builder) sample_entity_index sample_evidence_index =
      Ok [sample_defines]"
  using sample_evidence_order by (simp add: materialize_relationships_def sample_builder_def bs_insert_def bt_keys_def
      sample_keys_order new_knowledge_relationship_def sample_relationship_ids sample_claim_ids sample_defines_def)

lemma sample_parser_claims:
  "sort_key kc_claim_id (parser_claims sample_hash sample_identity [sample_type, sample_crate, sample_file] [sample_defines]) =
      sample_parsed"
  by (simp add: parser_claims_def sample_claim_defs sample_subject_defs)

lemma sample_containment:
  "derive_containment sample_hash sample_identity (EntityKey RustCrate ''crate'') (EntityKey SourceFile ''file:src/lib.rs'')
      sample_entity_index sample_parsed ''evidence-s2-0000'' =
    Ok (sample_contains, relationship_claim sample_hash sample_identity sample_contains)"
  using sample_ids_order by (simp add: derive_containment_def sample_keys_order new_knowledge_relationship_def sample_relationship_ids
      sample_claim_defs sample_subject_defs Let_def bt_collect_def)

lemma sample_sorted: "sort_key kr_relationship_id ([sample_defines] @ [sample_contains]) = [sample_contains, sample_defines]"
  "sort_key kc_claim_id (sample_parsed @ [relationship_claim sample_hash sample_identity sample_contains]) = sample_claims"
  using sample_ids_order by (simp_all add: sample_claim_defs sample_subject_defs)

lemma sample_chunk: "\<lparr>ch_chunk_id = extraction_chunk_id sample_hash sample_identity sample_commit sample_blob ''src/lib.rs'',
              ch_repository_identity = sample_identity, ch_commit_oid = sample_commit, ch_blob_oid = sample_blob,
              ch_path = ''src/lib.rs'', ch_byte_length = length sample_source, ch_entities = [sample_type, sample_crate, sample_file],
              ch_relationships = [sample_defines], ch_claims = sample_parsed, ch_evidence = sample_evidence,
              ch_diagnostics = [], ch_coverage = sample_coverage\<rparr> = chunk_of sample_hash sample_graph sample_blob ''src/lib.rs''
                  (length sample_source)"
  by (simp add: chunk_of_def sample_graph_def sample_claim_defs sample_subject_defs)

lemma sample_builder_fields:
  "bd_repository_identity sample_builder = sample_identity" "bd_commit_oid sample_builder = sample_commit" "bd_blob_oid sample_builder
      = sample_blob"
  "bd_path sample_builder = ''src/lib.rs''" "bd_source sample_builder = sample_source" "bd_diagnostics sample_builder = []"
      "bd_extra_gaps sample_builder = []"
  "map (dr_evidence \<circ> snd) (bd_entities sample_builder) = [sample_root, sample_root, sample_struct]" "map rd_evidence
      (bd_relationships sample_builder) = [sample_struct]"
  by (simp_all add: sample_builder_def sample_start_def)

lemma sample_materialized:
  "finish sample_hash (EntityKey RustCrate ''crate'') (EntityKey SourceFile ''file:src/lib.rs'') sample_root sample_builder =
   and_then (rust_knowledge_validate sample_hash sample_knowledge) (\<lambda>_. Ok sample_knowledge)"
proof -
  have root: "bt_get sample_evidence_index sample_root = Some ''evidence-s2-0000''" by simp
  have limit: "\<not> max_s2_evidence < length sample_evidence_index" by (simp add: max_s2_evidence_def)
  have d: "sort_diagnostics [] = []" by (simp add: sort_diagnostics_def)
  show ?thesis
    unfolding finish_def Let_def sample_builder_fields sample_evidence_ids root sample_parts d sample_coverage_def [symmetric]
      ok_or.simps and_then.simps if_not_P [OF limit] sample_relationships sample_parser_claims sample_containment prod.case
          sample_chunk sample_sorted
    by (simp only: sample_knowledge_def sample_graph_def)
qed

lemma sample_lengths: "length (ec_gaps sample_coverage) \<le> 3" "length (ec_supported_capabilities sample_coverage) = 6"
  by (auto simp: sample_coverage_def materialize_coverage_def intro: order_trans [OF remdups_adj_length])

lemma sample_observations: "n \<ge> 9 \<Longrightarrow> p \<in> {None, Some ''src/lib.rs''} \<Longrightarrow> observations_sound
    sample_evidence n p [] sample_coverage"
  by (auto simp: observations_sound_def sample_coverage_def materialize_coverage_def sample_texts gap_valid_def is_valid_for_def
      evidence_by_id_def bt_collect_def
   knowledge_gap_key_def sample_evidence_def sample_source_def)

lemma sample_evidence_sound: "n \<ge> 9 \<Longrightarrow> p \<in> {None, Some (sample_blob, ''src/lib.rs'')} \<Longrightarrow>
    evidence_sound sample_identity sample_commit n p sample_evidence"
  by (auto simp: evidence_sound_def evidence_valid_def sample_texts is_valid_for_def sample_evidence_def source_evidence_key_def)

lemma sample_subjects: "subjects_valid sample_hash sample_identity [sample_type, sample_crate, sample_file] [sample_contains,
    sample_defines] sample_evidence"
  by (simp add: subjects_valid_def sample_subject_defs knowledge_entity_valid_def relationship_identified_def sample_entity_ids
      sample_relationship_ids sample_claim_ids sample_ids_order
    valid_entity_properties_def property_is_def valid_evidence_references_def max_s2_evidence_ids_def evidence_by_id_def bt_collect_def
        sample_evidence_def sample_texts endpoints_allowed_def valid_visibility_def)

lemma sample_fields:
  "ke_kind sample_crate = RustCrate" "ke_kind sample_file = SourceFile" "ke_kind sample_type = RustStruct"
  "ke_entity_id sample_crate = crate_id" "ke_entity_id sample_file = file_id" "ke_entity_id sample_type = struct_id"
  "kr_kind sample_contains = Contains" "kr_kind sample_defines = Defines"
  "kr_source_entity_id sample_contains = crate_id" "kr_source_entity_id sample_defines = crate_id"
  "kr_target_entity_id sample_contains = file_id" "kr_target_entity_id sample_defines = struct_id"
  by (simp_all add: sample_subject_defs)

lemma acyclic_empty: "acyclic {}"
  by (simp add: acyclic_def)

lemma sample_shape: "graph_shape [sample_type, sample_crate, sample_file] [sample_contains, sample_defines]"
proof -
  have ex: "\<exists>!e. e \<in> set [sample_type, sample_crate, sample_file] \<and> ke_kind e = RustCrate"
    by (rule ex1I [of _ sample_crate]) (auto simp: sample_fields)
  have source: "\<exists>!r. r \<in> set [sample_contains, sample_defines] \<and> kr_kind r = Contains \<and> kr_target_entity_id r =
      file_id"
    by (rule ex1I [of _ sample_contains]) (auto simp: sample_fields)
  have struct: "\<exists>!r. r \<in> set [sample_contains, sample_defines] \<and> kr_kind r = Defines \<and> kr_target_entity_id r =
      struct_id"
    by (rule ex1I [of _ sample_defines]) (auto simp: sample_fields)
  have "child_relation [sample_contains, sample_defines] = {(crate_id, struct_id)}"
    by (auto simp: child_relation_def defined_children_def sample_fields split: if_splits)
  then have "acyclic (child_relation [sample_contains, sample_defines])"
    using sample_ids_order acyclic_empty by (simp add: acyclic_insert)
  moreover have "ke_kind e = SourceFile \<Longrightarrow> ke_entity_id e = file_id" "is_declaration (ke_kind e) \<Longrightarrow>
      ke_entity_id e = struct_id"
      "ke_kind e \<noteq> RustSymbolReference"
    if "e \<in> set [sample_type, sample_crate, sample_file]" for e
    using that by (auto simp: sample_fields is_declaration_def)
  ultimately show ?thesis
    unfolding graph_shape_def using ex source struct by (intro conjI ballI impI) (simp_all only: simp_thms)
qed

lemma sample_publishable: "publishable sample_hash sample_graph"
proof -
  have "graph_bounded sample_graph"
    using sample_lengths by (simp add: graph_bounded_def sample_graph_def sample_claims_def sample_evidence_def max_s2_entities_def
        max_s2_relationships_def max_s2_claims_def
      max_s2_evidence_def max_s2_diagnostics_def max_s2_coverage_gaps_def max_s2_supported_capabilities_def)
  moreover have "collections_ordered (kn_entities sample_graph) (kn_relationships sample_graph) (kn_claims sample_graph)"
    by (simp add: collections_ordered_def sample_graph_def sample_claim_defs sample_subject_defs sample_ids_order)
  moreover have "set (kn_claims sample_graph) = justified_claims sample_hash sample_identity (kn_entities sample_graph)
      (kn_relationships sample_graph)"
    by (auto simp: justified_claims_def sample_graph_def sample_claims_def)
  moreover have "\<exists>!r. r \<in> set (kn_relationships sample_graph) \<and> kr_kind r = Contains"
    by (rule ex1I [of _ sample_contains]) (auto simp: sample_graph_def sample_fields)
  ultimately show ?thesis
    unfolding publishable_def
    using sample_identified sample_observations [of "limit_maximum SingleFileBytes" None] sample_evidence_sound [of "limit_maximum
        SingleFileBytes" None] sample_subjects sample_shape
    by (simp add: sample_graph_def)
qed

lemma sample_valid: "rust_knowledge_validate sample_hash sample_knowledge = Ok ()"
proof -
  have "single_source sample_graph sample_blob ''src/lib.rs'' (length sample_source)"
    using sample_observations [of "length sample_source" "Some ''src/lib.rs''"] sample_evidence_sound [of "length sample_source" "Some
        (sample_blob, ''src/lib.rs'')"]
    by (simp add: single_source_def sample_graph_def sample_source_def)
  then show ?thesis unfolding rust_knowledge_publishable using sample_publishable by (auto simp: sample_knowledge_def)
qed

lemma sample_run:
  "extract_source sample_hash (\<lambda>s. s) (\<lambda>_. Some sample_tree) sample_identity sample_commit sample_blob ''src/lib.rs''
      sample_source = Ok sample_knowledge"
  using sample_extract sample_materialized sample_valid
  by (simp add: extract_source_def sample_malformed sample_start_def sample_source_def)

lemma extract_source_sound_witness:
  "\<exists>k. extract_source sample_hash (\<lambda>s. s) (\<lambda>_. Some sample_tree) sample_identity sample_commit sample_blob
      ''src/lib.rs''
       sample_source = Ok k \<and>
     publishable sample_hash (rk_graph k) \<and>
     {key \<in> entity_keys (kn_entities (rk_graph k)). item_kind (ek_kind key)} = {EntityKey RustStruct ''crate::S''}"
proof -
  have "node_within (length sample_source) sample_tree" by (simp add: sample_tree_def sample_item_def sample_source_def)
  then have "publishable sample_hash (rk_graph sample_knowledge) \<and>
     {key \<in> entity_keys (kn_entities (rk_graph sample_knowledge)). item_kind (ek_kind key)} =
     {key. declares (\<lambda>s. s) sample_source [] [sample_item] ''crate'' key}"
    using extract_source_sound [of "\<lambda>_. Some sample_tree" sample_source sample_hash "\<lambda>s. s" sample_identity
      sample_commit sample_blob "''src/lib.rs''"] by (simp add: extracted_def sample_run sample_malformed sample_children)
  then show ?thesis using sample_run by (simp add: sample_declares)
qed

end
