(* ===== verification/Inventory.thy ===== *)
theory Inventory
  imports Repository_Acquirer Rust_Soundness
begin

text \<open>
  The inventory of an acquired repository (\<open>RepositoryInventory::classify\<close> of
  \<open>codenoesis-domain/src/lib.rs\<close>): every file with its roles, languages, rules and content kind, and the
  extractor that takes the library root from it (\<open>TreeSitterRustExtractor::extract\<close> of
  \<open>codenoesis-lang-rust/src/lib.rs\<close>).
\<close>

section \<open>Vocabulary\<close>

datatype content_kind = TextUtf8 | BinaryOrUnknown

datatype inventory_role =
  Configuration | Contract | Documentation | Manifest | Ownership | Sentinel | Source_role | Unsupported_role

datatype inventory_language = Rust_language | Shell_language

datatype recognized_inventory_kind =
  Kind_CargoManifest | Kind_GitHubCodeowners | Kind_OpenApiContract | Kind_ReadmeDocumentation | Kind_RustfmtConfiguration

datatype classification_rule =
    CargoManifest | GitHubCodeowners | GitTreeEntry | OpenApiContract | ReadmeDocumentation | RustLanguage
  | RustfmtConfiguration | BuildScriptSentinel | ExecutableScriptSentinel | ShellLanguage | UnsupportedFallback

fun rule_str :: "classification_rule \<Rightarrow> string" where
  "rule_str CargoManifest = ''manifest:cargo''"
| "rule_str GitHubCodeowners = ''ownership:github-codeowners''"
| "rule_str GitTreeEntry = ''git-tree-entry''"
| "rule_str OpenApiContract = ''contract:openapi''"
| "rule_str ReadmeDocumentation = ''documentation:readme''"
| "rule_str RustLanguage = ''language:rust''"
| "rule_str RustfmtConfiguration = ''configuration:rustfmt''"
| "rule_str BuildScriptSentinel = ''sentinel:build-script''"
| "rule_str ExecutableScriptSentinel = ''sentinel:executable-script''"
| "rule_str ShellLanguage = ''language:shell''"
| "rule_str UnsupportedFallback = ''unsupported:fallback''"

text \<open>\<open>InventoryRole\<close> and \<open>InventoryLanguage\<close> derive \<open>Ord\<close>: the order of the variants.\<close>

fun role_rank :: "inventory_role \<Rightarrow> nat" where
  "role_rank Configuration = 0"
| "role_rank Contract = 1"
| "role_rank Documentation = 2"
| "role_rank Manifest = 3"
| "role_rank Ownership = 4"
| "role_rank Sentinel = 5"
| "role_rank Source_role = 6"
| "role_rank Unsupported_role = 7"

fun language_rank :: "inventory_language \<Rightarrow> nat" where
  "language_rank Rust_language = 0"
| "language_rank Shell_language = 1"

record inventory_file =
  if_evidence_id :: string
  if_path :: string
  if_mode :: regular_file_mode
  if_blob_oid :: object_id
  if_byte_length :: nat
  if_content_kind :: content_kind
  if_roles :: "inventory_role list"
  if_languages :: "inventory_language list"
  if_rules :: "classification_rule list"
  if_recognized_kind :: "recognized_inventory_kind option"
  if_sentinel :: bool
  if_unsupported :: bool
  if_bytes :: bytes

record repository_inventory =
  ri_bound_revision :: bound_revision
  ri_directory_count :: nat
  ri_files :: "inventory_file list"
  ri_symlinks :: "acquired_symlink list"

section \<open>Classification\<close>

definition has_suffix :: "string \<Rightarrow> string \<Rightarrow> bool" where
  "has_suffix path suffix = ends_with (as_bytes suffix) (as_bytes path)"

definition basename :: "string \<Rightarrow> string" where
  "basename path = last (split_on CHR ''/'' path)"

text \<open>The roles, rules and kind of the one special file a name can stand for.\<close>

definition recognize :: "acquired_file \<Rightarrow> (inventory_role \<times> classification_rule \<times> recognized_inventory_kind) option" where
  "recognize file =
     (let name = basename (af_path file) in
      if name = ''Cargo.toml'' then Some (Manifest, CargoManifest, Kind_CargoManifest)
      else if name \<in> {''openapi.yaml'', ''openapi.yml''} \<and> starts_with (as_bytes ''openapi:'') (af_bytes file)
      then Some (Contract, OpenApiContract, Kind_OpenApiContract)
      else if name = ''rustfmt.toml'' then Some (Configuration, RustfmtConfiguration, Kind_RustfmtConfiguration)
      else if af_path file = ''.github/CODEOWNERS'' then Some (Ownership, GitHubCodeowners, Kind_GitHubCodeowners)
      else if name = ''README.md'' then Some (Documentation, ReadmeDocumentation, Kind_ReadmeDocumentation)
      else None)"

definition classify_file :: "nat \<Rightarrow> acquired_file \<Rightarrow> inventory_file" where
  "classify_file index file =
     (let rust = basename (af_path file) = ''build.rs'' \<or> has_suffix (af_path file) ''.rs'';
          shell = has_suffix (af_path file) ''.sh'';
          recognized = recognize file;
          script = af_path file = ''build.rs'';
          executable = af_mode file = Executable \<and> has_suffix (af_path file) ''.sh'';
          roles = (if rust then [Source_role] else []) @ (if shell then [Source_role] else []) @
            (case recognized of None \<Rightarrow> [] | Some (role, _, _) \<Rightarrow> [role]) @
            (if script then [Sentinel] else []) @ (if executable then [Sentinel] else []);
          languages = (if rust then [Rust_language] else []) @ (if shell then [Shell_language] else []);
          rules = [GitTreeEntry] @ (if rust then [RustLanguage] else []) @ (if shell then [ShellLanguage] else []) @
            (case recognized of None \<Rightarrow> [] | Some (_, rule, _) \<Rightarrow> [rule]) @
            (if script then [BuildScriptSentinel] else []) @ (if executable then [ExecutableScriptSentinel] else []);
          unsupported = (roles = [])
      in \<lparr>if_evidence_id = ''evidence-'' @ pad_zeros 5 (show_nat (index + 1)), if_path = af_path file, if_mode = af_mode file,
          if_blob_oid = af_blob_oid file, if_byte_length = length (af_bytes file),
          if_content_kind = (if \<not> unsupported \<and> from_utf8 (af_bytes file) \<noteq> None then TextUtf8 else BinaryOrUnknown),
          if_roles = remdups_adj (sort_key role_rank (if unsupported then [Unsupported_role] else roles)),
          if_languages = remdups_adj (sort_key language_rank languages),
          if_rules = remdups_adj (sort_key rule_str (if unsupported then rules @ [UnsupportedFallback] else rules)),
          if_recognized_kind = (case recognized of None \<Rightarrow> None | Some (_, _, kind) \<Rightarrow> Some kind),
          if_sentinel = (script \<or> executable), if_unsupported = unsupported, if_bytes = af_bytes file\<rparr>)"

definition classify :: "acquired_repository \<Rightarrow> repository_inventory" where
  "classify acquired =
     \<lparr>ri_bound_revision = ar_bound_revision acquired, ri_directory_count = ar_directory_count acquired,
      ri_files = map (\<lambda>(index, file). classify_file index file) (List.enumerate 0 (sort_key af_path (ar_files acquired))),
      ri_symlinks = sort_key as_path (ar_symlinks acquired)\<rparr>"

section \<open>Extraction from an inventory\<close>

definition extract_inventory ::
  "hash \<Rightarrow> (string \<Rightarrow> string) \<Rightarrow> (string \<Rightarrow> syntax_node option) \<Rightarrow> repository_inventory \<Rightarrow>
   (rust_knowledge, knowledge_error) result" where
  "extract_inventory blake3 nfc parse inventory =
     (case filter (\<lambda>file. has_suffix (if_path file) ''.rs'' \<and> Rust_language \<in> set (if_languages file)) (ri_files inventory) of
        [source_file] \<Rightarrow>
          if if_path source_file \<noteq> ''src/lib.rs'' then Err K_UnsupportedCrateShape
          else if if_content_kind source_file \<noteq> TextUtf8 then Err (K_InvalidUtf8 (if_path source_file))
          else
            and_then (ok_or (K_InvalidUtf8 (if_path source_file)) (from_utf8 (if_bytes source_file))) (\<lambda>source.
            extract_source blake3 nfc parse (identity_str (br_identity (ri_bound_revision inventory)))
              (as_str (br_commit_oid (ri_bound_revision inventory))) (as_str (if_blob_oid source_file)) (if_path source_file) source)
      | _ \<Rightarrow> Err K_UnsupportedCrateShape)"

section \<open>Facts on the classification\<close>

lemma strict_sort_dedup_key:
  assumes "inj k"
  shows "sorted_wrt (<) (map k (remdups_adj (sort_key k xs)))"
proof -
  have "map k (remdups_adj (sort_key k xs)) = remdups_adj (map k (sort_key k xs))"
    using assms by (simp add: remdups_adj_map_injective)
  then show ?thesis by (simp add: strict_sorted_iff sorted_remdups_adj_distinct)
qed

lemma inj_role_rank: "inj role_rank"
proof (rule injI)
  show "r = s" if "role_rank r = role_rank s" for r s using that by (cases r; cases s) simp_all
qed

lemma inj_language_rank: "inj language_rank"
proof (rule injI)
  show "r = s" if "language_rank r = language_rank s" for r s using that by (cases r; cases s) simp_all
qed

lemma inj_rule_str: "inj rule_str"
proof (rule injI)
  show "r = s" if "rule_str r = rule_str s" for r s using that by (cases r; cases s) simp_all
qed

lemma pad_zeros_value:
  "foldl (\<lambda>acc c. acc * 10 + digit_value c) 0 (pad_zeros width s) = foldl (\<lambda>acc c. acc * 10 + digit_value c) 0 s"
proof -
  have "foldl (\<lambda>acc c. acc * 10 + digit_value c) 0 (replicate n CHR ''0'') = 0" for n
    by (induction n) (simp_all add: digit_value_def)
  then show ?thesis by (simp add: pad_zeros_def)
qed

lemma pad_zeros_inject: "pad_zeros width (show_nat m) = pad_zeros width (show_nat n) \<longleftrightarrow> m = n"
  by (metis pad_zeros_value show_nat_value)

text \<open>
  A consistent classification: roles, languages and rules in order and without repetition, the flags of
  the sentinel and of unsupported files as the roles say, text only for supported files of valid UTF-8,
  and the languages as the name of the file says.
\<close>

definition classified :: "inventory_file \<Rightarrow> bool" where
  "classified f \<longleftrightarrow>
     sorted_wrt (<) (map role_rank (if_roles f)) \<and> sorted_wrt (<) (map language_rank (if_languages f)) \<and>
     sorted_wrt (<) (map rule_str (if_rules f)) \<and> GitTreeEntry \<in> set (if_rules f) \<and>
     (if_unsupported f \<longleftrightarrow> if_roles f = [Unsupported_role]) \<and> (if_unsupported f \<longleftrightarrow> Unsupported_role \<in> set (if_roles f)) \<and>
     (if_unsupported f \<longleftrightarrow> UnsupportedFallback \<in> set (if_rules f)) \<and>
     (if_unsupported f \<longleftrightarrow> if_languages f = [] \<and> if_recognized_kind f = None) \<and>
     (if_sentinel f \<longleftrightarrow> Sentinel \<in> set (if_roles f)) \<and>
     (Source_role \<in> set (if_roles f) \<longleftrightarrow> if_languages f \<noteq> []) \<and>
     (if_content_kind f = TextUtf8 \<longleftrightarrow> \<not> if_unsupported f \<and> from_utf8 (if_bytes f) \<noteq> None) \<and>
     (Rust_language \<in> set (if_languages f) \<longleftrightarrow> has_suffix (if_path f) ''.rs'') \<and>
     (Shell_language \<in> set (if_languages f) \<longleftrightarrow> has_suffix (if_path f) ''.sh'') \<and>
     if_byte_length f = length (if_bytes f)"

definition origin :: "inventory_file \<Rightarrow> acquired_file" where
  "origin f = \<lparr>af_path = if_path f, af_mode = if_mode f, af_blob_oid = if_blob_oid f, af_bytes = if_bytes f\<rparr>"

lemma split_on_last: "\<exists>p. s = p @ last (split_on sep s)"
proof (induction s)
  case (Cons x s)
  then obtain p where p: "s = p @ last (split_on sep s)" by blast
  show ?case
  proof (cases "x = sep \<or> tl (split_on sep s) \<noteq> []")
    case True
    then have "last (split_on sep (x # s)) = last (split_on sep s)" by (auto split: list.split)
    with p show ?thesis by (metis append_Cons)
  next
    case False
    then have "last (split_on sep (x # s)) = x # last (split_on sep s)" by (auto split: list.split)
    moreover have "last (split_on sep s) = s"
      using False join_split [of sep s] by (cases "split_on sep s") auto
    ultimately show ?thesis by simp
  qed
qed simp

lemma build_script_suffix: "basename path = ''build.rs'' \<Longrightarrow> has_suffix path ''.rs''"
  using split_on_last [of path "CHR ''/''"] by (auto simp: basename_def has_suffix_def ends_with_def as_bytes_def)

lemma sort_key_Nil_iff [simp]: "sort_key k xs = [] \<longleftrightarrow> xs = []"
  by (metis length_0_conv length_sort)

lemma sort_dedup_key_single: "remdups_adj (sort_key k xs) = [x] \<Longrightarrow> set xs = {x}"
  by (metis remdups_adj_set set_sort empty_set list.simps(15))

lemma recognize_parts:
  "recognize file = Some (role, rule, kind) \<Longrightarrow>
   role \<notin> {Sentinel, Source_role, Unsupported_role} \<and> rule \<noteq> UnsupportedFallback"
  by (auto simp: recognize_def Let_def split: if_splits)

lemma build_script: "af_path file = ''build.rs'' \<Longrightarrow> has_suffix (af_path file) ''.rs''"
  by (simp add: has_suffix_def ends_with_def as_bytes_def)

text \<open>The conditions of the classification, by name, and what the classified file holds in their terms.\<close>

definition rust_name :: "acquired_file \<Rightarrow> bool" where
  "rust_name f = has_suffix (af_path f) ''.rs''"

definition shell_name :: "acquired_file \<Rightarrow> bool" where
  "shell_name f = has_suffix (af_path f) ''.sh''"

definition sentinel_name :: "acquired_file \<Rightarrow> bool" where
  "sentinel_name f \<longleftrightarrow> af_path f = ''build.rs'' \<or> af_mode f = Executable \<and> shell_name f"

lemma rust_condition: "basename (af_path f) = ''build.rs'' \<or> has_suffix (af_path f) ''.rs'' \<longleftrightarrow> rust_name f"
  using build_script_suffix [of "af_path f"] by (auto simp: rust_name_def)

lemma sentinel_supported: "sentinel_name f \<Longrightarrow> rust_name f \<or> shell_name f"
  using build_script [of f] by (auto simp: sentinel_name_def rust_name_def)

lemma classify_unsupported:
  "if_unsupported (classify_file index f) \<longleftrightarrow> \<not> rust_name f \<and> \<not> shell_name f \<and> recognize f = None"
  using sentinel_supported [of f]
  by (auto simp: classify_file_def Let_def rust_condition shell_name_def [symmetric] sentinel_name_def split: option.split)

lemma classify_languages:
  "l \<in> set (if_languages (classify_file index f)) \<longleftrightarrow> l = Rust_language \<and> rust_name f \<or> l = Shell_language \<and> shell_name f"
  by (auto simp: classify_file_def Let_def rust_condition shell_name_def)

lemma classify_roles:
  "r \<in> set (if_roles (classify_file index f)) \<longleftrightarrow>
   (if if_unsupported (classify_file index f) then r = Unsupported_role
    else r = Source_role \<and> (rust_name f \<or> shell_name f) \<or> r = Sentinel \<and> sentinel_name f \<or>
      r \<in> fst ` set_option (recognize f))"
  unfolding classify_file_def Let_def rust_condition shell_name_def [symmetric] sentinel_name_def
  by (simp del: sort_key_simps split: option.split) blast

lemma classify_rules:
  "GitTreeEntry \<in> set (if_rules (classify_file index f))"
  "UnsupportedFallback \<in> set (if_rules (classify_file index f)) \<longleftrightarrow> if_unsupported (classify_file index f)"
  using recognize_parts [of f]
  unfolding classify_file_def Let_def rust_condition shell_name_def [symmetric]
  by (auto simp del: sort_key_simps split: option.split)

lemma classify_fields:
  "if_path (classify_file index f) = af_path f" "if_bytes (classify_file index f) = af_bytes f"
  "if_sentinel (classify_file index f) = sentinel_name f" "if_byte_length (classify_file index f) = length (af_bytes f)"
  "if_recognized_kind (classify_file index f) = map_option (snd \<circ> snd) (recognize f)"
  "if_content_kind (classify_file index f) = TextUtf8 \<longleftrightarrow> \<not> if_unsupported (classify_file index f) \<and> from_utf8 (af_bytes f) \<noteq> None"
  "if_unsupported (classify_file index f) \<Longrightarrow> if_roles (classify_file index f) = [Unsupported_role]"
  by (auto simp: classify_file_def Let_def sentinel_name_def shell_name_def split: option.split)

lemma classify_sorted:
  "sorted_wrt (<) (map role_rank (if_roles (classify_file index f)))"
  "sorted_wrt (<) (map language_rank (if_languages (classify_file index f)))"
  "sorted_wrt (<) (map rule_str (if_rules (classify_file index f)))"
  unfolding classify_file_def Let_def
  by (simp_all only: inventory_file.simps strict_sort_dedup_key inj_role_rank inj_language_rank inj_rule_str)

lemma classify_file_classified: "classified (classify_file index f)"
proof -
  let ?c = "classify_file index f"
  have recognized: "r \<notin> fst ` set_option (recognize f)" if "r \<in> {Sentinel, Source_role, Unsupported_role}" for r
    using that recognize_parts [of f] by (cases "recognize f") auto
  have "if_unsupported ?c \<longleftrightarrow> Unsupported_role \<in> set (if_roles ?c)"
    "if_sentinel ?c \<longleftrightarrow> Sentinel \<in> set (if_roles ?c)"
    using recognized sentinel_supported [of f] by (auto simp: classify_roles classify_fields classify_unsupported)
  moreover have languages: "if_languages ?c = [] \<longleftrightarrow> \<not> rust_name f \<and> \<not> shell_name f"
    using classify_languages [of _ index f] by (metis list.set_intros(1) empty_iff empty_set neq_Nil_conv)
  moreover have "Source_role \<in> set (if_roles ?c) \<longleftrightarrow> if_languages ?c \<noteq> []"
    using recognized by (auto simp: classify_roles classify_unsupported languages)
  moreover have "if_unsupported ?c \<longleftrightarrow> if_roles ?c = [Unsupported_role]"
    using calculation(1) classify_fields(7) by force
  ultimately show ?thesis
    unfolding classified_def
    by (simp add: classify_sorted classify_rules classify_fields classify_unsupported classify_languages rust_name_def shell_name_def)
qed

lemma origin_classify_file [simp]: "origin (classify_file index file) = file"
  by (simp add: origin_def classify_file_def Let_def)

lemma classify_origins: "map origin (ri_files (classify acquired)) = sort_key af_path (ar_files acquired)"
  by (simp add: classify_def comp_def case_prod_beta)

lemma classify_paths: "map if_path (ri_files (classify acquired)) = map af_path (sort_key af_path (ar_files acquired))"
proof -
  have "map if_path (ri_files (classify acquired)) = map af_path (map origin (ri_files (classify acquired)))"
    by (simp add: origin_def)
  then show ?thesis unfolding classify_origins .
qed

lemma classify_evidence: "distinct (map if_evidence_id (ri_files (classify acquired)))"
proof -
  have "map if_evidence_id (ri_files (classify acquired)) =
      map (\<lambda>n. ''evidence-'' @ pad_zeros 5 (show_nat (n + 1))) [0..<length (ar_files acquired)]"
    by (rule nth_equalityI) (simp_all add: classify_def classify_file_def Let_def nth_enumerate_eq)
  then show ?thesis by (simp add: distinct_map inj_on_def pad_zeros_inject)
qed

lemma rust_files:
  "map origin (filter (\<lambda>file. has_suffix (if_path file) ''.rs'' \<and> Rust_language \<in> set (if_languages file)) (ri_files (classify acquired))) =
   filter (\<lambda>file. has_suffix (af_path file) ''.rs'') (sort_key af_path (ar_files acquired))"
proof -
  have "Rust_language \<in> set (if_languages f) \<longleftrightarrow> has_suffix (if_path f) ''.rs''" if "f \<in> set (ri_files (classify acquired))" for f
    using that classify_file_classified by (auto simp: classify_def classified_def)
  then have "filter (\<lambda>file. has_suffix (if_path file) ''.rs'' \<and> Rust_language \<in> set (if_languages file)) (ri_files (classify acquired)) =
      filter (\<lambda>file. has_suffix (if_path file) ''.rs'') (ri_files (classify acquired))"
    by (intro filter_cong) auto
  moreover have "filter (\<lambda>file. has_suffix (af_path file) ''.rs'') (map origin (ri_files (classify acquired))) =
      map origin (filter (\<lambda>file. has_suffix (if_path file) ''.rs'') (ri_files (classify acquired)))"
    by (simp add: filter_map comp_def origin_def)
  ultimately show ?thesis by (simp only: classify_origins)
qed

text \<open>The library root of an acquired repository: its only file of Rust source, at the fixed path.\<close>

definition library_root :: "acquired_repository \<Rightarrow> acquired_file \<Rightarrow> bool" where
  "library_root acquired f \<longleftrightarrow>
     filter (\<lambda>file. has_suffix (af_path file) ''.rs'') (ar_files acquired) = [f] \<and> af_path f = ''src/lib.rs''"

definition root_extracted ::
  "hash \<Rightarrow> (string \<Rightarrow> string) \<Rightarrow> (string \<Rightarrow> syntax_node option) \<Rightarrow> acquired_repository \<Rightarrow> acquired_file \<Rightarrow> rust_knowledge \<Rightarrow> bool" where
  "root_extracted blake3 nfc parse acquired f k \<longleftrightarrow>
     library_root acquired f \<and>
     (\<exists>source. from_utf8 (af_bytes f) = Some source \<and>
        extracted blake3 nfc parse (identity_str (br_identity (ar_bound_revision acquired)))
          (as_str (br_commit_oid (ar_bound_revision acquired))) (as_str (af_blob_oid f)) ''src/lib.rs'' source k)"

lemma filter_sort_single: "filter P (sort_key k xs) = [x] \<longleftrightarrow> filter P xs = [x]"
proof -
  have "filter P (sort_key k xs) = sort_key k (filter P xs)" by (simp add: filter_sort)
  moreover have "sort_key k ys = [x] \<longleftrightarrow> ys = [x]" for ys
    by (cases ys; cases "tl ys") (auto dest: arg_cong [of _ _ length])
  ultimately show ?thesis by simp
qed

lemma extract_inventory_cases:
  "extract_inventory blake3 nfc parse (classify acquired) =
     (case filter (\<lambda>file. has_suffix (af_path file) ''.rs'') (sort_key af_path (ar_files acquired)) of
        [f] \<Rightarrow>
          if af_path f \<noteq> ''src/lib.rs'' then Err K_UnsupportedCrateShape
          else case from_utf8 (af_bytes f) of
            None \<Rightarrow> Err (K_InvalidUtf8 (af_path f))
          | Some source \<Rightarrow>
              extract_source blake3 nfc parse (identity_str (br_identity (ar_bound_revision acquired)))
                (as_str (br_commit_oid (ar_bound_revision acquired))) (as_str (af_blob_oid f)) (af_path f) source
      | _ \<Rightarrow> Err K_UnsupportedCrateShape)"
proof -
  let ?files = "filter (\<lambda>file. has_suffix (if_path file) ''.rs'' \<and> Rust_language \<in> set (if_languages file)) (ri_files (classify acquired))"
  show ?thesis
  proof (cases "\<exists>f. ?files = [f]")
    case True
    then obtain c where c: "?files = [c]" by blast
    then have "c \<in> set ?files" by simp
    then have c': "classified c" "Rust_language \<in> set (if_languages c)"
      using classify_file_classified by (auto simp: classify_def)
    then have "if_content_kind c = TextUtf8 \<longleftrightarrow> from_utf8 (if_bytes c) \<noteq> None" by (auto simp: classified_def)
    then show ?thesis
      unfolding rust_files [symmetric] extract_inventory_def c
      by (auto simp: origin_def classify_def split: option.split)
  next
    case False
    then show ?thesis
      unfolding rust_files [symmetric] extract_inventory_def by (auto split: list.split)
  qed
qed

lemma extract_inventory_yields:
  assumes "\<And>source root. parse source = Some root \<Longrightarrow> node_within (length source) root"
  shows "yields (\<lambda>_. True) (extract_inventory blake3 nfc parse (classify acquired))"
  unfolding extract_inventory_cases
  by (auto split: list.split option.split intro!: extract_source_yields assms)

lemma extract_inventory_result:
  assumes "extract_inventory blake3 nfc parse (classify acquired) = Ok k"
  shows "\<exists>f. root_extracted blake3 nfc parse acquired f k"
proof -
  from assms obtain f source where f: "filter (\<lambda>file. has_suffix (af_path file) ''.rs'') (sort_key af_path (ar_files acquired)) = [f]"
    and path: "af_path f = ''src/lib.rs''" and source: "from_utf8 (af_bytes f) = Some source"
    and run: "extract_source blake3 nfc parse (identity_str (br_identity (ar_bound_revision acquired)))
      (as_str (br_commit_oid (ar_bound_revision acquired))) (as_str (af_blob_oid f)) ''src/lib.rs'' source = Ok k"
    unfolding extract_inventory_cases by (auto split: list.splits option.splits if_splits)
  from f have "filter (\<lambda>file. has_suffix (af_path file) ''.rs'') (ar_files acquired) = [f]" by (simp only: filter_sort_single)
  with path source extract_source_result [OF run] show ?thesis
    unfolding root_extracted_def library_root_def by blast
qed

section \<open>Properties\<close>

text \<open>
  C13. The inventory of an acquired repository lists each of its files once, unchanged and in the order
  of the paths, under evidence identifiers that are all different; and every file is classified
  consistently: roles, languages and rules are ordered and without repetition, a file is unsupported
  exactly when no rule applies, a sentinel exactly when it has that role, Rust or shell exactly by its
  name, and text only when it is supported and valid UTF-8.
\<close>

theorem classify_exact:
  "map origin (ri_files (classify acquired)) = sort_key af_path (ar_files acquired) \<and>
   distinct (map if_evidence_id (ri_files (classify acquired))) \<and>
   list_all classified (ri_files (classify acquired)) \<and>
   ri_symlinks (classify acquired) = sort_key as_path (ar_symlinks acquired)"
  using classify_origins classify_evidence classify_file_classified
  by (auto simp: list_all_iff classify_def)


definition sample_repository :: acquired_repository where
  "sample_repository =
     \<lparr>ar_bound_revision = \<lparr>br_identity = RepositoryIdentity sample_identity, br_commit_oid = ObjectId sample_commit,
        br_tree_oid = ObjectId sample_blob\<rparr>, ar_directory_count = 2,
      ar_files = [\<lparr>af_path = ''src/lib.rs'', af_mode = Regular, af_blob_oid = ObjectId sample_blob, af_bytes = as_bytes sample_source\<rparr>],
      ar_symlinks = []\<rparr>"

definition sample_parse :: "string \<Rightarrow> syntax_node option" where
  "sample_parse source = (if source = sample_source then Some sample_tree else None)"


end
