(* ===== verification/Spec2Isabelle.thy ===== *)
theory Spec2Isabelle
  imports Packed_Database Repository_Acquirer Gitmodules_Render Boundary_Report Constant_Extraction Inventory
begin

text \<open>
  \<^bold>\<open>CodeNoesis: from a Git repository to published knowledge.\<close>

  CodeNoesis reads a local Git repository without running Git, extracts what its source declares, and
  publishes it as a graph of entities, relationships and claims in which everything is backed by
  evidence. This development follows the program along that path: the repository adapter
  (\<open>crates/codenoesis-repository\<close>), the domain model (\<open>crates/codenoesis-domain\<close>) and the Rust
  extractor (\<open>crates/codenoesis-lang-rust\<close>).

  \<^bold>\<open>The parts and how they interact.\<close>
  \<^item> The adapter checks the shape of the repository, resolves a revision to a commit and reads the tree
    of the commit, with every file, committed link and gitlink, under fixed limits. Objects come from
    loose files or from packs.
  \<^item> The packed database opens the pairs of pack and index below \<open>objects/pack\<close>, validates them, and
    rebuilds objects from deltas with an explicit stack of tasks, a cache and cumulative budgets.
  \<^item> The boundary report joins the gitlinks of the tree with the parsed \<open>.gitmodules\<close> and with nested
    repositories that were verified explicitly.
  \<^item> The inventory classifies the acquired files; the extractor takes the library root from it, walks
    its syntax tree, and assembles a chunk and a graph, which the domain model validates.
  \<^item> The constant evaluator gives values to the constants and enum discriminants of extracted source,
    reports what it cannot evaluate, and builds and validates a graph of its own.

  \<^bold>\<open>Conventions.\<close> A Rust function that returns a \<open>Result\<close> and may abort is a function into
  \<open>result\<close> (theory \<open>Prelude\<close>): \<open>Ok\<close>, \<open>Err\<close> with the typed error of the source, and \<open>Panic\<close> for an
  unwrap, an index or a slice out of range. That nothing panics is therefore a theorem. A mutable object
  is a record passed and returned; where an error ends the whole operation the new state is dropped, and
  where the code goes on after an error (the evaluator) it is returned with the error. Integers are
  natural numbers with the checked or saturating operation of the source written out, and words where
  bits are shifted (\<open>Delta\<close>, \<open>Pack_File\<close>). A \<open>str\<close> is the list of its UTF-8 bytes; \<open>BTreeMap\<close> and
  \<open>BTreeSet\<close> are the ordered lists of \<open>Ordered_Map\<close>.

  \<^bold>\<open>Parameters.\<close> Code that is not part of the repository is an argument of the definitions that use it:
  the file system (\<open>world\<close>, \<open>host\<close>; every read may answer differently in another world), zlib, CRC and
  the SHA-1 functions (\<open>extern\<close>), SHA-256 and BLAKE3, the Unicode tables beyond ASCII, the NFC
  normalisation, and the tree-sitter parser, a function from a text to a tree. The one hypothesis on the
  parser is that the nodes of its tree lie within the text.

  \<^bold>\<open>Theories, code and results.\<close>
  \<^item> \<open>Prelude\<close>, \<open>Rust_Text\<close>, \<open>Ordered_Map\<close>: outcomes, checked arithmetic, big-endian words, texts and
    UTF-8, ordered maps (locale \<open>ordered_map\<close>).
  \<^item> \<open>Domain_Types\<close>: identifiers, revisions, limits and acquisition errors (\<open>domain/src/lib.rs\<close>,
    \<open>s1_packed.rs\<close>).
  \<^item> \<open>Pack_Budgets\<close> (\<open>packed/mod.rs\<close>): the budgets, five instances of the locale \<open>bounded_counter\<close>.
  \<^item> \<open>Delta\<close> (\<open>packed/delta.rs\<close>): the interpreter of delta programs; it refines a decoder without cursor
    and limits, accepts every standard encoding, and truncates an oversized size header.
  \<^item> \<open>Tracked_Files\<close> (\<open>packed/catalog.rs\<close>): files with metadata stamps and the catalog; an opened catalog
    is exactly the pairs of the directory.
  \<^item> \<open>Pack_Index\<close> (\<open>packed/index.rs\<close>): an accepted index is well formed, every encoded table is read
    back, and the lookups are exact (locale \<open>object_table\<close>).
  \<^item> \<open>Pack_File\<close> (\<open>packed/pack.rs\<close>, \<open>hash.rs\<close>): opening, entry headers and bounded inflation.
  \<^item> \<open>Git_Objects\<close> (\<open>repository/src/lib.rs\<close>): headers, trees, commits; trees are parsed exactly.
  \<^item> \<open>Packed_Database\<close> (\<open>packed/mod.rs\<close>): opening validates every pack; the stack of tasks computes the
    recursion it replaces and ends; every read of every session returns only bytes that hash to the
    requested identifier.
  \<^item> \<open>Object_Reader\<close>, \<open>Internal_Symlinks\<close>, \<open>Tree_Traversal\<close>, \<open>Repository_Acquirer\<close>
    (\<open>repository/src/lib.rs\<close>, \<open>internal_symlinks.rs\<close>): the reader interface (locale \<open>object_reader\<close>,
    interpreted for loose, packed and mixed databases), links, the traversal and the operations of the
    adapter; inventories are sound and exact, links stay inside the tree, and a nested repository is
    bound only if it did not change while it was read.
  \<^item> \<open>Boundary_Types\<close>, \<open>Gitmodules\<close>, \<open>Gitmodules_Render\<close>, \<open>Boundary_Report\<close>
    (\<open>domain/src/s1_boundaries.rs\<close>): parsing and rendering of \<open>.gitmodules\<close> round trip, accepted files
    are sound, and a report describes its inputs exactly.
  \<^item> \<open>Constant_Values\<close>, \<open>Constant_Tokens\<close>, \<open>Constant_Evaluation\<close>, \<open>Constant_Report\<close>, \<open>Constant_Graph\<close>,
    \<open>Constant_Validation\<close> model the evaluator (\<open>lang-rust/src/constant_evaluation.rs\<close>,
    \<open>domain/src/s4_r16.rs\<close>); \<open>Constant_Semantics\<close> says what constants mean, \<open>Constant_Parser\<close> (locale
    \<open>resolver\<close>), \<open>Constant_Results\<close> and \<open>Constant_Extraction\<close> prove that evaluation ends, is exact and
    well typed, and that the graph it gives rise to passes its validation.
  \<^item> \<open>Stable_Ids\<close>: identifiers are hashes of an unambiguous encoding of their components.
  \<^item> \<open>Knowledge_Model\<close> (\<open>domain/src/knowledge.rs\<close>) and \<open>Knowledge_Validation\<close>: the graph, its
    constructors and checks; what the validation accepts, exactly; the histories of claims.
  \<^item> \<open>Rust_Extraction\<close> (\<open>lang-rust/src/lib.rs\<close>) with \<open>Rust_Builder\<close>, \<open>Rust_Knowledge\<close> and
    \<open>Rust_Soundness\<close>: the walk and the builder, the invariant every operation keeps, the graph that
    results from it, and a complete run on a sample.
  \<^item> \<open>Inventory\<close> (\<open>domain/src/lib.rs\<close>, \<open>lang-rust/src/lib.rs\<close>): classification of the acquired files and
    extraction from the inventory.
  \<^item> This theory: acquisition, classification and extraction composed.

  \<^bold>\<open>Bounds and fuel.\<close> The traversal and the walk over syntax trees end structurally or at the depth limit
  of the source. The stack of tasks of the packed database ends by a weight of its tasks, the link loop
  by the limits on expansions and components, the parsers of indexes, deltas, trees, tokens and
  \<open>.gitmodules\<close> by their input. The search of definitions in a graph ends because it visits each entity
  once. Only the recursive evaluation of constants has fuel: a call with more fuel than there are
  candidates not yet visited never runs out of it, and the driver gives it that much, so that the value
  \<open>Panic\<close> that stands for running out is excluded by a theorem.

  \<^bold>\<open>Not modelled.\<close> The grammar of tree-sitter and the later extraction profiles that walk expressions
  with it (\<open>semantic_depth.rs\<close>, \<open>callable_semantics.rs\<close>, \<open>local_flow.rs\<close> and their companions), with the
  data models they fill; the collection of constant candidates from syntax trees; Cargo manifests, whose
  documents the toml parser owns; the serialised documents of \<open>codenoesis-contracts\<close>, which serde derives;
  the SQLite store, SCIP import through protobuf, Java and Kotlin extraction, and the command line. In
  the modelled files, the texts of error messages, the variants for Windows and the tests are left out.
\<close>

section \<open>From a repository to its knowledge\<close>

lemma acquire_inventory_facts:
  assumes "acquire_inventory h self root identity revision = Ok acquired"
  shows "commit_names_tree h (br_commit_oid (ar_bound_revision acquired)) (br_tree_oid (ar_bound_revision acquired))"
    "f \<in> set (ar_files acquired) \<Longrightarrow> object_stored h (af_blob_oid f) Blob (af_bytes f)"
proof -
  from assms obtain r where "acquire_inventory_internal h self root identity revision False = Ok r" "acquired = arb_repository r"
    by (cases "acquire_inventory_internal h self root identity revision False") (auto simp: acquire_inventory_def)
  with acquire_internal_facts show
    "commit_names_tree h (br_commit_oid (ar_bound_revision acquired)) (br_tree_oid (ar_bound_revision acquired))"
    "f \<in> set (ar_files acquired) \<Longrightarrow> object_stored h (af_blob_oid f) Blob (af_bytes f)"
    by (fastforce simp: inventory_ok_def Let_def list_all_iff file_stored_def)+
qed

lemma acquire_inventory_not_Panic: "acquire_inventory h self root identity revision \<noteq> Panic"
  using acquire_internal_not_Panic [of h self root identity revision False]
  by (cases "acquire_inventory_internal h self root identity revision False") (auto simp: acquire_inventory_def)

lemma root_extracted_file: "root_extracted blake3 nfc parse acquired f k \<Longrightarrow> f \<in> set (ar_files acquired)"
  using filter_is_subset [of "\<lambda>file. has_suffix (af_path file) ''.rs''" "ar_files acquired"]
  by (auto simp: root_extracted_def library_root_def)



end
